(* ===== verification/Prelude.thy ===== *)
theory Prelude
  imports
    Complex_Main
    "HOL-Library.Char_ord"
    "HOL-Library.List_Lexorder"
    "HOL-Library.Multiset"
begin

text \<open>
  What the components share: the JavaScript strings, arrays, objects and numbers the source
  uses, and the lemmas about them. A JavaScript string is a \<open>string\<close> whose characters are the
  code units 0 to 255 (Latin-1); case mapping, white space and the order of strings are the
  ones JavaScript has on that range. An object or a \<open>Map\<close> with string keys is an association
  list in insertion order. Numbers that count or measure milliseconds are integers.
\<close>

named_theorems js_simps \<open>unfolding equations of the JavaScript string and array operations\<close>
named_theorems obj_simps \<open>lookup and key facts about objects\<close>

subsection \<open>Strings\<close>

definition nl :: string where
  "nl = [CHR 0x0A]"

definition is_ws :: "char \<Rightarrow> bool" where
  "is_ws c = (of_char c \<in> {9, 10, 11, 12, 13, 32, 160 :: nat})"

definition is_digit :: "char \<Rightarrow> bool" where
  "is_digit c = (48 \<le> (of_char c :: nat) \<and> (of_char c :: nat) \<le> 57)"

definition is_lower :: "char \<Rightarrow> bool" where
  "is_lower c = (97 \<le> (of_char c :: nat) \<and> (of_char c :: nat) \<le> 122)"

definition is_upper :: "char \<Rightarrow> bool" where
  "is_upper c = (65 \<le> (of_char c :: nat) \<and> (of_char c :: nat) \<le> 90)"

text \<open>\<open>toLowerCase\<close>: ASCII capitals and the Latin-1 capitals 192 to 222 (215 is the times sign).\<close>

definition lower_char :: "char \<Rightarrow> char" where
  "lower_char c =
     (let n = (of_char c :: nat)
      in if (65 \<le> n \<and> n \<le> 90) \<or> (192 \<le> n \<and> n \<le> 222 \<and> n \<noteq> 215) then char_of (n + 32) else c)"

definition to_lower :: "string \<Rightarrow> string" where
  "to_lower s = map lower_char s"

text \<open>\<open>toUpperCase\<close> on ASCII letters; other characters are kept.\<close>

definition upper_ascii :: "char \<Rightarrow> char" where
  "upper_ascii c = (if is_lower c then char_of ((of_char c :: nat) - 32) else c)"

definition trim_start :: "string \<Rightarrow> string" where
  "trim_start s = dropWhile is_ws s"

definition trim_end :: "string \<Rightarrow> string" where
  "trim_end s = rev (dropWhile is_ws (rev s))"

definition trim :: "string \<Rightarrow> string" where
  "trim s = trim_end (trim_start s)"

fun starts_with :: "string \<Rightarrow> string \<Rightarrow> bool" where
  "starts_with s [] = True"
| "starts_with [] (p # ps) = False"
| "starts_with (c # s) (p # ps) = (c = p \<and> starts_with s ps)"

definition ends_with :: "string \<Rightarrow> string \<Rightarrow> bool" where
  "ends_with s p = starts_with (rev s) (rev p)"

fun str_includes :: "string \<Rightarrow> string \<Rightarrow> bool" where
  "str_includes [] p = (p = [])"
| "str_includes (c # s) p = (starts_with (c # s) p \<or> str_includes s p)"

fun join :: "string \<Rightarrow> string list \<Rightarrow> string" where
  "join sep [] = []"
| "join sep [x] = x"
| "join sep (x # y # ys) = x @ sep @ join sep (y # ys)"

text \<open>\<open>s.split(d)\<close> for a one-character separator.\<close>

fun split_char :: "char \<Rightarrow> string \<Rightarrow> string list" where
  "split_char d [] = [[]]"
| "split_char d (c # s) =
     (if c = d then [] # split_char d s
      else case split_char d s of [] \<Rightarrow> [[c]] | w # ws \<Rightarrow> (c # w) # ws)"

text \<open>\<open>s.indexOf(c)\<close> and \<open>s.lastIndexOf(c)\<close> for one character, \<open>None\<close> for -1.\<close>

fun index_of :: "char \<Rightarrow> string \<Rightarrow> nat option" where
  "index_of d [] = None"
| "index_of d (c # s) = (if c = d then Some 0 else map_option Suc (index_of d s))"

fun last_index_of :: "char \<Rightarrow> string \<Rightarrow> nat option" where
  "last_index_of d [] = None"
| "last_index_of d (c # s) =
     (case last_index_of d s of Some i \<Rightarrow> Some (Suc i) | None \<Rightarrow> if c = d then Some 0 else None)"

text \<open>A missing or empty string is falsy.\<close>

definition truthy :: "string option \<Rightarrow> bool" where
  "truthy x = (case x of None \<Rightarrow> False | Some s \<Rightarrow> s \<noteq> [])"

text \<open>\<open>encodeURIComponent\<close> on ASCII.\<close>

definition uri_safe :: "char \<Rightarrow> bool" where
  "uri_safe c = (is_lower c \<or> is_upper c \<or> is_digit c \<or> c \<in> set ''-_.!~*()'' \<or> c = CHR 0x27)"

definition hex_char :: "nat \<Rightarrow> char" where
  "hex_char n = ''0123456789ABCDEF'' ! n"

definition encodeURIComponent :: "string \<Rightarrow> string" where
  "encodeURIComponent s =
     concat (map (\<lambda>c. if uri_safe c then [c]
                      else [CHR ''%'', hex_char (of_char c div 16), hex_char (of_char c mod 16)]) s)"

subsection \<open>Decimal numerals\<close>

definition digit_char :: "nat \<Rightarrow> char" where
  "digit_char n = ''0123456789'' ! n"

fun show_nat :: "nat \<Rightarrow> string" where
  "show_nat n =
     (if n < 10 then [digit_char n] else show_nat (n div 10) @ [digit_char (n mod 10)])"

declare show_nat.simps [simp del]

definition show_int :: "int \<Rightarrow> string" where
  "show_int i = (if i < 0 then ''-'' @ show_nat (nat (- i)) else show_nat (nat i))"

definition digit_val :: "char \<Rightarrow> nat" where
  "digit_val c = of_char c - 48"

definition read_nat :: "string \<Rightarrow> nat" where
  "read_nat s = foldl (\<lambda>n c. 10 * n + digit_val c) 0 s"

subsection \<open>Arrays: stable sorting by a comparator\<close>

text \<open>
  \<open>Array.prototype.sort\<close> is stable. For a consistent comparator its result is the one
  stable insertion gives.
\<close>

fun insert_by :: "('a \<Rightarrow> 'a \<Rightarrow> int) \<Rightarrow> 'a \<Rightarrow> 'a list \<Rightarrow> 'a list" where
  "insert_by cmp x [] = [x]"
| "insert_by cmp x (y # ys) = (if cmp x y \<le> 0 then x # y # ys else y # insert_by cmp x ys)"

definition sort_by :: "('a \<Rightarrow> 'a \<Rightarrow> int) \<Rightarrow> 'a list \<Rightarrow> 'a list" where
  "sort_by cmp xs = foldr (insert_by cmp) xs []"

text \<open>The comparator \<open>sort()\<close> uses when none is given: code unit order of strings.\<close>

definition code_unit_cmp :: "string \<Rightarrow> string \<Rightarrow> int" where
  "code_unit_cmp a b = (if a < b then -1 else if a = b then 0 else 1)"

text \<open>First occurrences, in order: \<open>[...new Set(xs)]\<close>.\<close>

definition uniq :: "'a list \<Rightarrow> 'a list" where
  "uniq xs = rev (remdups (rev xs))"

definition array_includes :: "'a list \<Rightarrow> 'a \<Rightarrow> bool" where
  "array_includes xs x = (x \<in> set xs)"

subsection \<open>Objects\<close>

type_synonym 'v obj = "(string \<times> 'v) list"

abbreviation obj_get :: "'v obj \<Rightarrow> string \<Rightarrow> 'v option" where
  "obj_get m k \<equiv> map_of m k"

abbreviation obj_keys :: "'v obj \<Rightarrow> string list" where
  "obj_keys m \<equiv> map fst m"

text \<open>Assignment keeps the position of an existing key and appends a new one.\<close>

fun obj_put :: "string \<Rightarrow> 'v \<Rightarrow> 'v obj \<Rightarrow> 'v obj" where
  "obj_put k v [] = [(k, v)]"
| "obj_put k v ((k', v') # m) = (if k = k' then (k, v) # m else (k', v') # obj_put k v m)"

definition obj_of :: "(string \<times> 'v) list \<Rightarrow> 'v obj" where
  "obj_of es = foldl (\<lambda>m (k, v). obj_put k v m) [] es"

text \<open>Counting occurrences: \<open>m.set(k, (m.get(k) ?? 0) + 1)\<close>.\<close>

definition count_key :: "nat obj \<Rightarrow> string \<Rightarrow> nat obj" where
  "count_key m k = obj_put k ((case obj_get m k of None \<Rightarrow> 0 | Some n \<Rightarrow> n) + 1) m"

definition tally :: "string list \<Rightarrow> nat obj" where
  "tally ks = foldl count_key [] ks"

subsection \<open>Comparators\<close>

text \<open>
  The contract of a comparator passed to \<open>sort\<close>: swapping the arguments swaps the sign, and
  \<open>\<le>\<close> is transitive. \<open>localeCompare\<close> promises it, the default comparator has it.
\<close>

locale comparator =
  fixes cmp :: "'a \<Rightarrow> 'a \<Rightarrow> int"
  assumes cmp_swap: "cmp x y < 0 \<longleftrightarrow> 0 < cmp y x"
    and cmp_trans: "cmp x y \<le> 0 \<Longrightarrow> cmp y z \<le> 0 \<Longrightarrow> cmp x z \<le> 0"
begin

lemma cmp_refl: "cmp x x = 0"
  using cmp_swap [of x x] by linarith

lemma cmp_total: "\<not> cmp x y \<le> 0 \<Longrightarrow> cmp y x \<le> 0"
  using cmp_swap [of y x] by linarith

lemma cmp_zero_sym: "cmp x y = 0 \<longleftrightarrow> cmp y x = 0"
  using cmp_swap [of x y] cmp_swap [of y x] by linarith

lemma cmp_zero_le: "cmp x y = 0 \<Longrightarrow> cmp x z \<le> 0 \<longleftrightarrow> cmp y z \<le> 0"
  using cmp_trans cmp_zero_sym by (metis order_refl)

lemma set_insert_by: "set (insert_by cmp x xs) = insert x (set xs)"
  by (induction xs) auto

lemma mset_insert_by: "mset (insert_by cmp x xs) = {#x#} + mset xs"
  by (induction xs) auto

lemma sorted_insert_by:
  "sorted_wrt (\<lambda>x y. cmp x y \<le> 0) xs \<Longrightarrow> sorted_wrt (\<lambda>x y. cmp x y \<le> 0) (insert_by cmp x xs)"
proof (induction xs)
  case Nil
  then show ?case by simp
next
  case (Cons y ys)
  show ?case
  proof (cases "cmp x y \<le> 0")
    case True
    with Cons.prems cmp_trans show ?thesis by fastforce
  next
    case False
    with Cons cmp_total show ?thesis by (auto simp: set_insert_by)
  qed
qed

lemma filter_insert_by_equal:
  assumes "cmp z x = 0"
  shows "filter (\<lambda>y. cmp z y = 0) (insert_by cmp x xs) = x # filter (\<lambda>y. cmp z y = 0) xs"
proof (induction xs)
  case Nil
  with assms show ?case by simp
next
  case (Cons y ys)
  have "cmp z y \<noteq> 0" if "\<not> cmp x y \<le> 0"
    using that assms cmp_zero_le cmp_zero_sym by (metis order_refl)
  with Cons assms show ?case by simp
qed

lemma filter_insert_by_other:
  "cmp z x \<noteq> 0 \<Longrightarrow>
   filter (\<lambda>y. cmp z y = 0) (insert_by cmp x xs) = filter (\<lambda>y. cmp z y = 0) xs"
  by (induction xs) auto

lemma sort_by_simps [simp]:
  "sort_by cmp [] = []"
  "sort_by cmp (x # xs) = insert_by cmp x (sort_by cmp xs)"
  by (simp_all add: sort_by_def)

lemma mset_sort_by [simp]: "mset (sort_by cmp xs) = mset xs"
  by (induction xs) (auto simp: mset_insert_by)

lemma set_sort_by [simp]: "set (sort_by cmp xs) = set xs"
  using mset_sort_by [of xs] by (metis set_mset_mset)

lemma length_sort_by [simp]: "length (sort_by cmp xs) = length xs"
  using mset_sort_by [of xs] by (metis size_mset)

lemma sorted_sort_by: "sorted_wrt (\<lambda>x y. cmp x y \<le> 0) (sort_by cmp xs)"
  by (induction xs) (auto simp: sorted_insert_by)

lemma stable_sort_by: "filter (\<lambda>y. cmp z y = 0) (sort_by cmp xs) = filter (\<lambda>y. cmp z y = 0) xs"
proof (induction xs)
  case Nil
  then show ?case by simp
next
  case (Cons x xs)
  then show ?case
    by (cases "cmp z x = 0") (simp_all add: filter_insert_by_equal filter_insert_by_other)
qed

end

text \<open>A comparator through a key is a comparator, and so is a first comparator refined by a second.\<close>

lemma comparator_key: "comparator cmp \<Longrightarrow> comparator (\<lambda>x y. cmp (f x) (f y))"
  by (auto simp: comparator_def)

definition then_cmp :: "('a \<Rightarrow> 'a \<Rightarrow> int) \<Rightarrow> ('a \<Rightarrow> 'a \<Rightarrow> int) \<Rightarrow> 'a \<Rightarrow> 'a \<Rightarrow> int" where
  "then_cmp c d x y = (if c x y \<noteq> 0 then c x y else d x y)"

lemma comparator_then:
  assumes "comparator c" and "comparator d"
  shows "comparator (then_cmp c d)"
proof
  fix x y
  show "then_cmp c d x y < 0 \<longleftrightarrow> 0 < then_cmp c d y x"
    using comparator.cmp_swap [OF assms(1)] comparator.cmp_swap [OF assms(2)]
      comparator.cmp_zero_sym [OF assms(1)] by (auto simp: then_cmp_def)
next
  fix x y z
  assume xy: "then_cmp c d x y \<le> 0" and yz: "then_cmp c d y z \<le> 0"
  from xy yz have le: "c x y \<le> 0" "c y z \<le> 0"
    by (auto simp: then_cmp_def split: if_splits)
  with assms(1) have xz: "c x z \<le> 0" by (auto intro: comparator.cmp_trans)
  show "then_cmp c d x z \<le> 0"
  proof (cases "c x z = 0")
    case True
    then have "c z x \<le> 0" using comparator.cmp_zero_sym [OF assms(1)] by (metis order_refl)
    with le have "c y x \<le> 0" "c z y \<le> 0"
      using comparator.cmp_trans [OF assms(1)] by blast+
    with le have "c x y = 0" "c y z = 0"
      using comparator.cmp_swap [OF assms(1)] by (metis le_less not_less)+
    with True xy yz show ?thesis
      using comparator.cmp_trans [OF assms(2)] by (auto simp: then_cmp_def)
  next
    case False
    with xz show ?thesis by (simp add: then_cmp_def)
  qed
qed

interpretation code_unit: comparator code_unit_cmp
  by unfold_locales (auto simp: code_unit_cmp_def split: if_splits)

interpretation int_diff: comparator "\<lambda>x y :: int. x - y"
  by unfold_locales auto

lemma code_unit_cmp_zero: "code_unit_cmp a b = 0 \<longleftrightarrow> a = b"
  by (auto simp: code_unit_cmp_def)

lemma sort_by_code_unit: "sort_by code_unit_cmp xs = sort xs"
proof (rule properties_for_sort [symmetric])
  show "mset (sort_by code_unit_cmp xs) = mset xs" by simp
  have "code_unit_cmp x y \<le> 0 \<longleftrightarrow> x \<le> y" for x y
    by (auto simp: code_unit_cmp_def)
  then show "sorted (sort_by code_unit_cmp xs)"
    using code_unit.sorted_sort_by [of xs] by simp
qed

subsection \<open>Lemmas on lists and strings\<close>

lemma set_uniq [simp]: "set (uniq xs) = set xs"
  by (simp add: uniq_def)

lemma distinct_uniq [simp]: "distinct (uniq xs)"
  by (simp add: uniq_def)

lemma uniq_distinct: "distinct xs \<Longrightarrow> uniq xs = xs"
  by (simp add: uniq_def distinct_remdups_id)

lemma uniq_Nil [simp]: "uniq [] = []"
  by (simp add: uniq_def)

lemma uniq_snoc: "uniq (xs @ [x]) = (if x \<in> set xs then uniq xs else uniq xs @ [x])"
  by (simp add: uniq_def)

lemma starts_with_iff: "starts_with s p \<longleftrightarrow> (\<exists>t. s = p @ t)"
  by (induction s p rule: starts_with.induct) auto

lemma starts_with_append [simp]: "starts_with (p @ s) p"
  by (auto simp: starts_with_iff)

lemma ends_with_iff: "ends_with s p \<longleftrightarrow> (\<exists>t. s = t @ p)"
  unfolding ends_with_def starts_with_iff
  by (metis rev_append rev_rev_ident)

lemma str_includes_iff: "str_includes s p \<longleftrightarrow> (\<exists>a b. s = a @ p @ b)"
proof (induction s)
  case Nil
  then show ?case by auto
next
  case (Cons c s)
  have "starts_with (c # s) p \<or> (\<exists>a b. s = a @ p @ b) \<longleftrightarrow> (\<exists>a b. c # s = a @ p @ b)"
    (is "?l \<longleftrightarrow> ?r")
  proof
    assume ?l
    then show ?r
      by (metis append_Cons append_Nil starts_with_iff)
  next
    assume ?r
    then obtain a b where "c # s = a @ p @ b" by blast
    then show ?l by (cases a) (auto simp: starts_with_iff)
  qed
  with Cons.IH show ?case by simp
qed

lemma length_to_lower [simp]: "length (to_lower s) = length s"
  by (simp add: to_lower_def)

lemma to_lower_append: "to_lower (s @ t) = to_lower s @ to_lower t"
  by (simp add: to_lower_def)

lemma split_char_ne: "split_char d s \<noteq> []"
  by (cases s) (auto split: list.splits)

lemma join_split_char: "join [d] (split_char d s) = s"
proof (induction s)
  case Nil
  then show ?case by simp
next
  case (Cons c s)
  obtain w ws where w: "split_char d s = w # ws"
    using split_char_ne [of d s] by (auto simp: neq_Nil_conv)
  with Cons.IH show ?case by (cases ws) auto
qed

lemma split_char_no_sep: "w \<in> set (split_char d s) \<Longrightarrow> d \<notin> set w"
proof (induction s arbitrary: w)
  case Nil
  then show ?case by simp
next
  case (Cons c s)
  obtain v vs where "split_char d s = v # vs"
    using split_char_ne [of d s] by (auto simp: neq_Nil_conv)
  with Cons show ?case by (auto split: if_splits)
qed

lemma index_of_Some: "index_of d s = Some i \<Longrightarrow> i < length s \<and> s ! i = d \<and> d \<notin> set (take i s)"
  by (induction s arbitrary: i) (auto split: if_splits)

lemma index_of_None: "index_of d s = None \<longleftrightarrow> d \<notin> set s"
  by (induction s) auto

lemma last_index_of_None: "last_index_of d s = None \<longleftrightarrow> d \<notin> set s"
  by (induction s) (auto split: option.splits)

lemma last_index_of_Some:
  "last_index_of d s = Some i \<Longrightarrow> i < length s \<and> s ! i = d \<and> d \<notin> set (drop (Suc i) s)"
  by (induction s arbitrary: i) (auto split: option.splits if_splits simp: last_index_of_None)

lemma of_digit_char: "n < 10 \<Longrightarrow> of_char (digit_char n) = (48 + n :: nat)"
proof -
  assume "n < 10"
  then have "n \<in> {0, 1, 2, 3, 4, 5, 6, 7, 8, 9}" by auto
  then show ?thesis by (elim insertE emptyE) (simp_all add: digit_char_def)
qed

lemma show_nat_digits: "c \<in> set (show_nat n) \<Longrightarrow> is_digit c"
proof (induction n rule: show_nat.induct)
  case (1 n)
  show ?case
  proof (cases "n < 10")
    case True
    with "1.prems" show ?thesis by (simp add: show_nat.simps [of n] is_digit_def of_digit_char)
  next
    case False
    with "1.prems" have "c \<in> set (show_nat (n div 10)) \<or> c = digit_char (n mod 10)"
      by (auto simp: show_nat.simps [of n])
    with "1.IH" False show ?thesis by (auto simp: is_digit_def of_digit_char)
  qed
qed

lemma show_nat_ne [simp]: "show_nat n \<noteq> []"
  by (subst show_nat.simps) simp

lemma read_nat_snoc: "read_nat (s @ [c]) = 10 * read_nat s + digit_val c"
  by (simp add: read_nat_def)

lemma read_show_nat [simp]: "read_nat (show_nat n) = n"
proof (induction n rule: show_nat.induct)
  case (1 n)
  show ?case
  proof (cases "n < 10")
    case True
    then show ?thesis by (simp add: show_nat.simps [of n] read_nat_def digit_val_def of_digit_char)
  next
    case False
    with "1.IH" show ?thesis
      by (simp add: show_nat.simps [of n] read_nat_snoc digit_val_def of_digit_char)
  qed
qed

lemma show_nat_inj: "show_nat m = show_nat n \<longleftrightarrow> m = n"
  by (metis read_show_nat)

subsection \<open>Lemmas on objects\<close>

lemma obj_get_put [simp, obj_simps]:
  "obj_get (obj_put k v m) k' = (if k' = k then Some v else obj_get m k')"
  by (induction m) auto

lemma keys_put [obj_simps]:
  "obj_keys (obj_put k v m) = (if k \<in> set (obj_keys m) then obj_keys m else obj_keys m @ [k])"
  by (induction m; force)

lemma distinct_keys_put [simp, intro]: "distinct (obj_keys m) \<Longrightarrow> distinct (obj_keys (obj_put k v m))"
  by (simp add: keys_put)

lemma obj_of_snoc: "obj_of (es @ [(k, v)]) = obj_put k v (obj_of es)"
  by (simp add: obj_of_def)

lemma obj_of_Nil [simp]: "obj_of [] = []"
  by (simp add: obj_of_def)

lemma distinct_keys_obj_of [simp, intro]: "distinct (obj_keys (obj_of es))"
proof (induction es rule: rev_induct)
  case Nil
  then show ?case by simp
next
  case (snoc e es)
  then show ?case by (cases e) (simp add: obj_of_snoc distinct_keys_put)
qed

lemma set_keys_obj_of [simp]: "set (obj_keys (obj_of es)) = fst ` set es"
proof (induction es rule: rev_induct)
  case Nil
  then show ?case by simp
next
  case (snoc e es)
  then show ?case by (cases e) (auto simp: obj_of_snoc keys_put)
qed

lemma obj_get_obj_of: "obj_get (obj_of es) k = map_of (rev es) k"
proof (induction es rule: rev_induct)
  case Nil
  then show ?case by simp
next
  case (snoc e es)
  then show ?case by (cases e) (simp add: obj_of_snoc)
qed

subsection \<open>Tallies\<close>

lemma tally_Nil [simp]: "tally [] = []"
  by (simp add: tally_def)

lemma tally_snoc: "tally (ks @ [k]) = count_key (tally ks) k"
  by (simp add: tally_def)

lemma tally_get: "obj_get (tally ks) k = (if k \<in> set ks then Some (count_list ks k) else None)"
  by (induction ks rule: rev_induct) (auto simp: tally_snoc count_key_def count_list_0_iff)

lemma distinct_tally: "distinct (obj_keys (tally ks))"
  by (induction ks rule: rev_induct) (auto simp: tally_snoc count_key_def)

lemma sum_obj_put:
  "sum_list (map snd (obj_put k v m)) + (case obj_get m k of None \<Rightarrow> 0 | Some n \<Rightarrow> n) = sum_list (map snd m) + (v :: nat)"
  by (induction m) (auto split: option.splits)

text \<open>Every occurrence is counted once.\<close>

lemma tally_total: "sum_list (map snd (tally ks)) = length ks"
proof (induction ks rule: rev_induct)
  case (snoc k ks)
  from sum_obj_put [of k "(case obj_get (tally ks) k of None \<Rightarrow> 0 | Some n \<Rightarrow> n) + 1" "tally ks"] snoc
  show ?case by (simp add: tally_snoc count_key_def)
qed simp

end
