(* ===== verification/Harness_Types.thy ===== *)
theory Harness_Types
  imports Prelude
begin

text \<open>
  The data of \<open>harness/src/types.ts\<close>: the contract every test module implements and the
  artifact a run produces. A measurement is a number or a string; numbers are integers here.
  Optional fields are options.
\<close>

datatype where_t = Runner | Local

datatype capability =
    CapDb | CapEndpoint | CapLambda | CapAnonKey | CapPat | CapPeer | CapOrg | CapPgbench
  | CapOpenssl | CapPooler | CapSecondVpc | CapServiceNetwork | CapDirectDb

datatype status = Pass | Fail | Skip | Info

datatype cell = NumC int | StrC string

record test_result =
  tr_id :: string
  tr_title :: string
  tr_status :: status
  tr_detail :: "string option"
  tr_measurements :: "cell obj option"
  tr_evidence :: "string option"
  tr_durationMs :: "int option"

record test_module =
  tm_id :: string
  tm_title :: string
  tm_where :: where_t
  tm_requires :: "capability list option"
  tm_destructive :: "bool option"
  tm_experiment :: "string option"
  tm_timeoutMs :: "int option"

record run_artifact =
  ra_startedAt :: string
  ra_finishedAt :: string
  ra_where :: where_t
  ra_region :: string
  ra_projectRegion :: "string option"
  ra_ref :: string
  ra_experiment :: "string option"
  ra_labCommit :: "string option"
  ra_toolVersions :: "string obj"
  ra_results :: "test_result list"

text \<open>The string each literal type stands for.\<close>

fun where_str :: "where_t \<Rightarrow> string" where
  "where_str Runner = ''runner''"
| "where_str Local = ''local''"

fun cap_str :: "capability \<Rightarrow> string" where
  "cap_str CapDb = ''db''"
| "cap_str CapEndpoint = ''endpoint''"
| "cap_str CapLambda = ''lambda''"
| "cap_str CapAnonKey = ''anon-key''"
| "cap_str CapPat = ''pat''"
| "cap_str CapPeer = ''peer''"
| "cap_str CapOrg = ''org''"
| "cap_str CapPgbench = ''pgbench''"
| "cap_str CapOpenssl = ''openssl''"
| "cap_str CapPooler = ''pooler''"
| "cap_str CapSecondVpc = ''second-vpc''"
| "cap_str CapServiceNetwork = ''service-network''"
| "cap_str CapDirectDb = ''direct-db''"

fun status_str :: "status \<Rightarrow> string" where
  "status_str Pass = ''pass''"
| "status_str Fail = ''fail''"
| "status_str Skip = ''skip''"
| "status_str Info = ''info''"

text \<open>\<open>String(v)\<close> of a measurement.\<close>

fun cell_str :: "cell \<Rightarrow> string" where
  "cell_str (NumC i) = show_int i"
| "cell_str (StrC s) = s"

text \<open>\<open>{ id, title, status, detail }\<close>: a result with the other fields absent.\<close>

definition mk_result :: "string \<Rightarrow> string \<Rightarrow> status \<Rightarrow> string \<Rightarrow> test_result" where
  "mk_result i t s d =
     \<lparr>tr_id = i, tr_title = t, tr_status = s, tr_detail = Some d, tr_measurements = None,
      tr_evidence = None, tr_durationMs = None\<rparr>"

lemma mk_result_sel [simp]:
  "tr_id (mk_result i t s d) = i"
  "tr_title (mk_result i t s d) = t"
  "tr_status (mk_result i t s d) = s"
  "tr_detail (mk_result i t s d) = Some d"
  "tr_measurements (mk_result i t s d) = None"
  by (simp_all add: mk_result_def)

lemma cap_str_inj: "cap_str a = cap_str b \<longleftrightarrow> a = b"
  by (cases a; cases b) auto

lemma where_str_inj: "where_str a = where_str b \<longleftrightarrow> a = b"
  by (cases a; cases b) auto

end
