(* ===== verification/Plan.thy ===== *)
theory Plan
  imports Harness_Types
begin

text \<open>
  \<open>harness/src/plan.ts\<close>: which modules run, in what order, and which are skipped with what
  reason. \<open>localeCompare(_, "en")\<close> is the parameter \<open>lc\<close>; what is used of it is that it is a
  comparator.
\<close>

record plan_options =
  po_where :: where_t
  po_capabilities :: "capability set"
  po_only :: "string list option"
  po_experiment :: "string option"
  po_allowDestructive :: "bool option"

record plan =
  pl_run :: "test_module list"
  pl_skipped :: "test_result list"

definition missingCapabilities :: "test_module \<Rightarrow> capability set \<Rightarrow> capability list" where
  "missingCapabilities m have_caps =
     filter (\<lambda>c. c \<notin> have_caps) (case tm_requires m of None \<Rightarrow> [] | Some cs \<Rightarrow> cs)"

abbreviation is_destructive :: "test_module \<Rightarrow> bool" where
  "is_destructive m \<equiv> tm_destructive m = Some True"

definition skip_detail_where :: "test_module \<Rightarrow> plan_options \<Rightarrow> string" where
  "skip_detail_where m opts =
     ''runs on \"'' @ where_str (tm_where m) @ ''\", this process is \"'' @
     where_str (po_where opts) @ ''\"''"

text \<open>One round of the loop over the modules: the run list and the skip list so far.\<close>

definition plan_step ::
  "plan_options \<Rightarrow> plan \<Rightarrow> test_module \<Rightarrow> plan" where
  "plan_step opts p m =
     (let only = map_option (map to_lower) (po_only opts);
          skip = (\<lambda>detail. p\<lparr>pl_skipped := pl_skipped p @ [mk_result (tm_id m) (tm_title m) Skip detail]\<rparr>)
      in if (case only of None \<Rightarrow> False | Some os \<Rightarrow> os \<noteq> [] \<and> to_lower (tm_id m) \<notin> set os) then p
         else if truthy (po_experiment opts) \<and> tm_experiment m \<noteq> po_experiment opts then p
         else if tm_where m \<noteq> po_where opts then skip (skip_detail_where m opts)
         else let missing = missingCapabilities m (po_capabilities opts)
              in if missing \<noteq> [] then skip (''missing capability: '' @ join '', '' (map cap_str missing))
                 else if is_destructive m \<and> po_allowDestructive opts \<noteq> Some True
                      then skip ''destructive; re-run with --destructive to include''
                      else p\<lparr>pl_run := pl_run p @ [m]\<rparr>)"

text \<open>\<open>Number(a.destructive ?? false) - Number(b.destructive ?? false)\<close>, then the id.\<close>

definition destructive_num :: "test_module \<Rightarrow> int" where
  "destructive_num m = (if is_destructive m then 1 else 0)"

definition run_cmp :: "(string \<Rightarrow> string \<Rightarrow> int) \<Rightarrow> test_module \<Rightarrow> test_module \<Rightarrow> int" where
  "run_cmp lc a b =
     (let d = destructive_num a - destructive_num b in if d \<noteq> 0 then d else lc (tm_id a) (tm_id b))"

definition skip_cmp :: "(string \<Rightarrow> string \<Rightarrow> int) \<Rightarrow> test_result \<Rightarrow> test_result \<Rightarrow> int" where
  "skip_cmp lc a b = lc (tr_id a) (tr_id b)"

definition planRun ::
  "(string \<Rightarrow> string \<Rightarrow> int) \<Rightarrow> test_module list \<Rightarrow> plan_options \<Rightarrow> plan" where
  "planRun lc modules opts =
     (let p = foldl (plan_step opts) \<lparr>pl_run = [], pl_skipped = []\<rparr> modules
      in \<lparr>pl_run = sort_by (run_cmp lc) (pl_run p),
          pl_skipped = sort_by (skip_cmp lc) (pl_skipped p)\<rparr>)"

subsection \<open>What a module is to the plan\<close>

text \<open>The specification: a module is selected or not, and a selected one is eligible or not.\<close>

definition selected :: "plan_options \<Rightarrow> test_module \<Rightarrow> bool" where
  "selected opts m \<longleftrightarrow>
     (\<forall>os. po_only opts = Some os \<longrightarrow> os \<noteq> [] \<longrightarrow> to_lower (tm_id m) \<in> to_lower ` set os) \<and>
     (truthy (po_experiment opts) \<longrightarrow> tm_experiment m = po_experiment opts)"

definition eligible :: "plan_options \<Rightarrow> test_module \<Rightarrow> bool" where
  "eligible opts m \<longleftrightarrow>
     tm_where m = po_where opts \<and>
     (\<forall>cs. tm_requires m = Some cs \<longrightarrow> set cs \<subseteq> po_capabilities opts) \<and>
     (is_destructive m \<longrightarrow> po_allowDestructive opts = Some True)"

definition skip_result :: "plan_options \<Rightarrow> test_module \<Rightarrow> test_result" where
  "skip_result opts m =
     mk_result (tm_id m) (tm_title m) Skip
       (if tm_where m \<noteq> po_where opts then skip_detail_where m opts
        else if missingCapabilities m (po_capabilities opts) \<noteq> []
        then ''missing capability: '' @ join '', '' (map cap_str (missingCapabilities m (po_capabilities opts)))
        else ''destructive; re-run with --destructive to include'')"

lemma missing_empty_iff:
  "missingCapabilities m have_caps = [] \<longleftrightarrow>
   (\<forall>cs. tm_requires m = Some cs \<longrightarrow> set cs \<subseteq> have_caps)"
  by (cases "tm_requires m") (auto simp: missingCapabilities_def filter_empty_conv)

lemma plan_step_spec:
  "plan_step opts p m =
     (if \<not> selected opts m then p
      else if eligible opts m then p\<lparr>pl_run := pl_run p @ [m]\<rparr>
      else p\<lparr>pl_skipped := pl_skipped p @ [skip_result opts m]\<rparr>)"
  by (cases "po_only opts")
     (auto simp: plan_step_def selected_def eligible_def skip_result_def missing_empty_iff Let_def)

lemma plan_fold:
  "pl_run (foldl (plan_step opts) p ms) =
     pl_run p @ filter (\<lambda>m. selected opts m \<and> eligible opts m) ms"
  "pl_skipped (foldl (plan_step opts) p ms) =
     pl_skipped p @ map (skip_result opts) (filter (\<lambda>m. selected opts m \<and> \<not> eligible opts m) ms)"
  by (induction ms arbitrary: p) (simp_all add: plan_step_spec)

lemma planRun_run:
  "pl_run (planRun lc ms opts) =
     sort_by (run_cmp lc) (filter (\<lambda>m. selected opts m \<and> eligible opts m) ms)"
  by (simp add: planRun_def plan_fold Let_def)

lemma planRun_skipped:
  "pl_skipped (planRun lc ms opts) =
     sort_by (skip_cmp lc)
       (map (skip_result opts) (filter (\<lambda>m. selected opts m \<and> \<not> eligible opts m) ms))"
  by (simp add: planRun_def plan_fold Let_def)

subsection \<open>The order of the plan\<close>

interpretation destr_order: comparator "\<lambda>a b. destructive_num a - destructive_num b"
  by (rule comparator_key [where cmp = "\<lambda>x y. x - y", OF int_diff.comparator_axioms])

lemma run_cmp_then:
  "run_cmp lc = then_cmp (\<lambda>a b. destructive_num a - destructive_num b) (\<lambda>a b. lc (tm_id a) (tm_id b))"
  by (simp add: fun_eq_iff run_cmp_def then_cmp_def Let_def)

lemma comparator_run_cmp: "comparator lc \<Longrightarrow> comparator (run_cmp lc)"
  unfolding run_cmp_then
  by (rule comparator_then [OF destr_order.comparator_axioms comparator_key])

lemma comparator_skip_cmp: "comparator lc \<Longrightarrow> comparator (skip_cmp lc)"
  unfolding skip_cmp_def by (rule comparator_key)

lemma run_cmp_destructive_last: "run_cmp lc a b \<le> 0 \<Longrightarrow> is_destructive a \<Longrightarrow> is_destructive b"
  by (auto simp: run_cmp_def destructive_num_def Let_def split: if_splits)

subsection \<open>Properties\<close>

text \<open>C1. The run list is exactly the modules that are selected and eligible, each as often as it
  was registered, and every selected module that is not eligible has one skip result: no module is
  both run and skipped, and none is lost. Needs only that \<open>localeCompare\<close> is a comparator.\<close>

theorem planRun_partition:
  assumes "comparator lc"
  shows "mset (pl_run (planRun lc ms opts)) =
           mset (filter (\<lambda>m. selected opts m \<and> eligible opts m) ms) \<and>
         mset (pl_skipped (planRun lc ms opts)) =
           mset (map (skip_result opts) (filter (\<lambda>m. selected opts m \<and> \<not> eligible opts m) ms)) \<and>
         length (pl_run (planRun lc ms opts)) + length (pl_skipped (planRun lc ms opts)) =
           length (filter (selected opts) ms)"
proof -
  note run = comparator.mset_sort_by [OF comparator_run_cmp [OF assms]]
    and skip = comparator.mset_sort_by [OF comparator_skip_cmp [OF assms]]
  have 1: "mset (pl_run (planRun lc ms opts)) =
      mset (filter (\<lambda>m. selected opts m \<and> eligible opts m) ms)"
    by (simp add: planRun_run run)
  have 2: "mset (pl_skipped (planRun lc ms opts)) =
      mset (map (skip_result opts) (filter (\<lambda>m. selected opts m \<and> \<not> eligible opts m) ms))"
    unfolding planRun_skipped by (rule skip)
  have "length (filter (\<lambda>m. selected opts m \<and> eligible opts m) ms) +
      length (filter (\<lambda>m. selected opts m \<and> \<not> eligible opts m) ms) = length (filter (selected opts) ms)"
    by (induction ms) auto
  with 1 2 have "length (pl_run (planRun lc ms opts)) + length (pl_skipped (planRun lc ms opts)) =
      length (filter (selected opts) ms)"
    by (metis length_map size_mset)
  with 1 2 show ?thesis by blast
qed

text \<open>A registry of three modules: one destructive, one read-only, one for the other vantage.\<close>

definition sample_module :: "string \<Rightarrow> where_t \<Rightarrow> bool \<Rightarrow> test_module" where
  "sample_module i w d =
     \<lparr>tm_id = i, tm_title = i, tm_where = w, tm_requires = Some [CapPat], tm_destructive = Some d,
      tm_experiment = None, tm_timeoutMs = None\<rparr>"

definition sample_modules :: "test_module list" where
  "sample_modules =
     [sample_module ''T14'' Local True, sample_module ''T20'' Local False, sample_module ''T01'' Runner False]"

definition demo_options :: plan_options where
  "demo_options =
     \<lparr>po_where = Local, po_capabilities = {CapPat}, po_only = Some [], po_experiment = None,
      po_allowDestructive = Some True\<rparr>"

lemma sample_plan:
  "map tm_id (pl_run (planRun code_unit_cmp sample_modules demo_options)) = [''T20'', ''T14'']"
  by code_simp

theorem planRun_partition_witness:
  "comparator code_unit_cmp \<and>
   map tm_id (pl_run (planRun code_unit_cmp sample_modules demo_options)) = [''T20'', ''T14''] \<and>
   length (pl_run (planRun code_unit_cmp sample_modules demo_options)) +
     length (pl_skipped (planRun code_unit_cmp sample_modules demo_options)) =
     length (filter (selected demo_options) sample_modules)"
  using planRun_partition [OF code_unit.comparator_axioms, of sample_modules demo_options]
    sample_plan code_unit.comparator_axioms by blast

text \<open>Read-only modules come before destructive ones, so a destructive test cannot rob the
  battery of results; within each half the order is the id order, and modules with equal ids keep
  their registration order.\<close>

lemma planRun_order:
  assumes "comparator lc"
  shows "sorted_wrt (\<lambda>a b. is_destructive a \<longrightarrow> is_destructive b) (pl_run (planRun lc ms opts)) \<and>
         sorted_wrt (\<lambda>a b. is_destructive a = is_destructive b \<longrightarrow> lc (tm_id a) (tm_id b) \<le> 0)
           (pl_run (planRun lc ms opts)) \<and>
         filter (\<lambda>b. run_cmp lc m b = 0) (pl_run (planRun lc ms opts)) =
           filter (\<lambda>b. run_cmp lc m b = 0) (filter (\<lambda>m. selected opts m \<and> eligible opts m) ms)"
proof -
  note cmp = comparator_run_cmp [OF assms]
  have sorted: "sorted_wrt (\<lambda>a b. run_cmp lc a b \<le> 0) (pl_run (planRun lc ms opts))"
    unfolding planRun_run by (rule comparator.sorted_sort_by [OF cmp])
  have "run_cmp lc a b \<le> 0 \<Longrightarrow> is_destructive a = is_destructive b \<longrightarrow> lc (tm_id a) (tm_id b) \<le> 0" for a b
    by (auto simp: run_cmp_def destructive_num_def Let_def)
  then show ?thesis
    using sorted_wrt_mono_rel [OF _ sorted] run_cmp_destructive_last
      comparator.stable_sort_by [OF cmp] by (simp add: planRun_run)
qed

end
