(* ===== verification/RegExp.thy ===== *)
theory RegExp
  imports Prelude
begin

text \<open>
  The part of JavaScript's regular expressions the source uses: character classes, sequence,
  ordered alternation, greedy repetition, capture groups, the anchors, word boundaries and
  one-character or general look-ahead and look-behind. The matcher returns every way to match at
  a position in the order a backtracking engine tries them, so the first result is the one
  \<open>exec\<close> reports. A position is the text before it, reversed, and the text after it. The
  inductive relation below it is the declarative reading of a pattern; the two are shown to agree.
\<close>

subsection \<open>Patterns and positions\<close>

datatype re =
    Eps
  | Cls "char \<Rightarrow> bool"
  | Seq re re
  | Alt re re
  | Star re
  | Grp nat re
  | Bol
  | Eol
  | WordB
  | Ahead re
  | NotAhead re
  | NotBehind "char \<Rightarrow> bool"

record pos =
  before :: string
  after :: string
  caps :: "(nat \<times> string) list"

definition word_char :: "char \<Rightarrow> bool" where
  "word_char c = (is_lower c \<or> is_upper c \<or> is_digit c \<or> c = CHR ''_'')"

definition next_is :: "(char \<Rightarrow> bool) \<Rightarrow> string \<Rightarrow> bool" where
  "next_is p s = (case s of [] \<Rightarrow> False | c # _ \<Rightarrow> p c)"

definition at_word_boundary :: "pos \<Rightarrow> bool" where
  "at_word_boundary st = (next_is word_char (before st) \<noteq> next_is word_char (after st))"

definition step_char :: "pos \<Rightarrow> pos" where
  "step_char st = st\<lparr>before := hd (after st) # before st, after := tl (after st)\<rparr>"

lemma after_step_char: "after (step_char st) = tl (after st)"
  by (simp add: step_char_def)

text \<open>Greedy repetition: another round first, as long as a round consumes something.\<close>

fun star_m :: "(pos \<Rightarrow> pos list) \<Rightarrow> nat \<Rightarrow> pos \<Rightarrow> pos list" where
  "star_m f 0 st = [st]"
| "star_m f (Suc n) st =
     concat (map (\<lambda>st'. if length (after st') < length (after st) then star_m f n st' else [])
       (f st)) @ [st]"

fun re_m :: "re \<Rightarrow> pos \<Rightarrow> pos list" where
  "re_m Eps st = [st]"
| "re_m (Cls p) st = (if next_is p (after st) then [step_char st] else [])"
| "re_m (Seq a b) st = concat (map (re_m b) (re_m a st))"
| "re_m (Alt a b) st = re_m a st @ re_m b st"
| "re_m (Star a) st = star_m (re_m a) (length (after st)) st"
| "re_m (Grp k a) st =
     map (\<lambda>st'. st'\<lparr>caps := (k, take (length (after st) - length (after st')) (after st)) # caps st'\<rparr>)
       (re_m a st)"
| "re_m Bol st = (if before st = [] then [st] else [])"
| "re_m Eol st = (if after st = [] then [st] else [])"
| "re_m WordB st = (if at_word_boundary st then [st] else [])"
| "re_m (Ahead a) st = (if re_m a st = [] then [] else [st])"
| "re_m (NotAhead a) st = (if re_m a st = [] then [st] else [])"
| "re_m (NotBehind p) st = (if next_is p (before st) then [] else [st])"

subsection \<open>Derived patterns\<close>

definition Plus :: "re \<Rightarrow> re" where
  "Plus r = Seq r (Star r)"

definition Opt :: "re \<Rightarrow> re" where
  "Opt r = Alt r Eps"

fun Rep :: "nat \<Rightarrow> re \<Rightarrow> re" where
  "Rep 0 r = Eps"
| "Rep (Suc n) r = Seq r (Rep n r)"

fun UpTo :: "nat \<Rightarrow> re \<Rightarrow> re" where
  "UpTo 0 r = Eps"
| "UpTo (Suc n) r = Opt (Seq r (UpTo n r))"

fun Lit :: "string \<Rightarrow> re" where
  "Lit [] = Eps"
| "Lit (c # s) = Seq (Cls (\<lambda>x. x = c)) (Lit s)"

text \<open>A literal under the \<open>i\<close> flag: ASCII letters match in either case.\<close>

definition same_ci :: "char \<Rightarrow> char \<Rightarrow> bool" where
  "same_ci c x = (upper_ascii x = upper_ascii c)"

fun LitI :: "string \<Rightarrow> re" where
  "LitI [] = Eps"
| "LitI (c # s) = Seq (Cls (same_ci c)) (LitI s)"

fun Seqs :: "re list \<Rightarrow> re" where
  "Seqs [] = Eps"
| "Seqs [r] = r"
| "Seqs (r # q # rs) = Seq r (Seqs (q # rs))"

fun Alts :: "re list \<Rightarrow> re" where
  "Alts [] = NotAhead Eps"
| "Alts [r] = r"
| "Alts (r # q # rs) = Alt r (Alts (q # rs))"

subsection \<open>exec, test, replace and matchAll\<close>

text \<open>The first match at or after a position: where it starts and where it ends.\<close>

fun exec_from :: "re \<Rightarrow> string \<Rightarrow> string \<Rightarrow> (pos \<times> pos) option" where
  "exec_from r pre s =
     (case re_m r \<lparr>before = pre, after = s, caps = []\<rparr> of
        e # _ \<Rightarrow> Some (\<lparr>before = pre, after = s, caps = []\<rparr>, e)
      | [] \<Rightarrow> (case s of [] \<Rightarrow> None | c # s' \<Rightarrow> exec_from r (c # pre) s'))"

declare exec_from.simps [simp del]

definition re_exec :: "re \<Rightarrow> string \<Rightarrow> (pos \<times> pos) option" where
  "re_exec r s = exec_from r [] s"

definition re_test :: "re \<Rightarrow> string \<Rightarrow> bool" where
  "re_test r s = (re_exec r s \<noteq> None)"

definition matched :: "pos \<times> pos \<Rightarrow> string" where
  "matched m = take (length (after (fst m)) - length (after (snd m))) (after (fst m))"

text \<open>\<open>m[k]\<close>: the group's text, \<open>None\<close> for undefined.\<close>

definition group :: "nat \<Rightarrow> pos \<times> pos \<Rightarrow> string option" where
  "group k m = map_of (caps (snd m)) k"

definition re_group :: "nat \<Rightarrow> re \<Rightarrow> string \<Rightarrow> string option" where
  "re_group k r s = Option.bind (re_exec r s) (group k)"

text \<open>
  All matches from left to right (\<open>matchAll\<close>, \<open>replace\<close> with the \<open>g\<close> flag); after an empty
  match the search moves on by one character. The fuel is the number of positions.
\<close>

fun matches_from :: "nat \<Rightarrow> re \<Rightarrow> string \<Rightarrow> string \<Rightarrow> (pos \<times> pos) list" where
  "matches_from 0 r pre s = []"
| "matches_from (Suc n) r pre s =
     (case exec_from r pre s of
        None \<Rightarrow> []
      | Some (b, e) \<Rightarrow>
          (b, e) #
          (if after e = after b
           then (case after e of [] \<Rightarrow> [] | c # t \<Rightarrow> matches_from n r (c # before e) t)
           else matches_from n r (before e) (after e)))"

definition re_matches :: "re \<Rightarrow> string \<Rightarrow> (pos \<times> pos) list" where
  "re_matches r s = matches_from (Suc (length s)) r [] s"

text \<open>The text with every match replaced: the gaps between matches are copied.\<close>

fun splice :: "string \<Rightarrow> (pos \<times> pos \<Rightarrow> string) \<Rightarrow> (pos \<times> pos) list \<Rightarrow> string" where
  "splice rest f [] = rest"
| "splice rest f (m # ms) =
     take (length rest - length (after (fst m))) rest @ f m @ splice (after (snd m)) f ms"

definition replace_all :: "re \<Rightarrow> (pos \<times> pos \<Rightarrow> string) \<Rightarrow> string \<Rightarrow> string" where
  "replace_all r f s = splice s f (re_matches r s)"

definition replace_first :: "re \<Rightarrow> (pos \<times> pos \<Rightarrow> string) \<Rightarrow> string \<Rightarrow> string" where
  "replace_first r f s =
     (case re_exec r s of None \<Rightarrow> s | Some m \<Rightarrow> splice s f [m])"

subsection \<open>The declarative reading\<close>

inductive star_rel :: "(pos \<Rightarrow> pos \<Rightarrow> bool) \<Rightarrow> pos \<Rightarrow> pos \<Rightarrow> bool" for R where
  star_stop: "star_rel R st st"
| star_more: "R st st' \<Longrightarrow> length (after st') < length (after st) \<Longrightarrow> star_rel R st' st'' \<Longrightarrow>
    star_rel R st st''"

inductive_cases star_relE: "star_rel R st st'"

fun re_sem :: "re \<Rightarrow> pos \<Rightarrow> pos \<Rightarrow> bool" where
  "re_sem Eps st st' = (st' = st)"
| "re_sem (Cls p) st st' = (next_is p (after st) \<and> st' = step_char st)"
| "re_sem (Seq a b) st st' = (\<exists>m. re_sem a st m \<and> re_sem b m st')"
| "re_sem (Alt a b) st st' = (re_sem a st st' \<or> re_sem b st st')"
| "re_sem (Star a) st st' = star_rel (re_sem a) st st'"
| "re_sem (Grp k a) st st' =
     (\<exists>m. re_sem a st m \<and>
        st' = m\<lparr>caps := (k, take (length (after st) - length (after m)) (after st)) # caps m\<rparr>)"
| "re_sem Bol st st' = (before st = [] \<and> st' = st)"
| "re_sem Eol st st' = (after st = [] \<and> st' = st)"
| "re_sem WordB st st' = (at_word_boundary st \<and> st' = st)"
| "re_sem (Ahead a) st st' = ((\<exists>m. re_sem a st m) \<and> st' = st)"
| "re_sem (NotAhead a) st st' = ((\<nexists>m. re_sem a st m) \<and> st' = st)"
| "re_sem (NotBehind p) st st' = (\<not> next_is p (before st) \<and> st' = st)"

text \<open>Repetition with as much fuel as there is text left finds every chain of rounds.\<close>

lemma star_m_sem:
  assumes "\<And>x y. y \<in> set (f x) \<longleftrightarrow> R x y" and "length (after st) \<le> n"
  shows "st' \<in> set (star_m f n st) \<longleftrightarrow> star_rel R st st'"
  using assms(2)
proof (induction n arbitrary: st)
  case 0
  have "\<not> length (after m) < length (after st)" for m
    using "0.prems" by simp
  then show ?case by (auto elim: star_relE intro: star_stop)
next
  case (Suc n)
  have "st' \<in> set (star_m f (Suc n) st) \<longleftrightarrow>
      st' = st \<or> (\<exists>m. R st m \<and> length (after m) < length (after st) \<and> st' \<in> set (star_m f n m))"
    by (auto simp: assms(1))
  also have "\<dots> \<longleftrightarrow>
      st' = st \<or> (\<exists>m. R st m \<and> length (after m) < length (after st) \<and> star_rel R m st')"
    using Suc by (metis less_Suc_eq_le order_less_le_trans)
  also have "\<dots> \<longleftrightarrow> star_rel R st st'"
    by (auto elim: star_relE intro: star_stop star_more)
  finally show ?case .
qed

lemma re_m_sem: "st' \<in> set (re_m r st) \<longleftrightarrow> re_sem r st st'"
proof (induction r arbitrary: st st')
  case (Star r)
  then show ?case by (simp add: star_m_sem)
next
  case (Ahead r)
  then have "re_m r st = [] \<longleftrightarrow> (\<nexists>m. re_sem r st m)" by (metis all_not_in_conv set_empty)
  then show ?case by auto
next
  case (NotAhead r)
  then have "re_m r st = [] \<longleftrightarrow> (\<nexists>m. re_sem r st m)" by (metis all_not_in_conv set_empty)
  then show ?case by auto
next
  case (Grp k r)
  then show ?case by auto
qed auto

lemma re_m_empty: "re_m r st = [] \<longleftrightarrow> (\<nexists>st'. re_sem r st st')"
  by (metis all_not_in_conv re_m_sem set_empty)

subsection \<open>A match consumes a piece of the text\<close>

definition consumes :: "string \<Rightarrow> pos \<Rightarrow> pos \<Rightarrow> bool" where
  "consumes w st st' = (after st = w @ after st' \<and> before st' = rev w @ before st)"

lemma consumes_refl: "consumes [] st st"
  by (simp add: consumes_def)

lemma consumes_trans: "consumes v st m \<Longrightarrow> consumes w m st' \<Longrightarrow> consumes (v @ w) st st'"
  by (simp add: consumes_def)

lemma star_rel_consumes:
  "star_rel R st st' \<Longrightarrow> (\<And>x y. R x y \<Longrightarrow> \<exists>w. consumes w x y) \<Longrightarrow> \<exists>w. consumes w st st'"
  by (induction rule: star_rel.induct) (meson consumes_refl consumes_trans)+

lemma re_sem_consumes: "re_sem r st st' \<Longrightarrow> \<exists>w. consumes w st st'"
proof (induction r arbitrary: st st')
  case (Cls p)
  then show ?case
    by (intro exI [of _ "[hd (after st)]"])
       (auto simp: consumes_def next_is_def step_char_def split: list.splits)
next
  case (Seq a b)
  then show ?case by (meson consumes_trans re_sem.simps(3))
next
  case (Star r)
  then show ?case using star_rel_consumes by fastforce
next
  case (Grp k r)
  then show ?case by (fastforce simp: consumes_def)
qed (auto intro: consumes_refl)

lemma matched_consumes: "consumes w b e \<Longrightarrow> matched (b, e) = w"
  by (simp add: consumes_def matched_def)

subsection \<open>Searching\<close>

text \<open>
  \<open>exec\<close> finds the leftmost position where the pattern matches; \<open>test\<close> holds exactly when
  there is one.
\<close>

abbreviation at_pos :: "string \<Rightarrow> string \<Rightarrow> pos" where
  "at_pos pre s \<equiv> \<lparr>before = pre, after = s, caps = []\<rparr>"

lemma exec_from_None:
  "exec_from r pre s = None \<longleftrightarrow> (\<forall>u v. s = u @ v \<longrightarrow> re_m r (at_pos (rev u @ pre) v) = [])"
proof (induction s arbitrary: pre)
  case Nil
  then show ?case by (simp add: exec_from.simps split: list.splits)
next
  case (Cons c s)
  have "exec_from r pre (c # s) = None \<longleftrightarrow>
      re_m r (at_pos pre (c # s)) = [] \<and> exec_from r (c # pre) s = None"
    by (subst exec_from.simps) (simp split: list.splits)
  also have "\<dots> \<longleftrightarrow> (\<forall>u v. c # s = u @ v \<longrightarrow> re_m r (at_pos (rev u @ pre) v) = [])"
    (is "?l \<longleftrightarrow> ?r")
  proof
    assume l: ?l
    show ?r
    proof (intro allI impI)
      fix u v
      assume "c # s = u @ v"
      then show "re_m r (at_pos (rev u @ pre) v) = []"
        using l Cons.IH [of "c # pre"] by (cases u) auto
    qed
  next
    assume r: ?r
    then have "re_m r (at_pos pre (c # s)) = []" by fastforce
    moreover have "\<forall>u v. s = u @ v \<longrightarrow> re_m r (at_pos (rev u @ c # pre) v) = []"
      using r by (metis append_Cons append_assoc append_Nil rev.simps(2))
    ultimately show ?l using Cons.IH [of "c # pre"] by blast
  qed
  finally show ?case .
qed

lemma exec_from_Some:
  "exec_from r pre s = Some (b, e) \<Longrightarrow>
   (\<exists>u. consumes u (at_pos pre s) b) \<and> caps b = [] \<and> re_sem r b e"
proof (induction s arbitrary: pre)
  case Nil
  then show ?case
    by (subst (asm) exec_from.simps)
       (auto simp: consumes_def re_m_sem [symmetric] split: list.splits)
next
  case (Cons c s)
  show ?case
  proof (cases "re_m r (at_pos pre (c # s))")
    case Nil
    with Cons.prems have "exec_from r (c # pre) s = Some (b, e)"
      by (subst (asm) exec_from.simps) simp
    with Cons.IH obtain u where "consumes u (at_pos (c # pre) s) b" "caps b = []" "re_sem r b e"
      by blast
    then show ?thesis by (auto simp: consumes_def intro: exI [of _ "c # u"])
  next
    case (Cons x xs)
    with Cons.prems show ?thesis
      by (subst (asm) exec_from.simps) (auto simp: consumes_def re_m_sem [symmetric])
  qed
qed

lemma re_test_iff:
  "re_test r s \<longleftrightarrow> (\<exists>u v st'. s = u @ v \<and> re_sem r (at_pos (rev u) v) st')"
  unfolding re_test_def re_exec_def exec_from_None
  by (auto simp: re_m_empty)

subsection \<open>Literals and runs of a class\<close>

lemma re_sem_Lit: "re_sem (Lit w) st st' \<longleftrightarrow> consumes w st st' \<and> caps st' = caps st"
proof (induction w arbitrary: st)
  case Nil
  then show ?case by (auto simp: consumes_def)
next
  case (Cons c w)
  show ?case
    by (cases "after st") (auto simp: Cons.IH consumes_def next_is_def step_char_def)
qed

lemma star_cls_sem:
  "re_sem (Star (Cls p)) st st' \<longleftrightarrow>
   (\<exists>w. consumes w st st' \<and> list_all p w \<and> caps st' = caps st)"
proof
  have "star_rel (re_sem (Cls p)) st st' \<Longrightarrow> \<exists>w. consumes w st st' \<and> list_all p w \<and> caps st' = caps st"
  proof (induction rule: star_rel.induct)
    case (star_stop st)
    then show ?case by (intro exI [of _ "[]"]) (simp add: consumes_refl)
  next
    case (star_more st st' st'')
    then obtain w where w: "consumes w st' st''" "list_all p w" "caps st'' = caps st'" by blast
    from star_more.hyps(1) obtain c t where c: "after st = c # t" "p c" and st': "st' = step_char st"
      by (auto simp: next_is_def split: list.splits)
    with w have "consumes (c # w) st st''" by (simp add: consumes_def step_char_def)
    moreover from c w st' have "list_all p (c # w)" "caps st'' = caps st" by (simp_all add: step_char_def)
    ultimately show ?case by blast
  qed
  then show "re_sem (Star (Cls p)) st st' \<Longrightarrow> \<exists>w. consumes w st st' \<and> list_all p w \<and> caps st' = caps st"
    by simp
next
  assume "\<exists>w. consumes w st st' \<and> list_all p w \<and> caps st' = caps st"
  then obtain w where "consumes w st st'" "list_all p w" "caps st' = caps st" by blast
  then have "star_rel (re_sem (Cls p)) st st'"
  proof (induction w arbitrary: st)
    case Nil
    then have "st' = st" by (simp add: consumes_def)
    then show ?case by (simp add: star_stop)
  next
    case (Cons c w)
    from Cons.prems have "after st = c # w @ after st'" by (simp add: consumes_def)
    with Cons.prems have step: "re_sem (Cls p) st (step_char st)"
        "length (after (step_char st)) < length (after st)"
        "consumes w (step_char st) st'" "caps st' = caps (step_char st)"
      by (auto simp: next_is_def step_char_def consumes_def)
    from Cons.prems(2) have "list_all p w" by simp
    with Cons.IH step(3,4) have "star_rel (re_sem (Cls p)) (step_char st) st'" by blast
    with step show ?case by (blast intro: star_more)
  qed
  then show "re_sem (Star (Cls p)) st st'" by simp
qed

lemma plus_cls_sem:
  "re_sem (Plus (Cls p)) st st' \<longleftrightarrow>
   (\<exists>w. w \<noteq> [] \<and> consumes w st st' \<and> list_all p w \<and> caps st' = caps st)"
proof -
  have "re_sem (Plus (Cls p)) st st' \<longleftrightarrow>
      next_is p (after st) \<and> re_sem (Star (Cls p)) (step_char st) st'"
    by (auto simp: Plus_def simp del: re_sem.simps(5))
  also have "\<dots> \<longleftrightarrow> (\<exists>w. w \<noteq> [] \<and> consumes w st st' \<and> list_all p w \<and> caps st' = caps st)"
    unfolding star_cls_sem
  proof (cases "after st")
    case Nil
    then show "(next_is p (after st) \<and> (\<exists>w. consumes w (step_char st) st' \<and> list_all p w \<and>
        caps st' = caps (step_char st))) = (\<exists>w. w \<noteq> [] \<and> consumes w st st' \<and> list_all p w \<and> caps st' = caps st)"
      by (simp add: next_is_def consumes_def)
  next
    case (Cons c t)
    then show "(next_is p (after st) \<and> (\<exists>w. consumes w (step_char st) st' \<and> list_all p w \<and>
        caps st' = caps (step_char st))) = (\<exists>w. w \<noteq> [] \<and> consumes w st st' \<and> list_all p w \<and> caps st' = caps st)"
      by (auto simp: next_is_def consumes_def step_char_def neq_Nil_conv Cons_eq_append_conv)
  qed
  finally show ?thesis .
qed

subsection \<open>Anchored patterns\<close>

text \<open>A pattern that starts with \<open>^\<close> is tried at the start of the text only.\<close>

lemma exec_from_Bol_None: "pre \<noteq> [] \<Longrightarrow> exec_from (Seq Bol r) pre s = None"
  by (induction s arbitrary: pre) (simp_all add: exec_from.simps)

lemma re_exec_Bol:
  "re_exec (Seq Bol r) s =
     (case re_m r (at_pos [] s) of [] \<Rightarrow> None | e # _ \<Rightarrow> Some (at_pos [] s, e))"
  unfolding re_exec_def
  by (subst exec_from.simps) (auto simp: exec_from_Bol_None split: list.splits)

lemma re_exec_Bol_None: "re_exec (Seq Bol r) s = None \<longleftrightarrow> (\<nexists>e. re_sem r (at_pos [] s) e)"
  using re_m_empty [of r "at_pos [] s"]
  by (cases "re_m r (at_pos [] s)") (auto simp: re_exec_Bol)

lemma re_exec_Bol_Some:
  "re_exec (Seq Bol r) s = Some (b, e) \<Longrightarrow> b = at_pos [] s \<and> re_sem r b e"
  by (auto simp: re_exec_Bol re_m_sem [symmetric] split: list.splits)

lemma re_test_Bol: "re_test (Seq Bol r) s \<longleftrightarrow> (\<exists>e. re_sem r (at_pos [] s) e)"
  by (simp add: re_test_def re_exec_Bol_None)

text \<open>If every match of an anchored pattern captures the same text, the group is that text.\<close>

lemma re_group_Bol:
  assumes "\<And>e. re_sem r (at_pos [] s) e \<Longrightarrow> map_of (caps e) k = Some w"
    and "re_sem r (at_pos [] s) e0"
  shows "re_group k (Seq Bol r) s = Some w"
proof -
  have "re_exec (Seq Bol r) s \<noteq> None" using assms(2) by (auto simp: re_exec_Bol_None)
  then obtain b e where be: "re_exec (Seq Bol r) s = Some (b, e)" by auto
  with assms(1) have "map_of (caps e) k = Some w" using re_exec_Bol_Some by blast
  with be show ?thesis by (simp add: re_group_def group_def)
qed

lemma re_group_Bol_None:
  "(\<nexists>e. re_sem r (at_pos [] s) e) \<Longrightarrow> re_group k (Seq Bol r) s = None"
  by (simp add: re_group_def re_exec_Bol_None [THEN iffD2])

subsection \<open>Replacing single characters\<close>

lemma matches_from_unmatched:
  "re_m r (at_pos pre (c # s)) = [] \<Longrightarrow>
   matches_from n r pre (c # s) = matches_from n r (c # pre) s"
  by (cases n) (simp_all add: exec_from.simps [of r pre "c # s"])

lemma matches_from_after:
  "m \<in> set (matches_from n r pre s) \<Longrightarrow> length (after (fst m)) \<le> length s"
proof (induction n arbitrary: pre s)
  case 0
  then show ?case by simp
next
  case (Suc n)
  then obtain b e where be: "exec_from r pre s = Some (b, e)"
    by (cases "exec_from r pre s") (simp, metis surj_pair)
  from exec_from_Some [OF this] obtain u v where "s = u @ after b" "after b = v @ after e"
    using re_sem_consumes by (fastforce simp: consumes_def)
  then have le: "length (after b) \<le> length s" "length (after e) \<le> length s" by simp_all
  have "m = (b, e) \<or> (\<exists>pre' s'. m \<in> set (matches_from n r pre' s') \<and> length s' \<le> length (after e))"
  proof (cases "after e = after b")
    case True
    show ?thesis
    proof (cases "after e")
      case Nil
      with True be Suc.prems show ?thesis by simp
    next
      case (Cons c t)
      with True have ab: "after b = c # t" by simp
      have "m = (b, e) \<or> m \<in> set (matches_from n r (c # before e) t)"
        using Suc.prems by (simp add: be ab Cons)
      moreover have "length t \<le> length (after e)" by (simp add: Cons)
      ultimately show ?thesis by blast
    qed
  next
    case False
    with be Suc.prems have "m = (b, e) \<or> m \<in> set (matches_from n r (before e) (after e))" by simp
    then show ?thesis by blast
  qed
  then show ?case using Suc.IH le by (fastforce intro: le_trans)
qed

lemma splice_skip:
  assumes "\<forall>m \<in> set ms. length (after (fst m)) \<le> length s"
  shows "splice (c # s) f ms = c # splice s f ms"
  using assms by (cases ms) (auto simp: Suc_diff_le)

lemma replace_cls_from:
  "length s < n \<Longrightarrow>
   splice s (\<lambda>m. g (matched m)) (matches_from n (Cls p) pre s) =
     concat (map (\<lambda>c. if p c then g [c] else [c]) s)"
proof (induction s arbitrary: n pre)
  case Nil
  then show ?case by (cases n) (simp_all add: exec_from.simps next_is_def)
next
  case (Cons c s)
  then obtain k where n: "n = Suc k" by (cases n) auto
  show ?case
  proof (cases "p c")
    case True
    with Cons n show ?thesis
      by (simp add: exec_from.simps [of "Cls p" pre "c # s"] next_is_def step_char_def matched_def)
  next
    case False
    then have "re_m (Cls p) (at_pos pre (c # s)) = []" by (simp add: next_is_def)
    from matches_from_unmatched [OF this]
    have "matches_from n (Cls p) pre (c # s) = matches_from n (Cls p) (c # pre) s" .
    with False Cons splice_skip [of "matches_from n (Cls p) (c # pre) s" s] matches_from_after
    show ?thesis by simp
  qed
qed

text \<open>\<open>s.replace(/[...]/g, x)\<close> works character by character.\<close>

lemma replace_all_Cls:
  "replace_all (Cls p) (\<lambda>m. g (matched m)) s = concat (map (\<lambda>c. if p c then g [c] else [c]) s)"
  unfolding replace_all_def re_matches_def by (rule replace_cls_from) simp

lemma replace_all_Cls_const:
  "replace_all (Cls p) (\<lambda>m. w) s = concat (map (\<lambda>c. if p c then w else [c]) s)"
  using replace_all_Cls [of p "\<lambda>_. w"] by simp

subsection \<open>The match a greedy engine takes first\<close>

definition re_first :: "re \<Rightarrow> pos \<Rightarrow> pos option" where
  "re_first r st = (case re_m r st of [] \<Rightarrow> None | e # _ \<Rightarrow> Some e)"

lemma re_first_None: "re_first r st = None \<longleftrightarrow> re_m r st = []"
  by (simp add: re_first_def split: list.splits)

lemma re_first_Some: "re_first r st = Some e \<longleftrightarrow> (\<exists>es. re_m r st = e # es)"
  by (auto simp: re_first_def split: list.splits)

lemma re_first_Cls:
  "re_first (Cls p) st = (if next_is p (after st) then Some (step_char st) else None)"
  by (simp add: re_first_def)

lemma re_first_Eps [simp]: "re_first Eps st = Some st"
  by (simp add: re_first_def)

lemma re_first_Alt: "re_first (Alt a b) st = (case re_first a st of None \<Rightarrow> re_first b st | Some e \<Rightarrow> Some e)"
  by (auto simp: re_first_def split: list.splits)

lemma re_first_Opt: "re_first (Opt r) st = (case re_first r st of None \<Rightarrow> Some st | Some e \<Rightarrow> Some e)"
  by (simp add: Opt_def re_first_Alt split: option.splits)

lemma re_first_Seq:
  "re_first a st = Some m \<Longrightarrow> re_first b m = Some e \<Longrightarrow> re_first (Seq a b) st = Some e"
  by (auto simp: re_first_Some)

lemma re_first_Seq_None: "re_first a st = None \<Longrightarrow> re_first (Seq a b) st = None"
  by (simp add: re_first_None)

definition advance :: "nat \<Rightarrow> pos \<Rightarrow> pos" where
  "advance n st = st\<lparr>before := rev (take n (after st)) @ before st, after := drop n (after st)\<rparr>"

lemma advance_0 [simp]: "advance 0 st = st"
  by (simp add: advance_def)

lemma advance_Suc: "after st = c # t \<Longrightarrow> advance n (step_char st) = advance (Suc n) st"
  by (simp add: advance_def step_char_def)

lemma after_advance [simp]: "after (advance n st) = drop n (after st)"
  by (simp add: advance_def)

lemma caps_advance [simp]: "caps (advance n st) = caps st"
  by (simp add: advance_def)

lemma star_m_first:
  "length (after st) \<le> n \<Longrightarrow>
   \<exists>es. star_m (re_m (Cls p)) n st = advance (length (takeWhile p (after st))) st # es"
proof (induction n arbitrary: st)
  case 0
  then show ?case by simp
next
  case (Suc n)
  show ?case
  proof (cases "after st")
    case Nil
    then show ?thesis by (simp add: next_is_def)
  next
    case (Cons c t)
    with Suc.prems have "length (after (step_char st)) \<le> n" by (simp add: step_char_def)
    from Suc.IH [OF this] Cons show ?thesis
      by (auto simp: next_is_def step_char_def advance_def)
  qed
qed

lemma re_first_Star: "re_first (Star (Cls p)) st = Some (advance (length (takeWhile p (after st))) st)"
  using star_m_first [of st "length (after st)" p] by (simp add: re_first_Some)

lemma re_first_Plus:
  "re_first (Plus (Cls p)) st =
     (if next_is p (after st) then Some (advance (length (takeWhile p (after st))) st) else None)"
proof (cases "after st")
  case Nil
  then show ?thesis by (simp add: Plus_def re_first_Seq_None re_first_Cls next_is_def)
next
  case (Cons c t)
  show ?thesis
  proof (cases "p c")
    case True
    with Cons show ?thesis
      unfolding Plus_def
      by (subst re_first_Seq [OF _ re_first_Star])
         (simp_all add: re_first_Cls next_is_def, simp_all add: step_char_def advance_def)
  next
    case False
    with Cons show ?thesis by (simp add: Plus_def re_first_Seq_None re_first_Cls next_is_def)
  qed
qed

subsection \<open>Replacing and collecting matches of a pattern that reads forward only\<close>

text \<open>
  A pattern is described by \<open>lead\<close>: how many characters it takes at the front of a text, whatever
  came before. Then \<open>replace\<close> and \<open>matchAll\<close> are one pass over the text.
\<close>

definition leads :: "re \<Rightarrow> (string \<Rightarrow> nat option) \<Rightarrow> bool" where
  "leads r lead \<longleftrightarrow>
     (\<forall>pre s. map_option after (re_first r (at_pos pre s)) = map_option (\<lambda>k. drop k s) (lead s)) \<and>
     (\<forall>s k. lead s = Some k \<longrightarrow> 0 < k \<and> k \<le> length s)"

function repl_lead :: "(string \<Rightarrow> nat option) \<Rightarrow> (string \<Rightarrow> string) \<Rightarrow> string \<Rightarrow> string" where
  "repl_lead lead g [] = []"
| "repl_lead lead g (c # s) =
     (case lead (c # s) of
        None \<Rightarrow> c # repl_lead lead g s
      | Some k \<Rightarrow> g (take k (c # s)) @ repl_lead lead g (drop (k - 1) s))"
  by pat_completeness auto
termination by (relation "measure (\<lambda>(lead, g, s). length s)") auto

function find_lead :: "(string \<Rightarrow> nat option) \<Rightarrow> string \<Rightarrow> string list" where
  "find_lead lead [] = []"
| "find_lead lead (c # s) =
     (case lead (c # s) of
        None \<Rightarrow> find_lead lead s
      | Some k \<Rightarrow> take k (c # s) # find_lead lead (drop (k - 1) s))"
  by pat_completeness auto
termination by (relation "measure (\<lambda>(lead, s). length s)") auto

lemma leads_None: "leads r lead \<Longrightarrow> lead s = None \<Longrightarrow> re_m r (at_pos pre s) = []"
  unfolding leads_def using re_first_None by (metis option.map_disc_iff)

lemma leads_Some:
  assumes "leads r lead" "lead s = Some k"
  shows "\<exists>e es. re_m r (at_pos pre s) = e # es \<and> after e = drop k s \<and> 0 < k \<and> k \<le> length s"
proof -
  have "map_option after (re_first r (at_pos pre s)) = Some (drop k s)"
    using assms by (simp add: leads_def)
  then show ?thesis using assms re_first_Some by (auto simp: leads_def)
qed

lemma leads_Nil: "leads r lead \<Longrightarrow> lead [] = None"
  unfolding leads_def by (metis le_zero_eq list.size(3) not_gr_zero option.exhaust)

lemma lead_step:
  assumes "leads r lead" "lead (c # s) = Some k"
  shows "\<exists>e. matches_from (Suc n) r pre (c # s) = (at_pos pre (c # s), e) # matches_from n r (before e) (drop (k - 1) s) \<and>
    after e = drop (k - 1) s \<and> matched (at_pos pre (c # s), e) = take k (c # s) \<and> 0 < k"
proof -
  from leads_Some [OF assms] obtain e es where e: "re_m r (at_pos pre (c # s)) = e # es"
      "after e = drop k (c # s)" "0 < k" "k \<le> Suc (length s)" by fastforce
  then have a: "after e = drop (k - 1) s" by (cases k) auto
  have "exec_from r pre (c # s) = Some (at_pos pre (c # s), e)" by (subst exec_from.simps) (simp add: e(1))
  moreover have "after e \<noteq> c # s" using a by (metis impossible_Cons length_drop diff_le_self)
  ultimately show ?thesis using e a by (auto simp: matched_def)
qed

lemma replace_lead_from:
  assumes "leads r lead"
  shows "length s < n \<Longrightarrow> splice s (\<lambda>m. g (matched m)) (matches_from n r pre s) = repl_lead lead g s"
proof (induction "length s" arbitrary: s n pre rule: less_induct)
  case less
  then obtain k where n: "n = Suc k" by (cases n) auto
  show ?case
  proof (cases s)
    case Nil
    with n leads_None [OF assms leads_Nil [OF assms]] show ?thesis by (simp add: exec_from.simps)
  next
    case (Cons c t)
    show ?thesis
    proof (cases "lead s")
      case None
      from matches_from_unmatched [OF leads_None [OF assms, of "c # t" pre]] None Cons
      have "matches_from n r pre s = matches_from n r (c # pre) t" by simp
      moreover have "splice t (\<lambda>m. g (matched m)) (matches_from n r (c # pre) t) = repl_lead lead g t"
        using less.prems Cons by (intro less.hyps) auto
      ultimately show ?thesis
        using splice_skip [of "matches_from n r (c # pre) t" t] matches_from_after None Cons by simp
    next
      case (Some j)
      with lead_step [OF assms, of c t j k pre] Cons n obtain e where e:
        "matches_from n r pre s = (at_pos pre s, e) # matches_from k r (before e) (drop (j - 1) t)"
        "after e = drop (j - 1) t" "matched (at_pos pre s, e) = take j s" by auto
      moreover have "splice (drop (j - 1) t) (\<lambda>m. g (matched m)) (matches_from k r (before e) (drop (j - 1) t)) =
          repl_lead lead g (drop (j - 1) t)"
        using less.prems Cons n by (intro less.hyps) auto
      ultimately show ?thesis using Some Cons by simp
    qed
  qed
qed

lemma replace_lead: "leads r lead \<Longrightarrow> replace_all r (\<lambda>m. g (matched m)) s = repl_lead lead g s"
  unfolding replace_all_def re_matches_def by (rule replace_lead_from) auto

lemma find_lead_from:
  assumes "leads r lead"
  shows "length s < n \<Longrightarrow> map matched (matches_from n r pre s) = find_lead lead s"
proof (induction "length s" arbitrary: s n pre rule: less_induct)
  case less
  then obtain k where n: "n = Suc k" by (cases n) auto
  show ?case
  proof (cases s)
    case Nil
    with n leads_None [OF assms leads_Nil [OF assms]] show ?thesis by (simp add: exec_from.simps)
  next
    case (Cons c t)
    show ?thesis
    proof (cases "lead s")
      case None
      from matches_from_unmatched [OF leads_None [OF assms, of "c # t" pre]] None Cons
      have "matches_from n r pre s = matches_from n r (c # pre) t" by simp
      moreover have "map matched (matches_from n r (c # pre) t) = find_lead lead t"
        using less.prems Cons by (intro less.hyps) auto
      ultimately show ?thesis using None Cons by simp
    next
      case (Some j)
      with lead_step [OF assms, of c t j k pre] Cons n obtain e where e:
        "matches_from n r pre s = (at_pos pre s, e) # matches_from k r (before e) (drop (j - 1) t)"
        "after e = drop (j - 1) t" "matched (at_pos pre s, e) = take j s" by auto
      moreover have "map matched (matches_from k r (before e) (drop (j - 1) t)) = find_lead lead (drop (j - 1) t)"
        using less.prems Cons n by (intro less.hyps) auto
      ultimately show ?thesis using Some Cons by simp
    qed
  qed
qed

lemma matches_lead: "leads r lead \<Longrightarrow> map matched (re_matches r s) = find_lead lead s"
  unfolding re_matches_def by (rule find_lead_from) auto

end
