(* ===== verification/Ctx.thy ===== *)
theory Ctx
  imports Harness_Types RegExp
begin

text \<open>
  \<open>harness/src/ctx.ts\<close>: the run context and the capabilities it grants. The process
  environment is an association list of optional strings (\<open>process.env\<close>), the runner's
  \<open>/etc/pvlab/env\<close> is its text, \<open>None\<close> when the file does not exist. What other programs
  answer (\<open>which pgbench\<close>, \<open>which openssl\<close>, \<open>dig\<close>) is an argument.
\<close>

type_synonym env = "(string \<times> string option) list"

definition env_get :: "env \<Rightarrow> string \<Rightarrow> string option" where
  "env_get e k = Option.bind (map_of e k) (\<lambda>v. v)"

text \<open>\<open>a ?? b\<close>\<close>

definition orElse :: "'a option \<Rightarrow> 'a option \<Rightarrow> 'a option" where
  "orElse a b = (case a of Some x \<Rightarrow> Some x | None \<Rightarrow> b)"

definition or_default :: "'a option \<Rightarrow> 'a \<Rightarrow> 'a" where
  "or_default a d = (case a of Some x \<Rightarrow> x | None \<Rightarrow> d)"

subsection \<open>Roles from the environment\<close>

definition role_char :: "char \<Rightarrow> bool" where
  "role_char c = (is_upper c \<or> is_digit c \<or> c = CHR ''_'')"

text \<open>\<open>/^<prefix>([A-Z0-9_]+)$/\<close>\<close>

definition role_re :: "string \<Rightarrow> re" where
  "role_re p = Seqs [Bol, Lit p, Grp 1 (Plus (Cls role_char)), Eol]"

definition read_role :: "string \<Rightarrow> string obj \<Rightarrow> string \<times> string option \<Rightarrow> string obj" where
  "read_role p m kv =
     (case (re_group 1 (role_re p) (fst kv), snd kv) of
        (Some role, Some v) \<Rightarrow> if role \<noteq> [] \<and> v \<noteq> [] then obj_put (to_lower role) v m else m
      | _ \<Rightarrow> m)"

definition readPeers :: "env \<Rightarrow> string obj" where
  "readPeers e = foldl (read_role ''PVLAB_PEER_'') [] e"

definition readEndpoints :: "env \<Rightarrow> string obj" where
  "readEndpoints e =
     foldl (\<lambda>m kv. if fst kv = ''PVLAB_ENDPOINT_IPS'' then m else read_role ''PVLAB_ENDPOINT_'' m kv) [] e"

definition readOrgs :: "env \<Rightarrow> string obj" where
  "readOrgs e =
     foldl (\<lambda>m kv. if fst kv = ''PVLAB_ORG_SLUGS'' then m else read_role ''PVLAB_ORG_'' m kv) [] e"

text \<open>
  A line of the runner's environment file:
  \<open>/^\s*(?:export\s+)?([A-Z_]+)=["']?([^"'\n]*)["']?\s*$/\<close>
\<close>

definition quote_char :: "char \<Rightarrow> bool" where
  "quote_char c = (c = CHR 0x22 \<or> c = CHR 0x27)"

definition env_line_re :: re where
  "env_line_re =
     Seqs [Bol, Star (Cls is_ws), Opt (Seq (Lit ''export'') (Plus (Cls is_ws))),
       Grp 1 (Plus (Cls (\<lambda>c. is_upper c \<or> c = CHR ''_''))), Lit ''='', Opt (Cls quote_char),
       Grp 2 (Star (Cls (\<lambda>c. \<not> quote_char c \<and> c \<noteq> CHR 0x0A))), Opt (Cls quote_char),
       Star (Cls is_ws), Eol]"

definition env_line :: "string obj \<Rightarrow> string \<Rightarrow> string obj" where
  "env_line m line =
     (case re_exec env_line_re line of
        None \<Rightarrow> m
      | Some x \<Rightarrow> (case group 1 x of
            None \<Rightarrow> m
          | Some k \<Rightarrow> if k = [] then m else obj_put k (or_default (group 2 x) []) m))"

definition runnerEnv :: "string option \<Rightarrow> string obj" where
  "runnerEnv file =
     (case file of None \<Rightarrow> [] | Some txt \<Rightarrow> foldl env_line [] (split_char (CHR 0x0A) txt))"

subsection \<open>Capabilities\<close>

record cap_facts =
  cf_dbPassword :: "string option"
  cf_phzHost :: "string option"
  cf_endpointIps :: "string list option"
  cf_anonKey :: "string option"
  cf_pat :: "string option"
  cf_peers :: "string obj option"
  cf_orgSlugs :: "string list option"
  cf_endpoints :: "string obj option"
  cf_hasPgbench :: "bool option"
  cf_hasOpenssl :: "bool option"
  cf_lambdaEnabled :: "bool option"
  cf_where :: "where_t option"

definition nonempty :: "'a list option \<Rightarrow> bool" where
  "nonempty x = (case x of None \<Rightarrow> False | Some xs \<Rightarrow> xs \<noteq> [])"

definition has_endpoint :: "cap_facts \<Rightarrow> string \<Rightarrow> bool" where
  "has_endpoint f k = truthy (Option.bind (cf_endpoints f) (\<lambda>m. obj_get m k))"

definition deriveCapabilities :: "cap_facts \<Rightarrow> capability set" where
  "deriveCapabilities f =
     (if truthy (cf_dbPassword f) \<and> truthy (cf_phzHost f) then {CapDb} else {}) \<union>
     (if nonempty (cf_endpointIps f) then {CapEndpoint} else {}) \<union>
     (if truthy (cf_anonKey f) then {CapAnonKey} else {}) \<union>
     (if truthy (cf_pat f) then {CapPat} else {}) \<union>
     (if nonempty (cf_peers f) then {CapPeer} else {}) \<union>
     (if nonempty (cf_orgSlugs f) then {CapOrg} else {}) \<union>
     (if has_endpoint f ''pooler'' then {CapPooler} else {}) \<union>
     (if cf_where f = Some Local \<and> has_endpoint f ''second_vpc_lambda'' then {CapSecondVpc} else {}) \<union>
     (if cf_where f = Some Runner \<and> has_endpoint f ''service_network_dns'' then {CapServiceNetwork} else {}) \<union>
     (if cf_hasPgbench f = Some True then {CapPgbench} else {}) \<union>
     (if cf_hasOpenssl f = Some True then {CapOpenssl} else {}) \<union>
     (if cf_where f = Some Local \<and> cf_lambdaEnabled f = Some True then {CapLambda} else {})"

subsection \<open>The context\<close>

record ctx_input =
  ci_where :: where_t
  ci_ref :: "string option"
  ci_phzHost :: "string option"
  ci_dbPassword :: "string option"
  ci_anonKey :: "string option"
  ci_serviceKey :: "string option"
  ci_pat :: "string option"
  ci_region :: "string option"
  ci_endpointIps :: "string list option"
  ci_peers :: "string obj option"
  ci_orgSlugs :: "string list option"
  ci_endpoints :: "string obj option"
  ci_mgmtBase :: "string option"
  ci_apiHostSuffix :: "string option"

record ctx =
  cx_ref :: string
  cx_phzHost :: string
  cx_apiHost :: string
  cx_dbPassword :: string
  cx_anonKey :: "string option"
  cx_serviceKey :: "string option"
  cx_pat :: "string option"
  cx_region :: string
  cx_endpointIps :: "string list"
  cx_peers :: "string obj"
  cx_orgSlugs :: "string list"
  cx_orgs :: "string obj"
  cx_endpoints :: "string obj"
  cx_mgmtBase :: "string option"
  cx_apiHostSuffix :: string
  cx_capabilities :: "capability set"
  cx_where :: where_t

text \<open>What the host answers: the runner's file, \<open>which\<close> and \<open>dig\<close>.\<close>

record host =
  ho_env :: env
  ho_envFile :: "string option"
  ho_has :: "string \<Rightarrow> bool"
  ho_dig :: "string \<Rightarrow> string"

definition apiHostSuffix :: "host \<Rightarrow> ctx_input \<Rightarrow> string" where
  "apiHostSuffix h i =
     or_default (orElse (ci_apiHostSuffix i) (env_get (ho_env h) ''SUPABASE_API_HOST_SUFFIX'')) ''supabase.co''"

text \<open>\<open>split(/[\s,]+/)\<close>, then the empty pieces filtered out; and \<open>split(/\s+/)\<close>.\<close>

fun split_class :: "(char \<Rightarrow> bool) \<Rightarrow> string \<Rightarrow> string list" where
  "split_class p [] = [[]]"
| "split_class p (c # s) =
     (if p c then (case s of d # _ \<Rightarrow> if p d then split_class p s else [] # split_class p s | [] \<Rightarrow> [[], []])
      else case split_class p s of [] \<Rightarrow> [[c]] | w # ws \<Rightarrow> (c # w) # ws)"

definition dotted_re :: re where
  "dotted_re =
     (let d = Plus (Cls is_digit); dot = Lit ''.'' in Seqs [Bol, d, dot, d, dot, d, dot, d, Eol])"

definition endpointIps_of :: "host \<Rightarrow> ctx_input \<Rightarrow> string obj \<Rightarrow> string \<Rightarrow> string list" where
  "endpointIps_of h i renv phz =
     (let ips =
        (case ci_endpointIps i of
           Some xs \<Rightarrow> xs
         | None \<Rightarrow>
             if truthy (env_get (ho_env h) ''PVLAB_ENDPOINT_IPS'')
             then filter (\<lambda>s. s \<noteq> [])
                    (split_class (\<lambda>c. is_ws c \<or> c = CHR '','') (trim (the (env_get (ho_env h) ''PVLAB_ENDPOINT_IPS''))))
             else if truthy (obj_get renv ''ENDPOINT_IPS'')
             then split_class is_ws (trim (the (obj_get renv ''ENDPOINT_IPS'')))
             else [])
      in if ips = [] \<and> phz \<noteq> [] \<and> ci_where i = Runner
         then filter (re_test dotted_re) (map trim (split_char (CHR 0x0A) (ho_dig h phz)))
         else ips)"

definition buildCtx :: "host \<Rightarrow> ctx_input \<Rightarrow> ctx" where
  "buildCtx h i =
     (let penv = env_get (ho_env h);
          renv = (if ci_where i = Runner then runnerEnv (ho_envFile h) else []);
          ref = or_default (orElse (ci_ref i) (orElse (obj_get renv ''REF'') (penv ''PVLAB_REF''))) [];
          phz = or_default (orElse (ci_phzHost i) (obj_get renv ''PHZ_HOST''))
                  (if ref \<noteq> [] then ''db.'' @ ref @ ''.supabase.co'' else []);
          dbPassword = or_default (orElse (ci_dbPassword i) (penv ''DB_PASSWORD'')) [];
          anonKey = orElse (ci_anonKey i) (penv ''SUPABASE_ANON_KEY'');
          serviceKey = orElse (ci_serviceKey i) (penv ''SUPABASE_SERVICE_ROLE_KEY'');
          pat = orElse (ci_pat i) (penv ''SUPABASE_ACCESS_TOKEN'');
          endpointIps = endpointIps_of h i renv phz;
          peers = or_default (ci_peers i) (readPeers (ho_env h));
          orgSlugs = or_default (ci_orgSlugs i)
                       (filter (\<lambda>s. s \<noteq> [])
                          (map trim (split_char (CHR '','') (or_default (penv ''PVLAB_ORG_SLUGS'') []))));
          endpoints = or_default (ci_endpoints i) (readEndpoints (ho_env h))
      in \<lparr>cx_ref = ref, cx_phzHost = phz,
          cx_apiHost = (if ref \<noteq> [] then ref @ ''.'' @ apiHostSuffix h i else []),
          cx_dbPassword = dbPassword, cx_anonKey = anonKey, cx_serviceKey = serviceKey, cx_pat = pat,
          cx_region = or_default (orElse (ci_region i) (orElse (obj_get renv ''REGION'') (penv ''AWS_REGION'')))
                        ''ap-southeast-1'',
          cx_endpointIps = endpointIps, cx_peers = peers, cx_orgSlugs = orgSlugs,
          cx_orgs = readOrgs (ho_env h), cx_endpoints = endpoints,
          cx_mgmtBase = orElse (ci_mgmtBase i) (penv ''SUPABASE_MGMT_BASE_URL''),
          cx_apiHostSuffix = apiHostSuffix h i,
          cx_capabilities =
            deriveCapabilities
              \<lparr>cf_dbPassword = Some dbPassword, cf_phzHost = Some phz, cf_endpointIps = Some endpointIps,
               cf_anonKey = anonKey, cf_pat = pat, cf_peers = Some peers, cf_orgSlugs = Some orgSlugs,
               cf_endpoints = Some endpoints, cf_hasPgbench = Some (ho_has h ''pgbench''),
               cf_hasOpenssl = Some (ho_has h ''openssl''),
               cf_lambdaEnabled = Some (penv ''PVLAB_LAMBDA'' = Some ''1''), cf_where = Some (ci_where i)\<rparr>,
          cx_where = ci_where i\<rparr>)"

subsection \<open>The role pattern\<close>

text \<open>The pattern matches exactly the prefix followed by role characters, and captures them.\<close>

lemma role_re_sem:
  "re_sem (Seqs [Lit p, Grp 1 (Plus (Cls role_char)), Eol]) (at_pos [] k) e \<longleftrightarrow>
   (\<exists>w. k = p @ w \<and> w \<noteq> [] \<and> list_all role_char w \<and>
        e = \<lparr>before = rev w @ rev p, after = [], caps = [(1, w)]\<rparr>)" (is "?l \<longleftrightarrow> ?r")
proof
  assume ?l
  then obtain m x where m: "re_sem (Lit p) (at_pos [] k) m"
      and x: "re_sem (Plus (Cls role_char)) m x" and nil: "after x = []"
      and e: "e = x\<lparr>caps := (1, take (length (after m) - length (after x)) (after m)) # caps x\<rparr>"
    by auto
  from x obtain w where w: "w \<noteq> []" "consumes w m x" "list_all role_char w" "caps x = caps m"
    by (auto simp: plus_cls_sem)
  from m have pm: "consumes p (at_pos [] k) m" "caps m = []" by (simp_all add: re_sem_Lit)
  from pm w(2) nil have "k = p @ w" "before x = rev w @ rev p" "after m = w"
    by (simp_all add: consumes_def)
  moreover from this e nil w(4) pm(2) have "e = \<lparr>before = rev w @ rev p, after = [], caps = [(1, w)]\<rparr>"
    by (intro pos.equality) simp_all
  ultimately show ?r using w by blast
next
  assume ?r
  then obtain w where w: "k = p @ w" "w \<noteq> []" "list_all role_char w"
      and e: "e = \<lparr>before = rev w @ rev p, after = [], caps = [(1, w)]\<rparr>" by blast
  let ?m = "\<lparr>before = rev p, after = w, caps = []\<rparr>" and ?x = "\<lparr>before = rev w @ rev p, after = [], caps = []\<rparr>"
  have "re_sem (Lit p) (at_pos [] k) ?m" using w by (simp add: re_sem_Lit consumes_def)
  moreover have "re_sem (Plus (Cls role_char)) ?m ?x"
    using w unfolding plus_cls_sem by (intro exI [of _ w]) (simp add: consumes_def)
  then have "re_sem (Grp 1 (Plus (Cls role_char))) ?m e"
    unfolding re_sem.simps e by (intro exI [of _ ?x] conjI) simp_all
  moreover have "re_sem Eol e e" by (simp add: e)
  ultimately show ?l by (simp only: Seqs.simps re_sem.simps(3)) blast
qed

lemma role_group:
  "re_group 1 (role_re p) k = Some w \<longleftrightarrow> k = p @ w \<and> w \<noteq> [] \<and> list_all role_char w"
proof -
  let ?r = "Seqs [Lit p, Grp 1 (Plus (Cls role_char)), Eol]"
  have re: "role_re p = Seq Bol ?r" by (simp add: role_re_def)
  show ?thesis
  proof (cases "\<exists>v. k = p @ v \<and> v \<noteq> [] \<and> list_all role_char v")
    case True
    then obtain v where v: "k = p @ v" "v \<noteq> []" "list_all role_char v" by blast
    then have "re_group 1 (role_re p) k = Some v"
      unfolding re by (intro re_group_Bol) (auto simp: role_re_sem simp del: Seqs.simps One_nat_def)
    with v show ?thesis by auto
  next
    case False
    then have "re_group 1 (role_re p) k = None"
      unfolding re by (intro re_group_Bol_None) (auto simp: role_re_sem simp del: Seqs.simps One_nat_def)
    with False show ?thesis by auto
  qed
qed

subsection \<open>What the role readers return\<close>

lemma of_lower_char:
  "(of_char x :: nat) < 128 \<Longrightarrow>
   (of_char (lower_char x) :: nat) = (if is_upper x then of_char x + 32 else of_char x)"
  by (auto simp: lower_char_def is_upper_def Let_def)

lemma lower_role_inj: "inj_on lower_char {c. role_char c}"
proof (rule inj_onI)
  fix c d
  assume "c \<in> {c. role_char c}" "d \<in> {c. role_char c}" and eq: "lower_char c = lower_char d"
  then have small: "(of_char c :: nat) < 128" "(of_char d :: nat) < 128"
    and no_lower: "\<not> is_lower c" "\<not> is_lower d"
    by (auto simp: role_char_def is_lower_def is_upper_def is_digit_def)
  have "(if is_upper c then of_char c + 32 else of_char c :: nat) =
      (if is_upper d then of_char d + 32 else of_char d)"
    unfolding of_lower_char [OF small(1), symmetric] of_lower_char [OF small(2), symmetric] eq ..
  then have "(of_char c :: nat) = of_char d"
    using no_lower unfolding is_lower_def is_upper_def by (simp only: split: if_splits) linarith+
  then show "c = d" by (metis char_of_char)
qed

lemma to_lower_role_inj:
  "list_all role_char v \<Longrightarrow> list_all role_char w \<Longrightarrow> to_lower v = to_lower w \<longleftrightarrow> v = w"
  unfolding to_lower_def
  by (rule inj_on_map_eq_map) (auto intro!: inj_on_subset [OF lower_role_inj] simp: list_all_iff)

lemma read_role_other:
  assumes "fst kv \<noteq> p @ w" and "list_all role_char w"
  shows "obj_get (read_role p m kv) (to_lower w) = obj_get m (to_lower w)"
  using assms role_group [of p "fst kv"] to_lower_role_inj
  by (auto simp: read_role_def simp del: One_nat_def split: option.splits)

lemma read_role_same:
  assumes "fst kv = p @ w" and "list_all role_char w" and "w \<noteq> []"
  shows "obj_get (read_role p m kv) (to_lower w) =
    (case snd kv of Some v \<Rightarrow> if v \<noteq> [] then Some v else obj_get m (to_lower w) | None \<Rightarrow> obj_get m (to_lower w))"
proof -
  have "re_group 1 (role_re p) (fst kv) = Some w" using assms role_group by blast
  with assms(3) show ?thesis by (auto simp: read_role_def split: option.splits)
qed

lemma foldl_read_role:
  assumes "distinct (map fst e)" and "list_all role_char w" and "w \<noteq> []"
  shows "obj_get (foldl (read_role p) m e) (to_lower w) =
    (case env_get e (p @ w) of Some v \<Rightarrow> if v \<noteq> [] then Some v else obj_get m (to_lower w)
     | None \<Rightarrow> obj_get m (to_lower w))"
  using assms(1)
proof (induction e arbitrary: m)
  case Nil
  then show ?case by (simp add: env_get_def)
next
  case (Cons kv e)
  show ?case
  proof (cases "fst kv = p @ w")
    case True
    with Cons.prems have "map_of e (p @ w) = None" by (auto simp: map_of_eq_None_iff)
    with True Cons show ?thesis
      using read_role_same [OF True assms(2,3)]
      by (cases kv) (auto simp: env_get_def split: option.splits)
  next
    case False
    with Cons show ?thesis
      using read_role_other [OF False assms(2), of m]
      by (cases kv) (auto simp: env_get_def split: option.splits)
  qed
qed

definition set_value :: "env \<Rightarrow> string \<Rightarrow> string option" where
  "set_value e k = (case env_get e k of Some v \<Rightarrow> if v \<noteq> [] then Some v else None | None \<Rightarrow> None)"

lemma foldl_read_role_Nil:
  "distinct (map fst e) \<Longrightarrow> list_all role_char w \<Longrightarrow> w \<noteq> [] \<Longrightarrow>
   obj_get (foldl (read_role p) [] e) (to_lower w) = set_value e (p @ w)"
  using foldl_read_role [of e w p "[]"] by (simp add: set_value_def split: option.splits)

lemma foldl_skip_key:
  "foldl (\<lambda>m kv. if fst kv = x then m else f m kv) m e = foldl f m (filter (\<lambda>kv. fst kv \<noteq> x) e)"
  by (induction e arbitrary: m) auto

lemma set_value_filter:
  "set_value (filter (\<lambda>kv. fst kv \<noteq> x) e) k = (if k = x then None else set_value e k)"
  by (induction e) (auto simp: set_value_def env_get_def)

lemma distinct_filter_keys: "distinct (map fst e) \<Longrightarrow> distinct (map fst (filter P e))"
  by (induction e) auto

text \<open>\<open>readPeers\<close>, \<open>readEndpoints\<close> and \<open>readOrgs\<close> give a role exactly when its variable
  is set and not empty, with the variable's value, whatever the order of the environment: an empty
  variable counts as absent, and the two list variables \<open>PVLAB_ENDPOINT_IPS\<close> and
  \<open>PVLAB_ORG_SLUGS\<close> never become roles.\<close>

lemma role_readers:
  assumes "distinct (map fst e)" and "list_all role_char w" and "w \<noteq> []"
  shows "obj_get (readPeers e) (to_lower w) = set_value e (''PVLAB_PEER_'' @ w) \<and>
         obj_get (readEndpoints e) (to_lower w) =
           (if w = ''IPS'' then None else set_value e (''PVLAB_ENDPOINT_'' @ w)) \<and>
         obj_get (readOrgs e) (to_lower w) =
           (if w = ''SLUGS'' then None else set_value e (''PVLAB_ORG_'' @ w))"
proof -
  have skip: "obj_get (foldl (\<lambda>m kv. if fst kv = p @ x then m else read_role p m kv) [] e) (to_lower w) =
      (if w = x then None else set_value e (p @ w))" for p x
    unfolding foldl_skip_key
      foldl_read_role_Nil [OF distinct_filter_keys [OF assms(1)] assms(2,3)] set_value_filter
    by simp
  have ips: "''PVLAB_ENDPOINT_IPS'' = ''PVLAB_ENDPOINT_'' @ ''IPS''"
    and slugs: "''PVLAB_ORG_SLUGS'' = ''PVLAB_ORG_'' @ ''SLUGS''" by simp_all
  show ?thesis
    unfolding readPeers_def readEndpoints_def readOrgs_def ips slugs
    by (intro conjI skip foldl_read_role_Nil assms)
qed

text \<open>A capability is granted only from the facts it stands for: the vantage-restricted ones
  only at their vantage, and \<open>direct-db\<close> never.\<close>

lemma deriveCapabilities_vantage:
  "(CapLambda \<in> deriveCapabilities f \<longleftrightarrow> cf_where f = Some Local \<and> cf_lambdaEnabled f = Some True) \<and>
   (CapSecondVpc \<in> deriveCapabilities f \<longleftrightarrow> cf_where f = Some Local \<and> has_endpoint f ''second_vpc_lambda'') \<and>
   (CapServiceNetwork \<in> deriveCapabilities f \<longleftrightarrow>
      cf_where f = Some Runner \<and> has_endpoint f ''service_network_dns'') \<and>
   (CapDb \<in> deriveCapabilities f \<longleftrightarrow> truthy (cf_dbPassword f) \<and> truthy (cf_phzHost f)) \<and>
   (CapPat \<in> deriveCapabilities f \<longleftrightarrow> truthy (cf_pat f)) \<and>
   CapDirectDb \<notin> deriveCapabilities f"
  by (auto simp: deriveCapabilities_def)

end
