(* ===== verification/Host_Pause.thy ===== *)
theory Host_Pause
  imports Harness_Types
begin

text \<open>
  \<open>harness/src/host-pause.ts\<close>: a span in which the host slept. The wall clock reads whole
  milliseconds; the monotonic clock may read fractions of one, so it is rational.
\<close>

definition PAUSE_SLACK_MS :: int where
  "PAUSE_SLACK_MS = 2000"

text \<open>\<open>Math.round\<close>: to the nearest integer, halves upwards.\<close>

definition js_round :: "rat \<Rightarrow> int" where
  "js_round x = \<lfloor>x + 1 / 2\<rfloor>"

definition suspendedMs :: "int \<Rightarrow> int \<Rightarrow> rat \<Rightarrow> rat \<Rightarrow> int" where
  "suspendedMs wall0 wall1 mono0 mono1 =
     (let d = of_int (wall1 - wall0) - (mono1 - mono0)
      in if d > of_int PAUSE_SLACK_MS then js_round d else 0)"

text \<open>\<open>Math.round(ms / 1000)\<close>\<close>

definition ms_to_s :: "int \<Rightarrow> int" where
  "ms_to_s ms = js_round (of_int ms / 1000)"

definition suspension_note :: "int \<Rightarrow> string" where
  "suspension_note s =
     ''host suspended '' @ show_int s @ '' s during this test: timings that span it are not measurements''"

definition withHostSuspension :: "test_result \<Rightarrow> int \<Rightarrow> test_result" where
  "withHostSuspension r ms =
     (if ms \<le> 0 then r
      else let s = ms_to_s ms; note_text = suspension_note s
           in r\<lparr>tr_detail := Some (if truthy (tr_detail r)
                                 then the (tr_detail r) @ '' ('' @ note_text @ '')'' else note_text),
                tr_measurements :=
                  Some (obj_put ''host_suspended_s'' (NumC s)
                    (case tr_measurements r of None \<Rightarrow> [] | Some m \<Rightarrow> m))\<rparr>)"

lemma js_round_int [simp]: "js_round (of_int i) = i"
  by (simp add: js_round_def floor_eq_iff)

lemma js_round_mono: "x \<le> y \<Longrightarrow> js_round x \<le> js_round y"
  by (simp add: js_round_def floor_mono)

lemma js_round_error: "\<bar>of_int (js_round x) - x\<bar> \<le> 1 / 2"
  unfolding js_round_def using floor_correct [of "x + 1 / 2"] by linarith

lemma withHostSuspension_keeps [simp]:
  "tr_id (withHostSuspension r ms) = tr_id r"
  "tr_title (withHostSuspension r ms) = tr_title r"
  "tr_status (withHostSuspension r ms) = tr_status r"
  "tr_evidence (withHostSuspension r ms) = tr_evidence r"
  by (simp_all add: withHostSuspension_def Let_def)

text \<open>A suspension is reported exactly when the wall clock outran the monotonic clock by more
  than the slack, is then at least the slack, and differs from the true difference by half a
  millisecond at most.\<close>

lemma suspendedMs_exact:
  "(suspendedMs w0 w1 m0 m1 \<noteq> 0 \<longleftrightarrow> of_int (w1 - w0) - (m1 - m0) > (2000 :: rat)) \<and>
   (suspendedMs w0 w1 m0 m1 \<noteq> 0 \<longrightarrow>
      2000 \<le> suspendedMs w0 w1 m0 m1 \<and>
      \<bar>of_int (suspendedMs w0 w1 m0 m1) - (of_int (w1 - w0) - (m1 - m0))\<bar> \<le> 1 / 2)"
proof -
  let ?d = "of_int (w1 - w0) - (m1 - m0)"
  have "2000 \<le> js_round ?d" if "?d > 2000"
    using js_round_mono [of "of_int 2000" ?d] js_round_int [of 2000] that by simp
  then show ?thesis
    using js_round_error [of ?d] by (auto simp: suspendedMs_def PAUSE_SLACK_MS_def Let_def)
qed

end
