(* ===== verification/Sampler.thy ===== *)
theory Sampler
  imports Host_Pause
begin

text \<open>
  \<open>harness/src/sampler.ts\<close>: one loop per connection path samples its probe while an operation
  runs, a watchdog stops the run early and notes host pauses, and the main function waits for the
  operation, the watchdog and the loops in turn. Every segment of code between two awaits is one
  step of \<open>sampler_step\<close>; the order of steps, the clocks and the probes' answers are free. The wall
  clock never goes back. Times in the state are milliseconds since \<open>t0\<close>.
\<close>

subsection \<open>Outcomes, options, path states\<close>

record probe_outcome =
  oc_ok :: bool
  oc_error :: "string option"

record sample_options =
  so_intervalMs :: int
  so_maxWaitMs :: int
  so_settleMs :: int
  so_sampleDeadlineMs :: "int option"

definition DEFAULT_SAMPLE_DEADLINE_MS :: int where
  "DEFAULT_SAMPLE_DEADLINE_MS = 30000"

text \<open>How the race in \<open>withDeadline\<close> and the \<open>catch\<close> around it end.\<close>

datatype probe_end = Answered probe_outcome | Rejected string | DeadlinePassed

definition withDeadline :: "sample_options \<Rightarrow> probe_end \<Rightarrow> probe_outcome" where
  "withDeadline opts r =
     (let ms = (case so_sampleDeadlineMs opts of Some d \<Rightarrow> d | None \<Rightarrow> DEFAULT_SAMPLE_DEADLINE_MS)
      in case r of
           Answered oc \<Rightarrow> oc
         | Rejected e \<Rightarrow> \<lparr>oc_ok = False, oc_error = Some e\<rparr>
         | DeadlinePassed \<Rightarrow>
             \<lparr>oc_ok = False, oc_error = Some (''probe did not answer within '' @ show_int ms @ '' ms'')\<rparr>)"

record path_state =
  ps_name :: string
  ps_healthyAtStart :: "bool option"
  ps_samples :: nat
  ps_failures :: nat
  ps_firstFailMs :: "int option"
  ps_pendingRecoveryMs :: "int option"
  ps_recoveredMs :: "int option"
  ps_modes :: "string list"
  ps_down :: bool

definition init_path :: "string \<Rightarrow> path_state" where
  "init_path n =
     \<lparr>ps_name = n, ps_healthyAtStart = None, ps_samples = 0, ps_failures = 0, ps_firstFailMs = None,
      ps_pendingRecoveryMs = None, ps_recoveredMs = None, ps_modes = [], ps_down = False\<rparr>"

record path_window =
  pw_name :: string
  pw_healthyAtStart :: bool
  pw_samples :: nat
  pw_failures :: nat
  pw_firstFailMs :: "int option"
  pw_recoveredMs :: "int option"
  pw_windowMs :: "int option"
  pw_modes :: "string list"
  pw_pausedMs :: int

record pause =
  fromMs :: int
  toMs :: int

definition overlap :: "pause \<Rightarrow> int \<Rightarrow> int \<Rightarrow> int" where
  "overlap p f t = max 0 (min (toMs p) t - max (fromMs p) f)"

definition finalise :: "path_state \<Rightarrow> pause list \<Rightarrow> int \<Rightarrow> path_window" where
  "finalise st pauses endMs =
     \<lparr>pw_name = ps_name st,
      pw_healthyAtStart = (case ps_healthyAtStart st of Some b \<Rightarrow> b | None \<Rightarrow> False),
      pw_samples = ps_samples st, pw_failures = ps_failures st,
      pw_firstFailMs = ps_firstFailMs st, pw_recoveredMs = ps_recoveredMs st,
      pw_windowMs =
        (case (ps_firstFailMs st, ps_recoveredMs st) of (Some f, Some r) \<Rightarrow> Some (r - f) | _ \<Rightarrow> None),
      pw_modes = ps_modes st,
      pw_pausedMs =
        foldl (\<lambda>n p. n + overlap p 0 (case ps_recoveredMs st of Some r \<Rightarrow> r | None \<Rightarrow> endMs)) 0 pauses\<rparr>"

definition allSettled :: "path_state list \<Rightarrow> bool" where
  "allSettled sts = list_all (\<lambda>s. ps_firstFailMs s = None \<or> ps_recoveredMs s \<noteq> None) sts"

subsection \<open>One sample\<close>

definition mode_of :: "probe_outcome \<Rightarrow> string" where
  "mode_of oc = take 80 (case oc_error oc of Some e \<Rightarrow> e | None \<Rightarrow> ''unknown'')"

definition record_sample ::
  "sample_options \<Rightarrow> int \<Rightarrow> probe_outcome \<Rightarrow> path_state \<Rightarrow> path_state \<times> string list" where
  "record_sample opts t oc st0 =
     (let st1 = st0\<lparr>ps_samples := ps_samples st0 + 1\<rparr>;
          st = (if ps_healthyAtStart st1 = None then st1\<lparr>ps_healthyAtStart := Some (oc_ok oc)\<rparr> else st1);
          name = ps_name st
      in if \<not> oc_ok oc
         then let mode = mode_of oc
              in (st\<lparr>ps_failures := ps_failures st + 1, ps_down := True, ps_pendingRecoveryMs := None,
                    ps_firstFailMs := (if ps_firstFailMs st = None then Some t else ps_firstFailMs st),
                    ps_modes := (if mode \<in> set (ps_modes st) then ps_modes st else ps_modes st @ [mode])\<rparr>,
                  [name @ '' down at +'' @ show_int t @ ''ms: '' @ mode])
         else if ps_firstFailMs st \<noteq> None \<and> ps_recoveredMs st \<noteq> None
         then (st\<lparr>ps_down := False\<rparr>,
               if ps_down st then [name @ '' up again at +'' @ show_int t @ ''ms''] else [])
         else if ps_firstFailMs st \<noteq> None \<and> ps_recoveredMs st = None
         then (let st2 = st\<lparr>ps_down := False\<rparr>
               in case ps_pendingRecoveryMs st2 of
                    None \<Rightarrow> (st2\<lparr>ps_pendingRecoveryMs := Some t\<rparr>, [])
                  | Some p \<Rightarrow>
                      if t - p \<ge> so_settleMs opts
                      then (st2\<lparr>ps_recoveredMs := Some p\<rparr>,
                            [name @ '' recovered at +'' @ show_int p @ ''ms''])
                      else (st2, []))
         else (st, []))"

text \<open>A path's whole history, oldest sample first.\<close>

definition run_samples :: "sample_options \<Rightarrow> path_state \<Rightarrow> (int \<times> probe_outcome) list \<Rightarrow> path_state" where
  "run_samples opts st xs = foldl (\<lambda>s (t, oc). fst (record_sample opts t oc s)) st xs"

subsection \<open>The whole run as steps\<close>

datatype loop_pc = LTop | LIn | LProbe int | LSleep | LDone

datatype watch_pc = WStart | WTop int rat | WSleep int rat | WDone

datatype main_pc = MOp | MWatch | MJoin | MFail string | MReturn "path_window list" | MThrow string

record sys =
  sy_paths :: "path_state list"
  sy_loops :: "loop_pc list"
  sy_watch :: watch_pc
  sy_main :: main_pc
  sy_stop :: bool
  sy_pauses :: "pause list"
  sy_wall :: int
  sy_mono :: rat
  sy_log :: "string list"

record cfg =
  cf_opts :: sample_options
  cf_t0 :: int

definition elapsed :: "cfg \<Rightarrow> sys \<Rightarrow> int" where
  "elapsed c s = sy_wall s - cf_t0 c"

text \<open>The guard of both while loops.\<close>

definition running :: "cfg \<Rightarrow> sys \<Rightarrow> bool" where
  "running c s = (\<not> sy_stop s \<and> elapsed c s < so_maxWaitMs (cf_opts c))"

definition early_stop :: "sys \<Rightarrow> bool" where
  "early_stop s = (list_ex (\<lambda>p. ps_firstFailMs p \<noteq> None) (sy_paths s) \<and> allSettled (sy_paths s))"

text \<open>What the watchdog does when its sleep ends: note a late wake-up.\<close>

definition pause_why :: "int \<Rightarrow> rat \<Rightarrow> string" where
  "pause_why dwall dmono =
     (if of_int dwall - dmono > of_int PAUSE_SLACK_MS then ''the host was suspended''
      else ''the event loop was blocked'')"

definition watch_note :: "cfg \<Rightarrow> int \<Rightarrow> int \<Rightarrow> pause list" where
  "watch_note c lastWall wall =
     (let late = wall - lastWall - so_intervalMs (cf_opts c)
      in if late > PAUSE_SLACK_MS
         then [\<lparr>fromMs = lastWall - cf_t0 c, toMs = wall - cf_t0 c\<rparr>] else [])"

text \<open>\<open>toFixed(1)\<close>\<close>

definition to_fixed1 :: "rat \<Rightarrow> string" where
  "to_fixed1 x =
     (let n = nat (js_round (10 * \<bar>x\<bar>))
      in (if x < 0 then ''-'' else []) @ show_nat (n div 10) @ ''.'' @ show_nat (n mod 10))"

definition watch_log :: "cfg \<Rightarrow> int \<Rightarrow> rat \<Rightarrow> int \<Rightarrow> rat \<Rightarrow> string list" where
  "watch_log c lastWall lastMono nowWall nowMono =
     (if watch_note c lastWall nowWall = [] then []
      else [''host paused '' @ show_int (ms_to_s (nowWall - lastWall)) @ '' s at +'' @
            show_int (lastWall - cf_t0 c) @ ''ms (monotonic clock advanced '' @
            to_fixed1 ((nowMono - lastMono) / 1000) @ '' s: '' @ pause_why (nowWall - lastWall) (nowMono - lastMono) @
            ''); no sample ran in it''])"

inductive sampler_step :: "cfg \<Rightarrow> sys \<Rightarrow> sys \<Rightarrow> bool" for c where
  tick: "0 \<le> d \<Longrightarrow> 0 \<le> e \<Longrightarrow>
    sampler_step c s (s\<lparr>sy_wall := sy_wall s + d, sy_mono := sy_mono s + e\<rparr>)"
| loop_enter: "i < length (sy_loops s) \<Longrightarrow> sy_loops s ! i = LTop \<Longrightarrow> running c s \<Longrightarrow>
    sampler_step c s (s\<lparr>sy_loops := (sy_loops s)[i := LIn]\<rparr>)"
| loop_exit: "i < length (sy_loops s) \<Longrightarrow> sy_loops s ! i = LTop \<Longrightarrow> \<not> running c s \<Longrightarrow>
    sampler_step c s (s\<lparr>sy_loops := (sy_loops s)[i := LDone]\<rparr>)"
| loop_probe: "i < length (sy_loops s) \<Longrightarrow> sy_loops s ! i = LIn \<Longrightarrow>
    sampler_step c s (s\<lparr>sy_loops := (sy_loops s)[i := LProbe (elapsed c s)]\<rparr>)"
| loop_record: "i < length (sy_loops s) \<Longrightarrow> sy_loops s ! i = LProbe t \<Longrightarrow>
    record_sample (cf_opts c) t (withDeadline (cf_opts c) r) (sy_paths s ! i) = (p, lg) \<Longrightarrow>
    sampler_step c s (s\<lparr>sy_paths := (sy_paths s)[i := p], sy_loops := (sy_loops s)[i := LSleep],
                       sy_log := sy_log s @ lg\<rparr>)"
| loop_wake: "i < length (sy_loops s) \<Longrightarrow> sy_loops s ! i = LSleep \<Longrightarrow>
    sampler_step c s (s\<lparr>sy_loops := (sy_loops s)[i := LTop]\<rparr>)"
| watch_start: "sy_watch s = WStart \<Longrightarrow>
    sampler_step c s (s\<lparr>sy_watch := WTop (sy_wall s) (sy_mono s)\<rparr>)"
| watch_sleep: "sy_watch s = WTop lw lm \<Longrightarrow> running c s \<Longrightarrow> \<not> early_stop s \<Longrightarrow>
    sampler_step c s (s\<lparr>sy_watch := WSleep lw lm\<rparr>)"
| watch_end: "sy_watch s = WTop lw lm \<Longrightarrow> \<not> running c s \<or> early_stop s \<Longrightarrow>
    sampler_step c s (s\<lparr>sy_watch := WDone\<rparr>)"
| watch_wake: "sy_watch s = WSleep lw lm \<Longrightarrow>
    sampler_step c s (s\<lparr>sy_watch := WTop (sy_wall s) (sy_mono s),
                       sy_pauses := sy_pauses s @ watch_note c lw (sy_wall s),
                       sy_log := sy_log s @ watch_log c lw lm (sy_wall s) (sy_mono s)\<rparr>)"
| op_done: "sy_main s = MOp \<Longrightarrow> sampler_step c s (s\<lparr>sy_main := MWatch\<rparr>)"
| op_throws: "sy_main s = MOp \<Longrightarrow> sampler_step c s (s\<lparr>sy_main := MFail e, sy_stop := True\<rparr>)"
| watch_joined: "sy_main s = MWatch \<Longrightarrow> sy_watch s = WDone \<Longrightarrow>
    sampler_step c s (s\<lparr>sy_main := MJoin, sy_stop := True\<rparr>)"
| loops_joined: "sy_main s = MJoin \<Longrightarrow> list_all (\<lambda>l. l = LDone) (sy_loops s) \<Longrightarrow>
    sampler_step c s (s\<lparr>sy_main :=
      MReturn (map (\<lambda>p. finalise p (sy_pauses s) (elapsed c s)) (sy_paths s))\<rparr>)"
| fail_joined: "sy_main s = MFail e \<Longrightarrow> list_all (\<lambda>l. l = LDone) (sy_loops s) \<Longrightarrow> sy_watch s = WDone \<Longrightarrow>
    sampler_step c s (s\<lparr>sy_main := MThrow e\<rparr>)"

definition init_sys :: "cfg \<Rightarrow> string list \<Rightarrow> rat \<Rightarrow> sys" where
  "init_sys c names m0 =
     \<lparr>sy_paths = map init_path names, sy_loops = map (\<lambda>_. LTop) names, sy_watch = WStart, sy_main = MOp,
      sy_stop = False, sy_pauses = [], sy_wall = cf_t0 c, sy_mono = m0, sy_log = []\<rparr>"

inductive sampleDuring :: "cfg \<Rightarrow> string list \<Rightarrow> sys \<Rightarrow> bool" for c names where
  sampling_starts: "sampleDuring c names (init_sys c names m0)"
| sampling_steps: "sampleDuring c names s \<Longrightarrow> sampler_step c s s' \<Longrightarrow> sampleDuring c names s'"

subsection \<open>What one sample changes\<close>

lemma record_sample_name [simp]: "ps_name (fst (record_sample opts t oc st)) = ps_name st"
  by (simp add: record_sample_def Let_def split: option.splits)

lemma record_sample_samples [simp]:
  "ps_samples (fst (record_sample opts t oc st)) = ps_samples st + 1"
  by (simp add: record_sample_def Let_def split: option.splits)

lemma record_sample_healthy [simp]:
  "ps_healthyAtStart (fst (record_sample opts t oc st)) =
     (case ps_healthyAtStart st of None \<Rightarrow> Some (oc_ok oc) | Some b \<Rightarrow> Some b)"
  by (simp add: record_sample_def Let_def split: option.splits)

lemma record_sample_failures [simp]:
  "ps_failures (fst (record_sample opts t oc st)) = ps_failures st + (if oc_ok oc then 0 else 1)"
  by (simp add: record_sample_def Let_def split: option.splits)

lemma record_sample_first [simp]:
  "ps_firstFailMs (fst (record_sample opts t oc st)) =
     (if \<not> oc_ok oc \<and> ps_firstFailMs st = None then Some t else ps_firstFailMs st)"
  by (simp add: record_sample_def Let_def split: option.splits)

lemma record_sample_pending [simp]:
  "ps_pendingRecoveryMs (fst (record_sample opts t oc st)) =
     (if \<not> oc_ok oc then None
      else if ps_firstFailMs st \<noteq> None \<and> ps_recoveredMs st = None \<and> ps_pendingRecoveryMs st = None
      then Some t else ps_pendingRecoveryMs st)"
  by (auto simp add: record_sample_def Let_def split: option.splits)

lemma record_sample_recovered [simp]:
  "ps_recoveredMs (fst (record_sample opts t oc st)) =
     (if oc_ok oc \<and> ps_firstFailMs st \<noteq> None \<and> ps_recoveredMs st = None
      then (case ps_pendingRecoveryMs st of
              Some p \<Rightarrow> if t - p \<ge> so_settleMs opts then Some p else None | None \<Rightarrow> None)
      else ps_recoveredMs st)"
  by (simp add: record_sample_def Let_def split: option.splits)

lemma record_sample_modes [simp]:
  "ps_modes (fst (record_sample opts t oc st)) =
     (if oc_ok oc \<or> mode_of oc \<in> set (ps_modes st) then ps_modes st else ps_modes st @ [mode_of oc])"
  by (simp add: record_sample_def Let_def split: option.splits)

subsection \<open>The invariant of a path\<close>

definition counts_ok :: "path_state \<Rightarrow> bool" where
  "counts_ok p \<longleftrightarrow>
     ps_failures p \<le> ps_samples p \<and>
     (ps_firstFailMs p = None \<longleftrightarrow> ps_failures p = 0) \<and>
     (ps_modes p = [] \<longleftrightarrow> ps_failures p = 0) \<and>
     distinct (ps_modes p) \<and> length (ps_modes p) \<le> ps_failures p \<and>
     (\<forall>m \<in> set (ps_modes p). length m \<le> 80) \<and>
     (ps_healthyAtStart p = None \<longleftrightarrow> ps_samples p = 0)"

definition times_ok :: "int \<Rightarrow> path_state \<Rightarrow> bool" where
  "times_ok T p \<longleftrightarrow>
     (\<forall>f. ps_firstFailMs p = Some f \<longrightarrow> 0 \<le> f \<and> f \<le> T) \<and>
     (\<forall>q. ps_pendingRecoveryMs p = Some q \<longrightarrow> (\<exists>f. ps_firstFailMs p = Some f \<and> f \<le> q \<and> q \<le> T)) \<and>
     (\<forall>r. ps_recoveredMs p = Some r \<longrightarrow> (\<exists>f. ps_firstFailMs p = Some f \<and> f \<le> r \<and> r \<le> T))"

lemma mode_of_length: "length (mode_of oc) \<le> 80"
  by (simp add: mode_of_def)

lemma counts_ok_init: "counts_ok (init_path n)"
  by (simp add: counts_ok_def init_path_def)

lemma times_ok_init: "times_ok T (init_path n)"
  by (simp add: times_ok_def init_path_def)

lemma times_ok_mono: "times_ok T p \<Longrightarrow> T \<le> T' \<Longrightarrow> times_ok T' p"
  unfolding times_ok_def by (meson order_trans)

lemma counts_ok_record: "counts_ok p \<Longrightarrow> counts_ok (fst (record_sample opts t oc p))"
  using mode_of_length [of oc] by (auto simp: counts_ok_def split: option.splits)

lemma times_ok_record:
  "times_ok t p \<Longrightarrow> 0 \<le> t \<Longrightarrow> times_ok t (fst (record_sample opts t oc p))"
  unfolding times_ok_def by (auto split: option.splits if_splits)

lemma record_keeps_first:
  "ps_firstFailMs p \<noteq> None \<Longrightarrow> ps_firstFailMs (fst (record_sample opts t oc p)) = ps_firstFailMs p"
  by simp

lemma record_keeps_recovered:
  "ps_recoveredMs p \<noteq> None \<Longrightarrow> ps_recoveredMs (fst (record_sample opts t oc p)) = ps_recoveredMs p"
  by auto

subsection \<open>Pauses do not overlap\<close>

fun chain :: "int \<Rightarrow> pause list \<Rightarrow> int \<Rightarrow> bool" where
  "chain lo [] hi = (lo \<le> hi)"
| "chain lo (p # ps) hi = (lo \<le> fromMs p \<and> fromMs p \<le> toMs p \<and> chain (toMs p) ps hi)"

lemma chain_mono: "chain lo ps hi \<Longrightarrow> hi \<le> hi' \<Longrightarrow> chain lo ps hi'"
  by (induction lo ps hi rule: chain.induct) auto

lemma chain_snoc:
  "chain lo ps m \<Longrightarrow> m \<le> fromMs p \<Longrightarrow> fromMs p \<le> toMs p \<Longrightarrow> toMs p \<le> hi \<Longrightarrow> chain lo (ps @ [p]) hi"
  by (induction lo ps m rule: chain.induct) auto

lemma foldl_add_sum: "foldl (\<lambda>n p. n + f p) (a :: int) ps = a + sum_list (map f ps)"
  by (induction ps arbitrary: a) auto

lemma overlap_nonneg: "0 \<le> overlap p f t"
  by (simp add: overlap_def)

lemma overlaps_bound:
  "chain lo ps hi \<Longrightarrow> 0 \<le> lo \<Longrightarrow> sum_list (map (\<lambda>p. overlap p 0 t) ps) \<le> max 0 (t - lo)"
proof (induction lo ps hi rule: chain.induct)
  case (1 lo hi)
  then show ?case by simp
next
  case (2 lo p ps hi)
  then have "sum_list (map (\<lambda>p. overlap p 0 t) ps) \<le> max 0 (t - toMs p)" by simp
  moreover have "overlap p 0 t + max 0 (t - toMs p) \<le> max 0 (t - lo)"
    using "2.prems" by (auto simp: overlap_def)
  ultimately show ?case by simp
qed

lemma overlaps_nonneg: "0 \<le> sum_list (map (\<lambda>p. overlap p f t) ps)"
  by (induction ps) (simp_all add: overlap_nonneg)

subsection \<open>The invariant of the run\<close>

definition loop_ok :: "int \<Rightarrow> loop_pc \<Rightarrow> path_state \<Rightarrow> bool" where
  "loop_ok T l p = (case l of LProbe t \<Rightarrow> 0 \<le> t \<and> t \<le> T \<and> times_ok t p | _ \<Rightarrow> times_ok T p)"

definition watch_ok :: "cfg \<Rightarrow> sys \<Rightarrow> bool" where
  "watch_ok c s =
     (case sy_watch s of
        WStart \<Rightarrow> sy_pauses s = []
      | WTop lw _ \<Rightarrow> cf_t0 c \<le> lw \<and> lw \<le> sy_wall s \<and> chain 0 (sy_pauses s) (lw - cf_t0 c)
      | WSleep lw _ \<Rightarrow> cf_t0 c \<le> lw \<and> lw \<le> sy_wall s \<and> chain 0 (sy_pauses s) (lw - cf_t0 c)
      | WDone \<Rightarrow> chain 0 (sy_pauses s) (elapsed c s))"

definition main_ok :: "sys \<Rightarrow> bool" where
  "main_ok s =
     (case sy_main s of
        MOp \<Rightarrow> \<not> sy_stop s | MWatch \<Rightarrow> \<not> sy_stop s
      | MJoin \<Rightarrow> sy_watch s = WDone | MReturn _ \<Rightarrow> sy_watch s = WDone
      | MFail _ \<Rightarrow> sy_stop s | MThrow _ \<Rightarrow> sy_stop s)"

definition not_failed :: "sys \<Rightarrow> bool" where
  "not_failed s = (case sy_main s of MFail _ \<Rightarrow> False | MThrow _ \<Rightarrow> False | _ \<Rightarrow> True)"

text \<open>Some path went down and came back.\<close>

definition outage_over :: "sys \<Rightarrow> bool" where
  "outage_over s = (\<exists>p \<in> set (sy_paths s). ps_firstFailMs p \<noteq> None \<and> ps_recoveredMs p \<noteq> None)"

definition sys_inv :: "cfg \<Rightarrow> sys \<Rightarrow> bool" where
  "sys_inv c s \<longleftrightarrow>
     0 \<le> elapsed c s \<and> length (sy_loops s) = length (sy_paths s) \<and>
     (\<forall>i < length (sy_paths s). counts_ok (sy_paths s ! i) \<and> loop_ok (elapsed c s) (sy_loops s ! i) (sy_paths s ! i)) \<and>
     watch_ok c s \<and> main_ok s \<and>
     (sy_watch s = WDone \<longrightarrow> not_failed s \<longrightarrow> so_maxWaitMs (cf_opts c) \<le> elapsed c s \<or> outage_over s)"

lemma early_stop_outage: "early_stop s \<Longrightarrow> outage_over s"
  by (fastforce simp: early_stop_def outage_over_def allSettled_def list_all_iff list_ex_iff)

lemma loop_ok_mono: "loop_ok T l p \<Longrightarrow> T \<le> T' \<Longrightarrow> loop_ok T' l p"
  by (auto simp: loop_ok_def times_ok_mono split: loop_pc.splits)

text \<open>Parts of the invariant an update does not touch.\<close>

lemma loops_frame [simp]:
  "elapsed c (s\<lparr>sy_loops := l\<rparr>) = elapsed c s"
  "watch_ok c (s\<lparr>sy_loops := l\<rparr>) = watch_ok c s"
  "main_ok (s\<lparr>sy_loops := l\<rparr>) = main_ok s"
  "not_failed (s\<lparr>sy_loops := l\<rparr>) = not_failed s"
  "outage_over (s\<lparr>sy_loops := l\<rparr>) = outage_over s"
  by (simp_all add: elapsed_def not_failed_def outage_over_def watch_ok_def main_ok_def split: watch_pc.splits main_pc.splits)

lemma record_frame [simp]:
  "elapsed c (s\<lparr>sy_paths := ps, sy_loops := l, sy_log := g\<rparr>) = elapsed c s"
  "watch_ok c (s\<lparr>sy_paths := ps, sy_loops := l, sy_log := g\<rparr>) = watch_ok c s"
  "main_ok (s\<lparr>sy_paths := ps, sy_loops := l, sy_log := g\<rparr>) = main_ok s"
  "not_failed (s\<lparr>sy_paths := ps, sy_loops := l, sy_log := g\<rparr>) = not_failed s"
  by (simp_all add: elapsed_def not_failed_def watch_ok_def main_ok_def split: watch_pc.splits main_pc.splits)

lemma tick_frame [simp]:
  "elapsed c (s\<lparr>sy_wall := w, sy_mono := m\<rparr>) = w - cf_t0 c"
  "main_ok (s\<lparr>sy_wall := w, sy_mono := m\<rparr>) = main_ok s"
  "not_failed (s\<lparr>sy_wall := w, sy_mono := m\<rparr>) = not_failed s"
  "outage_over (s\<lparr>sy_wall := w, sy_mono := m\<rparr>) = outage_over s"
  by (simp_all add: elapsed_def not_failed_def outage_over_def main_ok_def split: main_pc.splits)

lemma watch_ok_tick:
  "watch_ok c s \<Longrightarrow> 0 \<le> d \<Longrightarrow> watch_ok c (s\<lparr>sy_wall := sy_wall s + d, sy_mono := m\<rparr>)"
  by (auto simp: watch_ok_def elapsed_def elim: chain_mono split: watch_pc.splits)

lemma sys_inv_init: "sys_inv c (init_sys c names m0)"
  by (simp add: sys_inv_def init_sys_def elapsed_def loop_ok_def watch_ok_def main_ok_def
      counts_ok_init times_ok_init)

lemma outage_over_update:
  assumes "outage_over s" and "i < length (sy_paths s)"
    and "ps_recoveredMs (sy_paths s ! i) \<noteq> None \<Longrightarrow> ps_firstFailMs (sy_paths s ! i) \<noteq> None \<Longrightarrow>
      ps_firstFailMs p \<noteq> None \<and> ps_recoveredMs p \<noteq> None"
  shows "outage_over (s\<lparr>sy_paths := (sy_paths s)[i := p], sy_loops := ls, sy_log := lg\<rparr>)"
proof -
  obtain j where j: "j < length (sy_paths s)" "ps_firstFailMs (sy_paths s ! j) \<noteq> None"
      "ps_recoveredMs (sy_paths s ! j) \<noteq> None"
    using assms(1) by (auto simp: outage_over_def in_set_conv_nth)
  let ?q = "(sy_paths s)[i := p] ! j"
  have "ps_firstFailMs ?q \<noteq> None \<and> ps_recoveredMs ?q \<noteq> None"
    using j assms(2,3) by (cases "i = j") auto
  moreover have "?q \<in> set ((sy_paths s)[i := p])" using j(1) by simp
  ultimately show ?thesis unfolding outage_over_def by auto
qed

text \<open>One lemma per kind of step: the clock, a loop's program counter, a sample, the watchdog, the
  main function.\<close>

lemma inv_tick:
  assumes "sys_inv c s" and "0 \<le> d"
  shows "sys_inv c (s\<lparr>sy_wall := sy_wall s + d, sy_mono := m\<rparr>)"
proof -
  have le: "elapsed c s \<le> sy_wall s + d - cf_t0 c" using assms(2) by (simp add: elapsed_def)
  show ?thesis
    using assms le watch_ok_tick loop_ok_mono [OF _ le] unfolding sys_inv_def by auto
qed

lemma inv_loop_pc:
  assumes "sys_inv c s" and "i < length (sy_loops s)"
    and "loop_ok (elapsed c s) l (sy_paths s ! i)"
  shows "sys_inv c (s\<lparr>sy_loops := (sy_loops s)[i := l]\<rparr>)"
  using assms unfolding sys_inv_def by (auto simp: nth_list_update)

lemma inv_record:
  assumes inv: "sys_inv c s" and i: "i < length (sy_loops s)" and l: "sy_loops s ! i = LProbe t"
  shows "sys_inv c (s\<lparr>sy_paths := (sy_paths s)[i := fst (record_sample (cf_opts c) t oc (sy_paths s ! i))],
    sy_loops := (sy_loops s)[i := LSleep], sy_log := lg\<rparr>)"
    (is "sys_inv c ?s")
proof -
  let ?p = "sy_paths s ! i" and ?p' = "fst (record_sample (cf_opts c) t oc (sy_paths s ! i))"
  from inv i have len: "i < length (sy_paths s)" and c: "counts_ok ?p"
      and lk: "loop_ok (elapsed c s) (LProbe t) ?p"
    unfolding sys_inv_def by (auto simp flip: l)
  then have p': "counts_ok ?p'" "times_ok (elapsed c s) ?p'"
    by (auto simp: loop_ok_def counts_ok_record intro: times_ok_record times_ok_mono)
  have out: "outage_over s \<Longrightarrow> outage_over ?s"
    by (rule outage_over_update [OF _ len]) (simp_all add: record_keeps_recovered del: record_sample_recovered)
  show ?thesis
    using inv p' out len unfolding sys_inv_def by (auto simp: loop_ok_def nth_list_update)
qed

lemma inv_frame:
  assumes "sys_inv c s"
    and "sy_paths s' = sy_paths s" and "sy_loops s' = sy_loops s" and "sy_wall s' = sy_wall s"
    and "watch_ok c s'" and "main_ok s'"
    and "sy_watch s' = WDone \<Longrightarrow> not_failed s' \<Longrightarrow>
      so_maxWaitMs (cf_opts c) \<le> elapsed c s \<or> outage_over s"
  shows "sys_inv c s'"
  using assms unfolding sys_inv_def by (auto simp: elapsed_def outage_over_def)

text \<open>Every step keeps the invariant.\<close>

lemma inv_watch:
  assumes inv: "sys_inv c s"
  shows "sy_watch s = WStart \<Longrightarrow> sys_inv c (s\<lparr>sy_watch := WTop (sy_wall s) (sy_mono s)\<rparr>)"
    and "sy_watch s = WTop lw lm \<Longrightarrow> sys_inv c (s\<lparr>sy_watch := WSleep lw lm\<rparr>)"
    and "sy_watch s = WTop lw lm \<Longrightarrow> \<not> running c s \<or> early_stop s \<Longrightarrow> sys_inv c (s\<lparr>sy_watch := WDone\<rparr>)"
    and "sy_watch s = WSleep lw lm \<Longrightarrow>
      sys_inv c (s\<lparr>sy_watch := WTop (sy_wall s) (sy_mono s),
                  sy_pauses := sy_pauses s @ watch_note c lw (sy_wall s), sy_log := lg\<rparr>)"
proof -
  from inv have w: "watch_ok c s" and m: "main_ok s" and e: "0 \<le> elapsed c s"
    by (simp_all add: sys_inv_def)
  have main: "main_ok (s\<lparr>sy_watch := x\<rparr>)" if "sy_watch s \<noteq> WDone" for x
    using m that by (auto simp: main_ok_def split: main_pc.splits)
  show "sys_inv c (s\<lparr>sy_watch := WTop (sy_wall s) (sy_mono s)\<rparr>)" if "sy_watch s = WStart"
    using w e that by (intro inv_frame [OF inv] main) (auto simp: watch_ok_def elapsed_def)
  show "sys_inv c (s\<lparr>sy_watch := WSleep lw lm\<rparr>)" if "sy_watch s = WTop lw lm"
    using w that by (intro inv_frame [OF inv] main) (auto simp: watch_ok_def)
  show "sys_inv c (s\<lparr>sy_watch := WDone\<rparr>)"
    if top: "sy_watch s = WTop lw lm" and stop: "\<not> running c s \<or> early_stop s"
  proof (intro inv_frame [OF inv] main)
    show "watch_ok c (s\<lparr>sy_watch := WDone\<rparr>)"
      using w top by (auto simp: watch_ok_def elapsed_def elim: chain_mono)
    assume "not_failed (s\<lparr>sy_watch := WDone\<rparr>)"
    with m top have "\<not> sy_stop s" by (auto simp: main_ok_def not_failed_def split: main_pc.splits)
    with stop show "so_maxWaitMs (cf_opts c) \<le> elapsed c s \<or> outage_over s"
      using early_stop_outage by (auto simp: running_def)
  qed (use top in simp_all)
  show "sys_inv c (s\<lparr>sy_watch := WTop (sy_wall s) (sy_mono s),
      sy_pauses := sy_pauses s @ watch_note c lw (sy_wall s), sy_log := lg\<rparr>)"
    if top: "sy_watch s = WSleep lw lm"
  proof (rule inv_frame [OF inv])
    show "watch_ok c (s\<lparr>sy_watch := WTop (sy_wall s) (sy_mono s),
        sy_pauses := sy_pauses s @ watch_note c lw (sy_wall s), sy_log := lg\<rparr>)"
      using w top by (auto simp: watch_ok_def watch_note_def Let_def intro: chain_snoc elim: chain_mono)
    show "main_ok (s\<lparr>sy_watch := WTop (sy_wall s) (sy_mono s),
        sy_pauses := sy_pauses s @ watch_note c lw (sy_wall s), sy_log := lg\<rparr>)"
      using m top by (auto simp: main_ok_def split: main_pc.splits)
  qed simp_all
qed

lemma inv_main:
  assumes inv: "sys_inv c s"
  shows "sy_main s = MOp \<Longrightarrow> sys_inv c (s\<lparr>sy_main := MWatch\<rparr>)"
    and "sy_main s = MOp \<Longrightarrow> sys_inv c (s\<lparr>sy_main := MFail e, sy_stop := True\<rparr>)"
    and "sy_main s = MWatch \<Longrightarrow> sy_watch s = WDone \<Longrightarrow> sys_inv c (s\<lparr>sy_main := MJoin, sy_stop := True\<rparr>)"
    and "sy_main s = MJoin \<Longrightarrow> sys_inv c (s\<lparr>sy_main := MReturn ws\<rparr>)"
    and "sy_main s = MFail e \<Longrightarrow> sys_inv c (s\<lparr>sy_main := MThrow e\<rparr>)"
proof -
  have w: "watch_ok c s" and m: "main_ok s"
      and d: "sy_watch s = WDone \<Longrightarrow> not_failed s \<Longrightarrow> so_maxWaitMs (cf_opts c) \<le> elapsed c s \<or> outage_over s"
    using inv by (simp_all add: sys_inv_def)
  have wk: "watch_ok c (s\<lparr>sy_main := x\<rparr>)" "watch_ok c (s\<lparr>sy_main := x, sy_stop := b\<rparr>)" for x b
    using w by (simp_all add: watch_ok_def elapsed_def split: watch_pc.splits)
  note frame = inv_frame [OF inv _ _ _ wk(1)] inv_frame [OF inv _ _ _ wk(2)]
  show "sy_main s = MOp \<Longrightarrow> sys_inv c (s\<lparr>sy_main := MWatch\<rparr>)"
    using m d by (intro frame(1)) (simp_all add: main_ok_def not_failed_def)
  show "sy_main s = MOp \<Longrightarrow> sys_inv c (s\<lparr>sy_main := MFail e, sy_stop := True\<rparr>)"
    by (intro frame(2)) (simp_all add: main_ok_def not_failed_def)
  show "sy_main s = MWatch \<Longrightarrow> sy_watch s = WDone \<Longrightarrow> sys_inv c (s\<lparr>sy_main := MJoin, sy_stop := True\<rparr>)"
    using d by (intro frame(2)) (simp_all add: main_ok_def not_failed_def)
  show "sy_main s = MJoin \<Longrightarrow> sys_inv c (s\<lparr>sy_main := MReturn ws\<rparr>)"
    using m d by (intro frame(1)) (simp_all add: main_ok_def not_failed_def)
  show "sy_main s = MFail e \<Longrightarrow> sys_inv c (s\<lparr>sy_main := MThrow e\<rparr>)"
    using m by (intro frame(1)) (simp_all add: main_ok_def not_failed_def)
qed

lemma inv_step: "sampler_step c s s' \<Longrightarrow> sys_inv c s \<Longrightarrow> sys_inv c s'"
proof (induction rule: sampler_step.induct)
  case (loop_enter i s)
  then have "loop_ok (elapsed c s) LTop (sy_paths s ! i)" unfolding sys_inv_def by metis
  then have "loop_ok (elapsed c s) LIn (sy_paths s ! i)" by (simp add: loop_ok_def)
  with loop_enter show ?case by (intro inv_loop_pc)
next
  case (loop_exit i s)
  then have "loop_ok (elapsed c s) LTop (sy_paths s ! i)" unfolding sys_inv_def by metis
  then have "loop_ok (elapsed c s) LDone (sy_paths s ! i)" by (simp add: loop_ok_def)
  with loop_exit show ?case by (intro inv_loop_pc)
next
  case (loop_probe i s)
  then have "loop_ok (elapsed c s) LIn (sy_paths s ! i)" "0 \<le> elapsed c s" unfolding sys_inv_def by metis+
  then have "loop_ok (elapsed c s) (LProbe (elapsed c s)) (sy_paths s ! i)" by (simp add: loop_ok_def)
  with loop_probe show ?case by (intro inv_loop_pc)
next
  case (loop_record i s t r p lg)
  then have "p = fst (record_sample (cf_opts c) t (withDeadline (cf_opts c) r) (sy_paths s ! i))" by simp
  with loop_record show ?case by (simp only: inv_record)
next
  case (loop_wake i s)
  then have "loop_ok (elapsed c s) LSleep (sy_paths s ! i)" unfolding sys_inv_def by metis
  then have "loop_ok (elapsed c s) LTop (sy_paths s ! i)" by (simp add: loop_ok_def)
  with loop_wake show ?case by (intro inv_loop_pc)
qed (simp_all add: inv_tick inv_watch inv_main)

lemma inv_reachable: "sampleDuring c names s \<Longrightarrow> sys_inv c s"
  by (induction rule: sampleDuring.induct) (simp_all add: sys_inv_init inv_step)

subsection \<open>What a returned window says\<close>

definition window_ok :: "int \<Rightarrow> path_window \<Rightarrow> bool" where
  "window_ok endMs w \<longleftrightarrow>
     pw_failures w \<le> pw_samples w \<and>
     (pw_firstFailMs w = None \<longleftrightarrow> pw_failures w = 0) \<and>
     (pw_modes w = [] \<longleftrightarrow> pw_failures w = 0) \<and>
     distinct (pw_modes w) \<and> (\<forall>m \<in> set (pw_modes w). length m \<le> 80) \<and>
     (\<forall>d. pw_windowMs w = Some d \<longleftrightarrow>
        (\<exists>f r. pw_firstFailMs w = Some f \<and> pw_recoveredMs w = Some r \<and> d = r - f)) \<and>
     (\<forall>d. pw_windowMs w = Some d \<longrightarrow> 0 \<le> d \<and> d \<le> endMs) \<and>
     0 \<le> pw_pausedMs w \<and>
     pw_pausedMs w \<le> (case pw_recoveredMs w of Some r \<Rightarrow> r | None \<Rightarrow> endMs)"

lemma finalise_ok:
  assumes c: "counts_ok p" and t: "times_ok T p" and ch: "chain 0 ps hi" and T: "0 \<le> T"
  shows "window_ok T (finalise p ps T)"
proof -
  let ?u = "case ps_recoveredMs p of Some r \<Rightarrow> r | None \<Rightarrow> T"
  have "0 \<le> ?u" using t T by (force simp: times_ok_def split: option.splits)
  then have "sum_list (map (\<lambda>p. overlap p 0 ?u) ps) \<le> ?u"
    using overlaps_bound [OF ch, of ?u] by simp
  then have "0 \<le> pw_pausedMs (finalise p ps T) \<and> pw_pausedMs (finalise p ps T) \<le> ?u"
    by (simp add: finalise_def foldl_add_sum overlaps_nonneg)
  moreover have "\<forall>d. pw_windowMs (finalise p ps T) = Some d \<longrightarrow> 0 \<le> d \<and> d \<le> T"
    using t by (auto simp: finalise_def times_ok_def split: option.splits)
  moreover have "\<forall>d. pw_windowMs (finalise p ps T) = Some d \<longleftrightarrow>
      (\<exists>f r. ps_firstFailMs p = Some f \<and> ps_recoveredMs p = Some r \<and> d = r - f)"
    by (auto simp: finalise_def split: option.splits)
  ultimately show ?thesis
    using c by (simp add: window_ok_def counts_ok_def) (simp add: finalise_def)
qed

lemma loop_done_times: "loop_ok T LDone p \<Longrightarrow> times_ok T p"
  by (simp add: loop_ok_def)

lemma window_ok_mono: "window_ok T w \<Longrightarrow> T \<le> T' \<Longrightarrow> window_ok T' w"
  by (auto simp: window_ok_def split: option.splits dest: order_trans)

lemma joined_windows_ok:
  assumes inv: "sys_inv c s" and m: "sy_main s = MJoin" and fin: "list_all (\<lambda>l. l = LDone) (sy_loops s)"
  shows "\<forall>w \<in> set (map (\<lambda>p. finalise p (sy_pauses s) (elapsed c s)) (sy_paths s)). window_ok (elapsed c s) w"
proof -
  have ch: "chain 0 (sy_pauses s) (elapsed c s)"
    using inv m by (auto simp: sys_inv_def main_ok_def watch_ok_def)
  have "counts_ok p \<and> times_ok (elapsed c s) p" if "p \<in> set (sy_paths s)" for p
  proof -
    from that obtain i where i: "i < length (sy_paths s)" "p = sy_paths s ! i" by (metis in_set_conv_nth)
    with inv fin have "counts_ok p" "sy_loops s ! i = LDone" "loop_ok (elapsed c s) (sy_loops s ! i) p"
      by (auto simp: sys_inv_def list_all_length)
    then show ?thesis by (simp add: loop_done_times)
  qed
  with ch inv show ?thesis by (auto simp: sys_inv_def intro: finalise_ok)
qed

lemma step_elapsed: "sampler_step c s s' \<Longrightarrow> elapsed c s \<le> elapsed c s'"
  by (induction rule: sampler_step.induct) (auto simp: elapsed_def)

text \<open>Who can have made the main function return.\<close>

lemma step_returns:
  "sampler_step c s s' \<Longrightarrow> sy_main s' = MReturn ws \<Longrightarrow>
   sy_main s = MReturn ws \<or>
   (sy_main s = MJoin \<and> list_all (\<lambda>l. l = LDone) (sy_loops s) \<and>
    ws = map (\<lambda>p. finalise p (sy_pauses s) (elapsed c s)) (sy_paths s))"
  by (induction rule: sampler_step.induct) auto

text \<open>C2. Whatever the probes answer and however the loops, the watchdog and the operation
  interleave, every window the sampler returns is consistent: failures are counted among the
  samples, a path that never failed has no window and no failure mode, modes are distinct and at
  most 80 characters, an outage window is recovery minus first failure and is neither negative nor
  longer than the run, and the host pauses counted in it never exceed the span they are counted in.\<close>

theorem sampler_windows:
  assumes "sampleDuring c names s" and "sy_main s = MReturn ws" and "w \<in> set ws"
  shows "window_ok (elapsed c s) w"
proof -
  have "\<forall>ws. sy_main s = MReturn ws \<longrightarrow> (\<forall>w \<in> set ws. window_ok (elapsed c s) w)"
    using assms(1)
  proof (induction rule: sampleDuring.induct)
    case (sampling_starts m0)
    then show ?case by (simp add: init_sys_def)
  next
    case (sampling_steps s s')
    show ?case
    proof (intro allI impI ballI)
      fix ws w
      assume "sy_main s' = MReturn ws" and w: "w \<in> set ws"
      with step_returns [OF sampling_steps.hyps(2)] have "window_ok (elapsed c s) w"
        using sampling_steps.IH joined_windows_ok [OF inv_reachable [OF sampling_steps.hyps(1)]] by blast
      then show "window_ok (elapsed c s') w"
        using step_elapsed [OF sampling_steps.hyps(2)] by (rule window_ok_mono)
    qed
  qed
  with assms(2,3) show ?thesis by blast
qed

text \<open>C3. A null result is earned by waiting: when the sampler returns, either \<open>maxWaitMs\<close> has
  passed or some path went down and came back.\<close>

theorem sampler_earned:
  assumes "sampleDuring c names s" and "sy_main s = MReturn ws"
  shows "so_maxWaitMs (cf_opts c) \<le> elapsed c s \<or> outage_over s"
  using inv_reachable [OF assms(1)] assms(2) by (simp add: sys_inv_def main_ok_def not_failed_def)

subsection \<open>An executable scheduler\<close>

text \<open>A schedule names the next actor; each scheduled action is one step of the relation, so a run
  can be evaluated.\<close>

datatype sched_act = Tick int rat | Loop nat probe_end | Watch | Main | Throw string

definition loop_action :: "cfg \<Rightarrow> sys \<Rightarrow> nat \<Rightarrow> probe_end \<Rightarrow> sys option" where
  "loop_action c s i r =
     (if i < length (sy_loops s) then
        (case sy_loops s ! i of
           LTop \<Rightarrow> Some (s\<lparr>sy_loops := (sy_loops s)[i := if running c s then LIn else LDone]\<rparr>)
         | LIn \<Rightarrow> Some (s\<lparr>sy_loops := (sy_loops s)[i := LProbe (elapsed c s)]\<rparr>)
         | LProbe t \<Rightarrow>
             (let (p, lg) = record_sample (cf_opts c) t (withDeadline (cf_opts c) r) (sy_paths s ! i)
              in Some (s\<lparr>sy_paths := (sy_paths s)[i := p], sy_loops := (sy_loops s)[i := LSleep],
                         sy_log := sy_log s @ lg\<rparr>))
         | LSleep \<Rightarrow> Some (s\<lparr>sy_loops := (sy_loops s)[i := LTop]\<rparr>)
         | LDone \<Rightarrow> None)
      else None)"

definition watch_action :: "cfg \<Rightarrow> sys \<Rightarrow> sys option" where
  "watch_action c s =
     (case sy_watch s of
        WStart \<Rightarrow> Some (s\<lparr>sy_watch := WTop (sy_wall s) (sy_mono s)\<rparr>)
      | WTop lw lm \<Rightarrow>
          Some (s\<lparr>sy_watch := if running c s \<and> \<not> early_stop s then WSleep lw lm else WDone\<rparr>)
      | WSleep lw lm \<Rightarrow>
          Some (s\<lparr>sy_watch := WTop (sy_wall s) (sy_mono s),
                  sy_pauses := sy_pauses s @ watch_note c lw (sy_wall s),
                  sy_log := sy_log s @ watch_log c lw lm (sy_wall s) (sy_mono s)\<rparr>)
      | WDone \<Rightarrow> None)"

definition main_action :: "cfg \<Rightarrow> sys \<Rightarrow> sys option" where
  "main_action c s =
     (let joined = list_all (\<lambda>l. l = LDone) (sy_loops s)
      in case sy_main s of
           MOp \<Rightarrow> Some (s\<lparr>sy_main := MWatch\<rparr>)
         | MWatch \<Rightarrow> if sy_watch s = WDone then Some (s\<lparr>sy_main := MJoin, sy_stop := True\<rparr>) else None
         | MJoin \<Rightarrow>
             if joined
             then Some (s\<lparr>sy_main := MReturn (map (\<lambda>p. finalise p (sy_pauses s) (elapsed c s)) (sy_paths s))\<rparr>)
             else None
         | MFail e \<Rightarrow> if joined \<and> sy_watch s = WDone then Some (s\<lparr>sy_main := MThrow e\<rparr>) else None
         | _ \<Rightarrow> None)"

fun act :: "cfg \<Rightarrow> sys \<Rightarrow> sched_act \<Rightarrow> sys option" where
  "act c s (Tick d e) =
     (if 0 \<le> d \<and> 0 \<le> e then Some (s\<lparr>sy_wall := sy_wall s + d, sy_mono := sy_mono s + e\<rparr>) else None)"
| "act c s (Loop i r) = loop_action c s i r"
| "act c s Watch = watch_action c s"
| "act c s Main = main_action c s"
| "act c s (Throw e) = (if sy_main s = MOp then Some (s\<lparr>sy_main := MFail e, sy_stop := True\<rparr>) else None)"

fun play :: "cfg \<Rightarrow> sys \<Rightarrow> sched_act list \<Rightarrow> sys option" where
  "play c s [] = Some s"
| "play c s (a # as) = Option.bind (act c s a) (\<lambda>s'. play c s' as)"

lemma loop_action_step: "loop_action c s i r = Some s' \<Longrightarrow> sampler_step c s s'"
  by (auto simp: loop_action_def split: if_splits loop_pc.splits prod.splits intro: sampler_step.intros)

lemma watch_action_step: "watch_action c s = Some s' \<Longrightarrow> sampler_step c s s'"
  by (auto simp: watch_action_def split: watch_pc.splits intro: sampler_step.intros)

lemma main_action_step: "main_action c s = Some s' \<Longrightarrow> sampler_step c s s'"
  by (auto simp: main_action_def Let_def split: if_splits main_pc.splits intro: sampler_step.intros)

lemma act_step: "act c s a = Some s' \<Longrightarrow> sampler_step c s s'"
  by (cases a)
     (auto simp: loop_action_step watch_action_step main_action_step split: if_splits
       intro: sampler_step.intros)

lemma play_reachable: "sampleDuring c names s \<Longrightarrow> play c s as = Some s' \<Longrightarrow> sampleDuring c names s'"
  by (induction "as" arbitrary: s)
     (auto simp: bind_eq_Some_conv dest: act_step intro: sampling_steps)

text \<open>A run with one path that fails at 10 ms and answers again at 30 ms and at 60 ms, with
  \<open>settleMs\<close> 20, and a watchdog that wakes three seconds late.\<close>

definition sample_cfg :: cfg where
  "sample_cfg =
     \<lparr>cf_opts = \<lparr>so_intervalMs = 10, so_maxWaitMs = 60000, so_settleMs = 20, so_sampleDeadlineMs = None\<rparr>,
      cf_t0 = 1000\<rparr>"

definition ok_answer :: probe_end where
  "ok_answer = Answered \<lparr>oc_ok = True, oc_error = None\<rparr>"

definition one_sample :: "probe_end \<Rightarrow> sched_act list" where
  "one_sample r = [Loop 0 r, Loop 0 r, Loop 0 r, Loop 0 r]"

definition sample_schedule :: "sched_act list" where
  "sample_schedule =
     [Tick 10 10, Watch, Watch] @ one_sample DeadlinePassed @ [Tick 20 20] @ one_sample ok_answer @
     [Tick 30 30] @ one_sample ok_answer @ [Tick 3000 5, Watch, Watch, Main, Main, Loop 0 ok_answer, Main]"

definition sample_end :: sys where
  "sample_end = the (play sample_cfg (init_sys sample_cfg [''rest''] 0) sample_schedule)"

definition sample_window :: path_window where
  "sample_window =
     \<lparr>pw_name = ''rest'', pw_healthyAtStart = False, pw_samples = 3, pw_failures = 1,
      pw_firstFailMs = Some 10, pw_recoveredMs = Some 30, pw_windowMs = Some 20,
      pw_modes = [''probe did not answer within 30000 ms''], pw_pausedMs = 20\<rparr>"

lemmas sampler_evals =
  sample_schedule_def one_sample_def ok_answer_def sample_cfg_def init_sys_def init_path_def
  loop_action_def watch_action_def main_action_def record_sample_def withDeadline_def mode_of_def
  running_def elapsed_def early_stop_def allSettled_def watch_note_def watch_log_def
  DEFAULT_SAMPLE_DEADLINE_MS_def PAUSE_SLACK_MS_def finalise_def overlap_def Let_def show_int_def
  show_nat.simps digit_char_def

lemma sample_play_main:
  "map_option sy_main (play sample_cfg (init_sys sample_cfg [''rest''] 0) sample_schedule) =
     Some (MReturn [sample_window])"
  by (simp add: sampler_evals sample_window_def)

lemma sample_play: "play sample_cfg (init_sys sample_cfg [''rest''] 0) sample_schedule = Some sample_end"
  using sample_play_main by (auto simp: sample_end_def)

lemma sample_reachable: "sampleDuring sample_cfg [''rest''] sample_end"
  by (rule play_reachable [OF sampling_starts sample_play])

lemma sample_returns: "sy_main sample_end = MReturn [sample_window]"
  using sample_play_main sample_play by simp

theorem sampler_windows_witness:
  "sampleDuring sample_cfg [''rest''] sample_end \<and> sy_main sample_end = MReturn [sample_window] \<and>
   window_ok (elapsed sample_cfg sample_end) sample_window"
  using sampler_windows [OF sample_reachable sample_returns] sample_reachable sample_returns by simp

theorem sampler_earned_witness:
  "sampleDuring sample_cfg [''rest''] sample_end \<and> sy_main sample_end = MReturn [sample_window] \<and>
   (so_maxWaitMs (cf_opts sample_cfg) \<le> elapsed sample_cfg sample_end \<or> outage_over sample_end)"
  using sampler_earned [OF sample_reachable sample_returns] sample_reachable sample_returns by simp

subsection \<open>What recovery means\<close>

text \<open>The unbroken run of good samples at the end of a history.\<close>

definition ok_suffix :: "(int \<times> probe_outcome) list \<Rightarrow> (int \<times> probe_outcome) list" where
  "ok_suffix xs = rev (takeWhile (\<lambda>x. oc_ok (snd x)) (rev xs))"

definition some_fail :: "(int \<times> probe_outcome) list \<Rightarrow> bool" where
  "some_fail xs = (\<exists>x \<in> set xs. \<not> oc_ok (snd x))"

text \<open>At some sample of the history the current run of good samples, which follows a failure, began
  at \<open>r\<close> and has lasted \<open>settle\<close> milliseconds.\<close>

definition sustained :: "int \<Rightarrow> (int \<times> probe_outcome) list \<Rightarrow> int \<Rightarrow> bool" where
  "sustained settle xs r \<longleftrightarrow>
     (\<exists>ys t oc zs. xs = ys @ (t, oc) # zs \<and> oc_ok oc \<and> some_fail ys \<and> ok_suffix ys \<noteq> [] \<and>
        r = fst (hd (ok_suffix ys)) \<and> settle \<le> t - r)"

lemma ok_suffix_snoc:
  "ok_suffix (xs @ [(t, oc)]) = (if oc_ok oc then ok_suffix xs @ [(t, oc)] else [])"
  by (simp add: ok_suffix_def)

lemma some_fail_snoc: "some_fail (xs @ [(t, oc)]) \<longleftrightarrow> some_fail xs \<or> \<not> oc_ok oc"
  by (auto simp: some_fail_def)

lemma run_samples_snoc:
  "run_samples opts st (xs @ [(t, oc)]) = fst (record_sample opts t oc (run_samples opts st xs))"
  by (simp add: run_samples_def)

lemma sustained_snoc:
  "sustained d (xs @ [(t, oc)]) r \<longleftrightarrow>
     sustained d xs r \<or>
     (oc_ok oc \<and> some_fail xs \<and> ok_suffix xs \<noteq> [] \<and> r = fst (hd (ok_suffix xs)) \<and> d \<le> t - r)"
  (is "?l \<longleftrightarrow> ?r")
proof
  assume ?l
  then obtain ys u ou zs where eq: "xs @ [(t, oc)] = ys @ (u, ou) # zs"
      and h: "oc_ok ou" "some_fail ys" "ok_suffix ys \<noteq> []" "r = fst (hd (ok_suffix ys))" "d \<le> u - r"
    unfolding sustained_def by blast
  show ?r
  proof (cases zs rule: rev_cases)
    case Nil
    with eq h show ?thesis by simp
  next
    case (snoc zs' z)
    with eq have "xs = ys @ (u, ou) # zs'" by simp
    with h show ?thesis unfolding sustained_def by blast
  qed
next
  assume ?r
  then show ?l
  proof
    assume "sustained d xs r"
    then show ?thesis unfolding sustained_def by (metis append_Cons append_assoc)
  next
    assume "oc_ok oc \<and> some_fail xs \<and> ok_suffix xs \<noteq> [] \<and> r = fst (hd (ok_suffix xs)) \<and> d \<le> t - r"
    then show ?thesis unfolding sustained_def by blast
  qed
qed

lemma run_first:
  "ps_firstFailMs (run_samples opts (init_path n) xs) =
     map_option fst (find (\<lambda>x. \<not> oc_ok (snd x)) xs)"
proof (induction xs rule: rev_induct)
  case Nil
  then show ?case by (simp add: run_samples_def init_path_def)
next
  case (snoc x xs)
  have "find P (ys @ [y]) = (case find P ys of Some z \<Rightarrow> Some z | None \<Rightarrow> if P y then Some y else None)"
    for P :: "int \<times> probe_outcome \<Rightarrow> bool" and ys y by (induction ys) auto
  with snoc show ?case
    by (cases x) (auto simp: run_samples_snoc split: option.splits)
qed

lemma find_some_fail: "find (\<lambda>x. \<not> oc_ok (snd x)) xs \<noteq> None \<longleftrightarrow> some_fail xs"
  by (simp add: some_fail_def find_None_iff Bex_def del: split_paired_Ex split_paired_All)

lemma run_first_some_fail:
  "ps_firstFailMs (run_samples opts (init_path n) xs) \<noteq> None \<longleftrightarrow> some_fail xs"
  unfolding run_first find_some_fail [symmetric] by simp

text \<open>While no recovery is recorded, the candidate is the start of the current good run.\<close>

lemma run_pending:
  "ps_recoveredMs (run_samples opts (init_path n) xs) = None \<Longrightarrow> some_fail xs \<Longrightarrow>
   ps_pendingRecoveryMs (run_samples opts (init_path n) xs) =
     (if ok_suffix xs = [] then None else Some (fst (hd (ok_suffix xs))))"
proof (induction xs rule: rev_induct)
  case Nil
  then show ?case by (simp add: some_fail_def)
next
  case (snoc x xs)
  obtain t oc where x: "x = (t, oc)" by (cases x)
  let ?st = "run_samples opts (init_path n) xs"
  show ?case
  proof (cases "oc_ok oc")
    case False
    then show ?thesis by (simp add: x run_samples_snoc ok_suffix_snoc)
  next
    case True
    with snoc.prems have fail: "some_fail xs" by (simp add: x some_fail_snoc)
    then have first: "ps_firstFailMs ?st \<noteq> None" by (simp only: run_first_some_fail)
    from snoc.prems(1) first True have rec: "ps_recoveredMs ?st = None"
      by (auto simp: x run_samples_snoc split: if_splits)
    with snoc.IH fail have "ps_pendingRecoveryMs ?st =
        (if ok_suffix xs = [] then None else Some (fst (hd (ok_suffix xs))))" by simp
    with True first rec show ?thesis by (simp add: x run_samples_snoc ok_suffix_snoc)
  qed
qed

text \<open>C4. Recovery is believed exactly when success was sustained: the recorded recovery time is
  the first good sample after a failure, of a good run that lasted \<open>settleMs\<close>; if none is recorded,
  no good run in the whole history lasted that long. The first failure is the first bad sample.\<close>

theorem recovery_exact:
  "(case ps_recoveredMs (run_samples opts (init_path n) xs) of
      Some r \<Rightarrow> sustained (so_settleMs opts) xs r
    | None \<Rightarrow> \<nexists>r. sustained (so_settleMs opts) xs r) \<and>
   ps_firstFailMs (run_samples opts (init_path n) xs) =
     map_option fst (find (\<lambda>x. \<not> oc_ok (snd x)) xs)"
proof (intro conjI run_first)
  show "case ps_recoveredMs (run_samples opts (init_path n) xs) of
      Some r \<Rightarrow> sustained (so_settleMs opts) xs r | None \<Rightarrow> \<nexists>r. sustained (so_settleMs opts) xs r"
  proof (induction xs rule: rev_induct)
    case Nil
    then show ?case by (simp add: run_samples_def init_path_def sustained_def)
  next
    case (snoc x xs)
    obtain t oc where x: "x = (t, oc)" by (cases x)
    let ?st = "run_samples opts (init_path n) xs"
    show ?case
    proof (cases "ps_recoveredMs ?st = None \<and> oc_ok oc \<and> some_fail xs")
      case True
      then have "ps_firstFailMs ?st \<noteq> None" by (simp only: run_first_some_fail)
      with True snoc run_pending [of opts n xs] show ?thesis
        by (auto simp: x run_samples_snoc sustained_snoc)
    next
      case False
      then have "\<not> (oc_ok oc \<and> ps_firstFailMs ?st \<noteq> None \<and> ps_recoveredMs ?st = None)"
        by (simp only: run_first_some_fail) blast
      then have "ps_recoveredMs (run_samples opts (init_path n) (xs @ [x])) = ps_recoveredMs ?st"
        unfolding x run_samples_snoc by (simp only: record_sample_recovered if_False)
      with snoc False show ?thesis
        by (auto simp: x sustained_snoc split: option.splits)
    qed
  qed
qed

text \<open>The run's path states are histories: each path's state is what its samples make of it.\<close>

lemma record_sample_history:
  "p = run_samples opts (init_path n) xs \<Longrightarrow>
   fst (record_sample opts t oc p) = run_samples opts (init_path n) (xs @ [(t, oc)])"
  by (simp add: run_samples_snoc)

lemma histories_reachable:
  assumes "sampleDuring c names s" and "i < length names"
  shows "\<exists>xs. sy_paths s ! i = run_samples (cf_opts c) (init_path (names ! i)) xs"
proof -
  have "length (sy_paths s) = length names \<and>
      (\<exists>xs. sy_paths s ! i = run_samples (cf_opts c) (init_path (names ! i)) xs)"
    using assms
  proof (induction rule: sampleDuring.induct)
    case (sampling_starts m0)
    then have "sy_paths (init_sys c names m0) ! i = run_samples (cf_opts c) (init_path (names ! i)) []"
      by (simp add: init_sys_def run_samples_def)
    then show ?case by (auto simp: init_sys_def)
  next
    case (sampling_steps s s')
    from sampling_steps.hyps(2) sampling_steps.IH [OF sampling_steps.prems] show ?case
    proof (induction rule: sampler_step.induct)
      case (loop_record j s t r p lg)
      then obtain xs where len: "length (sy_paths s) = length names"
          and xs: "sy_paths s ! i = run_samples (cf_opts c) (init_path (names ! i)) xs" by blast
      show ?case
      proof (cases "j = i")
        case True
        with loop_record.hyps(3) have "p = run_samples (cf_opts c) (init_path (names ! i))
            (xs @ [(t, withDeadline (cf_opts c) r)])"
          by (metis fst_conv record_sample_history xs)
        with True len sampling_steps.prems show ?thesis by auto
      next
        case False
        with len xs show ?thesis by auto
      qed
    qed auto
  qed
  then show ?thesis by blast
qed

subsection \<open>The run ends\<close>

definition finished :: "sys \<Rightarrow> bool" where
  "finished s = (case sy_main s of MReturn _ \<Rightarrow> True | MThrow _ \<Rightarrow> True | _ \<Rightarrow> False)"

fun loop_left :: "loop_pc \<Rightarrow> nat" where
  "loop_left LIn = 4"
| "loop_left (LProbe t) = 3"
| "loop_left LSleep = 2"
| "loop_left LTop = 1"
| "loop_left LDone = 0"

fun watch_left :: "watch_pc \<Rightarrow> nat" where
  "watch_left WStart = 2"
| "watch_left (WSleep w m) = 2"
| "watch_left (WTop w m) = 1"
| "watch_left WDone = 0"

fun main_left :: "main_pc \<Rightarrow> nat" where
  "main_left MOp = 3"
| "main_left MWatch = 2"
| "main_left MJoin = 1"
| "main_left (MFail e) = 1"
| "main_left (MReturn ws) = 0"
| "main_left (MThrow e) = 0"

definition steps_left :: "sys \<Rightarrow> nat" where
  "steps_left s = sum_list (map loop_left (sy_loops s)) + watch_left (sy_watch s) + main_left (sy_main s)"

definition same_control :: "sys \<Rightarrow> sys \<Rightarrow> bool" where
  "same_control s s' \<longleftrightarrow>
     sy_loops s' = sy_loops s \<and> sy_watch s' = sy_watch s \<and> sy_main s' = sy_main s"

lemma loops_left_update:
  "i < length ls \<Longrightarrow> loop_left l < loop_left (ls ! i) \<Longrightarrow>
   sum_list (map loop_left (ls[i := l])) < sum_list (map loop_left ls)"
proof (induction ls arbitrary: i)
  case Nil
  then show ?case by simp
next
  case (Cons a ls)
  then show ?case by (cases i) auto
qed

lemma steps_left_decreases:
  "sampler_step c s s' \<Longrightarrow> so_maxWaitMs (cf_opts c) \<le> elapsed c s \<Longrightarrow>
   same_control s s' \<or> steps_left s' < steps_left s"
  by (induction rule: sampler_step.induct)
     (auto simp: steps_left_def same_control_def running_def intro!: loops_left_update)

lemma steps_left_bound: "sampleDuring c names s \<Longrightarrow> steps_left s \<le> 4 * length names + 5"
proof -
  assume r: "sampleDuring c names s"
  have len: "length (sy_loops s) = length names"
    using r
  proof (induction rule: sampleDuring.induct)
    case (sampling_starts m0)
    then show ?case by (simp add: init_sys_def)
  next
    case (sampling_steps s s')
    from sampling_steps.hyps(2) sampling_steps.IH show ?case by (induction rule: sampler_step.induct) auto
  qed
  have loops: "sum_list (map loop_left ls) \<le> 4 * length ls" for ls
  proof (induction ls)
    case (Cons l ls)
    then show ?case by (cases l) auto
  qed simp
  have "watch_left (sy_watch s) \<le> 2" by (cases "sy_watch s") auto
  moreover have "main_left (sy_main s) \<le> 3" by (cases "sy_main s") auto
  ultimately show ?thesis using loops [of "sy_loops s"] len unfolding steps_left_def by linarith
qed

text \<open>Some actor can always move: a loop that is not done, the watchdog, or the main function.\<close>

lemma loop_can_move:
  assumes "i < length (sy_loops s)" and "sy_loops s ! i \<noteq> LDone"
  shows "\<exists>s'. sampler_step c s s' \<and> \<not> same_control s s'"
proof -
  have "loop_action c s i DeadlinePassed \<noteq> None"
    using assms by (cases "sy_loops s ! i") (auto simp: loop_action_def split: prod.splits)
  then obtain s' where s': "loop_action c s i DeadlinePassed = Some s'" by blast
  moreover have "sy_loops s' ! i \<noteq> sy_loops s ! i"
    using s' assms by (auto simp: loop_action_def split: if_splits loop_pc.splits prod.splits)
  ultimately show ?thesis using loop_action_step by (fastforce simp: same_control_def)
qed

lemma watch_can_move:
  assumes "sy_watch s \<noteq> WDone"
  shows "\<exists>s'. sampler_step c s s' \<and> \<not> same_control s s'"
proof -
  have "watch_action c s \<noteq> None"
    using assms by (cases "sy_watch s") (auto simp: watch_action_def)
  then obtain s' where s': "watch_action c s = Some s'" by blast
  moreover have "sy_watch s' \<noteq> sy_watch s"
    using s' by (auto simp: watch_action_def split: if_splits watch_pc.splits)
  ultimately show ?thesis using watch_action_step by (fastforce simp: same_control_def)
qed

lemma main_can_move:
  assumes "\<not> finished s" and "sy_watch s = WDone" and "list_all (\<lambda>l. l = LDone) (sy_loops s)"
  shows "\<exists>s'. sampler_step c s s' \<and> \<not> same_control s s'"
proof -
  have "main_action c s \<noteq> None"
    using assms by (cases "sy_main s") (auto simp: main_action_def Let_def finished_def)
  then obtain s' where s': "main_action c s = Some s'" by blast
  moreover have "sy_main s' \<noteq> sy_main s"
    using s' by (auto simp: main_action_def Let_def split: if_splits main_pc.splits)
  ultimately show ?thesis using main_action_step by (fastforce simp: same_control_def)
qed

lemma never_stuck: "\<not> finished s \<Longrightarrow> \<exists>s'. sampler_step c s s' \<and> \<not> same_control s s'"
  using loop_can_move [of _ s c] watch_can_move [of s c] main_can_move [of s c]
  by (auto simp: list_all_length)

text \<open>C5. The sampler returns: from any state of a run whose wait is over, at most
  \<open>4 n + 5\<close> steps remain (\<open>n\<close> paths), every step that is not the clock uses one up, and until the
  main function has returned or thrown some actor can move.\<close>

theorem sampler_ends:
  assumes "sampleDuring c names s" and "so_maxWaitMs (cf_opts c) \<le> elapsed c s"
  shows "steps_left s \<le> 4 * length names + 5 \<and>
         (\<forall>s'. sampler_step c s s' \<longrightarrow> same_control s s' \<or> steps_left s' < steps_left s) \<and>
         (\<not> finished s \<longrightarrow> (\<exists>s'. sampler_step c s s' \<and> \<not> same_control s s'))"
  using steps_left_bound [OF assms(1)] steps_left_decreases [OF _ assms(2)] never_stuck by blast

definition late_start :: sys where
  "late_start = (init_sys sample_cfg [''rest''] 0)\<lparr>sy_wall := 61000, sy_mono := 60000\<rparr>"

theorem sampler_ends_witness:
  "sampleDuring sample_cfg [''rest''] late_start \<and> steps_left late_start = 6 \<and> \<not> finished late_start \<and>
   steps_left late_start \<le> 4 * length [''rest''] + 5"
proof -
  have "act sample_cfg (init_sys sample_cfg [''rest''] 0) (Tick 60000 60000) = Some late_start"
    by (simp add: late_start_def init_sys_def sample_cfg_def)
  then have r: "sampleDuring sample_cfg [''rest''] late_start"
    by (blast intro: sampling_starts sampling_steps act_step)
  have e: "so_maxWaitMs (cf_opts sample_cfg) \<le> elapsed sample_cfg late_start"
    by (simp add: late_start_def sample_cfg_def elapsed_def)
  show ?thesis
    using sampler_ends [OF r e] r
    by (simp add: late_start_def init_sys_def steps_left_def finished_def)
qed

end
