(* ===== verification/Settle.thy ===== *)
theory Settle
  imports Prelude
begin

text \<open>
  \<open>harness/src/settle.ts\<close>: a module whose promise never settles must be recorded, not end the
  run. The drain watch holds the resolver of the promise armed last; a resolver is named by the
  number of the \<open>arm\<close> call that made it. The event loop is a list of events in the order they
  happen: the module's promise settles, the loop drains (\<open>beforeExit\<close>), a timer that a drain set
  fires, or the module's own timeout fires.
\<close>

datatype 'v outcome = Settled 'v | Threw string | Drained | TimedOut int

record drain_watch =
  dw_wake :: "nat option"
  dw_next :: nat
  dw_timers :: "nat list"
  dw_idle :: nat

definition createDrainWatch :: drain_watch where
  "createDrainWatch = \<lparr>dw_wake = None, dw_next = 0, dw_timers = [], dw_idle = 0\<rparr>"

text \<open>The callback registered with \<open>on\<close>: wake through a timer, or report an idle drain.\<close>

definition on_drain :: "drain_watch \<Rightarrow> drain_watch" where
  "on_drain w =
     (case dw_wake w of
        Some k \<Rightarrow> w\<lparr>dw_wake := None, dw_timers := dw_timers w @ [k]\<rparr>
      | None \<Rightarrow> w\<lparr>dw_idle := dw_idle w + 1\<rparr>)"

definition arm :: "drain_watch \<Rightarrow> nat \<times> drain_watch" where
  "arm w = (dw_next w, w\<lparr>dw_wake := Some (dw_next w), dw_next := dw_next w + 1\<rparr>)"

definition disarm :: "drain_watch \<Rightarrow> drain_watch" where
  "disarm w = w\<lparr>dw_wake := None\<rparr>"

definition armed :: "drain_watch \<Rightarrow> bool" where
  "armed w = (dw_wake w \<noteq> None)"

datatype 'v settle_event = EvValue 'v | EvError string | EvDrain | EvWake nat | EvTimeout

text \<open>\<open>timeoutMs && timeoutMs > 0\<close>\<close>

definition has_timeout :: "int option \<Rightarrow> bool" where
  "has_timeout t = (case t of None \<Rightarrow> False | Some ms \<Rightarrow> ms > 0)"

text \<open>
  The race, with the promise \<open>g\<close> armed for it: the first contender to settle decides, then the
  watch is disarmed. \<open>None\<close> when the events end before the race does.
\<close>

fun race :: "nat \<Rightarrow> int option \<Rightarrow> drain_watch \<Rightarrow> 'v settle_event list \<Rightarrow>
    ('v outcome \<times> drain_watch \<times> 'v settle_event list) option" where
  "race g t w [] = None"
| "race g t w (EvValue v # es) = Some (Settled v, disarm w, es)"
| "race g t w (EvError e # es) = Some (Threw e, disarm w, es)"
| "race g t w (EvDrain # es) = race g t (on_drain w) es"
| "race g t w (EvWake k # es) =
     (if k \<in> set (dw_timers w)
      then (let w' = w\<lparr>dw_timers := remove1 k (dw_timers w)\<rparr>
            in if k = g then Some (Drained, disarm w', es) else race g t w' es)
      else race g t w es)"
| "race g t w (EvTimeout # es) =
     (if has_timeout t then Some (TimedOut (the t), disarm w, es) else race g t w es)"

text \<open>\<open>work()\<close> either throws at once or returns its promise.\<close>

datatype work_start = SyncThrow string | Started

definition settleModule ::
  "work_start \<Rightarrow> drain_watch \<Rightarrow> int option \<Rightarrow> 'v settle_event list \<Rightarrow>
   ('v outcome \<times> drain_watch \<times> 'v settle_event list) option" where
  "settleModule work w t es =
     (case work of
        SyncThrow e \<Rightarrow> Some (Threw e, w, es)
      | Started \<Rightarrow> (let (g, w') = arm w in race g t w' es))"

definition unsettledDetail :: "'v outcome \<Rightarrow> string" where
  "unsettledDetail r =
     (case r of
        TimedOut ms \<Rightarrow> ''module did not settle within its timeoutMs ('' @ show_int ms @ '' ms) and was abandoned''
      | _ \<Rightarrow> ''module promise never settled: the event loop drained with nothing pending, so nothing could resolve it'')"

subsection \<open>The watch between modules\<close>

text \<open>A watch at rest: no promise is armed and every timer belongs to an earlier one.\<close>

definition at_rest :: "drain_watch \<Rightarrow> bool" where
  "at_rest w \<longleftrightarrow> dw_wake w = None \<and> (\<forall>k \<in> set (dw_timers w). k < dw_next w)"

definition racing :: "nat \<Rightarrow> drain_watch \<Rightarrow> bool" where
  "racing g w \<longleftrightarrow>
     dw_next w = Suc g \<and> (\<forall>k. dw_wake w = Some k \<longrightarrow> k = g) \<and> (\<forall>k \<in> set (dw_timers w). k \<le> g)"

lemma at_rest_create: "at_rest createDrainWatch"
  by (simp add: at_rest_def createDrainWatch_def)

lemma racing_arm: "at_rest w \<Longrightarrow> arm w = (g, w') \<Longrightarrow> racing g w' \<and> g \<notin> set (dw_timers w') \<and> dw_wake w' = Some g"
  by (fastforce simp: at_rest_def racing_def arm_def)

lemma racing_drain: "racing g w \<Longrightarrow> racing g (on_drain w)"
  by (auto simp: racing_def on_drain_def split: option.splits)

lemma racing_fired: "racing g w \<Longrightarrow> racing g (w\<lparr>dw_timers := remove1 k (dw_timers w)\<rparr>)"
  using set_remove1_subset [of k "dw_timers w"] by (auto simp: racing_def)

lemma racing_disarm: "racing g w \<Longrightarrow> at_rest (disarm w)"
  by (auto simp: racing_def at_rest_def disarm_def)

lemma race_at_rest: "race g t w es = Some (r, w', es') \<Longrightarrow> racing g w \<Longrightarrow> at_rest w'"
proof (induction g t w es rule: race.induct)
  case (5 g t w k es)
  then show ?case
    using racing_fired [of g w k] racing_disarm
    by (auto simp: Let_def split: if_splits)
qed (auto simp: racing_disarm racing_drain split: if_splits)

lemma settleModule_at_rest:
  "settleModule work w t es = Some (r, w', es') \<Longrightarrow> at_rest w \<Longrightarrow> at_rest w'"
  by (auto simp: settleModule_def split: work_start.splits prod.splits
      intro: race_at_rest dest: racing_arm)

text \<open>The event that decides a race, given the timers set before it and the events read before it.\<close>

fun decides :: "int option \<Rightarrow> bool \<Rightarrow> 'v outcome \<Rightarrow> 'v settle_event list \<Rightarrow> 'v settle_event \<Rightarrow> bool" where
  "decides t pending (Settled v) us u = (u = EvValue v)"
| "decides t pending (Threw e) us u = (u = EvError e)"
| "decides t pending (TimedOut ms) us u = (u = EvTimeout \<and> t = Some ms \<and> 0 < ms)"
| "decides t pending Drained us u = ((\<exists>k. u = EvWake k) \<and> (pending \<or> EvDrain \<in> set us))"

lemma decides_Cons:
  "decides t p r us u \<Longrightarrow> (p \<Longrightarrow> p' \<or> x = EvDrain) \<Longrightarrow> decides t p' r (x # us) u"
  by (cases r) auto

lemma race_cause:
  "race g t w es = Some (r, w', es') \<Longrightarrow>
   \<exists>us u. es = us @ u # es' \<and> decides t (g \<in> set (dw_timers w)) r us u"
proof (induction g t w es rule: race.induct)
  case (2 g t w v es)
  then show ?case by (intro exI [of _ "[]"]) auto
next
  case (3 g t w e es)
  then show ?case by (intro exI [of _ "[]"]) auto
next
  case (4 g t w es)
  then obtain us u where "es = us @ u # es'" "decides t (g \<in> set (dw_timers (on_drain w))) r us u"
    by auto
  then show ?case
    by (intro exI [of _ "EvDrain # us"] exI [of _ u]) (auto intro: decides_Cons)
next
  case (5 g t w k es)
  show ?case
  proof (cases "k \<in> set (dw_timers w) \<and> k = g")
    case True
    with "5.prems" show ?thesis by (intro exI [of _ "[]"]) (auto simp: Let_def)
  next
    case False
    let ?w = "if k \<in> set (dw_timers w) then w\<lparr>dw_timers := remove1 k (dw_timers w)\<rparr> else w"
    have sub: "g \<in> set (dw_timers ?w) \<Longrightarrow> g \<in> set (dw_timers w)"
      using set_remove1_subset [of k "dw_timers w"] by (auto split: if_splits)
    have "race g t ?w es = Some (r, w', es')" using "5.prems" False by (auto simp: Let_def split: if_splits)
    with "5.IH" False obtain us u where "es = us @ u # es'" "decides t (g \<in> set (dw_timers ?w)) r us u"
      by (auto simp: Let_def split: if_splits)
    with sub show ?thesis
      by (intro exI [of _ "EvWake k # us"] exI [of _ u]) (auto intro: decides_Cons)
  qed
next
  case (6 g t w es)
  show ?case
  proof (cases "has_timeout t")
    case True
    with "6.prems" show ?thesis
      by (intro exI [of _ "[]"]) (auto simp: has_timeout_def split: option.splits)
  next
    case False
    with "6" obtain us u where "es = us @ u # es'" "decides t (g \<in> set (dw_timers w)) r us u"
      by auto
    then show ?thesis
      by (intro exI [of _ "EvTimeout # us"] exI [of _ u]) (auto intro: decides_Cons)
  qed
qed auto

text \<open>C6. How a module is judged has its cause in the module's own events: it settled or threw
  because its promise did, timed out only with a declared positive timeout, and counts as drained only
  if the event loop drained while it was pending. A wake-up left over from an earlier module never
  fails a later one, and the watch is at rest again afterwards.\<close>

theorem settleModule_cause:
  assumes "at_rest w" and "settleModule Started w t es = Some (r, w', es')"
  shows "at_rest w' \<and> (\<exists>us u. es = us @ u # es' \<and> decides t False r us u)"
proof -
  obtain g w1 where a: "arm w = (g, w1)" by (cases "arm w")
  with assms(1) have "g \<notin> set (dw_timers w1)" using racing_arm by blast
  moreover from assms(2) a have "race g t w1 es = Some (r, w', es')" by (simp add: settleModule_def)
  ultimately have "\<exists>us u. es = us @ u # es' \<and> decides t False r us u"
    using race_cause by fastforce
  with settleModule_at_rest [OF assms(2,1)] show ?thesis by blast
qed

text \<open>A stale wake-up (number 0) fires while module 1 is pending, which then returns 7.\<close>

definition stale_watch :: drain_watch where
  "stale_watch = \<lparr>dw_wake = None, dw_next = 1, dw_timers = [0], dw_idle = 0\<rparr>"

theorem settleModule_cause_witness:
  "at_rest stale_watch \<and>
   settleModule Started stale_watch None [EvWake 0, EvValue (7 :: int), EvDrain] =
     Some (Settled 7, \<lparr>dw_wake = None, dw_next = 2, dw_timers = [], dw_idle = 0\<rparr>, [EvDrain]) \<and>
   at_rest \<lparr>dw_wake = None, dw_next = 2, dw_timers = [], dw_idle = 0\<rparr>"
proof -
  have r: "at_rest stale_watch" by (simp add: at_rest_def stale_watch_def)
  have s: "settleModule Started stale_watch None [EvWake 0, EvValue (7 :: int), EvDrain] =
      Some (Settled 7, \<lparr>dw_wake = None, dw_next = 2, dw_timers = [], dw_idle = 0\<rparr>, [EvDrain])"
    by (simp add: settleModule_def arm_def disarm_def stale_watch_def)
  from settleModule_cause [OF r s] r s show ?thesis by blast
qed

subsection \<open>A hung module is noticed\<close>

lemma race_reads_past:
  assumes "racing g w" and "\<forall>u \<in> set us. \<exists>k. u = EvWake k \<and> k \<noteq> g"
  shows "\<exists>w'. racing g w' \<and> dw_wake w' = dw_wake w \<and> (g \<in> set (dw_timers w') \<longleftrightarrow> g \<in> set (dw_timers w)) \<and>
    race g t w (us @ es) = race g t w' es"
  using assms
proof (induction us arbitrary: w)
  case Nil
  then show ?case by auto
next
  case (Cons u us)
  then obtain k where k: "u = EvWake k" "k \<noteq> g" by auto
  let ?w = "if k \<in> set (dw_timers w) then w\<lparr>dw_timers := remove1 k (dw_timers w)\<rparr> else w"
  have w: "racing g ?w" "dw_wake ?w = dw_wake w" "g \<in> set (dw_timers ?w) \<longleftrightarrow> g \<in> set (dw_timers w)"
    using Cons.prems(1) racing_fired k(2) by (auto simp: in_set_remove1)
  from Cons.prems(2) have "\<forall>u \<in> set us. \<exists>k. u = EvWake k \<and> k \<noteq> g" by simp
  from Cons.IH [OF w(1) this] obtain w' where w': "racing g w'" "dw_wake w' = dw_wake ?w"
      "g \<in> set (dw_timers w') \<longleftrightarrow> g \<in> set (dw_timers ?w)" "race g t ?w (us @ es) = race g t w' es"
    by blast
  moreover have "race g t w ((u # us) @ es) = race g t ?w (us @ es)" using k by (simp add: Let_def)
  ultimately show ?case using w by metis
qed

text \<open>A module whose promise never settles cannot end the run silently: if nothing but earlier
  wake-ups happens until the event loop drains, and nothing but earlier wake-ups until the timer the
  drain set fires, the module is judged drained, and no idle drain is reported.\<close>

lemma hung_module_drained:
  assumes "at_rest w"
    and "\<forall>u \<in> set us. \<exists>k. u = EvWake k \<and> k < dw_next w"
    and "\<forall>v \<in> set vs. \<exists>k. v = EvWake k \<and> k < dw_next w"
  shows "\<exists>w'. settleModule Started w t (us @ EvDrain # vs @ EvWake (dw_next w) # es) = Some (Drained, w', es)"
proof -
  let ?g = "dw_next w" and ?w1 = "snd (arm w)"
  have a: "arm w = (?g, ?w1)" by (simp add: arm_def)
  from racing_arm [OF assms(1) a] have w1: "racing ?g ?w1" "dw_wake ?w1 = Some ?g" by auto
  obtain w2 where w2: "racing ?g w2" "dw_wake w2 = Some ?g"
      "race ?g t ?w1 (us @ EvDrain # vs @ EvWake ?g # es) = race ?g t w2 (EvDrain # vs @ EvWake ?g # es)"
    using race_reads_past [OF w1(1), of us] assms(2) w1(2) by (metis nat_neq_iff)
  have d: "racing ?g (on_drain w2)" by (rule racing_drain [OF w2(1)])
  have e: "?g \<in> set (dw_timers (on_drain w2))" by (simp add: on_drain_def w2(2))
  obtain w3 where w3: "?g \<in> set (dw_timers w3)"
      "race ?g t (on_drain w2) (vs @ EvWake ?g # es) = race ?g t w3 (EvWake ?g # es)"
    using race_reads_past [OF d, of vs] assms(3) e by (metis nat_neq_iff)
  have "settleModule Started w t (us @ EvDrain # vs @ EvWake ?g # es) = race ?g t w3 (EvWake ?g # es)"
    unfolding settleModule_def by (subst a) (simp only: work_start.case Let_def case_prod_conv w2(3) race.simps(4) w3(2))
  with w3(1) show ?thesis by (simp add: Let_def)
qed

end
