(* ===== verification/Diff.thy ===== *)
theory Diff
  imports Harness_Types
begin

text \<open>
  \<open>harness/src/diff.ts\<close>: two run artifacts compared at the level of (test id, measurement key).
  \<open>null\<close> is \<open>None\<close>. A \<open>Map\<close> built from pairs keeps the last value of a repeated id.
\<close>

record measurement_change =
  mc_id :: string
  mc_key :: string
  mc_from :: "cell option"
  mc_to :: "cell option"

record status_change =
  sc_id :: string
  sc_from :: status
  sc_to :: status

record artifact_diff =
  ad_added :: "string list"
  ad_removed :: "string list"
  ad_changed :: "measurement_change list"
  ad_statusChanged :: "status_change list"
  ad_unchanged :: nat

definition byId :: "run_artifact \<Rightarrow> test_result obj" where
  "byId a = obj_of (map (\<lambda>r. (tr_id r, r)) (ra_results a))"

definition measurements :: "test_result \<Rightarrow> cell obj" where
  "measurements r = (case tr_measurements r of None \<Rightarrow> [] | Some m \<Rightarrow> m)"

definition has_key :: "'v obj \<Rightarrow> string \<Rightarrow> bool" where
  "has_key m k = (obj_get m k \<noteq> None)"

text \<open>The keys of two objects, each once, in code unit order.\<close>

definition all_keys :: "'v obj \<Rightarrow> 'v obj \<Rightarrow> string list" where
  "all_keys ma mb = sort_by code_unit_cmp (uniq (obj_keys ma @ obj_keys mb))"

text \<open>One key of a test that both runs have.\<close>

definition diff_key :: "string \<Rightarrow> cell obj \<Rightarrow> cell obj \<Rightarrow> artifact_diff \<Rightarrow> string \<Rightarrow> artifact_diff" where
  "diff_key i mb ma d key =
     (let fr = obj_get mb key; t = obj_get ma key
      in if fr = t then d\<lparr>ad_unchanged := ad_unchanged d + 1\<rparr>
         else d\<lparr>ad_changed := ad_changed d @ [\<lparr>mc_id = i, mc_key = key, mc_from = fr, mc_to = t\<rparr>]\<rparr>)"

text \<open>One test that both runs have.\<close>

definition diff_test :: "test_result obj \<Rightarrow> test_result obj \<Rightarrow> artifact_diff \<Rightarrow> string \<Rightarrow> artifact_diff" where
  "diff_test a b d i =
     (let before_r = the (obj_get a i); after_r = the (obj_get b i);
          d1 = (if tr_status before_r \<noteq> tr_status after_r
                then d\<lparr>ad_statusChanged := ad_statusChanged d @
                       [\<lparr>sc_id = i, sc_from = tr_status before_r, sc_to = tr_status after_r\<rparr>]\<rparr>
                else d)
      in foldl (diff_key i (measurements before_r) (measurements after_r)) d1
           (all_keys (measurements before_r) (measurements after_r)))"

definition diffArtifacts :: "run_artifact \<Rightarrow> run_artifact \<Rightarrow> artifact_diff" where
  "diffArtifacts prev cur =
     (let a = byId prev; b = byId cur
      in foldl (diff_test a b)
           \<lparr>ad_added = sort_by code_unit_cmp (filter (\<lambda>i. \<not> has_key a i) (obj_keys b)),
            ad_removed = sort_by code_unit_cmp (filter (\<lambda>i. \<not> has_key b i) (obj_keys a)),
            ad_changed = [], ad_statusChanged = [], ad_unchanged = 0\<rparr>
           (sort_by code_unit_cmp (filter (has_key b) (obj_keys a))))"

definition absent_or :: "cell option \<Rightarrow> string" where
  "absent_or c = (case c of None \<Rightarrow> ''(absent)'' | Some v \<Rightarrow> cell_str v)"

definition quiet :: "artifact_diff \<Rightarrow> bool" where
  "quiet d = (ad_added d = [] \<and> ad_removed d = [] \<and> ad_changed d = [] \<and> ad_statusChanged d = [])"

definition diff_lines :: "artifact_diff \<Rightarrow> string list" where
  "diff_lines d =
     [''# Platform diff'', []] @
     (if ad_statusChanged d \<noteq> []
      then [''## Status changes'', [], ''| id | from | to |'', ''| --- | --- | --- |''] @
           map (\<lambda>s. ''| '' @ sc_id s @ '' | '' @ status_str (sc_from s) @ '' | '' @ status_str (sc_to s) @ '' |'')
             (ad_statusChanged d) @ [[]]
      else []) @
     (if ad_changed d \<noteq> []
      then [''## Changed measurements'', [], ''| id | key | before | after |'', ''| --- | --- | --- | --- |''] @
           map (\<lambda>c. ''| '' @ mc_id c @ '' | '' @ mc_key c @ '' | '' @ absent_or (mc_from c) @ '' | '' @
                     absent_or (mc_to c) @ '' |'') (ad_changed d) @ [[]]
      else []) @
     (if ad_added d \<noteq> [] then [''Added tests: '' @ join '', '' (ad_added d), []] else []) @
     (if ad_removed d \<noteq> [] then [''Removed tests: '' @ join '', '' (ad_removed d), []] else []) @
     [show_nat (ad_unchanged d) @ '' measurement'' @ (if ad_unchanged d = 1 then [] else ''s'') @ '' unchanged.'']"

definition renderDiffMarkdown :: "artifact_diff \<Rightarrow> string" where
  "renderDiffMarkdown d =
     (if quiet d
      then ''# Platform diff'' @ nl @ nl @ ''no change across '' @ show_nat (ad_unchanged d) @ '' measurements.'' @ nl
      else join nl (diff_lines d))"

subsection \<open>The comparison as lists of changes\<close>

definition key_change :: "string \<Rightarrow> cell obj \<Rightarrow> cell obj \<Rightarrow> string \<Rightarrow> measurement_change" where
  "key_change i mb ma key = \<lparr>mc_id = i, mc_key = key, mc_from = obj_get mb key, mc_to = obj_get ma key\<rparr>"

definition differs :: "cell obj \<Rightarrow> cell obj \<Rightarrow> string \<Rightarrow> bool" where
  "differs mb ma key = (obj_get mb key \<noteq> obj_get ma key)"

definition test_changes :: "test_result obj \<Rightarrow> test_result obj \<Rightarrow> string \<Rightarrow> measurement_change list" where
  "test_changes a b i =
     (let mb = measurements (the (obj_get a i)); ma = measurements (the (obj_get b i))
      in map (key_change i mb ma) (filter (differs mb ma) (all_keys mb ma)))"

definition test_same :: "test_result obj \<Rightarrow> test_result obj \<Rightarrow> string \<Rightarrow> nat" where
  "test_same a b i =
     (let mb = measurements (the (obj_get a i)); ma = measurements (the (obj_get b i))
      in length (filter (\<lambda>k. \<not> differs mb ma k) (all_keys mb ma)))"

definition test_status :: "test_result obj \<Rightarrow> test_result obj \<Rightarrow> string \<Rightarrow> status_change list" where
  "test_status a b i =
     (let x = tr_status (the (obj_get a i)); y = tr_status (the (obj_get b i))
      in if x \<noteq> y then [\<lparr>sc_id = i, sc_from = x, sc_to = y\<rparr>] else [])"

lemma diff_key_fold:
  "foldl (diff_key i mb ma) d ks =
     d\<lparr>ad_changed := ad_changed d @ map (key_change i mb ma) (filter (differs mb ma) ks),
       ad_unchanged := ad_unchanged d + length (filter (\<lambda>k. \<not> differs mb ma k) ks)\<rparr>"
  by (induction ks arbitrary: d) (simp_all add: diff_key_def differs_def key_change_def Let_def)

lemma diff_test_eq:
  "diff_test a b d i =
     d\<lparr>ad_changed := ad_changed d @ test_changes a b i,
       ad_statusChanged := ad_statusChanged d @ test_status a b i,
       ad_unchanged := ad_unchanged d + test_same a b i\<rparr>"
  by (simp add: diff_test_def diff_key_fold test_changes_def test_same_def test_status_def Let_def)

lemma diff_test_fold:
  "foldl (diff_test a b) d is =
     d\<lparr>ad_changed := ad_changed d @ concat (map (test_changes a b) is),
       ad_statusChanged := ad_statusChanged d @ concat (map (test_status a b) is),
       ad_unchanged := ad_unchanged d + sum_list (map (test_same a b) is)\<rparr>"
  by (induction "is" arbitrary: d) (simp_all add: diff_test_eq)

definition common_ids :: "test_result obj \<Rightarrow> test_result obj \<Rightarrow> string list" where
  "common_ids a b = sort_by code_unit_cmp (filter (has_key b) (obj_keys a))"

lemma diffArtifacts_eq:
  "diffArtifacts prev cur =
     \<lparr>ad_added = sort_by code_unit_cmp (filter (\<lambda>i. \<not> has_key (byId prev) i) (obj_keys (byId cur))),
      ad_removed = sort_by code_unit_cmp (filter (\<lambda>i. \<not> has_key (byId cur) i) (obj_keys (byId prev))),
      ad_changed = concat (map (test_changes (byId prev) (byId cur)) (common_ids (byId prev) (byId cur))),
      ad_statusChanged = concat (map (test_status (byId prev) (byId cur)) (common_ids (byId prev) (byId cur))),
      ad_unchanged = sum_list (map (test_same (byId prev) (byId cur)) (common_ids (byId prev) (byId cur)))\<rparr>"
  by (simp add: diffArtifacts_def diff_test_fold common_ids_def Let_def)

lemma has_key_iff: "has_key m k \<longleftrightarrow> k \<in> set (obj_keys m)"
  by (auto simp: has_key_def map_of_eq_None_iff)

lemma set_common_ids: "set (common_ids a b) = set (obj_keys a) \<inter> set (obj_keys b)"
  by (auto simp: common_ids_def has_key_iff [unfolded set_map])

lemma set_all_keys: "set (all_keys a b) = set (obj_keys a) \<union> set (obj_keys b)"
  by (simp add: all_keys_def)

lemma differs_keys: "differs mb ma k \<Longrightarrow> k \<in> set (all_keys mb ma)"
  unfolding differs_def set_all_keys by (metis UnI1 UnI2 has_key_def has_key_iff)

text \<open>Sorted lists of the same distinct elements are equal.\<close>

lemma sort_code_unit_eq:
  "distinct xs \<Longrightarrow> distinct ys \<Longrightarrow> set xs = set ys \<Longrightarrow>
   sort_by code_unit_cmp xs = sort_by code_unit_cmp ys"
  unfolding sort_by_code_unit by (metis distinct_remdups_id sorted_list_of_set_sort_remdups)

lemma all_keys_swap: "all_keys a b = all_keys b a"
  unfolding all_keys_def by (rule sort_code_unit_eq) auto

lemma distinct_byId [simp]: "distinct (obj_keys (byId a))"
  unfolding byId_def by (rule distinct_keys_obj_of)

lemma common_ids_swap:
  "distinct (obj_keys a) \<Longrightarrow> distinct (obj_keys b) \<Longrightarrow> common_ids a b = common_ids b a"
  unfolding common_ids_def by (rule sort_code_unit_eq) (auto simp: has_key_iff [unfolded set_map])

lemma byId_get: "obj_get (byId a) i = find (\<lambda>r. tr_id r = i) (rev (ra_results a))"
proof -
  have "map_of (map (\<lambda>r. (tr_id r, r)) rs) i = find (\<lambda>r. tr_id r = i) rs" for rs
    by (induction rs) auto
  then show ?thesis by (simp add: byId_def obj_get_obj_of rev_map)
qed

subsection \<open>What a diff says\<close>

text \<open>The value a run recorded for a test's key: of the last result with that id.\<close>

definition recorded :: "run_artifact \<Rightarrow> string \<Rightarrow> string \<Rightarrow> cell option" where
  "recorded a i k =
     (case find (\<lambda>r. tr_id r = i) (rev (ra_results a)) of
        None \<Rightarrow> None | Some r \<Rightarrow> obj_get (measurements r) k)"

definition has_test :: "run_artifact \<Rightarrow> string \<Rightarrow> bool" where
  "has_test a i = (\<exists>r \<in> set (ra_results a). tr_id r = i)"

definition final_status :: "run_artifact \<Rightarrow> string \<Rightarrow> status option" where
  "final_status a i = map_option tr_status (find (\<lambda>r. tr_id r = i) (rev (ra_results a)))"

lemma keys_byId: "i \<in> set (obj_keys (byId a)) \<longleftrightarrow> has_test a i"
  unfolding byId_def set_keys_obj_of by (auto simp: has_test_def image_image)

lemma byId_Some: "has_test a i \<Longrightarrow> obj_get (byId a) i = Some (the (obj_get (byId a) i))"
  by (metis has_key_def has_key_iff keys_byId option.collapse)

lemma recorded_byId: "has_test a i \<Longrightarrow> recorded a i k = obj_get (measurements (the (obj_get (byId a) i))) k"
  using byId_Some [of a i] by (cases "obj_get (byId a) i") (simp_all add: recorded_def flip: byId_get)

lemma final_status_byId: "has_test a i \<Longrightarrow> final_status a i = Some (tr_status (the (obj_get (byId a) i)))"
  using byId_Some [of a i] by (auto simp: final_status_def byId_get)

lemma common_has_test: "i \<in> set (common_ids (byId p) (byId c)) \<longleftrightarrow> has_test p i \<and> has_test c i"
  by (simp only: set_common_ids Int_iff keys_byId)

lemma changed_iff:
  "\<lparr>mc_id = i, mc_key = k, mc_from = x, mc_to = y\<rparr> \<in> set (ad_changed (diffArtifacts p c)) \<longleftrightarrow>
   has_test p i \<and> has_test c i \<and> x = recorded p i k \<and> y = recorded c i k \<and> x \<noteq> y"
proof -
  let ?mb = "\<lambda>i. measurements (the (obj_get (byId p) i))"
  let ?ma = "\<lambda>i. measurements (the (obj_get (byId c) i))"
  have "\<lparr>mc_id = i, mc_key = k, mc_from = x, mc_to = y\<rparr> \<in> set (ad_changed (diffArtifacts p c)) \<longleftrightarrow>
      i \<in> set (common_ids (byId p) (byId c)) \<and> k \<in> set (all_keys (?mb i) (?ma i)) \<and>
      differs (?mb i) (?ma i) k \<and> x = obj_get (?mb i) k \<and> y = obj_get (?ma i) k"
    by (auto simp: diffArtifacts_eq test_changes_def key_change_def Let_def)
  also have "\<dots> \<longleftrightarrow> has_test p i \<and> has_test c i \<and>
      differs (?mb i) (?ma i) k \<and> x = obj_get (?mb i) k \<and> y = obj_get (?ma i) k"
    using differs_keys common_has_test by blast
  also have "\<dots> \<longleftrightarrow> has_test p i \<and> has_test c i \<and> x = recorded p i k \<and> y = recorded c i k \<and> x \<noteq> y"
    by (auto simp: recorded_byId differs_def)
  finally show ?thesis .
qed

lemma statusChanged_iff:
  "\<lparr>sc_id = i, sc_from = x, sc_to = y\<rparr> \<in> set (ad_statusChanged (diffArtifacts p c)) \<longleftrightarrow>
   final_status p i = Some x \<and> final_status c i = Some y \<and> x \<noteq> y"
proof -
  have st: "has_test a i" if "final_status a i = Some z" for a z
    using that by (auto simp: final_status_def has_test_def find_Some_iff in_set_conv_nth)
       (metis length_rev nth_mem set_rev)
  have "\<lparr>sc_id = i, sc_from = x, sc_to = y\<rparr> \<in> set (ad_statusChanged (diffArtifacts p c)) \<longleftrightarrow>
      i \<in> set (common_ids (byId p) (byId c)) \<and> x = tr_status (the (obj_get (byId p) i)) \<and>
      y = tr_status (the (obj_get (byId c) i)) \<and> x \<noteq> y"
    by (auto simp: diffArtifacts_eq test_status_def Let_def split: if_splits)
  also have "\<dots> \<longleftrightarrow> final_status p i = Some x \<and> final_status c i = Some y \<and> x \<noteq> y"
    using st by (metis common_has_test final_status_byId option.inject)
  finally show ?thesis .
qed

lemma added_iff: "i \<in> set (ad_added (diffArtifacts p c)) \<longleftrightarrow> has_test c i \<and> \<not> has_test p i"
proof -
  have "i \<in> set (ad_added (diffArtifacts p c)) \<longleftrightarrow> i \<in> set (obj_keys (byId c)) \<and> \<not> has_key (byId p) i"
    by (auto simp: diffArtifacts_eq)
  then show ?thesis by (simp only: has_key_iff keys_byId)
qed

lemma removed_iff: "i \<in> set (ad_removed (diffArtifacts p c)) \<longleftrightarrow> has_test p i \<and> \<not> has_test c i"
proof -
  have "i \<in> set (ad_removed (diffArtifacts p c)) \<longleftrightarrow> i \<in> set (obj_keys (byId p)) \<and> \<not> has_key (byId c) i"
    by (auto simp: diffArtifacts_eq)
  then show ?thesis by (simp only: has_key_iff keys_byId)
qed

lemmas diff_iffs = changed_iff statusChanged_iff added_iff removed_iff

text \<open>C7. The diff of two artifacts is exact: a measurement change is listed exactly when both runs
  have the test and recorded different values (or none) for the key, a status change exactly when the
  statuses differ, and a test is added or removed exactly when only one run has it. Nothing else of a
  result (durations, details, evidence) takes part.\<close>

theorem diff_exact:
  "(\<lparr>mc_id = i, mc_key = k, mc_from = x, mc_to = y\<rparr> \<in> set (ad_changed (diffArtifacts p c)) \<longleftrightarrow>
      has_test p i \<and> has_test c i \<and> x = recorded p i k \<and> y = recorded c i k \<and> x \<noteq> y) \<and>
   (\<lparr>sc_id = i, sc_from = u, sc_to = v\<rparr> \<in> set (ad_statusChanged (diffArtifacts p c)) \<longleftrightarrow>
      final_status p i = Some u \<and> final_status c i = Some v \<and> u \<noteq> v) \<and>
   (i \<in> set (ad_added (diffArtifacts p c)) \<longleftrightarrow> has_test c i \<and> \<not> has_test p i) \<and>
   (i \<in> set (ad_removed (diffArtifacts p c)) \<longleftrightarrow> has_test p i \<and> \<not> has_test c i)"
  by (intro conjI diff_iffs)

text \<open>Diffing in the other direction gives the same diff with every change reversed: added and
  removed swap, each change swaps its two values in place, and the unchanged count is the same.\<close>

lemma diff_swap:
  "diffArtifacts c p =
     \<lparr>ad_added = ad_removed (diffArtifacts p c),
      ad_removed = ad_added (diffArtifacts p c),
      ad_changed = map (\<lambda>m. m\<lparr>mc_from := mc_to m, mc_to := mc_from m\<rparr>) (ad_changed (diffArtifacts p c)),
      ad_statusChanged = map (\<lambda>s. s\<lparr>sc_from := sc_to s, sc_to := sc_from s\<rparr>) (ad_statusChanged (diffArtifacts p c)),
      ad_unchanged = ad_unchanged (diffArtifacts p c)\<rparr>"
proof -
  have d: "differs ma mb = differs mb ma" for ma mb by (auto simp: differs_def)
  have k: "key_change i ma mb = (\<lambda>m. m\<lparr>mc_from := mc_to m, mc_to := mc_from m\<rparr>) \<circ> key_change i mb ma" for i ma mb
    by (auto simp: key_change_def)
  have ch: "test_changes b a = (\<lambda>i. map (\<lambda>m. m\<lparr>mc_from := mc_to m, mc_to := mc_from m\<rparr>) (test_changes a b i))" for a b
    unfolding test_changes_def Let_def
    by (rule ext, subst all_keys_swap, subst d, subst k) simp
  have sa: "test_same b a = test_same a b" for a b
    unfolding test_same_def Let_def by (subst all_keys_swap, subst d) simp
  have st: "test_status b a = (\<lambda>i. map (\<lambda>s. s\<lparr>sc_from := sc_to s, sc_to := sc_from s\<rparr>) (test_status a b i))" for a b
    by (simp add: fun_eq_iff test_status_def Let_def)
  have ids: "common_ids (byId c) (byId p) = common_ids (byId p) (byId c)"
    by (rule common_ids_swap) simp_all
  show ?thesis
    unfolding diffArtifacts_eq
    by (simp add: map_concat comp_def ids ch [of "byId p" "byId c"] st [of "byId p" "byId c"]
        sa [of "byId p" "byId c"])
qed

subsection \<open>When a diff reports no change\<close>

lemma recorded_None: "\<not> has_test a i \<Longrightarrow> recorded a i k = None"
  by (auto simp: recorded_def has_test_def find_Some_iff in_set_conv_nth split: option.splits)
     (metis length_rev nth_mem set_rev)

lemma final_status_None: "final_status a i = None \<longleftrightarrow> \<not> has_test a i"
  by (auto simp: final_status_def has_test_def find_None_iff)

lemma no_changed:
  "ad_changed (diffArtifacts p c) = [] \<longleftrightarrow>
   (\<forall>i k. has_test p i \<and> has_test c i \<longrightarrow> recorded p i k = recorded c i k)"
proof -
  have "ad_changed (diffArtifacts p c) = [] \<longleftrightarrow>
      (\<forall>i k x y. \<lparr>mc_id = i, mc_key = k, mc_from = x, mc_to = y\<rparr> \<notin> set (ad_changed (diffArtifacts p c)))"
    by (metis measurement_change.cases all_not_in_conv set_empty)
  then show ?thesis by (simp only: changed_iff) blast
qed

lemma no_statusChanged:
  "ad_statusChanged (diffArtifacts p c) = [] \<longleftrightarrow>
   (\<forall>i. has_test p i \<and> has_test c i \<longrightarrow> final_status p i = final_status c i)"
proof -
  have "ad_statusChanged (diffArtifacts p c) = [] \<longleftrightarrow>
      (\<forall>i x y. \<lparr>sc_id = i, sc_from = x, sc_to = y\<rparr> \<notin> set (ad_statusChanged (diffArtifacts p c)))"
    by (metis status_change.cases all_not_in_conv set_empty)
  also have "\<dots> \<longleftrightarrow> (\<forall>i. has_test p i \<and> has_test c i \<longrightarrow> final_status p i = final_status c i)"
    unfolding statusChanged_iff final_status_None [symmetric, THEN arg_cong [where f = Not], unfolded not_not]
    by auto
  finally show ?thesis .
qed

definition same_findings :: "run_artifact \<Rightarrow> run_artifact \<Rightarrow> bool" where
  "same_findings p c \<longleftrightarrow>
     (\<forall>i. final_status p i = final_status c i \<and> (\<forall>k. recorded p i k = recorded c i k))"

lemma quiet_diff: "quiet (diffArtifacts p c) \<longleftrightarrow> same_findings p c"
proof -
  have "ad_added (diffArtifacts p c) = [] \<longleftrightarrow> (\<forall>i. has_test c i \<longrightarrow> has_test p i)"
    by (metis added_iff all_not_in_conv set_empty)
  moreover have "ad_removed (diffArtifacts p c) = [] \<longleftrightarrow> (\<forall>i. has_test p i \<longrightarrow> has_test c i)"
    by (metis removed_iff all_not_in_conv set_empty)
  ultimately show ?thesis
    unfolding quiet_def same_findings_def no_changed no_statusChanged
    by (metis final_status_None recorded_None)
qed

lemma render_quiet:
  "starts_with (renderDiffMarkdown d) (''# Platform diff'' @ nl @ nl @ ''no change'') \<longleftrightarrow> quiet d"
proof (cases "quiet d")
  case True
  then show ?thesis by (simp add: renderDiffMarkdown_def nl_def)
next
  case False
  then have "ad_statusChanged d \<noteq> [] \<or> ad_changed d \<noteq> [] \<or> ad_added d \<noteq> [] \<or> ad_removed d \<noteq> []"
    by (auto simp: quiet_def)
  then have "\<exists>x xs. diff_lines d = ''# Platform diff'' # [] # x # xs \<and> xs \<noteq> [] \<and> x \<noteq> [] \<and> hd x \<in> set ''#AR''"
    by (auto simp: diff_lines_def)
  then obtain c x xs where "diff_lines d = ''# Platform diff'' # [] # (c # x) # xs" "xs \<noteq> []" "c \<in> set ''#AR''"
    by (metis list.exhaust list.sel(1))
  moreover from this obtain y ys where "xs = y # ys" by (cases xs) auto
  ultimately show ?thesis using False by (auto simp: renderDiffMarkdown_def nl_def)
qed

text \<open>The rendered diff says "no change" exactly when the two runs agree on every test and its
  status and on every measurement of every test.\<close>

lemma diff_no_change:
  "starts_with (renderDiffMarkdown (diffArtifacts p c)) (''# Platform diff'' @ nl @ nl @ ''no change'') \<longleftrightarrow>
   same_findings p c"
  by (simp only: render_quiet quiet_diff)

end
