(* ===== verification/Report.thy ===== *)
theory Report
  imports Harness_Types RegExp
begin

text \<open>
  The renderers: \<open>harness/src/facts.ts\<close> (measurements as tables, and the numbers an artifact can
  vouch for) and \<open>harness/src/report.ts\<close> (the report of a run).
\<close>

subsection \<open>facts.ts\<close>

record facts_options =
  fo_only :: "string list option"
  fo_detail :: "bool option"

definition wanted :: "string \<Rightarrow> string list option \<Rightarrow> bool" where
  "wanted i only =
     (case only of
        None \<Rightarrow> True
      | Some os \<Rightarrow> os = [] \<or> list_ex (\<lambda>x. to_lower i = to_lower x \<or> starts_with (to_lower i) (to_lower x)) os)"

text \<open>\<open>/\|/g\<close> and \<open>/\r?\n/g\<close>\<close>

definition pipe_re :: re where
  "pipe_re = Cls (\<lambda>c. c = CHR ''|'')"

definition newline_re :: re where
  "newline_re = Seq (Opt (Cls (\<lambda>c. c = CHR 0x0D))) (Cls (\<lambda>c. c = CHR 0x0A))"

definition facts_cell :: "string \<Rightarrow> string" where
  "facts_cell v = trim (replace_all newline_re (\<lambda>_. '' '') (replace_all pipe_re (\<lambda>_. [CHR 0x5C, CHR ''|'']) v))"

definition regionLabel :: "run_artifact \<Rightarrow> string" where
  "regionLabel a =
     (if truthy (ra_projectRegion a)
      then ''region '' @ the (ra_projectRegion a) @ '' (read from the project)''
      else ''harness region '' @ ra_region a @ '' (not read from the project)'')"

definition facts_row :: "string \<times> cell \<Rightarrow> string" where
  "facts_row kv = ''| '' @ facts_cell (fst kv) @ '' | '' @ facts_cell (cell_str (snd kv)) @ '' |''"

definition facts_result :: "bool option \<Rightarrow> test_result \<Rightarrow> string list" where
  "facts_result detail r =
     (let m = (case tr_measurements r of None \<Rightarrow> [] | Some x \<Rightarrow> x)
      in [''## '' @ tr_id r @ '' - '' @ tr_title r @ '' ('' @ status_str (tr_status r) @ '')'', []] @
         (if m \<noteq> [] then [''| key | value |'', ''|---|---|''] @ map facts_row m else [''_no measurements_'']) @
         (if detail \<noteq> Some False \<and> truthy (tr_detail r)
          then [[], ''detail: '' @ facts_cell (the (tr_detail r))] else []) @
         [[]])"

definition renderFacts :: "run_artifact \<Rightarrow> facts_options \<Rightarrow> string" where
  "renderFacts a opts =
     (let stamp = replace_first (Lit ''T'') (\<lambda>_. '' '') (take 19 (ra_startedAt a));
          head = [''# Facts from '' @ (case ra_experiment a of None \<Rightarrow> ''run'' | Some e \<Rightarrow> e) @ '' - '' @ stamp @ '' UTC'', [],
                  ''Source artifact: run started '' @ ra_startedAt a @ '', finished '' @ ra_finishedAt a @
                  '', vantage '' @ where_str (ra_where a) @ '', '' @ regionLabel a @
                  (if truthy (ra_labCommit a) then '', lab commit '' @ the (ra_labCommit a) else []) @
                  ''. Project ref omitted on purpose.'', []];
          rs = filter (\<lambda>r. wanted (tr_id r) (fo_only opts)) (ra_results a)
      in if rs = [] then join nl (head @ [''_no results matched_''])
         else trim_end (join nl (head @ concat (map (facts_result (fo_detail opts)) rs))) @ nl)"

text \<open>\<open>/\d[\d,]*(?:\.\d+)?/g\<close>, and with a sign \<open>/-?\d[\d,]*(?:\.\d+)?/g\<close>\<close>

definition figure_re :: re where
  "figure_re =
     Seqs [Cls is_digit, Star (Cls (\<lambda>c. is_digit c \<or> c = CHR '','')),
           Opt (Seq (Cls (\<lambda>c. c = CHR ''.'')) (Plus (Cls is_digit)))]"

definition number_re :: re where
  "number_re = Seq (Opt (Cls (\<lambda>c. c = CHR ''-''))) figure_re"

definition no_commas :: "string \<Rightarrow> string" where
  "no_commas s = replace_all (Cls (\<lambda>c. c = CHR '','')) (\<lambda>_. []) s"

definition number_tokens :: "string \<Rightarrow> string list" where
  "number_tokens s = map (\<lambda>m. no_commas (matched m)) (re_matches number_re s)"

definition result_texts :: "test_result \<Rightarrow> string list" where
  "result_texts r =
     [case tr_detail r of None \<Rightarrow> [] | Some d \<Rightarrow> d] @
     map (\<lambda>kv. cell_str (snd kv)) (case tr_measurements r of None \<Rightarrow> [] | Some m \<Rightarrow> m) @
     [case tr_evidence r of None \<Rightarrow> [] | Some e \<Rightarrow> e]"

definition numbersIn :: "run_artifact \<Rightarrow> string list option \<Rightarrow> string set" where
  "numbersIn a only =
     (\<Union>r \<in> set (filter (\<lambda>r. wanted (tr_id r) only) (ra_results a)). \<Union>t \<in> set (result_texts r). set (number_tokens t))"

subsection \<open>report.ts\<close>

definition STATUS_ORDER :: "status list" where
  "STATUS_ORDER = [Fail, Pass, Info, Skip]"

definition own_measurements :: "test_result \<Rightarrow> cell obj" where
  "own_measurements r = (case tr_measurements r of None \<Rightarrow> [] | Some m \<Rightarrow> m)"

definition measurementKeys :: "test_result list \<Rightarrow> string list" where
  "measurementKeys rs =
     foldl (\<lambda>keys r. foldl (\<lambda>ks k. if k \<in> set ks then ks else ks @ [k]) keys (obj_keys (own_measurements r))) [] rs"

definition escapePipes :: "string option \<Rightarrow> string" where
  "escapePipes v =
     replace_all pipe_re (\<lambda>_. [CHR 0x5C, CHR ''|'']) (case v of None \<Rightarrow> [] | Some s \<Rightarrow> s)"

definition status_row :: "test_result \<Rightarrow> string" where
  "status_row r =
     ''| '' @ tr_id r @ '' '' @ escapePipes (Some (tr_title r)) @ '' | '' @ status_str (tr_status r) @ '' | '' @
     escapePipes (tr_detail r) @ '' |''"

definition result_rows :: "run_artifact \<Rightarrow> test_result list" where
  "result_rows a = concat (map (\<lambda>s. filter (\<lambda>r. tr_status r = s) (ra_results a)) STATUS_ORDER)"

definition measurement_row :: "string list \<Rightarrow> test_result \<Rightarrow> string" where
  "measurement_row keys r =
     ''| '' @ tr_id r @ '' | '' @
     join '' | '' (map (\<lambda>k. escapePipes (map_option cell_str (obj_get (own_measurements r) k))) keys) @ '' |''"

definition evidence_block :: "test_result \<Rightarrow> string list" where
  "evidence_block r =
     [''### '' @ tr_id r @ '' '' @ tr_title r, [], ''```'', trim (the (tr_evidence r)), ''```'', []]"

definition status_counts :: "run_artifact \<Rightarrow> (status \<times> nat) list" where
  "status_counts a =
     filter (\<lambda>(s, n). n > 0)
       (map (\<lambda>s. (s, length (filter (\<lambda>r. tr_status r = s) (ra_results a)))) STATUS_ORDER)"

definition measured_results :: "run_artifact \<Rightarrow> test_result list" where
  "measured_results a = filter (\<lambda>r. own_measurements r \<noteq> []) (ra_results a)"

definition report_lines :: "run_artifact \<Rightarrow> string list" where
  "report_lines a =
     (let measured = measured_results a;
          keys = measurementKeys measured;
          withEvidence = filter (\<lambda>r. truthy (tr_evidence r)) (ra_results a)
      in [''# '' @ (if truthy (ra_experiment a) then the (ra_experiment a) @ '' run'' else ''supabase-lab run'') @
            '' - '' @ ra_startedAt a, [],
          ''Project `'' @ ra_ref a @ ''` | '' @ regionLabel a @ '' | vantage '' @ where_str (ra_where a) @
            (if truthy (ra_labCommit a) then '' | lab `'' @ the (ra_labCommit a) @ ''`'' else []), [],
          join '' | '' (map (\<lambda>(s, n). ''**'' @ show_nat n @ '' '' @ status_str s @ ''**'') (status_counts a)), [],
          ''## Results'', [], ''| Test | Status | Detail |'', ''|---|---|---|''] @
         map status_row (result_rows a) @ [[]] @
         (if measured \<noteq> []
          then [''## Measurements'', [], ''| Test | '' @ join '' | '' keys @ '' |'',
                ''|---|'' @ join ''|'' (map (\<lambda>_. ''---'') keys) @ ''|''] @
               map (measurement_row keys) measured @ [[]]
          else []) @
         (if withEvidence \<noteq> [] then [''## Evidence'', []] @ concat (map evidence_block withEvidence) else []) @
         [''## Provenance'', [], ''- started: '' @ ra_startedAt a @ '', finished: '' @ ra_finishedAt a] @
         map (\<lambda>kv. ''- '' @ fst kv @ '': '' @ snd kv) (ra_toolVersions a) @ [[]])"

definition renderMarkdown :: "run_artifact \<Rightarrow> string" where
  "renderMarkdown a = join nl (report_lines a)"

subsection \<open>Number tokens\<close>

abbreviation num_char :: "char \<Rightarrow> bool" where
  "num_char c \<equiv> is_digit c \<or> c = CHR '',''"

text \<open>How much of a text a figure takes at its front.\<close>

definition figure_len :: "string \<Rightarrow> nat" where
  "figure_len s =
     (let n = length (takeWhile num_char s)
      in case drop n s of
           [] \<Rightarrow> n
         | c # t \<Rightarrow> (let d = length (takeWhile is_digit t)
                    in if c = CHR ''.'' \<and> d \<noteq> 0 then n + 1 + d else n))"

definition figure_lead :: "string \<Rightarrow> nat option" where
  "figure_lead s = (if next_is is_digit s then Some (figure_len s) else None)"

definition number_lead :: "string \<Rightarrow> nat option" where
  "number_lead s =
     (if next_is (\<lambda>c. c = CHR ''-'') s then map_option Suc (figure_lead (tl s)) else figure_lead s)"

lemma frac_first:
  "re_first (Opt (Seq (Cls (\<lambda>c. c = CHR ''.'')) (Plus (Cls is_digit)))) st =
     Some (advance (case after st of
         [] \<Rightarrow> 0
       | c # t \<Rightarrow> (let d = length (takeWhile is_digit t) in if c = CHR ''.'' \<and> d \<noteq> 0 then 1 + d else 0)) st)"
proof (cases "after st")
  case Nil
  then show ?thesis by (simp add: re_first_Opt re_first_Seq_None re_first_Cls next_is_def)
next
  case (Cons c t)
  show ?thesis
  proof (cases "c = CHR ''.'' \<and> next_is is_digit t")
    case True
    then have d: "length (takeWhile is_digit t) \<noteq> 0" by (auto simp: next_is_def split: list.splits)
    have "re_first (Seq (Cls (\<lambda>c. c = CHR ''.'')) (Plus (Cls is_digit))) st =
        Some (advance (length (takeWhile is_digit t)) (step_char st))"
      using True Cons
      by (intro re_first_Seq [where m = "step_char st"]) (simp_all add: re_first_Cls re_first_Plus next_is_def after_step_char)
    with True d Cons show ?thesis by (simp add: re_first_Opt advance_Suc)
  next
    case False
    have "re_first (Seq (Cls (\<lambda>c. c = CHR ''.'')) (Plus (Cls is_digit))) st = None"
      using False Cons by (auto simp: re_first_None next_is_def step_char_def Plus_def)
    moreover have "\<not> (c = CHR ''.'' \<and> length (takeWhile is_digit t) \<noteq> 0)"
      using False by (cases t) (auto simp: next_is_def)
    ultimately show ?thesis using Cons by (auto simp: re_first_Opt)
  qed
qed

lemma advance_advance: "advance m (advance n st) = advance (n + m) st"
  by (simp add: advance_def take_add) (simp add: add.commute)

lemma figure_first:
  "re_first figure_re st = map_option (\<lambda>k. advance k st) (figure_lead (after st))"
proof (cases "next_is is_digit (after st)")
  case True
  then obtain c t where c: "after st = c # t" "is_digit c" by (auto simp: next_is_def split: list.splits)
  let ?n = "length (takeWhile num_char (after (step_char st)))"
  have "re_first figure_re st =
      Some (advance (case after (advance ?n (step_char st)) of
         [] \<Rightarrow> 0
       | c # t \<Rightarrow> (let d = length (takeWhile is_digit t) in if c = CHR ''.'' \<and> d \<noteq> 0 then 1 + d else 0))
       (advance ?n (step_char st)))"
    unfolding figure_re_def Seqs.simps
    by (rule re_first_Seq [OF _ re_first_Seq [OF re_first_Star frac_first]])
       (use c in \<open>simp add: re_first_Cls next_is_def\<close>)
  also have "\<dots> = Some (advance (figure_len (after st)) st)"
    using c unfolding advance_Suc [OF c(1)] advance_advance
    by (simp add: figure_len_def after_step_char Let_def split: list.splits)
  finally show ?thesis using True by (simp add: figure_lead_def)
next
  case False
  then show ?thesis
    by (simp add: figure_re_def figure_lead_def re_first_Seq_None re_first_Cls)
qed

lemma figure_len_le: "figure_len s \<le> length s"
proof -
  let ?n = "length (takeWhile num_char s)"
  have n: "?n \<le> length s" by (simp add: length_takeWhile_le)
  show ?thesis
  proof (cases "drop ?n s")
    case Nil
    with n show ?thesis by (simp add: figure_len_def)
  next
    case (Cons c t)
    then have "length s = ?n + Suc (length t)" using n by (metis length_Cons length_drop le_add_diff_inverse)
    moreover have "length (takeWhile is_digit t) \<le> length t" by (rule length_takeWhile_le)
    ultimately show ?thesis using Cons by (simp add: figure_len_def Let_def)
  qed
qed

lemma figure_len_pos: "next_is is_digit s \<Longrightarrow> 0 < figure_len s"
  by (auto simp: figure_len_def next_is_def Let_def split: list.splits)

lemma leads_figure: "leads figure_re figure_lead"
  by (auto simp: leads_def figure_first figure_lead_def figure_len_le figure_len_pos option.map_comp comp_def)

lemma number_first:
  "map_option after (re_first number_re st) = map_option (\<lambda>k. drop k (after st)) (number_lead (after st))"
proof (cases "after st")
  case Nil
  then show ?thesis
    by (simp add: number_re_def re_first_def number_lead_def figure_lead_def figure_re_def Opt_def next_is_def)
next
  case (Cons c t)
  show ?thesis
  proof (cases "c = CHR ''-''")
    case True
    have dash: "\<not> is_digit CHR ''-''" by (simp add: is_digit_def)
    have "re_m (Seq Eps figure_re) st = []"
      using True Cons dash figure_first [of st] by (simp add: figure_lead_def next_is_def re_first_None)
    then have "re_first number_re st = re_first figure_re (step_char st)"
      using True Cons by (simp add: number_re_def re_first_def Opt_def next_is_def)
    then show ?thesis using True Cons
      by (simp add: figure_first number_lead_def next_is_def step_char_def option.map_comp comp_def)
  next
    case False
    then have "re_first number_re st = re_first figure_re st"
      using Cons by (simp add: number_re_def re_first_def Opt_def next_is_def)
    then show ?thesis using False Cons
      by (simp add: figure_first number_lead_def next_is_def option.map_comp comp_def)
  qed
qed

lemma leads_number: "leads number_re number_lead"
  unfolding leads_def
proof (intro conjI allI impI)
  fix s k
  assume k: "number_lead s = Some k"
  show "0 < k" using k
    by (auto simp: number_lead_def figure_lead_def figure_len_pos split: if_splits)
  show "k \<le> length s" using k figure_len_le [of s] figure_len_le [of "tl s"]
    by (cases s) (auto simp: number_lead_def figure_lead_def next_is_def split: if_splits)
qed (use number_first in force)

lemma number_tokens_lead: "number_tokens s = map no_commas (find_lead number_lead s)"
  by (simp add: number_tokens_def flip: matches_lead [OF leads_number] map_map [unfolded comp_def])

lemma no_commas_filter: "no_commas s = filter (\<lambda>c. c \<noteq> CHR '','') s"
proof -
  have "concat (map (\<lambda>c. if c = CHR '','' then [] else [c]) s) = filter (\<lambda>c. c \<noteq> CHR '','') s"
    by (induction s) auto
  then show ?thesis by (simp add: no_commas_def replace_all_Cls_const)
qed

lemma figure_lead_digits:
  "list_all is_digit s \<Longrightarrow> s \<noteq> [] \<Longrightarrow> figure_lead s = Some (length s)"
proof -
  assume "list_all is_digit s" "s \<noteq> []"
  then have "takeWhile num_char s = s" "next_is is_digit s"
    by (auto simp: takeWhile_eq_all_conv list_all_iff next_is_def split: list.splits)
  then show ?thesis by (simp add: figure_lead_def figure_len_def del: takeWhile_eq_all_conv)
qed

lemma show_nat_all_digits: "list_all is_digit (show_nat n)"
  using show_nat_digits by (auto simp: list_all_iff)

lemma number_lead_show_int: "number_lead (show_int i) = Some (length (show_int i))"
proof -
  have d: "figure_lead (show_nat n) = Some (length (show_nat n))" for n
    by (rule figure_lead_digits) (simp_all add: show_nat_all_digits)
  have "\<not> next_is (\<lambda>c. c = CHR ''-'') (show_nat n)" for n
    using show_nat_all_digits [of n]
    by (cases "show_nat n") (auto simp: next_is_def is_digit_def)
  then show ?thesis by (auto simp: show_int_def number_lead_def d) (simp_all add: next_is_def)
qed

lemma comma_free_show_int: "CHR '','' \<notin> set (show_int i)"
proof -
  have "CHR '','' \<notin> set (show_nat n)" for n
    using show_nat_digits [of "CHR '',''" n] by (auto simp: is_digit_def)
  then show ?thesis by (simp add: show_int_def)
qed

lemma number_tokens_show_int: "number_tokens (show_int i) = [show_int i]"
proof (cases "show_int i")
  case Nil
  then show ?thesis by (auto simp: show_int_def split: if_splits)
next
  case (Cons c s)
  with number_lead_show_int [of i] have "find_lead number_lead (show_int i) = [show_int i]" by simp
  moreover have "no_commas (show_int i) = show_int i"
    using comma_free_show_int [of i] by (auto simp: no_commas_filter filter_id_conv)
  ultimately show ?thesis by (simp add: number_tokens_lead)
qed

text \<open>A token is a sign, digits and commas, and perhaps a fraction.\<close>

lemma take_figure_chars:
  assumes "next_is is_digit s" "c \<in> set (take (figure_len s) s)"
  shows "is_digit c \<or> c = CHR '','' \<or> c = CHR ''.''"
proof -
  let ?n = "length (takeWhile num_char s)"
  have t: "take ?n s = takeWhile num_char s" by (metis takeWhile_eq_take)
  show ?thesis
  proof (cases "drop ?n s")
    case Nil
    with assms(2) t have "c \<in> set (takeWhile num_char s)" by (simp add: figure_len_def del: takeWhile_eq_all_conv)
    then show ?thesis by (auto dest: set_takeWhileD)
  next
    case (Cons d u)
    then have s: "s = takeWhile num_char s @ d # u" by (metis append_take_drop_id t)
    let ?d = "length (takeWhile is_digit u)"
    have "take ?d u = takeWhile is_digit u" by (metis takeWhile_eq_take)
    moreover have "take (?n + 1 + ?d) (takeWhile num_char s @ d # u) = takeWhile num_char s @ d # take ?d u"
      by (simp add: take_Cons' del: takeWhile_eq_all_conv)
    ultimately have "take (?n + 1 + ?d) s = takeWhile num_char s @ d # takeWhile is_digit u"
      using s by metis
    moreover have "figure_len s = (if d = CHR ''.'' \<and> ?d \<noteq> 0 then ?n + 1 + ?d else ?n)"
      using Cons by (simp add: figure_len_def Let_def)
    ultimately have "c \<in> set (takeWhile num_char s) \<or> d = CHR ''.'' \<and> c \<in> set (d # takeWhile is_digit u)"
      using assms(2) t by (metis Un_iff set_append)
    then show ?thesis by (auto dest: set_takeWhileD)
  qed
qed

lemma next_is_hd: "next_is p s \<longleftrightarrow> s \<noteq> [] \<and> p (hd s)"
  by (cases s) (simp_all add: next_is_def)

lemma number_lead_token:
  assumes "number_lead s = Some k"
  shows "\<exists>c \<in> set (take k s). is_digit c"
    and "\<forall>c \<in> set (take k s). is_digit c \<or> c = CHR '','' \<or> c = CHR ''.'' \<or> c = CHR ''-''"
proof -
  have fig: "(\<exists>c \<in> set (take (figure_len u) u). is_digit c)" if u: "next_is is_digit u" for u
  proof -
    obtain c t where "u = c # t" "is_digit c" using u by (cases u) (auto simp: next_is_hd)
    then show ?thesis using figure_len_pos [OF u] by (cases "figure_len u") auto
  qed
  from assms have k: "(k = figure_len s \<and> next_is is_digit s) \<or>
      (\<exists>t. s = CHR ''-'' # t \<and> k = Suc (figure_len t) \<and> next_is is_digit t)"
    by (cases s) (auto simp: number_lead_def figure_lead_def next_is_hd split: if_splits)
  then show "\<exists>c \<in> set (take k s). is_digit c" using fig by auto
  from k show "\<forall>c \<in> set (take k s). is_digit c \<or> c = CHR '','' \<or> c = CHR ''.'' \<or> c = CHR ''-''"
    by (auto dest: take_figure_chars)
qed

lemma find_lead_token: "t \<in> set (find_lead lead s) \<Longrightarrow> \<exists>u k. lead u = Some k \<and> t = take k u"
  by (induction lead s rule: find_lead.induct) (auto split: option.splits)

text \<open>The set of quotable numbers is complete and clean: it holds every integer measurement of
  every wanted result, exactly as the artifact prints it, and every member has a digit and consists of
  digits, points and minus signs only (no thousands separator).\<close>

lemma numbersIn_quotable:
  "(\<forall>r k i. r \<in> set (ra_results a) \<and> wanted (tr_id r) only \<and> (k, NumC i) \<in> set (own_measurements r) \<longrightarrow>
      show_int i \<in> numbersIn a only) \<and>
   (\<forall>x \<in> numbersIn a only. (\<exists>c \<in> set x. is_digit c) \<and>
      (\<forall>c \<in> set x. is_digit c \<or> c = CHR ''.'' \<or> c = CHR ''-''))"
proof (intro conjI allI impI ballI)
  fix r k i
  assume h: "r \<in> set (ra_results a) \<and> wanted (tr_id r) only \<and> (k, NumC i) \<in> set (own_measurements r)"
  then have "show_int i \<in> set (result_texts r)"
    by (force simp: result_texts_def own_measurements_def split: option.splits)
  moreover have "show_int i \<in> set (number_tokens (show_int i))" by (simp add: number_tokens_show_int)
  ultimately show "show_int i \<in> numbersIn a only" using h unfolding numbersIn_def by auto
next
  fix x
  assume "x \<in> numbersIn a only"
  then obtain t u k where "number_lead u = Some k" "x = no_commas (take k u)"
    by (auto simp: numbersIn_def number_tokens_lead dest: find_lead_token)
  with number_lead_token show "\<exists>c \<in> set x. is_digit c"
    and "\<And>c. c \<in> set x \<Longrightarrow> is_digit c \<or> c = CHR ''.'' \<or> c = CHR ''-''"
    by (fastforce simp: no_commas_filter is_digit_def)+
qed

definition sample_result :: test_result where
  "sample_result =
     \<lparr>tr_id = ''EF05a'', tr_title = ''sent length'', tr_status = Pass, tr_detail = Some ''a|b'',
      tr_measurements = Some [(''sent_length'', NumC 12019), (''note'', StrC ''x|y'')],
      tr_evidence = None, tr_durationMs = Some 7\<rparr>"

definition sample_artifact :: run_artifact where
  "sample_artifact =
     \<lparr>ra_startedAt = ''2026-09-02T10:00:00.000Z'', ra_finishedAt = ''2026-09-02T10:05:00.000Z'',
      ra_where = Local, ra_region = ''eu-west-1'', ra_projectRegion = None, ra_ref = ''abc'',
      ra_experiment = None, ra_labCommit = None, ra_toolVersions = [], ra_results = [sample_result]\<rparr>"

subsection \<open>Table rows\<close>

text \<open>Pipes a Markdown table reads as cell borders: those with no backslash right before them.\<close>

fun borders :: "bool \<Rightarrow> string \<Rightarrow> nat" where
  "borders esc [] = 0"
| "borders esc (c # s) = (if c = CHR ''|'' \<and> \<not> esc then 1 else 0) + borders (c = CHR 0x5C) s"

lemma borders_append:
  "borders e (s @ t) = borders e s + borders (if s = [] then e else last s = CHR 0x5C) t"
  by (induction s arbitrary: e) auto

lemma borders_flag: "s = [] \<or> hd s \<noteq> CHR ''|'' \<Longrightarrow> borders e s = borders e' s"
  by (cases s) auto

lemma borders_le: "borders True s \<le> borders False s"
  by (cases s) auto

definition escape_pipes :: "string \<Rightarrow> string" where
  "escape_pipes s = concat (map (\<lambda>c. if c = CHR ''|'' then [CHR 0x5C, CHR ''|''] else [c]) s)"

lemma replace_pipes: "replace_all pipe_re (\<lambda>_. [CHR 0x5C, CHR ''|'']) s = escape_pipes s"
  by (simp add: pipe_re_def replace_all_Cls_const escape_pipes_def)

lemma borders_escape: "borders e (escape_pipes s) = 0"
  by (induction s arbitrary: e) (auto simp: escape_pipes_def)

fun unwrap_lines :: "string \<Rightarrow> string" where
  "unwrap_lines [] = []"
| "unwrap_lines [c] = (if c = CHR 0x0A then '' '' else [c])"
| "unwrap_lines (c # d # s) =
     (if c = CHR 0x0D \<and> d = CHR 0x0A then CHR '' '' # unwrap_lines s
      else if c = CHR 0x0A then CHR '' '' # unwrap_lines (d # s)
      else c # unwrap_lines (d # s))"

definition newline_lead :: "string \<Rightarrow> nat option" where
  "newline_lead s =
     (if next_is (\<lambda>c. c = CHR 0x0D) s \<and> next_is (\<lambda>c. c = CHR 0x0A) (tl s) then Some 2
      else if next_is (\<lambda>c. c = CHR 0x0A) s then Some 1 else None)"

lemma leads_newline: "leads newline_re newline_lead"
  unfolding leads_def
proof (intro conjI allI impI)
  fix pre s
  show "map_option after (re_first newline_re (at_pos pre s)) = map_option (\<lambda>k. drop k s) (newline_lead s)"
    by (cases s; cases "tl s")
       (auto simp: newline_re_def newline_lead_def re_first_def Opt_def next_is_def step_char_def)
qed (auto simp: newline_lead_def next_is_hd neq_Nil_conv Suc_le_eq split: if_splits)

lemma unwrap_lines_eq: "repl_lead newline_lead (\<lambda>_. '' '') s = unwrap_lines s"
  by (induction s rule: unwrap_lines.induct)
     (auto simp: newline_lead_def next_is_def)

lemma facts_cell_eq: "facts_cell s = trim (unwrap_lines (escape_pipes s))"
  using replace_lead [OF leads_newline, of "\<lambda>_. '' ''"]
  by (simp add: facts_cell_def replace_pipes unwrap_lines_eq)

lemma unwrap_lines_no_nl: "CHR 0x0A \<notin> set (unwrap_lines s)"
  by (induction s rule: unwrap_lines.induct) auto

lemma borders_unwrap: "borders e (unwrap_lines s) = borders e s"
proof (induction s arbitrary: e rule: unwrap_lines.induct)
  case (3 c d s)
  then show ?case by (cases "c = CHR 0x0A") auto
qed auto

lemma borders_trim_start: "borders False (trim_start s) = borders False s"
proof (induction s)
  case Nil
  then show ?case by (simp add: trim_start_def)
next
  case (Cons c s)
  have "c \<noteq> CHR ''|'' \<and> c \<noteq> CHR 0x5C" if "is_ws c" using that by (auto simp: is_ws_def)
  with Cons show ?case by (auto simp: trim_start_def)
qed

lemma trim_end_prefix: "\<exists>t. s = trim_end s @ t"
proof -
  have "rev s = takeWhile is_ws (rev s) @ dropWhile is_ws (rev s)" by simp
  then have "s = trim_end s @ rev (takeWhile is_ws (rev s))"
    unfolding trim_end_def by (metis rev_append rev_rev_ident)
  then show ?thesis by blast
qed

lemma borders_trim: "borders False (trim s) \<le> borders False s"
proof -
  obtain t where "trim_start s = trim s @ t" using trim_end_prefix unfolding trim_def by blast
  then have "borders False (trim_start s) \<ge> borders False (trim s)" by (simp add: borders_append)
  then show ?thesis by (simp add: borders_trim_start)
qed

lemma set_trim: "set (trim s) \<subseteq> set s"
proof -
  obtain t where "trim_start s = trim s @ t" using trim_end_prefix unfolding trim_def by blast
  then have "set (trim s) \<subseteq> set (trim_start s)" by simp
  then show ?thesis unfolding trim_start_def using set_dropWhileD by fast
qed

lemma facts_cell_borders: "borders False (facts_cell s) = 0"
  using borders_trim [of "unwrap_lines (escape_pipes s)"]
  by (simp add: facts_cell_eq borders_unwrap borders_escape)

lemma facts_cell_no_nl: "CHR 0x0A \<notin> set (facts_cell s)"
  using set_trim unwrap_lines_no_nl unfolding facts_cell_eq by blast

lemma borders_cell: "borders False s = 0 \<Longrightarrow> borders False (s @ CHR '' '' # t) = borders False t"
  by (simp add: borders_append)

text \<open>A measurement row of the fact tables is one line with exactly three cell borders, whatever
  the key and the value contain: pipes and line breaks in them cannot break the table.\<close>

lemma facts_row_shape: "CHR 0x0A \<notin> set (facts_row kv) \<and> borders False (facts_row kv) = 3"
proof
  show "CHR 0x0A \<notin> set (facts_row kv)" using facts_cell_no_nl by (simp add: facts_row_def)
  have "borders False (facts_row kv) =
      1 + borders False (facts_cell (fst kv) @ '' | '' @ facts_cell (cell_str (snd kv)) @ '' |'')"
    by (simp add: facts_row_def)
  also have "\<dots> = 2 + borders False (facts_cell (cell_str (snd kv)) @ '' |'')"
    by (simp add: borders_cell facts_cell_borders)
  also have "\<dots> = 3" by (simp add: borders_cell facts_cell_borders)
  finally show "borders False (facts_row kv) = 3" .
qed

text \<open>The report's own escaping leaves line breaks alone: a detail with one splits its row.\<close>

lemma escapePipes_keeps_newline: "CHR 0x0A \<in> set d \<Longrightarrow> CHR 0x0A \<in> set (escapePipes (Some d))"
  by (auto simp: escapePipes_def replace_pipes escape_pipes_def)

theorem status_row_split:
  "CHR 0x0A \<in> set (status_row (sample_result\<lparr>tr_detail := Some (''a'' @ nl @ ''b'')\<rparr>))"
  using escapePipes_keeps_newline [of "''a'' @ nl @ ''b''"] by (simp add: status_row_def nl_def)

subsection \<open>The report shows everything\<close>

definition status_rank :: "status \<Rightarrow> nat" where
  "status_rank s = (case s of Fail \<Rightarrow> 0 | Pass \<Rightarrow> 1 | Info \<Rightarrow> 2 | Skip \<Rightarrow> 3)"

lemma result_rows_filter:
  "filter (\<lambda>r. tr_status r = s) (result_rows a) = filter (\<lambda>r. tr_status r = s) (ra_results a)"
  by (cases s) (simp_all add: result_rows_def STATUS_ORDER_def filter_filter conj_commute cong: conj_cong)

lemma mset_result_rows: "mset (result_rows a) = mset (ra_results a)"
proof -
  have "mset (concat (map (\<lambda>s. filter (\<lambda>r. tr_status r = s) rs) STATUS_ORDER)) = mset rs" for rs
  proof (induction rs)
    case Nil
    then show ?case by (simp add: STATUS_ORDER_def)
  next
    case (Cons r rs)
    then show ?case by (cases "tr_status r") (simp_all add: STATUS_ORDER_def)
  qed
  then show ?thesis by (simp add: result_rows_def)
qed

lemma sorted_result_rows: "sorted_wrt (\<lambda>x y. status_rank (tr_status x) \<le> status_rank (tr_status y)) (result_rows a)"
proof -
  have "sorted_wrt (\<lambda>x y. status_rank (tr_status x) \<le> status_rank (tr_status y)) (filter (\<lambda>r. tr_status r = s) rs)"
    for s rs by (induction rs) auto
  then show ?thesis
    by (auto simp: result_rows_def STATUS_ORDER_def sorted_wrt_append) (simp_all add: status_rank_def)
qed

lemma add_keys:
  "foldl (\<lambda>ks k. if k \<in> set ks then ks else ks @ [k]) (uniq ys) xs = uniq (ys @ xs)"
proof (induction xs arbitrary: ys)
  case Nil
  then show ?case by simp
next
  case (Cons x xs)
  have "(if x \<in> set (uniq ys) then uniq ys else uniq ys @ [x]) = uniq (ys @ [x])" by (simp add: uniq_snoc)
  with Cons.IH [of "ys @ [x]"] show ?case by simp
qed

lemma measurementKeys_eq: "measurementKeys rs = uniq (concat (map (\<lambda>r. obj_keys (own_measurements r)) rs))"
proof -
  have "foldl (\<lambda>keys r. foldl (\<lambda>ks k. if k \<in> set ks then ks else ks @ [k]) keys (obj_keys (own_measurements r)))
      (uniq ys) rs = uniq (ys @ concat (map (\<lambda>r. obj_keys (own_measurements r)) rs))" for ys
    by (induction rs arbitrary: ys) (simp_all add: add_keys del: set_map)
  from this [of "[]"] show ?thesis by (simp add: measurementKeys_def)
qed

text \<open>The report leaves nothing out: its result table has one row per result of the run, failures
  first, then passes, infos and skips, in the run's order within each; and the columns of its
  measurement table are exactly the keys the results recorded, each once.\<close>

lemma report_complete:
  "mset (result_rows a) = mset (ra_results a) \<and>
   sorted_wrt (\<lambda>x y. status_rank (tr_status x) \<le> status_rank (tr_status y)) (result_rows a) \<and>
   filter (\<lambda>r. tr_status r = s) (result_rows a) = filter (\<lambda>r. tr_status r = s) (ra_results a) \<and>
   (\<exists>pre post. report_lines a = pre @ map status_row (result_rows a) @ post) \<and>
   distinct (measurementKeys (measured_results a)) \<and>
   set (measurementKeys (measured_results a)) = (\<Union>r \<in> set (ra_results a). set (obj_keys (own_measurements r)))"
proof -
  have "set (measurementKeys (measured_results a)) = (\<Union>r \<in> set (ra_results a). set (obj_keys (own_measurements r)))"
    by (force simp: measurementKeys_eq measured_results_def)
  moreover have "\<exists>pre post. report_lines a = pre @ map status_row (result_rows a) @ post"
    unfolding report_lines_def Let_def by blast
  ultimately show ?thesis
    using mset_result_rows sorted_result_rows result_rows_filter by (simp add: measurementKeys_eq)
qed

end
