(* ===== verification/Json.thy ===== *)
theory Json
  imports Prelude
begin

text \<open>
  JSON values as the source reads them from the Management API and from files. Numbers are
  integers. Reading a field of something that is not an object gives \<open>undefined\<close>, here \<open>None\<close>.
\<close>

datatype json =
    JNull
  | JBool bool
  | JNum int
  | JStr string
  | JArr "json list"
  | JObj "(string \<times> json) list"

definition jget :: "string \<Rightarrow> json \<Rightarrow> json option" where
  "jget k j = (case j of JObj m \<Rightarrow> obj_get m k | _ \<Rightarrow> None)"

definition jstr :: "json \<Rightarrow> string option" where
  "jstr j = (case j of JStr s \<Rightarrow> Some s | _ \<Rightarrow> None)"

definition jarr :: "json \<Rightarrow> json list option" where
  "jarr j = (case j of JArr xs \<Rightarrow> Some xs | _ \<Rightarrow> None)"

text \<open>JavaScript truthiness.\<close>

definition jtruthy :: "json \<Rightarrow> bool" where
  "jtruthy j =
     (case j of JNull \<Rightarrow> False | JBool b \<Rightarrow> b | JNum i \<Rightarrow> i \<noteq> 0 | JStr s \<Rightarrow> s \<noteq> [] | _ \<Rightarrow> True)"

lemma jget_simps [simp]:
  "jget k (JObj m) = obj_get m k"
  "jget k JNull = None" "jget k (JBool b) = None" "jget k (JNum i) = None"
  "jget k (JStr s) = None" "jget k (JArr xs) = None"
  by (simp_all add: jget_def)

end
