(* ===== verification/Run.thy ===== *)
theory Run
  imports Plan Ctx Host_Pause Settle Diff Report Json
begin

text \<open>
  \<open>harness/src/run.ts\<close>: the command line, the merge of artifacts, and the run itself. What the
  outside does is an argument: the files on disk, what each module's promise does and when, the
  clock readings, the git commit and the tool versions. Of the console output only what a mode
  prints as its result is modelled. A module's value is one result or an array of them.
\<close>

subsection \<open>Arguments\<close>

fun position :: "'a \<Rightarrow> 'a list \<Rightarrow> nat option" where
  "position x [] = None"
| "position x (y # ys) = (if x = y then Some 0 else map_option Suc (position x ys))"

definition nth_opt :: "'a list \<Rightarrow> nat \<Rightarrow> 'a option" where
  "nth_opt xs i = (if i < length xs then Some (xs ! i) else None)"

definition arg :: "string list \<Rightarrow> string \<Rightarrow> string option \<Rightarrow> string option" where
  "arg argv name fallback =
     (case position (''--'' @ name) argv of Some i \<Rightarrow> nth_opt argv (i + 1) | None \<Rightarrow> fallback)"

definition flag :: "string list \<Rightarrow> string \<Rightarrow> bool" where
  "flag argv name = (''--'' @ name \<in> set argv)"

text \<open>\<open>s.split(",").map((s) => s.trim()).filter(Boolean)\<close>\<close>

definition comma_list :: "string \<Rightarrow> string list" where
  "comma_list s = filter (\<lambda>t. t \<noteq> []) (map trim (split_char (CHR '','') s))"

subsection \<open>Loading tests\<close>

definition is_test_file :: "string \<Rightarrow> bool" where
  "is_test_file f = ((ends_with f ''.ts'' \<or> ends_with f ''.js'') \<and> \<not> ends_with f ''.test.ts'')"

definition loadTests ::
  "test_module list option \<Rightarrow> string list \<Rightarrow> (string \<Rightarrow> test_module option) \<Rightarrow> test_module list" where
  "loadTests generated files importModule =
     (if nonempty generated then the generated
      else concat (map (\<lambda>f. case importModule f of
                              Some m \<Rightarrow> if tm_id m \<noteq> [] then [m] else []
                            | None \<Rightarrow> [])
             (sort_by code_unit_cmp (filter is_test_file files))))"

subsection \<open>Merging artifacts\<close>

definition merge_noise :: "test_result list \<Rightarrow> test_result \<Rightarrow> bool" where
  "merge_noise all r =
     (tr_status r = Skip \<and> re_test (Lit ''runs on \"'') (or_default (tr_detail r) []) \<and>
      list_ex (\<lambda>x. tr_id x = tr_id r \<and> tr_status x \<noteq> Skip) all)"

definition object_assign :: "'v obj list \<Rightarrow> 'v obj" where
  "object_assign ms = foldl (foldl (\<lambda>m (k, v). obj_put k v m)) [] ms"

datatype run_error = Err string

definition merge_artifacts :: "run_artifact list \<Rightarrow> run_error + run_artifact" where
  "merge_artifacts parts =
     (case parts of
        [] \<Rightarrow> Inl (Err ''no artifacts to merge'')
      | p # _ \<Rightarrow>
          let all = concat (map ra_results parts)
          in Inr \<lparr>ra_startedAt = hd (sort_by code_unit_cmp (map ra_startedAt parts)),
                  ra_finishedAt = last (sort_by code_unit_cmp (map ra_finishedAt parts)),
                  ra_where = ra_where p,
                  ra_region = ra_region p,
                  ra_projectRegion = Option.bind (find (\<lambda>q. truthy (ra_projectRegion q)) parts) ra_projectRegion,
                  ra_ref = or_default (map_option ra_ref (find (\<lambda>q. ra_ref q \<noteq> []) parts)) [],
                  ra_experiment = ra_experiment p,
                  ra_labCommit = ra_labCommit p,
                  ra_toolVersions = object_assign (map ra_toolVersions parts),
                  ra_results = filter (\<lambda>r. \<not> merge_noise all r) all\<rparr>)"

subsection \<open>One module\<close>

datatype module_value = OneR test_result | ManyR "test_result list"

text \<open>
  What happens to a module: how its call starts, the events of its race, the clock readings at
  its start (\<open>t0\<close> monotonic, \<open>w0\<close> wall) and when it was judged, and the monotonic reading when
  its \<open>i\<close>-th result is recorded.
\<close>

record module_io =
  io_start :: work_start
  io_events :: "module_value settle_event list"
  io_t0 :: rat
  io_w0 :: int
  io_t1 :: rat
  io_w1 :: int
  io_done :: "nat \<Rightarrow> rat"

definition io_suspended :: "module_io \<Rightarrow> int" where
  "io_suspended io = suspendedMs (io_w0 io) (io_w1 io) (io_t0 io) (io_t1 io)"

definition stamp_result :: "module_io \<Rightarrow> nat \<Rightarrow> test_result \<Rightarrow> test_result" where
  "stamp_result io i raw =
     (withHostSuspension raw (io_suspended io))\<lparr>tr_durationMs := Some (js_round (io_done io i - io_t0 io))\<rparr>"

definition outcome_results :: "test_module \<Rightarrow> module_io \<Rightarrow> module_value outcome \<Rightarrow> test_result list" where
  "outcome_results m io r =
     (case r of
        Settled v \<Rightarrow> (let arr = (case v of OneR x \<Rightarrow> [x] | ManyR xs \<Rightarrow> xs)
                      in map (\<lambda>(i, raw). stamp_result io i raw) (enumerate 0 arr))
      | Threw e \<Rightarrow> [stamp_result io 0 (mk_result (tm_id m) (tm_title m) Fail (''test threw: '' @ e))]
      | _ \<Rightarrow> [stamp_result io 0 (mk_result (tm_id m) (tm_title m) Fail (unsettledDetail r))])"

definition hung :: "'v outcome \<Rightarrow> bool" where
  "hung r = (case r of Settled v \<Rightarrow> False | Threw e \<Rightarrow> False | _ \<Rightarrow> True)"

record run_state =
  rs_results :: "test_result list"
  rs_unsettled :: "string list"
  rs_watch :: drain_watch

text \<open>One round of the loop over the planned modules; \<open>None\<close> while its race is undecided.\<close>

definition run_module :: "test_module \<Rightarrow> module_io \<Rightarrow> run_state \<Rightarrow> run_state option" where
  "run_module m io st =
     (case settleModule (io_start io) (rs_watch st) (tm_timeoutMs m) (io_events io) of
        None \<Rightarrow> None
      | Some (r, w, _) \<Rightarrow>
          Some \<lparr>rs_results = rs_results st @ outcome_results m io r,
                rs_unsettled = rs_unsettled st @ (if hung r then [tm_id m] else []),
                rs_watch = w\<rparr>)"

fun run_loop :: "(test_module \<times> module_io) list \<Rightarrow> run_state \<Rightarrow> run_state option" where
  "run_loop [] st = Some st"
| "run_loop ((m, io) # ms) st = Option.bind (run_module m io st) (run_loop ms)"

subsection \<open>The program\<close>

definition parse_where :: "string \<Rightarrow> where_t option" where
  "parse_where s = (if s = ''runner'' then Some Runner else if s = ''local'' then Some Local else None)"

text \<open>\<open>ctx.ts\<close>, \<open>readProjectRegion\<close>: \<open>call\<close> is the Management API, \<open>None\<close> when the call throws.\<close>

definition readProjectRegion :: "ctx \<Rightarrow> (string \<Rightarrow> (int \<times> json option) option) \<Rightarrow> string option" where
  "readProjectRegion c call =
     (if cx_ref c = [] \<or> \<not> truthy (cx_pat c) then None
      else case call (''/projects/'' @ cx_ref c) of
             None \<Rightarrow> None
           | Some (st, body) \<Rightarrow>
               if st \<noteq> 200 then None
               else (case Option.bind body (jget ''region'') of
                       Some (JStr r) \<Rightarrow> if r \<noteq> [] then Some r else None
                     | _ \<Rightarrow> None))"

record world =
  wo_argv :: "string list"
  wo_host :: host
  wo_readArtifact :: "string \<Rightarrow> run_artifact option"
  wo_generated :: "test_module list option"
  wo_files :: "string list"
  wo_import :: "string \<Rightarrow> test_module option"
  wo_call :: "string \<Rightarrow> (int \<times> json option) option"
  wo_io :: "nat \<Rightarrow> module_io"
  wo_startedAt :: string
  wo_finishedAt :: string
  wo_labCommit :: "string option"
  wo_toolVersions :: "string obj"

datatype run_output =
    WriteArtifact string run_artifact
  | WriteText string string
  | PrintText string

text \<open>The exit code and what was written; \<open>Pending\<close> while a module's race is undecided.\<close>

datatype main_end = Exit nat "run_output list" | Pending

fun read_all :: "(string \<Rightarrow> 'a option) \<Rightarrow> string list \<Rightarrow> 'a list option" where
  "read_all rd [] = Some []"
| "read_all rd (f # fs) =
     (case rd f of None \<Rightarrow> None | Some a \<Rightarrow> map_option (\<lambda>as. a # as) (read_all rd fs))"

definition mergeMode :: "world \<Rightarrow> string list \<Rightarrow> string \<Rightarrow> main_end" where
  "mergeMode w files outDir =
     (case read_all (wo_readArtifact w) files of
        None \<Rightarrow> Exit 1 []
      | Some parts \<Rightarrow> (case merge_artifacts parts of
            Inl _ \<Rightarrow> Exit 1 []
          | Inr merged \<Rightarrow> Exit 0 [WriteArtifact (outDir @ ''/merged.json'') merged,
                                  WriteText (outDir @ ''/REPORT.md'') (renderMarkdown merged)]))"

definition diffMode :: "world \<Rightarrow> string list \<Rightarrow> string \<Rightarrow> main_end" where
  "diffMode w files outDir =
     (case files of
        [p, c] \<Rightarrow> (case (wo_readArtifact w p, wo_readArtifact w c) of
            (Some prev, Some cur) \<Rightarrow>
              (let md = renderDiffMarkdown (diffArtifacts prev cur)
               in Exit 0 [WriteText (outDir @ ''/diff.md'') md, PrintText md])
          | _ \<Rightarrow> Exit 1 [])
      | _ \<Rightarrow> Exit 1 [])"

definition factsMode :: "world \<Rightarrow> string \<Rightarrow> main_end" where
  "factsMode w file =
     (case wo_readArtifact w file of
        None \<Rightarrow> Exit 1 []
      | Some a \<Rightarrow>
          Exit 0 [PrintText (renderFacts a
            \<lparr>fo_only = map_option comma_list (arg (wo_argv w) ''only'' None), fo_detail = None\<rparr>)])"

text \<open>\<open>startedAt.replace(/[:.]/g, "-")\<close>\<close>

definition file_stamp :: "string \<Rightarrow> string" where
  "file_stamp s = replace_all (Cls (\<lambda>c. c = CHR '':'' \<or> c = CHR ''.'')) (\<lambda>_. ''-'') s"

definition run_options :: "world \<Rightarrow> where_t \<Rightarrow> ctx \<Rightarrow> plan_options" where
  "run_options w wh c =
     \<lparr>po_where = wh, po_capabilities = cx_capabilities c,
      po_only = map_option comma_list (arg (wo_argv w) ''only'' None),
      po_experiment = orElse (arg (wo_argv w) ''experiment'' None) (env_get (ho_env (wo_host w)) ''PVLAB_EXPERIMENT''),
      po_allowDestructive = Some (flag (wo_argv w) ''destructive'')\<rparr>"

definition ctx_of :: "world \<Rightarrow> where_t \<Rightarrow> ctx" where
  "ctx_of w wh =
     buildCtx (wo_host w)
       \<lparr>ci_where = wh, ci_ref = None, ci_phzHost = None, ci_dbPassword = None, ci_anonKey = None,
        ci_serviceKey = None, ci_pat = None, ci_region = None, ci_endpointIps = None, ci_peers = None,
        ci_orgSlugs = None, ci_endpoints = None, ci_mgmtBase = None, ci_apiHostSuffix = None\<rparr>"

definition plan_of :: "(string \<Rightarrow> string \<Rightarrow> int) \<Rightarrow> world \<Rightarrow> where_t \<Rightarrow> plan" where
  "plan_of lc w wh =
     planRun lc (loadTests (wo_generated w) (wo_files w) (wo_import w)) (run_options w wh (ctx_of w wh))"

definition with_io :: "world \<Rightarrow> test_module list \<Rightarrow> (test_module \<times> module_io) list" where
  "with_io w ms = map (\<lambda>(i, m). (m, wo_io w i)) (enumerate 0 ms)"

text \<open>The exit code: 2 if a module never settled, 1 if the loop drained outside any module.\<close>

definition exit_code :: "run_state \<Rightarrow> nat" where
  "exit_code st = (if rs_unsettled st \<noteq> [] then 2 else if dw_idle (rs_watch st) > 0 then 1 else 0)"

definition artifact_of :: "world \<Rightarrow> where_t \<Rightarrow> test_result list \<Rightarrow> run_artifact" where
  "artifact_of w wh results =
     (let c = ctx_of w wh
      in \<lparr>ra_startedAt = wo_startedAt w, ra_finishedAt = wo_finishedAt w, ra_where = wh,
          ra_region = cx_region c, ra_projectRegion = readProjectRegion c (wo_call w), ra_ref = cx_ref c,
          ra_experiment = po_experiment (run_options w wh c), ra_labCommit = wo_labCommit w,
          ra_toolVersions = wo_toolVersions w, ra_results = results\<rparr>)"

definition runMode :: "(string \<Rightarrow> string \<Rightarrow> int) \<Rightarrow> world \<Rightarrow> where_t \<Rightarrow> string \<Rightarrow> main_end" where
  "runMode lc w wh outDir =
     (let p = plan_of lc w wh
      in case run_loop (with_io w (pl_run p))
                \<lparr>rs_results = pl_skipped p, rs_unsettled = [], rs_watch = createDrainWatch\<rparr> of
           None \<Rightarrow> Pending
         | Some st \<Rightarrow>
             (let a = artifact_of w wh (rs_results st);
                  base = outDir @ ''/run-'' @ file_stamp (wo_startedAt w)
              in Exit (exit_code st)
                   [WriteArtifact (base @ ''.json'') a, WriteText (base @ ''.md'') (renderMarkdown a)]))"

definition pad_end :: "nat \<Rightarrow> string \<Rightarrow> string" where
  "pad_end n s = s @ replicate (n - length s) (CHR '' '')"

definition list_line :: "test_module \<Rightarrow> string" where
  "list_line m =
     (let caps_text = join '','' (map cap_str (or_default (tm_requires m) []))
      in ''  '' @ pad_end 6 (tm_id m) @ '' '' @ pad_end 6 (where_str (tm_where m)) @ '' '' @
         (if is_destructive m then ''destructive '' else ''            '') @
         (if caps_text = [] then ''-'' else caps_text) @ ''  '' @ tm_title m)"

definition listMode :: "(string \<Rightarrow> string \<Rightarrow> int) \<Rightarrow> test_module list \<Rightarrow> main_end" where
  "listMode lc ms =
     Exit 0 (PrintText (''registered tests ('' @ show_nat (length ms) @ ''):'') #
             map (\<lambda>m. PrintText (list_line m)) (sort_by (\<lambda>a b. lc (tm_id a) (tm_id b)) ms))"

text \<open>
  \<open>main\<close>: an empty \<open>--merge\<close>, \<open>--diff\<close> or \<open>--facts\<close> value is falsy, and the modes are tried in
  that order. \<open>--where\<close> is one of the two vantages of its type; \<open>None\<close> for another string.
\<close>

definition main :: "(string \<Rightarrow> string \<Rightarrow> int) \<Rightarrow> world \<Rightarrow> main_end option" where
  "main lc w =
     (let a = arg (wo_argv w); outDir = or_default (a ''out'' (Some ''./out'')) ''undefined''
      in if truthy (a ''merge'' None) then Some (mergeMode w (comma_list (the (a ''merge'' None))) outDir)
         else if truthy (a ''diff'' None) then Some (diffMode w (comma_list (the (a ''diff'' None))) outDir)
         else if truthy (a ''facts'' None) then Some (factsMode w (the (a ''facts'' None)))
         else case parse_where (or_default (a ''where'' (Some ''runner'')) ''runner'') of
                None \<Rightarrow> None
              | Some wh \<Rightarrow>
                  Some (if flag (wo_argv w) ''list''
                        then listMode lc (loadTests (wo_generated w) (wo_files w) (wo_import w))
                        else runMode lc w wh outDir))"

subsection \<open>The loop over the modules\<close>

lemma race_ends:
  assumes "\<exists>u \<in> set es. (\<exists>v. u = EvValue v) \<or> (\<exists>e. u = EvError e) \<or> (u = EvTimeout \<and> has_timeout t)"
  shows "race g t w es \<noteq> None"
  using assms by (induction g t w es rule: race.induct) (auto simp: Let_def split: if_splits)

definition settles :: "test_module \<times> module_io \<Rightarrow> bool" where
  "settles x \<longleftrightarrow>
     (\<exists>e. io_start (snd x) = SyncThrow e) \<or>
     (\<exists>u \<in> set (io_events (snd x)). (\<exists>v. u = EvValue v) \<or> (\<exists>e. u = EvError e) \<or>
        (u = EvTimeout \<and> has_timeout (tm_timeoutMs (fst x))))"

lemma settleModule_ends:
  assumes "settles (m, io)"
  shows "settleModule (io_start io) w (tm_timeoutMs m) (io_events io) \<noteq> None"
proof (cases "io_start io")
  case (SyncThrow e)
  then show ?thesis by (simp add: settleModule_def)
next
  case Started
  with assms have "race g (tm_timeoutMs m) w' (io_events io) \<noteq> None" for g w'
    by (intro race_ends) (simp add: settles_def)
  with Started show ?thesis by (simp add: settleModule_def split: prod.splits)
qed

text \<open>The judgement of each module, in order, as the watch passes from one to the next.\<close>

fun judged :: "drain_watch \<Rightarrow> (test_module \<times> module_io) list \<Rightarrow> module_value outcome list \<Rightarrow> bool" where
  "judged w [] rs = (rs = [])"
| "judged w ((m, io) # ms) rs =
     (\<exists>r rs' w' es. rs = r # rs' \<and>
        settleModule (io_start io) w (tm_timeoutMs m) (io_events io) = Some (r, w', es) \<and> judged w' ms rs')"

definition record_of :: "test_module \<times> module_io \<Rightarrow> module_value outcome \<Rightarrow> test_result list" where
  "record_of x r = outcome_results (fst x) (snd x) r"

definition hung_id :: "test_module \<times> module_io \<Rightarrow> module_value outcome \<Rightarrow> string list" where
  "hung_id x r = (if hung r then [tm_id (fst x)] else [])"

lemma run_loop_judged:
  "run_loop ms st = Some st' \<Longrightarrow>
   \<exists>rs. judged (rs_watch st) ms rs \<and> length rs = length ms \<and>
     rs_results st' = rs_results st @ concat (map2 record_of ms rs) \<and>
     rs_unsettled st' = rs_unsettled st @ concat (map2 hung_id ms rs)"
proof (induction ms arbitrary: st)
  case Nil
  then show ?case by simp
next
  case (Cons x ms)
  obtain m io where x: "x = (m, io)" by (cases x)
  with Cons.prems obtain st1 where st1: "run_module m io st = Some st1" "run_loop ms st1 = Some st'"
    by (auto simp: bind_eq_Some_conv)
  then obtain r w es where r: "settleModule (io_start io) (rs_watch st) (tm_timeoutMs m) (io_events io) = Some (r, w, es)"
    by (auto simp: run_module_def split: option.splits)
  with st1(1) have s: "rs_results st1 = rs_results st @ record_of x r"
      "rs_unsettled st1 = rs_unsettled st @ hung_id x r" "rs_watch st1 = w"
    by (auto simp: run_module_def record_of_def hung_id_def x)
  from Cons.IH [OF st1(2)] obtain rs where "judged w ms rs" "length rs = length ms"
      "rs_results st' = rs_results st1 @ concat (map2 record_of ms rs)"
      "rs_unsettled st' = rs_unsettled st1 @ concat (map2 hung_id ms rs)" using s(3) by auto
  then show ?case using r s x by (intro exI [of _ "r # rs"]) auto
qed

lemma run_loop_ends: "list_all settles ms \<Longrightarrow> \<exists>st'. run_loop ms st = Some st'"
proof (induction ms arbitrary: st)
  case Nil
  then show ?case by simp
next
  case (Cons x ms)
  obtain m io where x: "x = (m, io)" by (cases x)
  then have "run_module m io st \<noteq> None"
    using settleModule_ends [of m io "rs_watch st"] Cons.prems by (auto simp: run_module_def split: option.splits)
  then obtain st1 where "run_module m io st = Some st1" by auto
  with Cons x show ?case by simp
qed

lemma hung_recorded:
  "hung r \<Longrightarrow> \<exists>t. record_of (m, io) r = [t] \<and> tr_id t = tm_id m \<and> tr_status t = Fail"
  by (cases r) (auto simp: hung_def record_of_def outcome_results_def stamp_result_def)

lemma hung_ids_empty:
  "length xs = length rs \<Longrightarrow> concat (map2 hung_id xs rs) = [] \<longleftrightarrow> (\<forall>r \<in> set rs. \<not> hung r)"
  by (induction xs rs rule: list_induct2) (auto simp: hung_id_def)



text \<open>The offline modes need nothing but the command line and the artifacts it names: with a
  \<open>--merge\<close>, \<open>--diff\<close> or \<open>--facts\<close> argument the program does the same in any environment, with any
  credentials, tests, network and modules.\<close>

lemma offline_modes:
  assumes "\<exists>k \<in> {''merge'', ''diff'', ''facts''}. truthy (arg (wo_argv w) k None)"
    and "wo_argv w' = wo_argv w" and "wo_readArtifact w' = wo_readArtifact w"
  shows "main lc w' = main lc w"
proof -
  have "mergeMode w' = mergeMode w" "diffMode w' = diffMode w" "factsMode w' = factsMode w"
    unfolding fun_eq_iff mergeMode_def diffMode_def factsMode_def assms(2,3) by simp_all
  with assms(1,2) show ?thesis by (auto simp: main_def Let_def)
qed

definition sample_io :: module_io where
  "sample_io =
     \<lparr>io_start = Started, io_events = [EvWake 3, EvError ''boom''], io_t0 = 0, io_w0 = 0, io_t1 = 5,
      io_w1 = 5, io_done = (\<lambda>_. 5)\<rparr>"

definition sample_world :: world where
  "sample_world =
     \<lparr>wo_argv = [''--merge'', ''a.json''],
      wo_host = \<lparr>ho_env = [], ho_envFile = None, ho_has = (\<lambda>_. False), ho_dig = (\<lambda>_. [])\<rparr>,
      wo_readArtifact = (\<lambda>_. Some sample_artifact), wo_generated = Some sample_modules, wo_files = [],
      wo_import = (\<lambda>_. None), wo_call = (\<lambda>_. None), wo_io = (\<lambda>_. sample_io),
      wo_startedAt = ''2026-09-02T10:00:00.000Z'', wo_finishedAt = ''2026-09-02T10:05:00.000Z'',
      wo_labCommit = None, wo_toolVersions = []\<rparr>"

lemma sample_settles: "list_all settles (with_io sample_world ms)"
  by (auto simp: list_all_iff with_io_def sample_world_def settles_def sample_io_def)



subsection \<open>Merging loses no test\<close>

lemma merge_Inr:
  "merge_artifacts ps = Inr m \<Longrightarrow>
   ps \<noteq> [] \<and> ra_results m = filter (\<lambda>r. \<not> merge_noise (concat (map ra_results ps)) r) (concat (map ra_results ps)) \<and>
   ra_startedAt m = hd (sort (map ra_startedAt ps)) \<and> ra_finishedAt m = last (sort (map ra_finishedAt ps))"
  by (auto simp: merge_artifacts_def sort_by_code_unit Let_def split: list.splits)

lemma noise_covered:
  "merge_noise all r \<Longrightarrow> \<exists>x \<in> set all. tr_id x = tr_id r \<and> tr_status x \<noteq> Skip \<and> \<not> merge_noise all x"
  by (auto simp: merge_noise_def list_ex_iff)

lemma hd_sort_le: "x \<in> set xs \<Longrightarrow> hd (sort xs) \<in> set xs \<and> hd (sort xs) \<le> (x :: string)"
  by (metis length_pos_if_in_set list.exhaust list.sel(1) list.size(3) not_less_zero set_ConsD set_sort
      sorted_simps(2) list.set_intros(1) order_refl sorted_sort)

lemma last_sort_ge: "x \<in> set xs \<Longrightarrow> last (sort xs) \<in> set xs \<and> (x :: string) \<le> last (sort xs)"
proof -
  assume x: "x \<in> set xs"
  then have ne: "sort xs \<noteq> []" by (metis empty_iff empty_set set_sort)
  obtain ys where ys: "sort xs = ys @ [last (sort xs)]" using ne by (metis append_butlast_last_id)
  have "sorted (ys @ [last (sort xs)])" using ys sorted_sort by metis
  moreover have "x \<in> set (ys @ [last (sort xs)])" using ys x by (metis set_sort)
  ultimately have "x \<le> last (sort xs)" by (auto simp: sorted_append)
  moreover have "last (sort xs) \<in> set xs" using ne by (metis last_in_set set_sort)
  ultimately show ?thesis by blast
qed

text \<open>Merging drops only vantage skips of tests that another vantage ran: the merged artifact has a
  result for exactly the tests the parts have one for, keeps every result that is not a skip, keeps the
  order, and spans the time from the first start to the last finish.\<close>

lemma merge_keeps:
  assumes "merge_artifacts ps = Inr m"
  shows "tr_id ` set (ra_results m) = tr_id ` (\<Union>p \<in> set ps. set (ra_results p)) \<and>
    filter (\<lambda>r. tr_status r \<noteq> Skip) (ra_results m) = filter (\<lambda>r. tr_status r \<noteq> Skip) (concat (map ra_results ps)) \<and>
    (\<forall>p \<in> set ps. ra_startedAt m \<le> ra_startedAt p \<and> ra_finishedAt p \<le> ra_finishedAt m)"
proof -
  let ?all = "concat (map ra_results ps)"
  note m = merge_Inr [OF assms]
  have "tr_id ` set (ra_results m) = tr_id ` set ?all"
  proof
    show "tr_id ` set (ra_results m) \<subseteq> tr_id ` set ?all" using m by auto
    show "tr_id ` set ?all \<subseteq> tr_id ` set (ra_results m)"
    proof
      fix i
      assume "i \<in> tr_id ` set ?all"
      then obtain r where r: "r \<in> set ?all" "i = tr_id r" by auto
      then have "\<exists>x \<in> set ?all. \<not> merge_noise ?all x \<and> tr_id x = i"
        using noise_covered [of ?all r] by (cases "merge_noise ?all r") auto
      with m show "i \<in> tr_id ` set (ra_results m)" by auto
    qed
  qed
  moreover have "filter (\<lambda>r. tr_status r \<noteq> Skip) (ra_results m) = filter (\<lambda>r. tr_status r \<noteq> Skip) ?all"
    using m by (auto simp: merge_noise_def intro: filter_cong)
  moreover have "ra_startedAt m \<le> ra_startedAt p \<and> ra_finishedAt p \<le> ra_finishedAt m" if "p \<in> set ps" for p
    using m that hd_sort_le [of "ra_startedAt p" "map ra_startedAt ps"]
      last_sort_ge [of "ra_finishedAt p" "map ra_finishedAt ps"] by simp
  ultimately show ?thesis by simp
qed

text \<open>A skip of the runner that the other vantage ran, and that result.\<close>

definition skipped_part :: run_artifact where
  "skipped_part =
     sample_artifact\<lparr>ra_results := [mk_result ''EF05a'' ''t'' Skip ''runs on \"local\", this process is \"runner\"'']\<rparr>"

end
