(* ===== verification/Dates.thy ===== *)
theory Dates
  imports RegExp
begin

text \<open>
  \<open>Date.parse\<close> on the ISO 8601 forms the source reads (\<open>2026-09-10\<close>, \<open>2026-09-10T01:02:03Z\<close>,
  with an optional fraction of a second and \<open>Z\<close> or an offset): milliseconds since 1970, \<open>None\<close> for
  \<open>NaN\<close>; other forms, which JavaScript leaves to the implementation, count as unreadable. Days are counted in the proleptic Gregorian calendar, years from March.
\<close>

definition year_days :: "int \<Rightarrow> int" where
  "year_days y = 365 * y + y div 4 - y div 100 + y div 400"

definition days_from_civil :: "int \<Rightarrow> int \<Rightarrow> int \<Rightarrow> int" where
  "days_from_civil y m d =
     (let y' = (if m \<le> 2 then y - 1 else y);
          m' = (m + 9) mod 12;
          doy = (153 * m' + 2) div 5 + d - 1
      in year_days y' + doy - 719468)"

definition leap :: "int \<Rightarrow> bool" where
  "leap y = (y mod 4 = 0 \<and> (y mod 100 \<noteq> 0 \<or> y mod 400 = 0))"

definition month_days :: "int \<Rightarrow> int \<Rightarrow> int" where
  "month_days y m =
     (if m = 2 then (if leap y then 29 else 28) else if m \<in> {4, 6, 9, 11} then 30 else 31)"

definition iso_re :: re where
  "iso_re =
     (let d2 = Rep 2 (Cls is_digit)
      in Seqs [Bol, Grp 1 (Rep 4 (Cls is_digit)), Lit ''-'', Grp 2 d2, Lit ''-'', Grp 3 d2,
           Opt (Seqs [Lit ''T'', Grp 4 d2, Lit '':'', Grp 5 d2,
             Opt (Seqs [Lit '':'', Grp 6 d2, Opt (Seq (Lit ''.'') (Grp 7 (Plus (Cls is_digit))))]),
             Alt (Lit ''Z'') (Seqs [Grp 8 (Cls (\<lambda>c. c = CHR ''+'' \<or> c = CHR ''-'')), Grp 9 d2, Lit '':'', Grp 10 d2])]),
           Eol])"

definition num_group :: "nat \<Rightarrow> pos \<times> pos \<Rightarrow> int" where
  "num_group k m = (case group k m of None \<Rightarrow> 0 | Some s \<Rightarrow> int (read_nat s))"

text \<open>The fraction of a second, in whole milliseconds.\<close>

definition frac_ms :: "string option \<Rightarrow> int" where
  "frac_ms f = (case f of None \<Rightarrow> 0 | Some s \<Rightarrow> int (read_nat (take 3 (s @ ''000''))))"

definition date_parse :: "string \<Rightarrow> int option" where
  "date_parse s =
     (case re_exec iso_re s of
        None \<Rightarrow> None
      | Some m \<Rightarrow>
          let y = num_group 1 m; mo = num_group 2 m; d = num_group 3 m;
              hh = num_group 4 m; mi = num_group 5 m; ss = num_group 6 m;
              off = (num_group 9 m * 60 + num_group 10 m) * (if group 8 m = Some ''-'' then -1 else 1)
          in if 1 \<le> mo \<and> mo \<le> 12 \<and> 1 \<le> d \<and> d \<le> month_days y mo \<and> hh \<le> 23 \<and> mi \<le> 59 \<and> ss \<le> 59
             then Some ((((days_from_civil y mo d * 24 + hh) * 60 + mi - off) * 60 + ss) * 1000 + frac_ms (group 7 m))
             else None)"

text \<open>The day number advances by one from each day to the next.\<close>

lemma days_next_day: "days_from_civil y m (d + 1) = days_from_civil y m d + 1"
  by (simp add: days_from_civil_def Let_def)

lemma div_pred:
  assumes "(0 :: int) < k"
  shows "y div k = (y - 1) div k + (if y mod k = 0 then 1 else 0)"
proof (cases "y mod k = 0")
  case True
  have "y - 1 = k * (y div k - 1) + (k - 1)" using True mult_div_mod_eq [of k y] by (simp add: algebra_simps)
  from int_div_pos_eq [OF this] assms have "(y - 1) div k = y div k - 1" by simp
  with True show ?thesis by simp
next
  case False
  have r: "0 \<le> y mod k" "y mod k < k" using assms by simp_all
  with False have "0 \<le> y mod k - 1" "y mod k - 1 < k" by linarith+
  moreover have "y - 1 = k * (y div k) + (y mod k - 1)" using mult_div_mod_eq [of k y] by simp
  ultimately have "(y - 1) div k = y div k" by (rule int_div_pos_eq [rotated])
  with False show ?thesis by simp
qed

lemma leap_step:
  "year_days y = year_days (y - 1) + 365 + (if leap y then 1 else 0)"
proof -
  have i: "y mod 400 = 0 \<Longrightarrow> y mod 100 = 0" "y mod 100 = 0 \<Longrightarrow> y mod 4 = 0"
    using dvd_trans [of 100 400 y] dvd_trans [of 4 100 y] by (simp_all add: mod_eq_0_iff_dvd)
  have ar: "365 * y + a - b + c = 365 * (y - 1) + a' - b' + c' + 365 + (if P \<and> (\<not> Q \<or> R) then 1 else 0)"
    if "a = a' + (if P then 1 else 0)" "b = b' + (if Q then 1 else 0)" "c = c' + (if R then 1 else 0)"
       "R \<Longrightarrow> Q" "Q \<Longrightarrow> P" for a b c a' b' c' :: int and P Q R
    unfolding that(1-3) using that(4,5) by (cases P; cases Q; cases R) (simp_all only: if_True if_False simp_thms, simp_all)
  show ?thesis unfolding leap_def year_days_def
    by (rule ar [OF div_pred div_pred div_pred i]) simp_all
qed

lemma days_next_month:
  assumes "1 \<le> m" "m < 12"
  shows "days_from_civil y (m + 1) 1 = days_from_civil y m (month_days y m) + 1"
proof -
  have c: "m \<in> {1, 2, 3, 4, 5, 6, 7, 8, 9, 10, 11}"
    using assms by (simp only: insert_iff empty_iff) presburger
  show ?thesis
  proof (cases "m = 2")
    case True
    then show ?thesis using leap_step [of y] by (simp add: days_from_civil_def month_days_def Let_def)
  next
    case False
    with c show ?thesis by (elim insertE emptyE) (simp_all add: days_from_civil_def month_days_def Let_def)
  qed
qed

lemma days_next_year: "days_from_civil (y + 1) 1 1 = days_from_civil y 12 31 + 1"
  by (simp add: days_from_civil_def)

lemma days_epoch: "days_from_civil 1970 1 1 = 0"
  by (simp add: days_from_civil_def year_days_def Let_def)

end
