(* ===== verification/Gate.thy ===== *)
theory Gate
  imports Dates
begin

text \<open>
  \<open>experiments/lifecycle-ops/lib/gate.ts\<close>: may a lifecycle operation be sent to a region now,
  according to the status page? What the page answers is an argument. A lookup in a plain object
  also finds the members every object inherits, so a status such as \<open>constructor\<close> has a rank that
  is not a number: it compares false with everything.
\<close>

datatype op = Create | Restart | Resize | Upgrade

record status_component =
  sc_id :: string
  sc_name :: string
  sc_status :: string

record incident_update =
  iu_body :: string
  iu_status :: string
  iu_created_at :: string

record status_incident =
  si_id :: string
  si_name :: string
  si_status :: string
  si_impact :: string
  si_created_at :: string
  si_resolved_at :: "string option"
  si_updates :: "incident_update list option"

definition REGIONS :: "string list" where
  "REGIONS =
     [''ap-east-1'', ''ap-northeast-1'', ''ap-northeast-2'', ''ap-south-1'', ''ap-southeast-1'',
      ''ap-southeast-2'', ''ca-central-1'', ''eu-central-1'', ''eu-central-2'', ''eu-north-1'',
      ''eu-west-1'', ''eu-west-2'', ''eu-west-3'', ''sa-east-1'', ''us-east-1'', ''us-east-2'',
      ''us-west-1'', ''us-west-2'']"

text \<open>\<open>/\bw\b/i\<close>, and \<open>/\bn\.? ?w\b/i\<close>\<close>

definition word_i :: "string \<Rightarrow> re" where
  "word_i w = Seqs [WordB, LitI w, WordB]"

definition north_i :: "string \<Rightarrow> re" where
  "north_i w = Seqs [WordB, LitI ''n'', Opt (Lit ''.''), Opt (Lit '' ''), LitI w, WordB]"

definition ALIASES :: "re list obj" where
  "ALIASES =
     [(''eu-west-1'', [word_i ''ireland'']),
      (''us-east-1'', [north_i ''virginia'', word_i ''eastern us'']),
      (''us-west-1'', [north_i ''california'']),
      (''ap-southeast-1'', [word_i ''singapore'']),
      (''eu-central-1'', [word_i ''frankfurt''])]"

definition SEVERITY :: "int obj" where
  "SEVERITY =
     [(''operational'', 0), (''under_maintenance'', 1), (''degraded_performance'', 2),
      (''partial_outage'', 3), (''major_outage'', 4)]"

text \<open>The members of \<open>Object.prototype\<close>.\<close>

definition proto_keys :: "string list" where
  "proto_keys =
     [''constructor'', ''__defineGetter__'', ''__defineSetter__'', ''hasOwnProperty'', ''__lookupGetter__'',
      ''__lookupSetter__'', ''isPrototypeOf'', ''propertyIsEnumerable'', ''toString'', ''valueOf'',
      ''__proto__'', ''toLocaleString'']"

text \<open>\<open>SEVERITY[status] ?? 5\<close>; \<open>None\<close> for a value that is not a number.\<close>

definition rank :: "string \<Rightarrow> int option" where
  "rank s =
     (case obj_get SEVERITY s of
        Some n \<Rightarrow> Some n
      | None \<Rightarrow> if s \<in> set proto_keys then None else Some 5)"

definition num_gt :: "int option \<Rightarrow> int option \<Rightarrow> bool" where
  "num_gt a b = (case (a, b) of (Some x, Some y) \<Rightarrow> x > y | _ \<Rightarrow> False)"

record region_status =
  rg_status :: string
  rg_matched :: nat
  rg_statuses :: "string list"

definition worst_of :: "string list \<Rightarrow> string" where
  "worst_of ss = foldl (\<lambda>worst s. if num_gt (rank s) (rank worst) then s else worst) ''operational'' ss"

definition regionStatus :: "status_component list \<Rightarrow> string \<Rightarrow> region_status" where
  "regionStatus components region =
     (let same = filter (\<lambda>c. sc_name c = region) components
      in if same = [] then \<lparr>rg_status = ''missing'', rg_matched = 0, rg_statuses = []\<rparr>
         else \<lparr>rg_status = worst_of (map sc_status same), rg_matched = length same,
               rg_statuses = uniq (map sc_status same)\<rparr>)"

datatype scope = RegionsS | BodyRegionsS | AllRegionsS | UnscopedS

text \<open>\<open>/\b(all|multiple|several|many) regions\b|\bglobal(ly)?\b/i\<close>\<close>

definition ALL_REGIONS_RE :: re where
  "ALL_REGIONS_RE =
     Alt (Seqs [WordB, Grp 1 (Alts [LitI ''all'', LitI ''multiple'', LitI ''several'', LitI ''many'']),
                LitI '' regions'', WordB])
         (Seqs [WordB, LitI ''global'', Opt (Grp 2 (LitI ''ly'')), WordB])"

definition incidentText :: "status_incident \<Rightarrow> string" where
  "incidentText inc =
     join nl (si_name inc # map iu_body (case si_updates inc of None \<Rightarrow> [] | Some us \<Rightarrow> us))"

text \<open>The region code with each hyphen read as a hyphen or a space, as a word, in either case.\<close>

definition spaced :: "string \<Rightarrow> re" where
  "spaced r =
     Seqs ([WordB] @ map (\<lambda>c. if c = CHR ''-'' then Cls (\<lambda>x. x = CHR ''-'' \<or> x = CHR '' '') else Cls (same_ci c)) r @
           [WordB])"

definition regionsIn :: "string \<Rightarrow> string list" where
  "regionsIn t =
     filter (\<lambda>r. re_test (spaced r) t \<or>
        list_ex (\<lambda>q. re_test q t) (case obj_get ALIASES r of None \<Rightarrow> [] | Some qs \<Rightarrow> qs)) REGIONS"

definition incidentRegions :: "status_incident \<Rightarrow> scope \<times> string list" where
  "incidentRegions inc =
     (let inTitle = regionsIn (si_name inc)
      in if re_test ALL_REGIONS_RE (si_name inc) then (AllRegionsS, inTitle)
         else if inTitle \<noteq> [] then (RegionsS, inTitle)
         else let inBody = regionsIn (incidentText inc)
              in if inBody \<noteq> [] then (BodyRegionsS, inBody) else (UnscopedS, []))"

fun LIFECYCLE_RE :: "op \<Rightarrow> re" where
  "LIFECYCLE_RE Create =
     Alts (map LitI [''creat'', ''provision'', ''lifecycle'', ''management api'', ''project operation'', ''capacity''])"
| "LIFECYCLE_RE Restart =
     Alts (map LitI [''restart'', ''lifecycle'', ''management api'', ''project operation'', ''unresponsive'', ''capacity''])"
| "LIFECYCLE_RE Resize =
     Alts (map LitI [''resiz'', ''disk'', ''compute'', ''lifecycle'', ''management api'', ''project operation'', ''capacity''])"
| "LIFECYCLE_RE Upgrade =
     Alts (map LitI [''upgrad'', ''lifecycle'', ''management api'', ''project operation'', ''capacity''])"

definition isOpen :: "status_incident \<Rightarrow> bool" where
  "isOpen inc = (si_status inc \<notin> set [''resolved'', ''completed'', ''postmortem''])"

record decision =
  de_proceed :: bool
  de_region :: string
  de_op :: op
  de_regionStatus :: string
  de_matched :: nat
  de_blockers :: "string list"
  de_warnings :: "string list"

record policy =
  pc_blockUnscopedLifecycle :: bool
  pc_blockOnMissingRegion :: bool

definition DEFAULT_POLICY :: policy where
  "DEFAULT_POLICY = \<lparr>pc_blockUnscopedLifecycle = True, pc_blockOnMissingRegion = True\<rparr>"

definition incident_tag :: "status_incident \<Rightarrow> string" where
  "incident_tag inc =
     si_id inc @ '' \"'' @ si_name inc @ ''\" ('' @ si_status inc @ '', impact '' @ si_impact inc @ '')''"

type_synonym verdicts = "string list \<times> string list"

definition block :: "string \<Rightarrow> verdicts \<Rightarrow> verdicts" where
  "block s v = (fst v @ [s], snd v)"

definition warn :: "string \<Rightarrow> verdicts \<Rightarrow> verdicts" where
  "warn s v = (fst v, snd v @ [s])"

text \<open>One open incident: a blocker or a warning.\<close>

definition decide_incident :: "policy \<Rightarrow> string \<Rightarrow> op \<Rightarrow> verdicts \<Rightarrow> status_incident \<Rightarrow> verdicts" where
  "decide_incident pol region opn v inc =
     (let sc = fst (incidentRegions inc); regions = snd (incidentRegions inc);
          lifecycle = re_test (LIFECYCLE_RE opn) (incidentText inc);
          tag = incident_tag inc
      in if sc = AllRegionsS then block (''open, all regions: '' @ tag) v
         else if sc = RegionsS \<and> region \<in> set regions then block (''open, names '' @ region @ '': '' @ tag) v
         else if sc = BodyRegionsS \<and> region \<in> set regions
         then (if lifecycle then block else warn)
                (''open, '' @ region @ '' in update text'' @
                 (if lifecycle then '' with lifecycle wording'' else '' only'') @ '': '' @ tag) v
         else if sc = RegionsS \<or> sc = BodyRegionsS
         then warn (''open, other region(s) '' @ join '','' regions @ '': '' @ tag) v
         else if lifecycle
         then (if pc_blockUnscopedLifecycle pol then block else warn) (''open, no region, lifecycle wording: '' @ tag) v
         else warn (''open, no region, not lifecycle: '' @ tag) v)"

definition decide :: "string \<Rightarrow> op \<Rightarrow> status_component list \<Rightarrow> status_incident list \<Rightarrow> policy \<Rightarrow> decision" where
  "decide region opn components incidents pol =
     (let rs = regionStatus components region;
          v0 = (if rg_status rs = ''missing''
                then (if pc_blockOnMissingRegion pol then block else warn) (''no component named '' @ region) ([], [])
                else if rg_status rs \<noteq> ''operational''
                then block (''component status '' @ rg_status rs @ '' ('' @ show_nat (rg_matched rs) @
                        '' components named '' @ region @ '')'') ([], [])
                else ([], []));
          v = foldl (decide_incident pol region opn) v0 (filter isOpen incidents)
      in \<lparr>de_proceed = (fst v = []), de_region = region, de_op = opn, de_regionStatus = rg_status rs,
          de_matched = rg_matched rs, de_blockers = fst v, de_warnings = snd v\<rparr>)"

datatype replay = NoBlock | BadInterval | Interval int int

text \<open>\<open>Date.parse(inc.resolved_at ?? "") || Date.now()\<close>: no date and the epoch are falsy.\<close>

definition replayInterval :: "int \<Rightarrow> status_incident \<Rightarrow> string \<Rightarrow> op \<Rightarrow> policy \<Rightarrow> replay" where
  "replayInterval now_ms inc region opn pol =
     (let sc = fst (incidentRegions inc); regions = snd (incidentRegions inc);
          lifecycle = re_test (LIFECYCLE_RE opn) (incidentText inc);
          blocks = (sc = AllRegionsS \<or> (sc = RegionsS \<and> region \<in> set regions) \<or>
                    (sc = BodyRegionsS \<and> region \<in> set regions \<and> lifecycle) \<or>
                    (sc = UnscopedS \<and> lifecycle \<and> pc_blockUnscopedLifecycle pol))
      in if \<not> blocks then NoBlock
         else let startMs = date_parse (si_created_at inc);
                  endMs = (case date_parse (case si_resolved_at inc of None \<Rightarrow> [] | Some r \<Rightarrow> r) of
                             None \<Rightarrow> now_ms | Some e \<Rightarrow> if e = 0 then now_ms else e)
              in case startMs of None \<Rightarrow> BadInterval
                 | Some s \<Rightarrow> if endMs \<ge> s then Interval s endMs else BadInterval)"

text \<open>The sweep over the intervals: total, and the open interval, \<open>None\<close> for an end of minus infinity.\<close>

definition union_step :: "int \<times> (int \<times> int) option \<Rightarrow> int \<times> int \<Rightarrow> int \<times> (int \<times> int) option" where
  "union_step st i =
     (case snd st of
        None \<Rightarrow> (fst st, Some i)
      | Some (cs, ce) \<Rightarrow>
          if fst i > ce then (fst st + (ce - cs), Some i)
          else if snd i > ce then (fst st, Some (cs, snd i)) else st)"

definition unionMs :: "(int \<times> int) list \<Rightarrow> int" where
  "unionMs intervals =
     (let st = foldl union_step (0, None) (sort_by (\<lambda>a b. fst a - fst b) intervals)
      in case snd st of None \<Rightarrow> fst st | Some (cs, ce) \<Rightarrow> fst st + (ce - cs))"

text \<open>
  A reply of the status page: its HTTP status and its body, which may not parse, may lack the array,
  or has it. A fetch that fails throws.
\<close>

datatype 'a body = Unreadable string | Parsed "'a list option"

type_synonym 'a status_reply = "int \<times> 'a body"

record snapshot =
  sn_components :: "status_component list"
  sn_incidents :: "status_incident list"
  sn_componentsHttp :: int
  sn_incidentsHttp :: int
  sn_fetchMs :: int
  sn_error :: "string option"

definition http_ok :: "int \<Rightarrow> bool" where
  "http_ok s = (200 \<le> s \<and> s \<le> 299)"

definition failed_snapshot :: "int \<Rightarrow> string \<Rightarrow> snapshot" where
  "failed_snapshot ms e =
     \<lparr>sn_components = [], sn_incidents = [], sn_componentsHttp = 0, sn_incidentsHttp = 0, sn_fetchMs = ms,
      sn_error = Some e\<rparr>"

definition body_of :: "'a status_reply \<Rightarrow> string + 'a list option" where
  "body_of r = (if http_ok (fst r) then (case snd r of Unreadable e \<Rightarrow> Inl e | Parsed x \<Rightarrow> Inr x) else Inr None)"

definition fetchStatus :: "int \<Rightarrow> string + (status_component status_reply \<times> status_incident status_reply) \<Rightarrow> snapshot" where
  "fetchStatus ms net =
     (case net of
        Inl e \<Rightarrow> failed_snapshot ms e
      | Inr (c, i) \<Rightarrow> (case body_of c of
            Inl e \<Rightarrow> failed_snapshot ms e
          | Inr cj \<Rightarrow> (case body_of i of
                Inl e \<Rightarrow> failed_snapshot ms e
              | Inr ij \<Rightarrow>
                  \<lparr>sn_components = (case cj of None \<Rightarrow> [] | Some x \<Rightarrow> x),
                   sn_incidents = (case ij of None \<Rightarrow> [] | Some x \<Rightarrow> x),
                   sn_componentsHttp = fst c, sn_incidentsHttp = fst i, sn_fetchMs = ms,
                   sn_error = (if http_ok (fst c) \<and> http_ok (fst i) \<and> cj \<noteq> None \<and> ij \<noteq> None then None
                               else Some (''components HTTP '' @ show_int (fst c) @ '', incidents HTTP '' @
                                          show_int (fst i)))\<rparr>)))"

definition gate :: "string \<Rightarrow> op \<Rightarrow> policy option \<Rightarrow> bool option \<Rightarrow> snapshot \<Rightarrow> decision" where
  "gate region opn pol failOpen snap =
     (if truthy (sn_error snap)
      then (let note_text = ''status unreadable: '' @ the (sn_error snap); fo = (failOpen = Some True)
            in \<lparr>de_proceed = fo, de_region = region, de_op = opn, de_regionStatus = ''unknown'', de_matched = 0,
                de_blockers = (if fo then [] else [note_text]), de_warnings = (if fo then [note_text] else [])\<rparr>)
      else decide region opn (sn_components snap) (sn_incidents snap)
             (case pol of None \<Rightarrow> DEFAULT_POLICY | Some p \<Rightarrow> p))"

definition RESTART_MIN_AGE_MS :: int where
  "RESTART_MIN_AGE_MS = 600000"

definition restartWaitMs :: "int \<Rightarrow> int \<Rightarrow> int" where
  "restartWaitMs createCompletedAtMs now_ms = max 0 (createCompletedAtMs + RESTART_MIN_AGE_MS - now_ms)"

subsection \<open>Ranking\<close>

lemma rank_operational [simp]: "rank ''operational'' = Some 0"
  by (simp add: rank_def SEVERITY_def)

lemma rank_pos: "rank s = Some n \<Longrightarrow> s \<noteq> ''operational'' \<Longrightarrow> n > 0"
  by (auto simp: rank_def SEVERITY_def split: if_splits)

lemma rank_None: "rank s = None \<longleftrightarrow> s \<in> set proto_keys"
  by (auto simp: rank_def SEVERITY_def proto_keys_def split: if_splits)

abbreviation harmless :: "string \<Rightarrow> bool" where
  "harmless s \<equiv> s = ''operational'' \<or> s \<in> set proto_keys"

lemma num_gt_0: "num_gt (rank s) (Some 0) \<longleftrightarrow> \<not> harmless s"
  using rank_None [of s] rank_pos [of s] by (cases "rank s") (auto simp: num_gt_def)

lemma worst_stays:
  "rank w = Some n \<Longrightarrow> n > 0 \<Longrightarrow>
   foldl (\<lambda>worst s. if num_gt (rank s) (rank worst) then s else worst) w ss \<noteq> ''operational''"
proof (induction ss arbitrary: w n)
  case Nil
  then show ?case by auto
next
  case (Cons s ss)
  show ?case
  proof (cases "num_gt (rank s) (rank w)")
    case True
    then obtain k where "rank s = Some k" "k > n"
      using Cons.prems by (auto simp: num_gt_def split: option.splits)
    with True Cons.IH [of s k] Cons.prems show ?thesis by simp
  next
    case False
    with Cons show ?thesis by simp
  qed
qed

lemma worst_operational: "worst_of ss = ''operational'' \<longleftrightarrow> (\<forall>s \<in> set ss. harmless s)"
  unfolding worst_of_def
proof (induction ss)
  case Nil
  then show ?case by simp
next
  case (Cons s ss)
  show ?case
  proof (cases "harmless s")
    case True
    then have "\<not> num_gt (rank s) (Some 0)" by (simp add: num_gt_0)
    with Cons True show ?thesis by simp
  next
    case False
    then have "num_gt (rank s) (Some 0)" by (simp add: num_gt_0)
    moreover obtain n where "rank s = Some n" "n > 0"
      using False rank_pos [of s] rank_None [of s] by (cases "rank s") auto
    ultimately show ?thesis using False worst_stays [of s n ss] by simp
  qed
qed

subsection \<open>The decision\<close>

lemma block_simps [simp]: "fst (block s v) \<noteq> []" "fst (warn s v) = fst v"
  by (simp_all add: block_def warn_def)

lemma decide_incident_blocks:
  "fst (decide_incident pol region opn v inc) = [] \<longleftrightarrow>
   fst v = [] \<and> replayInterval now_ms inc region opn pol = NoBlock"
proof -
  have "replayInterval now_ms inc region opn pol = NoBlock \<longleftrightarrow>
     \<not> (fst (incidentRegions inc) = AllRegionsS \<or>
        (fst (incidentRegions inc) = RegionsS \<and> region \<in> set (snd (incidentRegions inc))) \<or>
        (fst (incidentRegions inc) = BodyRegionsS \<and> region \<in> set (snd (incidentRegions inc)) \<and>
           re_test (LIFECYCLE_RE opn) (incidentText inc)) \<or>
        (fst (incidentRegions inc) = UnscopedS \<and> re_test (LIFECYCLE_RE opn) (incidentText inc) \<and>
           pc_blockUnscopedLifecycle pol))"
    by (auto simp: replayInterval_def Let_def split: option.splits)
  then show ?thesis
    by (cases "fst (incidentRegions inc)") (simp_all add: decide_incident_def Let_def)
qed

lemma decide_fold:
  "fst (foldl (decide_incident pol region opn) v incs) = [] \<longleftrightarrow>
   fst v = [] \<and> (\<forall>inc \<in> set incs. replayInterval now_ms inc region opn pol = NoBlock)"
  by (induction incs arbitrary: v) (auto simp: decide_incident_blocks [of pol region opn _ _ now_ms])

definition named :: "status_component list \<Rightarrow> string \<Rightarrow> status_component set" where
  "named comps region = {c \<in> set comps. sc_name c = region}"

lemma decide_proceeds:
  assumes "pc_blockOnMissingRegion pol"
  shows "de_proceed (decide region opn comps incs pol) \<longleftrightarrow>
    named comps region \<noteq> {} \<and> (\<forall>c \<in> named comps region. harmless (sc_status c)) \<and>
    (\<forall>inc \<in> set incs. isOpen inc \<longrightarrow> replayInterval now_ms inc region opn pol = NoBlock)"
proof -
  let ?same = "filter (\<lambda>c. sc_name c = region) comps"
  have e: "?same = [] \<longleftrightarrow> named comps region = {}" by (auto simp: named_def filter_empty_conv)
  have w: "worst_of (map sc_status ?same) = ''operational'' \<longleftrightarrow> (\<forall>c \<in> named comps region. harmless (sc_status c))"
    by (auto simp: worst_operational named_def)
  have i: "(\<forall>inc \<in> set (filter isOpen incs). replayInterval now_ms inc region opn pol = NoBlock) \<longleftrightarrow>
      (\<forall>inc \<in> set incs. isOpen inc \<longrightarrow> replayInterval now_ms inc region opn pol = NoBlock)" by auto
  show ?thesis
    unfolding decide_def Let_def decision.simps decide_fold [where now_ms = now_ms] i
    using assms w
    by (cases "?same = []"; cases "worst_of (map sc_status ?same) = ''operational''")
       (auto simp: regionStatus_def Let_def e simp del: filter_empty_conv)
qed


definition sample_component :: "string \<Rightarrow> string \<Rightarrow> status_component" where
  "sample_component n s = \<lparr>sc_id = ''c'', sc_name = n, sc_status = s\<rparr>"

definition sample_incident :: status_incident where
  "sample_incident =
     \<lparr>si_id = ''i1'', si_name = ''Global outage'', si_status = ''resolved'', si_impact = ''none'',
      si_created_at = ''2026-09-10T01:02:03Z'', si_resolved_at = None, si_updates = None\<rparr>"


text \<open>An unreadable status page blocks: unless failing open was asked for, the gate proceeds only if
  both documents answered with a success status and a readable array, and the decision on them
  proceeds.\<close>

lemma gate_fail_closed:
  assumes "failOpen \<noteq> Some True" and "de_proceed (gate region opn None failOpen (fetchStatus ms net))"
  shows "\<exists>cs is hc hi. net = Inr ((hc, Parsed (Some cs)), (hi, Parsed (Some is))) \<and> http_ok hc \<and> http_ok hi \<and>
    de_proceed (decide region opn cs is DEFAULT_POLICY)"
proof -
  have miss: "\<not> de_proceed (decide region opn [] is DEFAULT_POLICY)" for "is"
    by (subst decide_proceeds [where now_ms = 0]) (simp_all add: DEFAULT_POLICY_def named_def)
  have "\<not> de_proceed (gate region opn None failOpen (failed_snapshot ms e))" for e
    using assms(1) miss by (simp add: gate_def failed_snapshot_def Let_def)
  with assms show ?thesis
    by (auto simp: fetchStatus_def gate_def body_of_def truthy_def split: sum.splits prod.splits body.splits if_splits)
qed

subsection \<open>The union of intervals\<close>

definition cover :: "(int \<times> int) list \<Rightarrow> int set" where
  "cover xs = (\<Union>i \<in> set xs. {fst i..<snd i})"

interpretation by_start: comparator "\<lambda>a b :: int \<times> int. fst a - fst b"
  by (rule comparator_key [where cmp = "\<lambda>x y. x - y", OF int_diff.comparator_axioms])

text \<open>The sweep's state: what lies before the open interval is counted.\<close>

definition swept :: "(int \<times> int) list \<Rightarrow> int \<times> (int \<times> int) option \<Rightarrow> bool" where
  "swept xs st =
     (case snd st of
        None \<Rightarrow> xs = [] \<and> fst st = 0
      | Some (cs, ce) \<Rightarrow> cs \<le> ce \<and> cs \<in> fst ` set xs \<and>
          (\<exists>A. cover xs = A \<union> {cs..<ce} \<and> finite A \<and> A \<subseteq> {..<cs} \<and> fst st = int (card A)))"

lemma cover_snoc: "cover (xs @ [i]) = cover xs \<union> {fst i..<snd i}"
  by (auto simp: cover_def)

lemma swept_step:
  assumes "swept xs st" "fst i \<le> snd i" "\<forall>x \<in> set xs. fst x \<le> fst i"
  shows "swept (xs @ [i]) (union_step st i)"
proof (cases "snd st")
  case None
  with assms show ?thesis
    by (auto simp: swept_def union_step_def cover_def split: prod.splits intro!: exI [of _ "{}"])
next
  case (Some c)
  obtain cs ce where c: "c = (cs, ce)" by (cases c)
  from assms(1) Some c obtain A where A: "cs \<le> ce" "cs \<in> fst ` set xs" "cover xs = A \<union> {cs..<ce}" "finite A"
      "A \<subseteq> {..<cs}" "fst st = int (card A)" by (auto simp: swept_def)
  from A(2) assms(3) have le: "cs \<le> fst i" by auto
  have card: "card (A \<union> {cs..<ce}) = card A + nat (ce - cs)"
    using A(4,5) by (subst card_Un_disjoint) auto
  consider "fst i > ce" | "fst i \<le> ce" "snd i > ce" | "fst i \<le> ce" "snd i \<le> ce" by linarith
  then show ?thesis
  proof cases
    case 1
    then have "cover (xs @ [i]) = (A \<union> {cs..<ce}) \<union> {fst i..<snd i}" "A \<union> {cs..<ce} \<subseteq> {..<fst i}"
      using A le by (auto simp: cover_snoc)
    then show ?thesis using 1 Some c A card assms(2)
      by (auto simp: swept_def union_step_def split: prod.splits intro!: exI [of _ "A \<union> {cs..<ce}"])
  next
    case 2
    then have "cover (xs @ [i]) = A \<union> {cs..<snd i}" using A le by (auto simp: cover_snoc)
    then show ?thesis using 2 Some c A by (auto simp: swept_def union_step_def intro!: exI [of _ A])
  next
    case 3
    then have "cover (xs @ [i]) = A \<union> {cs..<ce}" using A le by (auto simp: cover_snoc)
    then show ?thesis using 3 Some c A by (auto simp: swept_def union_step_def intro!: exI [of _ A])
  qed
qed

lemma swept_fold:
  assumes "\<forall>i \<in> set ys. fst i \<le> snd i" "sorted_wrt (\<lambda>a b. fst a - fst b \<le> (0 :: int)) ys"
  shows "swept ys (foldl union_step (0, None) ys)"
  using assms
proof (induction ys rule: rev_induct)
  case Nil
  then show ?case by (simp add: swept_def)
next
  case (snoc y ys)
  then have "swept ys (foldl union_step (0, None) ys)" by (auto simp: sorted_wrt_append)
  with snoc.prems show ?case by (auto simp: sorted_wrt_append intro: swept_step)
qed

lemma card_swept:
  assumes "swept ys st"
  shows "(case snd st of None \<Rightarrow> fst st | Some (cs, ce) \<Rightarrow> fst st + (ce - cs)) = int (card (cover ys))"
proof (cases "snd st")
  case None
  with assms show ?thesis by (simp add: swept_def cover_def)
next
  case (Some c)
  obtain cs ce where c: "c = (cs, ce)" by (cases c)
  with assms Some obtain A where A: "cs \<le> ce" "cover ys = A \<union> {cs..<ce}" "finite A" "A \<subseteq> {..<cs}"
      "fst st = int (card A)" by (auto simp: swept_def)
  then have "card (A \<union> {cs..<ce}) = card A + nat (ce - cs)"
    by (subst card_Un_disjoint) auto
  with A Some c show ?thesis by simp
qed

text \<open>The blocked time is measured exactly: for intervals that do not end before they start, the
  sweep gives the number of milliseconds that lie in at least one of them, overlaps counted once.\<close>

lemma unionMs_measure:
  assumes "\<forall>i \<in> set xs. fst i \<le> snd i"
  shows "unionMs xs = int (card (\<Union>i \<in> set xs. {fst i..<snd i}))"
proof -
  let ?ys = "sort_by (\<lambda>a b. fst a - fst b) xs"
  have "swept ?ys (foldl union_step (0, None) ?ys)"
    by (rule swept_fold) (use assms by_start.sorted_sort_by in auto)
  from card_swept [OF this] have "unionMs xs = int (card (cover ?ys))" by (simp add: unionMs_def Let_def)
  then show ?thesis by (simp add: cover_def)
qed

end
