(* ===== verification/Runbook.thy ===== *)
theory Runbook
  imports Gate Host_Pause
begin

text \<open>
  \<open>experiments/lifecycle-ops/lib/runbook.ts\<close>: detect a project whose data path stopped answering,
  decide on a self-restart, and verify recovery on the data path. Every side effect of the loop is
  injected in the source; here a round of the loop is a record of what the injected functions
  answer in it, whether or not the loop asks. Minus infinity is \<open>None\<close>.
\<close>

record runbook_policy =
  rp_intervalMs :: int
  rp_triggerPaths :: "string list"
  rp_detectAfterMs :: int
  rp_detectMinSamples :: nat
  rp_settleMs :: int
  rp_verifyMaxMs :: int
  rp_minIntervalMs :: int
  rp_maxRestartsPerWindow :: nat
  rp_windowMs :: int
  rp_statusPollMs :: int
  rp_gatePollMs :: int
  rp_gateFailOpen :: bool

definition DEFAULT_RUNBOOK_POLICY :: runbook_policy where
  "DEFAULT_RUNBOOK_POLICY =
     \<lparr>rp_intervalMs = 2000, rp_triggerPaths = [''rest_read''], rp_detectAfterMs = 60000,
      rp_detectMinSamples = 10, rp_settleMs = 10000, rp_verifyMaxMs = 600000, rp_minIntervalMs = 900000,
      rp_maxRestartsPerWindow = 2, rp_windowMs = 3600000, rp_statusPollMs = 10000, rp_gatePollMs = 60000,
      rp_gateFailOpen = False\<rparr>"

record path_outcome =
  pt_name :: string
  pt_ok :: bool
  pt_error :: "string option"

record observation =
  ob_atMs :: int
  ob_outcomes :: "path_outcome list"

subsection \<open>Detector\<close>

record detector =
  dt_failSince :: "(int \<times> nat) obj"
  dt_modes :: "string list obj"

definition new_detector :: detector where
  "new_detector = \<lparr>dt_failSince = [], dt_modes = []\<rparr>"

definition obj_del :: "string \<Rightarrow> 'v obj \<Rightarrow> 'v obj" where
  "obj_del k m = filter (\<lambda>kv. fst kv \<noteq> k) m"

definition observe_path :: "int \<Rightarrow> detector \<Rightarrow> path_outcome \<Rightarrow> detector" where
  "observe_path t d r =
     (if pt_ok r then d\<lparr>dt_failSince := obj_del (pt_name r) (dt_failSince d)\<rparr>
      else let since = (case obj_get (dt_failSince d) (pt_name r) of
                          Some (t0, n) \<Rightarrow> (t0, n + 1) | None \<Rightarrow> (t, 1));
               ms = (case obj_get (dt_modes d) (pt_name r) of None \<Rightarrow> [] | Some xs \<Rightarrow> xs);
               e = take 80 (case pt_error r of None \<Rightarrow> ''failed'' | Some x \<Rightarrow> x)
           in d\<lparr>dt_failSince := obj_put (pt_name r) since (dt_failSince d),
                dt_modes := obj_put (pt_name r) (if e \<in> set ms then ms else ms @ [e]) (dt_modes d)\<rparr>)"

definition detector_observe :: "detector \<Rightarrow> observation \<Rightarrow> detector" where
  "detector_observe d ob = foldl (observe_path (ob_atMs ob)) d (ob_outcomes ob)"

definition firstFailAt :: "runbook_policy \<Rightarrow> detector \<Rightarrow> int option" where
  "firstFailAt pol d =
     foldl (\<lambda>first p. case obj_get (dt_failSince d) p of
              None \<Rightarrow> first
            | Some (t, _) \<Rightarrow> (case first of None \<Rightarrow> Some t | Some f \<Rightarrow> if t < f then Some t else first))
       None (rp_triggerPaths pol)"

definition path_detected :: "runbook_policy \<Rightarrow> detector \<Rightarrow> int \<Rightarrow> string \<Rightarrow> bool" where
  "path_detected pol d nowMs p =
     (case obj_get (dt_failSince d) p of
        None \<Rightarrow> False
      | Some (t, n) \<Rightarrow> nowMs - t \<ge> rp_detectAfterMs pol \<and> n \<ge> rp_detectMinSamples pol)"

definition detected :: "runbook_policy \<Rightarrow> detector \<Rightarrow> int \<Rightarrow> string list" where
  "detected pol d nowMs = filter (path_detected pol d nowMs) (rp_triggerPaths pol)"

definition failing :: "detector \<Rightarrow> string list" where
  "failing d = obj_keys (dt_failSince d)"

subsection \<open>Recovery tracker\<close>

definition recovery_observe :: "int \<Rightarrow> int option \<Rightarrow> observation \<Rightarrow> int option \<times> int option" where
  "recovery_observe settleMs okSince ob =
     (if list_all pt_ok (ob_outcomes ob)
      then let since = (case okSince of None \<Rightarrow> ob_atMs ob | Some t \<Rightarrow> t)
           in (Some since, if ob_atMs ob - since \<ge> settleMs then Some since else None)
      else (None, None))"

subsection \<open>The gate for a restart\<close>

text \<open>
  \<open>/encouraged to restart|recommend(ed|s)? (a |that you )?restart|restart(ing)? (your|their|the) projects?\b/i\<close>
  and \<open>/\b(do not|don't|avoid|refrain from|not)\s+(restart|restarting)\b/i\<close>
\<close>

definition ADVISES_RESTART_RE :: re where
  "ADVISES_RESTART_RE =
     Alts [LitI ''encouraged to restart'',
           Seqs [LitI ''recommend'', Opt (Grp 1 (Alt (LitI ''ed'') (LitI ''s''))), LitI '' '',
                 Opt (Grp 2 (Alt (LitI ''a '') (LitI ''that you ''))), LitI ''restart''],
           Seqs [LitI ''restart'', Opt (Grp 3 (LitI ''ing'')), LitI '' '',
                 Grp 4 (Alts [LitI ''your'', LitI ''their'', LitI ''the'']), LitI '' project'', Opt (LitI ''s''), WordB]]"

definition ADVISES_AGAINST_RE :: re where
  "ADVISES_AGAINST_RE =
     Seqs [WordB,
           Grp 1 (Alts [LitI ''do not'', LitI (''don'' @ [CHR 0x27] @ ''t''), LitI ''avoid'', LitI ''refrain from'', LitI ''not'']),
           Plus (Cls is_ws), Grp 2 (Alt (LitI ''restart'') (LitI ''restarting'')), WordB]"

definition advisesRestart :: "status_incident \<Rightarrow> bool" where
  "advisesRestart inc =
     (let t = incidentText inc in re_test ADVISES_RESTART_RE t \<and> \<not> re_test ADVISES_AGAINST_RE t)"

record gate_view =
  gv_proceed :: bool
  gv_blockers :: "string list"
  gv_warnings :: "string list"

definition gateView :: "string \<Rightarrow> status_component list \<Rightarrow> status_incident list \<Rightarrow> op \<Rightarrow> gate_view" where
  "gateView region components incidents opn =
     (let advising = filter (\<lambda>i. isOpen i \<and> advisesRestart i) incidents;
          rest = filter (\<lambda>i. i \<notin> set advising) incidents;
          d = decide region opn components rest DEFAULT_POLICY
      in \<lparr>gv_proceed = de_proceed d, gv_blockers = de_blockers d,
          gv_warnings = de_warnings d @
            map (\<lambda>i. ''open incident advises restart: '' @ si_id i @ '' \"'' @ si_name i @ ''\"'') advising\<rparr>)"

subsection \<open>The decision\<close>

datatype action = ANone | AHold | ARestart | AEscalate

record rb_decision =
  rd_action :: action
  rd_reasons :: "string list"

record decide_input =
  di_nowMs :: int
  di_detectedPaths :: "string list"
  di_controlStatus :: string
  di_restartsAtMs :: "int list"
  di_createdAtMs :: "int option"
  di_gate :: "string + gate_view"

text \<open>\<open>Math.round(a / b)\<close>, and a number of milliseconds printed in seconds.\<close>

definition round_div :: "int \<Rightarrow> int \<Rightarrow> int" where
  "round_div a b = js_round (of_int a / of_int b)"

definition strip_zeros :: "string \<Rightarrow> string" where
  "strip_zeros s = rev (dropWhile (\<lambda>c. c = CHR ''0'') (rev s))"

definition show_seconds :: "int \<Rightarrow> string" where
  "show_seconds ms =
     (let a = nat \<bar>ms\<bar>; whole = show_nat (a div 1000); r = a mod 1000;
          frac = strip_zeros (replicate (3 - length (show_nat r)) (CHR ''0'') @ show_nat r)
      in (if ms < 0 then ''-'' else []) @ (if r = 0 then whole else whole @ ''.'' @ frac))"

definition max_opt :: "int list \<Rightarrow> int option" where
  "max_opt xs = (if xs = [] then None else Some (Max (set xs)))"

definition rb_decide :: "decide_input \<Rightarrow> runbook_policy \<Rightarrow> rb_decision" where
  "rb_decide i pol =
     (let now = di_nowMs i; dec = (\<lambda>a rs. \<lparr>rd_action = a, rd_reasons = rs\<rparr>);
          why = ''detected on '' @ join '','' (di_detectedPaths i);
          inWindow = filter (\<lambda>t. now - t < rp_windowMs pol) (di_restartsAtMs i);
          cooling = (case max_opt (di_restartsAtMs i) of None \<Rightarrow> False | Some l \<Rightarrow> now - l < rp_minIntervalMs pol);
          young = (case di_createdAtMs i of None \<Rightarrow> False | Some c \<Rightarrow> now - c < RESTART_MIN_AGE_MS)
      in if di_detectedPaths i = [] then dec ANone [''no trigger path past the detection threshold'']
         else if length inWindow \<ge> rp_maxRestartsPerWindow pol
         then dec AEscalate [why, show_nat (length inWindow) @ '' restarts in the last '' @
                show_int (round_div (rp_windowMs pol) 60000) @ '' min (max '' @
                show_nat (rp_maxRestartsPerWindow pol) @ ''): a restart is not fixing this'']
         else if di_controlStatus i \<noteq> ''ACTIVE_HEALTHY''
         then dec AHold [why, ''control-plane status '' @ di_controlStatus i @
                '': an operation may be in flight, or the platform already reports the project down'']
         else if cooling
         then dec AHold [why, ''cooldown: last restart '' @ show_int (round_div (now - the (max_opt (di_restartsAtMs i))) 1000) @
                '' s ago (min '' @ show_seconds (rp_minIntervalMs pol) @ '' s)'']
         else if young
         then dec AHold [why, ''project '' @ show_int (round_div (now - the (di_createdAtMs i)) 1000) @
                '' s old: the API has refused restarts this soon after creation (LO05f)'']
         else case di_gate i of
                Inl e \<Rightarrow> if rp_gateFailOpen pol
                         then dec ARestart [why, ''status page unreadable ('' @ e @ ''); gateFailOpen'']
                         else dec AHold [why, ''status page unreadable: '' @ e]
              | Inr g \<Rightarrow> if \<not> gv_proceed g then dec AHold (why # map (\<lambda>b. ''gate: '' @ b) (gv_blockers g))
                         else dec ARestart (why # map (\<lambda>w. ''gate warning: '' @ w) (gv_warnings g)))"

subsection \<open>The loop\<close>

datatype rb_outcome = NoFault | SelfCleared | Recovered | Escalated | Unrecovered | RestartRefused | HardStop

record episode =
  ep_outcome :: rb_outcome
  ep_startedAtMs :: int
  ep_rounds :: nat
  ep_failedSamples :: "nat obj"
  ep_firstFailAtMs :: "int option"
  ep_detectedAtMs :: "int option"
  ep_decisions :: "(int \<times> rb_decision) list"
  ep_postAtMs :: "int option"
  ep_postHttp :: "int option"
  ep_postBody :: string
  ep_statusTransitions :: "(int \<times> string) list"
  ep_statusHealthyAgainAtMs :: "int option"
  ep_recoveredAtMs :: "int option"
  ep_modes :: "string list obj"

text \<open>
  One round: when its observation was made, what each probe answered, and what the control plane,
  the status page and the restart endpoint answer if asked, the restart at time \<open>ri_postAt\<close>.
\<close>

record round_io =
  ri_atMs :: int
  ri_outs :: "(bool \<times> string option) list"
  ri_status :: string
  ri_gate :: "string + gate_view"
  ri_postAt :: int
  ri_postHttp :: int
  ri_postBody :: string

record sup_opts =
  so_restartsAtMs :: "int list"
  so_createdAtMs :: "int option"
  so_maxWatchMs :: int
  so_hardStopMs :: "int option"

record sup_state =
  ss_ep :: episode
  ss_det :: detector
  ss_rec :: "int option"
  ss_cleared :: "int option"
  ss_status :: "int option \<times> string"
  ss_gate :: "int option \<times> (string + gate_view)"
  ss_left :: bool
  ss_restarts :: "int list"

definition kind_re :: re where
  "kind_re = Plus (Cls is_digit)"

definition reason_kind :: "rb_decision \<Rightarrow> string" where
  "reason_kind d =
     replace_all kind_re (\<lambda>_. ''#'') (if length (rd_reasons d) > 1 then rd_reasons d ! 1 else [])"

text \<open>\<open>now - at >= poll\<close> with a last poll that may lie infinitely far back.\<close>

definition poll_due :: "int \<Rightarrow> int option \<Rightarrow> int \<Rightarrow> bool" where
  "poll_due now prev poll = (case prev of None \<Rightarrow> True | Some t \<Rightarrow> now - t \<ge> poll)"

definition probe_name :: "string list \<Rightarrow> nat \<Rightarrow> string" where
  "probe_name names i = (if i < length names then names ! i else ''p'' @ show_nat i)"

definition observation_of :: "string list \<Rightarrow> round_io \<Rightarrow> observation" where
  "observation_of names r =
     \<lparr>ob_atMs = ri_atMs r,
      ob_outcomes = map (\<lambda>(i, ok, err). \<lparr>pt_name = probe_name names i, pt_ok = ok, pt_error = err\<rparr>)
        (enumerate 0 (ri_outs r))\<rparr>"

definition count_failed :: "nat obj \<Rightarrow> path_outcome \<Rightarrow> nat obj" where
  "count_failed m p =
     (if pt_ok p then m
      else obj_put (pt_name p) ((case obj_get m (pt_name p) of None \<Rightarrow> 0 | Some n \<Rightarrow> n) + 1) m)"

definition finish :: "rb_outcome \<Rightarrow> sup_state \<Rightarrow> sup_state" where
  "finish out st = st\<lparr>ss_ep := (ss_ep st)\<lparr>ep_outcome := out, ep_modes := dt_modes (ss_det st)\<rparr>\<rparr>"

text \<open>A round either goes on (\<open>Inl\<close>) or returns the episode (\<open>Inr\<close>).\<close>

definition log_decision :: "int \<Rightarrow> rb_decision \<Rightarrow> episode \<Rightarrow> episode" where
  "log_decision t d e =
     (if ep_decisions e = [] \<or> rd_action (snd (last (ep_decisions e))) \<noteq> rd_action d \<or>
         reason_kind (snd (last (ep_decisions e))) \<noteq> reason_kind d
      then e\<lparr>ep_decisions := ep_decisions e @ [(t, d)]\<rparr> else e)"

definition polled_status :: "runbook_policy \<Rightarrow> round_io \<Rightarrow> sup_state \<Rightarrow> int option \<times> string" where
  "polled_status pol r st =
     (if poll_due (ri_atMs r) (fst (ss_status st)) (rp_statusPollMs pol)
      then (Some (ri_atMs r), ri_status r) else ss_status st)"

definition polled_gate :: "runbook_policy \<Rightarrow> round_io \<Rightarrow> sup_state \<Rightarrow> int option \<times> (string + gate_view)" where
  "polled_gate pol r st =
     (if poll_due (ri_atMs r) (fst (ss_gate st)) (rp_gatePollMs pol)
      then (Some (ri_atMs r), ri_gate r) else ss_gate st)"

definition round_decision :: "runbook_policy \<Rightarrow> sup_opts \<Rightarrow> round_io \<Rightarrow> string list \<Rightarrow> sup_state \<Rightarrow> rb_decision" where
  "round_decision pol opts r paths st =
     rb_decide \<lparr>di_nowMs = ri_atMs r, di_detectedPaths = paths, di_controlStatus = snd (polled_status pol r st),
       di_restartsAtMs = ss_restarts st, di_createdAtMs = so_createdAtMs opts, di_gate = snd (polled_gate pol r st)\<rparr> pol"

definition act_on :: "runbook_policy \<Rightarrow> sup_opts \<Rightarrow> round_io \<Rightarrow> string list \<Rightarrow> sup_state \<Rightarrow> sup_state + sup_state" where
  "act_on pol opts r paths st =
     (let t = ri_atMs r;
          d = round_decision pol opts r paths st;
          ep1 = (if ep_detectedAtMs (ss_ep st) = None then (ss_ep st)\<lparr>ep_detectedAtMs := Some t\<rparr> else ss_ep st);
          st1 = st\<lparr>ss_ep := log_decision t d ep1, ss_status := polled_status pol r st, ss_gate := polled_gate pol r st\<rparr>
      in case rd_action d of
           AEscalate \<Rightarrow> Inr (finish Escalated st1)
         | ARestart \<Rightarrow>
             (let st2 = st1\<lparr>ss_ep := (ss_ep st1)\<lparr>ep_postAtMs := Some (ri_postAt r), ep_postHttp := Some (ri_postHttp r),
                              ep_postBody := take 300 (ri_postBody r)\<rparr>\<rparr>
              in if ri_postHttp r < 200 \<or> ri_postHttp r \<ge> 300 then Inr (finish RestartRefused st2)
                 else Inl (st2\<lparr>ss_restarts := ss_restarts st2 @ [ri_postAt r], ss_status := (None, [])\<rparr>))
         | _ \<Rightarrow> Inl st1)"

definition watch_round :: "runbook_policy \<Rightarrow> sup_opts \<Rightarrow> round_io \<Rightarrow> observation \<Rightarrow> sup_state \<Rightarrow> sup_state + sup_state" where
  "watch_round pol opts r obs st =
     (let c = recovery_observe (rp_settleMs pol) (ss_cleared st) obs;
          ff = firstFailAt pol (ss_det st);
          e0 = ss_ep st;
          e1 = (if ff \<noteq> None \<and> ep_firstFailAtMs e0 = None then e0\<lparr>ep_firstFailAtMs := ff\<rparr> else e0);
          e2 = (if ff = None \<and> ep_detectedAtMs e1 = None then e1\<lparr>ep_firstFailAtMs := None\<rparr> else e1);
          st1 = st\<lparr>ss_cleared := fst c, ss_ep := e2\<rparr>;
          paths = detected pol (ss_det st) (ri_atMs r)
      in if paths \<noteq> [] then act_on pol opts r paths st1
         else if ep_detectedAtMs e2 \<noteq> None \<and> snd c \<noteq> None
         then Inr (finish SelfCleared (st1\<lparr>ss_ep := e2\<lparr>ep_recoveredAtMs := snd c\<rparr>\<rparr>))
         else if ep_detectedAtMs e2 = None \<and> ri_atMs r - ep_startedAtMs e2 \<ge> so_maxWatchMs opts
         then Inr (finish NoFault st1)
         else Inl st1)"

definition verify_round :: "runbook_policy \<Rightarrow> round_io \<Rightarrow> observation \<Rightarrow> int \<Rightarrow> sup_state \<Rightarrow> sup_state + sup_state" where
  "verify_round pol r obs post st =
     (let b = recovery_observe (rp_settleMs pol) (ss_rec st) obs;
          t = ri_atMs r;
          st1 = st\<lparr>ss_rec := fst b\<rparr>;
          st2 = (if poll_due t (fst (ss_status st1)) (rp_statusPollMs pol)
                 then let v = ri_status r; e = ss_ep st1;
                          e1 = (if ep_statusTransitions e = [] \<or> snd (last (ep_statusTransitions e)) \<noteq> v
                                then e\<lparr>ep_statusTransitions := ep_statusTransitions e @ [(t, v)]\<rparr> else e);
                          left' = (ss_left st1 \<or> v \<noteq> ''ACTIVE_HEALTHY'');
                          e2 = (if left' \<and> v = ''ACTIVE_HEALTHY'' \<and> ep_statusHealthyAgainAtMs e1 = None
                                then e1\<lparr>ep_statusHealthyAgainAtMs := Some t\<rparr> else e1)
                      in st1\<lparr>ss_status := (Some t, v), ss_ep := e2, ss_left := left'\<rparr>
                 else st1)
      in if snd b \<noteq> None then Inr (finish Recovered (st2\<lparr>ss_ep := (ss_ep st2)\<lparr>ep_recoveredAtMs := snd b\<rparr>\<rparr>))
         else if t - post \<ge> rp_verifyMaxMs pol then Inr (finish Unrecovered st2)
         else Inl st2)"

definition sup_round :: "runbook_policy \<Rightarrow> sup_opts \<Rightarrow> string list \<Rightarrow> round_io \<Rightarrow> sup_state \<Rightarrow> sup_state + sup_state" where
  "sup_round pol opts names r st =
     (let obs = observation_of names r;
          e = (ss_ep st)\<lparr>ep_rounds := ep_rounds (ss_ep st) + 1,
                ep_failedSamples := foldl count_failed (ep_failedSamples (ss_ep st)) (ob_outcomes obs)\<rparr>;
          st1 = st\<lparr>ss_ep := e, ss_det := detector_observe (ss_det st) obs\<rparr>
      in if ri_atMs r - ep_startedAtMs e \<ge> (case so_hardStopMs opts of None \<Rightarrow> 7200000 | Some h \<Rightarrow> h)
         then Inr (finish HardStop st1)
         else case ep_postAtMs e of
                None \<Rightarrow> watch_round pol opts r obs st1
              | Some post \<Rightarrow> verify_round pol r obs post st1)"

definition sup_init :: "int \<Rightarrow> sup_opts \<Rightarrow> string list \<Rightarrow> sup_state" where
  "sup_init start opts names =
     \<lparr>ss_ep =
        \<lparr>ep_outcome = NoFault, ep_startedAtMs = start, ep_rounds = 0,
         ep_failedSamples = obj_of (map (\<lambda>n. (n, 0)) names), ep_firstFailAtMs = None, ep_detectedAtMs = None,
         ep_decisions = [], ep_postAtMs = None, ep_postHttp = None, ep_postBody = [], ep_statusTransitions = [],
         ep_statusHealthyAgainAtMs = None, ep_recoveredAtMs = None, ep_modes = []\<rparr>,
      ss_det = new_detector, ss_rec = None, ss_cleared = None, ss_status = (None, []),
      ss_gate = (None, Inl ''not read''), ss_left = False, ss_restarts = so_restartsAtMs opts\<rparr>"

fun sup_loop :: "runbook_policy \<Rightarrow> sup_opts \<Rightarrow> string list \<Rightarrow> round_io list \<Rightarrow> sup_state \<Rightarrow> sup_state option" where
  "sup_loop pol opts names [] st = None"
| "sup_loop pol opts names (r # rs) st =
     (case sup_round pol opts names r st of Inl st' \<Rightarrow> sup_loop pol opts names rs st' | Inr st' \<Rightarrow> Some st')"

text \<open>The episode and the shared restart history; \<open>None\<close> while the rounds given are not enough.\<close>

definition supervise :: "runbook_policy \<Rightarrow> sup_opts \<Rightarrow> string list \<Rightarrow> int \<Rightarrow> round_io list \<Rightarrow> (episode \<times> int list) option" where
  "supervise pol opts names start rounds =
     map_option (\<lambda>st. (ss_ep st, ss_restarts st)) (sup_loop pol opts names rounds (sup_init start opts names))"

definition secs :: "int option \<Rightarrow> int option \<Rightarrow> int" where
  "secs fr t = (case (fr, t) of (Some a, Some b) \<Rightarrow> round_div (b - a) 1000 | _ \<Rightarrow> -1)"

subsection \<open>What the detector reports\<close>

text \<open>The samples of one path over a history: when, and whether it answered.\<close>

definition path_events :: "observation list \<Rightarrow> (int \<times> path_outcome) list" where
  "path_events obs = concat (map (\<lambda>ob. map (Pair (ob_atMs ob)) (ob_outcomes ob)) obs)"

definition samples :: "string \<Rightarrow> observation list \<Rightarrow> (int \<times> bool) list" where
  "samples p obs = map (\<lambda>(t, r). (t, pt_ok r)) (filter (\<lambda>(t, r). pt_name r = p) (path_events obs))"

text \<open>The failures at the end of a path's samples, latest first.\<close>

definition failing_run :: "string \<Rightarrow> observation list \<Rightarrow> (int \<times> bool) list" where
  "failing_run p obs = takeWhile (\<lambda>x. \<not> snd x) (rev (samples p obs))"

lemma obj_get_del [simp, obj_simps]: "obj_get (obj_del k m) k' = (if k' = k then None else obj_get m k')"
  by (induction m) (auto simp: obj_del_def)

lemma detector_events:
  "foldl detector_observe d obs = foldl (\<lambda>d (t, r). observe_path t d r) d (path_events obs)"
  by (induction obs arbitrary: d) (simp_all add: path_events_def detector_observe_def foldl_map)

lemma failSince_events:
  "obj_get (dt_failSince (foldl (\<lambda>d (t, r). observe_path t d r) new_detector evs)) p =
     (let run = takeWhile (\<lambda>x. \<not> snd x)
            (rev (map (\<lambda>(t, r). (t, pt_ok r)) (filter (\<lambda>(t, r). pt_name r = p) evs)))
      in if run = [] then None else Some (fst (last run), length run))"
proof (induction evs rule: rev_induct)
  case Nil
  then show ?case by (simp add: new_detector_def)
next
  case (snoc x evs)
  obtain t r where x: "x = (t, r)" by (cases x)
  let ?run = "takeWhile (\<lambda>x. \<not> snd x)
      (rev (map (\<lambda>(t, r). (t, pt_ok r)) (filter (\<lambda>(t, r). pt_name r = p) evs)))"
  show ?case
  proof (cases "pt_name r = p")
    case True
    show ?thesis
    proof (cases "pt_ok r")
      case True
      with \<open>pt_name r = p\<close> x show ?thesis by (simp add: observe_path_def)
    next
      case False
      with \<open>pt_name r = p\<close> x snoc show ?thesis
        by (cases "?run = []") (simp_all add: observe_path_def Let_def)
    qed
  next
    case False
    with x snoc show ?thesis by (simp add: observe_path_def Let_def)
  qed
qed

lemma failSince_run:
  "obj_get (dt_failSince (foldl detector_observe new_detector obs)) p =
     (if failing_run p obs = [] then None
      else Some (fst (last (failing_run p obs)), length (failing_run p obs)))"
  unfolding detector_events failSince_events failing_run_def samples_def Let_def ..

text \<open>The detector is exact: after any history it reports a path exactly when it is a trigger path
  whose latest samples all failed, at least as many as required, the first of them at least
  \<open>detectAfterMs\<close> ago. A single good sample resets it.\<close>

lemma detector_exact:
  "p \<in> set (detected pol (foldl detector_observe new_detector obs) nowMs) \<longleftrightarrow>
   p \<in> set (rp_triggerPaths pol) \<and> failing_run p obs \<noteq> [] \<and>
   nowMs - fst (last (failing_run p obs)) \<ge> rp_detectAfterMs pol \<and>
   length (failing_run p obs) \<ge> rp_detectMinSamples pol"
  by (auto simp: detected_def path_detected_def failSince_run)

subsection \<open>Restarts are kept apart\<close>

text \<open>What the guard rails promise of a restart decided at time \<open>t\<close> with the history \<open>hist\<close>.\<close>

definition allowed :: "runbook_policy \<Rightarrow> int option \<Rightarrow> int list \<Rightarrow> int \<Rightarrow> bool" where
  "allowed pol created hist t \<longleftrightarrow>
     (\<forall>r \<in> set hist. t - r \<ge> rp_minIntervalMs pol) \<and>
     length (filter (\<lambda>r. t - r < rp_windowMs pol) hist) < rp_maxRestartsPerWindow pol \<and>
     (\<forall>c. created = Some c \<longrightarrow> t - c \<ge> RESTART_MIN_AGE_MS)"

lemma decide_restart_allowed:
  assumes "rd_action (rb_decide i pol) = ARestart"
  shows "allowed pol (di_createdAtMs i) (di_restartsAtMs i) (di_nowMs i) \<and>
    di_controlStatus i = ''ACTIVE_HEALTHY'' \<and> di_detectedPaths i \<noteq> []"
proof -
  from assms have c: "\<not> (case max_opt (di_restartsAtMs i) of None \<Rightarrow> False | Some l \<Rightarrow> di_nowMs i - l < rp_minIntervalMs pol)"
      "\<not> (case di_createdAtMs i of None \<Rightarrow> False | Some c \<Rightarrow> di_nowMs i - c < RESTART_MIN_AGE_MS)"
      "\<not> length (filter (\<lambda>t. di_nowMs i - t < rp_windowMs pol) (di_restartsAtMs i)) \<ge> rp_maxRestartsPerWindow pol"
      "di_controlStatus i = ''ACTIVE_HEALTHY''" "di_detectedPaths i \<noteq> []"
    by (auto simp: rb_decide_def Let_def split: if_splits)
  have "di_nowMs i - r \<ge> rp_minIntervalMs pol" if "r \<in> set (di_restartsAtMs i)" for r
  proof -
    from that have "max_opt (di_restartsAtMs i) = Some (Max (set (di_restartsAtMs i)))" by (auto simp: max_opt_def)
    with c(1) have "di_nowMs i - Max (set (di_restartsAtMs i)) \<ge> rp_minIntervalMs pol" by simp
    moreover have "r \<le> Max (set (di_restartsAtMs i))" using that by simp
    ultimately show ?thesis by linarith
  qed
  with c show ?thesis by (auto simp: allowed_def)
qed

lemma allowed_later: "allowed pol created hist t \<Longrightarrow> t \<le> t' \<Longrightarrow> allowed pol created hist t'"
proof -
  assume a: "allowed pol created hist t" and le: "t \<le> t'"
  have "length (filter (\<lambda>r. t' - r < rp_windowMs pol) hist) \<le> length (filter (\<lambda>r. t - r < rp_windowMs pol) hist)"
    using le by (induction hist) auto
  with a le show ?thesis by (fastforce simp: allowed_def)
qed

lemma finish_keeps [simp]:
  "ss_restarts (finish out st) = ss_restarts st"
  "ep_postAtMs (ss_ep (finish out st)) = ep_postAtMs (ss_ep st)"
  "ep_postHttp (ss_ep (finish out st)) = ep_postHttp (ss_ep st)"
  "ep_outcome (ss_ep (finish out st)) = out"
  "ep_recoveredAtMs (ss_ep (finish out st)) = ep_recoveredAtMs (ss_ep st)"
  "ep_startedAtMs (ss_ep (finish out st)) = ep_startedAtMs (ss_ep st)"
  by (simp_all add: finish_def)

lemma log_decision_keeps [simp]:
  "ep_postAtMs (log_decision t d e) = ep_postAtMs e"
  "ep_startedAtMs (log_decision t d e) = ep_startedAtMs e"
  by (simp_all add: log_decision_def)

text \<open>The history of an episode so far: unchanged, or with the one restart it sent.\<close>

definition one_restart :: "runbook_policy \<Rightarrow> sup_opts \<Rightarrow> sup_state \<Rightarrow> bool" where
  "one_restart pol opts st \<longleftrightarrow>
     ss_restarts st = so_restartsAtMs opts \<or>
     (\<exists>t. ss_restarts st = so_restartsAtMs opts @ [t] \<and> ep_postAtMs (ss_ep st) = Some t \<and>
        allowed pol (so_createdAtMs opts) (so_restartsAtMs opts) t)"

definition unposted :: "sup_opts \<Rightarrow> sup_state \<Rightarrow> bool" where
  "unposted opts st \<longleftrightarrow> ep_postAtMs (ss_ep st) = None \<longrightarrow> ss_restarts st = so_restartsAtMs opts"

abbreviation either :: "('a \<Rightarrow> bool) \<Rightarrow> 'a + 'a \<Rightarrow> bool" where
  "either P x \<equiv> (case x of Inl a \<Rightarrow> P a | Inr a \<Rightarrow> P a)"

lemma act_on_safe:
  assumes "ss_restarts st = so_restartsAtMs opts" "ep_postAtMs (ss_ep st) = None" "ri_atMs r \<le> ri_postAt r"
  shows "either (\<lambda>s. one_restart pol opts s \<and> unposted opts s) (act_on pol opts r paths st)"
proof (cases "rd_action (round_decision pol opts r paths st) = ARestart")
  case True
  from decide_restart_allowed [OF True [unfolded round_decision_def]]
  have "allowed pol (so_createdAtMs opts) (so_restartsAtMs opts) (ri_atMs r)" using assms(1) by simp
  from allowed_later [OF this assms(3)] show ?thesis
    using True assms(1) by (simp add: act_on_def Let_def one_restart_def unposted_def)
next
  case False
  with assms(1,2) show ?thesis
    by (cases "rd_action (round_decision pol opts r paths st)")
       (simp_all add: act_on_def Let_def one_restart_def unposted_def)
qed

lemma watch_round_safe:
  assumes "ss_restarts st = so_restartsAtMs opts" "ep_postAtMs (ss_ep st) = None" "ri_atMs r \<le> ri_postAt r"
  shows "either (\<lambda>s. one_restart pol opts s \<and> unposted opts s) (watch_round pol opts r obs st)"
  using assms unfolding watch_round_def Let_def
  by (auto simp: one_restart_def unposted_def intro!: act_on_safe)

lemma verify_round_safe:
  "either (\<lambda>s. ss_restarts s = ss_restarts st \<and> ep_postAtMs (ss_ep s) = ep_postAtMs (ss_ep st)) (verify_round pol r obs post st)"
  by (auto simp: verify_round_def Let_def)

lemma sup_round_safe:
  assumes "one_restart pol opts st" "unposted opts st" "ri_atMs r \<le> ri_postAt r"
  shows "either (\<lambda>s. one_restart pol opts s \<and> unposted opts s) (sup_round pol opts names r st)"
proof (cases "ep_postAtMs (ss_ep st)")
  case None
  with assms show ?thesis
    unfolding sup_round_def Let_def
    by (auto simp: one_restart_def unposted_def intro!: watch_round_safe)
next
  case (Some t)
  let ?st = "st\<lparr>ss_ep := (ss_ep st)\<lparr>ep_rounds := ep_rounds (ss_ep st) + 1,
      ep_failedSamples := foldl count_failed (ep_failedSamples (ss_ep st)) (ob_outcomes (observation_of names r))\<rparr>,
      ss_det := detector_observe (ss_det st) (observation_of names r)\<rparr>"
  have "either (\<lambda>s. one_restart pol opts s \<and> unposted opts s) (verify_round pol r (observation_of names r) t ?st)"
    using verify_round_safe [of ?st pol r "observation_of names r" t] assms Some
    by (auto simp: one_restart_def unposted_def split: sum.splits)
  with Some assms show ?thesis
    unfolding sup_round_def Let_def by (auto simp: one_restart_def unposted_def)
qed

lemma sup_loop_safe:
  "sup_loop pol opts names rs st = Some st' \<Longrightarrow> one_restart pol opts st \<Longrightarrow> unposted opts st \<Longrightarrow>
   \<forall>r \<in> set rs. ri_atMs r \<le> ri_postAt r \<Longrightarrow> one_restart pol opts st'"
proof (induction rs arbitrary: st)
  case Nil
  then show ?case by simp
next
  case (Cons r rs)
  then show ?case using sup_round_safe [of pol opts st r names]
    by (auto split: sum.splits)
qed


subsection \<open>Recovery is sustained\<close>

abbreviation all_ok :: "round_io \<Rightarrow> bool" where
  "all_ok r \<equiv> list_all fst (ri_outs r)"

definition settled_run :: "int \<Rightarrow> round_io list \<Rightarrow> int \<Rightarrow> bool" where
  "settled_run settle ys b \<longleftrightarrow>
     ys \<noteq> [] \<and> list_all all_ok ys \<and> b = ri_atMs (hd ys) \<and> ri_atMs (last ys) - b \<ge> settle"

lemma observation_ok: "list_all pt_ok (ob_outcomes (observation_of names r)) \<longleftrightarrow> all_ok r"
proof -
  have "list_all pt_ok (map (\<lambda>(i, ok, err). \<lparr>pt_name = probe_name names i, pt_ok = ok, pt_error = err\<rparr>) (enumerate n xs)) \<longleftrightarrow>
      list_all fst xs" for n xs
    by (induction xs arbitrary: n) auto
  then show ?thesis by (simp add: observation_of_def)
qed

lemma observation_at [simp]: "ob_atMs (observation_of names r) = ri_atMs r"
  by (simp add: observation_of_def)

text \<open>The tracker holds the first time of the current run of good rounds.\<close>

definition tracking :: "round_io list \<Rightarrow> int option \<Rightarrow> bool" where
  "tracking vs t \<longleftrightarrow> t = (if vs = [] then None else Some (ri_atMs (hd vs))) \<and> list_all all_ok vs"

lemma recovery_tracking:
  assumes "tracking vs t"
  shows "recovery_observe settle t (observation_of names r) =
    (if all_ok r
     then (Some (ri_atMs (hd (vs @ [r]))),
           if ri_atMs r - ri_atMs (hd (vs @ [r])) \<ge> settle then Some (ri_atMs (hd (vs @ [r]))) else None)
     else (None, None))"
  using assms by (auto simp: recovery_observe_def observation_ok tracking_def Let_def)

lemma verify_round_Inl:
  assumes "verify_round pol r obs post st = Inl st'"
  shows "ss_rec st' = fst (recovery_observe (rp_settleMs pol) (ss_rec st) obs) \<and>
    snd (recovery_observe (rp_settleMs pol) (ss_rec st) obs) = None \<and>
    ep_postAtMs (ss_ep st') = ep_postAtMs (ss_ep st) \<and> ep_postHttp (ss_ep st') = ep_postHttp (ss_ep st)"
  using assms by (auto simp: verify_round_def Let_def split: if_splits)

lemma verify_round_Inr:
  assumes "verify_round pol r obs post st = Inr st'" "ep_outcome (ss_ep st') = Recovered"
  shows "ep_recoveredAtMs (ss_ep st') = snd (recovery_observe (rp_settleMs pol) (ss_rec st) obs) \<and>
    snd (recovery_observe (rp_settleMs pol) (ss_rec st) obs) \<noteq> None \<and>
    ep_postAtMs (ss_ep st') = ep_postAtMs (ss_ep st) \<and> ep_postHttp (ss_ep st') = ep_postHttp (ss_ep st)"
  using assms by (auto simp: verify_round_def Let_def split: if_splits)

text \<open>A round of the loop, with the bookkeeping before its branch done.\<close>

definition counted :: "string list \<Rightarrow> round_io \<Rightarrow> sup_state \<Rightarrow> sup_state" where
  "counted names r st =
     st\<lparr>ss_ep := (ss_ep st)\<lparr>ep_rounds := ep_rounds (ss_ep st) + 1,
          ep_failedSamples := foldl count_failed (ep_failedSamples (ss_ep st)) (ob_outcomes (observation_of names r))\<rparr>,
        ss_det := detector_observe (ss_det st) (observation_of names r)\<rparr>"

lemma counted_keeps [simp]:
  "ss_rec (counted names r st) = ss_rec st"
  "ep_postAtMs (ss_ep (counted names r st)) = ep_postAtMs (ss_ep st)"
  "ep_postHttp (ss_ep (counted names r st)) = ep_postHttp (ss_ep st)"
  "ep_startedAtMs (ss_ep (counted names r st)) = ep_startedAtMs (ss_ep st)"
  by (simp_all add: counted_def)

lemma sup_round_cases:
  "sup_round pol opts names r st = Inr (finish HardStop (counted names r st)) \<or>
   (case ep_postAtMs (ss_ep st) of
      None \<Rightarrow> sup_round pol opts names r st = watch_round pol opts r (observation_of names r) (counted names r st)
    | Some post \<Rightarrow> sup_round pol opts names r st = verify_round pol r (observation_of names r) post (counted names r st))"
  by (auto simp: sup_round_def counted_def Let_def split: option.splits)

lemma verify_loop:
  "sup_loop pol opts names rs st = Some st' \<Longrightarrow> ep_postAtMs (ss_ep st) = Some p \<Longrightarrow>
   tracking vs (ss_rec st) \<Longrightarrow> ep_outcome (ss_ep st') = Recovered \<Longrightarrow>
   \<exists>xs ys zs b. vs @ rs = xs @ ys @ zs \<and> ep_recoveredAtMs (ss_ep st') = Some b \<and> settled_run (rp_settleMs pol) ys b \<and>
     ep_postAtMs (ss_ep st') = Some p \<and> ep_postHttp (ss_ep st') = ep_postHttp (ss_ep st)"
proof (induction rs arbitrary: st vs)
  case Nil
  then show ?case by simp
next
  case (Cons r rs)
  note rec = recovery_tracking [OF Cons.prems(3), of "rp_settleMs pol" names r]
  have round: "sup_round pol opts names r st = Inr (finish HardStop (counted names r st)) \<or>
      sup_round pol opts names r st = verify_round pol r (observation_of names r) p (counted names r st)"
    using sup_round_cases [of pol opts names r st] Cons.prems(2) by simp
  show ?case
  proof (cases "sup_round pol opts names r st")
    case (Inr s)
    with Cons.prems have s: "st' = s" "ep_outcome (ss_ep s) = Recovered" by simp_all
    with round Inr have "verify_round pol r (observation_of names r) p (counted names r st) = Inr s" by auto
    from verify_round_Inr [OF this s(2)] rec Cons.prems(2)
    have "all_ok r" "ep_recoveredAtMs (ss_ep s) = Some (ri_atMs (hd (vs @ [r])))"
        "ri_atMs r - ri_atMs (hd (vs @ [r])) \<ge> rp_settleMs pol"
        "ep_postAtMs (ss_ep s) = Some p" "ep_postHttp (ss_ep s) = ep_postHttp (ss_ep st)"
      by (auto split: if_splits)
    moreover have "settled_run (rp_settleMs pol) (vs @ [r]) (ri_atMs (hd (vs @ [r])))"
      using calculation Cons.prems(3) by (simp add: settled_run_def tracking_def)
    moreover have "vs @ r # rs = [] @ (vs @ [r]) @ rs" by simp
    ultimately show ?thesis using s(1) by blast
  next
    case (Inl s)
    with Cons.prems have l: "sup_loop pol opts names rs s = Some st'" by simp
    from round Inl have "verify_round pol r (observation_of names r) p (counted names r st) = Inl s" by auto
    from verify_round_Inl [OF this] Cons.prems(2)
    have v: "ss_rec s = fst (recovery_observe (rp_settleMs pol) (ss_rec st) (observation_of names r))"
        "ep_postAtMs (ss_ep s) = Some p" "ep_postHttp (ss_ep s) = ep_postHttp (ss_ep st)" by auto
    show ?thesis
    proof (cases "all_ok r")
      case True
      with rec v(1) Cons.prems(3) have "tracking (vs @ [r]) (ss_rec s)" by (simp add: tracking_def)
      from Cons.IH [OF l v(2) this Cons.prems(4)] v(3) show ?thesis by simp
    next
      case False
      with rec v(1) have "tracking [] (ss_rec s)" by (simp add: tracking_def)
      from Cons.IH [OF l v(2) this Cons.prems(4)] obtain xs ys zs b where
        "rs = xs @ ys @ zs" "ep_recoveredAtMs (ss_ep st') = Some b" "settled_run (rp_settleMs pol) ys b"
        "ep_postAtMs (ss_ep st') = Some p" "ep_postHttp (ss_ep st') = ep_postHttp (ss_ep s)" by auto
      moreover from this(1) have "vs @ r # rs = (vs @ r # xs) @ ys @ zs" by simp
      ultimately show ?thesis using v(3) by metis
    qed
  qed
qed

lemma act_on_Inl:
  "act_on pol opts r paths st = Inl s \<Longrightarrow> ep_postAtMs (ss_ep st) = None \<Longrightarrow>
   ss_rec s = ss_rec st \<and>
   (ep_postAtMs (ss_ep s) = None \<or>
    ep_postAtMs (ss_ep s) = Some (ri_postAt r) \<and> ep_postHttp (ss_ep s) = Some (ri_postHttp r) \<and>
    200 \<le> ri_postHttp r \<and> ri_postHttp r < 300)"
  by (cases "rd_action (round_decision pol opts r paths st)")
     (auto simp: act_on_def Let_def split: if_splits)

lemma act_on_Inr: "act_on pol opts r paths st = Inr s \<Longrightarrow> ep_outcome (ss_ep s) \<noteq> Recovered"
  by (cases "rd_action (round_decision pol opts r paths st)")
     (auto simp: act_on_def Let_def split: if_splits)

lemma watch_round_Inl:
  "watch_round pol opts r obs st = Inl s \<Longrightarrow> ep_postAtMs (ss_ep st) = None \<Longrightarrow>
   ss_rec s = ss_rec st \<and>
   (ep_postAtMs (ss_ep s) = None \<or>
    ep_postAtMs (ss_ep s) = Some (ri_postAt r) \<and> ep_postHttp (ss_ep s) = Some (ri_postHttp r) \<and>
    200 \<le> ri_postHttp r \<and> ri_postHttp r < 300)"
  unfolding watch_round_def Let_def
  by (auto split: if_splits dest!: act_on_Inl)

lemma watch_round_Inr: "watch_round pol opts r obs st = Inr s \<Longrightarrow> ep_outcome (ss_ep s) \<noteq> Recovered"
  unfolding watch_round_def Let_def
  by (auto split: if_splits dest!: act_on_Inr)

lemma watch_loop:
  "sup_loop pol opts names rs st = Some st' \<Longrightarrow> ep_postAtMs (ss_ep st) = None \<Longrightarrow>
   ss_rec st = None \<Longrightarrow> ep_outcome (ss_ep st') = Recovered \<Longrightarrow>
   \<exists>us q xs ys zs b. rs = us @ q # xs @ ys @ zs \<and> ep_recoveredAtMs (ss_ep st') = Some b \<and>
     settled_run (rp_settleMs pol) ys b \<and> ep_postAtMs (ss_ep st') = Some (ri_postAt q) \<and>
     ep_postHttp (ss_ep st') = Some (ri_postHttp q) \<and> 200 \<le> ri_postHttp q \<and> ri_postHttp q < 300"
proof (induction rs arbitrary: st)
  case Nil
  then show ?case by simp
next
  case (Cons r rs)
  have round: "sup_round pol opts names r st = Inr (finish HardStop (counted names r st)) \<or>
      sup_round pol opts names r st = watch_round pol opts r (observation_of names r) (counted names r st)"
    using sup_round_cases [of pol opts names r st] Cons.prems(2) by simp
  show ?case
  proof (cases "sup_round pol opts names r st")
    case (Inr s)
    with Cons.prems have "ep_outcome (ss_ep s) = Recovered" by simp
    with round Inr watch_round_Inr show ?thesis by fastforce
  next
    case (Inl s)
    with Cons.prems have l: "sup_loop pol opts names rs s = Some st'" by simp
    from round Inl have "watch_round pol opts r (observation_of names r) (counted names r st) = Inl s" by auto
    from watch_round_Inl [OF this] Cons.prems(2,3) have w: "ss_rec s = None"
      "ep_postAtMs (ss_ep s) = None \<or>
       ep_postAtMs (ss_ep s) = Some (ri_postAt r) \<and> ep_postHttp (ss_ep s) = Some (ri_postHttp r) \<and>
       200 \<le> ri_postHttp r \<and> ri_postHttp r < 300" by auto
    show ?thesis
    proof (cases "ep_postAtMs (ss_ep s)")
      case None
      from Cons.IH [OF l None w(1) Cons.prems(4)] obtain us q xs ys zs b where h:
        "rs = us @ q # xs @ ys @ zs" "ep_recoveredAtMs (ss_ep st') = Some b" "settled_run (rp_settleMs pol) ys b"
        "ep_postAtMs (ss_ep st') = Some (ri_postAt q)" "ep_postHttp (ss_ep st') = Some (ri_postHttp q)"
        "200 \<le> ri_postHttp q" "ri_postHttp q < 300" by blast
      from h(1) have "r # rs = (r # us) @ q # xs @ ys @ zs" by simp
      with h show ?thesis by blast
    next
      case (Some p)
      have "tracking [] (ss_rec s)" by (simp add: tracking_def w(1))
      from verify_loop [OF l Some this Cons.prems(4)] obtain xs ys zs b where h:
        "rs = xs @ ys @ zs" "ep_recoveredAtMs (ss_ep st') = Some b" "settled_run (rp_settleMs pol) ys b"
        "ep_postAtMs (ss_ep st') = Some p" "ep_postHttp (ss_ep st') = ep_postHttp (ss_ep s)" by auto
      from h(1) have "r # rs = [] @ r # xs @ ys @ zs" by simp
      moreover from w(2) Some have "p = ri_postAt r" "ep_postHttp (ss_ep s) = Some (ri_postHttp r)"
        "200 \<le> ri_postHttp r" "ri_postHttp r < 300" by auto
      ultimately show ?thesis using h by metis
    qed
  qed
qed

text \<open>An episode that reports "recovered" saw it on the data path: some round sent the restart and
  was answered with a success status, and after it came a run of rounds in all of which every probe
  answered, lasting at least \<open>settleMs\<close>; the reported time is that of the first of them.\<close>

lemma supervise_recovered:
  assumes "supervise pol opts names start rounds = Some (ep, hist)" and "ep_outcome ep = Recovered"
  shows "\<exists>us q xs ys zs b. rounds = us @ q # xs @ ys @ zs \<and> ep_recoveredAtMs ep = Some b \<and>
    settled_run (rp_settleMs pol) ys b \<and> ep_postAtMs ep = Some (ri_postAt q) \<and>
    200 \<le> ri_postHttp q \<and> ri_postHttp q < 300"
proof -
  from assms(1) obtain st where st: "sup_loop pol opts names rounds (sup_init start opts names) = Some st"
      "ep = ss_ep st" by (auto simp: supervise_def)
  have "ep_postAtMs (ss_ep (sup_init start opts names)) = None" "ss_rec (sup_init start opts names) = None"
    by (simp_all add: sup_init_def)
  from watch_loop [OF st(1) this] assms(2) st(2) show ?thesis by blast
qed

subsection \<open>The loop ends\<close>

lemma act_on_started:
  "act_on pol opts r paths st = Inl s \<Longrightarrow> ep_startedAtMs (ss_ep s) = ep_startedAtMs (ss_ep st)"
  by (cases "rd_action (round_decision pol opts r paths st)") (auto simp: act_on_def Let_def split: if_splits)

lemma watch_round_started:
  "watch_round pol opts r obs st = Inl s \<Longrightarrow> ep_startedAtMs (ss_ep s) = ep_startedAtMs (ss_ep st)"
  unfolding watch_round_def Let_def by (auto split: if_splits dest!: act_on_started)

lemma verify_round_started:
  "verify_round pol r obs post st = Inl s \<Longrightarrow> ep_startedAtMs (ss_ep s) = ep_startedAtMs (ss_ep st)"
  by (auto simp: verify_round_def Let_def split: if_splits)

lemma sup_round_started:
  assumes "sup_round pol opts names r st = Inl s"
  shows "ep_startedAtMs (ss_ep s) = ep_startedAtMs (ss_ep st)"
  using sup_round_cases [of pol opts names r st] assms
  by (auto split: option.splits dest: watch_round_started verify_round_started)

definition hard_stop :: "sup_opts \<Rightarrow> int" where
  "hard_stop opts = (case so_hardStopMs opts of None \<Rightarrow> 7200000 | Some h \<Rightarrow> h)"

lemma sup_loop_ends:
  "\<exists>r \<in> set rs. ri_atMs r - ep_startedAtMs (ss_ep st) \<ge> hard_stop opts \<Longrightarrow>
   sup_loop pol opts names rs st \<noteq> None"
proof (induction rs arbitrary: st)
  case Nil
  then show ?case by simp
next
  case (Cons r rs)
  show ?case
  proof (cases "sup_round pol opts names r st")
    case (Inr s)
    then show ?thesis by simp
  next
    case (Inl s)
    then have "\<not> ri_atMs r - ep_startedAtMs (ss_ep st) \<ge> hard_stop opts"
      by (auto simp: sup_round_def hard_stop_def Let_def split: if_splits)
    with Cons.prems sup_round_started [OF Inl]
    have "\<exists>r \<in> set rs. ri_atMs r - ep_startedAtMs (ss_ep s) \<ge> hard_stop opts" by auto
    from Cons.IH [OF this] Inl show ?thesis by simp
  qed
qed

text \<open>An episode always ends: as soon as one round observes a time at or past the hard stop (two
  hours when none is given), whatever the probes and the platform answer, the loop has returned.\<close>

lemma supervise_ends:
  assumes "\<exists>r \<in> set rounds. ri_atMs r - start \<ge> hard_stop opts"
  shows "\<exists>ep hist. supervise pol opts names start rounds = Some (ep, hist)"
proof -
  have "sup_loop pol opts names rounds (sup_init start opts names) \<noteq> None"
    by (rule sup_loop_ends) (use assms in \<open>simp add: sup_init_def\<close>)
  then show ?thesis by (auto simp: supervise_def)
qed

text \<open>A drill: one failing round, a restart that is accepted, one good round.\<close>

definition drill_policy :: runbook_policy where
  "drill_policy =
     DEFAULT_RUNBOOK_POLICY\<lparr>rp_detectAfterMs := 0, rp_detectMinSamples := 1, rp_settleMs := 0\<rparr>"

definition drill_opts :: sup_opts where
  "drill_opts = \<lparr>so_restartsAtMs = [0], so_createdAtMs = None, so_maxWatchMs = 5000, so_hardStopMs = None\<rparr>"

definition drill_round :: "int \<Rightarrow> bool \<Rightarrow> round_io" where
  "drill_round t ok =
     \<lparr>ri_atMs = t, ri_outs = [(ok, None)], ri_status = ''ACTIVE_HEALTHY'',
      ri_gate = Inr \<lparr>gv_proceed = True, gv_blockers = [], gv_warnings = []\<rparr>,
      ri_postAt = t + 1, ri_postHttp = 201, ri_postBody = []\<rparr>"

definition drill :: "round_io list" where
  "drill = [drill_round 1000000 False, drill_round 1002000 True]"

lemmas drill_evals = drill_def drill_round_def drill_opts_def drill_policy_def DEFAULT_RUNBOOK_POLICY_def
  supervise_def sup_init_def sup_round_def watch_round_def verify_round_def act_on_def observation_of_def
  probe_name_def detector_observe_def observe_path_def new_detector_def firstFailAt_def detected_def
  path_detected_def recovery_observe_def round_decision_def polled_status_def polled_gate_def poll_due_def
  rb_decide_def max_opt_def log_decision_def finish_def count_failed_def obj_del_def obj_of_def

lemma drill_runs:
  "\<exists>ep. supervise drill_policy drill_opts [''rest_read''] 999000 drill = Some (ep, [0, 1000001]) \<and>
     ep_outcome ep = Recovered"
  by (simp add: drill_evals Let_def)


end
