(* ===== verification/Outage.thy ===== *)
theory Outage
  imports Host_Pause
begin

text \<open>
  Outage accounting over phases: \<open>experiments/compute-disk/lib/outage.ts\<close> and the parts of
  \<open>disk-change.ts\<close> that build on it. Times are milliseconds on a clock that may read fractions, so
  they are rational, and so are the seconds reported.
\<close>

record sample =
  sm_at :: rat
  sm_ok :: bool

record phase_mark =
  pm_name :: string
  pm_startMs :: rat

record outage =
  og_startMs :: rat
  og_endMs :: rat
  og_phase :: int
  og_open :: bool
  og_failures :: nat

record phase_outage_stats =
  ps_name :: string
  ps_samples :: nat
  ps_ok :: nat
  ps_failures :: nat
  ps_maxOutageS :: rat
  ps_maxOutageOpen :: bool
  ps_totalOutageS :: rat
  ps_outages :: nat
  ps_openAtPhaseEnd :: bool
  ps_carriedInS :: rat
  ps_firstFailS :: "rat option"
  ps_lastRecoveryS :: "rat option"

definition r3 :: "rat \<Rightarrow> rat" where
  "r3 ms = of_int (js_round ms) / 1000"

text \<open>The sign of \<open>a - b\<close>, all that \<open>sort\<close> looks at.\<close>

definition rat_cmp :: "rat \<Rightarrow> rat \<Rightarrow> int" where
  "rat_cmp a b = (if a < b then -1 else if a = b then 0 else 1)"

definition phaseOf :: "rat \<Rightarrow> phase_mark list \<Rightarrow> int" where
  "phaseOf t phases =
     foldl (\<lambda>idx (i, p). if t \<ge> pm_startMs p then int i else idx) (-1) (enumerate 0 phases)"

text \<open>One sample: the closed outages so far and the one that is open.\<close>

definition outage_step :: "phase_mark list \<Rightarrow> outage list \<times> outage option \<Rightarrow> sample \<Rightarrow> outage list \<times> outage option" where
  "outage_step phases st s =
     (if \<not> sm_ok s
      then let cur = (case snd st of
                 Some c \<Rightarrow> c
               | None \<Rightarrow> \<lparr>og_startMs = sm_at s, og_endMs = sm_at s, og_phase = phaseOf (sm_at s) phases,
                          og_open = True, og_failures = 0\<rparr>)
           in (fst st, Some (cur\<lparr>og_failures := og_failures cur + 1\<rparr>))
      else case snd st of
             Some c \<Rightarrow> (fst st @ [c\<lparr>og_endMs := sm_at s, og_open := False\<rparr>], None)
           | None \<Rightarrow> st)"

definition by_time :: "sample list \<Rightarrow> sample list" where
  "by_time samples = sort_by (\<lambda>a b. rat_cmp (sm_at a) (sm_at b)) samples"

definition outagesOf :: "sample list \<Rightarrow> phase_mark list \<Rightarrow> rat \<Rightarrow> outage list" where
  "outagesOf samples phases endMs =
     (let st = foldl (outage_step phases) ([], None) (by_time samples)
      in case snd st of
           None \<Rightarrow> fst st
         | Some c \<Rightarrow> fst st @ [c\<lparr>og_endMs := max endMs (og_startMs c)\<rparr>])"

definition og_len :: "outage \<Rightarrow> rat" where
  "og_len g = og_endMs g - og_startMs g"

definition longest :: "outage list \<Rightarrow> outage option" where
  "longest own =
     foldl (\<lambda>l g. case l of None \<Rightarrow> Some g | Some b \<Rightarrow> if og_len g > og_len b then Some g else l) None own"

definition phase_end :: "phase_mark list \<Rightarrow> rat \<Rightarrow> nat \<Rightarrow> rat" where
  "phase_end phases endMs i = (if i + 1 < length phases then pm_startMs (phases ! (i + 1)) else endMs)"

definition carried_in :: "outage list \<Rightarrow> rat \<Rightarrow> rat \<Rightarrow> nat \<Rightarrow> rat" where
  "carried_in outages start phaseEnd i =
     foldl (\<lambda>c g. if og_phase g \<ge> int i \<or> og_phase g < 0 then c
                  else let fr = max (og_startMs g) start; t = min (og_endMs g) phaseEnd
                       in if t > fr then c + (t - fr) else c) 0 outages"

definition phase_stats :: "sample list \<Rightarrow> phase_mark list \<Rightarrow> rat \<Rightarrow> outage list \<Rightarrow> nat \<Rightarrow> phase_mark \<Rightarrow> phase_outage_stats" where
  "phase_stats samples phases endMs outages i p =
     (let phaseEnd = phase_end phases endMs i;
          mine = filter (\<lambda>s. phaseOf (sm_at s) phases = int i) samples;
          own = filter (\<lambda>g. og_phase g = int i) outages
      in \<lparr>ps_name = pm_name p,
          ps_samples = length mine,
          ps_ok = length (filter sm_ok mine),
          ps_failures = length (filter (\<lambda>s. \<not> sm_ok s) mine),
          ps_maxOutageS = (case longest own of None \<Rightarrow> 0 | Some g \<Rightarrow> r3 (og_len g)),
          ps_maxOutageOpen = (case longest own of None \<Rightarrow> False | Some g \<Rightarrow> og_open g),
          ps_totalOutageS = r3 (foldl (\<lambda>a g. a + og_len g) 0 own),
          ps_outages = length own,
          ps_openAtPhaseEnd = list_ex (\<lambda>g. og_startMs g < phaseEnd \<and>
             (og_endMs g > phaseEnd \<or> (og_open g \<and> og_endMs g \<ge> phaseEnd))) outages,
          ps_carriedInS = r3 (carried_in outages (pm_startMs p) phaseEnd i),
          ps_firstFailS = (if own = [] then None else Some (r3 (og_startMs (hd own) - pm_startMs p))),
          ps_lastRecoveryS = (if own = [] then None else Some (r3 (og_endMs (last own) - pm_startMs p)))\<rparr>)"

definition attribute :: "sample list \<Rightarrow> phase_mark list \<Rightarrow> rat \<Rightarrow> phase_outage_stats list" where
  "attribute samples phases endMs =
     (let outages = outagesOf samples phases endMs
      in map (\<lambda>(i, p). phase_stats samples phases endMs outages i p) (enumerate 0 phases))"

subsection \<open>The timeline\<close>

record timeline =
  tl_samples :: "sample list"
  tl_phases :: "phase_mark list"

definition beginPhase :: "string \<Rightarrow> rat \<Rightarrow> timeline \<Rightarrow> timeline" where
  "beginPhase name t w = w\<lparr>tl_phases := tl_phases w @ [\<lparr>pm_name = name, pm_startMs = t\<rparr>]\<rparr>"

definition add_sample :: "bool \<Rightarrow> rat \<Rightarrow> timeline \<Rightarrow> timeline" where
  "add_sample ok t w = w\<lparr>tl_samples := tl_samples w @ [\<lparr>sm_at = t, sm_ok = ok\<rparr>]\<rparr>"

definition lastFailMs :: "timeline \<Rightarrow> rat option" where
  "lastFailMs w =
     foldl (\<lambda>l s. if \<not> sm_ok s \<and> (case l of None \<Rightarrow> True | Some t \<Rightarrow> sm_at s > t) then Some (sm_at s) else l)
       None (tl_samples w)"

definition timeline_stats :: "rat \<Rightarrow> timeline \<Rightarrow> phase_outage_stats list" where
  "timeline_stats endMs w = attribute (tl_samples w) (tl_phases w) endMs"

definition openTailLowerBound :: "nat \<Rightarrow> nat \<Rightarrow> rat \<Rightarrow> rat \<Rightarrow> int \<times> rat" where
  "openTailLowerBound ok tot maxClosedOutageS intervalMs =
     (let perClosed = \<lfloor>(maxClosedOutageS * 1000 + 1 / 1000000) / intervalMs\<rfloor>;
          closedMax = (if maxClosedOutageS > 0 then int ok * perClosed else 0);
          tailFailures = max 0 (int tot - int ok - closedMax)
      in (tailFailures, if tailFailures > 0 then of_int (tailFailures - 1) * intervalMs / 1000 else 0))"

subsection \<open>disk-change.ts\<close>

record disk_attrs =
  da_type :: "string option"
  da_size_gb :: "int option"
  da_iops :: "int option"
  da_throughput_mibps :: "int option"

definition GP3_MIN_IOPS :: int where
  "GP3_MIN_IOPS = 3000"

definition GP3_IOPS_PER_GB :: int where
  "GP3_IOPS_PER_GB = 500"

definition minSizeGbForIops :: "int \<Rightarrow> int" where
  "minSizeGbForIops iops = \<lceil>(of_int (max iops GP3_MIN_IOPS) / of_int GP3_IOPS_PER_GB :: rat)\<rceil>"

definition attr_reached :: "'a option \<Rightarrow> 'a option \<Rightarrow> bool" where
  "attr_reached got target = (target = None \<or> got = target)"

definition attrsReached :: "disk_attrs option \<Rightarrow> disk_attrs \<Rightarrow> bool" where
  "attrsReached got target =
     (case got of
        None \<Rightarrow> False
      | Some g \<Rightarrow> attr_reached (da_type g) (da_type target) \<and> attr_reached (da_size_gb g) (da_size_gb target) \<and>
                  attr_reached (da_iops g) (da_iops target) \<and>
                  attr_reached (da_throughput_mibps g) (da_throughput_mibps target))"

record cooldown =
  cd_hours :: "int option"
  cd_lastModifiedMs :: "int option"
  cd_lastModifiedText :: string

definition nextAllowedMs :: "cooldown \<Rightarrow> int \<Rightarrow> int \<Rightarrow> int" where
  "nextAllowedMs c fromMs defaultHours =
     (case cd_lastModifiedMs c of None \<Rightarrow> fromMs | Some t \<Rightarrow> t) +
     (case cd_hours c of None \<Rightarrow> defaultHours | Some h \<Rightarrow> h) * 3600000"

record path_sample = sample +
  sm_ms :: rat
  sm_error :: "string option"

definition quantile :: "rat list \<Rightarrow> rat \<Rightarrow> rat option" where
  "quantile xs q =
     (if xs = [] then None
      else let s = sort_by rat_cmp xs
           in Some (s ! nat (min (int (length s) - 1) (max 0 (\<lceil>q * of_nat (length s)\<rceil> - 1)))))"

text \<open>The loop of \<open>maxOkGapMs\<close>: the last success, the longest gap, whether there was a success in range.\<close>

fun ok_gap :: "rat \<Rightarrow> rat \<Rightarrow> rat option \<Rightarrow> rat \<Rightarrow> bool \<Rightarrow> sample list \<Rightarrow> rat option \<times> rat \<times> bool" where
  "ok_gap fr t prev mx found [] = (prev, mx, found)"
| "ok_gap fr t prev mx found (s # ss) =
     (if \<not> sm_ok s then ok_gap fr t prev mx found ss
      else if sm_at s < fr then ok_gap fr t (Some (sm_at s)) mx found ss
      else if sm_at s \<ge> t then (prev, mx, found)
      else ok_gap fr t (Some (sm_at s))
             (max mx (sm_at s - (case prev of None \<Rightarrow> fr | Some p \<Rightarrow> p))) True ss)"

definition maxOkGapMs :: "sample list \<Rightarrow> rat \<Rightarrow> rat \<Rightarrow> rat" where
  "maxOkGapMs samples fr t =
     (let (prev, mx, found) = ok_gap fr t None 0 False samples
      in if \<not> found then t - (case prev of None \<Rightarrow> fr | Some p \<Rightarrow> p) else mx)"

definition phaseAt :: "phase_mark list \<Rightarrow> rat \<Rightarrow> string" where
  "phaseAt phases t = foldl (\<lambda>name p. if t \<ge> pm_startMs p then pm_name p else name) [] phases"

record path_phase_stats =
  pp_phase :: string
  pp_startMs :: rat
  pp_endMs :: rat
  pp_samples :: nat
  pp_failures :: nat
  pp_outages :: nat
  pp_maxOutageS :: rat
  pp_maxOutageOpen :: bool
  pp_maxGapS :: rat
  pp_p50Ms :: "rat option"
  pp_maxMs :: "rat option"
  pp_firstFailS :: "rat option"

definition forget_ms :: "path_sample \<Rightarrow> sample" where
  "forget_ms s = \<lparr>sm_at = sm_at s, sm_ok = sm_ok s\<rparr>"

definition pathPhaseStats :: "path_sample list \<Rightarrow> phase_mark list \<Rightarrow> rat \<Rightarrow> path_phase_stats list" where
  "pathPhaseStats samples phases endMs =
     (let sorted = sort_by (\<lambda>a b. rat_cmp (sm_at a) (sm_at b)) samples;
          att = attribute (map forget_ms sorted) phases endMs
      in map (\<lambda>(i, p).
           let en = phase_end phases endMs i;
               mine = filter (\<lambda>s. sm_at s \<ge> pm_startMs p \<and> sm_at s < en) sorted;
               okMs = map sm_ms (filter sm_ok mine);
               a = att ! i
           in \<lparr>pp_phase = pm_name p, pp_startMs = pm_startMs p, pp_endMs = en, pp_samples = length mine,
               pp_failures = length (filter (\<lambda>s. \<not> sm_ok s) mine), pp_outages = ps_outages a,
               pp_maxOutageS = ps_maxOutageS a, pp_maxOutageOpen = ps_maxOutageOpen a,
               pp_maxGapS = r3 (maxOkGapMs (map forget_ms sorted) (pm_startMs p) en),
               pp_p50Ms = quantile okMs (1 / 2),
               pp_maxMs = (if okMs = [] then None else Some (Max (set okMs))),
               pp_firstFailS = ps_firstFailS a\<rparr>) (enumerate 0 phases))"

text \<open>Disk counters by device, and the change between two snapshots; \<open>Number.NaN\<close> is \<open>None\<close>.\<close>

record disk_counters =
  dc_writtenBytes :: rat
  dc_writes :: rat
  dc_readBytes :: rat
  dc_reads :: rat

record node_snap =
  ns_timeS :: "rat option"
  ns_disks :: "disk_counters obj"
  ns_cpuBusyS :: rat
  ns_cpuIdleS :: rat

record disk_delta =
  dd_device :: string
  dd_seconds :: rat
  dd_writtenMB :: rat
  dd_writes :: rat
  dd_writeMBps :: rat
  dd_writeIops :: rat
  dd_cpuBusyFrac :: rat

definition delta_of :: "node_snap \<Rightarrow> node_snap \<Rightarrow> rat \<Rightarrow> string \<Rightarrow> disk_counters \<Rightarrow> disk_counters \<Rightarrow> disk_delta" where
  "delta_of a b seconds dev d0 d1 =
     (let wb = dc_writtenBytes d1 - dc_writtenBytes d0;
          busy = ns_cpuBusyS b - ns_cpuBusyS a;
          idle = ns_cpuIdleS b - ns_cpuIdleS a
      in \<lparr>dd_device = dev, dd_seconds = of_int (js_round (seconds * 1000)) / 1000,
          dd_writtenMB = of_int (js_round (wb / 100000)) / 10, dd_writes = dc_writes d1 - dc_writes d0,
          dd_writeMBps = of_int (js_round (wb / 100000 / seconds)) / 10,
          dd_writeIops = of_int (js_round ((dc_writes d1 - dc_writes d0) / seconds)),
          dd_cpuBusyFrac = (if busy + idle > 0 then of_int (js_round (busy / (busy + idle) * 1000)) / 1000 else -1)\<rparr>)"

definition diskDelta :: "node_snap \<Rightarrow> node_snap \<Rightarrow> disk_delta option" where
  "diskDelta a b =
     (case (ns_timeS b, ns_timeS a) of
        (Some tb, Some ta) \<Rightarrow>
          (let seconds = tb - ta
           in if \<not> seconds > 0 then None
              else foldl (\<lambda>best (dev, d1).
                     case obj_get (ns_disks a) dev of
                       None \<Rightarrow> best
                     | Some d0 \<Rightarrow>
                         if (case best of None \<Rightarrow> True
                             | Some m \<Rightarrow> (dc_writtenBytes d1 - dc_writtenBytes d0) / 1000000 > dd_writtenMB m)
                         then Some (delta_of a b seconds dev d0 d1) else best) None (ns_disks b))
      | _ \<Rightarrow> None)"

definition mbps :: "rat \<Rightarrow> rat \<Rightarrow> rat" where
  "mbps bytes ms = (if ms > 0 then of_int (js_round (bytes / 1000000 / (ms / 1000) * 10)) / 10 else -1)"

subsection \<open>Outages are the runs of failures\<close>

text \<open>What an outage is to the samples it was made from.\<close>

definition is_outage :: "phase_mark list \<Rightarrow> sample set \<Rightarrow> outage \<Rightarrow> bool" where
  "is_outage phases S g \<longleftrightarrow>
     0 < og_failures g \<and> og_startMs g \<le> og_endMs g \<and> og_phase g = phaseOf (og_startMs g) phases \<and>
     (\<exists>s \<in> S. \<not> sm_ok s \<and> sm_at s = og_startMs g) \<and>
     (\<not> og_open g \<longrightarrow> (\<exists>s \<in> S. sm_ok s \<and> sm_at s = og_endMs g)) \<and>
     (\<forall>s \<in> S. sm_ok s \<longrightarrow> \<not> (og_startMs g < sm_at s \<and> sm_at s < og_endMs g))"

definition cur_outage :: "phase_mark list \<Rightarrow> sample set \<Rightarrow> outage list \<Rightarrow> outage \<Rightarrow> bool" where
  "cur_outage phases S os c \<longleftrightarrow>
     0 < og_failures c \<and> og_open c \<and> og_phase c = phaseOf (og_startMs c) phases \<and>
     (\<exists>s \<in> S. \<not> sm_ok s \<and> sm_at s = og_startMs c) \<and>
     (\<forall>g \<in> set os. og_endMs g \<le> og_startMs c) \<and> (\<forall>s \<in> S. sm_ok s \<longrightarrow> sm_at s \<le> og_startMs c)"

definition scan_inv :: "phase_mark list \<Rightarrow> sample list \<Rightarrow> outage list \<times> outage option \<Rightarrow> bool" where
  "scan_inv phases xs st \<longleftrightarrow>
     (\<forall>g \<in> set (fst st). is_outage phases (set xs) g \<and> \<not> og_open g) \<and>
     sorted_wrt (\<lambda>a b. og_endMs a \<le> og_startMs b) (fst st) \<and>
     (\<forall>c. snd st = Some c \<longrightarrow> cur_outage phases (set xs) (fst st) c) \<and>
     sum_list (map og_failures (fst st)) + (case snd st of None \<Rightarrow> 0 | Some c \<Rightarrow> og_failures c) =
       length (filter (\<lambda>s. \<not> sm_ok s) xs) \<and>
     (\<forall>s \<in> set xs. \<not> sm_ok s \<longrightarrow>
        (\<exists>g \<in> set (fst st). og_startMs g \<le> sm_at s \<and> sm_at s \<le> og_endMs g) \<or>
        (\<exists>c. snd st = Some c \<and> og_startMs c \<le> sm_at s))"

lemma is_outage_mono:
  assumes "is_outage phases S g" "\<not> og_open g" "\<forall>x \<in> S. sm_at x \<le> sm_at s"
  shows "is_outage phases (insert s S) g"
proof -
  from assms obtain x where "x \<in> S" "sm_at x = og_endMs g" by (auto simp: is_outage_def)
  with assms(3) have "og_endMs g \<le> sm_at s" by metis
  with assms(1) show ?thesis by (auto simp: is_outage_def)
qed

lemma outage_end_le:
  assumes "is_outage phases S g" "\<not> og_open g" "\<forall>x \<in> S. sm_at x \<le> t"
  shows "og_endMs g \<le> t"
  using assms by (auto simp: is_outage_def)

lemma scan_fail:
  assumes inv: "scan_inv phases xs st" and le: "\<forall>x \<in> set xs. sm_at x \<le> sm_at s" and f: "\<not> sm_ok s"
  shows "scan_inv phases (xs @ [s]) (outage_step phases st s)"
proof -
  have os: "\<forall>g \<in> set (fst st). is_outage phases (set (xs @ [s])) g \<and> \<not> og_open g"
    using inv le is_outage_mono by (fastforce simp: scan_inv_def)
  have ends: "\<forall>g \<in> set (fst st). og_endMs g \<le> sm_at s"
    using inv le outage_end_le by (fastforce simp: scan_inv_def)
  show ?thesis
  proof (cases "snd st")
    case None
    with inv os ends le f show ?thesis
      by (auto simp: scan_inv_def outage_step_def cur_outage_def)
  next
    case (Some c)
    with inv have c: "cur_outage phases (set xs) (fst st) c" by (simp add: scan_inv_def)
    then have "og_startMs c \<le> sm_at s" using le by (auto simp: cur_outage_def)
    with Some c inv os f show ?thesis
      by (auto simp: scan_inv_def outage_step_def cur_outage_def)
  qed
qed

lemma scan_ok:
  assumes inv: "scan_inv phases xs st" and le: "\<forall>x \<in> set xs. sm_at x \<le> sm_at s" and ok: "sm_ok s"
  shows "scan_inv phases (xs @ [s]) (outage_step phases st s)"
proof -
  have os: "\<forall>g \<in> set (fst st). is_outage phases (set (xs @ [s])) g \<and> \<not> og_open g"
    using inv le is_outage_mono by (fastforce simp: scan_inv_def)
  show ?thesis
  proof (cases "snd st")
    case None
    with inv os ok show ?thesis by (auto simp: scan_inv_def outage_step_def)
  next
    case (Some c)
    with inv have c: "cur_outage phases (set xs) (fst st) c" by (simp add: scan_inv_def)
    let ?c = "c\<lparr>og_endMs := sm_at s, og_open := False\<rparr>"
    have st: "og_startMs c \<le> sm_at s" using c le by (auto simp: cur_outage_def)
    have new: "is_outage phases (set (xs @ [s])) ?c"
      using c st ok by (fastforce simp: is_outage_def cur_outage_def)
    have "sorted_wrt (\<lambda>a b. og_endMs a \<le> og_startMs b) (fst st @ [?c])"
      using inv c by (auto simp: scan_inv_def cur_outage_def sorted_wrt_append)
    moreover have "\<exists>g \<in> set (fst st @ [?c]). og_startMs g \<le> sm_at x \<and> sm_at x \<le> og_endMs g"
      if "x \<in> set (xs @ [s])" "\<not> sm_ok x" for x
      using that ok inv Some le st by (fastforce simp: scan_inv_def)
    ultimately show ?thesis using Some inv os new ok by (simp add: scan_inv_def outage_step_def)
  qed
qed

interpretation time_order: comparator rat_cmp
  by unfold_locales (auto simp: rat_cmp_def split: if_splits)

interpretation by_time: comparator "\<lambda>a b :: sample. rat_cmp (sm_at a) (sm_at b)"
  by (rule comparator_key) (rule time_order.comparator_axioms)

lemma rat_cmp_le: "rat_cmp a b \<le> 0 \<longleftrightarrow> a \<le> b"
  by (auto simp: rat_cmp_def)

lemma by_time_sorted: "sorted_wrt (\<lambda>a b. sm_at a \<le> sm_at b) (by_time xs)"
  using by_time.sorted_sort_by [of xs] by (simp add: by_time_def rat_cmp_le)

lemma scan_all:
  "sorted_wrt (\<lambda>a b. sm_at a \<le> sm_at b) xs \<Longrightarrow> scan_inv phases xs (foldl (outage_step phases) ([], None) xs)"
proof (induction xs rule: rev_induct)
  case Nil
  then show ?case by (simp add: scan_inv_def)
next
  case (snoc s xs)
  then have *: "scan_inv phases xs (foldl (outage_step phases) ([], None) xs)"
      "\<forall>x \<in> set xs. sm_at x \<le> sm_at s" by (auto simp: sorted_wrt_append)
  show ?case using scan_ok [OF *] scan_fail [OF *] by (cases "sm_ok s") simp_all
qed

lemma close_open:
  assumes "cur_outage phases S os c"
  shows "is_outage phases S (c\<lparr>og_endMs := max endMs (og_startMs c)\<rparr>)"
  using assms by (fastforce simp: is_outage_def cur_outage_def)

lemma length_filter_by_time: "length (filter P (by_time xs)) = length (filter P xs)"
proof -
  have "mset (filter P (by_time xs)) = mset (filter P xs)" by (simp add: by_time_def)
  then show ?thesis by (metis size_mset)
qed

lemma set_by_time [simp]: "set (by_time xs) = set xs"
  by (simp add: by_time_def)


definition flap :: "sample list" where
  "flap = [\<lparr>sm_at = 0, sm_ok = True\<rparr>, \<lparr>sm_at = 10, sm_ok = False\<rparr>, \<lparr>sm_at = 30, sm_ok = True\<rparr>,
           \<lparr>sm_at = 20, sm_ok = False\<rparr>, \<lparr>sm_at = 40, sm_ok = False\<rparr>]"


subsection \<open>Nothing is lost between phases\<close>

lemma phaseOf_range: "-1 \<le> phaseOf t phases \<and> phaseOf t phases < int (length phases)"
proof -
  have "-1 \<le> foldl (\<lambda>idx (i, p). if t \<ge> pm_startMs p then int i else idx) k (enumerate n ps) \<and>
      foldl (\<lambda>idx (i, p). if t \<ge> pm_startMs p then int i else idx) k (enumerate n ps) < int (n + length ps)"
    if "-1 \<le> k" "k < int n" for k n ps
    using that
  proof (induction ps arbitrary: k n)
    case Nil
    then show ?case by simp
  next
    case (Cons a ps)
    let ?k = "if t \<ge> pm_startMs a then int n else k"
    have "-1 \<le> ?k" "?k < int (Suc n)" using Cons.prems by auto
    from Cons.IH [OF this] show ?case by (auto split: if_splits)
  qed
  from this [of "-1" 0 phases] show ?thesis by (cases phases) (simp_all add: phaseOf_def)
qed

lemma outages_phase: "g \<in> set (outagesOf samples phases endMs) \<Longrightarrow> og_phase g = phaseOf (og_startMs g) phases"
proof -
  let ?st = "foldl (outage_step phases) ([], None) (by_time samples)"
  have "scan_inv phases (by_time samples) ?st" by (rule scan_all [OF by_time_sorted])
  then show "g \<in> set (outagesOf samples phases endMs) \<Longrightarrow> og_phase g = phaseOf (og_startMs g) phases"
    by (auto simp: outagesOf_def scan_inv_def cur_outage_def is_outage_def Let_def split: option.splits)
qed

lemma count_by_phase:
  "(\<Sum>i \<leftarrow> [0..<n]. length (filter (\<lambda>x. f x = int i) xs)) = length (filter (\<lambda>x. 0 \<le> f x \<and> f x < int n) xs)"
proof (induction xs)
  case Nil
  then show ?case by (simp add: sum_list_0)
next
  case (Cons x xs)
  have "(\<Sum>i \<leftarrow> [0..<n]. length (filter (\<lambda>x. f x = int i) (x # xs))) =
      (\<Sum>i \<leftarrow> [0..<n]. (if f x = int i then 1 else 0) + length (filter (\<lambda>x. f x = int i) xs))"
    by (rule arg_cong [where f = sum_list], rule map_cong) auto
  also have "\<dots> = (\<Sum>i \<leftarrow> [0..<n]. if f x = int i then 1 else 0) + (\<Sum>i \<leftarrow> [0..<n]. length (filter (\<lambda>x. f x = int i) xs))"
    by (rule sum_list_addf)
  also have "(\<Sum>i \<leftarrow> [0..<n]. if f x = int i then 1 else 0) = (if 0 \<le> f x \<and> f x < int n then 1 else (0 :: nat))"
    by (induction n) auto
  finally show ?case using Cons.IH by simp
qed

lemma attribute_sum:
  assumes "\<And>i p. h (phase_stats samples phases endMs outs i p) = length (filter (\<lambda>x. f x = int i) xs)"
    and "\<And>x. x \<in> set xs \<Longrightarrow> f x < int (length phases)" and "outs = outagesOf samples phases endMs"
  shows "sum_list (map h (attribute samples phases endMs)) = length (filter (\<lambda>x. 0 \<le> f x) xs)"
proof -
  have "map h (attribute samples phases endMs) = map (\<lambda>i. length (filter (\<lambda>x. f x = int i) xs)) [0..<length phases]"
    unfolding attribute_def Let_def assms(3) [symmetric] map_map
    by (rule nth_equalityI) (simp_all add: assms(1) nth_enumerate_eq split: prod.splits)
  then have "sum_list (map h (attribute samples phases endMs)) = length (filter (\<lambda>x. 0 \<le> f x \<and> f x < int (length phases)) xs)"
    by (simp add: count_by_phase)
  also have "filter (\<lambda>x. 0 \<le> f x \<and> f x < int (length phases)) xs = filter (\<lambda>x. 0 \<le> f x) xs"
    using assms(2) by (intro filter_cong) auto
  finally show ?thesis .
qed

text \<open>Attribution loses nothing and counts nothing twice: over all phases the outages add up to the
  outages that began in some phase, and the samples and the failures to those taken in some phase. In
  particular an outage that runs across a phase boundary counts once, in the phase it started in.\<close>

lemma attribute_conserves:
  "sum_list (map ps_outages (attribute samples phases endMs)) =
     length (filter (\<lambda>g. 0 \<le> phaseOf (og_startMs g) phases) (outagesOf samples phases endMs)) \<and>
   sum_list (map ps_samples (attribute samples phases endMs)) =
     length (filter (\<lambda>s. 0 \<le> phaseOf (sm_at s) phases) samples) \<and>
   sum_list (map ps_failures (attribute samples phases endMs)) =
     length (filter (\<lambda>s. 0 \<le> phaseOf (sm_at s) phases) (filter (\<lambda>s. \<not> sm_ok s) samples))"
proof (intro conjI)
  have "sum_list (map ps_outages (attribute samples phases endMs)) =
      length (filter (\<lambda>g. 0 \<le> og_phase g) (outagesOf samples phases endMs))"
    by (rule attribute_sum [OF _ _ refl]) (simp_all add: phase_stats_def Let_def outages_phase phaseOf_range)
  also have "filter (\<lambda>g. 0 \<le> og_phase g) (outagesOf samples phases endMs) =
      filter (\<lambda>g. 0 \<le> phaseOf (og_startMs g) phases) (outagesOf samples phases endMs)"
    by (intro filter_cong) (simp_all add: outages_phase)
  finally show "sum_list (map ps_outages (attribute samples phases endMs)) =
      length (filter (\<lambda>g. 0 \<le> phaseOf (og_startMs g) phases) (outagesOf samples phases endMs))" .
  show "sum_list (map ps_samples (attribute samples phases endMs)) =
      length (filter (\<lambda>s. 0 \<le> phaseOf (sm_at s) phases) samples)"
    by (rule attribute_sum [OF _ _ refl]) (simp_all add: phase_stats_def Let_def phaseOf_range)
  show "sum_list (map ps_failures (attribute samples phases endMs)) =
      length (filter (\<lambda>s. 0 \<le> phaseOf (sm_at s) phases) (filter (\<lambda>s. \<not> sm_ok s) samples))"
    by (rule attribute_sum [OF _ _ refl])
       (simp_all add: phase_stats_def Let_def phaseOf_range conj_commute)
qed

lemma minSizeGb_least:
  "minSizeGbForIops iops \<le> gb \<longleftrightarrow> max iops 3000 \<le> 500 * gb"
proof -
  have "(of_int a / 500 \<le> (of_int gb :: rat)) \<longleftrightarrow> (of_int a \<le> (of_int (500 * gb) :: rat))" for a
    by (simp add: field_simps)
  then have "(of_int a / 500 \<le> (of_int gb :: rat)) \<longleftrightarrow> a \<le> 500 * gb" for a
    by (simp only: of_int_le_iff)
  then show ?thesis
    unfolding minSizeGbForIops_def GP3_MIN_IOPS_def GP3_IOPS_PER_GB_def ceiling_le_iff of_int_numeral .
qed

end
