(* ===== verification/Js_Number.thy ===== *)
theory Js_Number
  imports Prelude
begin

text \<open>
  JavaScript numbers read from text: \<open>Number(s)\<close> on a string. A finite number is the exact rational
  the literal denotes; rounding to a double is not modelled. White space around the literal is
  ignored and the empty string is 0.
\<close>

datatype jsnum = NaN | PosInf | NegInf | Fin rat

definition hex_val :: "char \<Rightarrow> nat option" where
  "hex_val c =
     (let n = (of_char c :: nat)
      in if 48 \<le> n \<and> n \<le> 57 then Some (n - 48)
         else if 65 \<le> n \<and> n \<le> 70 then Some (n - 55)
         else if 97 \<le> n \<and> n \<le> 102 then Some (n - 87) else None)"

definition read_base :: "nat \<Rightarrow> string \<Rightarrow> nat option" where
  "read_base b s =
     (if s = [] then None
      else foldl (\<lambda>a c. case (a, hex_val c) of (Some n, Some d) \<Rightarrow> if d < b then Some (b * n + d) else None | _ \<Rightarrow> None)
             (Some 0) s)"

text \<open>A sign: its factor and the rest.\<close>

definition read_sign :: "string \<Rightarrow> rat \<times> string" where
  "read_sign s =
     (case s of [] \<Rightarrow> (1, [])
      | c # t \<Rightarrow> if c = CHR ''-'' then (-1, t) else if c = CHR ''+'' then (1, t) else (1, s))"

text \<open>The exponent part: absent, or \<open>e\<close>, a sign and digits.\<close>

definition read_exp :: "string \<Rightarrow> int option" where
  "read_exp s =
     (case s of [] \<Rightarrow> Some 0
      | c # t \<Rightarrow>
          if c \<noteq> CHR ''e'' \<and> c \<noteq> CHR ''E'' then None
          else let (sg, ds) = read_sign t
               in if ds \<noteq> [] \<and> list_all is_digit ds then Some (if sg < 0 then - int (read_nat ds) else int (read_nat ds))
                  else None)"

definition pow10 :: "int \<Rightarrow> rat" where
  "pow10 e = (if e \<ge> 0 then 10 ^ nat e else 1 / 10 ^ nat (- e))"

text \<open>Unsigned decimal literal: digits, a point, digits, at least one digit, an exponent.\<close>

definition read_decimal :: "string \<Rightarrow> rat option" where
  "read_decimal s =
     (let ip = takeWhile is_digit s; r = dropWhile is_digit s;
          fp = (case r of [] \<Rightarrow> [] | c # t \<Rightarrow> if c = CHR ''.'' then takeWhile is_digit t else []);
          r2 = (case r of [] \<Rightarrow> [] | c # t \<Rightarrow> if c = CHR ''.'' then dropWhile is_digit t else r)
      in if ip = [] \<and> fp = [] then None
         else map_option (\<lambda>e. of_nat (read_nat (ip @ fp)) * pow10 (e - int (length fp))) (read_exp r2))"

definition to_number :: "string \<Rightarrow> jsnum" where
  "to_number str =
     (let s = trim str; (sg, u) = read_sign s
      in if s = [] then Fin 0
         else if u = ''Infinity'' then (if sg < 0 then NegInf else PosInf)
         else if starts_with (to_lower s) ''0x'' then (case read_base 16 (drop 2 s) of None \<Rightarrow> NaN | Some n \<Rightarrow> Fin (of_nat n))
         else if starts_with (to_lower s) ''0o'' then (case read_base 8 (drop 2 s) of None \<Rightarrow> NaN | Some n \<Rightarrow> Fin (of_nat n))
         else if starts_with (to_lower s) ''0b'' then (case read_base 2 (drop 2 s) of None \<Rightarrow> NaN | Some n \<Rightarrow> Fin (of_nat n))
         else case read_decimal u of None \<Rightarrow> NaN | Some x \<Rightarrow> Fin (sg * x))"

definition is_finite_num :: "jsnum \<Rightarrow> bool" where
  "is_finite_num x = (case x of Fin _ \<Rightarrow> True | _ \<Rightarrow> False)"

text \<open>\<open>Number.isInteger\<close>\<close>

definition is_integer_num :: "jsnum \<Rightarrow> bool" where
  "is_integer_num x = (case x of Fin r \<Rightarrow> of_int \<lfloor>r\<rfloor> = r | _ \<Rightarrow> False)"

text \<open>
  The offset a \<open>subarray\<close> or \<open>slice\<close> argument stands for in an array of \<open>n\<close> elements: truncated, counted from
  the end when negative, clamped.
\<close>

definition trunc :: "rat \<Rightarrow> int" where
  "trunc r = (if r < 0 then - \<lfloor>- r\<rfloor> else \<lfloor>r\<rfloor>)"

definition offset :: "nat \<Rightarrow> jsnum \<Rightarrow> nat" where
  "offset n x =
     (case x of NaN \<Rightarrow> 0 | PosInf \<Rightarrow> n | NegInf \<Rightarrow> 0
      | Fin r \<Rightarrow> if trunc r < 0 then nat (int n + trunc r) else min n (nat (trunc r)))"

text \<open>\<open>Math.ceil(a / b)\<close> of whole numbers.\<close>

definition ceil_div :: "nat \<Rightarrow> nat \<Rightarrow> nat" where
  "ceil_div a b = nat \<lceil>(of_nat a :: rat) / of_nat b\<rceil>"

lemma ceil_div_bounds:
  assumes "0 < b"
  shows "a \<le> ceil_div a b * b" "ceil_div a b * b < a + b"
proof -
  let ?q = "(of_nat a :: rat) / of_nat b"
  have b: "(0 :: rat) < of_nat b" using assms by simp
  have q: "?q \<le> of_int \<lceil>?q\<rceil>" "of_int \<lceil>?q\<rceil> < ?q + 1" by linarith+
  have "0 \<le> \<lceil>?q\<rceil>" using b by (simp add: zero_le_ceiling) (meson divide_nonneg_nonneg less_le_trans neg_less_0_iff_less of_nat_0_le_iff zero_less_one)
  then have n: "(of_nat (ceil_div a b) :: rat) = of_int \<lceil>?q\<rceil>" by (simp add: ceil_div_def)
  have "(of_nat a :: rat) = ?q * of_nat b" using b by simp
  also have "\<dots> \<le> of_nat (ceil_div a b) * of_nat b" using q(1) b by (simp only: n mult_le_cancel_right) simp
  finally have "(of_nat a :: rat) \<le> of_nat (ceil_div a b * b)" by simp
  then show "a \<le> ceil_div a b * b" by (simp only: of_nat_le_iff)
  have "of_nat (ceil_div a b) * of_nat b < (?q + 1) * of_nat b" using q(2) b by (simp only: n mult_less_cancel_right) simp
  also have "\<dots> = of_nat a + of_nat b" using b by (simp add: distrib_right)
  finally have "(of_nat (ceil_div a b * b) :: rat) < of_nat (a + b)" by simp
  then show "ceil_div a b * b < a + b" by (simp only: of_nat_less_iff)
qed

subsection \<open>Numerals read back\<close>

lemma trim_digits: "s \<noteq> [] \<Longrightarrow> list_all is_digit s \<Longrightarrow> trim s = s"
proof -
  have ws: "is_digit c \<Longrightarrow> \<not> is_ws c" for c by (auto simp: is_digit_def is_ws_def)
  assume "s \<noteq> []" "list_all is_digit s"
  then have "\<not> is_ws (hd s)" "\<not> is_ws (hd (rev s))" using ws
    by (auto simp: list_all_iff hd_rev)
  then have "dropWhile is_ws s = s" "dropWhile is_ws (rev s) = rev s" by (simp_all add: dropWhile_eq_self_iff)
  then show ?thesis by (simp add: trim_def trim_start_def trim_end_def)
qed

lemma read_decimal_digits:
  assumes "s \<noteq> []" "list_all is_digit s"
  shows "read_decimal s = Some (of_nat (read_nat s))"
proof -
  have "takeWhile is_digit s = s" "dropWhile is_digit s = []" using assms(2) by (simp_all add: list_all_iff)
  with assms(1) show ?thesis by (simp add: read_decimal_def read_exp_def pow10_def del: takeWhile_eq_all_conv dropWhile_eq_Nil_conv)
qed

lemma second_char_not_digit:
  "list_all is_digit s \<Longrightarrow> starts_with (to_lower s) [a, b] \<Longrightarrow> is_lower b \<Longrightarrow> False"
proof -
  assume d: "list_all is_digit s" and p: "starts_with (to_lower s) [a, b]" and l: "is_lower b"
  from p obtain x y t where "s = x # y # t" "lower_char y = b"
    by (cases s; cases "tl s") (auto simp: to_lower_def)
  with d l show False by (auto simp: is_digit_def is_lower_def lower_char_def Let_def split: if_splits)
qed

lemma to_number_digits:
  assumes "s \<noteq> []" "list_all is_digit s"
  shows "to_number s = Fin (of_nat (read_nat s))"
proof -
  have t: "trim s = s" by (rule trim_digits [OF assms])
  have sg: "read_sign s = (1, s)"
    using assms by (cases s) (auto simp: read_sign_def is_digit_def)
  have no: "\<not> starts_with (to_lower s) ''0x''" "\<not> starts_with (to_lower s) ''0o''" "\<not> starts_with (to_lower s) ''0b''"
    using second_char_not_digit [OF assms(2), of "CHR ''0''" "CHR ''x''"]
      second_char_not_digit [OF assms(2), of "CHR ''0''" "CHR ''o''"]
      second_char_not_digit [OF assms(2), of "CHR ''0''" "CHR ''b''"] by (auto simp: is_lower_def)
  have inf: "s \<noteq> ''Infinity''" using assms(2) by (auto simp: is_digit_def)
  show ?thesis using assms(1) no inf by (simp add: to_number_def t sg read_decimal_digits [OF assms])
qed

lemma to_number_show_nat: "to_number (show_nat n) = Fin (of_nat n)"
  using to_number_digits [of "show_nat n"] show_nat_digits [of _ n] by (simp add: list_all_iff)

end
