(* ===== verification/Slots.thy ===== *)
theory Slots
  imports RegExp Js_Number Host_Pause "HOL-Library.Word"
begin

text \<open>
  \<open>experiments/restore-paths/lib/slots.ts\<close>: log sequence numbers, the decoders of logical
  replication messages, and the ledger that says what a consumer received twice and what it never
  received. A buffer is a list of bytes, text in it is read as Latin-1; a log position is a natural
  number (a non-negative bigint). Reading past the end of a buffer throws. \<open>JSON.parse\<close> of a line
  is an argument of the wal2json decoder.
\<close>

datatype slot_error = NotAnLsn string | OutOfRange

subsection \<open>LSN helpers\<close>

definition is_hex :: "char \<Rightarrow> bool" where
  "is_hex c = (hex_val c \<noteq> None)"

definition lsn_re :: re where
  "lsn_re = Seq Bol (Seq (Grp 1 (Plus (Cls is_hex))) (Seq (Lit ''/'') (Seq (Grp 2 (Plus (Cls is_hex))) Eol)))"

definition read_hex :: "string \<Rightarrow> nat" where
  "read_hex s = foldl (\<lambda>n c. 16 * n + (case hex_val c of None \<Rightarrow> 0 | Some d \<Rightarrow> d)) 0 s"

definition lsnToBig :: "string \<Rightarrow> slot_error + nat" where
  "lsnToBig lsn =
     (case (re_group 1 lsn_re (trim lsn), re_group 2 lsn_re (trim lsn)) of
        (Some hi, Some lo) \<Rightarrow> Inr (read_hex hi * 2 ^ 32 + read_hex lo)
      | _ \<Rightarrow> Inl (NotAnLsn lsn))"

definition hex_digit :: "nat \<Rightarrow> char" where
  "hex_digit n = ''0123456789ABCDEF'' ! n"

fun show_hex :: "nat \<Rightarrow> string" where
  "show_hex n = (if n < 16 then [hex_digit n] else show_hex (n div 16) @ [hex_digit (n mod 16)])"

declare show_hex.simps [simp del]

definition bigToLsn :: "nat \<Rightarrow> string" where
  "bigToLsn b = show_hex (b div 2 ^ 32) @ ''/'' @ show_hex (b mod 2 ^ 32)"

subsection \<open>Decoders\<close>

record decoded_tx =
  tx_endLsn :: nat
  tx_ids :: "jsnum list"

type_synonym buffer = "8 word list"

definition byte_at :: "buffer \<Rightarrow> nat \<Rightarrow> 8 word" where
  "byte_at m i = (if i < length m then m ! i else 0)"

definition char_at :: "buffer \<Rightarrow> nat \<Rightarrow> char" where
  "char_at m i = char_of (unat (byte_at m i))"

definition read_be :: "buffer \<Rightarrow> nat \<Rightarrow> nat \<Rightarrow> slot_error + nat" where
  "read_be m off n =
     (if off + n \<le> length m then Inr (foldl (\<lambda>a b. 256 * a + unat b) 0 (take n (drop off m))) else Inl OutOfRange)"

text \<open>Two's complement: \<open>readInt16BE\<close> and \<open>readInt32BE\<close>.\<close>

definition signed_of :: "nat \<Rightarrow> nat \<Rightarrow> int" where
  "signed_of bits n = (if n < 2 ^ (bits - 1) then int n else int n - 2 ^ bits)"

text \<open>\<open>m.subarray(a, b)\<close>: a negative end counts from the end of the buffer.\<close>

definition subarray :: "buffer \<Rightarrow> nat \<Rightarrow> int \<Rightarrow> buffer" where
  "subarray m a b =
     (let e = (if b < 0 then nat (int (length m) + b) else nat b) in take (e - a) (drop a m))"

definition bytes_str :: "buffer \<Rightarrow> string" where
  "bytes_str bs = map (\<lambda>b. char_of (unat b)) bs"

text \<open>The id an insert message carries: nothing, or a number.\<close>

definition insert_id :: "buffer \<Rightarrow> slot_error + jsnum option" where
  "insert_id m =
     (if char_at m 5 \<noteq> CHR ''N'' then Inr None
      else case read_be m 6 2 of
             Inl e \<Rightarrow> Inl e
           | Inr nc \<Rightarrow>
               if signed_of 16 nc < 1 then Inr None
               else if char_at m 8 \<noteq> CHR ''t'' then Inr None
               else (case read_be m 9 4 of
                       Inl e \<Rightarrow> Inl e
                     | Inr l \<Rightarrow>
                         (let i = to_number (bytes_str (subarray m 13 (13 + signed_of 32 l)))
                          in Inr (if is_finite_num i then Some i else None))))"

type_synonym decode_state = "decoded_tx list \<times> decoded_tx option"

definition pgoutput_msg :: "decode_state \<Rightarrow> buffer \<Rightarrow> slot_error + decode_state" where
  "pgoutput_msg st m =
     (let kind = char_at m 0
      in if kind = CHR ''B'' then Inr (fst st, Some \<lparr>tx_endLsn = 0, tx_ids = []\<rparr>)
         else case snd st of
                None \<Rightarrow> Inr st
              | Some cur \<Rightarrow>
                  if kind = CHR ''I''
                  then (case insert_id m of
                          Inl e \<Rightarrow> Inl e
                        | Inr None \<Rightarrow> Inr st
                        | Inr (Some i) \<Rightarrow> Inr (fst st, Some (cur\<lparr>tx_ids := tx_ids cur @ [i]\<rparr>)))
                  else if kind = CHR ''C''
                  then (case read_be m 10 8 of
                          Inl e \<Rightarrow> Inl e
                        | Inr l \<Rightarrow> Inr (fst st @ [cur\<lparr>tx_endLsn := l\<rparr>], None))
                  else Inr st)"

fun fold_sum :: "('s \<Rightarrow> 'a \<Rightarrow> 'e + 's) \<Rightarrow> 's \<Rightarrow> 'a list \<Rightarrow> 'e + 's" where
  "fold_sum f st [] = Inr st"
| "fold_sum f st (x # xs) = (case f st x of Inl e \<Rightarrow> Inl e | Inr st' \<Rightarrow> fold_sum f st' xs)"

definition parsePgoutput :: "buffer list \<Rightarrow> slot_error + decoded_tx list" where
  "parsePgoutput msgs = map_sum (\<lambda>e. e) fst (fold_sum pgoutput_msg ([], None) msgs)"

text \<open>One wal2json object; the values of the columns already read with \<open>Number\<close>.\<close>

record wal_json =
  wj_action :: "string option"
  wj_nextlsn :: "string option"
  wj_table :: "string option"
  wj_columns :: "(string \<times> jsnum option) list option"

definition wal_line :: "(string \<Rightarrow> wal_json option) \<Rightarrow> decode_state \<Rightarrow> string \<Rightarrow> slot_error + decode_state" where
  "wal_line parse st line =
     (if trim line = [] then Inr st
      else case parse line of
             None \<Rightarrow> Inr st
           | Some j \<Rightarrow>
               if wj_action j = Some ''B'' then Inr (fst st, Some \<lparr>tx_endLsn = 0, tx_ids = []\<rparr>)
               else case snd st of
                      None \<Rightarrow> Inr st
                    | Some cur \<Rightarrow>
                        if wj_action j = Some ''I'' \<and> wj_table j = Some ''rp_slot_events''
                        then (case Option.bind (wj_columns j) (\<lambda>cs. Option.bind (find (\<lambda>c. fst c = ''id'') cs) snd) of
                                None \<Rightarrow> Inr st
                              | Some i \<Rightarrow> Inr (fst st, Some (cur\<lparr>tx_ids := tx_ids cur @ [i]\<rparr>)))
                        else if wj_action j = Some ''C''
                        then (case (if truthy (wj_nextlsn j) then lsnToBig (the (wj_nextlsn j)) else Inr 0) of
                                Inl e \<Rightarrow> Inl e
                              | Inr l \<Rightarrow> Inr (fst st @ [cur\<lparr>tx_endLsn := l\<rparr>], None))
                        else Inr st)"

definition parseWal2json :: "(string \<Rightarrow> wal_json option) \<Rightarrow> string list \<Rightarrow> slot_error + decoded_tx list" where
  "parseWal2json parse lines = map_sum (\<lambda>e. e) fst (fold_sum (wal_line parse) ([], None) lines)"

subsection \<open>Ledger\<close>

record redelivery =
  rv_id :: jsnum
  rv_phase :: string
  rv_endLsn :: string
  rv_rewind :: bool

record ledger =
  lg_name :: string
  lg_seen :: "(jsnum \<times> string) list"
  lg_received :: "(jsnum \<times> string \<times> int) list"
  lg_redeliveries :: "redelivery list"
  lg_confirmed :: nat
  lg_maxEnd :: nat
  lg_lastOkAt :: int
  lg_stalls :: "(string \<times> int) list"
  lg_errors :: "string list"
  lg_calls :: nat

definition new_ledger :: "string \<Rightarrow> ledger" where
  "new_ledger name =
     \<lparr>lg_name = name, lg_seen = [], lg_received = [], lg_redeliveries = [], lg_confirmed = 0, lg_maxEnd = 0,
      lg_lastOkAt = 0, lg_stalls = [], lg_errors = [], lg_calls = 0\<rparr>"

definition take_id :: "nat \<Rightarrow> string \<Rightarrow> nat \<Rightarrow> int \<Rightarrow> ledger \<Rightarrow> jsnum \<Rightarrow> ledger" where
  "take_id endLsn phase before_lsn t l i =
     (let l1 = (if i \<in> fst ` set (lg_seen l)
                then l\<lparr>lg_redeliveries := lg_redeliveries l @
                       [\<lparr>rv_id = i, rv_phase = phase, rv_endLsn = bigToLsn endLsn, rv_rewind = (endLsn \<le> before_lsn)\<rparr>]\<rparr>
                else l\<lparr>lg_seen := lg_seen l @ [(i, phase)]\<rparr>)
      in l1\<lparr>lg_received := lg_received l1 @ [(i, phase, t)]\<rparr>)"

definition ledger_take :: "ledger \<Rightarrow> decoded_tx \<Rightarrow> string \<Rightarrow> nat \<Rightarrow> int \<Rightarrow> ledger" where
  "ledger_take l tx phase before_lsn t =
     (let l1 = foldl (take_id (tx_endLsn tx) phase before_lsn t) l (tx_ids tx)
      in if tx_endLsn tx > lg_maxEnd l1 then l1\<lparr>lg_maxEnd := tx_endLsn tx\<rparr> else l1)"

definition ledger_ok :: "string \<Rightarrow> int \<Rightarrow> ledger \<Rightarrow> ledger" where
  "ledger_ok phase t l =
     (let l1 = (if lg_lastOkAt l \<noteq> 0 \<and> t - lg_lastOkAt l > 5000
                then l\<lparr>lg_stalls := lg_stalls l @ [(phase, js_round (of_int (t - lg_lastOkAt l) / 1000))]\<rparr> else l)
      in l1\<lparr>lg_lastOkAt := t\<rparr>)"

definition ledger_err :: "string \<Rightarrow> ledger \<Rightarrow> ledger" where
  "ledger_err e l =
     (if e \<notin> set (lg_errors l) \<and> length (lg_errors l) < 20 then l\<lparr>lg_errors := lg_errors l @ [e]\<rparr> else l)"

definition gaps :: "(jsnum \<times> string) list \<Rightarrow> ledger \<Rightarrow> (jsnum \<times> string) list" where
  "gaps acked l = filter (\<lambda>a. fst a \<notin> fst ` set (lg_seen l)) acked"

record phase_counts =
  ct_dup :: nat
  ct_dupRewind :: nat
  ct_gap :: nat
  ct_recv :: nat

definition phaseCounts :: "string \<Rightarrow> (jsnum \<times> string) list \<Rightarrow> ledger \<Rightarrow> phase_counts" where
  "phaseCounts phase acked l =
     (let dup = filter (\<lambda>r. rv_phase r = phase) (lg_redeliveries l)
      in \<lparr>ct_dup = length dup, ct_dupRewind = length (filter rv_rewind dup),
          ct_gap = length (filter (\<lambda>g. snd g = phase) (gaps acked l)),
          ct_recv = length (filter (\<lambda>r. fst (snd r) = phase) (lg_received l))\<rparr>)"

subsection \<open>The SQL consumer\<close>

text \<open>
  What one round of the loop meets: it cannot connect, the call (or decoding its answer) fails, or it
  answers with transactions in a phase; \<open>t\<close> is the time at which they are recorded.
\<close>

datatype sql_call = ConnectFails string | CallFails string | CallReturns "decoded_tx list" string int

definition blank_run_re :: re where
  "blank_run_re = Plus (Cls is_ws)"

definition short_error :: "string \<Rightarrow> string" where
  "short_error e = take 160 (replace_all blank_run_re (\<lambda>_. '' '') e)"

definition sql_round :: "ledger \<Rightarrow> sql_call \<Rightarrow> ledger" where
  "sql_round l c =
     (let l0 = l\<lparr>lg_calls := lg_calls l + 1\<rparr>
      in case c of
           ConnectFails e \<Rightarrow> ledger_err (short_error e) l
         | CallFails e \<Rightarrow> ledger_err (short_error e) l0
         | CallReturns txs phase t \<Rightarrow>
             (let l1 = foldl (\<lambda>a tx. ledger_take a tx phase (lg_confirmed a) t) l0 txs;
                  l2 = foldl (\<lambda>a tx. if tx_endLsn tx > lg_confirmed a then a\<lparr>lg_confirmed := tx_endLsn tx\<rparr> else a) l1 txs
              in ledger_ok phase t l2))"

definition sqlConsumer :: "string \<Rightarrow> sql_call list \<Rightarrow> ledger" where
  "sqlConsumer name calls = foldl sql_round (new_ledger name) calls"

subsection \<open>Slot snapshots\<close>

record slot_row =
  sl_slot_name :: string
  sl_plugin :: "string option"
  sl_slot_type :: string
  sl_active :: bool
  sl_restart_lsn :: "string option"
  sl_confirmed_flush_lsn :: "string option"
  sl_wal_status :: "string option"
  sl_retained_bytes :: "string option"

definition null_str :: "string option \<Rightarrow> string" where
  "null_str x = (case x of None \<Rightarrow> ''null'' | Some s \<Rightarrow> s)"

definition snap_slot :: "slot_row \<Rightarrow> string" where
  "snap_slot x =
     sl_slot_name x @ ''('' @ sl_slot_type x @ (if truthy (sl_plugin x) then ''/'' @ the (sl_plugin x) else []) @
     '') active='' @ (if sl_active x then ''true'' else ''false'') @ '' restart='' @ null_str (sl_restart_lsn x) @
     '' confirmed='' @ null_str (sl_confirmed_flush_lsn x) @ '' retained='' @ null_str (sl_retained_bytes x) @
     '' wal_status='' @ null_str (sl_wal_status x)"

definition snapLine :: "slot_row list option \<Rightarrow> string" where
  "snapLine s = (case s of None \<Rightarrow> ''none'' | Some slots \<Rightarrow> join ''; '' (map snap_slot slots))"

subsection \<open>Log positions read back\<close>

lemma hex_digit_val: "n < 16 \<Longrightarrow> hex_val (hex_digit n) = Some n"
proof -
  assume "n < 16"
  then have "n \<in> set [0..<16]" by simp
  moreover have "\<forall>n \<in> set [0..<16]. hex_val (hex_digit n) = Some n" by code_simp
  ultimately show ?thesis by blast
qed

lemma is_hex_digit: "n < 16 \<Longrightarrow> is_hex (hex_digit n)"
  by (simp add: is_hex_def hex_digit_val)

lemma show_hex_hex: "list_all is_hex (show_hex n)"
proof (induction n rule: show_hex.induct)
  case (1 n)
  then show ?case by (subst show_hex.simps) (auto simp: is_hex_digit)
qed

lemma show_hex_ne [simp]: "show_hex n \<noteq> []"
  by (subst show_hex.simps) simp

lemma read_show_hex [simp]: "read_hex (show_hex n) = n"
proof (induction n rule: show_hex.induct)
  case (1 n)
  show ?case
  proof (cases "n < 16")
    case True
    then show ?thesis by (simp add: show_hex.simps [of n] read_hex_def hex_digit_val)
  next
    case False
    with 1 have "read_hex (show_hex (n div 16)) = n div 16" by simp
    with False show ?thesis by (simp add: show_hex.simps [of n] read_hex_def hex_digit_val)
  qed
qed

lemma hex_not_ws: "is_hex c \<Longrightarrow> \<not> is_ws c \<and> c \<noteq> CHR ''/''"
  by (auto simp: is_hex_def hex_val_def is_ws_def Let_def split: if_splits)

lemma trim_hex_pair:
  assumes "list_all is_hex h" "list_all is_hex l" "h \<noteq> []" "l \<noteq> []"
  shows "trim (h @ ''/'' @ l) = h @ ''/'' @ l"
proof -
  have "\<not> is_ws (hd (h @ ''/'' @ l))" "\<not> is_ws (hd (rev (h @ ''/'' @ l)))"
    using assms hex_not_ws by (auto simp: list_all_iff hd_append hd_rev)
  then have "dropWhile is_ws (h @ ''/'' @ l) = h @ ''/'' @ l"
      "dropWhile is_ws (rev (h @ ''/'' @ l)) = rev (h @ ''/'' @ l)"
    by (simp_all add: dropWhile_eq_self_iff)
  then show ?thesis by (simp add: trim_def trim_start_def trim_end_def del: rev_append)
qed

lemma hex_pair_unique:
  assumes "h @ CHR ''/'' # l = a @ CHR ''/'' # b" "list_all is_hex h" "list_all is_hex a"
  shows "a = h \<and> b = l"
proof -
  have "takeWhile is_hex (h @ CHR ''/'' # l) = h" "takeWhile is_hex (a @ CHR ''/'' # b) = a"
    using assms(2,3) hex_not_ws [of "CHR ''/''"] by (auto simp: takeWhile_append2 list_all_iff)
  with assms(1) show ?thesis by auto
qed

lemma lsn_re_groups:
  assumes "list_all is_hex h" "list_all is_hex l" "h \<noteq> []" "l \<noteq> []"
  shows "re_group 1 lsn_re (h @ ''/'' @ l) = Some h" and "re_group 2 lsn_re (h @ ''/'' @ l) = Some l"
proof -
  let ?r = "Seq (Grp 1 (Plus (Cls is_hex))) (Seq (Lit ''/'') (Seq (Grp 2 (Plus (Cls is_hex))) Eol))"
  let ?s = "h @ ''/'' @ l"
  have sem: "re_sem ?r (at_pos [] ?s) e \<longleftrightarrow>
      e = \<lparr>before = rev ?s, after = [], caps = [(2, l), (1, h)]\<rparr>" for e
  proof
    assume "re_sem ?r (at_pos [] ?s) e"
    then obtain a b m1 m2 m3 where
        a: "a \<noteq> []" "consumes a (at_pos [] ?s) m1" "list_all is_hex a" "caps m1 = []"
      and m2: "consumes ''/'' (m1\<lparr>caps := (1, take (length ?s - length (after m1)) ?s) # caps m1\<rparr>) m2"
        "caps m2 = (1, take (length ?s - length (after m1)) ?s) # caps m1"
      and b: "b \<noteq> []" "consumes b m2 m3" "list_all is_hex b" "caps m3 = caps m2" "after m3 = []"
      and e: "e = m3\<lparr>caps := (2, take (length (after m2) - length (after m3)) (after m2)) # caps m3\<rparr>"
      by (auto simp: plus_cls_sem re_sem_Lit simp del: Lit.simps)
    from a(2) m2(1) b(2,5) have "h @ CHR ''/'' # l = a @ CHR ''/'' # b" by (simp add: consumes_def)
    from hex_pair_unique [OF this assms(1) a(3)] have ab: "a = h" "b = l" by auto
    show "e = \<lparr>before = rev ?s, after = [], caps = [(2, l), (1, h)]\<rparr>"
      using a m2 b e ab by (simp add: consumes_def)
  next
    assume e: "e = \<lparr>before = rev ?s, after = [], caps = [(2, l), (1, h)]\<rparr>"
    have "re_sem (Plus (Cls is_hex)) (at_pos [] ?s) \<lparr>before = rev h, after = ''/'' @ l, caps = []\<rparr>"
      using assms by (auto simp: plus_cls_sem consumes_def)
    then have 1: "re_sem (Grp 1 (Plus (Cls is_hex))) (at_pos [] ?s)
        \<lparr>before = rev h, after = ''/'' @ l, caps = [(1, h)]\<rparr>" by force
    have 2: "re_sem (Lit ''/'') \<lparr>before = rev h, after = ''/'' @ l, caps = [(1, h)]\<rparr>
        \<lparr>before = CHR ''/'' # rev h, after = l, caps = [(1, h)]\<rparr>"
      by (simp add: re_sem_Lit consumes_def del: Lit.simps)
    have "re_sem (Plus (Cls is_hex)) \<lparr>before = CHR ''/'' # rev h, after = l, caps = [(1, h)]\<rparr>
        \<lparr>before = rev l @ CHR ''/'' # rev h, after = [], caps = [(1, h)]\<rparr>"
      using assms by (auto simp: plus_cls_sem consumes_def)
    then have 3: "re_sem (Seq (Grp 2 (Plus (Cls is_hex))) Eol)
        \<lparr>before = CHR ''/'' # rev h, after = l, caps = [(1, h)]\<rparr> e" using e by force
    show "re_sem ?r (at_pos [] ?s) e" using 1 2 3 by (meson re_sem.simps(3))
  qed
  show "re_group 1 lsn_re ?s = Some h" "re_group 2 lsn_re ?s = Some l"
    unfolding lsn_re_def
    by (rule re_group_Bol [of _ _ _ _ "\<lparr>before = rev ?s, after = [], caps = [(2, l), (1, h)]\<rparr>"];
        simp only: sem; simp)+
qed

text \<open>Printing a log position and reading it back gives the position, for every position.\<close>

lemma lsn_roundtrip: "lsnToBig (bigToLsn b) = Inr b"
proof -
  let ?h = "show_hex (b div 2 ^ 32)" and ?l = "show_hex (b mod 2 ^ 32)"
  note hex = show_hex_hex [of "b div 2 ^ 32"] show_hex_hex [of "b mod 2 ^ 32"]
  have t: "trim (bigToLsn b) = ?h @ ''/'' @ ?l"
    unfolding bigToLsn_def by (rule trim_hex_pair) (use hex in simp_all)
  have "re_group 1 lsn_re (?h @ ''/'' @ ?l) = Some ?h" "re_group 2 lsn_re (?h @ ''/'' @ ?l) = Some ?l"
    by (rule lsn_re_groups; use hex in simp)+
  then show ?thesis unfolding lsnToBig_def t by simp
qed

subsection \<open>What the ledger says\<close>

text \<open>
  Every delivery of a run, in order: the id, where its transaction ended, and the position the slot had
  confirmed before the call that delivered it, which is the furthest end any earlier call returned.
\<close>

definition call_deliveries :: "nat \<Rightarrow> decoded_tx list \<Rightarrow> (jsnum \<times> nat \<times> nat) list" where
  "call_deliveries b txs = concat (map (\<lambda>tx. map (\<lambda>i. (i, tx_endLsn tx, b)) (tx_ids tx)) txs)"

fun deliveries :: "nat \<Rightarrow> sql_call list \<Rightarrow> (jsnum \<times> nat \<times> nat) list" where
  "deliveries b [] = []"
| "deliveries b (CallReturns txs phase t # cs) =
     call_deliveries b txs @ deliveries (foldl max b (map tx_endLsn txs)) cs"
| "deliveries b (CallFails e # cs) = deliveries b cs"
| "deliveries b (ConnectFails e # cs) = deliveries b cs"

text \<open>The deliveries of an id that had been delivered before.\<close>

fun repeats :: "jsnum set \<Rightarrow> (jsnum \<times> nat \<times> nat) list \<Rightarrow> (jsnum \<times> nat \<times> nat) list" where
  "repeats S [] = []"
| "repeats S (x # xs) = (if fst x \<in> S then [x] else []) @ repeats (insert (fst x) S) xs"

lemma repeats_snoc: "repeats S (xs @ [x]) = repeats S xs @ (if fst x \<in> S \<union> fst ` set xs then [x] else [])"
  by (induction xs arbitrary: S) auto

definition records :: "(jsnum \<times> nat \<times> nat) list \<Rightarrow> ledger \<Rightarrow> bool" where
  "records evs l \<longleftrightarrow>
     map fst (lg_received l) = map fst evs \<and>
     map fst (lg_seen l) = uniq (map fst evs) \<and>
     map (\<lambda>r. (rv_id r, rv_rewind r)) (lg_redeliveries l) = map (\<lambda>(i, e, b). (i, e \<le> b)) (repeats {} evs)"

lemma records_seen: "records evs l \<Longrightarrow> fst ` set (lg_seen l) = fst ` set evs"
proof -
  assume "records evs l"
  then have "set (map fst (lg_seen l)) = set (uniq (map fst evs))" by (simp only: records_def)
  then show "fst ` set (lg_seen l) = fst ` set evs" by simp
qed

lemma take_id_records:
  assumes "records evs l"
  shows "records (evs @ [(i, e, b)]) (take_id e phase b t l i)"
proof (cases "i \<in> fst ` set evs")
  case True
  with assms records_seen [OF assms] show ?thesis
    by (simp add: records_def take_id_def Let_def repeats_snoc uniq_snoc)
next
  case False
  with assms records_seen [OF assms] show ?thesis
    by (simp add: records_def take_id_def Let_def repeats_snoc uniq_snoc)
qed

lemma take_ids_records:
  "records evs l \<Longrightarrow>
   records (evs @ map (\<lambda>i. (i, e, b)) is) (foldl (take_id e phase b t) l is)"
proof (induction "is" arbitrary: evs l)
  case Nil
  then show ?case by simp
next
  case (Cons i "is")
  from Cons.IH [OF take_id_records [OF Cons.prems]] show ?case by simp
qed

lemma take_ids_confirmed: "lg_confirmed (foldl (take_id e phase b t) l is) = lg_confirmed l"
proof -
  have "lg_confirmed (take_id e phase b t l i) = lg_confirmed l" for l i by (simp add: take_id_def Let_def)
  then show ?thesis by (induction "is" arbitrary: l) simp_all
qed

lemma ledger_take_records:
  assumes "records evs l"
  shows "records (evs @ map (\<lambda>i. (i, tx_endLsn tx, b)) (tx_ids tx)) (ledger_take l tx phase b t)"
    and "lg_confirmed (ledger_take l tx phase b t) = lg_confirmed l"
proof -
  have "records evs' (l'\<lparr>lg_maxEnd := m\<rparr>) \<longleftrightarrow> records evs' l'" for evs' l' m by (simp add: records_def)
  with take_ids_records [OF assms, of "tx_endLsn tx" b "tx_ids tx" phase t]
  show "records (evs @ map (\<lambda>i. (i, tx_endLsn tx, b)) (tx_ids tx)) (ledger_take l tx phase b t)"
    by (simp add: ledger_take_def Let_def)
  show "lg_confirmed (ledger_take l tx phase b t) = lg_confirmed l"
    by (simp add: ledger_take_def Let_def take_ids_confirmed)
qed

lemma take_txs_records:
  "records evs l \<Longrightarrow> lg_confirmed l = b \<Longrightarrow>
   records (evs @ call_deliveries b txs) (foldl (\<lambda>a tx. ledger_take a tx phase (lg_confirmed a) t) l txs) \<and>
   lg_confirmed (foldl (\<lambda>a tx. ledger_take a tx phase (lg_confirmed a) t) l txs) = b"
proof (induction txs arbitrary: evs l)
  case Nil
  then show ?case by (simp add: call_deliveries_def)
next
  case (Cons tx txs)
  let ?l = "ledger_take l tx phase (lg_confirmed l) t"
  have "records (evs @ map (\<lambda>i. (i, tx_endLsn tx, b)) (tx_ids tx)) ?l" "lg_confirmed ?l = b"
    using ledger_take_records [OF Cons.prems(1), where tx = tx and b = b and phase = phase and t = t] Cons.prems(2) by simp_all
  from Cons.IH [OF this] show ?case by (simp add: call_deliveries_def)
qed

lemma confirm_records:
  "records evs (foldl (\<lambda>a tx. if tx_endLsn tx > lg_confirmed a then a\<lparr>lg_confirmed := tx_endLsn tx\<rparr> else a) l txs) =
     records evs l \<and>
   lg_confirmed (foldl (\<lambda>a tx. if tx_endLsn tx > lg_confirmed a then a\<lparr>lg_confirmed := tx_endLsn tx\<rparr> else a) l txs) =
     foldl max (lg_confirmed l) (map tx_endLsn txs)"
proof (induction txs arbitrary: l)
  case Nil
  then show ?case by simp
next
  case (Cons tx txs)
  have "records evs (l\<lparr>lg_confirmed := c\<rparr>) = records evs l" for c by (simp add: records_def)
  with Cons show ?case by (simp add: max_def)
qed

lemma ledger_ok_records:
  "records evs (ledger_ok phase t l) = records evs l" "lg_confirmed (ledger_ok phase t l) = lg_confirmed l"
  by (simp_all add: records_def ledger_ok_def Let_def)

lemma ledger_err_records:
  "records evs (ledger_err e l) = records evs l" "lg_confirmed (ledger_err e l) = lg_confirmed l"
  by (simp_all add: records_def ledger_err_def)

lemma consume_records:
  "records evs l \<Longrightarrow> lg_confirmed l = b \<Longrightarrow> records (evs @ deliveries b calls) (foldl sql_round l calls)"
proof (induction calls arbitrary: evs l b)
  case Nil
  then show ?case by simp
next
  case (Cons c calls)
  let ?l0 = "l\<lparr>lg_calls := lg_calls l + 1\<rparr>"
  have l0: "records evs ?l0" "lg_confirmed ?l0 = b" using Cons.prems by (simp_all add: records_def)
  show ?case
  proof (cases c)
    case (ConnectFails e)
    then have "records evs (sql_round l c)" "lg_confirmed (sql_round l c) = b"
      using Cons.prems by (simp_all add: sql_round_def ledger_err_records Let_def)
    from Cons.IH [OF this] show ?thesis by (simp add: ConnectFails)
  next
    case (CallFails e)
    then have "records evs (sql_round l c)" "lg_confirmed (sql_round l c) = b"
      using l0 by (simp_all add: sql_round_def ledger_err_records Let_def)
    from Cons.IH [OF this] show ?thesis by (simp add: CallFails)
  next
    case (CallReturns txs phase t)
    from take_txs_records [OF l0, of txs phase t]
    have "records (evs @ call_deliveries b txs) (sql_round l c)"
      "lg_confirmed (sql_round l c) = foldl max b (map tx_endLsn txs)"
      by (simp_all add: CallReturns sql_round_def ledger_ok_records confirm_records Let_def)
    from Cons.IH [OF this] show ?thesis by (simp add: CallReturns)
  qed
qed

lemma consumer_records: "records (deliveries 0 calls) (sqlConsumer name calls)"
  using consume_records [of "[]" "new_ledger name" 0 calls]
  by (simp add: sqlConsumer_def records_def new_ledger_def)

text \<open>C13. The ledger of a consumer is exact, whatever calls fail: it received every delivered id in
  order; its duplicates are exactly the deliveries of ids delivered before, each a rewind exactly when
  the transaction ended at or before the position earlier calls had confirmed; and its gaps are exactly
  the acknowledged ids that were never delivered.\<close>

theorem ledger_exact:
  "map fst (lg_received (sqlConsumer name calls)) = map fst (deliveries 0 calls) \<and>
   map (\<lambda>r. (rv_id r, rv_rewind r)) (lg_redeliveries (sqlConsumer name calls)) =
     map (\<lambda>(i, e, b). (i, e \<le> b)) (repeats {} (deliveries 0 calls)) \<and>
   gaps acked (sqlConsumer name calls) = filter (\<lambda>a. fst a \<notin> fst ` set (deliveries 0 calls)) acked"
  using consumer_records [of calls name] records_seen [OF consumer_records [of calls name]]
  by (simp add: records_def gaps_def)

end
