(* ===== verification/Iso_Date.thy ===== *)
theory Iso_Date
  imports Dates
begin

text \<open>
  \<open>new Date(ms).toISOString()\<close>: the calendar day of a day number, and the printed form. The day
  found is shown to be the one the number stands for.
\<close>

text \<open>
  The year of an era of 400 years (counted from March), and the day in it: centuries, four-year
  cycles, years.
\<close>

definition year_in_era :: "int \<Rightarrow> int \<times> int" where
  "year_in_era doe =
     (let c = min 3 (doe div 36524); r = doe - 36524 * c; q = r div 1461; r' = r - 1461 * q; a = min 3 (r' div 365)
      in (100 * c + 4 * q + a, r' - 365 * a))"

definition civil_of_days :: "int \<Rightarrow> int \<times> int \<times> int" where
  "civil_of_days z =
     (let d = z + 719468; (yoe, doy) = year_in_era (d mod 146097);
          mp = (5 * doy + 2) div 153;
          m = (if mp < 10 then mp + 3 else mp - 9)
      in (yoe + 400 * (d div 146097) + (if m \<le> 2 then 1 else 0), m, doy - (153 * mp + 2) div 5 + 1))"

text \<open>\<open>padStart(n, "0")\<close> of a numeral.\<close>

definition pad0 :: "nat \<Rightarrow> int \<Rightarrow> string" where
  "pad0 n i = (let s = show_nat (nat i) in replicate (n - length s) (CHR ''0'') @ s)"

definition toISOString :: "int \<Rightarrow> string" where
  "toISOString t =
     (let (y, m, d) = civil_of_days (t div 86400000); r = t mod 86400000
      in (if 0 \<le> y \<and> y \<le> 9999 then pad0 4 y else (if y < 0 then ''-'' else ''+'') @ pad0 6 (abs y)) @ ''-'' @ pad0 2 m @ ''-'' @ pad0 2 d @
         ''T'' @ pad0 2 (r div 3600000) @ '':'' @ pad0 2 (r div 60000 mod 60) @ '':'' @ pad0 2 (r div 1000 mod 60) @
         ''.'' @ pad0 3 (r mod 1000) @ ''Z'')"

lemma year_days_era: "year_days (y + 400 * e) = year_days y + 146097 * e"
proof -
  have "(y + 400 * e) div 4 = y div 4 + 100 * e" "(y + 400 * e) div 100 = y div 100 + 4 * e" "(y + 400 * e) div 400 = y div 400 + e"
    using div_mult_self2 [of 4 y "100 * e"] div_mult_self2 [of 100 y "4 * e"] div_mult_self2 [of 400 y e] by (simp_all add: algebra_simps)
  then show ?thesis by (simp add: year_days_def)
qed

lemma year_in_era_exact:
  assumes "0 \<le> doe" "doe < 146097" "year_in_era doe = (yoe, doy)"
  shows "year_days yoe + doy = doe" "0 \<le> doy" "doy \<le> 365"
proof -
  define c where "c = min 3 (doe div 36524)"
  define r where "r = doe - 36524 * c"
  define q where "q = r div 1461"
  define s where "s = r - 1461 * q"
  define a where "a = min 3 (s div 365)"
  have c: "0 \<le> c" "c \<le> 3" using assms(1) by (simp_all add: c_def pos_imp_zdiv_nonneg_iff)
  have r: "0 \<le> r" "r \<le> 36524"
  proof -
    have "36524 * (doe div 36524) \<le> doe" "doe < 36524 * (doe div 36524) + 36524"
      using mult_div_mod_eq [of 36524 doe] pos_mod_bound [of 36524 doe] pos_mod_sign [of 36524 doe] by linarith+
    then show "0 \<le> r" "r \<le> 36524" using assms(2) unfolding r_def c_def by (auto simp: min_def)
  qed
  have s: "s = r mod 1461" unfolding s_def q_def by (simp add: minus_mult_div_eq_mod)
  then have s': "0 \<le> s" "s \<le> 1460" using pos_mod_bound [of 1461 r] pos_mod_sign [of 1461 r] by linarith+
  have q: "0 \<le> q" "q \<le> 24" using r mult_div_mod_eq [of 1461 r] s s' unfolding q_def by linarith+
  have a: "0 \<le> a" "a \<le> 3" using s' by (simp_all add: a_def pos_imp_zdiv_nonneg_iff)
  have "365 * (s div 365) \<le> s" "s < 365 * (s div 365) + 365"
    using mult_div_mod_eq [of 365 s] pos_mod_bound [of 365 s] pos_mod_sign [of 365 s] by linarith+
  then have d: "0 \<le> s - 365 * a" "s - 365 * a \<le> 365" using s' unfolding a_def by (auto simp: min_def)
  have yd: "yoe = 100 * c + 4 * q + a" "doy = s - 365 * a"
    using assms(3) by (simp_all add: year_in_era_def Let_def a_def s_def q_def r_def c_def)
  have "yoe div 4 = 25 * c + q" using a yd(1) by (intro int_div_pos_eq [of _ 4 _ a]) simp_all
  moreover have "yoe div 100 = c" using a q yd(1) by (intro int_div_pos_eq [of _ 100 _ "4 * q + a"]) simp_all
  moreover have "yoe div 400 = 0" using a q c yd(1) by (intro div_pos_pos_trivial) simp_all
  ultimately show "year_days yoe + doy = doe" using yd by (simp add: year_days_def s_def r_def)
  show "0 \<le> doy" "doy \<le> 365" using d yd by simp_all
qed

text \<open>The day printed is the day of the number.\<close>

lemma civil_of_days_exact: "civil_of_days z = (y, m, d) \<Longrightarrow> days_from_civil y m d = z"
proof -
  assume h: "civil_of_days z = (y, m, d)"
  define e where "e = (z + 719468) div 146097"
  define doe where "doe = (z + 719468) mod 146097"
  obtain yoe doy where yd: "year_in_era doe = (yoe, doy)" by (cases "year_in_era doe")
  define mp where "mp = (5 * doy + 2) div 153"
  have bounds: "0 \<le> doe" "doe < 146097" by (simp_all add: doe_def)
  note ex = year_in_era_exact [OF bounds yd]
  have mp: "0 \<le> mp" "mp \<le> 11" unfolding mp_def using ex by (simp_all add: pos_imp_zdiv_nonneg_iff)
  have h': "m = (if mp < 10 then mp + 3 else mp - 9)" "y = yoe + 400 * e + (if m \<le> 2 then 1 else 0)"
    "d = doy - (153 * mp + 2) div 5 + 1"
    using h yd by (simp_all add: civil_of_days_def Let_def mp_def e_def doe_def split: if_splits)
  have "(m + 9) mod 12 = mp" using mp h'(1) by (auto split: if_splits intro: mod_pos_pos_trivial) 
  moreover have "(if m \<le> 2 then y - 1 else y) = yoe + 400 * e" using h'(2) by simp
  ultimately have "days_from_civil y m d = year_days (yoe + 400 * e) + doy - 719468"
    by (simp add: days_from_civil_def Let_def h'(3))
  also have "\<dots> = 146097 * e + doe - 719468" using ex(1) by (simp add: year_days_era)
  also have "\<dots> = z" using mult_div_mod_eq [of 146097 "z + 719468"] by (simp add: e_def doe_def)
  finally show ?thesis .
qed

lemma iso_example: "toISOString 1790000000123 = ''2026-09-21T14:13:20.123Z''"
  by code_simp

end
