(* ===== verification/Fan_Merge.thy ===== *)
theory Fan_Merge
  imports Iso_Date Json Host_Pause
begin

text \<open>
  \<open>experiments/cross-project-auth/lib/merge.ts\<close>: a page read from several projects in parallel and
  merged, newest first. What each request answers and the order in which the requests finish are
  arguments; so are the times. Text that does not read as a timestamp throws; bodies are Latin-1.
\<close>

record row =
  rw_id :: string
  rw_created_at :: string
  rw_rest :: "(string \<times> json) list"

record target =
  tg_name :: string
  tg_url :: string
  tg_anon :: string
  tg_table :: string

record leg =
  lg_leg_name :: string
  lg_status :: int
  lg_ms :: rat
  lg_rows :: int
  lg_code :: "string option"
  lg_err :: "string option"

record fan_result =
  fr_ok :: bool
  fr_partial :: bool
  fr_rows :: "row list"
  fr_legs :: "leg list"
  fr_error :: "string option"
  fr_ms :: rat

datatype fan_policy = AllLegs | SettledLegs

record cursor =
  cu_created_at :: string
  cu_id :: string

text \<open>\<open>/^(\d{4}-\d{2}-\d{2})[T ](\d{2}:\d{2}:\d{2})(?:\.(\d{1,6}))?(Z|[+-]\d{2}(?::?\d{2})?)?$/\<close>\<close>

definition ts_re :: re where
  "ts_re =
     (let d = Cls is_digit; d2 = Rep 2 d
      in Seqs [Bol, Grp 1 (Seqs [Rep 4 d, Lit ''-'', d2, Lit ''-'', d2]), Cls (\<lambda>c. c = CHR ''T'' \<or> c = CHR '' ''),
           Grp 2 (Seqs [d2, Lit '':'', d2, Lit '':'', d2]),
           Opt (Seq (Lit ''.'') (Grp 3 (Seq d (UpTo 5 d)))),
           Opt (Grp 4 (Alt (Lit ''Z'') (Seqs [Cls (\<lambda>c. c = CHR ''+'' \<or> c = CHR ''-''), d2, Opt (Seq (Opt (Lit '':'')) d2)]))),
           Eol])"

definition offset_re :: "nat \<Rightarrow> re" where
  "offset_re n = Seqs [Bol, Cls (\<lambda>c. c = CHR ''+'' \<or> c = CHR ''-''), Rep n (Cls is_digit), Eol]"

definition full_offset :: "string \<Rightarrow> string" where
  "full_offset tz =
     (if re_test (offset_re 2) tz then tz @ '':00''
      else if re_test (offset_re 4) tz then take 3 tz @ '':'' @ drop 3 tz else tz)"

definition pad_zeros :: "nat \<Rightarrow> string \<Rightarrow> string" where
  "pad_zeros n s = s @ replicate (n - length s) (CHR ''0'')"

definition tsMicros :: "string \<Rightarrow> int option" where
  "tsMicros s =
     (case re_exec ts_re s of
        None \<Rightarrow> None
      | Some m \<Rightarrow>
          (let tz = full_offset (case group 4 m of None \<Rightarrow> ''Z'' | Some z \<Rightarrow> z)
           in case date_parse (the (group 1 m) @ ''T'' @ the (group 2 m) @ tz) of
                None \<Rightarrow> None
              | Some ms \<Rightarrow> Some (ms * 1000 + int (read_nat (pad_zeros 6 (case group 3 m of None \<Rightarrow> [] | Some f \<Rightarrow> f))))))"

definition idDesc :: "row \<Rightarrow> row \<Rightarrow> int" where
  "idDesc a b = (if rw_id a > rw_id b then -1 else if rw_id a < rw_id b then 1 else 0)"

text \<open>The comparison for timestamps that read; \<open>merge_sort\<close> throws for the others.\<close>

definition micros :: "row \<Rightarrow> int" where
  "micros r = (case tsMicros (rw_created_at r) of None \<Rightarrow> 0 | Some x \<Rightarrow> x)"

definition cmpExact :: "row \<Rightarrow> row \<Rightarrow> int" where
  "cmpExact a b =
     (let x = micros a; y = micros b
      in if x \<noteq> y then (if x > y then -1 else 1) else idDesc a b)"

text \<open>\<open>Date.parse\<close> keeps milliseconds; a comparison with \<open>NaN\<close> counts as equal.\<close>

definition cmpMs :: "row \<Rightarrow> row \<Rightarrow> int" where
  "cmpMs a b =
     (case (date_parse (rw_created_at a), date_parse (rw_created_at b)) of
        (Some x, Some y) \<Rightarrow> if x \<noteq> y then y - x else idDesc a b
      | _ \<Rightarrow> 0)"

definition exactCursor :: "row \<Rightarrow> cursor" where
  "exactCursor r = \<lparr>cu_created_at = rw_created_at r, cu_id = rw_id r\<rparr>"

text \<open>The cursor of a Date round trip; \<open>toISOString\<close> throws on an unreadable date.\<close>

definition msCursor :: "row \<Rightarrow> cursor option" where
  "msCursor r = map_option (\<lambda>t. \<lparr>cu_created_at = toISOString t, cu_id = rw_id r\<rparr>) (date_parse (rw_created_at r))"

record page_opts =
  pg_cursor :: "cursor option"
  pg_offset :: "nat option"
  pg_select :: "string option"

definition pageQuery :: "nat \<Rightarrow> page_opts \<Rightarrow> string" where
  "pageQuery limit opts =
     ''select='' @ (case pg_select opts of None \<Rightarrow> ''id,created_at,body,src'' | Some s \<Rightarrow> s) @
     ''&order=created_at.desc,id.desc&limit='' @ show_nat limit @
     (case pg_cursor opts of
        None \<Rightarrow> []
      | Some c \<Rightarrow>
          ''&or='' @ encodeURIComponent
            (''(created_at.lt.\"'' @ cu_created_at c @ ''\",and(created_at.eq.\"'' @ cu_created_at c @ ''\",id.lt.'' @
             cu_id c @ ''))'')) @
     (case pg_offset opts of None \<Rightarrow> [] | Some n \<Rightarrow> if n = 0 then [] else ''&offset='' @ show_nat n)"

subsection \<open>One leg\<close>

definition leg_message :: "leg \<Rightarrow> string" where
  "leg_message l =
     lg_leg_name l @ '': '' @ (if lg_status l \<noteq> 0 then ''HTTP '' @ show_int (lg_status l) else ''no response'') @
     (if truthy (lg_code l) then '' '' @ the (lg_code l) else []) @
     (if truthy (lg_err l) then '' '' @ the (lg_err l) else [])"

text \<open>A request throws, or answers with a status, a text, the code in it, and its rows if it is an array.\<close>

datatype leg_answer = FetchThrows string | Answers int string "string option" "row list option"

text \<open>\<open>/\(?https?:\/\/[^\s)]*\)?/g\<close> and \<open>/\s+/g\<close>\<close>

definition url_re :: re where
  "url_re =
     Seqs [Opt (Lit ''(''), Lit ''http'', Opt (Lit ''s''), Lit ''://'',
           Star (Cls (\<lambda>c. \<not> is_ws c \<and> c \<noteq> CHR '')'')), Opt (Lit '')'')]"

definition spaces_re :: re where
  "spaces_re = Plus (Cls is_ws)"

definition tenths :: "rat \<Rightarrow> rat" where
  "tenths ms = of_int (js_round (ms * 10)) / 10"

definition readLeg :: "target \<Rightarrow> leg_answer \<Rightarrow> rat \<Rightarrow> leg + (leg \<times> row list)" where
  "readLeg t a elapsed =
     (let ms = tenths elapsed
      in case a of
           FetchThrows e \<Rightarrow>
             Inl \<lparr>lg_leg_name = tg_name t, lg_status = 0, lg_ms = ms, lg_rows = -1, lg_code = None,
                  lg_err = Some (take 160 (replace_all url_re (\<lambda>_. ''<url>'') e))\<rparr>
         | Answers st text code rows \<Rightarrow>
             (case (if st = 200 then rows else None) of
                None \<Rightarrow> Inl \<lparr>lg_leg_name = tg_name t, lg_status = st, lg_ms = ms, lg_rows = -1, lg_code = code,
                             lg_err = Some (take 120 (replace_all spaces_re (\<lambda>_. '' '') text))\<rparr>
              | Some rs \<Rightarrow> Inr (\<lparr>lg_leg_name = tg_name t, lg_status = 200, lg_ms = ms, lg_rows = int (length rs),
                                 lg_code = None, lg_err = None\<rparr>, rs)))"

subsection \<open>Fan-out\<close>

text \<open>
  \<open>rows.sort(cmp)\<close>: the exact comparator throws on a timestamp it cannot read, and every element of
  a list of two or more is compared.
\<close>

definition merge_sort :: "bool \<Rightarrow> row list \<Rightarrow> row list option" where
  "merge_sort exact rows =
     (if exact then (if length rows \<ge> 2 \<and> list_ex (\<lambda>r. tsMicros (rw_created_at r) = None) rows then None
                     else Some (sort_by cmpExact rows))
      else Some (sort_by cmpMs rows))"

definition leg_of :: "leg + (leg \<times> row list) \<Rightarrow> leg" where
  "leg_of r = (case r of Inl l \<Rightarrow> l | Inr (l, _) \<Rightarrow> l)"

definition is_failed :: "'a + 'b \<Rightarrow> bool" where
  "is_failed r = (case r of Inl _ \<Rightarrow> True | Inr _ \<Rightarrow> False)"

definition ok_rows :: "(leg + (leg \<times> row list)) list \<Rightarrow> row list" where
  "ok_rows runs = concat (map (\<lambda>r. case r of Inl _ \<Rightarrow> [] | Inr (_, rs) \<Rightarrow> rs) runs)"

text \<open>The requests in the order they finish, up to and including the first that failed.\<close>

fun until_failed :: "(leg + (leg \<times> row list)) list \<Rightarrow> (leg + (leg \<times> row list)) list" where
  "until_failed [] = []"
| "until_failed (r # rs) = (if is_failed r then [r] else r # until_failed rs)"

definition bad_timestamp :: "row list \<Rightarrow> string" where
  "bad_timestamp rows =
     (case find (\<lambda>r. tsMicros (rw_created_at r) = None) rows of
        None \<Rightarrow> [] | Some r \<Rightarrow> ''unparsed timestamp: '' @ rw_created_at r)"

text \<open>
  \<open>runs\<close> are the legs in the order of the targets, \<open>finished\<close> the same legs in the order they
  finish. With policy "settled" a timestamp that cannot be read makes the whole call throw (\<open>None\<close>);
  with policy "all" the sort is inside the \<open>try\<close> and its error is reported.
\<close>

definition fanout ::
  "(leg + (leg \<times> row list)) list \<Rightarrow> (leg + (leg \<times> row list)) list \<Rightarrow> nat \<Rightarrow> fan_policy \<Rightarrow> bool option \<Rightarrow> rat \<Rightarrow> fan_result option" where
  "fanout runs finished limit pol exact elapsed =
     (let ex = (exact \<noteq> Some False); ms = tenths elapsed;
          fin = (\<lambda>ok part rows legs err. \<lparr>fr_ok = ok, fr_partial = part, fr_rows = rows, fr_legs = map leg_of legs,
                                    fr_error = err, fr_ms = ms\<rparr>)
      in case pol of
           AllLegs \<Rightarrow>
             (if list_ex is_failed finished
              then let seen = until_failed finished
                   in Some (fin False False [] seen (Some (leg_message (leg_of (last seen)))))
              else case merge_sort ex (ok_rows runs) of
                     Some rows \<Rightarrow> Some (fin True False (take limit rows) finished None)
                   | None \<Rightarrow> Some (fin False False [] finished (Some (bad_timestamp (ok_rows runs)))))
         | SettledLegs \<Rightarrow>
             (let errs = map (\<lambda>r. leg_message (leg_of r)) (filter is_failed runs)
              in case merge_sort ex (ok_rows runs) of
                   None \<Rightarrow> None
                 | Some rows \<Rightarrow>
                     Some (fin (errs = []) (errs \<noteq> [] \<and> list_ex (\<lambda>r. \<not> is_failed r) runs) (take limit rows) finished
                             (if errs = [] then None else Some (join ''; '' errs)))))"

subsection \<open>The page of a merge\<close>

text \<open>
  For a comparator that tells the elements of a list apart, the first elements of the whole are found
  among the first elements of its parts.
\<close>

context comparator
begin

lemma filter_insert_sorted:
  "sorted_wrt (\<lambda>x y. cmp x y \<le> 0) ys \<Longrightarrow>
   filter P (insert_by cmp x ys) = (if P x then insert_by cmp x (filter P ys) else filter P ys)"
proof (induction ys)
  case Nil
  then show ?case by simp
next
  case (Cons y ys)
  show ?case
  proof (cases "cmp x y \<le> 0")
    case True
    have "insert_by cmp x (filter P (y # ys)) = x # filter P (y # ys)"
    proof (cases "filter P (y # ys)")
      case (Cons z zs)
      then have "z \<in> set (filter P (y # ys))" by simp
      then have "z \<in> set (y # ys)" by (metis filter_is_subset in_mono)
      with Cons.prems True cmp_trans have "cmp x z \<le> 0" by auto
      with Cons show ?thesis by simp
    qed simp
    with True show ?thesis by simp
  next
    case False
    with Cons show ?thesis by simp
  qed
qed

lemma filter_sort_by: "filter P (sort_by cmp xs) = sort_by cmp (filter P xs)"
  by (induction xs) (simp_all add: filter_insert_sorted sorted_sort_by)

lemma sorted_unique:
  assumes "sorted_wrt (\<lambda>x y. cmp x y \<le> 0) xs" "sorted_wrt (\<lambda>x y. cmp x y \<le> 0) ys" "mset xs = mset ys"
    and "\<And>x y. x \<in> set xs \<Longrightarrow> y \<in> set xs \<Longrightarrow> cmp x y = 0 \<Longrightarrow> x = y"
  shows "xs = ys"
  using assms
proof (induction xs arbitrary: ys)
  case Nil
  then show ?case by simp
next
  case (Cons x xs)
  then obtain y zs where ys: "ys = y # zs" by (cases ys) auto
  have s: "set (x # xs) = set ys" using Cons.prems(3) by (metis set_mset_mset)
  have "cmp x y \<le> 0" using Cons.prems(1) s ys cmp_refl by (cases "y = x") auto
  moreover have "cmp y x \<le> 0" using Cons.prems(2) s ys cmp_refl by (cases "y = x") (auto, metis insertI1 insert_iff)
  ultimately have "cmp x y = 0" using cmp_swap [of x y] by linarith
  with Cons.prems(4) s ys have xy: "x = y" by (metis list.set_intros(1))
  have "xs = zs"
    by (rule Cons.IH) (use Cons.prems ys xy in auto)
  with ys xy show ?case by simp
qed

lemma take_rank:
  assumes "sorted_wrt (\<lambda>x y. cmp x y \<le> 0) L" "distinct L"
    and "\<And>x y. x \<in> set L \<Longrightarrow> y \<in> set L \<Longrightarrow> cmp x y = 0 \<Longrightarrow> x = y" and "x \<in> set L"
  shows "x \<in> set (take n L) \<longleftrightarrow> card {y \<in> set L. cmp y x < 0} < n"
proof -
  from assms(4) obtain i where i: "i < length L" "L ! i = x" by (metis in_set_conv_nth)
  have lt: "cmp (L ! j) (L ! k) < 0" if "j < k" "k < length L" for j k
  proof -
    have "cmp (L ! j) (L ! k) \<le> 0" using sorted_wrt_nth_less [OF assms(1) that] .
    moreover have "L ! j \<noteq> L ! k" using assms(2) that nth_eq_iff_index_eq by fastforce
    ultimately show ?thesis using assms(3) [of "L ! j" "L ! k"] that by fastforce
  qed
  have "{y \<in> set L. cmp y x < 0} = set (take i L)"
  proof (intro set_eqI iffI)
    fix y
    assume "y \<in> {y \<in> set L. cmp y x < 0}"
    then obtain j where j: "j < length L" "L ! j = y" "cmp y x < 0" by (auto simp: in_set_conv_nth)
    have "\<not> i < j" using lt [of i j] j i cmp_swap [of x y] by fastforce
    moreover have "j \<noteq> i" using j i cmp_refl by auto
    ultimately have "j < length (take i L)" "take i L ! j = y" using j i by auto
    then show "y \<in> set (take i L)" by (metis nth_mem)
  next
    fix y
    assume "y \<in> set (take i L)"
    then obtain j where "j < i" "L ! j = y" using i by (auto simp: in_set_conv_nth)
    with lt [of j i] i show "y \<in> {y \<in> set L. cmp y x < 0}" by auto
  qed
  then have card: "card {y \<in> set L. cmp y x < 0} = i"
    using assms(2) i distinct_card [of "take i L"] by simp
  have "x \<in> set (take n L) \<longleftrightarrow> i < n"
    using i assms(2) by (auto simp: in_set_conv_nth nth_eq_iff_index_eq)
  with card show ?thesis by simp
qed

lemma take_filter_all: "(\<forall>x \<in> set (take n xs). P x) \<Longrightarrow> take n (filter P xs) = take n xs"
proof (induction xs arbitrary: n)
  case (Cons x xs)
  then show ?case by (cases n) auto
qed simp

lemma top_of_parts:
  assumes "distinct (concat parts)"
    and "\<And>x y. x \<in> set (concat parts) \<Longrightarrow> y \<in> set (concat parts) \<Longrightarrow> cmp x y = 0 \<Longrightarrow> x = y"
  shows "take n (sort_by cmp (concat (map (\<lambda>p. take n (sort_by cmp p)) parts))) = take n (sort_by cmp (concat parts))"
proof -
  let ?all = "concat parts" and ?cand = "concat (map (\<lambda>p. take n (sort_by cmp p)) parts)"
  have sub: "set (take n (sort_by cmp p)) \<subseteq> set p" for p
    using set_take_subset [of n "sort_by cmp p"] by simp
  have dc: "distinct ?cand" using assms(1)
  proof (induction parts)
    case Nil
    then show ?case by simp
  next
    case (Cons p ps)
    have "distinct (sort_by cmp p)" using Cons.prems mset_sort_by [of p] by (metis append_eq_append_conv2 concat.simps(2) distinct_append mset_eq_imp_distinct_iff)
    moreover have "set (concat (map (\<lambda>p. take n (sort_by cmp p)) ps)) \<subseteq> set (concat ps)" using sub by fastforce
    ultimately show ?case using Cons sub [of p] by auto
  qed
  have cand: "set ?cand \<subseteq> set ?all" using sub by fastforce
  have top: "\<forall>x \<in> set (take n (sort_by cmp ?all)). x \<in> set ?cand"
  proof
    fix x
    assume x: "x \<in> set (take n (sort_by cmp ?all))"
    then have xa: "x \<in> set ?all" using sub by blast
    then obtain p where p: "p \<in> set parts" "x \<in> set p" by auto
    have da: "distinct (sort_by cmp ?all)" using assms(1) mset_sort_by [of ?all] by (metis mset_eq_imp_distinct_iff)
    have dp: "distinct (sort_by cmp p)"
      using assms(1) p(1) mset_sort_by [of p] by (metis distinct_concat_iff mset_eq_imp_distinct_iff)
    have "card {y \<in> set ?all. cmp y x < 0} < n"
      using take_rank [OF sorted_sort_by da, of x n] assms(2) x xa by simp
    moreover have "card {y \<in> set p. cmp y x < 0} \<le> card {y \<in> set ?all. cmp y x < 0}"
      by (rule card_mono) (use p in auto)
    ultimately have "x \<in> set (take n (sort_by cmp p))"
      using take_rank [OF sorted_sort_by dp, of x n] assms(2) p by fastforce
    with p show "x \<in> set ?cand" by auto
  qed
  have "mset (filter (\<lambda>x. x \<in> set ?cand) ?all) = mset ?cand"
    using dc cand assms(1) by (intro set_eq_iff_mset_eq_distinct [THEN iffD1]) auto
  then have "sort_by cmp (filter (\<lambda>x. x \<in> set ?cand) ?all) = sort_by cmp ?cand"
    by (intro sorted_unique sorted_sort_by) (use assms(2) in auto)
  then have "sort_by cmp ?cand = filter (\<lambda>x. x \<in> set ?cand) (sort_by cmp ?all)" by (simp add: filter_sort_by)
  then show ?thesis using take_filter_all [OF top] by simp
qed

end

subsection \<open>What a merged read promises\<close>

interpretation newest_first: comparator "\<lambda>a b. if micros a \<noteq> micros b then (if micros a > micros b then -1 else 1) else (0 :: int)"
  by unfold_locales (auto split: if_splits)

interpretation id_desc: comparator idDesc
  by unfold_locales (auto simp: idDesc_def split: if_splits)

lemma cmpExact_then:
  "cmpExact = then_cmp (\<lambda>a b. if micros a \<noteq> micros b then (if micros a > micros b then -1 else 1) else 0) idDesc"
  by (auto simp: fun_eq_iff cmpExact_def then_cmp_def Let_def)

interpretation exact_order: comparator cmpExact
  unfolding cmpExact_then by (rule comparator_then [OF newest_first.comparator_axioms id_desc.comparator_axioms])

lemma cmpExact_zero: "cmpExact a b = 0 \<Longrightarrow> rw_id a = rw_id b"
  by (auto simp: cmpExact_def idDesc_def Let_def split: if_splits)

definition leg_ok :: "row list \<Rightarrow> leg + (leg \<times> row list) \<Rightarrow> bool" where
  "leg_ok rows r = (\<exists>l. r = Inr (l, rows))"

lemma ok_rows_all: "list_all2 leg_ok pages runs \<Longrightarrow> ok_rows runs = concat pages"
  by (induction pages runs rule: list_all2_induct) (auto simp: ok_rows_def leg_ok_def)

lemma legs_ok: "list_all2 leg_ok pages runs \<Longrightarrow> \<not> list_ex is_failed runs"
  by (induction pages runs rule: list_all2_induct) (auto simp: leg_ok_def is_failed_def)

text \<open>A merged page is a page of the whole: if every leg answers with its own newest \<open>limit\<close> rows,
  the timestamps read and no two rows share an id, the merged result is the newest \<open>limit\<close> rows of
  all projects together, in order, whatever the split of the rows over the projects, the policy and the
  order in which the legs finish.\<close>

lemma fanout_page:
  assumes "list_all2 leg_ok (map (\<lambda>s. take limit (sort_by cmpExact s)) shards) runs"
    and "distinct (map rw_id (concat shards))"
    and "\<forall>r \<in> set (concat shards). tsMicros (rw_created_at r) \<noteq> None"
    and "set finished = set runs"
  shows "\<exists>res. fanout runs finished limit pol None ms = Some res \<and> fr_ok res \<and> \<not> fr_partial res \<and>
    fr_rows res = take limit (sort_by cmpExact (concat shards))"
proof -
  let ?pages = "map (\<lambda>s. take limit (sort_by cmpExact s)) shards"
  have rows: "ok_rows runs = concat ?pages" by (rule ok_rows_all [OF assms(1)])
  have nofail: "\<not> list_ex is_failed runs" by (rule legs_ok [OF assms(1)])
  then have fin: "\<not> list_ex is_failed finished" using assms(4) by (simp add: list_ex_iff)
  have "set (concat ?pages) \<subseteq> set (concat shards)" by (fastforce dest: in_set_takeD)
  then have parsed: "\<not> list_ex (\<lambda>r. tsMicros (rw_created_at r) = None) (concat ?pages)"
    using assms(3) by (auto simp: list_ex_iff)
  have "take limit (sort_by cmpExact (concat ?pages)) = take limit (sort_by cmpExact (concat shards))"
  proof (rule exact_order.top_of_parts)
    show "distinct (concat shards)" using assms(2) by (simp only: distinct_map)
    fix x y
    assume "x \<in> set (concat shards)" "y \<in> set (concat shards)" "cmpExact x y = 0"
    then show "x = y" using cmpExact_zero assms(2) by (metis distinct_map inj_on_def)
  qed
  moreover have "filter is_failed runs = []" using nofail by (auto simp: list_ex_iff filter_empty_conv)
  ultimately show ?thesis
    using nofail fin parsed
    by (cases pol) (simp_all add: fanout_def merge_sort_def rows Let_def del: set_concat)
qed

definition sample_row :: "string \<Rightarrow> string \<Rightarrow> row" where
  "sample_row i t = \<lparr>rw_id = i, rw_created_at = t, rw_rest = []\<rparr>"

definition sample_shards :: "row list list" where
  "sample_shards =
     [[sample_row ''a'' ''2026-01-02T00:00:00.000001Z'', sample_row ''b'' ''2026-01-01T00:00:00Z''],
      [sample_row ''c'' ''2026-01-02T00:00:00.000002+00:00'']]"

definition sample_leg :: "row list \<Rightarrow> leg + (leg \<times> row list)" where
  "sample_leg rows =
     Inr (\<lparr>lg_leg_name = ''p'', lg_status = 200, lg_ms = 1, lg_rows = 1, lg_code = None, lg_err = None\<rparr>, rows)"

lemma sample_parse:
  "tsMicros ''2026-01-02T00:00:00.000001Z'' \<noteq> None" "tsMicros ''2026-01-01T00:00:00Z'' \<noteq> None"
  "tsMicros ''2026-01-02T00:00:00.000002+00:00'' \<noteq> None"
  by code_simp+

text \<open>A merged read never hides a missing project: the result is ok only if every leg answered; with
  policy "all" a failed leg leaves no rows; and with policy "settled" the result is marked partial exactly
  when some legs answered and some failed, and holds rows of legs that answered only.\<close>

lemma fanout_honest:
  assumes "fanout runs finished limit pol exact ms = Some res" and "set finished = set runs"
  shows "(fr_ok res \<longrightarrow> \<not> list_ex is_failed runs) \<and>
    (pol = AllLegs \<and> list_ex is_failed runs \<longrightarrow> fr_rows res = []) \<and>
    (pol = SettledLegs \<longrightarrow> (fr_partial res \<longleftrightarrow> list_ex is_failed runs \<and> list_ex (\<lambda>r. \<not> is_failed r) runs)) \<and>
    set (fr_rows res) \<subseteq> set (ok_rows runs)"
proof -
  have fail: "list_ex is_failed finished \<longleftrightarrow> list_ex is_failed runs" using assms(2) by (simp add: list_ex_iff)
  have errs: "filter is_failed runs = [] \<longleftrightarrow> \<not> list_ex is_failed runs" by (auto simp: list_ex_iff filter_empty_conv)
  have sub: "set (take limit rows) \<subseteq> set (ok_rows runs)" if "merge_sort ex (ok_rows runs) = Some rows" for ex rows
  proof -
    have "set (sort_by c xs) = set xs" for c :: "row \<Rightarrow> row \<Rightarrow> int" and xs
    proof -
      have "set (insert_by c x ys) = insert x (set ys)" for x ys by (induction ys) auto
      then show ?thesis by (induction xs) (simp_all add: sort_by_def)
    qed
    with that have "set rows = set (ok_rows runs)" by (auto simp: merge_sort_def split: if_splits)
    then show ?thesis by (metis set_take_subset)
  qed
  show ?thesis
  proof (cases pol)
    case AllLegs
    then show ?thesis using assms(1) fail
      by (auto simp: fanout_def Let_def split: if_splits option.splits dest: sub [THEN subsetD])
  next
    case SettledLegs
    then show ?thesis using assms(1) errs
      by (auto simp: fanout_def Let_def split: if_splits option.splits dest: sub [THEN subsetD])
  qed
qed

definition sample_failure :: "leg + (leg \<times> row list)" where
  "sample_failure =
     Inl \<lparr>lg_leg_name = ''q'', lg_status = 0, lg_ms = 1, lg_rows = -1, lg_code = None, lg_err = Some ''timeout''\<rparr>"

end
