(* ===== verification/Reconcile.thy ===== *)
theory Reconcile
  imports Js_Number Json
begin

text \<open>
  \<open>experiments/mgmt-api-faults/lib/reconcile.ts\<close>: which listed projects nothing local knows about.
  The listing and the ledger are arguments; the first-seen times are an object from project ref to
  time (refs are not names of members that every object inherits).
\<close>

record listed =
  li_ref :: string
  li_name :: string
  li_created_at :: string
  li_status :: "string option"
  li_org :: "string option"

record ledger_entry =
  le_name :: string
  le_ref :: "string option"

record rec_opts =
  ro_prefix :: string
  ro_now :: int
  ro_graceMs :: "jsnum option"
  ro_org :: "string option"
  ro_firstSeen :: "int obj option"

record reconciled =
  rc_tracked :: "listed list"
  rc_young :: "listed list"
  rc_orphan :: "listed list"
  rc_absent :: "ledger_entry list"
  rc_firstSeen :: "int obj"

definition grace_of :: "rec_opts \<Rightarrow> jsnum" where
  "grace_of opts = (case ro_graceMs opts of None \<Rightarrow> Fin 300000 | Some g \<Rightarrow> g)"

text \<open>\<open>ms < grace\<close>: false when \<open>grace\<close> is not a number.\<close>

definition below :: "int \<Rightarrow> jsnum \<Rightarrow> bool" where
  "below ms g = (case g of NaN \<Rightarrow> False | PosInf \<Rightarrow> True | NegInf \<Rightarrow> False | Fin r \<Rightarrow> of_int ms < r)"

definition times1000 :: "jsnum \<Rightarrow> jsnum" where
  "times1000 x = (case x of Fin r \<Rightarrow> Fin (r * 1000) | _ \<Rightarrow> x)"

text \<open>Is the project one the caller asked about, and does a ledger line match it?\<close>

definition in_scope :: "rec_opts \<Rightarrow> listed \<Rightarrow> bool" where
  "in_scope opts p =
     (starts_with (li_name p) (ro_prefix opts) \<and> \<not> (truthy (ro_org opts) \<and> li_org p \<noteq> ro_org opts))"

definition matched_by :: "ledger_entry list \<Rightarrow> listed \<Rightarrow> bool" where
  "matched_by ledger p =
     (li_ref p \<in> {r. \<exists>e \<in> set ledger. le_ref e = Some r \<and> r \<noteq> []} \<or> li_name p \<in> le_name ` set ledger)"

definition first_sighting :: "rec_opts \<Rightarrow> listed \<Rightarrow> int" where
  "first_sighting opts p =
     (case Option.bind (ro_firstSeen opts) (\<lambda>m. obj_get m (li_ref p)) of None \<Rightarrow> ro_now opts | Some t \<Rightarrow> t)"

text \<open>One listed project; the set of refs and names seen is carried along.\<close>

definition rec_step :: "rec_opts \<Rightarrow> ledger_entry list \<Rightarrow> reconciled \<times> string set \<Rightarrow> listed \<Rightarrow> reconciled \<times> string set" where
  "rec_step opts ledger st p =
     (let c = fst st; seen = snd st
      in if \<not> in_scope opts p then st
         else if matched_by ledger p
         then (c\<lparr>rc_tracked := rc_tracked c @ [p]\<rparr>, seen \<union> {li_ref p, li_name p})
         else let first = first_sighting opts p;
                  c1 = c\<lparr>rc_firstSeen := obj_put (li_ref p) first (rc_firstSeen c)\<rparr>
              in (if below (ro_now opts - first) (grace_of opts) then c1\<lparr>rc_young := rc_young c1 @ [p]\<rparr>
                  else c1\<lparr>rc_orphan := rc_orphan c1 @ [p]\<rparr>, seen))"

definition reconcile :: "listed list \<Rightarrow> ledger_entry list \<Rightarrow> rec_opts \<Rightarrow> reconciled" where
  "reconcile ls ledger opts =
     (let (c, seen) = foldl (rec_step opts ledger)
            (\<lparr>rc_tracked = [], rc_young = [], rc_orphan = [], rc_absent = [], rc_firstSeen = []\<rparr>, {}) ls
      in c\<lparr>rc_absent := filter (\<lambda>e. \<not> (truthy (le_ref e) \<and> the (le_ref e) \<in> seen) \<and> le_name e \<notin> seen) ledger\<rparr>)"

text \<open>The exit code of a run that read everything: 3 when there are orphans.\<close>

definition reconcile_exit :: "reconciled \<Rightarrow> nat" where
  "reconcile_exit c = (if rc_orphan c \<noteq> [] then 3 else 0)"

text \<open>\<open>readLedger\<close>: the lines of the file that are not blank, each parsed; \<open>None\<close> if one does not parse.\<close>

fun parse_lines :: "(string \<Rightarrow> 'a option) \<Rightarrow> string list \<Rightarrow> 'a list option" where
  "parse_lines parse [] = Some []"
| "parse_lines parse (l # ls) =
     (case parse l of None \<Rightarrow> None | Some e \<Rightarrow> map_option (\<lambda>es. e # es) (parse_lines parse ls))"

definition readLedger :: "(string \<Rightarrow> ledger_entry option) \<Rightarrow> string option \<Rightarrow> ledger_entry list option" where
  "readLedger parse file =
     (case file of
        None \<Rightarrow> Some []
      | Some txt \<Rightarrow> parse_lines parse (filter (\<lambda>l. trim l \<noteq> []) (split_char (CHR 0x0A) txt)))"

record api_project =
  ap_id :: "string option"
  ap_ref :: "string option"
  ap_name :: "string option"
  ap_created_at :: "string option"
  ap_status :: "string option"
  ap_org :: "string option"

definition opt_or :: "'a option \<Rightarrow> 'a \<Rightarrow> 'a" where
  "opt_or x d = (case x of None \<Rightarrow> d | Some v \<Rightarrow> v)"

definition to_listed :: "api_project \<Rightarrow> listed" where
  "to_listed p =
     \<lparr>li_ref = (case ap_ref p of Some r \<Rightarrow> r | None \<Rightarrow> opt_or (ap_id p) []), li_name = opt_or (ap_name p) [],
      li_created_at = opt_or (ap_created_at p) [], li_status = ap_status p, li_org = ap_org p\<rparr>"

definition listProjects :: "int \<Rightarrow> api_project list \<Rightarrow> string + listed list" where
  "listProjects http arr =
     (if 200 \<le> http \<and> http \<le> 299 then Inr (map to_listed arr) else Inl (''GET /projects answered '' @ show_int http))"

text \<open>
  The command: its arguments, what it reads (the state file, \<open>Some None\<close> when it does not parse; the
  ledger file), the API's answer and the clock. The result is the exit code, the state file it
  writes and the report it prints.
\<close>

record main_in =
  mi_argv :: "string list"
  mi_env_org :: "string option"
  mi_pat :: "string option"
  mi_state :: "string \<Rightarrow> int obj option option"
  mi_ledger :: "string \<Rightarrow> string option"
  mi_parse :: "string \<Rightarrow> ledger_entry option"
  mi_http :: int
  mi_arr :: "api_project list"
  mi_now :: int

definition cmd_arg :: "string list \<Rightarrow> string \<Rightarrow> string option" where
  "cmd_arg args k =
     (case dropWhile (\<lambda>a. a \<noteq> k) args of _ # v # _ \<Rightarrow> Some v | _ \<Rightarrow> None)"

definition main_opts :: "main_in \<Rightarrow> int obj \<Rightarrow> rec_opts" where
  "main_opts w prior =
     \<lparr>ro_prefix = opt_or (cmd_arg (mi_argv w) ''--prefix'') ''mf-'', ro_now = mi_now w,
      ro_graceMs = Some (times1000 (case cmd_arg (mi_argv w) ''--grace-s'' of None \<Rightarrow> Fin 300 | Some s \<Rightarrow> to_number s)),
      ro_org = (case cmd_arg (mi_argv w) ''--org'' of None \<Rightarrow> mi_env_org w | Some v \<Rightarrow> Some v),
      ro_firstSeen = Some prior\<rparr>"

definition prior_state :: "main_in \<Rightarrow> int obj option" where
  "prior_state w =
     (let path = cmd_arg (mi_argv w) ''--state''
      in if truthy path then (case mi_state w (the path) of None \<Rightarrow> Some [] | Some st \<Rightarrow> st) else Some [])"

definition reconcile_main :: "main_in \<Rightarrow> nat \<times> (string \<times> int obj) option \<times> reconciled option" where
  "reconcile_main w =
     (let path = cmd_arg (mi_argv w) ''--ledger''; state = cmd_arg (mi_argv w) ''--state''
      in if \<not> truthy path \<or> \<not> truthy (mi_pat w) then (1, None, None)
         else case (prior_state w, listProjects (mi_http w) (mi_arr w), readLedger (mi_parse w) (mi_ledger w (the path))) of
             (Some prior, Inr ls, Some lg) \<Rightarrow>
               (let res = reconcile ls lg (main_opts w prior)
                in (reconcile_exit res, if truthy state then Some (the state, rc_firstSeen res) else None, Some res))
           | _ \<Rightarrow> (1, None, None))"

text \<open>Runs one after the other over one state file: each reads the first-seen times the last one wrote.\<close>

fun rec_runs :: "int obj \<Rightarrow> (listed list \<times> ledger_entry list \<times> rec_opts) list \<Rightarrow> int obj" where
  "rec_runs fs [] = fs"
| "rec_runs fs ((ls, lg, opts) # rs) = rec_runs (rc_firstSeen (reconcile ls lg (opts\<lparr>ro_firstSeen := Some fs\<rparr>))) rs"

subsection \<open>The classification\<close>

abbreviation unmatched :: "rec_opts \<Rightarrow> ledger_entry list \<Rightarrow> listed \<Rightarrow> bool" where
  "unmatched opts ledger p \<equiv> in_scope opts p \<and> \<not> matched_by ledger p"

definition old_enough :: "rec_opts \<Rightarrow> listed \<Rightarrow> bool" where
  "old_enough opts p = (\<not> below (ro_now opts - first_sighting opts p) (grace_of opts))"

lemma rec_fold:
  "rc_tracked (fst (foldl (rec_step opts ledger) st ls)) =
     rc_tracked (fst st) @ filter (\<lambda>p. in_scope opts p \<and> matched_by ledger p) ls"
  "rc_young (fst (foldl (rec_step opts ledger) st ls)) =
     rc_young (fst st) @ filter (\<lambda>p. unmatched opts ledger p \<and> \<not> old_enough opts p) ls"
  "rc_orphan (fst (foldl (rec_step opts ledger) st ls)) =
     rc_orphan (fst st) @ filter (\<lambda>p. unmatched opts ledger p \<and> old_enough opts p) ls"
  "rc_firstSeen (fst (foldl (rec_step opts ledger) st ls)) =
     foldl (\<lambda>m p. obj_put (li_ref p) (first_sighting opts p) m) (rc_firstSeen (fst st)) (filter (unmatched opts ledger) ls)"
  by (induction ls arbitrary: st) (auto simp: rec_step_def Let_def old_enough_def)

lemma find_SomeD: "find P xs = Some x \<Longrightarrow> x \<in> set xs \<and> P x"
  by (induction xs) (auto split: if_splits)

lemma put_all_get:
  "obj_get (foldl (\<lambda>m p. obj_put (k p) (v p) m) m0 ps) x =
     (case find (\<lambda>p. k p = x) (rev ps) of None \<Rightarrow> obj_get m0 x | Some p \<Rightarrow> Some (v p))"
  by (induction ps rule: rev_induct) auto

lemma reconcile_lists:
  "rc_tracked (reconcile ls ledger opts) = filter (\<lambda>p. in_scope opts p \<and> matched_by ledger p) ls"
  "rc_young (reconcile ls ledger opts) = filter (\<lambda>p. unmatched opts ledger p \<and> \<not> old_enough opts p) ls"
  "rc_orphan (reconcile ls ledger opts) = filter (\<lambda>p. unmatched opts ledger p \<and> old_enough opts p) ls"
  "rc_firstSeen (reconcile ls ledger opts) =
     foldl (\<lambda>m p. obj_put (li_ref p) (first_sighting opts p) m) [] (filter (unmatched opts ledger) ls)"
  by (simp_all add: reconcile_def case_prod_unfold Let_def rec_fold)

text \<open>Did this run list the ref, in scope and unmatched?\<close>

definition run_lists :: "string \<Rightarrow> listed list \<times> ledger_entry list \<times> rec_opts \<Rightarrow> bool" where
  "run_lists ref run = (\<exists>p \<in> set (fst run). li_ref p = ref \<and> unmatched (snd (snd run)) (fst (snd run)) p)"

abbreviation run_now :: "listed list \<times> ledger_entry list \<times> rec_opts \<Rightarrow> int" where
  "run_now run \<equiv> ro_now (snd (snd run))"

lemma scope_firstSeen [simp]:
  "in_scope (opts\<lparr>ro_firstSeen := x\<rparr>) = in_scope opts" "grace_of (opts\<lparr>ro_firstSeen := x\<rparr>) = grace_of opts"
  by (auto simp: in_scope_def grace_of_def fun_eq_iff)

lemma rec_runs_append: "rec_runs fs (rs @ rs') = rec_runs (rec_runs fs rs) rs'"
  by (induction fs rs rule: rec_runs.induct) auto

lemma reconcile_firstSeen:
  assumes "obj_get (rc_firstSeen (reconcile ls lg (opts\<lparr>ro_firstSeen := Some fs\<rparr>))) r = Some t"
  shows "run_lists r (ls, lg, opts)" "obj_get fs r = Some t \<or> obj_get fs r = None \<and> t = ro_now opts"
proof -
  let ?o = "opts\<lparr>ro_firstSeen := Some fs\<rparr>"
  obtain p where p: "find (\<lambda>p. li_ref p = r) (rev (filter (unmatched opts lg) ls)) = Some p" "t = first_sighting ?o p"
    using assms by (auto simp: reconcile_lists put_all_get split: option.splits)
  then have "p \<in> set (filter (unmatched opts lg) ls)" "li_ref p = r" by (auto dest: find_SomeD)
  with p(2) show "run_lists r (ls, lg, opts)" "obj_get fs r = Some t \<or> obj_get fs r = None \<and> t = ro_now opts"
    by (auto simp: run_lists_def first_sighting_def split: option.splits)
qed

text \<open>A first-seen time stands for an unbroken series of runs that listed the ref unmatched.\<close>

lemma rec_runs_unbroken:
  "obj_get (rec_runs [] rs) r = Some t \<Longrightarrow>
   \<exists>before since. rs = before @ since \<and> since \<noteq> [] \<and> run_now (hd since) = t \<and> list_all (run_lists r) since"
proof (induction rs arbitrary: t rule: rev_induct)
  case Nil
  then show ?case by simp
next
  case (snoc run rs)
  obtain ls lg opts where run: "run = (ls, lg, opts)" by (cases run)
  from snoc.prems have g: "obj_get (rc_firstSeen (reconcile ls lg (opts\<lparr>ro_firstSeen := Some (rec_runs [] rs)\<rparr>))) r = Some t"
    by (simp add: rec_runs_append run)
  note l = reconcile_firstSeen [OF g]
  show ?case
  proof (cases "obj_get (rec_runs [] rs) r = Some t")
    case True
    from snoc.IH [OF this] obtain before since
      where "rs = before @ since" "since \<noteq> []" "run_now (hd since) = t" "list_all (run_lists r) since" by blast
    then have "rs @ [run] = before @ (since @ [run])" "run_now (hd (since @ [run])) = t" "list_all (run_lists r) (since @ [run])"
      using l(1) run by simp_all
    then show ?thesis by blast
  next
    case False
    with l have "run_now (hd [run]) = t" "list_all (run_lists r) [run]" by (auto simp: run)
    then show ?thesis by blast
  qed
qed

text \<open>C14. Run after run over one state file, an orphan is reported only after a full grace period of
  bookkeeping: there is an unbroken series of runs, the reporting one last, each of which listed the
  project's ref in scope and without a ledger match, and the first of them was at least the grace
  period earlier. A project that drops out of the listing or gets a ledger line starts again.\<close>

theorem orphan_waited:
  assumes "p \<in> set (rc_orphan (reconcile ls lg (opts\<lparr>ro_firstSeen := Some (rec_runs [] rs)\<rparr>)))"
    and "grace_of opts = Fin g" "g > 0"
  shows "\<exists>before since. rs = before @ since \<and> since \<noteq> [] \<and> list_all (run_lists (li_ref p)) (since @ [(ls, lg, opts)]) \<and>
           of_int (ro_now opts - run_now (hd since)) \<ge> g"
proof -
  let ?o = "opts\<lparr>ro_firstSeen := Some (rec_runs [] rs)\<rparr>"
  from assms(1) have p: "p \<in> set ls" "unmatched opts lg p" "old_enough ?o p" by (auto simp: reconcile_lists)
  then obtain t where t: "obj_get (rec_runs [] rs) (li_ref p) = Some t" "of_int (ro_now opts - t) \<ge> g"
    using assms(2,3) by (auto simp: old_enough_def first_sighting_def below_def split: option.splits)
  from rec_runs_unbroken [OF t(1)] obtain before since where
    "rs = before @ since" "since \<noteq> []" "run_now (hd since) = t" "list_all (run_lists (li_ref p)) since" by blast
  moreover have "run_lists (li_ref p) (ls, lg, opts)" using p by (auto simp: run_lists_def)
  ultimately show ?thesis using t(2) by (intro exI [of _ before] exI [of _ since]) simp
qed

definition sample_listed :: listed where
  "sample_listed = \<lparr>li_ref = ''abc'', li_name = ''mf-1'', li_created_at = [], li_status = None, li_org = None\<rparr>"

definition sample_opts :: "int \<Rightarrow> rec_opts" where
  "sample_opts t = \<lparr>ro_prefix = ''mf-'', ro_now = t, ro_graceMs = None, ro_org = None, ro_firstSeen = None\<rparr>"

theorem orphan_waited_witness:
  "\<exists>before since. [([sample_listed], [], sample_opts 0)] = before @ since \<and> since \<noteq> [] \<and>
     list_all (run_lists (li_ref sample_listed)) (since @ [([sample_listed], [], sample_opts 400000)]) \<and>
     of_int (ro_now (sample_opts 400000) - run_now (hd since)) \<ge> (300000 :: rat)"
proof (rule orphan_waited)
  show "sample_listed \<in> set (rc_orphan (reconcile [sample_listed] []
      (sample_opts 400000\<lparr>ro_firstSeen := Some (rec_runs [] [([sample_listed], [], sample_opts 0)])\<rparr>)))"
    by (simp add: reconcile_lists old_enough_def first_sighting_def below_def grace_of_def in_scope_def truthy_def
        matched_by_def sample_opts_def sample_listed_def)
  show "grace_of (sample_opts 400000) = Fin 300000" by (simp add: grace_of_def sample_opts_def)
qed simp

end
