(* ===== verification/Simulation.thy ===== *)
theory Simulation
  imports Prelude
begin

text \<open>
  Runs of a component that answers each event with a new state and a list of outputs, and the
  contract by which such a component implements an automaton over its outputs: a relation between
  their states that every step keeps.
\<close>

fun run_steps :: "('e \<Rightarrow> 's \<Rightarrow> 's \<times> 'o list) \<Rightarrow> 'e list \<Rightarrow> 's \<Rightarrow> 's \<times> 'o list" where
  "run_steps step [] s = (s, [])"
| "run_steps step (e # es) s =
     (let (s', fs) = step e s; (s'', gs) = run_steps step es s' in (s'', fs @ gs))"

text \<open>The automaton reads the outputs; \<open>None\<close> when it refuses one.\<close>

fun spec_run :: "('a \<Rightarrow> 'o \<Rightarrow> 'a option) \<Rightarrow> 'a \<Rightarrow> 'o list \<Rightarrow> 'a option" where
  "spec_run spec a [] = Some a"
| "spec_run spec a (x # xs) = (case spec a x of None \<Rightarrow> None | Some a' \<Rightarrow> spec_run spec a' xs)"

lemma spec_run_append:
  "spec_run spec a (xs @ ys) = (case spec_run spec a xs of None \<Rightarrow> None | Some a' \<Rightarrow> spec_run spec a' ys)"
  by (induction xs arbitrary: a) (auto split: option.splits)

lemma run_steps_snoc:
  "run_steps step (es @ [e]) s =
     (let (s', fs) = run_steps step es s; (s'', gs) = step e s' in (s'', fs @ gs))"
  by (induction es arbitrary: s) (auto split: prod.splits)

locale simulation =
  fixes step :: "'e \<Rightarrow> 's \<Rightarrow> 's \<times> 'o list"
    and spec :: "'a \<Rightarrow> 'o \<Rightarrow> 'a option"
    and rel :: "'s \<Rightarrow> 'a \<Rightarrow> bool"
  assumes step_sim: "rel s a \<Longrightarrow> step e s = (s', fs) \<Longrightarrow> \<exists>a'. spec_run spec a fs = Some a' \<and> rel s' a'"
begin

lemma run_sim: "rel s a \<Longrightarrow> run_steps step es s = (s', fs) \<Longrightarrow> \<exists>a'. spec_run spec a fs = Some a' \<and> rel s' a'"
proof (induction es arbitrary: s a fs)
  case Nil
  then show ?case by simp
next
  case (Cons e es)
  obtain s1 gs where 1: "step e s = (s1, gs)" by (cases "step e s")
  with Cons.prems obtain hs where 2: "run_steps step es s1 = (s', hs)" "fs = gs @ hs"
    by (auto split: prod.splits)
  from step_sim [OF Cons.prems(1) 1] obtain a1 where a1: "spec_run spec a gs = Some a1" "rel s1 a1" by blast
  from Cons.IH [OF a1(2) 2(1)] obtain a2 where "spec_run spec a1 hs = Some a2" "rel s' a2" by blast
  with a1 2 show ?case by (simp add: spec_run_append)
qed

lemma run_accepted: "rel s a \<Longrightarrow> spec_run spec a (snd (run_steps step es s)) \<noteq> None"
  using run_sim [of s a es] by (cases "run_steps step es s") auto

end

end
