(* ===== verification/Connfault.thy ===== *)
theory Connfault
  imports RegExp Json Js_Number Simulation
begin

text \<open>
  \<open>experiments/mgmt-api-faults/lib/connfault.ts\<close>: an HTTP/1.1 proxy on a raw TCP socket that drops
  connections by rule. Bytes are characters. The socket callbacks and the settling of an upstream
  request are the events of a state machine; each runs to the next \<open>await\<close>. What a socket accepts
  of a write, what upstream answers, the clock (read once per event) and the JSON reading of an
  answer's body come with the event. A rule holds its compiled pattern. What the proxy does to the
  outside is the list of effects of a step.
\<close>

subsection \<open>Rules, log rows and connections\<close>

datatype rule_mode = ResetBefore | CloseBefore | ResetAfter | Pass

definition mode_str :: "rule_mode \<Rightarrow> string" where
  "mode_str m = (case m of ResetBefore \<Rightarrow> ''reset-before'' | CloseBefore \<Rightarrow> ''close-before''
     | ResetAfter \<Rightarrow> ''reset-after'' | Pass \<Rightarrow> ''pass'')"

record conn_rule =
  cr_id :: string
  cr_method :: "string option"
  cr_path :: re
  cr_mode :: rule_mode
  cr_times :: "int option"
  cr_fired :: "int option"

text \<open>\<open>lr_key\<close> identifies the row object: the handler keeps writing to it after \<open>reset\<close> took it out of the log.\<close>

record log_row =
  lr_key :: nat
  lr_seq :: nat
  lr_t :: int
  lr_conn :: nat
  lr_method :: string
  lr_path :: string
  lr_bodyBytes :: nat
  lr_rule :: "string option"
  lr_action :: string
  lr_upstreamStatus :: "int option"
  lr_upstreamRef :: "json option"
  lr_upstreamCreatedAt :: "string option"
  lr_clientStatus :: "int option"
  lr_ms :: int

text \<open>A request the handler waits for: its row, when it began and the mode of its rule.\<close>

record pending =
  pd_key :: nat
  pd_t0 :: int
  pd_mode :: "rule_mode option"

record conn =
  cn_buf :: string
  cn_busy :: bool
  cn_out :: "string list"
  cn_dead :: bool
  cn_wait :: "pending option"

definition STRIP_REQ :: "string list" where
  "STRIP_REQ = [''host'', ''content-length'', ''accept-encoding'', ''connection'', ''transfer-encoding'', ''keep-alive'', ''proxy-connection'']"

definition STRIP_RES :: "string list" where
  "STRIP_RES = [''content-encoding'', ''content-length'', ''transfer-encoding'', ''connection'', ''keep-alive'']"

text \<open>
  \<open>toUpperCase\<close> on Latin-1; the sharp s becomes two letters. The two letters whose capital is
  outside Latin-1 (181, 255) are kept.
\<close>

definition upper_units :: "char \<Rightarrow> string" where
  "upper_units c =
     (let n = (of_char c :: nat)
      in if n = 223 then ''SS''
         else if (97 \<le> n \<and> n \<le> 122) \<or> (224 \<le> n \<and> n \<le> 254 \<and> n \<noteq> 247) then [char_of (n - 32)] else [c])"

definition to_upper :: "string \<Rightarrow> string" where
  "to_upper s = concat (map upper_units s)"

text \<open>\<open>pickRule\<close>: the chosen rule and the rules with its firing counted.\<close>

definition rule_fits :: "conn_rule \<Rightarrow> string \<Rightarrow> string \<Rightarrow> bool" where
  "rule_fits r method path =
     (\<not> (truthy (cr_method r) \<and> to_upper (the (cr_method r)) \<noteq> method) \<and> re_test (cr_path r) path)"

definition fired :: "conn_rule \<Rightarrow> int" where
  "fired r = (case cr_fired r of None \<Rightarrow> 0 | Some n \<Rightarrow> n)"

definition spent :: "conn_rule \<Rightarrow> bool" where
  "spent r = (case cr_times r of None \<Rightarrow> False | Some n \<Rightarrow> n \<noteq> 0 \<and> fired r \<ge> n)"

fun pickRule :: "conn_rule list \<Rightarrow> string \<Rightarrow> string \<Rightarrow> conn_rule option \<times> conn_rule list" where
  "pickRule [] method path = (None, [])"
| "pickRule (r # rs) method path =
     (if \<not> rule_fits r method path \<or> spent r
      then (let (p, rs') = pickRule rs method path in (p, r # rs'))
      else (let r' = r\<lparr>cr_fired := Some (fired r + 1)\<rparr> in (Some r', r' # rs)))"

subsection \<open>Parsing a request\<close>

record request =
  rq_method :: string
  rq_path :: string
  rq_headers :: "(string \<times> string) list"
  rq_body :: string
  rq_used :: jsnum

datatype parsed = More | Refused string | Req request

text \<open>\<open>buf.indexOf(p)\<close>\<close>

fun index_str :: "string \<Rightarrow> string \<Rightarrow> nat option" where
  "index_str p [] = (if p = [] then Some 0 else None)"
| "index_str p (c # s) = (if starts_with (c # s) p then Some 0 else map_option Suc (index_str p s))"

text \<open>\<open>split("\r\n")\<close>\<close>

fun split_crlf :: "string \<Rightarrow> string list" where
  "split_crlf [] = [[]]"
| "split_crlf [c] = [[c]]"
| "split_crlf (c # d # s) =
     (if c = CHR 0x0D \<and> d = CHR 0x0A then [] # split_crlf s
      else case split_crlf (d # s) of [] \<Rightarrow> [[c]] | w # ws \<Rightarrow> (c # w) # ws)"

definition header_end :: string where
  "header_end = [CHR 0x0D, CHR 0x0A, CHR 0x0D, CHR 0x0A]"

text \<open>\<open>Number(v) || 0\<close> and \<open>start + len\<close>\<close>

definition or_zero :: "jsnum \<Rightarrow> jsnum" where
  "or_zero x = (case x of NaN \<Rightarrow> Fin 0 | _ \<Rightarrow> x)"

definition num_plus :: "nat \<Rightarrow> jsnum \<Rightarrow> jsnum" where
  "num_plus n x = (case x of Fin r \<Rightarrow> Fin (of_nat n + r) | _ \<Rightarrow> x)"

definition nat_less :: "nat \<Rightarrow> jsnum \<Rightarrow> bool" where
  "nat_less n x = (case x of NaN \<Rightarrow> False | PosInf \<Rightarrow> True | NegInf \<Rightarrow> False | Fin r \<Rightarrow> of_nat n < r)"

definition chunked_re :: re where
  "chunked_re = LitI ''chunked''"

text \<open>The header lines: the headers and the length so far; \<open>Inl\<close> refuses a chunked body.\<close>

fun header_lines :: "string list \<Rightarrow> (string \<times> string) list \<Rightarrow> jsnum \<Rightarrow> string + (string \<times> string) list \<times> jsnum" where
  "header_lines [] hs len = Inr (hs, len)"
| "header_lines (l # ls) hs len =
     (case index_of (CHR '':'') l of
        None \<Rightarrow> header_lines ls hs len
      | Some i \<Rightarrow>
          (let k = trim (take i l); v = trim (drop (i + 1) l);
               len' = (if to_lower k = ''content-length'' then or_zero (to_number v) else len)
           in if to_lower k = ''transfer-encoding'' \<and> re_test chunked_re v then Inl ''chunked request body''
              else header_lines ls (hs @ [(k, v)]) len'))"

definition nth_or_empty :: "nat \<Rightarrow> string list \<Rightarrow> string" where
  "nth_or_empty i xs = (if i < length xs then xs ! i else [])"

definition parseRequest :: "string \<Rightarrow> parsed" where
  "parseRequest buf =
     (case index_str header_end buf of
        None \<Rightarrow> More
      | Some e \<Rightarrow>
          (let head = split_crlf (take e buf); line = split_char (CHR '' '') (nth_or_empty 0 head)
           in case header_lines (tl head) [] (Fin 0) of
                Inl err \<Rightarrow> Refused err
              | Inr (hs, len) \<Rightarrow>
                  (let start = e + 4; stop = num_plus start len
                   in if nat_less (length buf) stop then More
                      else Req \<lparr>rq_method = to_upper (nth_or_empty 0 line), rq_path = nth_or_empty 1 line, rq_headers = hs,
                             rq_body = take (offset (length buf) stop - start) (drop start buf), rq_used = stop\<rparr>)))"

subsection \<open>The proxy\<close>

record proxy =
  px_rules :: "conn_rule list"
  px_log :: "log_row list"
  px_seq :: nat
  px_key :: nat
  px_connSeq :: nat
  px_accepted :: nat
  px_conns :: "nat \<Rightarrow> conn option"

definition startConnProxy :: proxy where
  "startConnProxy = \<lparr>px_rules = [], px_log = [], px_seq = 0, px_key = 0, px_connSeq = 0, px_accepted = 0, px_conns = (\<lambda>_. None)\<rparr>"

text \<open>
  What a step does to the outside: the handler starts on a request with the mode its rule chose, a
  request goes upstream, an answer is queued for the client, bytes are written, the connection is
  reset or closed, the handler throws.
\<close>

datatype effect =
    Handle request "rule_mode option"
  | Upstream string string "(string \<times> string) list" string
  | Queue string
  | Write string
  | Terminate
  | End
  | Threw

record answer =
  an_status :: int
  an_statusText :: string
  an_headers :: "(string \<times> string) list"
  an_body :: string
  an_json :: "json option"

text \<open>The write results a flush meets; a socket with no more room accepts nothing.\<close>

fun flush_out :: "int list \<Rightarrow> string list \<Rightarrow> string list \<times> string" where
  "flush_out ws [] = ([], [])"
| "flush_out ws (chunk # rest) =
     (let n = (case ws of [] \<Rightarrow> 0 | n # _ \<Rightarrow> n)
      in if n < 0 then (chunk # rest, [])
         else if n < int (length chunk) then (drop (nat n) chunk # rest, take (nat n) chunk)
         else (let (q, b) = flush_out (tl ws) rest in (q, chunk @ b)))"

definition set_conn :: "nat \<Rightarrow> conn \<Rightarrow> proxy \<Rightarrow> proxy" where
  "set_conn c st px = px\<lparr>px_conns := (px_conns px)(c \<mapsto> st)\<rparr>"

definition upd_row :: "nat \<Rightarrow> (log_row \<Rightarrow> log_row) \<Rightarrow> proxy \<Rightarrow> proxy" where
  "upd_row k f px = px\<lparr>px_log := map (\<lambda>r. if lr_key r = k then f r else r) (px_log px)\<rparr>"

definition flush :: "nat \<Rightarrow> conn \<Rightarrow> int list \<Rightarrow> conn \<times> (nat \<times> effect) list" where
  "flush c st ws =
     (let (q, b) = flush_out ws (cn_out st) in (st\<lparr>cn_out := q\<rparr>, if b = [] then [] else [(c, Write b)]))"

text \<open>\<open>Headers.append\<close> throws on a name that is not a token and on a value with NUL, CR or LF.\<close>

definition token_char :: "char \<Rightarrow> bool" where
  "token_char c = (is_lower c \<or> is_upper c \<or> is_digit c \<or> c \<in> set ''!#$%&*+-.^_|~'' \<or> of_char c \<in> {39, 96 :: nat})"

definition header_ok :: "string \<times> string \<Rightarrow> bool" where
  "header_ok kv =
     (fst kv \<noteq> [] \<and> list_all token_char (fst kv) \<and> list_all (\<lambda>c. of_char c \<notin> {0, 10, 13 :: nat}) (snd kv))"

definition forwarded :: "request \<Rightarrow> (string \<times> string) list" where
  "forwarded req = filter (\<lambda>(k, v). to_lower k \<notin> set STRIP_REQ) (rq_headers req)"

definition new_row :: "int \<Rightarrow> nat \<Rightarrow> request \<Rightarrow> conn_rule option \<Rightarrow> proxy \<Rightarrow> log_row" where
  "new_row now c req rule px =
     \<lparr>lr_key = px_key px, lr_seq = px_seq px + 1, lr_t = now, lr_conn = c, lr_method = rq_method req, lr_path = rq_path req,
      lr_bodyBytes = length (rq_body req), lr_rule = map_option cr_id rule,
      lr_action = (case map_option cr_mode rule of
          Some m \<Rightarrow> if m = ResetBefore \<or> m = CloseBefore then mode_str m else ''forward'' | None \<Rightarrow> ''forward''),
      lr_upstreamStatus = None, lr_upstreamRef = None, lr_upstreamCreatedAt = None, lr_clientStatus = None, lr_ms = 0\<rparr>"

text \<open>\<open>handle\<close> up to its \<open>await\<close>.\<close>

definition handle_start :: "int \<Rightarrow> nat \<Rightarrow> conn \<Rightarrow> request \<Rightarrow> proxy \<Rightarrow> proxy \<times> (nat \<times> effect) list" where
  "handle_start now c st req px =
     (let (rule, rules') = pickRule (px_rules px) (rq_method req) (rq_path req);
          mode = map_option cr_mode rule;
          px' = px\<lparr>px_rules := rules', px_log := px_log px @ [new_row now c req rule px], px_seq := px_seq px + 1, px_key := px_key px + 1\<rparr>;
          began = (c, Handle req mode)
      in if mode = Some ResetBefore then (set_conn c (st\<lparr>cn_dead := True, cn_busy := False\<rparr>) px', [began, (c, Terminate)])
         else if mode = Some CloseBefore then (set_conn c (st\<lparr>cn_dead := True, cn_busy := False\<rparr>) px', [began, (c, End)])
         else if \<not> list_all header_ok (forwarded req) then (set_conn c (st\<lparr>cn_busy := False\<rparr>) px', [began, (c, Threw)])
         else (set_conn c (st\<lparr>cn_wait := Some \<lparr>pd_key = px_key px, pd_t0 = now, pd_mode = mode\<rparr>\<rparr>) px',
               [began, (c, Upstream (rq_method req) (rq_path req) (forwarded req) (rq_body req))]))"

text \<open>\<open>pump\<close>, entered with the connection marked busy.\<close>

definition refused_row :: "int \<Rightarrow> nat \<Rightarrow> string \<Rightarrow> proxy \<Rightarrow> log_row" where
  "refused_row now c err px =
     \<lparr>lr_key = px_key px, lr_seq = px_seq px + 1, lr_t = now, lr_conn = c, lr_method = ''?'', lr_path = ''?'', lr_bodyBytes = 0,
      lr_rule = None, lr_action = ''refused: '' @ err, lr_upstreamStatus = None, lr_upstreamRef = None, lr_upstreamCreatedAt = None,
      lr_clientStatus = None, lr_ms = 0\<rparr>"

definition pump_loop :: "int \<Rightarrow> nat \<Rightarrow> conn \<Rightarrow> proxy \<Rightarrow> proxy \<times> (nat \<times> effect) list" where
  "pump_loop now c st px =
     (if cn_dead st then (set_conn c (st\<lparr>cn_busy := False\<rparr>) px, [])
      else case parseRequest (cn_buf st) of
          More \<Rightarrow> (set_conn c (st\<lparr>cn_busy := False\<rparr>) px, [])
        | Refused err \<Rightarrow>
            (set_conn c (st\<lparr>cn_dead := True, cn_busy := False\<rparr>)
               (px\<lparr>px_log := px_log px @ [refused_row now c err px], px_seq := px_seq px + 1, px_key := px_key px + 1\<rparr>), [(c, End)])
        | Req req \<Rightarrow> handle_start now c (st\<lparr>cn_buf := drop (offset (length (cn_buf st)) (rq_used req)) (cn_buf st)\<rparr>) req px)"

text \<open>What the row keeps of an answer that parsed as JSON; reading a field of \<open>null\<close> throws.\<close>

definition json_fields :: "json option \<Rightarrow> log_row \<Rightarrow> log_row" where
  "json_fields j row =
     (case j of None \<Rightarrow> row | Some JNull \<Rightarrow> row
      | Some v \<Rightarrow>
          (let row' = row\<lparr>lr_upstreamRef :=
                 (case jget ''ref'' v of Some x \<Rightarrow> if x \<noteq> JNull then Some x else None | None \<Rightarrow> None)\<rparr>;
               row'' = (if lr_upstreamRef row' = None
                        then row'\<lparr>lr_upstreamRef := (case jget ''id'' v of Some (JStr i) \<Rightarrow> Some (JStr i) | _ \<Rightarrow> None)\<rparr> else row')
           in case jget ''created_at'' v of Some (JStr t) \<Rightarrow> row''\<lparr>lr_upstreamCreatedAt := Some t\<rparr> | _ \<Rightarrow> row''))"

definition crlf :: string where
  "crlf = [CHR 0x0D, CHR 0x0A]"

definition response_head :: "int \<Rightarrow> string \<Rightarrow> (string \<times> string) list \<Rightarrow> string \<Rightarrow> string" where
  "response_head status text hs body =
     ''HTTP/1.1 '' @ show_int status @ '' '' @ text @ crlf @
     concat (map (\<lambda>(k, v). k @ '': '' @ v @ crlf) hs) @
     ''content-length: '' @ show_nat (length body) @ crlf @ ''connection: keep-alive'' @ crlf @ crlf"

definition reply :: "answer option \<Rightarrow> int \<times> string \<times> string" where
  "reply ans =
     (case ans of
        None \<Rightarrow> (502, response_head 502 ''Bad Gateway'' [] ''upstream unreachable'', ''upstream unreachable'')
      | Some a \<Rightarrow> (an_status a, response_head (an_status a) (if an_statusText a = [] then ''OK'' else an_statusText a)
            (filter (\<lambda>(k, v). to_lower k \<notin> set STRIP_RES) (an_headers a)) (an_body a), an_body a))"

definition note_answer :: "answer option \<Rightarrow> log_row \<Rightarrow> log_row" where
  "note_answer ans row =
     (case ans of
        None \<Rightarrow> row\<lparr>lr_action := ''upstream-unreachable''\<rparr>
      | Some a \<Rightarrow> json_fields (an_json a) (row\<lparr>lr_upstreamStatus := Some (an_status a)\<rparr>))"

text \<open>\<open>handle\<close> from its \<open>await\<close> on (\<open>None\<close>: the fetch failed), then the next round of \<open>pump\<close>.\<close>

definition handle_rest :: "int \<Rightarrow> nat \<Rightarrow> conn \<Rightarrow> pending \<Rightarrow> answer option \<Rightarrow> int list \<Rightarrow> proxy \<Rightarrow> proxy \<times> (nat \<times> effect) list" where
  "handle_rest now c st pd ans ws px =
     (let st' = st\<lparr>cn_wait := None\<rparr>; px' = upd_row (pd_key pd) (note_answer ans) px
      in if pd_mode pd = Some ResetAfter
         then (set_conn c (st'\<lparr>cn_dead := True, cn_busy := False\<rparr>)
                 (upd_row (pd_key pd) (\<lambda>r. r\<lparr>lr_action := ''reset-after'', lr_ms := now - pd_t0 pd\<rparr>) px'), [(c, Terminate)])
         else if cn_dead st then (set_conn c (st'\<lparr>cn_busy := False\<rparr>) px', [])
         else (let (status, head, body) = reply ans;
                   (st'', wrote) = flush c (st'\<lparr>cn_out := cn_out st' @ [head, body]\<rparr>) ws;
                   (px'', effs) = pump_loop now c st''
                     (upd_row (pd_key pd) (\<lambda>r. r\<lparr>lr_clientStatus := Some status, lr_ms := now - pd_t0 pd\<rparr>) px')
               in (px'', (c, Queue (head @ body)) # wrote @ effs)))"

datatype event =
    Open
  | Data nat string
  | Answer nat "answer option" "int list"
  | Drain nat "int list"
  | Close nat
  | SetRules "conn_rule list"
  | Reset

definition on_data :: "int \<Rightarrow> nat \<Rightarrow> string \<Rightarrow> proxy \<Rightarrow> proxy \<times> (nat \<times> effect) list" where
  "on_data now c chunk px =
     (case px_conns px c of
        None \<Rightarrow> (px, [])
      | Some st \<Rightarrow>
          if cn_dead st then (px, [])
          else let st' = st\<lparr>cn_buf := cn_buf st @ chunk\<rparr>
               in if cn_busy st' then (set_conn c st' px, []) else pump_loop now c (st'\<lparr>cn_busy := True\<rparr>) px)"

fun proxy_step :: "int \<Rightarrow> event \<Rightarrow> proxy \<Rightarrow> proxy \<times> (nat \<times> effect) list" where
  "proxy_step now Open px =
     (set_conn (px_connSeq px + 1) \<lparr>cn_buf = [], cn_busy = False, cn_out = [], cn_dead = False, cn_wait = None\<rparr>
        (px\<lparr>px_accepted := px_accepted px + 1, px_connSeq := px_connSeq px + 1\<rparr>), [])"
| "proxy_step now (Data c chunk) px = on_data now c chunk px"
| "proxy_step now (Answer c ans ws) px =
     (case px_conns px c of None \<Rightarrow> (px, [])
      | Some st \<Rightarrow> (case cn_wait st of None \<Rightarrow> (px, []) | Some pd \<Rightarrow> handle_rest now c st pd ans ws px))"
| "proxy_step now (Drain c ws) px =
     (case px_conns px c of None \<Rightarrow> (px, []) | Some st \<Rightarrow> (let (st', wrote) = flush c st ws in (set_conn c st' px, wrote)))"
| "proxy_step now (Close c) px =
     (case px_conns px c of None \<Rightarrow> (px, []) | Some st \<Rightarrow> (set_conn c (st\<lparr>cn_dead := True\<rparr>) px, []))"
| "proxy_step now (SetRules rs) px = (px\<lparr>px_rules := map (\<lambda>r. r\<lparr>cr_fired := Some 0\<rparr>) rs\<rparr>, [])"
| "proxy_step now Reset px = (px\<lparr>px_rules := [], px_log := [], px_seq := 0, px_accepted := 0\<rparr>, [])"

text \<open>A run: the events with their times, and the effects of all of them in order.\<close>

definition proxy_run :: "(int \<times> event) list \<Rightarrow> proxy \<Rightarrow> proxy \<times> (nat \<times> effect) list" where
  "proxy_run = run_steps (\<lambda>(now, ev). proxy_step now ev)"

subsection \<open>The shape of a log\<close>

definition ref_re :: re where
  "ref_re = Seqs [WordB, Rep 20 (Cls is_lower), WordB]"

definition query_re :: re where
  "query_re = Seqs [Cls (\<lambda>c. c = CHR ''?''), Star (Cls (\<lambda>c. of_char c \<notin> {10, 13 :: nat})), Eol]"

definition shape_key :: "log_row \<Rightarrow> string" where
  "shape_key r =
     (let p = replace_first query_re (\<lambda>_. []) (replace_all ref_re (\<lambda>_. ''{ref}'') (lr_path r))
      in lr_method r @ '' '' @ p @ '' '' @ lr_action r @
         (case lr_upstreamStatus r of Some n \<Rightarrow> if n \<noteq> 0 then '' (upstream '' @ show_int n @ '')'' else [] | None \<Rightarrow> []) @
         (case lr_clientStatus r of Some n \<Rightarrow> if n \<noteq> 0 then '' -> '' @ show_int n else [] | None \<Rightarrow> []))"

definition connShape :: "log_row list \<Rightarrow> string" where
  "connShape rows =
     join nl (map (\<lambda>(k, n). show_nat n @ ''x '' @ k) (foldl count_key [] (map shape_key rows)))"

subsection \<open>Parsing does not depend on what follows\<close>

lemma starts_with_long: "length p \<le> length s \<Longrightarrow> starts_with (s @ x) p = starts_with s p"
  by (induction s p rule: starts_with.induct) auto

lemma starts_with_length: "starts_with s p \<Longrightarrow> length p \<le> length s"
  by (auto simp: starts_with_iff)

lemma index_str_bound: "index_str p s = Some i \<Longrightarrow> i + length p \<le> length s"
  by (induction s arbitrary: i) (auto split: if_splits dest: starts_with_length)

lemma index_str_append: "index_str p s = Some i \<Longrightarrow> index_str p (s @ x) = Some i"
proof (induction s arbitrary: i)
  case Nil
  then show ?case by (cases x) (auto split: if_splits)
next
  case (Cons c s)
  from index_str_bound [OF Cons.prems] have "length p \<le> length (c # s)" by linarith
  from starts_with_long [OF this, of x] Cons show ?case by (auto split: if_splits)
qed

text \<open>A request with a length that is not negative: at least its header is consumed.\<close>

definition well_framed :: "request \<Rightarrow> bool" where
  "well_framed r = (case rq_used r of Fin x \<Rightarrow> x \<ge> 1 | _ \<Rightarrow> False)"

lemma offset_le: "offset n x \<le> n"
  by (auto simp: offset_def split: jsnum.splits)

lemma trunc_pos: "x \<ge> 1 \<Longrightarrow> trunc x \<ge> 1"
  by (simp add: trunc_def)

lemma offset_stable:
  assumes "x \<ge> 1" "\<not> nat_less n (Fin x)" "n \<le> m"
  shows "offset m (Fin x) = offset n (Fin x)" "offset n (Fin x) \<ge> 1" "\<not> nat_less m (Fin x)"
proof -
  have "trunc x \<le> int n" using assms(1,2) by (simp add: nat_less_def trunc_def floor_le_iff)
  moreover have "x \<le> of_nat m" using assms(2,3) by (simp add: nat_less_def)
  ultimately show "offset m (Fin x) = offset n (Fin x)" "offset n (Fin x) \<ge> 1" "\<not> nat_less m (Fin x)"
    using trunc_pos [OF assms(1)] assms(3) by (auto simp: offset_def nat_less_def)
qed

lemma parse_append:
  assumes "parseRequest b = Req r" "well_framed r"
  shows "parseRequest (b @ x) = Req r"
    and "offset (length (b @ x)) (rq_used r) = offset (length b) (rq_used r)"
    and "0 < offset (length b) (rq_used r)"
proof -
  from assms(1) obtain e hs len where
    e: "index_str header_end b = Some e"
    and h: "header_lines (tl (split_crlf (take e b))) [] (Fin 0) = Inr (hs, len)"
    and l: "\<not> nat_less (length b) (num_plus (e + 4) len)" and used: "rq_used r = num_plus (e + 4) len"
    by (auto simp: parseRequest_def Let_def split: option.splits sum.splits if_splits prod.splits)
  from assms(2) used obtain q where q: "num_plus (e + 4) len = Fin q" "q \<ge> 1"
    by (auto simp: well_framed_def split: jsnum.splits)
  have e4: "e + 4 \<le> length b" using index_str_bound [OF e] by (simp add: header_end_def)
  note st = offset_stable [OF q(2) l [unfolded q(1)], of "length (b @ x)"]
  show "offset (length (b @ x)) (rq_used r) = offset (length b) (rq_used r)"
    "0 < offset (length b) (rq_used r)" using st q(1) used by simp_all
  note offset_le [of "length b" "Fin q"]
  with assms(1) e h l q st e4 index_str_append [OF e, of x] show "parseRequest (b @ x) = Req r"
    by (simp add: parseRequest_def Let_def)
qed

text \<open>The requests in a stream of bytes, one after the other.\<close>

function frames :: "string \<Rightarrow> request list" where
  "frames b =
     (case parseRequest b of
        Req r \<Rightarrow> r # (if 0 < offset (length b) (rq_used r) then frames (drop (offset (length b) (rq_used r)) b) else [])
      | _ \<Rightarrow> [])"
  by auto

termination
proof (relation "measure length")
  fix b r
  assume "0 < offset (length b) (rq_used r)"
  with offset_le [of "length b" "rq_used r"] show "(drop (offset (length b) (rq_used r)) b, b) \<in> measure length" by auto
qed simp

declare frames.simps [simp del]

lemma frames_Req:
  "parseRequest b = Req r \<Longrightarrow> well_framed r \<Longrightarrow>
   frames (b @ x) = r # frames (drop (offset (length b) (rq_used r)) b @ x)"
  using parse_append(1,2) [of b r x] parse_append(3) [of b r] offset_le [of "length b" "rq_used r"]
  by (subst frames.simps) (simp del: length_append)

text \<open>The connections a step leaves alone, and what \<open>pump\<close> does to its own.\<close>

definition buf_of :: "proxy \<Rightarrow> nat \<Rightarrow> string" where
  "buf_of px c = (case px_conns px c of None \<Rightarrow> [] | Some st \<Rightarrow> cn_buf st)"

definition proj :: "nat \<Rightarrow> (nat \<times> effect) list \<Rightarrow> effect list" where
  "proj c fs = map snd (filter (\<lambda>f. fst f = c) fs)"

definition handled :: "effect list \<Rightarrow> request list" where
  "handled fs = concat (map (\<lambda>f. case f of Handle r m \<Rightarrow> [r] | _ \<Rightarrow> []) fs)"

lemma proj_simps [simp]:
  "proj c [] = []" "proj c (f # fs) = (if fst f = c then snd f # proj c fs else proj c fs)"
  "proj c (fs @ gs) = proj c fs @ proj c gs"
  by (simp_all add: proj_def)

lemma handled_simps [simp]:
  "handled [] = []" "handled (f # fs) = (case f of Handle r m \<Rightarrow> [r] | _ \<Rightarrow> []) @ handled fs"
  "handled (fs @ gs) = handled fs @ handled gs"
  by (simp_all add: handled_def)

lemma set_conn_simps [simp]:
  "px_conns (set_conn c st px) = (px_conns px)(c \<mapsto> st)" "px_connSeq (set_conn c st px) = px_connSeq px"
  "px_conns (upd_row k f px) = px_conns px" "px_connSeq (upd_row k f px) = px_connSeq px"
  by (simp_all add: set_conn_def upd_row_def)

definition fresh :: "proxy \<Rightarrow> bool" where
  "fresh px = (\<forall>c > px_connSeq px. px_conns px c = None)"

lemma proj_own: "proj c' (map (Pair c) es) = (if c' = c then es else [])"
  by (simp add: proj_def comp_def filter_map)

subsection \<open>What a connection says\<close>

text \<open>
  The automaton a connection's effects follow. A request is handled by the mode its rule chose:
  reset or closed before upstream hears of it; sent upstream once and answered once; or sent
  upstream and then reset. After the connection is cut nothing is handled any more.
\<close>

datatype talk = Idle | Chosen request "rule_mode option" | Waiting "rule_mode option" | Cut

definition cuts_before :: "rule_mode option \<Rightarrow> bool" where
  "cuts_before m = (m = Some ResetBefore \<or> m = Some CloseBefore)"

fun talk_step :: "talk \<Rightarrow> effect \<Rightarrow> talk option" where
  "talk_step t (Write b) = Some t"
| "talk_step Idle (Handle r m) = Some (Chosen r m)"
| "talk_step Idle End = Some Cut"
| "talk_step (Chosen r m) Terminate = (if m = Some ResetBefore then Some Cut else None)"
| "talk_step (Chosen r m) End = (if m = Some CloseBefore then Some Cut else None)"
| "talk_step (Chosen r m) (Upstream me p hs b) =
     (if \<not> cuts_before m \<and> me = rq_method r \<and> p = rq_path r \<and> b = rq_body r \<and> hs = forwarded r then Some (Waiting m) else None)"
| "talk_step (Chosen r m) Threw = (if \<not> cuts_before m \<and> \<not> list_all header_ok (forwarded r) then Some Idle else None)"
| "talk_step (Waiting m) Terminate = (if m = Some ResetAfter then Some Cut else None)"
| "talk_step (Waiting m) (Queue b) = (if m \<noteq> Some ResetAfter then Some Idle else None)"
| "talk_step _ _ = None"

text \<open>Between events a connection is busy exactly while a request of it is upstream.\<close>

definition talk_ok :: "conn \<Rightarrow> talk \<Rightarrow> bool" where
  "talk_ok st t =
     (case cn_wait st of
        Some pd \<Rightarrow> cn_busy st \<and> t = Waiting (pd_mode pd) \<and> \<not> cuts_before (pd_mode pd)
      | None \<Rightarrow> \<not> cn_busy st \<and> (\<not> cn_dead st \<longrightarrow> t = Idle))"

definition keeps_framing :: "string \<Rightarrow> effect list \<Rightarrow> string \<Rightarrow> bool" where
  "keeps_framing b es b' =
     (list_all well_framed (handled es) \<longrightarrow> (\<forall>x. frames (b @ x) = handled es @ frames (b' @ x)))"

lemma keeps_framing_refl [simp]: "handled es = [] \<Longrightarrow> keeps_framing b es b"
  by (simp add: keeps_framing_def)

text \<open>A step of connection \<open>c\<close>: its new state, its effects, the automaton's move.\<close>

definition conn_move :: "nat \<Rightarrow> talk \<Rightarrow> string \<Rightarrow> proxy \<Rightarrow> proxy \<Rightarrow> (nat \<times> effect) list \<Rightarrow> bool" where
  "conn_move c t b px px' fs =
     (\<exists>st' t' es. px_conns px' = (px_conns px)(c \<mapsto> st') \<and> px_connSeq px' = px_connSeq px \<and> fs = map (Pair c) es \<and>
        spec_run talk_step t es = Some t' \<and> talk_ok st' t' \<and> keeps_framing b es (cn_buf st'))"

lemma conn_moveI:
  "px_conns px' = (px_conns px)(c \<mapsto> st') \<Longrightarrow> px_connSeq px' = px_connSeq px \<Longrightarrow> fs = map (Pair c) es \<Longrightarrow>
   spec_run talk_step t es = Some t' \<Longrightarrow> talk_ok st' t' \<Longrightarrow> keeps_framing b es (cn_buf st') \<Longrightarrow> conn_move c t b px px' fs"
  unfolding conn_move_def by blast

lemma handle_start_move:
  assumes "handle_start now c st req px = (px', fs)" "cn_wait st = None" "cn_busy st" "\<not> cn_dead st"
    and "parseRequest b = Req req" "cn_buf st = drop (offset (length b) (rq_used req)) b"
  shows "conn_move c Idle b px px' fs"
proof -
  obtain rule rules' where pick: "pickRule (px_rules px) (rq_method req) (rq_path req) = (rule, rules')" by fastforce
  define m where "m = map_option cr_mode rule"
  note h = assms(1) [unfolded handle_start_def pick Let_def prod.case, folded m_def]
  have frame: "keeps_framing b es (cn_buf st)" if "handled es = [req]" for es
    using frames_Req [OF assms(5)] assms(6) that by (simp add: keeps_framing_def)
  consider (rb) "m = Some ResetBefore" | (cb) "m = Some CloseBefore"
    | (threw) "\<not> cuts_before m" "\<not> list_all header_ok (forwarded req)"
    | (up) "\<not> cuts_before m" "list_all header_ok (forwarded req)" by (auto simp: cuts_before_def)
  then show ?thesis
  proof cases
    case rb
    with h assms(2) show ?thesis
      by (intro conn_moveI [where es = "[Handle req m, Terminate]" and st' = "st\<lparr>cn_dead := True, cn_busy := False\<rparr>" and t' = Cut])
        (auto simp: talk_ok_def frame)
  next
    case cb
    with h assms(2) show ?thesis
      by (intro conn_moveI [where es = "[Handle req m, End]" and st' = "st\<lparr>cn_dead := True, cn_busy := False\<rparr>" and t' = Cut])
        (auto simp: talk_ok_def frame)
  next
    case threw
    with h assms(2) show ?thesis
      by (intro conn_moveI [where es = "[Handle req m, Threw]" and st' = "st\<lparr>cn_busy := False\<rparr>" and t' = Idle])
        (auto simp: talk_ok_def frame cuts_before_def)
  next
    case up
    with h assms(3) show ?thesis
      by (intro conn_moveI [where es = "[Handle req m, Upstream (rq_method req) (rq_path req) (forwarded req) (rq_body req)]"
            and st' = "st\<lparr>cn_wait := Some \<lparr>pd_key = px_key px, pd_t0 = now, pd_mode = m\<rparr>\<rparr>" and t' = "Waiting m"])
        (auto simp: talk_ok_def frame cuts_before_def)
  qed
qed

lemma pump_move:
  assumes "pump_loop now c st px = (px', fs)" "cn_wait st = None" "cn_busy st" "\<not> cn_dead st"
  shows "conn_move c Idle (cn_buf st) px px' fs"
proof (cases "parseRequest (cn_buf st)")
  case More
  with assms show ?thesis
    by (intro conn_moveI [where es = "[]" and st' = "st\<lparr>cn_busy := False\<rparr>" and t' = Idle])
      (auto simp: pump_loop_def talk_ok_def)
next
  case (Refused err)
  with assms show ?thesis
    by (intro conn_moveI [where es = "[End]" and st' = "st\<lparr>cn_dead := True, cn_busy := False\<rparr>" and t' = Cut])
      (auto simp: pump_loop_def talk_ok_def)
next
  case (Req req)
  let ?st = "st\<lparr>cn_buf := drop (offset (length (cn_buf st)) (rq_used req)) (cn_buf st)\<rparr>"
  from assms Req have "handle_start now c ?st req px = (px', fs)" by (simp add: pump_loop_def)
  from handle_start_move [OF this _ _ _ Req] assms show ?thesis by simp
qed

lemma conn_move_prefix:
  assumes "conn_move c t' b q px' fs" "px_conns q = px_conns px" "px_connSeq q = px_connSeq px"
    and "spec_run talk_step t es0 = Some t'" "handled es0 = []"
  shows "conn_move c t b px px' (map (Pair c) es0 @ fs)"
proof -
  from assms(1) obtain st' u es where m: "px_conns px' = (px_conns q)(c \<mapsto> st')" "px_connSeq px' = px_connSeq q"
    "fs = map (Pair c) es" "spec_run talk_step t' es = Some u" "talk_ok st' u" "keeps_framing b es (cn_buf st')"
    unfolding conn_move_def by blast
  with assms show ?thesis
    by (intro conn_moveI [where es = "es0 @ es" and st' = st' and t' = u]) (simp_all add: spec_run_append keeps_framing_def)
qed

lemma flush_keeps:
  "flush c st ws = (st', wrote) \<Longrightarrow> cn_buf st' = cn_buf st \<and> cn_wait st' = cn_wait st \<and> cn_busy st' = cn_busy st \<and>
     cn_dead st' = cn_dead st \<and> (\<exists>es. wrote = map (Pair c) es \<and> handled es = [] \<and> (\<forall>t. spec_run talk_step t es = Some t))"
proof -
  assume a: "flush c st ws = (st', wrote)"
  obtain q b where qb: "flush_out ws (cn_out st) = (q, b)" by fastforce
  with a have "st' = st\<lparr>cn_out := q\<rparr>" "wrote = map (Pair c) (if b = [] then [] else [Write b])"
    by (auto simp: flush_def)
  then show ?thesis by (auto intro!: exI [of _ "if b = [] then [] else [Write b]"])
qed

lemma handle_rest_move:
  assumes "handle_rest now c st pd ans ws px = (px', fs)" "cn_wait st = Some pd" "cn_busy st" "\<not> cuts_before (pd_mode pd)"
  shows "conn_move c (Waiting (pd_mode pd)) (cn_buf st) px px' fs"
proof -
  consider (reset) "pd_mode pd = Some ResetAfter" | (dead) "pd_mode pd \<noteq> Some ResetAfter" "cn_dead st"
    | (live) "pd_mode pd \<noteq> Some ResetAfter" "\<not> cn_dead st" by blast
  then show ?thesis
  proof cases
    case reset
    with assms show ?thesis
      by (intro conn_moveI [where es = "[Terminate]" and st' = "st\<lparr>cn_wait := None, cn_dead := True, cn_busy := False\<rparr>" and t' = Cut])
        (auto simp: handle_rest_def Let_def talk_ok_def)
  next
    case dead
    with assms show ?thesis
      by (intro conn_moveI [where es = "[]" and st' = "st\<lparr>cn_wait := None, cn_busy := False\<rparr>" and t' = "Waiting (pd_mode pd)"])
        (auto simp: handle_rest_def Let_def talk_ok_def)
  next
    case live
    obtain status head body where r: "reply ans = (status, head, body)" by (cases "reply ans")
    obtain st2 wrote where fl: "flush c (st\<lparr>cn_wait := None, cn_out := cn_out st @ [head, body]\<rparr>) ws = (st2, wrote)" by fastforce
    define q where "q = upd_row (pd_key pd) (\<lambda>r. r\<lparr>lr_clientStatus := Some status, lr_ms := now - pd_t0 pd\<rparr>)
      (upd_row (pd_key pd) (note_answer ans) px)"
    obtain px2 effs where pl: "pump_loop now c st2 q = (px2, effs)" by fastforce
    note res = assms(1) [unfolded handle_rest_def Let_def]
    have out: "px' = px2" "fs = (c, Queue (head @ body)) # wrote @ effs"
      using res live r fl pl by (simp_all add: q_def)
    from flush_keeps [OF fl] obtain es where k: "cn_buf st2 = cn_buf st" "cn_wait st2 = None" "cn_busy st2" "\<not> cn_dead st2"
      "wrote = map (Pair c) es" "handled es = []" "\<forall>t. spec_run talk_step t es = Some t" using assms(3) live by auto
    from pump_move [OF pl k(2-4)] have "conn_move c Idle (cn_buf st) q px2 effs" by (simp add: k)
    from conn_move_prefix [OF this, of px "Waiting (pd_mode pd)" "Queue (head @ body) # es"] live k out show ?thesis
      by (simp add: q_def)
  qed
qed

subsection \<open>Every step\<close>

definition world_step :: "(nat \<Rightarrow> talk) \<Rightarrow> nat \<times> effect \<Rightarrow> (nat \<Rightarrow> talk) option" where
  "world_step ts f = map_option (\<lambda>t. ts(fst f := t)) (talk_step (ts (fst f)) (snd f))"

definition conn_ok :: "conn option \<Rightarrow> talk \<Rightarrow> bool" where
  "conn_ok x t = (case x of None \<Rightarrow> t = Idle | Some st \<Rightarrow> talk_ok st t)"

definition proxy_rel :: "proxy \<Rightarrow> (nat \<Rightarrow> talk) \<Rightarrow> bool" where
  "proxy_rel px ts = (fresh px \<and> (\<forall>c. conn_ok (px_conns px c) (ts c)))"

lemma world_run_Cons:
  "spec_run world_step ts (f # fs) =
     (case talk_step (ts (fst f)) (snd f) of None \<Rightarrow> None | Some t \<Rightarrow> spec_run world_step (ts(fst f := t)) fs)"
  using world_step_def [of ts f] by (cases "talk_step (ts (fst f)) (snd f)") simp_all

lemma world_run_own:
  "spec_run talk_step (ts c) es = Some t \<Longrightarrow> spec_run world_step ts (map (Pair c) es) = Some (ts(c := t))"
proof (induction es arbitrary: ts)
  case Nil
  then show ?case by auto
next
  case (Cons e es)
  then obtain u where "talk_step (ts c) e = Some u" "spec_run talk_step ((ts(c := u)) c) es = Some t"
    by (auto split: option.splits)
  moreover from this(2) have "spec_run world_step (ts(c := u)) (map (Pair c) es) = Some ((ts(c := u))(c := t))"
    by (rule Cons.IH)
  ultimately show ?case by (simp add: world_run_Cons del: spec_run.simps(2)) (simp add: fun_upd_def)
qed

lemma world_run_proj:
  "spec_run world_step ts fs = Some ts' \<Longrightarrow> spec_run talk_step (ts c) (proj c fs) = Some (ts' c)"
proof (induction fs arbitrary: ts)
  case Nil
  then show ?case by simp
next
  case (Cons f fs)
  then obtain t where "talk_step (ts (fst f)) (snd f) = Some t" "spec_run world_step (ts(fst f := t)) fs = Some ts'"
    by (auto simp: world_run_Cons simp del: spec_run.simps(2) split: option.splits)
  with Cons.IH [OF this(2)] show ?case by (cases "fst f = c") simp_all
qed

text \<open>The bytes an event brings to a connection that still reads.\<close>

definition arrives :: "nat \<Rightarrow> event \<Rightarrow> proxy \<Rightarrow> string" where
  "arrives c ev px =
     (case ev of Data d chunk \<Rightarrow> (case px_conns px c of Some st \<Rightarrow> if d = c \<and> \<not> cn_dead st then chunk else [] | None \<Rightarrow> [])
      | _ \<Rightarrow> [])"

definition step_ok :: "event \<Rightarrow> proxy \<Rightarrow> proxy \<Rightarrow> (nat \<times> effect) list \<Rightarrow> (nat \<Rightarrow> talk) \<Rightarrow> bool" where
  "step_ok ev px px' fs ts =
     ((\<exists>ts'. spec_run world_step ts fs = Some ts' \<and> proxy_rel px' ts') \<and>
      (\<forall>c. keeps_framing (buf_of px c @ arrives c ev px) (proj c fs) (buf_of px' c)))"

lemma step_ok_move:
  assumes "conn_move c (ts c) (buf_of px c @ arrives c ev px) px px' fs" "proxy_rel px ts" "px_conns px c \<noteq> None"
    and "\<And>d. d \<noteq> c \<Longrightarrow> arrives d ev px = []"
  shows "step_ok ev px px' fs ts"
proof -
  from assms(1) obtain st' t' es where m: "px_conns px' = (px_conns px)(c \<mapsto> st')" "px_connSeq px' = px_connSeq px"
    "fs = map (Pair c) es" "spec_run talk_step (ts c) es = Some t'" "talk_ok st' t'"
    "keeps_framing (buf_of px c @ arrives c ev px) es (cn_buf st')" unfolding conn_move_def by blast
  have "\<not> c > px_connSeq px" using assms(2,3) by (auto simp: proxy_rel_def fresh_def)
  with m assms(2) have "spec_run world_step ts fs = Some (ts(c := t'))" "proxy_rel px' (ts(c := t'))"
    by (auto simp: world_run_own proxy_rel_def fresh_def conn_ok_def)
  moreover have "keeps_framing (buf_of px d @ arrives d ev px) (proj d fs) (buf_of px' d)" for d
    using m assms(4) [of d] by (cases "d = c") (auto simp: proj_own buf_of_def)
  ultimately show ?thesis unfolding step_ok_def by blast
qed

lemma step_ok_quiet:
  assumes "proxy_rel px ts" "\<And>c. conn_ok (px_conns px' c) (ts c)" "fresh px'"
    and "\<And>c. buf_of px' c = buf_of px c @ arrives c ev px"
  shows "step_ok ev px px' [] ts"
  using assms by (auto simp: step_ok_def proxy_rel_def)

lemma on_data_ok:
  assumes "proxy_rel px ts" "on_data now c chunk px = (px', fs)"
  shows "step_ok (Data c chunk) px px' fs ts"
proof (cases "px_conns px c")
  case None
  with assms show ?thesis
    by (auto simp: on_data_def proxy_rel_def arrives_def split: option.splits intro!: step_ok_quiet)
next
  case (Some st)
  with assms(1) have ok: "talk_ok st (ts c)" by (auto simp: proxy_rel_def conn_ok_def dest: spec [of _ c])
  have other: "d \<noteq> c \<Longrightarrow> arrives d (Data c chunk) px = []" for d by (simp add: arrives_def split: option.splits)
  consider (dead) "cn_dead st" | (busy) "\<not> cn_dead st" "cn_busy st" | (free) "\<not> cn_dead st" "\<not> cn_busy st" by blast
  then show ?thesis
  proof cases
    case dead
    with assms Some show ?thesis
      by (auto simp: on_data_def proxy_rel_def arrives_def split: option.splits intro!: step_ok_quiet)
  next
    case busy
    with assms(2) Some ok have "conn_move c (ts c) (buf_of px c @ arrives c (Data c chunk) px) px px' fs"
      by (intro conn_moveI [where es = "[]" and st' = "st\<lparr>cn_buf := cn_buf st @ chunk\<rparr>" and t' = "ts c"])
        (auto simp: on_data_def Let_def talk_ok_def buf_of_def arrives_def split: option.splits)
    from step_ok_move [OF this assms(1) _ other] Some show ?thesis by simp
  next
    case free
    let ?st = "st\<lparr>cn_buf := cn_buf st @ chunk, cn_busy := True\<rparr>"
    from free assms(2) Some have p: "pump_loop now c ?st px = (px', fs)" by (simp add: on_data_def Let_def)
    from free ok have "cn_wait st = None" "ts c = Idle" by (auto simp: talk_ok_def split: option.splits)
    with pump_move [OF p] free Some
    have "conn_move c (ts c) (buf_of px c @ arrives c (Data c chunk) px) px px' fs" by (simp add: buf_of_def arrives_def)
    from step_ok_move [OF this assms(1) _ other] Some show ?thesis by simp
  qed
qed

lemma proxy_step_ok:
  assumes "proxy_rel px ts" "proxy_step now ev px = (px', fs)"
  shows "step_ok ev px px' fs ts"
proof -
  have st: "talk_ok st (ts c)" if "px_conns px c = Some st" for c st
    using assms(1) that by (auto simp: proxy_rel_def conn_ok_def dest: spec [of _ c])
  have own: "step_ok ev px px' fs ts"
    if "px_conns px c = Some st" "conn_move c (ts c) (cn_buf st) px px' fs" "\<And>d. arrives d ev px = []" for c st
    using step_ok_move [of c ts px ev px' fs] that assms(1) by (simp add: buf_of_def)
  have quiet: "step_ok ev px px' [] ts" if "px_conns px' = px_conns px" "px_connSeq px' = px_connSeq px" "\<And>d. arrives d ev px = []"
    using that assms(1) by (intro step_ok_quiet) (auto simp: proxy_rel_def fresh_def buf_of_def)
  show ?thesis
  proof (cases ev)
    case Open
    have "ts (Suc (px_connSeq px)) = Idle"
      using assms(1) by (auto simp: proxy_rel_def fresh_def conn_ok_def dest: spec [of _ "Suc (px_connSeq px)"])
    with Open assms show ?thesis
      by (auto simp: proxy_rel_def fresh_def conn_ok_def talk_ok_def buf_of_def arrives_def intro!: step_ok_quiet)
  next
    case (Data c chunk)
    with assms show ?thesis by (auto intro: on_data_ok)
  next
    case (Answer c ans ws)
    show ?thesis
    proof (cases "\<exists>s pd. px_conns px c = Some s \<and> cn_wait s = Some pd")
      case True
      then obtain s pd where s: "px_conns px c = Some s" "cn_wait s = Some pd" by blast
      with st [OF s(1)] have w: "cn_busy s" "ts c = Waiting (pd_mode pd)" "\<not> cuts_before (pd_mode pd)" by (auto simp: talk_ok_def)
      from assms(2) Answer s have "handle_rest now c s pd ans ws px = (px', fs)" by simp
      from own [OF s(1)] handle_rest_move [OF this s(2) w(1,3)] w Answer show ?thesis by (simp add: arrives_def)
    next
      case False
      with assms(2) Answer have "px' = px" "fs = []" by (auto split: option.splits)
      with quiet Answer show ?thesis by (simp add: arrives_def)
    qed
  next
    case (Drain c ws)
    show ?thesis
    proof (cases "px_conns px c")
      case None
      with assms(2) Drain quiet show ?thesis by (simp add: arrives_def)
    next
      case (Some s)
      obtain s' wrote where f: "flush c s ws = (s', wrote)" by fastforce
      from flush_keeps [OF f] obtain es where k: "cn_buf s' = cn_buf s" "cn_wait s' = cn_wait s" "cn_busy s' = cn_busy s"
        "cn_dead s' = cn_dead s" "wrote = map (Pair c) es" "handled es = []" "spec_run talk_step (ts c) es = Some (ts c)" by blast
      from assms(2) Drain Some f k st [OF Some] have "conn_move c (ts c) (cn_buf s) px px' fs"
        by (intro conn_moveI [where es = es and st' = s' and t' = "ts c"]) (auto simp: talk_ok_def split: option.splits)
      with own [OF Some] Drain show ?thesis by (simp add: arrives_def)
    qed
  next
    case (Close c)
    show ?thesis
    proof (cases "px_conns px c")
      case None
      with assms(2) Close quiet show ?thesis by (simp add: arrives_def)
    next
      case (Some s)
      from assms(2) Close Some st [OF Some] have "conn_move c (ts c) (cn_buf s) px px' fs"
        by (intro conn_moveI [where es = "[]" and st' = "s\<lparr>cn_dead := True\<rparr>" and t' = "ts c"])
          (auto simp: talk_ok_def split: option.splits)
      with own [OF Some] Close show ?thesis by (simp add: arrives_def)
    qed
  next
    case (SetRules rs)
    with assms(2) quiet show ?thesis by (auto simp: arrives_def)
  next
    case Reset
    with assms(2) quiet show ?thesis by (auto simp: arrives_def)
  qed
qed

interpretation talks: simulation "\<lambda>e. proxy_step (fst e) (snd e)" world_step proxy_rel
  using proxy_step_ok by unfold_locales (auto simp: step_ok_def)

lemma proxy_rel_start: "proxy_rel startConnProxy (\<lambda>_. Idle)"
  by (simp add: proxy_rel_def fresh_def conn_ok_def startConnProxy_def)

lemma proxy_run_eq: "proxy_run = run_steps (\<lambda>e. proxy_step (fst e) (snd e))"
  by (simp add: proxy_run_def case_prod_unfold)

text \<open>The bytes a connection reads in a run.\<close>

fun received :: "nat \<Rightarrow> (int \<times> event) list \<Rightarrow> proxy \<Rightarrow> string" where
  "received c [] px = []"
| "received c ((now, ev) # es) px = arrives c ev px @ received c es (fst (proxy_step now ev px))"

lemma run_framing:
  assumes "proxy_rel px ts" "proxy_run es px = (px', fs)" "list_all well_framed (handled (proj c fs))"
  shows "frames (buf_of px c @ received c es px @ x) = handled (proj c fs) @ frames (buf_of px' c @ x)"
  using assms
proof (induction es arbitrary: px ts fs)
  case Nil
  then show ?case by (simp add: proxy_run_def)
next
  case (Cons e es)
  obtain now ev where e: "e = (now, ev)" by (cases e)
  obtain q gs where q: "proxy_step now ev px = (q, gs)" by fastforce
  obtain hs where r: "proxy_run es q = (px', hs)" "fs = gs @ hs"
    using Cons.prems(2) q by (auto simp: proxy_run_def e split: prod.splits)
  from proxy_step_ok [OF Cons.prems(1) q] obtain ts' where ts': "proxy_rel q ts'"
    and k: "keeps_framing (buf_of px c @ arrives c ev px) (proj c gs) (buf_of q c)" unfolding step_ok_def by blast
  from k Cons.prems(3) r(2) have "frames (buf_of px c @ arrives c ev px @ received c es q @ x) =
      handled (proj c gs) @ frames (buf_of q c @ received c es q @ x)" by (simp add: keeps_framing_def)
  also have "frames (buf_of q c @ received c es q @ x) = handled (proj c hs) @ frames (buf_of px' c @ x)"
    using Cons.IH [OF ts' r(1)] Cons.prems(3) r(2) by simp
  finally show ?case using q r(2) by (simp add: e)
qed


text \<open>C16. How TCP cuts a stream into portions does not matter: on every connection, as long as no handled
  request declared a negative length, the requests handled and those still in the buffer are together
  exactly the requests in the bytes the connection read, in order.\<close>

theorem proxy_framing:
  assumes "proxy_run es startConnProxy = (px, fs)" "list_all well_framed (handled (proj c fs))"
  shows "frames (received c es startConnProxy) = handled (proj c fs) @ frames (buf_of px c)"
  using run_framing [OF proxy_rel_start assms, of "[]"] by (simp add: buf_of_def startConnProxy_def)

definition demo_run :: "(int \<times> event) list" where
  "demo_run = [(0, Open), (1, Data 1 (''G /'' @ crlf @ crlf @ ''P''))]"

lemma demo_handled: "list_all well_framed (handled (proj 1 (snd (proxy_run demo_run startConnProxy)))) \<and>
    length (handled (proj 1 (snd (proxy_run demo_run startConnProxy)))) = 1"
  by code_simp

theorem proxy_framing_witness:
  "length (handled (proj 1 (snd (proxy_run demo_run startConnProxy)))) = 1 \<and>
   frames (received 1 demo_run startConnProxy) =
     handled (proj 1 (snd (proxy_run demo_run startConnProxy))) @ frames (buf_of (fst (proxy_run demo_run startConnProxy)) 1)"
  using demo_handled proxy_framing [of demo_run "fst (proxy_run demo_run startConnProxy)" "snd (proxy_run demo_run startConnProxy)" 1]
  by simp

text \<open>A negative length can leave the request in the buffer: the next round handles it again.\<close>

lemma negative_length_repeats:
  "case parseRequest (''G /'' @ crlf @ ''Content-Length:-27'' @ crlf @ crlf) of
     Req r \<Rightarrow> offset 27 (rq_used r) = 0 | _ \<Rightarrow> False"
  by code_simp

end
