(* ===== verification/Json_Text.thy ===== *)
theory Json_Text
  imports Json Js_Number
begin

text \<open>
  How JavaScript turns JSON values into text and numbers: \<open>String(v)\<close>, \<open>Number(v)\<close>,
  \<open>JSON.stringify(v)\<close> and the \<open>??\<close> operator. Objects are plain: none carries a member that
  overrides \<open>toString\<close> or \<open>valueOf\<close>.
\<close>

text \<open>\<open>v ?? d\<close>: \<open>null\<close> and \<open>undefined\<close> give way.\<close>

definition nn :: "json option \<Rightarrow> json option" where
  "nn v = (case v of Some JNull \<Rightarrow> None | _ \<Rightarrow> v)"

definition coalesce :: "json option \<Rightarrow> json option \<Rightarrow> json option" where
  "coalesce a b = (case nn a of None \<Rightarrow> b | Some v \<Rightarrow> Some v)"

text \<open>\<open>String(v)\<close>; inside an array \<open>null\<close> prints as nothing.\<close>

fun js_string :: "json \<Rightarrow> string" where
  "js_string JNull = ''null''"
| "js_string (JBool b) = (if b then ''true'' else ''false'')"
| "js_string (JNum i) = show_int i"
| "js_string (JStr s) = s"
| "js_string (JArr xs) = join '','' (map (\<lambda>x. if x = JNull then [] else js_string x) xs)"
| "js_string (JObj m) = ''[object Object]''"

definition js_string_opt :: "json option \<Rightarrow> string" where
  "js_string_opt v = (case v of None \<Rightarrow> ''undefined'' | Some j \<Rightarrow> js_string j)"

fun js_number :: "json \<Rightarrow> jsnum" where
  "js_number JNull = Fin 0"
| "js_number (JBool b) = Fin (if b then 1 else 0)"
| "js_number (JNum i) = Fin (of_int i)"
| "js_number (JStr s) = to_number s"
| "js_number (JArr xs) = to_number (js_string (JArr xs))"
| "js_number (JObj m) = NaN"

definition num_pos :: "jsnum \<Rightarrow> bool" where
  "num_pos x = (case x of Fin r \<Rightarrow> r > 0 | PosInf \<Rightarrow> True | _ \<Rightarrow> False)"

text \<open>\<open>JSON.stringify\<close>\<close>

definition hex_low :: "nat \<Rightarrow> char" where
  "hex_low n = ''0123456789abcdef'' ! n"

definition escape_char :: "char \<Rightarrow> string" where
  "escape_char c =
     (let n = (of_char c :: nat); b = CHR 0x5C
      in if n = 34 \<or> n = 92 then [b, c]
         else if n = 8 then [b, CHR ''b''] else if n = 9 then [b, CHR ''t''] else if n = 10 then [b, CHR ''n'']
         else if n = 12 then [b, CHR ''f''] else if n = 13 then [b, CHR ''r'']
         else if n < 32 then b # ''u00'' @ [hex_low (n div 16), hex_low (n mod 16)]
         else [c])"

definition quoted :: "string \<Rightarrow> string" where
  "quoted s = [CHR 0x22] @ concat (map escape_char s) @ [CHR 0x22]"

fun json_stringify :: "json \<Rightarrow> string" where
  "json_stringify JNull = ''null''"
| "json_stringify (JBool b) = (if b then ''true'' else ''false'')"
| "json_stringify (JNum i) = show_int i"
| "json_stringify (JStr s) = quoted s"
| "json_stringify (JArr xs) = ''['' @ join '','' (map json_stringify xs) @ '']''"
| "json_stringify (JObj m) = ''{'' @ join '','' (map (\<lambda>(k, v). quoted k @ '':'' @ json_stringify v) m) @ ''}''"

end
