(* ===== verification/Mgmt.thy ===== *)
theory Mgmt
  imports Ctx Json_Text Iso_Date
begin

text \<open>
  \<open>harness/src/mgmt.ts\<close>, \<open>platform.ts\<close> and \<open>graphql.ts\<close>: the Management API client and the helpers
  on top of it. A call is the request it sends and the reading of the answer it gets: the answer
  (status, content type, body, or the error the fetch raised) and \<open>JSON.parse\<close> are arguments.
\<close>

subsection \<open>mgmt.ts\<close>

definition MGMT_BASE :: string where
  "MGMT_BASE = ''https://api.supabase.com/v1''"

definition mgmtBase :: "string option \<Rightarrow> ctx option \<Rightarrow> string" where
  "mgmtBase env c =
     (case Option.bind c cx_mgmtBase of Some b \<Rightarrow> b | None \<Rightarrow> (case env of Some b \<Rightarrow> b | None \<Rightarrow> MGMT_BASE))"

record mgmt_response =
  mr_status :: int
  mr_text :: string
  mr_json :: "json option"
  mr_throttled :: bool

definition html_re :: re where
  "html_re = Seqs [Bol, Star (Cls is_ws), Lit ''<'', Alt (LitI ''!doctype'') (LitI ''html'')]"

definition classifyBody :: "(string \<Rightarrow> json option) \<Rightarrow> string option \<Rightarrow> string \<Rightarrow> json option \<times> bool" where
  "classifyBody parse contentType txt =
     (let ct = to_lower (case contentType of None \<Rightarrow> [] | Some c \<Rightarrow> c)
      in if str_includes ct ''text/html'' \<or> re_test html_re txt then (None, True) else (parse txt, False))"

record http_request =
  hr_url :: string
  hr_method :: string
  hr_headers :: "string obj"
  hr_body :: "string option"
  hr_timeoutMs :: int

type_synonym http_answer = "string + int \<times> string option \<times> string"

definition bearer :: "ctx \<Rightarrow> string" where
  "bearer c = ''Bearer '' @ (case cx_pat c of None \<Rightarrow> ''undefined'' | Some p \<Rightarrow> p)"

definition mgmt_request :: "string option \<Rightarrow> ctx \<Rightarrow> string \<Rightarrow> string \<Rightarrow> json option \<Rightarrow> int \<Rightarrow> http_request" where
  "mgmt_request env c method path body timeoutMs =
     (let has = (case body of None \<Rightarrow> False | Some b \<Rightarrow> jtruthy b)
      in \<lparr>hr_url = mgmtBase env (Some c) @ path, hr_method = method,
          hr_headers = (''Authorization'', bearer c) # (if has then [(''Content-Type'', ''application/json'')] else []),
          hr_body = (if has then Some (json_stringify (the body)) else None), hr_timeoutMs = timeoutMs\<rparr>)"

definition mgmt :: "(string \<Rightarrow> json option) \<Rightarrow> http_answer \<Rightarrow> string + mgmt_response" where
  "mgmt parse ans =
     (case ans of
        Inl e \<Rightarrow> Inl e
      | Inr (status, ctype, txt) \<Rightarrow>
          (let (j, throttled) = classifyBody parse ctype txt
           in Inr \<lparr>mr_status = status, mr_text = txt, mr_json = j, mr_throttled = throttled\<rparr>))"

subsection \<open>platform.ts\<close>

record sql_result =
  sq_status :: int
  sq_rows :: "json list"
  sq_error :: string

definition rows_of :: "json option \<Rightarrow> json list" where
  "rows_of j = (case j of Some (JArr xs) \<Rightarrow> xs | _ \<Rightarrow> [])"

definition sql_request :: "string option \<Rightarrow> ctx \<Rightarrow> string \<Rightarrow> int \<Rightarrow> http_request" where
  "sql_request env c query timeoutMs =
     mgmt_request env c ''POST'' (''/projects/'' @ cx_ref c @ ''/database/query'') (Some (JObj [(''query'', JStr query)])) timeoutMs"

definition sql :: "(string \<Rightarrow> json option) \<Rightarrow> http_answer \<Rightarrow> string + sql_result" where
  "sql parse ans =
     (case mgmt parse ans of
        Inl e \<Rightarrow> Inl e
      | Inr r \<Rightarrow>
          Inr \<lparr>sq_status = mr_status r, sq_rows = rows_of (mr_json r),
               sq_error = (if mr_status r \<ge> 300
                  then take 300 (js_string_opt (coalesce (Option.bind (mr_json r) (jget ''message'')) (Some (JStr (mr_text r))))) else [])\<rparr>)"

text \<open>\<open>rows.find((k) => k[f] === v)\<close>: reading a field of \<open>null\<close> throws.\<close>

fun find_by :: "string \<Rightarrow> string \<Rightarrow> json list \<Rightarrow> string + json option" where
  "find_by f v [] = Inr None"
| "find_by f v (k # ks) =
     (if k = JNull then Inl ''TypeError'' else if jget f k = Some (JStr v) then Inr (Some k) else find_by f v ks)"

record project_keys =
  pk_anon :: json
  pk_service :: json
  pk_publishable :: "json option"
  pk_secret :: "json option"

definition api_key :: "string \<Rightarrow> string \<Rightarrow> json list \<Rightarrow> string + json option" where
  "api_key f v rows = map_sum (\<lambda>e. e) (\<lambda>k. Option.bind k (jget ''api_key'')) (find_by f v rows)"

definition fetchKeys_request :: "string option \<Rightarrow> ctx \<Rightarrow> http_request" where
  "fetchKeys_request env c = mgmt_request env c ''GET'' (''/projects/'' @ cx_ref c @ ''/api-keys?reveal=true'') None 30000"

definition fetchKeys :: "(string \<Rightarrow> json option) \<Rightarrow> http_answer \<Rightarrow> string + project_keys" where
  "fetchKeys parse ans =
     (case mgmt parse ans of
        Inl e \<Rightarrow> Inl e
      | Inr r \<Rightarrow>
          (let rows = rows_of (mr_json r); empty = Some (JStr [])
           in case (api_key ''name'' ''anon'' rows, api_key ''name'' ''service_role'' rows) of
                (Inr a, Inr s) \<Rightarrow>
                  (let anon = the (coalesce a empty); service = the (coalesce s empty)
                   in if \<not> jtruthy anon \<or> \<not> jtruthy service
                      then Inl (''legacy anon/service_role keys absent (api-keys HTTP '' @ show_int (mr_status r) @ '')'')
                      else case (api_key ''type'' ''publishable'' rows, api_key ''type'' ''secret'' rows) of
                          (Inr p, Inr q) \<Rightarrow> Inr \<lparr>pk_anon = anon, pk_service = service, pk_publishable = p, pk_secret = q\<rparr>
                        | _ \<Rightarrow> Inl ''TypeError'')
              | _ \<Rightarrow> Inl ''TypeError''))"

record logs_result =
  lq_status :: int
  lq_rows :: "json list"
  lq_error :: string

definition logs_qs :: "int \<Rightarrow> int \<Rightarrow> string \<Rightarrow> string" where
  "logs_qs now windowHours sqlText =
     ''sql='' @ encodeURIComponent sqlText @
     ''&iso_timestamp_start='' @ encodeURIComponent (toISOString (now - windowHours * 3600000)) @
     ''&iso_timestamp_end='' @ encodeURIComponent (toISOString now)"

definition logsQuery_request :: "string option \<Rightarrow> ctx \<Rightarrow> int \<Rightarrow> string \<Rightarrow> int \<Rightarrow> http_request" where
  "logsQuery_request env c now sqlText windowHours =
     mgmt_request env c ''GET''
       (''/projects/'' @ cx_ref c @ ''/analytics/endpoints/logs?'' @ logs_qs now windowHours sqlText) None 60000"

definition logsQuery :: "(string \<Rightarrow> json option) \<Rightarrow> http_answer \<Rightarrow> string + logs_result" where
  "logsQuery parse ans =
     (case mgmt parse ans of
        Inl e \<Rightarrow> Inl e
      | Inr r \<Rightarrow>
          (let j = the (coalesce (mr_json r) (Some (JObj []))); err = jget ''error'' j
           in Inr \<lparr>lq_status = mr_status r, lq_rows = rows_of (jget ''result'' j),
                  lq_error = (case err of
                      Some v \<Rightarrow> if jtruthy v then take 200 (json_stringify v) else if mr_status r \<ge> 300 then take 200 (mr_text r) else []
                    | None \<Rightarrow> if mr_status r \<ge> 300 then take 200 (mr_text r) else [])\<rparr>))"

record function_presence =
  fp_status :: int
  fp_present :: bool
  fp_version :: "int option"
  fp_fnStatus :: "string option"

definition functionPresent_request :: "string option \<Rightarrow> ctx \<Rightarrow> string \<Rightarrow> http_request" where
  "functionPresent_request env c slug =
     mgmt_request env c ''GET'' (''/projects/'' @ cx_ref c @ ''/functions/'' @ slug) None 30000"

text \<open>The calls: \<open>answers k\<close> is what call \<open>k\<close> gets; at most \<open>n\<close> more after a 429.\<close>

fun retry_429 :: "nat \<Rightarrow> (nat \<Rightarrow> string + mgmt_response) \<Rightarrow> nat \<Rightarrow> string + mgmt_response" where
  "retry_429 0 answers k = answers k"
| "retry_429 (Suc n) answers k =
     (case answers k of Inl e \<Rightarrow> Inl e | Inr r \<Rightarrow> if mr_status r = 429 then retry_429 n answers (Suc k) else Inr r)"

definition presence_of :: "mgmt_response \<Rightarrow> function_presence" where
  "presence_of r =
     (let j = the (coalesce (mr_json r) (Some (JObj [])))
      in \<lparr>fp_status = mr_status r, fp_present = (mr_status r = 200),
          fp_version = (case jget ''version'' j of Some (JNum n) \<Rightarrow> Some n | _ \<Rightarrow> None),
          fp_fnStatus = (case jget ''status'' j of Some (JStr s) \<Rightarrow> Some s | _ \<Rightarrow> None)\<rparr>)"

definition functionPresent :: "(string \<Rightarrow> json option) \<Rightarrow> (nat \<Rightarrow> http_answer) \<Rightarrow> nat \<Rightarrow> string + function_presence" where
  "functionPresent parse answers retries =
     map_sum (\<lambda>e. e) presence_of (retry_429 retries (\<lambda>k. mgmt parse (answers k)) 0)"

subsection \<open>graphql.ts\<close>

definition GRAPHQL_TYPENAME_QUERY :: string where
  "GRAPHQL_TYPENAME_QUERY = ''{ __typename }''"

definition graphql_said :: "json \<Rightarrow> string" where
  "graphql_said j =
     (if \<not> jtruthy j then []
      else case Option.bind (jget ''data'' j) (jget ''__typename'') of
          Some (JStr t) \<Rightarrow> ''ok:'' @ t
        | _ \<Rightarrow>
            (case jget ''errors'' j of
               Some (JArr (e # _)) \<Rightarrow> js_string_opt (coalesce (jget ''message'' e) (Some (JStr ''error'')))
             | _ \<Rightarrow>
                 (case nn (jget ''code'' j) of
                    Some c \<Rightarrow> js_string c
                  | None \<Rightarrow> (case nn (jget ''message'' j) of Some msg \<Rightarrow> js_string msg | None \<Rightarrow> []))))"

definition graphqlState :: "(string \<Rightarrow> json option) \<Rightarrow> int \<Rightarrow> string \<Rightarrow> string" where
  "graphqlState parse status body =
     (let said = (case parse body of None \<Rightarrow> take 60 (trim body) | Some j \<Rightarrow> graphql_said j)
      in if said \<noteq> [] then show_int status @ '' '' @ take 80 said else show_int status)"

definition PG_GRAPHQL_SQL :: string where
  "PG_GRAPHQL_SQL = ''select count(*)::int as n from pg_extension where extname = '' @ [CHR 0x27] @ ''pg_graphql'' @ [CHR 0x27]"

definition pgGraphqlInstalled :: "(string \<Rightarrow> json option) \<Rightarrow> http_answer \<Rightarrow> string + bool option" where
  "pgGraphqlInstalled parse ans =
     (case sql parse ans of
        Inl e \<Rightarrow> Inl e
      | Inr r \<Rightarrow>
          Inr (case sq_rows r of
                 [] \<Rightarrow> None
               | row # _ \<Rightarrow>
                   if sq_status r \<noteq> 201 \<or> \<not> jtruthy row then None
                   else Some (num_pos (js_number (the (coalesce (jget ''n'' row) (Some (JNum 0))))))))"

subsection \<open>Throttling\<close>

text \<open>A body that looks like a page is never read as data.\<close>

lemma throttled_no_json: "mgmt parse ans = Inr r \<Longrightarrow> mr_throttled r \<Longrightarrow> mr_json r = None"
  by (auto simp: mgmt_def classifyBody_def Let_def split: sum.splits prod.splits if_splits)

text \<open>Retrying stops at the first answer that is not a 429 and gives up after the allowed number of them.\<close>

lemma retry_429_exact:
  "(\<exists>i \<le> n. retry_429 n answers k = answers (k + i) \<and> (\<forall>j < i. \<exists>r. answers (k + j) = Inr r \<and> mr_status r = 429) \<and>
     (i = n \<or> (\<forall>r. answers (k + i) = Inr r \<longrightarrow> mr_status r \<noteq> 429)))"
proof (induction n arbitrary: k)
  case 0
  then show ?case by auto
next
  case (Suc n)
  show ?case
  proof (cases "\<exists>r. answers k = Inr r \<and> mr_status r = 429")
    case True
    then obtain r where r: "answers k = Inr r" "mr_status r = 429" by blast
    from Suc.IH [of "Suc k"] obtain i where i: "i \<le> n" "retry_429 n answers (Suc k) = answers (Suc k + i)"
      "\<forall>j < i. \<exists>r. answers (Suc k + j) = Inr r \<and> mr_status r = 429"
      "i = n \<or> (\<forall>r. answers (Suc k + i) = Inr r \<longrightarrow> mr_status r \<noteq> 429)" by blast
    have "\<exists>r. answers (k + j) = Inr r \<and> mr_status r = 429" if "j < Suc i" for j
      using that r i(3) by (cases j) auto
    with r i show ?thesis by (intro exI [of _ "Suc i"]) simp
  next
    case False
    then show ?thesis by (intro exI [of _ 0]) (auto split: sum.splits)
  qed
qed

end
