(* ===== verification/Probes.thy ===== *)
theory Probes
  imports Mgmt Sampler
begin

text \<open>
  \<open>harness/src/real-probes.ts\<close>: the two probes that count a data path as up only when data arrives,
  and the seeding loop that waits for both. A web socket is the sequence of its events; what the
  probe sends is part of the state. A frame is the JSON value parsed from it.
\<close>

definition PROBE_TABLE :: string where
  "PROBE_TABLE = ''pvlab_probe''"

definition REST_TIMEOUT_MS :: int where
  "REST_TIMEOUT_MS = 5000"

definition REALTIME_TIMEOUT_MS :: int where
  "REALTIME_TIMEOUT_MS = 10000"

definition up_outcome :: probe_outcome where
  "up_outcome = \<lparr>oc_ok = True, oc_error = None\<rparr>"

definition down_outcome :: "string \<Rightarrow> probe_outcome" where
  "down_outcome e = \<lparr>oc_ok = False, oc_error = Some e\<rparr>"

subsection \<open>rest_read\<close>

definition spaces_run_re :: re where
  "spaces_run_re = Plus (Cls is_ws)"

definition one_row :: "json \<Rightarrow> bool" where
  "one_row j = (case j of JArr [x] \<Rightarrow> jget ''id'' x = Some (JNum 1) | _ \<Rightarrow> False)"

definition classifyRestRead :: "(string \<Rightarrow> json option) \<Rightarrow> int \<Rightarrow> string \<Rightarrow> probe_outcome" where
  "classifyRestRead parse status body =
     (case parse body of
        None \<Rightarrow> down_outcome (if status = 200 then ''HTTP 200 non-json'' else ''HTTP '' @ show_int status)
      | Some parsed \<Rightarrow>
          if status = 200 then (if one_row parsed then up_outcome else down_outcome ''HTTP 200 row-missing'')
          else (let code = take 60 (replace_all spaces_run_re (\<lambda>_. '' '')
                      (js_string_opt (coalesce (jget ''code'' parsed)
                         (coalesce (jget ''message'' parsed) (coalesce (jget ''error'' parsed) (Some (JStr [])))))))
                in down_outcome (if code \<noteq> [] then ''HTTP '' @ show_int status @ '' '' @ code else ''HTTP '' @ show_int status)))"

definition restReadProbe_url :: "string \<Rightarrow> string" where
  "restReadProbe_url apiHost = ''https://'' @ apiHost @ ''/rest/v1/'' @ PROBE_TABLE @ ''?id=eq.1&select=id''"

text \<open>The probe on what its fetch gave: an error (its name and message) or an answer.\<close>

definition restReadProbe :: "(string \<Rightarrow> json option) \<Rightarrow> string \<times> string + int \<times> string \<Rightarrow> probe_outcome" where
  "restReadProbe parse res =
     (case res of
        Inr (status, body) \<Rightarrow> classifyRestRead parse status body
      | Inl (name, msg) \<Rightarrow> down_outcome (if name = ''TimeoutError'' then ''timeout'' else take 80 msg))"

subsection \<open>realtime_join\<close>

datatype rt_step = Joined | Subscribed | Delivered | RtFail string | Ignore

definition or_object :: "json option \<Rightarrow> json" where
  "or_object v = (case nn v of None \<Rightarrow> JObj [] | Some j \<Rightarrow> j)"

definition classifyRealtimeFrame :: "json \<Rightarrow> string \<Rightarrow> string \<Rightarrow> rt_step" where
  "classifyRealtimeFrame f topic nonce =
     (let ev = jget ''event'' f; p = or_object (jget ''payload'' f)
      in if jget ''topic'' f \<noteq> Some (JStr topic) then Ignore
         else if ev = Some (JStr ''phx_reply'')
         then (if jget ''ref'' f \<noteq> Some (JStr ''1'') then Ignore
               else if jget ''status'' p = Some (JStr ''ok'') then Joined
               else RtFail (''join: '' @ take 80 (js_string_opt
                      (coalesce (Option.bind (jget ''response'' p) (jget ''reason'')) (coalesce (jget ''status'' p) (Some (JStr ''error'')))))))
         else if ev = Some (JStr ''system'')
         then (if jget ''extension'' p \<noteq> Some (JStr ''postgres_changes'') then Ignore
               else if jget ''status'' p = Some (JStr ''ok'') then Subscribed
               else RtFail (''pg_changes: '' @ take 80 (js_string_opt (coalesce (jget ''message'' p) (jget ''status'' p)))))
         else if ev = Some (JStr ''broadcast'')
         then (if jget ''nonce'' (or_object (jget ''payload'' p)) = Some (JStr nonce) then Delivered else Ignore)
         else if ev = Some (JStr ''phx_error'') then RtFail ''channel: phx_error''
         else if ev = Some (JStr ''phx_close'') then RtFail ''channel: phx_close''
         else Ignore)"

text \<open>What the probe sends: the join with its subscription, later its own broadcast.\<close>

definition rt_topic :: string where
  "rt_topic = ''realtime:pvlab-probe''"

definition join_frame :: "string \<Rightarrow> json" where
  "join_frame anonKey =
     JObj [(''topic'', JStr rt_topic), (''event'', JStr ''phx_join''), (''ref'', JStr ''1''), (''join_ref'', JStr ''1''),
       (''payload'', JObj [
          (''config'', JObj [
             (''broadcast'', JObj [(''self'', JBool True), (''ack'', JBool False)]),
             (''presence'', JObj [(''key'', JStr [])]),
             (''postgres_changes'', JArr [JObj [(''event'', JStr ''*''), (''schema'', JStr ''public''), (''table'', JStr PROBE_TABLE)]]),
             (''private'', JBool False)]),
          (''access_token'', JStr anonKey)])]"

definition broadcast_frame :: "string \<Rightarrow> json" where
  "broadcast_frame nonce =
     JObj [(''topic'', JStr rt_topic), (''event'', JStr ''broadcast''), (''ref'', JStr ''2''), (''join_ref'', JStr ''1''),
       (''payload'', JObj [(''type'', JStr ''broadcast''), (''event'', JStr ''ping''), (''payload'', JObj [(''nonce'', JStr nonce)])])]"

record rt_state =
  rt_joined :: bool
  rt_subscribed :: bool
  rt_sent :: bool
  rt_stage :: string
  rt_result :: "probe_outcome option"
  rt_out :: "json list"

text \<open>The socket opens, a message arrives (\<open>None\<close>: not JSON), the timer fires, the socket fails or closes.\<close>

datatype rt_event = WsOpen | WsMessage "json option" | Timeout | WsError | WsClose int

definition rt_start :: rt_state where
  "rt_start = \<lparr>rt_joined = False, rt_subscribed = False, rt_sent = False, rt_stage = ''handshake'', rt_result = None, rt_out = []\<rparr>"

text \<open>\<open>done\<close>: the first outcome counts.\<close>

definition rt_done :: "probe_outcome \<Rightarrow> rt_state \<Rightarrow> rt_state" where
  "rt_done r st = (if rt_result st = None then st\<lparr>rt_result := Some r\<rparr> else st)"

definition rt_advance :: "string \<Rightarrow> rt_state \<Rightarrow> rt_state" where
  "rt_advance nonce st =
     (let st1 = (if rt_joined st then st\<lparr>rt_stage := if rt_subscribed st then ''broadcast'' else ''pg_changes''\<rparr> else st)
      in if rt_joined st1 \<and> rt_subscribed st1 \<and> \<not> rt_sent st1
         then st1\<lparr>rt_sent := True, rt_out := rt_out st1 @ [broadcast_frame nonce]\<rparr> else st1)"

definition rt_message :: "string \<Rightarrow> json \<Rightarrow> rt_state \<Rightarrow> rt_state" where
  "rt_message nonce f st =
     (if f = JNull then st
      else case classifyRealtimeFrame f rt_topic nonce of
          RtFail e \<Rightarrow> rt_done (down_outcome e) st
        | Delivered \<Rightarrow> rt_done up_outcome st
        | Joined \<Rightarrow> rt_advance nonce (st\<lparr>rt_joined := True\<rparr>)
        | Subscribed \<Rightarrow> rt_advance nonce (st\<lparr>rt_subscribed := True\<rparr>)
        | Ignore \<Rightarrow> rt_advance nonce st)"

fun rt_event_step :: "string \<Rightarrow> string \<Rightarrow> rt_state \<Rightarrow> rt_event \<Rightarrow> rt_state" where
  "rt_event_step anonKey nonce st WsOpen = st\<lparr>rt_stage := ''join'', rt_out := rt_out st @ [join_frame anonKey]\<rparr>"
| "rt_event_step anonKey nonce st (WsMessage f) = (case f of None \<Rightarrow> st | Some j \<Rightarrow> rt_message nonce j st)"
| "rt_event_step anonKey nonce st Timeout = rt_done (down_outcome (''timeout at '' @ rt_stage st)) st"
| "rt_event_step anonKey nonce st WsError = rt_done (down_outcome (''ws error at '' @ rt_stage st)) st"
| "rt_event_step anonKey nonce st (WsClose code) = rt_done (down_outcome (''closed '' @ show_int code @ '' at '' @ rt_stage st)) st"

definition realtimeJoinProbe :: "string \<Rightarrow> string \<Rightarrow> rt_event list \<Rightarrow> rt_state" where
  "realtimeJoinProbe anonKey nonce es = foldl (rt_event_step anonKey nonce) rt_start es"

definition realtime_url :: "string \<Rightarrow> string \<Rightarrow> string" where
  "realtime_url apiHost anonKey = ''wss://'' @ apiHost @ ''/realtime/v1/websocket?apikey='' @ anonKey @ ''&vsn=1.0.0''"

subsection \<open>seedProbeTable\<close>

text \<open>One round of the loop: the clock before it, the two outcomes, the clock after it.\<close>

record seed_round =
  sr_before :: int
  sr_outs :: "(string \<times> probe_outcome) list"
  sr_after :: int

definition show_outcome :: "string \<times> probe_outcome \<Rightarrow> string" where
  "show_outcome no =
     fst no @ ''='' @ (if oc_ok (snd no) then ''ok'' else case oc_error (snd no) of None \<Rightarrow> ''undefined'' | Some e \<Rightarrow> e)"

text \<open>\<open>None\<close>: the rounds given end while the loop still runs; \<open>maxMs\<close> is whole seconds.\<close>

fun seed_loop :: "int \<Rightarrow> int \<Rightarrow> int \<Rightarrow> int \<Rightarrow> string list \<Rightarrow> seed_round list \<Rightarrow> (string + int) option" where
  "seed_loop t0 need maxMs streak seen [] = None"
| "seed_loop t0 need maxMs streak seen (r # rs) =
     (if \<not> sr_before r - t0 < maxMs
      then Some (Inl (''probe table never served on both paths within '' @ show_int (maxMs div 1000) @ ''s: '' @ join '', '' seen))
      else let seen' = map show_outcome (sr_outs r);
               streak' = (if list_all (\<lambda>no. oc_ok (snd no)) (sr_outs r) then streak + 1 else 0)
           in if streak' \<ge> need then Some (Inr (js_round (of_int (sr_after r - t0) / 1000)))
              else seed_loop t0 need maxMs streak' seen' rs)"

definition seedProbeTable :: "(string \<Rightarrow> json option) \<Rightarrow> http_answer \<Rightarrow> int \<Rightarrow> int option \<Rightarrow> int option \<Rightarrow> seed_round list \<Rightarrow> (string + int) option" where
  "seedProbeTable parse ans t0 need maxMs rounds =
     (case sql parse ans of
        Inl e \<Rightarrow> Some (Inl e)
      | Inr r \<Rightarrow>
          if sq_status r \<ge> 300 then Some (Inl (''seed '' @ PROBE_TABLE @ '': HTTP '' @ show_int (sq_status r) @ '' '' @ sq_error r))
          else seed_loop t0 (case need of None \<Rightarrow> 3 | Some n \<Rightarrow> n) (case maxMs of None \<Rightarrow> 180000 | Some n \<Rightarrow> n) 0 [] rounds)"

subsection \<open>What an up means\<close>

definition says :: "string \<Rightarrow> rt_step \<Rightarrow> rt_event \<Rightarrow> bool" where
  "says nonce k e = (case e of WsMessage (Some f) \<Rightarrow> classifyRealtimeFrame f rt_topic nonce = k | _ \<Rightarrow> False)"

lemma classify_null: "classifyRealtimeFrame JNull t n = Ignore"
  by (simp add: classifyRealtimeFrame_def Let_def)

lemma outcomes_differ [simp]: "down_outcome e \<noteq> up_outcome" "up_outcome \<noteq> down_outcome e"
  by (simp_all add: down_outcome_def up_outcome_def)

text \<open>What the probe knows after a sequence of events.\<close>

definition rt_inv :: "string \<Rightarrow> rt_event list \<Rightarrow> rt_state \<Rightarrow> bool" where
  "rt_inv nonce es st =
     ((rt_joined st \<longrightarrow> (\<exists>e \<in> set es. says nonce Joined e)) \<and>
      (rt_subscribed st \<longrightarrow> (\<exists>e \<in> set es. says nonce Subscribed e)) \<and>
      (rt_sent st \<longrightarrow> rt_joined st \<and> rt_subscribed st \<and> broadcast_frame nonce \<in> set (rt_out st)))"

lemma rt_inv_keep:
  "rt_inv nonce es st \<Longrightarrow> rt_inv nonce (es @ [e]) st"
  "rt_inv nonce es st \<Longrightarrow> rt_inv nonce es (rt_done r st)"
  "rt_inv nonce es st \<Longrightarrow> rt_inv nonce es (rt_advance nonce st)"
  "rt_inv nonce es st \<Longrightarrow> \<exists>e \<in> set es. says nonce Joined e \<Longrightarrow> rt_inv nonce es (st\<lparr>rt_joined := True\<rparr>)"
  "rt_inv nonce es st \<Longrightarrow> \<exists>e \<in> set es. says nonce Subscribed e \<Longrightarrow> rt_inv nonce es (st\<lparr>rt_subscribed := True\<rparr>)"
  by (auto simp: rt_inv_def rt_done_def rt_advance_def Let_def)

lemma rt_inv_message:
  assumes "rt_inv nonce es st"
  shows "rt_inv nonce (es @ [WsMessage (Some f)]) (rt_message nonce f st)"
proof -
  let ?es = "es @ [WsMessage (Some f)]"
  from assms have inv: "rt_inv nonce ?es st" by (rule rt_inv_keep)
  have m: "\<exists>e \<in> set ?es. says nonce k e" if "classifyRealtimeFrame f rt_topic nonce = k" for k
    using that by (auto simp: says_def)
  show ?thesis using inv m
    by (cases "classifyRealtimeFrame f rt_topic nonce") (auto simp: rt_message_def intro!: rt_inv_keep(2-5))
qed

lemma rt_inv_probe: "rt_inv nonce es (realtimeJoinProbe anonKey nonce es)"
proof (induction es rule: rev_induct)
  case Nil
  then show ?case by (simp add: realtimeJoinProbe_def rt_start_def rt_inv_def)
next
  case (snoc e es)
  have q: "realtimeJoinProbe anonKey nonce (es @ [e]) = rt_event_step anonKey nonce (realtimeJoinProbe anonKey nonce es) e"
    by (simp add: realtimeJoinProbe_def)
  have k: "rt_inv nonce (es @ [e]) (realtimeJoinProbe anonKey nonce es)" by (rule rt_inv_keep(1) [OF snoc])
  show ?case unfolding q
  proof (cases e)
    case WsOpen
    from k show "rt_inv nonce (es @ [e]) (rt_event_step anonKey nonce (realtimeJoinProbe anonKey nonce es) e)"
      unfolding WsOpen by (auto simp: rt_inv_def)
  next
    case (WsMessage x)
    from k rt_inv_message [OF snoc] show "rt_inv nonce (es @ [e]) (rt_event_step anonKey nonce (realtimeJoinProbe anonKey nonce es) e)"
      unfolding WsMessage by (cases x) simp_all
  qed (use k in \<open>auto intro: rt_inv_keep(2)\<close>)
qed

lemma rt_result_up:
  "rt_result (realtimeJoinProbe anonKey nonce es) = Some up_outcome \<Longrightarrow> \<exists>a e b. es = a @ e # b \<and> says nonce Delivered e"
proof (induction es rule: rev_induct)
  case Nil
  then show ?case by (simp add: realtimeJoinProbe_def rt_start_def)
next
  case (snoc e es)
  let ?st = "realtimeJoinProbe anonKey nonce es"
  have q: "realtimeJoinProbe anonKey nonce (es @ [e]) = rt_event_step anonKey nonce ?st e" by (simp add: realtimeJoinProbe_def)
  have "rt_result ?st = Some up_outcome \<or> says nonce Delivered e"
    using snoc.prems unfolding q
    by (cases e) (auto simp: rt_done_def rt_message_def rt_advance_def says_def Let_def split: option.splits rt_step.splits if_splits)
  then show ?case
  proof
    assume "rt_result ?st = Some up_outcome"
    from snoc.IH [OF this] obtain a x b where "es = a @ x # b" "says nonce Delivered x" by blast
    then have "es @ [e] = a @ x # (b @ [e])" "says nonce Delivered x" by simp_all
    then show ?thesis by blast
  qed blast
qed

lemma rt_resolved: "rt_result st \<noteq> None \<Longrightarrow> rt_result (foldl (rt_event_step anonKey nonce) st es) \<noteq> None"
proof (induction es arbitrary: st)
  case (Cons e es)
  from Cons.prems have "rt_result (rt_event_step anonKey nonce st e) \<noteq> None"
    by (cases e) (auto simp: rt_done_def rt_message_def rt_advance_def Let_def split: option.splits rt_step.splits if_splits)
  with Cons.IH show ?case by simp
qed simp

lemma rt_timeout: "Timeout \<in> set es \<Longrightarrow> rt_result (realtimeJoinProbe anonKey nonce es) \<noteq> None"
proof -
  assume "Timeout \<in> set es"
  then obtain a b where "es = a @ Timeout # b" by (auto dest: split_list)
  then show ?thesis unfolding realtimeJoinProbe_def by (simp add: rt_resolved rt_done_def)
qed

text \<open>The nonce comes from nowhere else: a frame that carries it arrives only after the probe sent it.\<close>

definition echo_only :: "string \<Rightarrow> string \<Rightarrow> rt_event list \<Rightarrow> bool" where
  "echo_only anonKey nonce es =
     list_all (\<lambda>i. says nonce Delivered (es ! i) \<longrightarrow> rt_sent (realtimeJoinProbe anonKey nonce (take i es))) [0..<length es]"

lemma echo_onlyD:
  "echo_only anonKey nonce (a @ e # b) \<Longrightarrow> says nonce Delivered e \<Longrightarrow> rt_sent (realtimeJoinProbe anonKey nonce a)"
  by (auto simp: echo_only_def list_all_iff dest!: bspec [of _ _ "length a"])

text \<open>If no frame carries the probe's fresh nonce before the probe has sent it, the Realtime probe
  reports up only on a sequence in which the join was acknowledged, the Postgres Changes subscription
  was confirmed, and only after both the probe's own broadcast came back; and it always has an
  outcome once its timer has fired, whatever else happened.\<close>

lemma realtime_up_means_data:
  assumes "echo_only anonKey nonce es"
  shows "(rt_result (realtimeJoinProbe anonKey nonce es) = Some up_outcome \<longrightarrow>
      (\<exists>a e b. es = a @ e # b \<and> says nonce Delivered e \<and> list_ex (says nonce Joined) a \<and> list_ex (says nonce Subscribed) a \<and>
         broadcast_frame nonce \<in> set (rt_out (realtimeJoinProbe anonKey nonce a)))) \<and>
    (Timeout \<in> set es \<longrightarrow> rt_result (realtimeJoinProbe anonKey nonce es) \<noteq> None)"
proof (intro conjI impI rt_timeout)
  assume "rt_result (realtimeJoinProbe anonKey nonce es) = Some up_outcome"
  from rt_result_up [OF this] obtain a e b where d: "es = a @ e # b" "says nonce Delivered e" by blast
  from echo_onlyD [OF assms [unfolded d(1)] d(2)] rt_inv_probe [of nonce a anonKey] have "list_ex (says nonce Joined) a" "list_ex (says nonce Subscribed) a"
    "broadcast_frame nonce \<in> set (rt_out (realtimeJoinProbe anonKey nonce a))" by (auto simp: rt_inv_def list_ex_iff)
  with d show "\<exists>a e b. es = a @ e # b \<and> says nonce Delivered e \<and> list_ex (says nonce Joined) a \<and> list_ex (says nonce Subscribed) a \<and>
      broadcast_frame nonce \<in> set (rt_out (realtimeJoinProbe anonKey nonce a))" by blast
qed

text \<open>A probe that works: join reply, subscription, echo.\<close>

definition rt_demo :: "rt_event list" where
  "rt_demo = [WsOpen,
     WsMessage (Some (JObj [(''topic'', JStr rt_topic), (''event'', JStr ''phx_reply''), (''ref'', JStr ''1''), (''payload'', JObj [(''status'', JStr ''ok'')])])),
     WsMessage (Some (JObj [(''topic'', JStr rt_topic), (''event'', JStr ''system''), (''payload'', JObj [(''extension'', JStr ''postgres_changes''), (''status'', JStr ''ok'')])])),
     WsMessage (Some (broadcast_frame ''n1''))]"

lemma rt_demo_up: "rt_result (realtimeJoinProbe ''k'' ''n1'' rt_demo) = Some up_outcome"
  by code_simp

lemma rt_demo_echo: "echo_only ''k'' ''n1'' rt_demo"
  by code_simp

subsection \<open>Seeding ends only on a streak\<close>

lemma seed_loop_streak:
  "seed_loop t0 need maxMs streak seen rs = Some (Inr secs) \<Longrightarrow> 0 \<le> streak \<Longrightarrow> streak < need \<Longrightarrow>
   \<exists>a good b. rs = a @ good @ b \<and> list_all (\<lambda>r. list_all (\<lambda>no. oc_ok (snd no)) (sr_outs r)) good \<and>
     (int (length good) \<ge> need \<or> a = [] \<and> streak + int (length good) \<ge> need)"
proof (induction t0 need maxMs streak seen rs rule: seed_loop.induct)
  case (1 t0 need maxMs streak seen)
  then show ?case by simp
next
  case (2 t0 need maxMs streak seen r rs)
  let ?ok = "list_all (\<lambda>no. oc_ok (snd no)) (sr_outs r)"
  let ?streak = "if ?ok then streak + 1 else 0"
  from "2.prems"(1) have t: "sr_before r - t0 < maxMs" by (auto split: if_splits)
  show ?case
  proof (cases "?streak \<ge> need")
    case True
    with "2.prems" have "?ok" "streak + 1 \<ge> need" by (auto split: if_splits)
    then show ?thesis by (intro exI [of _ "[]"] exI [of _ "[r]"] exI [of _ rs]) simp
  next
    case False
    with "2.prems" t have l: "seed_loop t0 need maxMs ?streak (map show_outcome (sr_outs r)) rs = Some (Inr secs)"
      by (simp add: Let_def)
    from "2.IH" [OF _ refl refl False l] t False "2.prems" obtain a good b where
      g: "rs = a @ good @ b" "list_all (\<lambda>r. list_all (\<lambda>no. oc_ok (snd no)) (sr_outs r)) good"
        "int (length good) \<ge> need \<or> a = [] \<and> ?streak + int (length good) \<ge> need" by (auto split: if_splits)
    show ?thesis
    proof (cases "int (length good) \<ge> need")
      case True
      with g show ?thesis by (intro exI [of _ "r # a"] exI [of _ good] exI [of _ b]) simp
    next
      case long: False
      with g(3) have "?ok" "a = []" "streak + 1 + int (length good) \<ge> need" by (auto split: if_splits)
      with g show ?thesis by (intro exI [of _ "[]"] exI [of _ "r # good"] exI [of _ b]) simp
    qed
  qed
qed

end
