(* ===== verification/Matrix.thy ===== *)
theory Matrix
  imports Harness_Types RegExp Js_Number
begin

text \<open>
  \<open>harness/src/matrix.ts\<close>: the same feature probes against several connection modes. A feature is a
  name and a function of the connection's state, run in order; it resolves, perhaps with a note, or
  throws. Strings thrown are as \<open>String(e)\<close> prints them.
\<close>

datatype thrown = ErrorObject string | OtherValue string

type_synonym 's feature = "string \<times> ('s \<Rightarrow> (thrown + string option) \<times> 's)"

record feature_outcome =
  fo_name :: string
  fo_ok :: bool
  fo_error :: string
  fo_note :: "string option"

definition ws_run_re :: re where
  "ws_run_re = Plus (Cls is_ws)"

definition errorText :: "thrown \<Rightarrow> string" where
  "errorText e =
     trim (replace_all ws_run_re (\<lambda>_. '' '') (case e of ErrorObject msg \<Rightarrow> msg | OtherValue s \<Rightarrow> s))"

definition feature_result :: "string \<Rightarrow> thrown + string option \<Rightarrow> feature_outcome" where
  "feature_result name r =
     (case r of
        Inr note \<Rightarrow> \<lparr>fo_name = name, fo_ok = True, fo_error = [], fo_note = (if truthy note then note else None)\<rparr>
      | Inl e \<Rightarrow> \<lparr>fo_name = name, fo_ok = False, fo_error = errorText e, fo_note = None\<rparr>)"

fun runFeatures :: "'s feature list \<Rightarrow> 's \<Rightarrow> feature_outcome list \<times> 's" where
  "runFeatures [] s = ([], s)"
| "runFeatures (f # fs) s =
     (let (r, s') = snd f s; (os, s'') = runFeatures fs s' in (feature_result (fst f) r # os, s''))"

definition measurement_of :: "nat \<Rightarrow> feature_outcome \<Rightarrow> string" where
  "measurement_of maxLen x =
     (if fo_ok x then (if truthy (fo_note x) then ''ok ('' @ the (fo_note x) @ '')'' else ''ok'')
      else if length (fo_error x) > maxLen then ''failed: '' @ take maxLen (fo_error x) @ ''...''
      else ''failed: '' @ fo_error x)"

definition toMeasurements :: "feature_outcome list \<Rightarrow> nat \<Rightarrow> string obj" where
  "toMeasurements xs maxLen = foldl (\<lambda>m x. obj_put (fo_name x) (measurement_of maxLen x) m) [] xs"

definition renderEvidence :: "feature_outcome list \<Rightarrow> string" where
  "renderEvidence xs =
     join nl (map (\<lambda>x. fo_name x @ '': '' @
       (if fo_ok x then ''ok'' @ (if truthy (fo_note x) then '' ('' @ the (fo_note x) @ '')'' else []) else fo_error x)) xs)"

definition summariseRow :: "feature_outcome list \<Rightarrow> bool \<Rightarrow> status \<times> string" where
  "summariseRow xs control =
     (let broken = map fo_name (filter (\<lambda>x. \<not> fo_ok x) xs)
      in if control
         then (if broken \<noteq> []
               then (Fail, ''control mode did not support '' @ join '', '' broken @ '' - the probe is suspect, not the pooler'')
               else (Pass, ''control mode supports all '' @ show_nat (length xs) @ '' features''))
         else (Info, if broken \<noteq> []
               then show_nat (length broken) @ ''/'' @ show_nat (length xs) @ '' unsupported: '' @ join '', '' broken
               else ''0/'' @ show_nat (length xs) @ '' unsupported - behaved as a direct session on every feature''))"

definition regressionVerdict :: "feature_outcome option \<Rightarrow> string \<Rightarrow> bool \<Rightarrow> status \<times> string" where
  "regressionVerdict outc label prior_ok =
     (case outc of
        None \<Rightarrow> (Skip, ''mode not probed - nothing to compare against '' @ label)
      | Some x \<Rightarrow>
          if prior_ok \<and> fo_ok x then (Pass, ''reproduces '' @ label @ '': '' @ fo_name x @ '' still works'')
          else if prior_ok \<and> \<not> fo_ok x
          then (Fail, ''REGRESSION vs '' @ label @ '': '' @ fo_name x @ '' now fails with '' @ [CHR 0x22] @ fo_error x @ [CHR 0x22])
          else if \<not> prior_ok \<and> fo_ok x then (Info, label @ '' recorded '' @ fo_name x @ '' as broken; it works now'')
          else (Pass, ''reproduces '' @ label @ '': '' @ fo_name x @ '' still fails''))"

record conn_target =
  tg_host :: string
  tg_port :: int

definition port_error :: "string \<Rightarrow> string \<Rightarrow> string" where
  "port_error whole raw = ''not a port in endpoint '' @ [CHR 0x22] @ whole @ [CHR 0x22] @ '': '' @ raw"

definition portOf :: "string option \<Rightarrow> int \<Rightarrow> string \<Rightarrow> string + int" where
  "portOf raw fallback whole =
     (if raw = None \<or> raw = Some [] then Inr fallback
      else case to_number (the raw) of
          Fin r \<Rightarrow> if of_int \<lfloor>r\<rfloor> \<noteq> r \<or> r \<le> 0 \<or> r > 65535 then Inl (port_error whole (the raw)) else Inr \<lfloor>r\<rfloor>
        | _ \<Rightarrow> Inl (port_error whole (the raw)))"

definition bracket_re :: re where
  "bracket_re =
     Seq Bol (Seqs [Lit ''['', Grp 1 (Plus (Cls (\<lambda>c. c \<noteq> CHR '']''))), Lit '']'',
       Opt (Seq (Lit '':'') (Grp 2 (Plus (Cls (\<lambda>c. of_char c \<notin> {10, 13 :: nat}))))), Eol])"

definition target_of :: "string \<Rightarrow> string + int \<Rightarrow> string + conn_target option" where
  "target_of host p = map_sum (\<lambda>e. e) (\<lambda>n. Some \<lparr>tg_host = host, tg_port = n\<rparr>) p"

definition parseTarget :: "string option \<Rightarrow> int \<Rightarrow> string + conn_target option" where
  "parseTarget val defaultPort =
     (let v = trim (case val of None \<Rightarrow> [] | Some x \<Rightarrow> x)
      in if v = [] then Inr None
         else case re_exec bracket_re v of
             Some m \<Rightarrow> target_of (the (group 1 m)) (portOf (group 2 m) defaultPort v)
           | None \<Rightarrow>
               (case last_index_of (CHR '':'') v of
                  None \<Rightarrow> target_of v (Inr defaultPort)
                | Some i \<Rightarrow>
                    if index_of (CHR '':'') v \<noteq> Some i then target_of v (Inr defaultPort)
                    else target_of (take i v) (portOf (Some (drop (i + 1) v)) defaultPort v)))"

subsection \<open>Features in order\<close>

lemma runFeatures_names: "map fo_name (fst (runFeatures fs s)) = map fst fs"
  by (induction fs arbitrary: s) (simp_all add: feature_result_def case_prod_unfold Let_def split: sum.splits)

text \<open>Running two batches one after the other is running them together: order and state are kept.\<close>

lemma runFeatures_append:
  "runFeatures (fs @ gs) s =
     (let (xs, s') = runFeatures fs s; (ys, s'') = runFeatures gs s' in (xs @ ys, s''))"
  by (induction fs arbitrary: s) (auto split: prod.splits)

text \<open>A control row passes exactly when no feature failed; a pooled row never passes or fails.\<close>

lemma summariseRow_status:
  "fst (summariseRow xs control) = (if \<not> control then Info else if list_all fo_ok xs then Pass else Fail)"
  by (auto simp: summariseRow_def Let_def filter_empty_conv list_all_iff)

subsection \<open>Targets\<close>

lemma portOf_bounds: "portOf raw d w = Inr n \<Longrightarrow> n = d \<or> 1 \<le> n \<and> n \<le> 65535"
proof -
  assume "portOf raw d w = Inr n"
  then consider "n = d" | r where "of_int n = r" "0 < r" "r \<le> (65535 :: rat)"
    by (auto simp: portOf_def split: if_splits jsnum.splits)
  then show ?thesis
  proof cases
    case 2
    then have "0 < n" "n \<le> 65535" by auto
    then show ?thesis by simp
  qed simp
qed

lemma portOf_digits:
  "portOf (Some (show_nat n)) d w =
     (if 1 \<le> n \<and> n \<le> 65535 then Inr (int n) else Inl (port_error w (show_nat n)))"
  by (auto simp: portOf_def to_number_show_nat)

lemma no_bracket: "v \<noteq> [] \<Longrightarrow> hd v \<noteq> CHR ''['' \<Longrightarrow> re_exec bracket_re v = None"
  unfolding bracket_re_def re_exec_Bol_None
  by (cases v) (auto simp: next_is_def)

lemma trim_ends: "v \<noteq> [] \<Longrightarrow> \<not> is_ws (hd v) \<Longrightarrow> \<not> is_ws (last v) \<Longrightarrow> trim v = v"
proof -
  assume a: "v \<noteq> []" "\<not> is_ws (hd v)" "\<not> is_ws (last v)"
  then have "dropWhile is_ws v = v" "dropWhile is_ws (rev v) = rev v" by (simp_all add: dropWhile_eq_self_iff hd_rev)
  then show ?thesis by (simp add: trim_def trim_start_def trim_end_def)
qed

lemma index_of_append: "d \<notin> set h \<Longrightarrow> index_of d (h @ d # t) = Some (length h)"
  by (induction h) auto

lemma last_index_of_append: "d \<notin> set h \<Longrightarrow> d \<notin> set t \<Longrightarrow> last_index_of d (h @ d # t) = Some (length h)"
  using last_index_of_None [of d t] by (induction h) auto

text \<open>A host and port written \<open>host:port\<close> is read back as that host and port, and is an error exactly
  when the port is not between 1 and 65535; a host alone gets the default port; and whatever the text,
  a target's port is the default or between 1 and 65535.\<close>

lemma parseTarget_exact:
  assumes "h \<noteq> []" "CHR '':'' \<notin> set h" "hd h \<noteq> CHR ''[''" "\<not> is_ws (hd h)" "\<not> is_ws (last h)"
  shows "parseTarget (Some (h @ '':'' @ show_nat n)) d =
      (if 1 \<le> n \<and> n \<le> 65535 then Inr (Some \<lparr>tg_host = h, tg_port = int n\<rparr>)
       else Inl (port_error (h @ '':'' @ show_nat n) (show_nat n))) \<and>
    parseTarget (Some h) d = Inr (Some \<lparr>tg_host = h, tg_port = d\<rparr>) \<and>
    (parseTarget v d = Inr (Some t) \<longrightarrow> tg_port t = d \<or> 1 \<le> tg_port t \<and> tg_port t \<le> 65535)"
proof (intro conjI impI)
  let ?v = "h @ '':'' @ show_nat n"
  have dig: "is_digit c \<Longrightarrow> \<not> is_ws c \<and> c \<noteq> CHR '':''" for c by (auto simp: is_digit_def is_ws_def)
  have last: "\<not> is_ws (last ?v)" using dig show_nat_digits [of "last (show_nat n)" n] by simp
  have "CHR '':'' \<notin> set (show_nat n)" using dig show_nat_digits by blast
  then have i: "index_of (CHR '':'') ?v = Some (length h)" "last_index_of (CHR '':'') ?v = Some (length h)"
    using index_of_append [OF assms(2)] last_index_of_append [OF assms(2)] by simp_all
  have t: "trim ?v = ?v" "trim h = h" using trim_ends [of ?v] trim_ends [of h] assms last by simp_all
  have b: "re_exec bracket_re ?v = None" "re_exec bracket_re h = None" using no_bracket assms by simp_all
  show "parseTarget (Some ?v) d = (if 1 \<le> n \<and> n \<le> 65535 then Inr (Some \<lparr>tg_host = h, tg_port = int n\<rparr>)
      else Inl (port_error ?v (show_nat n)))"
    using t(1) b(1) i portOf_digits [of n d ?v] by (simp add: parseTarget_def target_of_def)
  show "parseTarget (Some h) d = Inr (Some \<lparr>tg_host = h, tg_port = d\<rparr>)"
    using t(2) b(2) assms(1,2) last_index_of_None [of "CHR '':''" h] by (simp add: parseTarget_def target_of_def)
next
  assume "parseTarget v d = Inr (Some t)"
  then show "tg_port t = d \<or> 1 \<le> tg_port t \<and> tg_port t \<le> 65535"
    by (auto simp: parseTarget_def target_of_def Let_def map_sum_def split: if_splits option.splits sum.splits dest: portOf_bounds)
qed

end
