(* ===== verification/Retry_Policy.thy ===== *)
theory Retry_Policy
  imports Prelude
begin

text \<open>
  \<open>experiments/client-retries/lib/policy.ts\<close>: a hedged GET with at most one extra attempt, and a
  refresh-then-retry on 401. The attempts, the hedge timer and the deadline are the events of a state
  machine; an attempt settles with the response its builder gives (a rejection is the response with
  status 0). The builder returns a promise, as its type says.
\<close>

record resp =
  rp_data :: "string option"
  rp_error :: "(string option \<times> string option \<times> string option) option"
  rp_status :: int

definition retryable :: "resp \<Rightarrow> bool" where
  "retryable r = (rp_status r = 0 \<or> rp_status r \<ge> 500)"

text \<open>What a rejected builder stands for: the error's name (or \<open>error\<close>) and text.\<close>

definition rejected :: "string option \<Rightarrow> string \<Rightarrow> resp" where
  "rejected name msg =
     \<lparr>rp_data = None, rp_error = Some (None, Some msg, Some (case name of None \<Rightarrow> ''error'' | Some n \<Rightarrow> n)), rp_status = 0\<rparr>"

text \<open>
  The variables of the call: attempts started and settled, the latest settled attempt, the result
  with the winner and the attempts started by then, whether the deadline has passed, the attempts
  in flight and the attempts told to abort.
\<close>

record hedge =
  hg_started :: nat
  hg_settled :: nat
  hg_last :: "(nat \<times> resp) option"
  hg_result :: "(nat \<times> resp \<times> nat) option"
  hg_deadline :: bool
  hg_flying :: "nat list"
  hg_aborted :: "nat list"

definition hedge_finish :: "nat \<times> resp \<Rightarrow> hedge \<Rightarrow> hedge" where
  "hedge_finish w h =
     (if hg_result h \<noteq> None then h
      else h\<lparr>hg_result := Some (fst w, snd w, hg_started h),
             hg_aborted := hg_aborted h @ filter (\<lambda>n. n \<noteq> fst w) [1..<hg_started h + 1]\<rparr>)"

definition launch :: "hedge \<Rightarrow> hedge" where
  "launch h =
     (if hg_result h \<noteq> None \<or> hg_started h \<ge> 2 then h
      else h\<lparr>hg_started := hg_started h + 1, hg_flying := hg_flying h @ [hg_started h + 1]\<rparr>)"

definition hedge_start :: hedge where
  "hedge_start =
     launch \<lparr>hg_started = 0, hg_settled = 0, hg_last = None, hg_result = None, hg_deadline = False, hg_flying = [], hg_aborted = []\<rparr>"

text \<open>
  An attempt settles, the hedge timer fires (cleared once there is a result), the deadline passes,
  and 50 ms after it the last response is taken.
\<close>

datatype hedge_event = Settles nat resp | HedgeTimer | Deadline | Grace

definition on_settle :: "nat \<Rightarrow> resp \<Rightarrow> hedge \<Rightarrow> hedge" where
  "on_settle n r h =
     (let h' = h\<lparr>hg_flying := remove1 n (hg_flying h), hg_settled := hg_settled h + 1, hg_last := Some (n, r)\<rparr>
      in if \<not> retryable r then hedge_finish (n, r) h'
         else if hg_started h' < 2 \<and> \<not> hg_deadline h' then launch h'
         else if hg_settled h' = hg_started h' then hedge_finish (n, r) h' else h')"

fun hedge_step :: "hedge \<Rightarrow> hedge_event \<Rightarrow> hedge" where
  "hedge_step h (Settles n r) = (if n \<in> set (hg_flying h) then on_settle n r h else h)"
| "hedge_step h HedgeTimer = (if hg_result h = None then launch h else h)"
| "hedge_step h Deadline = (if hg_deadline h then h else h\<lparr>hg_deadline := True, hg_aborted := hg_aborted h @ [1..<hg_started h + 1]\<rparr>)"
| "hedge_step h Grace = (case hg_last h of None \<Rightarrow> h | Some w \<Rightarrow> if hg_deadline h then hedge_finish w h else h)"

definition hedgedGet :: "hedge_event list \<Rightarrow> hedge" where
  "hedgedGet es = foldl hedge_step hedge_start es"

subsection \<open>refreshThenRetry\<close>

record refresh_result =
  rr_resp :: resp
  rr_refreshed :: bool
  rr_refreshError :: string
  rr_requests :: nat

definition refreshThenRetry :: "resp \<Rightarrow> (string option \<times> string option) option \<Rightarrow> resp \<Rightarrow> refresh_result" where
  "refreshThenRetry first err second =
     (if rp_status first \<noteq> 401 then \<lparr>rr_resp = first, rr_refreshed = False, rr_refreshError = [], rr_requests = 1\<rparr>
      else case err of
          Some (code, name) \<Rightarrow>
            \<lparr>rr_resp = first, rr_refreshed = False,
             rr_refreshError = (case code of Some c \<Rightarrow> c | None \<Rightarrow> (case name of Some n \<Rightarrow> n | None \<Rightarrow> ''refresh_failed'')), rr_requests = 1\<rparr>
        | None \<Rightarrow> \<lparr>rr_resp = second, rr_refreshed = True, rr_refreshError = [], rr_requests = 2\<rparr>)"

subsection \<open>The attempts of a hedged call\<close>

text \<open>
  The invariant of the call: which attempts are in flight, settled and answered, and what a result
  rests on. \<open>rs\<close> are the responses settled so far.
\<close>

definition result_ok :: "(nat \<times> resp) list \<Rightarrow> hedge \<Rightarrow> bool" where
  "result_ok rs h =
     (case hg_result h of
        None \<Rightarrow> hg_flying h \<noteq> [] \<and> list_all (\<lambda>w. retryable (snd w)) rs
      | Some (n, r, k) \<Rightarrow>
          (n, r) \<in> set rs \<and> k \<le> hg_started h \<and>
          (if retryable r then hg_deadline h \<or> length rs = 2 \<and> list_all (\<lambda>w. retryable (snd w)) rs
           else find (\<lambda>w. \<not> retryable (snd w)) rs = Some (n, r)))"

definition hedge_inv :: "(nat \<times> resp) list \<Rightarrow> hedge \<Rightarrow> bool" where
  "hedge_inv rs h =
     (1 \<le> hg_started h \<and> hg_started h \<le> 2 \<and> hg_settled h = length rs \<and>
      mset (hg_flying h) + mset (map fst rs) = mset [1..<hg_started h + 1] \<and>
      hg_last h = (if rs = [] then None else Some (last rs)) \<and> result_ok rs h)"

text \<open>The responses settled by a sequence of events.\<close>

fun settled_by :: "hedge \<Rightarrow> hedge_event list \<Rightarrow> (nat \<times> resp) list" where
  "settled_by h [] = []"
| "settled_by h (e # es) =
     (case e of Settles n r \<Rightarrow> if n \<in> set (hg_flying h) then [(n, r)] else [] | _ \<Rightarrow> []) @ settled_by (hedge_step h e) es"

lemma find_append: "find P (xs @ ys) = (case find P xs of None \<Rightarrow> find P ys | Some x \<Rightarrow> Some x)"
  by (induction xs) auto

lemma find_None: "list_all (\<lambda>w. \<not> P w) xs \<Longrightarrow> find P xs = None"
  by (induction xs) auto

lemma inv_launch:
  assumes "hedge_inv rs h"
  shows "hedge_inv rs (launch h)"
  using assms by (auto simp: launch_def hedge_inv_def result_ok_def split: option.splits)

lemma inv_finish_deadline:
  assumes "hedge_inv rs h" "hg_deadline h" "hg_last h = Some w"
  shows "hedge_inv rs (hedge_finish w h)"
proof (cases "hg_result h")
  case None
  with assms have "w \<in> set rs" "retryable (snd w)"
    by (auto simp: hedge_inv_def result_ok_def list_all_iff split: if_splits)
  with assms None show ?thesis by (cases w) (simp add: hedge_inv_def result_ok_def hedge_finish_def)
qed (use assms in \<open>simp add: hedge_finish_def\<close>)

lemma inv_settle:
  assumes inv: "hedge_inv rs h" and fly: "n \<in> set (hg_flying h)"
  shows "hedge_inv (rs @ [(n, r)]) (on_settle n r h)"
proof -
  define h' where "h' = h\<lparr>hg_flying := remove1 n (hg_flying h), hg_settled := hg_settled h + 1, hg_last := Some (n, r)\<rparr>"
  let ?rs = "rs @ [(n, r)]"
  have os: "on_settle n r h =
      (if \<not> retryable r then hedge_finish (n, r) h'
       else if hg_started h' < 2 \<and> \<not> hg_deadline h' then launch h'
       else if hg_settled h' = hg_started h' then hedge_finish (n, r) h' else h')"
    by (simp only: on_settle_def Let_def h'_def)
  have base: "1 \<le> hg_started h'" "hg_started h' \<le> 2" "hg_settled h' = length ?rs" "hg_last h' = Some (last ?rs)"
    "hg_result h' = hg_result h" "hg_deadline h' = hg_deadline h" "hg_started h' = hg_started h"
    using inv by (simp_all add: h'_def hedge_inv_def)
  have ms: "mset (hg_flying h') + mset (map fst ?rs) = mset [1..<hg_started h' + 1]"
  proof -
    have move: "X = add_mset n Y \<Longrightarrow> X + Z = W \<Longrightarrow> Y + add_mset n Z = W" for X Y Z W :: "nat multiset" by simp
    have "mset (hg_flying h) = add_mset n (mset (remove1 n (hg_flying h)))" using fly by simp
    moreover have "mset (hg_flying h) + mset (map fst rs) = mset [1..<hg_started h + 1]" using inv by (simp only: hedge_inv_def)
    ultimately have "mset (remove1 n (hg_flying h)) + add_mset n (mset (map fst rs)) = mset [1..<hg_started h + 1]" by (rule move)
    then show ?thesis by (simp add: h'_def)
  qed
  from arg_cong [OF ms, of "size :: nat multiset \<Rightarrow> nat"]
  have len: "length (hg_flying h') + length ?rs = hg_started h'" by simp
  show ?thesis
  proof (cases "hg_result h")
    case (Some w)
    obtain a b c where w: "w = (a, b, c)" by (cases w)
    have "length rs < 2" using len base(2) by simp
    with inv Some w have "result_ok ?rs h'"
      by (auto simp: hedge_inv_def result_ok_def base find_append split: if_splits)
    then have i: "hedge_inv ?rs h'" using base ms by (simp add: hedge_inv_def)
    then have "hedge_inv ?rs (launch h')" by (rule inv_launch)
    with i Some base show ?thesis unfolding os by (simp add: hedge_finish_def)
  next
    case None
    with inv have all: "list_all (\<lambda>w. retryable (snd w)) rs" by (simp add: hedge_inv_def result_ok_def)
    then have first: "find (\<lambda>w. \<not> retryable (snd w)) rs = None" by (intro find_None) (simp add: list_all_iff)
    consider (win) "\<not> retryable r" | (again) "retryable r" "hg_started h' < 2" "\<not> hg_deadline h'"
      | (over) "retryable r" "\<not> (hg_started h' < 2 \<and> \<not> hg_deadline h')" "hg_settled h' = hg_started h'"
      | (wait) "retryable r" "\<not> (hg_started h' < 2 \<and> \<not> hg_deadline h')" "hg_settled h' \<noteq> hg_started h'" by blast
    then show ?thesis
    proof cases
      case win
      then have "hedge_inv ?rs (hedge_finish (n, r) h')"
        using base ms None first by (simp add: hedge_inv_def result_ok_def hedge_finish_def find_append)
      with win show ?thesis unfolding os by simp
    next
      case again
      then have "hg_started h' = 1" using base by simp
      then have "hedge_inv ?rs (launch h')"
        using base ms None again(1) all by (simp add: hedge_inv_def result_ok_def launch_def)
      with again show ?thesis unfolding os by simp
    next
      case over
      then have "hg_deadline h' \<or> length ?rs = 2" using base by linarith
      then have "hedge_inv ?rs (hedge_finish (n, r) h')"
        using base ms None over(1) all by (simp add: hedge_inv_def result_ok_def hedge_finish_def)
      with over show ?thesis unfolding os by auto
    next
      case wait
      then have "hg_flying h' \<noteq> []" using base(3) len by auto
      then have "hedge_inv ?rs h'"
        using base ms None wait(1) all by (simp add: hedge_inv_def result_ok_def)
      with wait show ?thesis unfolding os by auto
    qed
  qed
qed

lemma inv_run:
  "hedge_inv rs h \<Longrightarrow> hedge_inv (rs @ settled_by h es) (foldl hedge_step h es)"
proof (induction es arbitrary: rs h)
  case Nil
  then show ?case by simp
next
  case (Cons e es)
  let ?a = "case e of Settles n r \<Rightarrow> if n \<in> set (hg_flying h) then [(n, r)] else [] | _ \<Rightarrow> []"
  have "hedge_inv (rs @ ?a) (hedge_step h e)"
  proof (cases e)
    case (Settles n r)
    with Cons.prems inv_settle show ?thesis by simp
  next
    case HedgeTimer
    with Cons.prems inv_launch show ?thesis by simp
  next
    case Deadline
    with Cons.prems show ?thesis by (auto simp: hedge_inv_def result_ok_def split: option.splits)
  next
    case Grace
    with Cons.prems inv_finish_deadline show ?thesis by (auto split: option.splits)
  qed
  from Cons.IH [OF this] show ?case by simp
qed

lemma deadline_run: "hg_deadline (foldl hedge_step h es) \<longleftrightarrow> hg_deadline h \<or> Deadline \<in> set es"
proof (induction es arbitrary: h)
  case (Cons e es)
  have "hg_deadline (hedge_step h e) \<longleftrightarrow> hg_deadline h \<or> e = Deadline"
    by (cases e) (auto simp: on_settle_def hedge_finish_def launch_def Let_def split: option.splits)
  with Cons show ?case by auto
qed simp

text \<open>C18. A hedged GET starts at most two attempts, whatever fails, hangs or is slow. Its result is the
  response of one of them: the first one that is not a retryable failure, or a retryable failure only
  once the deadline has passed or both attempts have failed that way. And it has a result as soon as
  no attempt is in flight.\<close>

theorem hedgedGet_exact:
  "hg_started (hedgedGet es) \<le> 2 \<and>
   (\<forall>n r k. hg_result (hedgedGet es) = Some (n, r, k) \<longrightarrow>
      (n, r) \<in> set (settled_by hedge_start es) \<and>
      (if retryable r
       then Deadline \<in> set es \<or> length (settled_by hedge_start es) = 2 \<and> list_all (\<lambda>w. retryable (snd w)) (settled_by hedge_start es)
       else find (\<lambda>w. \<not> retryable (snd w)) (settled_by hedge_start es) = Some (n, r))) \<and>
   (hg_flying (hedgedGet es) = [] \<longrightarrow> hg_result (hedgedGet es) \<noteq> None)"
proof -
  have "hedge_inv [] hedge_start"
    by (simp add: hedge_inv_def result_ok_def hedge_start_def launch_def)
  from inv_run [OF this, of es] have inv: "hedge_inv (settled_by hedge_start es) (hedgedGet es)" by (simp add: hedgedGet_def)
  moreover have "hg_deadline (hedgedGet es) \<longleftrightarrow> Deadline \<in> set es"
    by (simp add: hedgedGet_def deadline_run) (simp add: hedge_start_def launch_def)
  ultimately show ?thesis by (auto simp: hedge_inv_def result_ok_def split: option.splits)
qed

theorem hedgedGet_exact_witness:
  "hg_result (hedgedGet [HedgeTimer, Settles 1 (rejected None ''x''), Settles 2 \<lparr>rp_data = Some ''d'', rp_error = None, rp_status = 200\<rparr>]) =
     Some (2, \<lparr>rp_data = Some ''d'', rp_error = None, rp_status = 200\<rparr>, 2) \<and>
   hg_started (hedgedGet [HedgeTimer, Settles 1 (rejected None ''x''), Settles 2 \<lparr>rp_data = Some ''d'', rp_error = None, rp_status = 200\<rparr>]) \<le> 2"
  using hedgedGet_exact [of "[HedgeTimer, Settles 1 (rejected None ''x''), Settles 2 \<lparr>rp_data = Some ''d'', rp_error = None, rp_status = 200\<rparr>]"]
  by (simp add: hedgedGet_def hedge_start_def launch_def on_settle_def hedge_finish_def retryable_def rejected_def Let_def)

text \<open>A second request is made only on a 401 after a refresh that worked.\<close>

lemma refresh_once:
  "rr_requests (refreshThenRetry a err b) = (if rp_status a = 401 \<and> err = None then 2 else 1) \<and>
   (rr_resp (refreshThenRetry a err b) = (if rp_status a = 401 \<and> err = None then b else a))"
  by (auto simp: refreshThenRetry_def split: option.splits)

end
