(* ===== verification/Fault_Proxy.thy ===== *)
theory Fault_Proxy
  imports Json_Text Simulation
begin

text \<open>
  \<open>experiments/client-retries/lib/faultproxy.ts\<close>: the local proxy that forwards, answers, delays, resets or
  holds each request as a script says, and logs what it saw. The handler is cut at its awaits: a
  request arrives, its body is read, a timer fires, the upstream answers or fails, the client goes
  away. Log entries are shared between the log and the handlers that still write to them, so the
  log is a list of references. The upstream's answer, the clock and the hash are the environment's.
\<close>

subsection \<open>Actions and scripts\<close>

datatype fault_action =
    FPass (fa_delay: "int option") (fa_delayAfter: "int option")
  | FStatus int "string obj option" "string option" "int option"
  | FReset
  | FHang

datatype header_value = One string | Many "string list"

record req_info =
  ri_n :: int
  ri_k :: int
  ri_method :: string
  ri_path :: string
  ri_headers :: "header_value obj"

type_synonym script = "req_info \<Rightarrow> fault_action"

record seen =
  sn_n :: int
  sn_k :: int
  sn_tMs :: int
  sn_method :: string
  sn_path :: string
  sn_retryCount :: "string option"
  sn_authFp :: string
  sn_action :: string
  sn_upstreamStatus :: "int option"
  sn_upstreamRetryAfter :: "string option"
  sn_doneMs :: "int option"
  sn_clientAborted :: bool

definition DROP_REQ :: "string list" where
  "DROP_REQ = [''host'', ''connection'', ''content-length'', ''accept-encoding'', ''transfer-encoding'', ''keep-alive'']"

definition DROP_RES :: "string list" where
  "DROP_RES = [''content-encoding'', ''content-length'', ''transfer-encoding'', ''connection'', ''keep-alive'']"

text \<open>A delay of zero is no delay.\<close>

definition delay_of :: "int option \<Rightarrow> int option" where
  "delay_of d = (case d of Some x \<Rightarrow> if x = 0 then None else Some x | None \<Rightarrow> None)"

definition delay_text :: "int option \<Rightarrow> string \<Rightarrow> string" where
  "delay_text d unit = (case delay_of d of None \<Rightarrow> [] | Some x \<Rightarrow> ''+'' @ show_int x @ unit)"

fun describe :: "fault_action \<Rightarrow> string" where
  "describe (FPass d a) = ''pass'' @ delay_text d ''ms-before'' @ delay_text a ''ms-after''"
| "describe (FStatus st h b d) = show_int st @ delay_text d ''ms''"
| "describe FReset = ''reset''"
| "describe FHang = ''hang''"

definition sequence :: "fault_action list \<Rightarrow> fault_action \<Rightarrow> script" where
  "sequence faults rest r = (if 0 \<le> ri_k r \<and> ri_k r < int (length faults) then faults ! nat (ri_k r) else rest)"

definition always :: "fault_action \<Rightarrow> script" where
  "always a r = a"

definition firstN :: "nat \<Rightarrow> fault_action \<Rightarrow> script" where
  "firstN cnt a = sequence (replicate cnt a) (FPass None None)"

definition rest_filter :: "string \<Rightarrow> bool" where
  "rest_filter p = starts_with p ''/rest/v1/''"

subsection \<open>The handler\<close>

record incoming =
  in_method :: "string option"
  in_url :: "string option"
  in_headers :: "header_value obj"

record up_answer =
  ua_status :: int
  ua_headers :: "string obj"
  ua_body :: string

datatype stage = Reading | Sleeping int | Fetching | Holding int up_answer | Finished

record handler =
  hd_action :: fault_action
  hd_arrived :: int
  hd_method :: string
  hd_path :: string
  hd_headers :: "header_value obj"
  hd_body :: string
  hd_stage :: stage
  hd_destroyed :: bool
  hd_ended :: bool
  hd_entry :: seen

record fault_proxy =
  fp_n :: int
  fp_k :: int
  fp_script :: script
  fp_filter :: "string \<Rightarrow> bool"
  fp_handlers :: "handler list"
  fp_seen :: "nat list"
  fp_open :: "nat list"
  fp_closed :: bool

text \<open>What the proxy does to the outside: per request, the action it took, the request it sent upstream,
  the response it wrote, the socket it destroyed, the client it saw leave, the response it tore down.\<close>

datatype fp_output =
    Took nat fault_action
  | Forward nat string string "string obj" "string option"
  | Answer nat int "string obj" "string option"
  | Drop nat
  | Left nat
  | Kill nat

definition no_body :: "string \<Rightarrow> bool" where
  "no_body m = (m = ''GET'' \<or> m = ''HEAD'')"

definition retry_count :: "header_value obj \<Rightarrow> string option" where
  "retry_count h =
     (case obj_get h ''x-retry-count'' of
        None \<Rightarrow> None | Some (One s) \<Rightarrow> Some s | Some (Many []) \<Rightarrow> None | Some (Many (s # _)) \<Rightarrow> Some s)"

definition header_text :: "header_value \<Rightarrow> string" where
  "header_text v = (case v of One s \<Rightarrow> s | Many ss \<Rightarrow> join '', '' ss)"

definition auth_fp :: "(string \<Rightarrow> string) \<Rightarrow> header_value obj \<Rightarrow> string" where
  "auth_fp sha h =
     (case obj_get h ''authorization'' of
        None \<Rightarrow> [] | Some v \<Rightarrow> if header_text v = [] then [] else take 8 (sha (header_text v)))"

definition forward_headers :: "header_value obj \<Rightarrow> string obj" where
  "forward_headers h =
     obj_put ''accept-encoding'' ''identity''
       (map (\<lambda>(k, v). (k, header_text v)) (filter (\<lambda>(k, v). k \<notin> set DROP_REQ) h))"

definition relay_headers :: "string obj \<Rightarrow> string obj" where
  "relay_headers h = filter (\<lambda>(k, v). k \<notin> set DROP_RES) h"

text \<open>A response is written unless the client is gone; writing it sets the time it took.\<close>

definition write_answer :: "nat \<Rightarrow> int \<Rightarrow> int \<Rightarrow> string obj \<Rightarrow> string option \<Rightarrow> handler \<Rightarrow> handler \<times> fp_output list" where
  "write_answer i now status headers body h =
     (if hd_destroyed h then (h\<lparr>hd_stage := Finished\<rparr>, [])
      else (h\<lparr>hd_stage := Finished, hd_ended := True, hd_entry := (hd_entry h)\<lparr>sn_doneMs := Some (now - hd_arrived h)\<rparr>\<rparr>,
            [Answer i status headers body]))"

definition injected_body :: "int \<Rightarrow> string" where
  "injected_body status = json_stringify (JObj [(''code'', JStr ''FAULT''), (''message'', JStr (''injected '' @ show_int status))])"

definition send_upstream :: "string \<Rightarrow> nat \<Rightarrow> handler \<Rightarrow> handler \<times> fp_output list" where
  "send_upstream upstream i h =
     (if hd_destroyed h then (h\<lparr>hd_stage := Finished\<rparr>, [])
      else (h\<lparr>hd_stage := Fetching\<rparr>,
            [Forward i (hd_method h) (upstream @ hd_path h) (forward_headers (hd_headers h))
               (if no_body (hd_method h) then None else Some (hd_body h))]))"

definition act_now :: "string \<Rightarrow> nat \<Rightarrow> int \<Rightarrow> handler \<Rightarrow> handler \<times> fp_output list" where
  "act_now upstream i now h =
     (case hd_action h of
        FStatus status headers body d \<Rightarrow>
          write_answer i now status
            (obj_of ((''content-type'', ''application/json'') # (case headers of None \<Rightarrow> [] | Some hs \<Rightarrow> hs)))
            (Some (case body of None \<Rightarrow> injected_body status | Some b \<Rightarrow> b)) h
      | FPass d a \<Rightarrow> send_upstream upstream i h
      | _ \<Rightarrow> (h, []))"

text \<open>Destroying a socket that is destroyed already does nothing.\<close>

definition after_body :: "string \<Rightarrow> nat \<Rightarrow> int \<Rightarrow> handler \<Rightarrow> handler \<times> fp_output list" where
  "after_body upstream i now h =
     (case hd_action h of
        FReset \<Rightarrow> (h\<lparr>hd_stage := Finished\<rparr>, if hd_destroyed h then [] else [Drop i])
      | FHang \<Rightarrow> (h\<lparr>hd_stage := Finished\<rparr>, [])
      | FStatus _ _ _ d \<Rightarrow>
          (case delay_of d of Some x \<Rightarrow> (h\<lparr>hd_stage := Sleeping (now + x)\<rparr>, []) | None \<Rightarrow> act_now upstream i now h)
      | FPass d _ \<Rightarrow>
          (case delay_of d of Some x \<Rightarrow> (h\<lparr>hd_stage := Sleeping (now + x)\<rparr>, []) | None \<Rightarrow> act_now upstream i now h))"

definition relay :: "nat \<Rightarrow> int \<Rightarrow> up_answer \<Rightarrow> handler \<Rightarrow> handler \<times> fp_output list" where
  "relay i now up h =
     (let e = (hd_entry h)\<lparr>sn_upstreamStatus := Some (ua_status up)\<rparr>;
          e' = (case obj_get (ua_headers up) ''retry-after'' of None \<Rightarrow> e | Some ra \<Rightarrow> e\<lparr>sn_upstreamRetryAfter := Some ra\<rparr>)
      in write_answer i now (ua_status up) (relay_headers (ua_headers up))
           (if hd_method h = ''HEAD'' then None else Some (ua_body up)) (h\<lparr>hd_entry := e'\<rparr>))"

definition upstream_answered :: "nat \<Rightarrow> int \<Rightarrow> up_answer \<Rightarrow> handler \<Rightarrow> handler \<times> fp_output list" where
  "upstream_answered i now up h =
     (case delay_of (fa_delayAfter (hd_action h)) of
        Some x \<Rightarrow> (h\<lparr>hd_stage := Holding (now + x) up\<rparr>, [])
      | None \<Rightarrow> relay i now up h)"

definition upstream_failed :: "nat \<Rightarrow> int \<Rightarrow> string \<Rightarrow> handler \<Rightarrow> handler \<times> fp_output list" where
  "upstream_failed i now msg h =
     write_answer i now 599 [(''content-type'', ''text/plain'')] (Some (''proxy upstream error: '' @ msg)) h"

definition on_gone :: "nat \<Rightarrow> handler \<Rightarrow> handler \<times> fp_output list" where
  "on_gone i h =
     (if hd_ended h then (h\<lparr>hd_destroyed := True\<rparr>, [])
      else (h\<lparr>hd_destroyed := True, hd_entry := (hd_entry h)\<lparr>sn_clientAborted := True\<rparr>\<rparr>, [Left i]))"

definition timer_fired :: "string \<Rightarrow> nat \<Rightarrow> int \<Rightarrow> handler \<Rightarrow> handler \<times> fp_output list" where
  "timer_fired upstream i now h =
     (case hd_stage h of
        Sleeping due \<Rightarrow> if due \<le> now then act_now upstream i now h else (h, [])
      | Holding due up \<Rightarrow> if due \<le> now then relay i now up h else (h, [])
      | _ \<Rightarrow> (h, []))"

subsection \<open>The proxy\<close>

datatype fp_event =
    Arrives incoming int
  | BodyRead nat string int
  | BodyFails nat
  | Fires nat int
  | UpAnswers nat up_answer int
  | UpFails nat string int
  | Gone nat
  | SetScript script "(string \<Rightarrow> bool) option"
  | ResetLog
  | Stop

definition new_handler :: "(string \<Rightarrow> string) \<Rightarrow> int \<Rightarrow> incoming \<Rightarrow> int \<Rightarrow> fault_proxy \<Rightarrow> handler" where
  "new_handler sha t0 r now p =
     (let path = (case in_url r of None \<Rightarrow> ''/'' | Some u \<Rightarrow> u);
          meth = (case in_method r of None \<Rightarrow> ''GET'' | Some m \<Rightarrow> m);
          governed = fp_filter p path;
          info = \<lparr>ri_n = fp_n p, ri_k = (if governed then fp_k p else -1), ri_method = meth, ri_path = path, ri_headers = in_headers r\<rparr>;
          action = (if governed then fp_script p info else FPass None None)
      in \<lparr>hd_action = action, hd_arrived = now, hd_method = meth, hd_path = path, hd_headers = in_headers r, hd_body = [],
          hd_stage = Reading, hd_destroyed = False, hd_ended = False,
          hd_entry = \<lparr>sn_n = ri_n info, sn_k = ri_k info, sn_tMs = now - t0, sn_method = meth, sn_path = path,
            sn_retryCount = retry_count (in_headers r), sn_authFp = auth_fp sha (in_headers r), sn_action = describe action,
            sn_upstreamStatus = None, sn_upstreamRetryAfter = None, sn_doneMs = None, sn_clientAborted = False\<rparr>\<rparr>)"

definition accept :: "string \<Rightarrow> (string \<Rightarrow> string) \<Rightarrow> int \<Rightarrow> incoming \<Rightarrow> int \<Rightarrow> fault_proxy \<Rightarrow> fault_proxy \<times> fp_output list" where
  "accept upstream sha t0 r now p =
     (let i = length (fp_handlers p);
          h = new_handler sha t0 r now p;
          (h', outs) = (if no_body (hd_method h) then after_body upstream i now h else (h, []))
      in (p\<lparr>fp_n := fp_n p + 1, fp_k := (if fp_filter p (hd_path h) then fp_k p + 1 else fp_k p),
            fp_handlers := fp_handlers p @ [h'], fp_seen := fp_seen p @ [i], fp_open := fp_open p @ [i]\<rparr>,
          Took i (hd_action h) # outs))"

text \<open>One handler moves; the others and the counters stay.\<close>

definition on_handler :: "nat \<Rightarrow> (handler \<Rightarrow> handler \<times> fp_output list) \<Rightarrow> fault_proxy \<Rightarrow> fault_proxy \<times> fp_output list" where
  "on_handler i f p =
     (if i < length (fp_handlers p)
      then let (h, outs) = f (fp_handlers p ! i) in (p\<lparr>fp_handlers := (fp_handlers p)[i := h]\<rparr>, outs)
      else (p, []))"

definition at_stage :: "(stage \<Rightarrow> bool) \<Rightarrow> (handler \<Rightarrow> handler \<times> fp_output list) \<Rightarrow> handler \<Rightarrow> handler \<times> fp_output list" where
  "at_stage q f h = (if q (hd_stage h) then f h else (h, []))"

definition kill :: "nat \<Rightarrow> handler \<Rightarrow> handler \<times> fp_output list" where
  "kill i h = (h\<lparr>hd_stage := Finished, hd_destroyed := True\<rparr>, if hd_destroyed h then [] else [Kill i])"

definition stop_all :: "fault_proxy \<Rightarrow> fault_proxy \<times> fp_output list" where
  "stop_all p =
     (p\<lparr>fp_handlers := map (\<lambda>(i, h). if i \<in> set (fp_open p) then h\<lparr>hd_destroyed := True\<rparr> else h) (enumerate 0 (fp_handlers p)),
        fp_closed := True\<rparr>,
      map Kill (fp_open p))"

fun fp_step :: "string \<Rightarrow> (string \<Rightarrow> string) \<Rightarrow> int \<Rightarrow> fp_event \<Rightarrow> fault_proxy \<Rightarrow> fault_proxy \<times> fp_output list" where
  "fp_step u sha t0 (Arrives r now) p = (if fp_closed p then (p, []) else accept u sha t0 r now p)"
| "fp_step u sha t0 (BodyRead i b now) p =
     on_handler i (at_stage (\<lambda>g. g = Reading) (\<lambda>h. after_body u i now (h\<lparr>hd_body := b\<rparr>))) p"
| "fp_step u sha t0 (BodyFails i) p = on_handler i (at_stage (\<lambda>g. g = Reading) (kill i)) p"
| "fp_step u sha t0 (Fires i now) p = on_handler i (timer_fired u i now) p"
| "fp_step u sha t0 (UpAnswers i up now) p = on_handler i (at_stage (\<lambda>g. g = Fetching) (upstream_answered i now up)) p"
| "fp_step u sha t0 (UpFails i msg now) p = on_handler i (at_stage (\<lambda>g. g = Fetching) (upstream_failed i now msg)) p"
| "fp_step u sha t0 (Gone i) p =
     (let (p', outs) = on_handler i (on_gone i) p in (p'\<lparr>fp_open := filter (\<lambda>j. j \<noteq> i) (fp_open p')\<rparr>, outs))"
| "fp_step u sha t0 (SetScript s f) p = (p\<lparr>fp_script := s, fp_filter := (case f of None \<Rightarrow> fp_filter p | Some g \<Rightarrow> g)\<rparr>, [])"
| "fp_step u sha t0 ResetLog p = (p\<lparr>fp_seen := [], fp_k := 0, fp_n := 0\<rparr>, [])"
| "fp_step u sha t0 Stop p = stop_all p"

definition startFaultProxy :: "script option \<Rightarrow> (string \<Rightarrow> bool) option \<Rightarrow> fault_proxy" where
  "startFaultProxy s f =
     \<lparr>fp_n = 0, fp_k = 0, fp_script = (case s of None \<Rightarrow> always (FPass None None) | Some x \<Rightarrow> x),
      fp_filter = (case f of None \<Rightarrow> rest_filter | Some g \<Rightarrow> g),
      fp_handlers = [], fp_seen = [], fp_open = [], fp_closed = False\<rparr>"

subsection \<open>Reading the log\<close>

definition fp_log :: "fault_proxy \<Rightarrow> seen list" where
  "fp_log p = map (\<lambda>i. hd_entry (fp_handlers p ! i)) (fp_seen p)"

definition governed :: "fault_proxy \<Rightarrow> seen list" where
  "governed p = filter (\<lambda>e. sn_k e \<ge> 0) (fp_log p)"

definition retryCounts :: "seen list \<Rightarrow> string" where
  "retryCounts rows = join '','' (map (\<lambda>r. case sn_retryCount r of None \<Rightarrow> ''-'' | Some c \<Rightarrow> c) rows)"

text \<open>Milliseconds between arrivals, to the nearest hundred, halves up.\<close>

fun gaps_ms :: "seen list \<Rightarrow> int list" where
  "gaps_ms (a # b # rows) = ((sn_tMs b - sn_tMs a + 50) div 100 * 100) # gaps_ms (b # rows)"
| "gaps_ms rows = []"

subsection \<open>What one request may do\<close>

text \<open>
  The promise per request: nothing happens before an action is taken; a synthetic status answers
  with that status and never reaches the upstream; a reset or held request is never answered; a
  passed one is forwarded once and answered at most once, after that; and once the client has left
  or the response is torn down, nothing is forwarded or answered any more.
\<close>

datatype phase = Fresh | Taken fault_action | Sent | Over

fun req_spec :: "phase \<Rightarrow> fp_output \<Rightarrow> phase option" where
  "req_spec Fresh (Took i a) = Some (Taken a)"
| "req_spec (Taken (FPass d a)) (Forward i m u h b) = Some Sent"
| "req_spec (Taken (FStatus st hs bd d)) (Answer i s h b) = (if s = st then Some Over else None)"
| "req_spec Sent (Answer i s h b) = Some Over"
| "req_spec (Taken FReset) (Drop i) = Some Over"
| "req_spec q (Left i) = (if q = Fresh then None else Some Over)"
| "req_spec q (Kill i) = (if q = Fresh then None else Some Over)"
| "req_spec q x = None"

fun req_of :: "fp_output \<Rightarrow> nat" where
  "req_of (Took i a) = i"
| "req_of (Forward i m u h b) = i"
| "req_of (Answer i s h b) = i"
| "req_of (Drop i) = i"
| "req_of (Left i) = i"
| "req_of (Kill i) = i"

definition fp_spec :: "(nat \<Rightarrow> phase) \<Rightarrow> fp_output \<Rightarrow> (nat \<Rightarrow> phase) option" where
  "fp_spec ph x = map_option (\<lambda>q. ph(req_of x := q)) (req_spec (ph (req_of x)) x)"

lemma fp_spec_Some: "req_spec (ph (req_of x)) x = Some q \<Longrightarrow> fp_spec ph x = Some (ph(req_of x := q))"
  by (simp add: fp_spec_def)

lemma spec_run_request:
  "list_all (\<lambda>x. req_of x = i) xs \<Longrightarrow> spec_run req_spec (ph i) xs = Some q \<Longrightarrow> spec_run fp_spec ph xs = Some (ph(i := q))"
proof (induction xs arbitrary: ph)
  case (Cons x xs)
  then obtain q1 where q1: "req_spec (ph i) x = Some q1" "spec_run req_spec q1 xs = Some q"
    by (auto split: option.splits)
  with Cons.prems have "spec_run fp_spec (ph(i := q1)) xs = Some ((ph(i := q1))(i := q))"
    by (intro Cons.IH) simp_all
  moreover have "fp_spec ph x = Some (ph(i := q1))" using q1 Cons.prems fp_spec_Some [of ph x q1] by simp
  ultimately show ?case by (simp add: fun_upd_def cong: if_cong)
qed auto

text \<open>Where a handler that can still act stands in that automaton.\<close>

definition handler_ok :: "handler \<Rightarrow> phase \<Rightarrow> bool" where
  "handler_ok h q =
     (q \<noteq> Fresh \<and>
      (\<not> hd_destroyed h \<longrightarrow>
         (case hd_stage h of
            Reading \<Rightarrow> q = Taken (hd_action h)
          | Sleeping _ \<Rightarrow> q = Taken (hd_action h)
          | Fetching \<Rightarrow> q = Sent
          | Holding _ _ \<Rightarrow> q = Sent
          | Finished \<Rightarrow> True)))"

definition lawful :: "nat \<Rightarrow> phase \<Rightarrow> handler \<times> fp_output list \<Rightarrow> bool" where
  "lawful i q r =
     (list_all (\<lambda>x. req_of x = i) (snd r) \<and>
      (case spec_run req_spec q (snd r) of None \<Rightarrow> False | Some q' \<Rightarrow> handler_ok (fst r) q'))"

lemma lawful_stay: "handler_ok h q \<Longrightarrow> lawful i q (h, [])"
  by (simp add: lawful_def)

lemma lawful_write:
  assumes "q \<noteq> Fresh" "\<not> hd_destroyed h \<Longrightarrow> req_spec q (Answer i st hs b) = Some Over"
  shows "lawful i q (write_answer i now st hs b h)"
  using assms by (auto simp: lawful_def write_answer_def handler_ok_def)

lemma lawful_act:
  assumes "q \<noteq> Fresh" "\<not> hd_destroyed h \<Longrightarrow> q = Taken (hd_action h)" "hd_stage h = Reading \<or> (\<exists>d. hd_stage h = Sleeping d)"
  shows "lawful i q (act_now u i now h)"
proof (cases "hd_action h")
  case FPass
  with assms show ?thesis by (auto simp: act_now_def send_upstream_def lawful_def handler_ok_def)
next
  case FStatus
  with assms show ?thesis unfolding act_now_def by (auto intro!: lawful_write)
qed (use assms in \<open>auto simp: act_now_def handler_ok_def intro!: lawful_stay\<close>)

lemma lawful_after_body:
  assumes "handler_ok h q" "hd_stage h = Reading"
  shows "lawful i q (after_body u i now h)"
proof (cases "hd_action h")
  case FReset
  with assms show ?thesis by (auto simp: after_body_def lawful_def handler_ok_def)
next
  case FHang
  with assms show ?thesis by (auto simp: after_body_def handler_ok_def intro!: lawful_stay)
qed (use assms in \<open>auto simp: after_body_def handler_ok_def intro!: lawful_act lawful_stay split: option.splits\<close>)

lemma lawful_relay:
  assumes "handler_ok h q" "hd_stage h = Fetching \<or> (\<exists>d up. hd_stage h = Holding d up)"
  shows "lawful i q (relay i now up h)" "lawful i q (upstream_failed i now msg h)" "lawful i q (upstream_answered i now up h)"
proof -
  from assms have q: "q \<noteq> Fresh" "\<not> hd_destroyed h \<Longrightarrow> q = Sent" by (auto simp: handler_ok_def)
  then show r: "lawful i q (relay i now up h)" and "lawful i q (upstream_failed i now msg h)"
    by (auto simp: relay_def upstream_failed_def Let_def intro!: lawful_write split: option.splits)
  with q show "lawful i q (upstream_answered i now up h)"
    by (auto simp: upstream_answered_def handler_ok_def intro!: lawful_stay split: option.splits)
qed

lemma lawful_timer:
  assumes "handler_ok h q"
  shows "lawful i q (timer_fired u i now h)"
proof (cases "hd_stage h")
  case (Sleeping due)
  with assms have "q \<noteq> Fresh" "\<not> hd_destroyed h \<Longrightarrow> q = Taken (hd_action h)" by (auto simp: handler_ok_def)
  with Sleeping assms show ?thesis by (auto simp: timer_fired_def intro!: lawful_act lawful_stay)
next
  case (Holding due up)
  with assms show ?thesis by (auto simp: timer_fired_def intro!: lawful_relay lawful_stay)
qed (use assms in \<open>simp_all add: timer_fired_def lawful_stay\<close>)

lemma lawful_gone: "handler_ok h q \<Longrightarrow> lawful i q (on_gone i h)"
  by (cases q) (auto simp: on_gone_def lawful_def handler_ok_def)

lemma lawful_kill: "handler_ok h q \<Longrightarrow> lawful i q (kill i h)"
  by (cases q) (auto simp: kill_def lawful_def handler_ok_def)

lemma lawful_at_stage:
  "handler_ok h q \<Longrightarrow> (g (hd_stage h) \<Longrightarrow> lawful i q (f h)) \<Longrightarrow> lawful i q (at_stage g f h)"
  by (simp add: at_stage_def lawful_stay)

subsection \<open>The proxy implements it\<close>

definition fp_rel :: "fault_proxy \<Rightarrow> (nat \<Rightarrow> phase) \<Rightarrow> bool" where
  "fp_rel p ph =
     ((\<forall>i < length (fp_handlers p). handler_ok (fp_handlers p ! i) (ph i)) \<and>
      (\<forall>i \<ge> length (fp_handlers p). ph i = Fresh) \<and>
      (\<forall>i \<in> set (fp_open p). i < length (fp_handlers p)))"

lemma sim_on_handler:
  assumes rel: "fp_rel p ph" and law: "\<And>h. handler_ok h (ph i) \<Longrightarrow> lawful i (ph i) (f h)"
    and step: "on_handler i f p = (p', outs)"
  shows "\<exists>ph'. spec_run fp_spec ph outs = Some ph' \<and> fp_rel p' ph'"
proof (cases "i < length (fp_handlers p)")
  case True
  obtain h where h: "f (fp_handlers p ! i) = (h, outs)" "p' = p\<lparr>fp_handlers := (fp_handlers p)[i := h]\<rparr>"
    using step True by (auto simp: on_handler_def split: prod.splits)
  from law [of "fp_handlers p ! i"] rel True have "lawful i (ph i) (h, outs)" by (simp add: fp_rel_def h)
  then obtain q where q: "list_all (\<lambda>x. req_of x = i) outs" "spec_run req_spec (ph i) outs = Some q" "handler_ok h q"
    by (auto simp: lawful_def split: option.splits)
  from q have "spec_run fp_spec ph outs = Some (ph(i := q))" by (intro spec_run_request)
  moreover have "fp_rel p' (ph(i := q))" using rel q(3) True by (auto simp: fp_rel_def h(2) nth_list_update)
  ultimately show ?thesis by blast
next
  case False
  with rel step show ?thesis by (auto simp: on_handler_def)
qed

lemma sim_accept:
  assumes rel: "fp_rel p ph" and step: "accept u sha t0 r now p = (p', outs)"
  shows "\<exists>ph'. spec_run fp_spec ph outs = Some ph' \<and> fp_rel p' ph'"
proof -
  let ?i = "length (fp_handlers p)"
  define h where "h = new_handler sha t0 r now p"
  define res where "res = (if no_body (hd_method h) then after_body u ?i now h else (h, []))"
  have h: "hd_stage h = Reading" "handler_ok h (Taken (hd_action h))"
    by (simp_all add: h_def new_handler_def handler_ok_def Let_def)
  then have "lawful ?i (Taken (hd_action h)) res" by (simp add: res_def lawful_after_body lawful_stay)
  then obtain q where q: "list_all (\<lambda>x. req_of x = ?i) (snd res)" "spec_run req_spec (Taken (hd_action h)) (snd res) = Some q" "handler_ok (fst res) q"
    by (auto simp: lawful_def split: option.splits)
  have outs: "outs = Took ?i (hd_action h) # snd res" and
    p': "fp_handlers p' = fp_handlers p @ [fst res]" "fp_open p' = fp_open p @ [?i]"
    using step by (auto simp: accept_def Let_def h_def res_def split: prod.splits)
  have "ph ?i = Fresh" using rel by (simp add: fp_rel_def)
  with q have "spec_run fp_spec ph outs = Some (ph(?i := q))"
    unfolding outs by (intro spec_run_request) simp_all
  moreover have "fp_rel p' (ph(?i := q))" using rel q(3) by (auto simp: fp_rel_def p' nth_append less_Suc_eq)
  ultimately show ?thesis by blast
qed

lemma spec_run_kills:
  "\<forall>i \<in> set is. ph i \<noteq> Fresh \<Longrightarrow> spec_run fp_spec ph (map Kill is) = Some (\<lambda>i. if i \<in> set is then Over else ph i)"
proof (induction "is" arbitrary: ph)
  case (Cons i "is")
  then have "req_spec (ph i) (Kill i) = Some Over" by (cases "ph i") auto
  then have "fp_spec ph (Kill i) = Some (ph(i := Over))" using fp_spec_Some [of ph "Kill i" Over] by simp
  moreover have "spec_run fp_spec (ph(i := Over)) (map Kill is) = Some (\<lambda>j. if j \<in> set is then Over else (ph(i := Over)) j)"
    by (rule Cons.IH) (use Cons.prems in auto)
  moreover have "(\<lambda>j. if j \<in> set is then Over else (ph(i := Over)) j) = (\<lambda>j. if j \<in> set (i # is) then Over else ph j)"
    by auto
  ultimately show ?case by simp
qed simp

lemma sim_stop:
  assumes rel: "fp_rel p ph" and step: "stop_all p = (p', outs)"
  shows "\<exists>ph'. spec_run fp_spec ph outs = Some ph' \<and> fp_rel p' ph'"
proof -
  let ?ph = "\<lambda>i. if i \<in> set (fp_open p) then Over else ph i"
  have live: "\<forall>i \<in> set (fp_open p). ph i \<noteq> Fresh" using rel by (auto simp: fp_rel_def handler_ok_def)
  from step have outs: "outs = map Kill (fp_open p)" and
    hs: "length (fp_handlers p') = length (fp_handlers p)" "fp_open p' = fp_open p" and
    nth: "i < length (fp_handlers p) \<Longrightarrow>
      fp_handlers p' ! i = (if i \<in> set (fp_open p) then (fp_handlers p ! i)\<lparr>hd_destroyed := True\<rparr> else fp_handlers p ! i)" for i
    by (auto simp: stop_all_def nth_enumerate_eq)
  have "fp_rel p' ?ph" using rel by (auto simp: fp_rel_def hs nth) (auto simp: handler_ok_def)
  with spec_run_kills [OF live] outs show ?thesis by blast
qed

lemma sim_step:
  assumes rel: "fp_rel p ph" and step: "fp_step u sha t0 e p = (p', outs)"
  shows "\<exists>ph'. spec_run fp_spec ph outs = Some ph' \<and> fp_rel p' ph'"
proof (cases e)
  case (Arrives r now)
  with rel step sim_accept show ?thesis by (cases "fp_closed p") (auto split: if_splits)
next
  case (BodyRead i b now)
  with step have "on_handler i (at_stage (\<lambda>g. g = Reading) (\<lambda>h. after_body u i now (h\<lparr>hd_body := b\<rparr>))) p = (p', outs)" by simp
  moreover have "lawful i q (at_stage (\<lambda>g. g = Reading) (\<lambda>h. after_body u i now (h\<lparr>hd_body := b\<rparr>)) h)" if "handler_ok h q" for h q
    using that by (intro lawful_at_stage lawful_after_body) (simp_all add: handler_ok_def)
  ultimately show ?thesis using sim_on_handler [OF rel] by blast
next
  case (BodyFails i)
  with step have "on_handler i (at_stage (\<lambda>g. g = Reading) (kill i)) p = (p', outs)" by simp
  from sim_on_handler [OF rel _ this] show ?thesis by (simp add: lawful_at_stage lawful_kill)
next
  case (Fires i now)
  with step have "on_handler i (timer_fired u i now) p = (p', outs)" by simp
  from sim_on_handler [OF rel lawful_timer this] show ?thesis .
next
  case (UpAnswers i up now)
  with step have "on_handler i (at_stage (\<lambda>g. g = Fetching) (upstream_answered i now up)) p = (p', outs)" by simp
  from sim_on_handler [OF rel _ this] show ?thesis by (simp add: lawful_at_stage lawful_relay)
next
  case (UpFails i msg now)
  with step have "on_handler i (at_stage (\<lambda>g. g = Fetching) (upstream_failed i now msg)) p = (p', outs)" by simp
  from sim_on_handler [OF rel _ this] show ?thesis by (simp add: lawful_at_stage lawful_relay)
next
  case (Gone i)
  with step obtain p1 where p1: "on_handler i (on_gone i) p = (p1, outs)" "p' = p1\<lparr>fp_open := filter (\<lambda>j. j \<noteq> i) (fp_open p1)\<rparr>"
    by (auto split: prod.splits)
  from sim_on_handler [OF rel lawful_gone p1(1)] obtain ph' where "spec_run fp_spec ph outs = Some ph'" "fp_rel p1 ph'" by blast
  then show ?thesis by (intro exI [of _ ph']) (simp add: fp_rel_def p1(2))
qed (use rel step sim_stop in \<open>auto simp: fp_rel_def\<close>)

interpretation fault_sim: simulation "fp_step u sha t0" fp_spec fp_rel
  by unfold_locales (rule sim_step)


subsection \<open>The log under a fixed script\<close>

text \<open>What of a request's log entry never changes after its arrival: action, numbers and path.\<close>

definition entry_row :: "handler \<Rightarrow> fault_action \<times> int \<times> int \<times> string" where
  "entry_row h = (hd_action h, sn_n (hd_entry h), sn_k (hd_entry h), sn_path (hd_entry h))"

abbreviation row_action :: "fault_action \<times> int \<times> int \<times> string \<Rightarrow> fault_action" where
  "row_action \<equiv> fst"

abbreviation row_n :: "fault_action \<times> int \<times> int \<times> string \<Rightarrow> int" where
  "row_n x \<equiv> fst (snd x)"

abbreviation row_k :: "fault_action \<times> int \<times> int \<times> string \<Rightarrow> int" where
  "row_k x \<equiv> fst (snd (snd x))"

abbreviation row_path :: "fault_action \<times> int \<times> int \<times> string \<Rightarrow> string" where
  "row_path x \<equiv> snd (snd (snd x))"

definition log_rows :: "fault_proxy \<Rightarrow> (fault_action \<times> int \<times> int \<times> string) list" where
  "log_rows p = map (\<lambda>i. entry_row (fp_handlers p ! i)) (fp_seen p)"

text \<open>The paths requested since the log was last cleared, while the proxy listens.\<close>

fun arrivals :: "bool \<Rightarrow> string list \<Rightarrow> fp_event list \<Rightarrow> string list" where
  "arrivals cl acc [] = acc"
| "arrivals cl acc (Arrives r now # es) =
     arrivals cl (if cl then acc else acc @ [case in_url r of None \<Rightarrow> ''/'' | Some u \<Rightarrow> u]) es"
| "arrivals cl acc (ResetLog # es) = arrivals cl [] es"
| "arrivals cl acc (Stop # es) = arrivals True acc es"
| "arrivals cl acc (_ # es) = arrivals cl acc es"

text \<open>The action the j-th governed request is due.\<close>

definition scripted :: "fault_action list \<Rightarrow> fault_action \<Rightarrow> nat \<Rightarrow> fault_action" where
  "scripted faults rest j = (if j < length faults then faults ! j else rest)"

definition rows_ok :: "(string \<Rightarrow> bool) \<Rightarrow> fault_action list \<Rightarrow> fault_action \<Rightarrow> (fault_action \<times> int \<times> int \<times> string) list \<Rightarrow> bool" where
  "rows_ok flt faults rest rs =
     (let gs = filter (\<lambda>x. flt (row_path x)) rs
      in map row_n rs = map int [0..<length rs] \<and>
         map row_k gs = map int [0..<length gs] \<and>
         map row_action gs = map (scripted faults rest) [0..<length gs] \<and>
         list_all (\<lambda>x. flt (row_path x) \<or> row_k x = -1 \<and> row_action x = FPass None None) rs)"

definition log_inv :: "(string \<Rightarrow> bool) \<Rightarrow> fault_action list \<Rightarrow> fault_action \<Rightarrow> fault_proxy \<Rightarrow> bool" where
  "log_inv flt faults rest p =
     (fp_filter p = flt \<and> fp_script p = sequence faults rest \<and>
      (\<forall>i \<in> set (fp_seen p). i < length (fp_handlers p)) \<and>
      fp_n p = int (length (log_rows p)) \<and>
      fp_k p = int (length (filter (\<lambda>x. flt (row_path x)) (log_rows p))) \<and>
      rows_ok flt faults rest (log_rows p))"

lemma rows_ok_snoc:
  assumes "rows_ok flt faults rest rs"
    and "row_n x = int (length rs)"
    and "flt (row_path x) \<Longrightarrow> row_k x = int (length (filter (\<lambda>x. flt (row_path x)) rs)) \<and>
           row_action x = scripted faults rest (length (filter (\<lambda>x. flt (row_path x)) rs))"
    and "\<not> flt (row_path x) \<Longrightarrow> row_k x = -1 \<and> row_action x = FPass None None"
  shows "rows_ok flt faults rest (rs @ [x])"
  using assms by (cases "flt (row_path x)") (simp_all add: rows_ok_def Let_def)

text \<open>No continuation of a handler touches its row.\<close>

lemma row_write: "entry_row (fst (write_answer i now st hs b h)) = entry_row h"
  by (simp add: write_answer_def entry_row_def)

lemma row_act: "entry_row (fst (act_now u i now h)) = entry_row h"
  by (simp add: act_now_def send_upstream_def row_write split: fault_action.splits) (simp add: entry_row_def)

lemma row_after_body: "entry_row (fst (after_body u i now h)) = entry_row h"
  by (simp add: after_body_def row_act split: fault_action.splits option.splits) (simp add: entry_row_def)

lemma row_relay: "entry_row (fst (relay i now up h)) = entry_row h"
  by (simp add: relay_def Let_def row_write split: option.splits) (simp add: entry_row_def)

lemma row_answered: "entry_row (fst (upstream_answered i now up h)) = entry_row h"
  by (simp add: upstream_answered_def row_relay split: option.splits) (simp add: entry_row_def)

lemma row_failed: "entry_row (fst (upstream_failed i now msg h)) = entry_row h"
  by (simp add: upstream_failed_def row_write)

lemma row_timer: "entry_row (fst (timer_fired u i now h)) = entry_row h"
  by (simp add: timer_fired_def row_relay row_act split: stage.splits)

lemma row_gone: "entry_row (fst (on_gone i h)) = entry_row h"
  by (simp add: on_gone_def entry_row_def)

lemma row_kill: "entry_row (fst (kill i h)) = entry_row h"
  by (simp add: kill_def entry_row_def)

lemma row_at_stage: "entry_row (fst (f h)) = entry_row h \<Longrightarrow> entry_row (fst (at_stage g f h)) = entry_row h"
  by (simp add: at_stage_def)

lemma row_body: "entry_row (fst (after_body u i now (h\<lparr>hd_body := b\<rparr>))) = entry_row h"
  by (simp add: row_after_body) (simp add: entry_row_def)

lemmas row_moves = row_at_stage row_body row_answered row_failed row_timer row_gone row_kill

text \<open>Two states with the same counters, references and rows have the same log.\<close>

definition same_log :: "fault_proxy \<Rightarrow> fault_proxy \<Rightarrow> bool" where
  "same_log p p' =
     (fp_n p' = fp_n p \<and> fp_k p' = fp_k p \<and> fp_seen p' = fp_seen p \<and> fp_filter p' = fp_filter p \<and>
      fp_script p' = fp_script p \<and> map entry_row (fp_handlers p') = map entry_row (fp_handlers p))"

lemma same_log_rows:
  assumes "same_log p p'" "\<forall>i \<in> set (fp_seen p). i < length (fp_handlers p)"
  shows "log_rows p' = log_rows p"
proof -
  have len: "length (fp_handlers p') = length (fp_handlers p)" using assms(1) map_eq_imp_length_eq by (fastforce simp: same_log_def)
  have "entry_row (fp_handlers p' ! i) = entry_row (fp_handlers p ! i)" if "i < length (fp_handlers p)" for i
    using that len assms(1) nth_map [of i "fp_handlers p" entry_row] nth_map [of i "fp_handlers p'" entry_row] by (simp add: same_log_def)
  with assms show ?thesis by (simp add: log_rows_def same_log_def)
qed

lemma same_log_inv: "same_log p p' \<Longrightarrow> log_inv flt faults rest p \<Longrightarrow> log_inv flt faults rest p' \<and> log_rows p' = log_rows p"
  using same_log_rows [of p p'] map_eq_imp_length_eq [of entry_row "fp_handlers p'" entry_row "fp_handlers p"]
  by (auto simp: log_inv_def same_log_def)

lemma same_on_handler: "(\<And>h. entry_row (fst (f h)) = entry_row h) \<Longrightarrow> same_log p (fst (on_handler i f p))"
  by (auto simp: same_log_def on_handler_def map_update list_update_same_conv split: prod.splits)
     (metis fst_conv list_update_id nth_map length_map)

lemma same_stop: "same_log p (fst (stop_all p))"
proof -
  have "map entry_row (fp_handlers (fst (stop_all p))) = map entry_row (fp_handlers p)"
    by (rule nth_equalityI) (auto simp: stop_all_def nth_enumerate_eq, simp_all add: entry_row_def)
  then show ?thesis by (simp add: same_log_def stop_all_def)
qed

lemma arrivals_step: "arrivals cl acc (e # es) = arrivals (cl \<or> e = Stop) (arrivals cl acc [e]) es"
  by (cases e) auto

lemma closed_on_handler: "fp_closed (fst (on_handler i f p)) = fp_closed p"
  by (simp add: on_handler_def split: prod.splits)

lemma accept_log:
  assumes inv: "log_inv flt faults rest p"
  shows "log_inv flt faults rest (fst (accept u sha t0 r now p))"
    and "map row_path (log_rows (fst (accept u sha t0 r now p))) =
      map row_path (log_rows p) @ [case in_url r of None \<Rightarrow> ''/'' | Some u \<Rightarrow> u]"
    and "fp_closed (fst (accept u sha t0 r now p)) = fp_closed p"
proof -
  let ?p = "fst (accept u sha t0 r now p)"
  let ?path = "case in_url r of None \<Rightarrow> ''/'' | Some u \<Rightarrow> u"
  define h where "h = new_handler sha t0 r now p"
  define h' where "h' = fst (if no_body (hd_method h) then after_body u (length (fp_handlers p)) now h else (h, []))"
  have row: "entry_row h' = entry_row h" by (simp add: h'_def row_after_body)
  have p: "fp_handlers ?p = fp_handlers p @ [h']" "fp_seen ?p = fp_seen p @ [length (fp_handlers p)]"
    "fp_n ?p = fp_n p + 1" "fp_k ?p = (if fp_filter p (hd_path h) then fp_k p + 1 else fp_k p)"
    "fp_filter ?p = fp_filter p" "fp_script ?p = fp_script p" "fp_closed ?p = fp_closed p"
    by (simp_all add: accept_def Let_def h_def h'_def split: prod.splits)
  have rows: "log_rows ?p = log_rows p @ [entry_row h]"
    using inv by (simp add: log_rows_def p row nth_append log_inv_def)
  have h: "hd_path h = ?path" "row_path (entry_row h) = ?path" "row_n (entry_row h) = fp_n p"
    "row_k (entry_row h) = (if fp_filter p ?path then fp_k p else -1)"
    "fp_filter p ?path \<Longrightarrow> fp_script p = sequence faults rest \<Longrightarrow> 0 \<le> fp_k p \<Longrightarrow> row_action (entry_row h) = scripted faults rest (nat (fp_k p))"
    "\<not> fp_filter p ?path \<Longrightarrow> row_action (entry_row h) = FPass None None"
    by (auto simp: h_def new_handler_def entry_row_def Let_def sequence_def scripted_def)
  have "rows_ok flt faults rest (log_rows p @ [entry_row h])"
    by (rule rows_ok_snoc) (use inv h in \<open>auto simp: log_inv_def\<close>)
  then show "log_inv flt faults rest ?p"
    using inv h(1,2) by (auto simp: log_inv_def rows p)
  show "map row_path (log_rows ?p) = map row_path (log_rows p) @ [?path]" using h(2) by (simp add: rows)
  show "fp_closed ?p = fp_closed p" by (rule p)
qed

lemma step_log:
  assumes inv: "log_inv flt faults rest p" and e: "\<not> (\<exists>s f. e = SetScript s f)"
  shows "log_inv flt faults rest (fst (fp_step u sha t0 e p)) \<and>
    map row_path (log_rows (fst (fp_step u sha t0 e p))) = arrivals (fp_closed p) (map row_path (log_rows p)) [e] \<and>
    fp_closed (fst (fp_step u sha t0 e p)) = (fp_closed p \<or> e = Stop)"
proof (cases "(\<exists>r now. e = Arrives r now) \<or> e = ResetLog \<or> e = Stop")
  case True
  then consider (arrives) r now where "e = Arrives r now" | (clear) "e = ResetLog" | (stop) "e = Stop" by blast
  then show ?thesis
  proof cases
    case arrives
    with inv accept_log [OF inv, of u sha t0 r now] show ?thesis by (cases "fp_closed p") simp_all
  next
    case clear
    with inv show ?thesis by (simp add: log_inv_def rows_ok_def log_rows_def)
  next
    case stop
    with same_log_inv [OF same_stop inv] show ?thesis by (simp add: stop_all_def)
  qed
next
  case False
  have "same_log p (fst (fp_step u sha t0 e p)) \<and> fp_closed (fst (fp_step u sha t0 e p)) = fp_closed p"
  proof (cases e)
    case (Gone i)
    have "same_log p (fst (on_handler i (on_gone i) p))" "fp_closed (fst (on_handler i (on_gone i) p)) = fp_closed p"
      by (simp_all add: same_on_handler row_gone closed_on_handler)
    with Gone show ?thesis by (simp add: same_log_def case_prod_beta)
  qed (use False e in \<open>auto intro!: same_on_handler simp: row_moves closed_on_handler\<close>)
  moreover have "arrivals (fp_closed p) acc [e] = acc" for acc using False by (cases e) auto
  ultimately show ?thesis using same_log_inv [OF _ inv] False by auto
qed

lemma run_log:
  "log_inv flt faults rest p \<Longrightarrow> list_all (\<lambda>e. \<not> (\<exists>s f. e = SetScript s f)) es \<Longrightarrow>
   log_inv flt faults rest (fst (run_steps (fp_step u sha t0) es p)) \<and>
   map row_path (log_rows (fst (run_steps (fp_step u sha t0) es p))) = arrivals (fp_closed p) (map row_path (log_rows p)) es"
proof (induction es arbitrary: p)
  case (Cons e es)
  let ?p = "fst (fp_step u sha t0 e p)"
  from Cons.prems have s: "log_inv flt faults rest ?p" "map row_path (log_rows ?p) = arrivals (fp_closed p) (map row_path (log_rows p)) [e]"
    "fp_closed ?p = (fp_closed p \<or> e = Stop)" using step_log [of flt faults rest p e u sha t0] by auto
  have "fst (run_steps (fp_step u sha t0) (e # es) p) = fst (run_steps (fp_step u sha t0) es ?p)"
    by (simp add: Let_def split: prod.splits)
  with Cons.IH [OF s(1)] Cons.prems(2) s(2,3) show ?case by (simp add: arrivals_step [of _ _ e es] del: run_steps.simps)
qed simp

text \<open>As long as its script stays, every request is logged once and in order of arrival, numbered
  from zero since the last reset; the requests the filter selects are numbered on their own, and the
  j-th of them gets the j-th fault of the sequence, the later ones the rest action; all others pass.
  Responses, timers and disconnects in between change none of this.\<close>

lemma sequence_applied:
  assumes "list_all (\<lambda>e. \<not> (\<exists>s f. e = SetScript s f)) es"
  shows "let rs = log_rows (fst (run_steps (fp_step u sha t0) es (startFaultProxy (Some (sequence faults rest)) (Some flt))))
    in rows_ok flt faults rest rs \<and> map row_path rs = arrivals False [] es"
proof -
  have "log_inv flt faults rest (startFaultProxy (Some (sequence faults rest)) (Some flt))"
    by (simp add: log_inv_def startFaultProxy_def log_rows_def rows_ok_def)
  from run_log [OF this assms] show ?thesis by (simp add: log_inv_def Let_def startFaultProxy_def log_rows_def)
qed

definition demo_get :: "string \<Rightarrow> fp_event" where
  "demo_get path = Arrives \<lparr>in_method = Some ''GET'', in_url = Some path, in_headers = []\<rparr> 0"

definition demo_events :: "fp_event list" where
  "demo_events = [demo_get ''/a'', ResetLog, demo_get ''/rest/v1/a'', demo_get ''/auth'', Gone 1, demo_get ''/rest/v1/b'', demo_get ''/rest/v1/c'']"

end
