(* ===== verification/Raw_Http.thy ===== *)
theory Raw_Http
  imports Connfault Slots
begin

text \<open>
  \<open>experiments/replica-routing/lib/rr04.ts\<close>: reading an HTTP/1.1 response off a socket. A buffer is the
  list of its bytes, read as Latin-1. The loop that removes the chunk framing moves an index by the
  size a line announces, and that size may be negative: it is a partial function, and not returning
  is the value \<open>None\<close>.
\<close>

subsection \<open>Buffers and numbers\<close>

text \<open>A negative index counts from the end; an index past the end is the end.\<close>

definition buf_pos :: "'a list \<Rightarrow> int \<Rightarrow> nat" where
  "buf_pos b i = (if i < 0 then nat (int (length b) + i) else min (length b) (nat i))"

definition buf_slice :: "'a list \<Rightarrow> int \<Rightarrow> int \<Rightarrow> 'a list" where
  "buf_slice b s e = take (buf_pos b e - buf_pos b s) (drop (buf_pos b s) b)"

definition index_from :: "string \<Rightarrow> string \<Rightarrow> int \<Rightarrow> int option" where
  "index_from p b i = map_option (\<lambda>n. int (n + buf_pos b i)) (index_str p (drop (buf_pos b i) b))"

text \<open>\<open>parseInt(s, 16)\<close>: a sign, a prefix \<open>0x\<close> and the longest run of hexadecimal digits; \<open>None\<close> for \<open>NaN\<close>.\<close>

definition parse_int16 :: "string \<Rightarrow> int option" where
  "parse_int16 s =
     (let s1 = trim_start s;
          neg = starts_with s1 ''-'';
          s2 = (if neg \<or> starts_with s1 ''+'' then drop 1 s1 else s1);
          s3 = (if starts_with s2 ''0x'' \<or> starts_with s2 ''0X'' then drop 2 s2 else s2);
          ds = takeWhile is_hex s3
      in if ds = [] then None else Some (if neg then - int (read_hex ds) else int (read_hex ds)))"

subsection \<open>Chunked bodies\<close>

definition chunk_size :: "string \<Rightarrow> int option" where
  "chunk_size line = parse_int16 (trim (hd (split_char CHR '';'' line)))"

partial_function (option) dechunk_from :: "string \<Rightarrow> int \<Rightarrow> string \<Rightarrow> string option" where
  "dechunk_from b i out =
     (if i < int (length b) then
        (case index_from crlf b i of
           None \<Rightarrow> Some out
         | Some eol \<Rightarrow>
             (case chunk_size (buf_slice b i eol) of
                None \<Rightarrow> Some out
              | Some sz \<Rightarrow>
                  if sz = 0 then Some out
                  else dechunk_from b (eol + 2 + sz + 2) (out @ buf_slice b (eol + 2) (eol + 2 + sz))))
      else Some out)"

definition dechunk :: "string \<Rightarrow> string option" where
  "dechunk b = dechunk_from b 0 []"

subsection \<open>Responses\<close>

record raw_http =
  rh_statusLine :: string
  rh_status :: jsnum
  rh_headers :: "(string \<times> string) list"
  rh_body :: string

text \<open>\<open>l.slice(0, c)\<close> and \<open>l.slice(c + 1)\<close> with \<open>c\<close> the position of the colon, or -1: then the name
  loses its last character and the value is the whole line.\<close>

definition header_line :: "string \<Rightarrow> string \<times> string" where
  "header_line l =
     (case index_of CHR '':'' l of
        Some c \<Rightarrow> (to_lower (trim (take c l)), trim (drop (c + 1) l))
      | None \<Rightarrow> (to_lower (trim (butlast l)), trim l))"

definition is_chunked :: "(string \<times> string) list \<Rightarrow> bool" where
  "is_chunked hs = list_ex (\<lambda>(k, v). k = ''transfer-encoding'' \<and> str_includes (to_lower v) ''chunked'') hs"

definition status_of_line :: "string \<Rightarrow> jsnum" where
  "status_of_line l = (case split_char CHR '' '' l of _ # w # _ \<Rightarrow> or_zero (to_number w) | _ \<Rightarrow> Fin 0)"

definition parseRawHttp :: "string \<Rightarrow> raw_http option" where
  "parseRawHttp raw =
     (case index_str header_end raw of
        None \<Rightarrow> Some \<lparr>rh_statusLine = take 80 raw, rh_status = Fin 0, rh_headers = [], rh_body = []\<rparr>
      | Some e \<Rightarrow>
          (let lines = split_crlf (take e raw);
               statusLine = hd lines;
               headers = map header_line (drop 1 lines);
               rest = drop (e + 4) raw;
               resp = (\<lambda>body. \<lparr>rh_statusLine = statusLine, rh_status = status_of_line statusLine, rh_headers = headers, rh_body = body\<rparr>)
           in if is_chunked headers then map_option resp (dechunk rest) else Some (resp rest)))"

definition headerNames :: "(string \<times> string) list \<Rightarrow> string list" where
  "headerNames h = sort_by code_unit_cmp (uniq (map (\<lambda>(k, v). to_lower k) h))"

subsection \<open>Well-formed bodies\<close>

text \<open>
  A chunk as a server may frame it: the size in hexadecimal digits of either case, leading zeros
  allowed, an extension after a semicolon, and the data. The last chunk has size zero; what follows
  it are trailers.
\<close>

record chunk =
  ck_size :: string
  ck_ext :: string
  ck_data :: string

definition ext_ok :: "string \<Rightarrow> bool" where
  "ext_ok e = ((e = [] \<or> hd e = CHR '';'') \<and> CHR 0x0D \<notin> set e)"

definition size_line :: "string \<Rightarrow> nat \<Rightarrow> bool" where
  "size_line h n = (h \<noteq> [] \<and> list_all is_hex h \<and> read_hex h = n)"

definition chunk_ok :: "chunk \<Rightarrow> bool" where
  "chunk_ok c = (size_line (ck_size c) (length (ck_data c)) \<and> ext_ok (ck_ext c) \<and> ck_data c \<noteq> [])"

definition enc_chunk :: "chunk \<Rightarrow> string" where
  "enc_chunk c = ck_size c @ ck_ext c @ crlf @ ck_data c @ crlf"

lemma hex_plain: "is_hex c \<Longrightarrow> \<not> is_ws c \<and> c \<noteq> CHR '';'' \<and> c \<noteq> CHR ''-'' \<and> c \<noteq> CHR ''+'' \<and> c \<noteq> CHR ''x'' \<and> c \<noteq> CHR ''X'' \<and> c \<noteq> CHR 0x0D"
  using hex_not_ws [of c] by (auto simp: is_hex_def hex_val_def)

lemma index_crlf: "CHR 0x0D \<notin> set w \<Longrightarrow> index_str crlf (w @ crlf @ t) = Some (length w)"
  by (induction w) (auto simp: crlf_def)

lemma index_crlf_from:
  "CHR 0x0D \<notin> set w \<Longrightarrow> index_from crlf (pre @ w @ crlf @ t) (int (length pre)) = Some (int (length pre + length w))"
  by (simp add: index_from_def buf_pos_def index_crlf)

lemma slice_mid: "buf_slice (pre @ w @ t) (int (length pre)) (int (length pre + length w)) = w"
  by (simp add: buf_slice_def buf_pos_def)

lemma split_hd: "d \<notin> set h \<Longrightarrow> e = [] \<or> hd e = d \<Longrightarrow> hd (split_char d (h @ e)) = h"
proof (induction h)
  case Nil
  then show ?case by (cases e) auto
next
  case (Cons c h)
  obtain w ws where "split_char d (h @ e) = w # ws" using split_char_ne [of d "h @ e"] by (auto simp: neq_Nil_conv)
  with Cons show ?case by auto
qed

lemma split_hd_subset: "set (hd (split_char d s)) \<subseteq> set s"
proof (induction s)
  case (Cons c s)
  obtain w ws where "split_char d s = w # ws" using split_char_ne [of d s] by (auto simp: neq_Nil_conv)
  with Cons show ?case by auto
qed simp

lemma dropWhile_hex: "list_all is_hex h \<Longrightarrow> dropWhile is_ws h = h"
  using hex_plain by (cases h) auto

lemma trim_hex: "list_all is_hex h \<Longrightarrow> trim h = h" "list_all is_hex h \<Longrightarrow> trim_start h = h"
  using dropWhile_hex [of h] dropWhile_hex [of "rev h"] by (simp_all add: trim_def trim_start_def trim_end_def)

lemma parse_hex:
  assumes "h \<noteq> []" "list_all is_hex h"
  shows "parse_int16 h = Some (int (read_hex h))"
proof -
  obtain c t where h: "h = c # t" using assms(1) by (cases h) simp_all
  with assms have hex: "is_hex c" "list_all is_hex t" by simp_all
  from hex_plain [OF hex(1)] have "\<not> starts_with h ''-''" "\<not> starts_with h ''+''" by (simp_all add: h)
  moreover have "\<not> starts_with h ''0x''" "\<not> starts_with h ''0X''"
    using hex_plain hex(2) by (cases t; auto simp: h)+
  moreover have tw: "takeWhile is_hex h = h" using assms(2) by (simp add: takeWhile_eq_all_conv list_all_iff)
  ultimately show ?thesis using assms by (simp add: parse_int16_def trim_hex Let_def tw)
qed

lemma chunk_size_line:
  assumes "size_line h n" "ext_ok e"
  shows "chunk_size (h @ e) = Some (int n)"
proof -
  have "CHR '';'' \<notin> set h" using assms hex_plain by (auto simp: size_line_def list_all_iff)
  then have "hd (split_char CHR '';'' (h @ e)) = h" using assms by (intro split_hd) (auto simp: ext_ok_def)
  then show ?thesis using assms parse_hex by (simp add: chunk_size_def trim_hex size_line_def)
qed

lemma line_no_cr: "size_line h n \<Longrightarrow> ext_ok e \<Longrightarrow> CHR 0x0D \<notin> set (h @ e)"
  using hex_plain by (auto simp: size_line_def ext_ok_def list_all_iff)

text \<open>One round of the loop.\<close>

lemma dechunk_go:
  assumes "i < int (length b)" "index_from crlf b i = Some eol" "chunk_size (buf_slice b i eol) = Some sz"
  shows "dechunk_from b i out =
    (if sz = 0 then Some out else dechunk_from b (eol + 2 + sz + 2) (out @ buf_slice b (eol + 2) (eol + 2 + sz)))"
  by (subst dechunk_from.simps) (simp add: assms)

lemma dechunk_last:
  assumes "size_line z 0" "ext_ok e"
  shows "dechunk_from (pre @ z @ e @ crlf @ t) (int (length pre)) out = Some out"
proof -
  have "index_from crlf (pre @ (z @ e) @ crlf @ t) (int (length pre)) = Some (int (length pre + length (z @ e)))"
    by (rule index_crlf_from [OF line_no_cr [OF assms]])
  moreover have "chunk_size (buf_slice (pre @ (z @ e) @ crlf @ t) (int (length pre)) (int (length pre + length (z @ e)))) = Some 0"
    by (simp only: slice_mid) (use chunk_size_line [OF assms] in simp)
  ultimately have "dechunk_from (pre @ (z @ e) @ crlf @ t) (int (length pre)) out = Some out"
    using dechunk_go [of "int (length pre)" "pre @ (z @ e) @ crlf @ t" "int (length pre + length (z @ e))" 0 out]
    by (simp only: if_True) (simp add: crlf_def)
  then show ?thesis by simp
qed

lemma dechunk_step:
  assumes "chunk_ok c"
  shows "dechunk_from (pre @ enc_chunk c @ t) (int (length pre)) out =
    dechunk_from ((pre @ enc_chunk c) @ t) (int (length (pre @ enc_chunk c))) (out @ ck_data c)"
proof -
  let ?w = "ck_size c @ ck_ext c"
  let ?b = "pre @ ?w @ crlf @ ck_data c @ crlf @ t"
  have ok: "size_line (ck_size c) (length (ck_data c))" "ext_ok (ck_ext c)" "ck_data c \<noteq> []"
    using assms by (simp_all add: chunk_ok_def)
  have b: "pre @ enc_chunk c @ t = ?b" by (simp add: enc_chunk_def)
  have eol: "index_from crlf ?b (int (length pre)) = Some (int (length pre + length ?w))"
    by (rule index_crlf_from [OF line_no_cr [OF ok(1,2)]])
  have sz: "chunk_size (buf_slice ?b (int (length pre)) (int (length pre + length ?w))) = Some (int (length (ck_data c)))"
    by (simp only: slice_mid) (rule chunk_size_line [OF ok(1,2)])
  have data: "buf_slice ?b (int (length pre + length ?w) + 2) (int (length pre + length ?w) + 2 + int (length (ck_data c))) = ck_data c"
    using slice_mid [of "pre @ ?w @ crlf" "ck_data c" "crlf @ t"] by (simp add: crlf_def algebra_simps)
  have len: "int (length pre + length ?w) + 2 + int (length (ck_data c)) + 2 = int (length (pre @ enc_chunk c))"
    by (simp add: enc_chunk_def crlf_def)
  have "dechunk_from ?b (int (length pre)) out =
      dechunk_from ?b (int (length pre + length ?w) + 2 + int (length (ck_data c)) + 2)
        (out @ buf_slice ?b (int (length pre + length ?w) + 2) (int (length pre + length ?w) + 2 + int (length (ck_data c))))"
    using dechunk_go [OF _ eol sz, of out] ok(3) by (simp add: crlf_def)
  then have "dechunk_from ?b (int (length pre)) out = dechunk_from ?b (int (length (pre @ enc_chunk c))) (out @ ck_data c)"
    unfolding data len .
  then show ?thesis by (simp only: b append_assoc)
qed

lemma dechunk_run:
  assumes "list_all chunk_ok cs" "size_line z 0" "ext_ok e"
  shows "dechunk_from (pre @ concat (map enc_chunk cs) @ z @ e @ crlf @ t) (int (length pre)) out = Some (out @ concat (map ck_data cs))"
  using assms(1)
proof (induction cs arbitrary: pre out)
  case Nil
  show ?case using dechunk_last [OF assms(2,3)] by simp
next
  case (Cons c cs)
  from Cons.prems have c: "chunk_ok c" "list_all chunk_ok cs" by simp_all
  show ?case
    using dechunk_step [OF c(1), of pre "concat (map enc_chunk cs) @ z @ e @ crlf @ t" out]
      Cons.IH [OF c(2), of "pre @ enc_chunk c" "out @ ck_data c"] by simp
qed

text \<open>C20. A chunked body is decoded exactly: for every sequence of chunks, whatever their sizes, the case
  and leading zeros of the size digits, extensions and trailers, \<open>dechunk\<close> returns, and returns the
  concatenation of the data.\<close>

theorem dechunk_roundtrip:
  assumes "list_all chunk_ok cs" "size_line z 0" "ext_ok e"
  shows "dechunk (concat (map enc_chunk cs) @ z @ e @ crlf @ trailer) = Some (concat (map ck_data cs))"
  using dechunk_run [OF assms, of "[]"] by (simp add: dechunk_def)

theorem dechunk_roundtrip_witness:
  "dechunk (''5;x=1'' @ crlf @ ''hello'' @ crlf @ ''0a'' @ crlf @ ''0123456789'' @ crlf @ ''0'' @ crlf @ crlf) = Some ''hello0123456789''"
proof -
  have "list_all chunk_ok [\<lparr>ck_size = ''5'', ck_ext = '';x=1'', ck_data = ''hello''\<rparr>, \<lparr>ck_size = ''0a'', ck_ext = [], ck_data = ''0123456789''\<rparr>]"
    and "size_line ''0'' 0" "ext_ok []" by code_simp+
  from dechunk_roundtrip [OF this, of crlf] show ?thesis by (simp add: enc_chunk_def)
qed

subsection \<open>When it does not return\<close>

lemma index_str_less: "index_str p s = Some n \<Longrightarrow> n \<le> length s"
  using index_str_bound [of p s n] by simp

lemma index_from_le: "0 \<le> i \<Longrightarrow> i < int (length b) \<Longrightarrow> index_from p b i = Some eol \<Longrightarrow> i \<le> eol"
  by (auto simp: index_from_def buf_pos_def)

text \<open>With no negative size in sight every round moves forward, so the loop ends.\<close>

lemma dechunk_returns:
  assumes "\<And>i eol sz. chunk_size (buf_slice b i eol) = Some sz \<Longrightarrow> 0 \<le> sz"
  shows "0 \<le> i \<Longrightarrow> \<exists>y. dechunk_from b i out = Some y"
proof (induction "nat (int (length b) - i)" arbitrary: i out rule: less_induct)
  case less
  show ?case
  proof (cases "i < int (length b)")
    case True
    show ?thesis
    proof (cases "index_from crlf b i")
      case None
      with True show ?thesis by (subst dechunk_from.simps) simp
    next
      case (Some eol)
      with True less.prems have "i \<le> eol" using index_from_le by blast
      then have step: "\<exists>y. dechunk_from b (eol + 2 + sz + 2) o' = Some y" if "0 \<le> sz" for sz o'
        using that True less.prems by (intro less.hyps) auto
      with True Some show ?thesis
        by (subst dechunk_from.simps) (auto split: option.splits dest: assms)
    qed
  qed (subst dechunk_from.simps, simp)
qed

lemma dechunk_no_minus:
  assumes "CHR ''-'' \<notin> set b"
  shows "\<exists>y. dechunk b = Some y"
  unfolding dechunk_def
proof (rule dechunk_returns)
  fix i eol sz
  let ?l = "hd (split_char CHR '';'' (buf_slice b i eol))"
  have "set (buf_slice b i eol) \<subseteq> set b" unfolding buf_slice_def by (meson set_drop_subset set_take_subset subset_trans)
  then have "CHR ''-'' \<notin> set ?l" using assms split_hd_subset by blast
  then have "CHR ''-'' \<notin> set (trim_start (trim ?l))"
    by (auto simp: trim_def trim_start_def trim_end_def dest!: set_dropWhileD)
  then have "\<not> starts_with (trim_start (trim ?l)) ''-''" by (cases "trim_start (trim ?l)") auto
  then show "chunk_size (buf_slice b i eol) = Some sz \<Longrightarrow> 0 \<le> sz"
    by (auto simp: chunk_size_def parse_int16_def Let_def split: if_splits)
qed simp

text \<open>A size line that announces minus six bytes sends the index back to that line: the loop never ends.\<close>

definition looping_body :: string where
  "looping_body = ''-6'' @ crlf"

lemma looping_step:
  "index_from crlf looping_body 0 = Some 2" "chunk_size (buf_slice looping_body 0 2) = Some (- 6)" "length looping_body = 4"
  by code_simp+

lemma dechunk_from_loops: "dechunk_from b i out = Some y \<Longrightarrow> b = looping_body \<longrightarrow> i \<noteq> 0"
proof (rule dechunk_from.raw_induct [where P = "\<lambda>b i out y. b = looping_body \<longrightarrow> i \<noteq> 0"])
  fix f :: "string \<Rightarrow> int \<Rightarrow> string \<Rightarrow> string option" and b i out y
  assume IH: "\<And>b i out y. f b i out = Some y \<Longrightarrow> b = looping_body \<longrightarrow> i \<noteq> 0"
    and body: "(if i < int (length b) then
        (case index_from crlf b i of
           None \<Rightarrow> Some out
         | Some eol \<Rightarrow>
             (case chunk_size (buf_slice b i eol) of
                None \<Rightarrow> Some out
              | Some sz \<Rightarrow>
                  if sz = 0 then Some out
                  else f b (eol + 2 + sz + 2) (out @ buf_slice b (eol + 2) (eol + 2 + sz))))
      else Some out) = Some y"
  show "b = looping_body \<longrightarrow> i \<noteq> 0"
  proof (intro impI notI)
    assume "b = looping_body" "i = 0"
    with body looping_step have "f looping_body 0 (out @ buf_slice looping_body 4 (- 2)) = Some y" by simp
    from IH [OF this] show False by simp
  qed
qed

lemma dechunk_loops: "dechunk looping_body = None"
  using dechunk_from_loops [of looping_body 0 "[]"] by (cases "dechunk looping_body") (auto simp: dechunk_def)

end
