(* ===== verification/Replica_Routing.thy ===== *)
theory Replica_Routing
  imports Probes Raw_Http
begin

text \<open>
  The pure helpers of \<open>experiments/replica-routing/lib\<close>: \<open>rerouting.ts\<close> (which node served a tick),
  \<open>rr04.ts\<close> (sequences and read-your-writes), \<open>rr08.ts\<close> (conflicts, vacuum, stale episodes) and the
  percentile of \<open>rr.ts\<close>. Milliseconds are integers; a maximum over nothing is \<open>None\<close> for \<open>NaN\<close>.
\<close>

subsection \<open>Ticks\<close>

datatype node_kind = OnPrimary | OnReplica

definition node_str :: "node_kind \<Rightarrow> string" where
  "node_str n = (case n of OnPrimary \<Rightarrow> ''primary'' | OnReplica \<Rightarrow> ''replica'')"

record node_body =
  nb_node :: "node_kind option"
  nb_pm :: "int option"
  nb_staleMs :: "int option"
  nb_err :: "string option"

record tick =
  tk_t :: int
  tk_src :: string
  tk_status :: int
  tk_node :: "node_kind option"
  tk_pm :: "int option"
  tk_staleMs :: "int option"
  tk_err :: "string option"

definition jnum :: "json option \<Rightarrow> int option" where
  "jnum v = (case v of Some (JNum i) \<Rightarrow> Some i | _ \<Rightarrow> None)"

definition squeeze :: "string \<Rightarrow> string" where
  "squeeze s = replace_all spaces_run_re (\<lambda>_. '' '') s"

definition parseNode :: "(string \<Rightarrow> json option) \<Rightarrow> int \<Rightarrow> string \<Rightarrow> node_body" where
  "parseNode parse status body =
     (let failed = (\<lambda>e. \<lparr>nb_node = None, nb_pm = None, nb_staleMs = None, nb_err = Some e\<rparr>)
      in case parse body of
           None \<Rightarrow> failed (trim (''HTTP '' @ show_int status @ '' '' @ take 60 (trim (squeeze body))))
         | Some j \<Rightarrow>
             (case (status = 200, jget ''in_recovery'' j) of
                (True, Some (JBool r)) \<Rightarrow>
                  \<lparr>nb_node = Some (if r then OnReplica else OnPrimary), nb_pm = jnum (jget ''pm'' j),
                   nb_staleMs = jnum (jget ''stale_ms'' j), nb_err = None\<rparr>
              | _ \<Rightarrow>
                  let code = take 60 (squeeze (js_string_opt (coalesce (jget ''code'' j) (coalesce (jget ''message'' j)
                        (coalesce (jget ''error'' j) (coalesce (jget ''msg'' j) (Some (JStr []))))))))
                  in failed (if code \<noteq> [] then ''HTTP '' @ show_int status @ '' '' @ code else ''HTTP '' @ show_int status)))"

definition label :: "tick \<Rightarrow> string" where
  "label k =
     (case tk_node k of Some n \<Rightarrow> node_str n
      | None \<Rightarrow> (case tk_err k of Some e \<Rightarrow> e | None \<Rightarrow> ''HTTP '' @ show_int (tk_status k)))"

definition stale_or_0 :: "tick \<Rightarrow> int" where
  "stale_or_0 k = (case tk_staleMs k of Some s \<Rightarrow> s | None \<Rightarrow> 0)"

definition max_of :: "int list \<Rightarrow> int option" where
  "max_of xs = (if xs = [] then None else Some (Max (set xs)))"

record ms_span =
  sp_startT :: int
  sp_endT :: int
  sp_maxStaleMs :: int

definition lagWindow :: "tick list \<Rightarrow> string \<Rightarrow> int \<Rightarrow> ms_span option" where
  "lagWindow ticks src thresholdMs =
     (let lagging = filter (\<lambda>k. tk_src k = src \<and> tk_node k = Some OnReplica \<and> stale_or_0 k > thresholdMs) ticks
      in if lagging = [] then None
         else Some \<lparr>sp_startT = tk_t (hd lagging), sp_endT = tk_t (last lagging), sp_maxStaleMs = Max (set (map stale_or_0 lagging))\<rparr>)"

record served =
  sv_n :: nat
  sv_replica :: nat
  sv_primary :: nat
  sv_errors :: nat
  sv_maxStaleReplicaMs :: "int option"
  sv_replicaStale :: nat
  sv_firstPrimaryT :: "int option"
  sv_lastReplicaT :: "int option"
  sv_firstErrorT :: "int option"
  sv_lastErrorT :: "int option"

definition first_t :: "tick list \<Rightarrow> int option" where
  "first_t ks = (if ks = [] then None else Some (tk_t (hd ks)))"

definition last_t :: "tick list \<Rightarrow> int option" where
  "last_t ks = (if ks = [] then None else Some (tk_t (last ks)))"

text \<open>The threshold is absent for \<open>Infinity\<close>: no staleness exceeds it.\<close>

definition servedDuring :: "tick list \<Rightarrow> string \<Rightarrow> int \<Rightarrow> int \<Rightarrow> int option \<Rightarrow> served" where
  "servedDuring ticks src from to threshold =
     (let ks = filter (\<lambda>k. tk_src k = src \<and> from \<le> tk_t k \<and> tk_t k \<le> to) ticks;
          rep = filter (\<lambda>k. tk_node k = Some OnReplica) ks;
          pri = filter (\<lambda>k. tk_node k = Some OnPrimary) ks;
          errs = filter (\<lambda>k. tk_node k = None) ks
      in \<lparr>sv_n = length ks, sv_replica = length rep, sv_primary = length pri, sv_errors = length errs,
          sv_maxStaleReplicaMs = max_of (map stale_or_0 rep),
          sv_replicaStale = length (filter (\<lambda>k. case threshold of None \<Rightarrow> False | Some m \<Rightarrow> stale_or_0 k > m) rep),
          sv_firstPrimaryT = first_t pri, sv_lastReplicaT = last_t rep,
          sv_firstErrorT = first_t errs, sv_lastErrorT = last_t errs\<rparr>)"

fun trans_loop :: "string \<Rightarrow> tick list \<Rightarrow> (int \<times> string \<times> string) list" where
  "trans_loop prev [] = []"
| "trans_loop prev (k # ks) = (if label k \<noteq> prev then [(tk_t k, prev, label k)] else []) @ trans_loop (label k) ks"

definition transitions :: "tick list \<Rightarrow> string \<Rightarrow> (int \<times> string \<times> string) list" where
  "transitions ticks src = trans_loop ''start'' (filter (\<lambda>k. tk_src k = src) ticks)"

definition bucket_ticks :: "tick list \<Rightarrow> string \<Rightarrow> int \<Rightarrow> int \<Rightarrow> tick list" where
  "bucket_ticks ticks s b sizeMs = filter (\<lambda>k. tk_src k = s \<and> b \<le> tk_t k \<and> tk_t k < b + sizeMs) ticks"

definition bucket_part :: "string \<Rightarrow> tick list \<Rightarrow> string" where
  "bucket_part s ks =
     (let r = length (filter (\<lambda>k. tk_node k = Some OnReplica) ks);
          p = length (filter (\<lambda>k. tk_node k = Some OnPrimary) ks);
          st = List.map_filter tk_staleMs ks
      in s @ '' R'' @ show_nat r @ '' P'' @ show_nat p @ '' E'' @ show_int (int (length ks) - int r - int p) @
         (case max_of st of None \<Rightarrow> [] | Some m \<Rightarrow> '' max '' @ show_int m @ ''ms''))"

definition bucket_line :: "tick list \<Rightarrow> string list \<Rightarrow> int \<Rightarrow> int \<Rightarrow> string list" where
  "bucket_line ticks srcs sizeMs b =
     (let parts = map (\<lambda>s. bucket_part s (bucket_ticks ticks s b sizeMs)) (filter (\<lambda>s. bucket_ticks ticks s b sizeMs \<noteq> []) srcs)
      in if parts = [] then [] else [''+'' @ show_int ((b + 500) div 1000) @ ''s '' @ join '' | '' parts])"

text \<open>The loop counts up from 0 to the last tick; with a size that is not positive it would not end.\<close>

definition bucket_starts :: "int \<Rightarrow> int \<Rightarrow> int list option" where
  "bucket_starts lastT sizeMs =
     (if lastT < 0 then Some [] else if sizeMs \<le> 0 then None
      else Some (map (\<lambda>i. int i * sizeMs) [0..<nat (lastT div sizeMs) + 1]))"

definition buckets :: "tick list \<Rightarrow> string list \<Rightarrow> int \<Rightarrow> string list option" where
  "buckets ticks srcs sizeMs =
     (if ticks = [] then Some []
      else map_option (\<lambda>bs. concat (map (bucket_line ticks srcs sizeMs) bs)) (bucket_starts (Max (set (map tk_t ticks))) sizeMs))"

definition errorModes :: "tick list \<Rightarrow> string \<Rightarrow> string list" where
  "errorModes ticks src =
     foldl (\<lambda>out k. if tk_src k = src \<and> tk_node k = None \<and> label k \<notin> set out then out @ [label k] else out) [] ticks"

subsection \<open>Sequences and read-your-writes\<close>

text \<open>The loop's variables: switches, the current run, the longest one, and the previous letter.\<close>

fun seq_loop :: "nat \<times> nat \<times> nat \<Rightarrow> char option \<Rightarrow> string \<Rightarrow> nat \<times> nat" where
  "seq_loop (sw, run, mx) prev [] = (sw, mx)"
| "seq_loop (sw, run, mx) prev (c # s) =
     (let sw' = (if prev \<noteq> None \<and> prev \<noteq> Some c then sw + 1 else sw);
          run' = (if prev = Some c then run + 1 else 1)
      in seq_loop (sw', run', max mx run') (Some c) s)"

definition seqStats :: "string \<Rightarrow> nat \<times> nat" where
  "seqStats s = seq_loop (0, 0, 0) None s"

definition errorSpan :: "tick list \<Rightarrow> string \<Rightarrow> (int \<times> int \<times> nat) option" where
  "errorSpan ticks src =
     (let e = filter (\<lambda>k. tk_src k = src \<and> tk_node k = None) ticks
      in if e = [] then None else Some (tk_t (hd e), tk_t (last e), length e))"

definition pct :: "'a::linorder list \<Rightarrow> rat \<Rightarrow> 'a option" where
  "pct xs p =
     (if xs = [] then None
      else Some (sort xs ! nat (min (int (length xs) - 1) (max 0 (\<lceil>p / 100 * of_nat (length xs)\<rceil> - 1)))))"

record ryw_try =
  ry_node :: "node_kind option"
  ry_seen :: "bool option"
  ry_postMs :: int
  ry_getMs :: int
  ry_untilSeenMs :: "int option"
  ry_err :: "string option"
  ry_retries :: "int option"
  ry_replayAgeMs :: "int option"

definition num_or_none :: "int option \<Rightarrow> cell" where
  "num_or_none x = (case x of None \<Rightarrow> StrC ''none'' | Some i \<Rightarrow> NumC i)"

definition rywSummary :: "ryw_try list \<Rightarrow> cell obj" where
  "rywSummary tries =
     (let rep = filter (\<lambda>t. ry_node t = Some OnReplica) tries;
          pri = filter (\<lambda>t. ry_node t = Some OnPrimary) tries;
          stale = filter (\<lambda>t. ry_seen t = Some False) rep;
          til = List.map_filter ry_untilSeenMs stale
      in [(''n'', NumC (int (length tries))),
          (''replica'', NumC (int (length rep))),
          (''primary'', NumC (int (length pri))),
          (''errors'', NumC (int (length (filter (\<lambda>t. ry_node t = None) tries)))),
          (''stale'', NumC (int (length stale))),
          (''stale_of_replica_reads'', StrC (show_nat (length stale) @ '' of '' @ show_nat (length rep))),
          (''primary_unseen'', NumC (int (length (filter (\<lambda>t. ry_seen t = Some False) pri)))),
          (''until_seen_max_ms'', num_or_none (max_of til)),
          (''until_seen_p50_ms'', num_or_none (pct til 50)),
          (''post_p50_ms'', num_or_none (pct (map ry_postMs tries) 50)),
          (''get_p50_ms'', num_or_none (pct (map ry_getMs tries) 50))])"

subsection \<open>Hot-standby conflicts\<close>

record vacuum_tuples =
  vt_removed :: nat
  vt_remain :: nat
  vt_notRemovable :: nat
  vt_cutoffAgeXids :: "nat option"

definition digits_grp :: "nat \<Rightarrow> re" where
  "digits_grp k = Grp k (Plus (Cls is_digit))"

definition tuples_re :: re where
  "tuples_re = Seqs [Lit ''tuples: '', digits_grp 1, Lit '' removed, '', digits_grp 2, Lit '' remain, '', digits_grp 3,
     Lit '' are dead but not yet removable'']"

definition cutoff_re :: re where
  "cutoff_re = Seqs [Lit ''removable cutoff: '', Plus (Cls is_digit), Lit '', which was '', digits_grp 1, Lit '' XIDs old'']"

definition num_of_group :: "nat \<Rightarrow> pos \<times> pos \<Rightarrow> nat" where
  "num_of_group k m = (case group k m of Some s \<Rightarrow> read_nat s | None \<Rightarrow> 0)"

definition parseVacuumVerbose :: "string \<Rightarrow> vacuum_tuples option" where
  "parseVacuumVerbose text =
     map_option (\<lambda>m. \<lparr>vt_removed = num_of_group 1 m, vt_remain = num_of_group 2 m, vt_notRemovable = num_of_group 3 m,
         vt_cutoffAgeXids = map_option (num_of_group 1) (re_exec cutoff_re text)\<rparr>) (re_exec tuples_re text)"

datatype read_kind = ReadOk | Read40001 | Read57014 | ReadOther

record read_class =
  rc_kind :: read_kind
  rc_node :: "node_kind option"
  rc_serverMs :: "int option"
  rc_staleMs :: "int option"
  rc_text :: "string option"

definition full_strings :: "json option list \<Rightarrow> string list" where
  "full_strings vs = List.map_filter (\<lambda>v. case v of Some (JStr s) \<Rightarrow> if s = [] then None else Some s | _ \<Rightarrow> None) vs"

definition read_failed :: "read_kind \<Rightarrow> string \<Rightarrow> read_class" where
  "read_failed k t = \<lparr>rc_kind = k, rc_node = None, rc_serverMs = None, rc_staleMs = None, rc_text = Some t\<rparr>"

definition classifyRead :: "(string \<Rightarrow> json option) \<Rightarrow> int \<Rightarrow> string \<Rightarrow> string option \<Rightarrow> read_class" where
  "classifyRead parse status body fetchErr =
     (if status = 0 then read_failed ReadOther (take 120 (''fetch '' @ (case fetchErr of None \<Rightarrow> ''failed'' | Some e \<Rightarrow> e)))
      else let j = (case parse body of Some v \<Rightarrow> if jtruthy v then Some v else None | None \<Rightarrow> None);
               get = (\<lambda>k. Option.bind j (jget k))
           in case (status = 200, get ''in_recovery'') of
                (True, Some (JBool r)) \<Rightarrow>
                  \<lparr>rc_kind = ReadOk, rc_node = Some (if r then OnReplica else OnPrimary), rc_serverMs = jnum (get ''ms''),
                   rc_staleMs = jnum (get ''stale_ms''), rc_text = None\<rparr>
              | _ \<Rightarrow>
                  (let code = (if j = None then [] else js_string_opt (coalesce (get ''code'') (Some (JStr []))))
                   in if code = ''40001'' \<or> code = ''57014''
                      then read_failed (if code = ''40001'' then Read40001 else Read57014)
                             (join '' / '' (full_strings [get ''message'', get ''details'']))
                      else let t = (if j = None then body else join '' '' (full_strings [Some (JStr code), get ''message'', get ''details'']))
                           in read_failed ReadOther (take 120 (trim (''HTTP '' @ show_int status @ '' '' @ trim (squeeze t))))))"

fun episodes_loop :: "int \<Rightarrow> ms_span option \<Rightarrow> (int \<times> int) list \<Rightarrow> ms_span list" where
  "episodes_loop th cur [] = (case cur of None \<Rightarrow> [] | Some c \<Rightarrow> [c])"
| "episodes_loop th cur ((t, stale) # ps) =
     (if stale > th then
        episodes_loop th
          (Some (case cur of
             None \<Rightarrow> \<lparr>sp_startT = t, sp_endT = t, sp_maxStaleMs = stale\<rparr>
           | Some c \<Rightarrow> c\<lparr>sp_endT := t, sp_maxStaleMs := max (sp_maxStaleMs c) stale\<rparr>)) ps
      else (case cur of None \<Rightarrow> [] | Some c \<Rightarrow> [c]) @ episodes_loop th None ps)"

definition staleEpisodes :: "(int \<times> int) list \<Rightarrow> int \<Rightarrow> ms_span list" where
  "staleEpisodes points thresholdMs = episodes_loop thresholdMs None points"

definition round_to :: "rat \<Rightarrow> nat \<Rightarrow> rat" where
  "round_to n d = of_int (js_round (n * 10 ^ d)) / 10 ^ d"

definition statsOf :: "rat list \<Rightarrow> nat \<Rightarrow> nat \<times> rat option \<times> rat option \<times> rat option" where
  "statsOf xs d =
     (if xs = [] then (0, None, None, None)
      else (length xs, map_option (\<lambda>x. round_to x d) (pct xs 50), map_option (\<lambda>x. round_to x d) (pct xs 95), Some (round_to (Max (set xs)) d)))"

text \<open>\<open>Object.entries\<close>: keys that are array indices come first, in ascending order.\<close>

definition is_index :: "string \<Rightarrow> bool" where
  "is_index k = (k \<noteq> [] \<and> list_all is_digit k \<and> (k = ''0'' \<or> hd k \<noteq> CHR ''0'') \<and> read_nat k < 4294967295)"

definition obj_entries :: "'v obj \<Rightarrow> 'v obj" where
  "obj_entries m =
     sort_by (\<lambda>a b. int (read_nat (fst a)) - int (read_nat (fst b))) (filter (\<lambda>e. is_index (fst e)) m) @
     filter (\<lambda>e. \<not> is_index (fst e)) m"

definition tallyBy :: "string list \<Rightarrow> string" where
  "tallyBy keys =
     (let e = sort_by (\<lambda>a b. int (snd b) - int (snd a)) (obj_entries (foldl count_key [] keys))
      in if e = [] then ''none'' else join '', '' (map (\<lambda>(k, n). k @ '' x'' @ show_nat n) e))"

subsection \<open>Counting loses nothing\<close>

lemma node_cases: "length (filter (\<lambda>k. f k = Some OnReplica) ks) + length (filter (\<lambda>k. f k = Some OnPrimary) ks) +
    length (filter (\<lambda>k. f k = None) ks) = length ks"
proof (induction ks)
  case (Cons k ks)
  then show ?case by (cases "f k"; cases "the (f k)") auto
qed simp

lemma served_total:
  "sv_replica (servedDuring ticks src a b th) + sv_primary (servedDuring ticks src a b th) + sv_errors (servedDuring ticks src a b th) =
   sv_n (servedDuring ticks src a b th) \<and>
   sv_replicaStale (servedDuring ticks src a b th) \<le> sv_replica (servedDuring ticks src a b th)"
  using node_cases [of tk_node "filter (\<lambda>k. tk_src k = src \<and> a \<le> tk_t k \<and> tk_t k \<le> b) ticks"]
  by (simp add: servedDuring_def Let_def del: filter_filter)

text \<open>The transitions chain: each starts where the one before ended, and together they read the labels
  with repetitions removed.\<close>

lemma trans_loop_labels:
  "prev # map (\<lambda>x. snd (snd x)) (trans_loop prev ks) = remdups_adj (prev # map label ks)"
proof (induction ks arbitrary: prev)
  case (Cons k ks)
  then show ?case by (cases "label k = prev") (simp_all add: remdups_adj_Cons_alt)
qed simp

lemma trans_loop_chain: "map (\<lambda>x. fst (snd x)) (trans_loop prev ks) = butlast (prev # map (\<lambda>x. snd (snd x)) (trans_loop prev ks))"
  by (induction ks arbitrary: prev) auto

lemma transitions_exact:
  "''start'' # map (\<lambda>x. snd (snd x)) (transitions ticks src) = remdups_adj (''start'' # map label (filter (\<lambda>k. tk_src k = src) ticks)) \<and>
   map (\<lambda>x. fst (snd x)) (transitions ticks src) = butlast (''start'' # map (\<lambda>x. snd (snd x)) (transitions ticks src))"
  using trans_loop_labels [of "''start''"] trans_loop_chain [of "''start''"] by (simp add: transitions_def)

text \<open>Every tick at or after the phase's start is in exactly one bucket.\<close>

lemma bucket_index:
  assumes "sz > 0" "t \<ge> 0"
  shows "int i * sz \<le> t \<and> t < int i * sz + sz \<longleftrightarrow> i = nat (t div sz)"
proof
  assume a: "int i * sz \<le> t \<and> t < int i * sz + sz"
  then have "t div sz = int i" by (intro int_div_pos_eq [of _ _ _ "t - int i * sz"]) (use assms in \<open>auto simp: algebra_simps\<close>)
  then show "i = nat (t div sz)" by simp
next
  assume "i = nat (t div sz)"
  then have "int i = t div sz" using assms by (simp add: pos_imp_zdiv_nonneg_iff)
  moreover have "t = t div sz * sz + t mod sz" by simp
  moreover have "0 \<le> t mod sz" "t mod sz < sz" using assms(1) by simp_all
  ultimately have "int i * sz + t mod sz = t" "0 \<le> t mod sz" "t mod sz < sz" by auto
  then show "int i * sz \<le> t \<and> t < int i * sz + sz" by linarith
qed

lemma filter_upt_single: "m < n \<Longrightarrow> filter (\<lambda>i. i = m) [0..<n] = [m]"
  by (induction n) (auto simp: less_Suc_eq filter_empty_conv)

lemma buckets_partition:
  assumes "sz > 0" "k \<in> set ticks" "tk_t k \<ge> 0" "tk_src k = s"
    and "bucket_starts (Max (set (map tk_t ticks))) sz = Some bs"
  shows "filter (\<lambda>b. k \<in> set (bucket_ticks ticks s b sz)) bs = [tk_t k div sz * sz]"
proof -
  let ?M = "Max (set (map tk_t ticks))"
  have le: "tk_t k \<le> ?M" using assms(2) by (intro Max_ge) auto
  then have "\<not> ?M < 0" "\<not> sz \<le> 0" using assms(1,3) by linarith+
  with assms(5) have bs: "bs = map (\<lambda>i. int i * sz) [0..<nat (?M div sz) + 1]" unfolding bucket_starts_def by (simp only: if_False option.inject)
  have m: "nat (tk_t k div sz) < nat (?M div sz) + 1" using le assms(1,3) by (simp add: zdiv_mono1 nat_mono le_imp_less_Suc)
  have "filter (\<lambda>b. k \<in> set (bucket_ticks ticks s b sz)) bs = map (\<lambda>i. int i * sz) (filter (\<lambda>i. i = nat (tk_t k div sz)) [0..<nat (?M div sz) + 1])"
    using assms(2,4) by (simp add: bs filter_map o_def bucket_ticks_def bucket_index [OF assms(1,3)] del: upt_Suc)
  also have "filter (\<lambda>i. i = nat (tk_t k div sz)) [0..<nat (?M div sz) + 1] = [nat (tk_t k div sz)]"
    using m by (intro filter_upt_single)
  finally show ?thesis using assms(1,3) by (simp add: pos_imp_zdiv_nonneg_iff)
qed

text \<open>One switch per change, whatever the letters.\<close>

lemma seq_loop_switches:
  "fst (seq_loop (sw, run, mx) (Some c) s) = sw + (length (remdups_adj (c # s)) - 1)"
proof (induction s arbitrary: sw run mx c)
  case (Cons d s)
  have "length (remdups_adj (d # s)) \<ge> 1" by (simp add: Suc_le_eq)
  with Cons show ?case by (cases "c = d") (auto simp: Let_def remdups_adj_Cons_alt)
qed simp

lemma seqStats_switches: "fst (seqStats s) = length (remdups_adj s) - 1"
  by (cases s) (auto simp: seqStats_def seq_loop_switches Let_def)

text \<open>
  The stale episodes are exactly the stretches of stale points: on points in strictly increasing
  order of time, a point is stale if and only if some episode spans it, and the episodes are
  disjoint and in order.
\<close>

definition in_span :: "int \<Rightarrow> ms_span \<Rightarrow> bool" where
  "in_span t c = (sp_startT c \<le> t \<and> t \<le> sp_endT c)"

lemma episodes_start:
  assumes "sorted_wrt (<) (map fst ps)" "\<forall>p \<in> set ps. l < fst p"
  shows "(case cur of None \<Rightarrow> True | Some c \<Rightarrow> sp_startT c \<le> sp_endT c \<and> sp_endT c \<le> l) \<Longrightarrow>
    sorted_wrt (\<lambda>c d. sp_endT c < sp_startT d) (episodes_loop th cur ps) \<and>
    (\<forall>c \<in> set (episodes_loop th cur ps). sp_startT c \<le> sp_endT c \<and>
       (case cur of None \<Rightarrow> l < sp_startT c | Some d \<Rightarrow> sp_startT d \<le> sp_startT c)) \<and>
    (case cur of None \<Rightarrow> True | Some d \<Rightarrow>
       sp_startT (hd (episodes_loop th cur ps)) = sp_startT d \<and> sp_endT d \<le> sp_endT (hd (episodes_loop th cur ps)) \<and> episodes_loop th cur ps \<noteq> [])"
  using assms
proof (induction ps arbitrary: cur l)
  case Nil
  then show ?case by (cases cur) auto
next
  case (Cons p ps)
  obtain t v where p: "p = (t, v)" by (cases p)
  from Cons.prems have t: "l < t" "sorted_wrt (<) (map fst ps)" "\<forall>q \<in> set ps. t < fst q" by (auto simp: p)
  show ?case
  proof (cases "v > th")
    case True
    let ?d = "case cur of None \<Rightarrow> \<lparr>sp_startT = t, sp_endT = t, sp_maxStaleMs = v\<rparr>
           | Some c \<Rightarrow> c\<lparr>sp_endT := t, sp_maxStaleMs := max (sp_maxStaleMs c) v\<rparr>"
    have "sp_startT ?d \<le> sp_endT ?d" "sp_endT ?d = t" using Cons.prems(1) t(1) by (auto split: option.splits)
    with Cons.IH [of t "Some ?d"] t(2,3) Cons.prems(1) t(1) True show ?thesis
      by (cases cur) (force simp: p)+
  next
    case False
    from Cons.IH [of t None] t(2,3) have "sorted_wrt (\<lambda>c d. sp_endT c < sp_startT d) (episodes_loop th None ps)"
      "\<forall>c \<in> set (episodes_loop th None ps). sp_startT c \<le> sp_endT c \<and> t < sp_startT c" by auto
    with False Cons.prems(1) t(1) show ?thesis by (cases cur) (force simp: p)+
  qed
qed

lemma episodes_cover:
  assumes "sorted_wrt (<) (map fst ps)"
  shows "(case cur of None \<Rightarrow> True | Some c \<Rightarrow> sp_startT c \<le> sp_endT c \<and> (\<forall>p \<in> set ps. sp_endT c < fst p)) \<Longrightarrow>
    p \<in> set ps \<Longrightarrow> snd p > th \<longleftrightarrow> list_ex (in_span (fst p)) (episodes_loop th cur ps)"
  using assms
proof (induction ps arbitrary: cur)
  case (Cons q ps)
  obtain t v where q: "q = (t, v)" by (cases q)
  from Cons.prems(3) have s: "sorted_wrt (<) (map fst ps)" "\<forall>r \<in> set ps. t < fst r" by (auto simp: q)
  have old: "\<not> in_span (fst p) c" if "cur = Some c" for c using Cons.prems(1,2) that by (auto simp: in_span_def)
  show ?case
  proof (cases "v > th")
    case True
    define d where "d = (case cur of None \<Rightarrow> \<lparr>sp_startT = t, sp_endT = t, sp_maxStaleMs = v\<rparr>
           | Some c \<Rightarrow> c\<lparr>sp_endT := t, sp_maxStaleMs := max (sp_maxStaleMs c) v\<rparr>)"
    have d: "sp_startT d \<le> sp_endT d" "sp_endT d = t" using Cons.prems(1) by (auto simp: d_def q split: option.splits)
    have loop: "episodes_loop th cur (q # ps) = episodes_loop th (Some d) ps" using True by (simp add: q d_def)
    show ?thesis
    proof (cases "p = q")
      case True
      from episodes_start [OF s(1) s(2), of "Some d" th] d
      have "in_span t (hd (episodes_loop th (Some d) ps))" "episodes_loop th (Some d) ps \<noteq> []" by (auto simp: in_span_def)
      then have "list_ex (in_span t) (episodes_loop th (Some d) ps)" by (auto simp: list_ex_iff)
      with True \<open>v > th\<close> show ?thesis by (simp only: loop) (simp add: q)
    next
      case False
      with Cons.prems(2) have "p \<in> set ps" by simp
      with Cons.IH [of "Some d"] d s show ?thesis by (simp only: loop) simp
    qed
  next
    case False
    have loop: "episodes_loop th cur (q # ps) = (case cur of None \<Rightarrow> [] | Some c \<Rightarrow> [c]) @ episodes_loop th None ps"
      using False by (simp add: q)
    have drop: "list_ex (in_span (fst p)) (episodes_loop th cur (q # ps)) \<longleftrightarrow> list_ex (in_span (fst p)) (episodes_loop th None ps)"
      using old by (simp only: loop) (auto split: option.splits)
    show ?thesis
    proof (cases "p = q")
      case True
      from episodes_start [OF s(1) s(2), of None th] have "\<not> list_ex (in_span t) (episodes_loop th None ps)"
        by (auto simp: in_span_def list_ex_iff)
      then show ?thesis unfolding drop using True False by (simp add: q)
    next
      case other: False
      with Cons.prems(2) have "p \<in> set ps" by simp
      with Cons.IH [of None] s show ?thesis by (simp only: drop) simp
    qed
  qed
qed simp

lemma staleEpisodes_exact:
  assumes "sorted_wrt (<) (map fst points)"
  shows "\<forall>p \<in> set points. snd p > th \<longleftrightarrow> list_ex (in_span (fst p)) (staleEpisodes points th)"
    and "sorted_wrt (\<lambda>c d. sp_endT c < sp_startT d) (staleEpisodes points th)"
proof -
  show "\<forall>p \<in> set points. snd p > th \<longleftrightarrow> list_ex (in_span (fst p)) (staleEpisodes points th)"
    using episodes_cover [OF assms, of None] by (simp add: staleEpisodes_def)
  show "sorted_wrt (\<lambda>c d. sp_endT c < sp_startT d) (staleEpisodes points th)"
  proof (cases points)
    case (Cons p ps)
    with assms have "\<forall>q \<in> set points. fst p - 1 < fst q" by auto
    from episodes_start [OF assms this, of None th] show ?thesis by (simp add: staleEpisodes_def)
  qed (simp add: staleEpisodes_def)
qed

end
