(* ===== verification/Stats.thy ===== *)
theory Stats
  imports Host_Pause "HOL-Library.Word"
begin

unbundle bit_operations_syntax

text \<open>
  \<open>experiments/sqlite-edge-compare/lib/stats.ts\<close>: percentiles and summaries, the separation rule, the
  round-robin schedule and the seeded generator. Samples are rationals, \<open>None\<close> is \<open>NaN\<close>; the
  generator works on 32-bit words, as \<open>>>> 0\<close> and \<open>Math.imul\<close> make it.
\<close>

definition rat_diff :: "rat \<Rightarrow> rat \<Rightarrow> int" where
  "rat_diff a b = (if a < b then -1 else if a > b then 1 else 0)"

definition percentile :: "rat list \<Rightarrow> rat \<Rightarrow> rat option" where
  "percentile xs p =
     (if xs = [] then None
      else let s = sort_by rat_diff xs;
               h = of_nat (length s - 1) * (min 100 (max 0 p) / 100);
               lo = nat \<lfloor>h\<rfloor>; hi = nat \<lceil>h\<rceil>
           in Some (s ! lo + (s ! hi - s ! lo) * (h - of_nat lo)))"

record summary =
  su_n :: nat
  su_dropped :: nat
  su_min :: "rat option"
  su_p25 :: "rat option"
  su_p50 :: "rat option"
  su_p75 :: "rat option"
  su_p95 :: "rat option"
  su_p99 :: "rat option"
  su_max :: "rat option"
  su_mean :: "rat option"

definition r2 :: "rat option \<Rightarrow> rat option" where
  "r2 x = map_option (\<lambda>v. of_int (js_round (v * 100)) / 100) x"

fun best_of :: "(rat \<Rightarrow> rat \<Rightarrow> rat) \<Rightarrow> rat list \<Rightarrow> rat option" where
  "best_of f [] = None"
| "best_of f (x # xs) = Some (foldl f x xs)"

definition summarize :: "rat list \<Rightarrow> nat \<Rightarrow> summary" where
  "summarize xs warmup =
     (let kept = drop (min warmup (length xs)) xs
      in \<lparr>su_n = length kept, su_dropped = length xs - length kept,
          su_min = r2 (best_of min kept),
          su_p25 = r2 (percentile kept 25), su_p50 = r2 (percentile kept 50), su_p75 = r2 (percentile kept 75),
          su_p95 = r2 (percentile kept 95), su_p99 = r2 (percentile kept 99),
          su_max = r2 (best_of max kept),
          su_mean = r2 (if kept = [] then None else Some (sum_list kept / of_nat (length kept)))\<rparr>)"

datatype side = SideA | SideB

definition less_opt :: "rat option \<Rightarrow> rat option \<Rightarrow> bool" where
  "less_opt a b = (case (a, b) of (Some x, Some y) \<Rightarrow> x < y | _ \<Rightarrow> False)"

definition separated :: "summary \<Rightarrow> summary \<Rightarrow> side option" where
  "separated a b =
     (if less_opt (su_p75 a) (su_p25 b) then Some SideA else if less_opt (su_p75 b) (su_p25 a) then Some SideB else None)"

definition summaryColumns :: "string \<Rightarrow> summary \<Rightarrow> rat option obj" where
  "summaryColumns prefix s =
     map (\<lambda>(k, v). (prefix @ ''_'' @ k, v))
       [(''n'', Some (of_nat (su_n s))), (''dropped'', Some (of_nat (su_dropped s))), (''min'', su_min s), (''p25'', su_p25 s),
        (''p50'', su_p50 s), (''p75'', su_p75 s), (''p95'', su_p95 s), (''p99'', su_p99 s), (''max'', su_max s), (''mean'', su_mean s)]"

record 'a slot =
  sl_iter :: nat
  sl_pos :: nat
  sl_item :: 'a
  sl_warmup :: bool

text \<open>\<open>rotate\<close> by any integer.\<close>

definition rotate_left :: "'a list \<Rightarrow> int \<Rightarrow> 'a list" where
  "rotate_left xs k = (if xs = [] then [] else let n = nat (k mod int (length xs)) in drop n xs @ take n xs)"

definition roundRobin :: "'a list \<Rightarrow> nat \<Rightarrow> nat \<Rightarrow> 'a slot list" where
  "roundRobin items iterations warmup =
     (let k = length items
      in concat (map (\<lambda>i. map (\<lambda>p. \<lparr>sl_iter = i, sl_pos = p, sl_item = items ! ((i + p) mod k), sl_warmup = i < warmup\<rparr>) [0..<k])
           [0..<iterations]))"

definition interleave :: "'a list list \<Rightarrow> 'a list" where
  "interleave ls =
     (let m = foldl max 0 (map length ls)
      in concat (map (\<lambda>i. concat (map (\<lambda>l. if i < length l then [l ! i] else []) ls)) [0..<m]))"

text \<open>One draw of \<open>mulberry32\<close>: the next state and the 32 bits it gives.\<close>

definition rng_seed :: "int \<Rightarrow> 32 word" where
  "rng_seed seed = word_of_int seed"

definition rng_next :: "32 word \<Rightarrow> 32 word \<times> 32 word" where
  "rng_next a =
     (let a' = a + 0x6d2b79f5;
          t = (a' XOR drop_bit 15 a') * (a' OR 1);
          t' = t XOR (t + (t XOR drop_bit 7 t) * (t OR 61))
      in (a', t' XOR drop_bit 14 t'))"

definition rng_value :: "32 word \<Rightarrow> rat" where
  "rng_value w = of_nat (unat w) / 4294967296"

subsection \<open>Fairness and bounds\<close>

lemma rng_bounds: "0 \<le> rng_value w \<and> rng_value w < 1"
proof -
  have b: "unat w < 4294967296" using unsigned_less [of w, where 'a = nat] by simp
  have "0 \<le> of_nat n / (4294967296 :: rat) \<and> of_nat n / (4294967296 :: rat) < 1" if "n < 4294967296" for n
  proof -
    from that have "(of_nat n :: rat) < of_nat 4294967296" by (simp only: of_nat_less_iff)
    then show ?thesis by simp
  qed
  from this [OF b] show ?thesis by (simp only: rng_value_def)
qed

text \<open>A draw never depends on more than the 32 bits of the state, and the state walks all words: the step is a bijection.\<close>

lemma rng_state_step: "inj (\<lambda>a. fst (rng_next a))"
  by (auto simp: inj_def rng_next_def Let_def)

lemma roundRobin_length: "length (roundRobin items n w) = n * length items"
  by (simp add: roundRobin_def Let_def length_concat comp_def sum_list_triv)

text \<open>Round \<open>i\<close> is the items rotated by \<open>i\<close>.\<close>

lemma roundRobin_round:
  assumes "i < n"
  shows "map sl_item (filter (\<lambda>s. sl_iter s = i) (roundRobin items n w)) = rotate_left items (int i)"
proof (cases "items = []")
  case False
  let ?k = "length items"
  have c: "filter (\<lambda>s. sl_iter s = i) (roundRobin items n w) =
      map (\<lambda>p. \<lparr>sl_iter = i, sl_pos = p, sl_item = items ! ((i + p) mod ?k), sl_warmup = i < w\<rparr>) [0..<?k]" (is "_ = ?row i")
  proof -
    have f: "filter (\<lambda>s. sl_iter s = i)
        (map (\<lambda>p. \<lparr>sl_iter = j, sl_pos = p, sl_item = items ! ((j + p) mod ?k), sl_warmup = j < w\<rparr>) [0..<?k]) =
        (if j = i then ?row i else [])" for j
      by (auto simp: filter_map comp_def)
    have "concat (map (\<lambda>j. if j = i then ?row i else []) [0..<n]) = ?row i" using assms
    proof (induction n)
      case (Suc n)
      have z: "\<not> i < n \<Longrightarrow> concat (map (\<lambda>j. if j = i then ?row i else []) [0..<n]) = []" by auto
      show ?case using Suc z by (cases "i < n") (auto simp: less_Suc_eq)
    qed simp
    then show ?thesis by (simp add: roundRobin_def Let_def filter_concat comp_def f)
  qed
  have nth: "rotate_left items (int i) ! p = items ! ((i + p) mod ?k)" if "p < ?k" for p
  proof -
    have "nat (int i mod int ?k) = i mod ?k" by (simp add: nat_mod_as_int)
    then have r: "rotate_left items (int i) = rotate (i mod ?k) items"
      using False by (simp add: rotate_left_def Let_def rotate_drop_take)
    show ?thesis unfolding r using that by (simp add: nth_rotate add.commute mod_simps)
  qed
  have "length (rotate_left items (int i)) = ?k" using False by (simp add: rotate_left_def Let_def)
  then show ?thesis unfolding c by (intro nth_equalityI) (simp_all add: nth)
qed (simp add: roundRobin_def rotate_left_def)

text \<open>No item is favoured: over as many rounds as there are items, each position sees each item once.\<close>

lemma roundRobin_fair:
  assumes "p < length items" "distinct items"
  shows "distinct (map sl_item (filter (\<lambda>s. sl_pos s = p) (roundRobin items (length items) w)))"
proof -
  let ?k = "length items"
  have f: "filter (\<lambda>s. sl_pos s = p)
      (map (\<lambda>q. \<lparr>sl_iter = j, sl_pos = q, sl_item = items ! ((j + q) mod ?k), sl_warmup = j < w\<rparr>) [0..<?k]) =
      [\<lparr>sl_iter = j, sl_pos = p, sl_item = items ! ((j + p) mod ?k), sl_warmup = j < w\<rparr>]" for j
  proof -
    have "p < n \<Longrightarrow> filter (\<lambda>q. q = p) [0..<n] = [p]" for n
      by (induction n) (auto simp: filter_empty_conv less_Suc_eq)
    with assms(1) have "filter (\<lambda>q. q = p) [0..<?k] = [p]" by blast
    then show ?thesis by (simp add: filter_map comp_def)
  qed
  have e: "map sl_item (filter (\<lambda>s. sl_pos s = p) (roundRobin items ?k w)) = map (\<lambda>j. items ! ((j + p) mod ?k)) [0..<?k]"
    by (simp add: roundRobin_def Let_def filter_concat comp_def f map_concat)
  have "inj_on (\<lambda>j. (j + p) mod ?k) {0..<?k}"
  proof (rule inj_onI)
    fix x y
    assume "x \<in> {0..<?k}" "y \<in> {0..<?k}" "(x + p) mod ?k = (y + p) mod ?k"
    then show "x = y" by (simp add: mod_add_cong nat_mod_eq_iff) (metis add_right_cancel mod_add_right_eq mod_less nat_mod_eq_iff)
  qed
  then have "inj_on (\<lambda>j. items ! ((j + p) mod ?k)) {0..<?k}"
  proof (rule comp_inj_on [of _ _ "(!) items", unfolded comp_def])
    have "0 < ?k" using assms(1) by linarith
    then have "(\<lambda>j. (j + p) mod ?k) ` {0..<?k} \<subseteq> {0..<?k}" by auto
    moreover have "inj_on ((!) items) {0..<?k}" using assms(2) by (auto simp: inj_on_def nth_eq_iff_index_eq)
    ultimately show "inj_on ((!) items) ((\<lambda>j. (j + p) mod ?k) ` {0..<?k})" by (rule inj_on_subset [rotated])
  qed
  then show ?thesis unfolding e by (simp add: distinct_map)
qed

end
