(* ===== verification/Doc_Numbers.thy ===== *)
theory Doc_Numbers
  imports Report
begin

text \<open>
  \<open>harness/src/doc-numbers.ts\<close> and \<open>harness/scripts/check-doc-numbers.ts\<close>: which lines of a write-up quote a
  measurement, and which of their figures no artifact holds. The directory listing is an argument;
  \<open>localeCompare\<close> is the parameter \<open>lc\<close>.
\<close>

definition upper_ids :: "string \<Rightarrow> string" where
  "upper_ids s = map upper_ascii s"

definition file_id_re :: re where
  "file_id_re =
     Seq Bol (Seqs [Grp 1 (Seq (Plus (Cls is_lower)) (Plus (Cls is_digit))), Lit ''-'',
       Star (Cls (\<lambda>c. of_char c \<notin> {10, 13 :: nat})), Lit ''.ts'', Eol])"

text \<open>Each directory with the files of its \<open>tests\<close>, \<open>None\<close> when it has none.\<close>

definition liveModuleBases :: "string list option list \<Rightarrow> string list" where
  "liveModuleBases dirs =
     sort_by code_unit_cmp (uniq (concat (map (\<lambda>fs. case fs of
         None \<Rightarrow> []
       | Some files \<Rightarrow> concat (map (\<lambda>f. case re_group 1 file_id_re f of
             Some i \<Rightarrow> if i \<noteq> [] \<and> \<not> ends_with f ''.test.ts'' then [upper_ids i] else []
           | None \<Rightarrow> []) files)) dirs)))"

definition base_re :: re where
  "base_re = Seq Bol (Seqs [Grp 1 (Plus (Cls is_upper)), Grp 2 (Plus (Cls is_digit)), Eol])"

fun add_prefix :: "nat \<Rightarrow> string \<Rightarrow> (nat \<times> string list) list \<Rightarrow> (nat \<times> string list) list" where
  "add_prefix w p [] = [(w, [p])]"
| "add_prefix w p ((w', ps) # m) =
     (if w' = w then (w', if p \<in> set ps then ps else ps @ [p]) # m else (w', ps) # add_prefix w p m)"

definition by_width :: "string list \<Rightarrow> (nat \<times> string list) list" where
  "by_width bases =
     foldl (\<lambda>m b. case (re_group 1 base_re b, re_group 2 base_re b) of
         (Some p, Some d) \<Rightarrow> if p \<noteq> [] \<and> d \<noteq> [] then add_prefix (length d) p m else m
       | _ \<Rightarrow> m) [] bases"

definition prefix_cmp :: "(string \<Rightarrow> string \<Rightarrow> int) \<Rightarrow> string \<Rightarrow> string \<Rightarrow> int" where
  "prefix_cmp lc a b = (let d = int (length b) - int (length a) in if d \<noteq> 0 then d else lc a b)"

definition moduleIdPattern :: "(string \<Rightarrow> string \<Rightarrow> int) \<Rightarrow> string list \<Rightarrow> re" where
  "moduleIdPattern lc bases =
     (let m = by_width bases
      in if m = [] then NotAhead Eps
         else Seqs [WordB,
                Alts (map (\<lambda>(w, ps). Seq (Alts (map Lit (sort_by (prefix_cmp lc) ps))) (Rep w (Cls is_digit))) m),
                Opt (Cls (\<lambda>c. is_lower c \<or> is_upper c)), Opt (Cls is_digit), WordB])"

definition measured_re :: re where
  "measured_re = Seqs [WordB, LitI ''measured'', WordB]"

definition isMeasuredLine :: "string \<Rightarrow> re \<Rightarrow> bool" where
  "isMeasuredLine line ids = (re_test measured_re line \<or> re_test ids line)"

definition notAFigure :: "string \<Rightarrow> bool" where
  "notAFigure n =
     (re_test (Seq Bol (Seqs [Alt (Lit ''19'') (Lit ''20''), Rep 2 (Cls is_digit), Eol])) n \<or>
      re_test (Seq Bol (Seqs [Cls is_digit, Opt (Cls is_digit), Eol])) n \<or>
      re_test (Seq Bol (Seqs [Cls (\<lambda>c. c \<in> set ''12345''), Rep 2 (Cls is_digit), Eol])) n)"

definition hex_letter :: "char \<Rightarrow> bool" where
  "hex_letter c = (c \<in> set ''abcdef'')"

definition hex_low_char :: "char \<Rightarrow> bool" where
  "hex_low_char c = (is_digit c \<or> hex_letter c)"

definition NOT_FIGURES :: "re list" where
  "NOT_FIGURES =
     [Seqs [Lit ''run-'', Rep 4 (Cls is_digit), Lit ''-'', Rep 2 (Cls is_digit), Lit ''-'', Rep 2 (Cls is_digit), Lit ''T'',
        Plus (Cls (\<lambda>c. is_digit c \<or> c = CHR ''-'')), Lit ''Z''],
      Seqs [WordB, Ahead (Seq (Star (Cls hex_low_char)) (Cls hex_letter)), Ahead (Seq (Star (Cls hex_low_char)) (Cls is_digit)),
        Rep 7 (Cls hex_low_char), UpTo 33 (Cls hex_low_char), WordB],
      Seqs [WordB, Plus (Cls is_digit), Lit ''.'', Plus (Cls is_digit), Lit ''.'', Plus (Cls is_digit), WordB]]"

definition figuresOnLine :: "string \<Rightarrow> string list" where
  "figuresOnLine line =
     (let t = foldl (\<lambda>t r. replace_all r (\<lambda>_. '' '') t) line NOT_FIGURES
      in filter (\<lambda>n. \<not> notAFigure n)
           (uniq (map (\<lambda>m. no_commas (matched m)) (re_matches figure_re t))))"

subsection \<open>check-doc-numbers.ts\<close>

text \<open>The lines to report: their number from 1 and the figures no artifact holds.\<close>

definition missing_on :: "run_artifact list \<Rightarrow> string \<Rightarrow> string list" where
  "missing_on runs line = filter (\<lambda>n. \<not> list_ex (\<lambda>r. n \<in> numbersIn r None) runs) (figuresOnLine line)"

definition check_doc :: "re \<Rightarrow> run_artifact list \<Rightarrow> string \<Rightarrow> (nat \<times> string list) list" where
  "check_doc ids runs doc =
     concat (map (\<lambda>(i, line). if isMeasuredLine line ids \<and> missing_on runs line \<noteq> [] then [(i + 1, missing_on runs line)] else [])
       (enumerate 0 (split_char (CHR 0x0A) doc)))"

text \<open>A line is reported exactly when it quotes a figure that no artifact holds, with all of those and no other.\<close>

lemma check_doc_exact:
  "(k, ms) \<in> set (check_doc ids runs doc) \<longleftrightarrow>
   (\<exists>i line. k = i + 1 \<and> i < length (split_char (CHR 0x0A) doc) \<and> line = split_char (CHR 0x0A) doc ! i \<and>
      isMeasuredLine line ids \<and> ms = missing_on runs line \<and> ms \<noteq> [])"
  by (auto simp: check_doc_def in_set_enumerate_eq split: if_splits intro!: bexI [of _ "(k - 1, split_char (CHR 0x0A) doc ! (k - 1))"])

lemma figures_distinct: "distinct (figuresOnLine line)" "list_all (\<lambda>n. \<not> notAFigure n) (figuresOnLine line)"
  by (simp_all add: figuresOnLine_def Let_def list_all_iff)

end
