(* ===== verification/Run_Contract.thy ===== *)
theory Run_Contract
  imports Json_Text Stats
begin

text \<open>
  \<open>experiments/sqlite-edge-compare/lib/contract.ts\<close>: what a benchmark module, the probe Worker and the
  local client exchange. A request and its statements stay JSON values, as the executor passes them
  on unread; results are records. Durations are exact rationals.
\<close>

definition PREFIX :: string where
  "PREFIX = ''sec-''"

definition OPS_PER_INVOCATION :: nat where
  "OPS_PER_INVOCATION = 500"

definition MAX_CONCURRENCY :: int where
  "MAX_CONCURRENCY = 64"

definition MAX_STATEMENTS :: nat where
  "MAX_STATEMENTS = 100"

definition WORKER_BACKENDS :: "string list" where
  "WORKER_BACKENDS = [''d1'', ''turso'', ''tursodb'', ''do'', ''pg'', ''pg_cached'', ''postgrest'']"

definition LOCAL_BACKENDS :: "string list" where
  "LOCAL_BACKENDS = [''turso_http'', ''pg_pooler'', ''pg_session'', ''pg_direct'', ''d1_rest'', ''postgrest'']"

datatype run_mode = Each | Batch | Tx

definition mode_text :: "run_mode \<Rightarrow> string" where
  "mode_text m = (case m of Each \<Rightarrow> ''each'' | Batch \<Rightarrow> ''batch'' | Tx \<Rightarrow> ''tx'')"

text \<open>What one statement produced.\<close>

record stmt_out =
  ot_rowCount :: "int option"
  ot_rows :: "json list option"
  ot_meta :: "json obj option"

text \<open>One timed driver call; the statement index is -1 for a whole batch or transaction.\<close>

record op_result =
  op_inv :: nat
  op_lane :: nat
  op_i :: int
  op_stmt :: int
  op_t0 :: rat
  op_ms :: rat
  op_ok :: bool
  op_error :: "string option"
  op_out :: "stmt_out list option"

record lane_info =
  li_lane :: nat
  li_connectMs :: rat
  li_error :: "string option"

record run_response =
  rsp_ok :: bool
  rsp_error :: "string option"
  rsp_backend :: string
  rsp_mode :: run_mode
  rsp_repeat :: nat
  rsp_concurrency :: nat
  rsp_label :: "json option"
  rsp_colo :: string
  rsp_startedAt :: string
  rsp_wallMs :: rat
  rsp_lanes :: "lane_info list"
  rsp_ops :: "op_result list"
  rsp_errors :: "(string \<times> nat) list"
  rsp_driver :: "string \<times> string"

end
