(* ===== verification/Exec_Run.thy ===== *)
theory Exec_Run
  imports Run_Contract "HOL-Library.Product_Lexorder"
begin

text \<open>
  \<open>experiments/sqlite-edge-compare/lib/exec.ts\<close>: the executor both vantages share. A request is checked;
  its lanes open concurrently and pull iterations from one counter until it is exhausted. The code
  between two awaits of a lane is a step: a connection opens or fails, a driver call answers, a
  connection is closed. The drivers, the clock and the order in which lanes move are free.
\<close>

subsection \<open>Checking a request\<close>

record valid_run =
  vr_body :: json
  vr_backend :: string
  vr_statements :: "json list"
  vr_repeat :: nat
  vr_concurrency :: nat
  vr_mode :: run_mode

definition is_object :: "json \<Rightarrow> bool" where
  "is_object j = (case j of JObj _ \<Rightarrow> True | JArr _ \<Rightarrow> True | _ \<Rightarrow> False)"

definition str_of :: "json option \<Rightarrow> string option" where
  "str_of v = (case v of Some (JStr s) \<Rightarrow> Some s | _ \<Rightarrow> None)"

definition stmt_error :: "bool \<Rightarrow> nat \<Rightarrow> json \<Rightarrow> string option" where
  "stmt_error http k s =
     (let h = jget ''http'' s; at_k = ''statements['' @ show_nat k @ '']''
      in if http \<and> (str_of (Option.bind h (jget ''path'')) = None \<or> \<not> (case Option.bind h (jget ''method'') of None \<Rightarrow> False | Some m \<Rightarrow> jtruthy m))
         then Some (at_k @ ''.http.path required for postgrest'')
         else if \<not> http \<and> str_of (jget ''sql'' s) = None then Some (at_k @ ''.sql required'')
         else case jget ''params'' s of None \<Rightarrow> None
              | Some p \<Rightarrow> if jarr p = None then Some (at_k @ ''.params must be an array'') else None)"

fun first_error :: "bool \<Rightarrow> nat \<Rightarrow> json list \<Rightarrow> string option" where
  "first_error http k [] = None"
| "first_error http k (s # ss) = (case stmt_error http k s of Some e \<Rightarrow> Some e | None \<Rightarrow> first_error http (Suc k) ss)"

fun mode_of_text :: "string \<Rightarrow> run_mode option" where
  "mode_of_text s = (if s = ''each'' then Some Each else if s = ''batch'' then Some Batch else if s = ''tx'' then Some Tx else None)"

definition int_field :: "string \<Rightarrow> json \<Rightarrow> int option" where
  "int_field k b = (case coalesce (jget k b) (Some (JNum 1)) of Some (JNum n) \<Rightarrow> Some n | _ \<Rightarrow> None)"

definition flag_set :: "string \<Rightarrow> json \<Rightarrow> bool" where
  "flag_set k b = (case jget k b of None \<Rightarrow> False | Some v \<Rightarrow> jtruthy v)"

definition check_sizes :: "json \<Rightarrow> string \<Rightarrow> json list \<Rightarrow> run_mode \<Rightarrow> string + valid_run" where
  "check_sizes b backend stmts mode =
     (case int_field ''repeat'' b of
        None \<Rightarrow> Inl ''repeat must be a positive integer''
      | Some rep \<Rightarrow>
          if rep < 1 then Inl ''repeat must be a positive integer''
          else (case int_field ''concurrency'' b of
                  None \<Rightarrow> Inl (''concurrency must be an integer 1..'' @ show_int MAX_CONCURRENCY)
                | Some c \<Rightarrow>
                    if c < 1 \<or> c > MAX_CONCURRENCY then Inl (''concurrency must be an integer 1..'' @ show_int MAX_CONCURRENCY)
                    else if \<not> flag_set ''noSplit'' b \<and> rep * int (length stmts) > int OPS_PER_INVOCATION
                    then Inl (''repeat x statements > '' @ show_nat OPS_PER_INVOCATION @ '': split across invocations (runOnWorker does) or set noSplit'')
                    else Inr \<lparr>vr_body = b, vr_backend = backend, vr_statements = stmts, vr_repeat = nat rep,
                              vr_concurrency = nat c, vr_mode = mode\<rparr>))"

definition validateRunRequest :: "json option \<Rightarrow> string list \<Rightarrow> string + valid_run" where
  "validateRunRequest body backends =
     (case body of
        None \<Rightarrow> Inl ''body must be a JSON object''
      | Some b \<Rightarrow>
          if \<not> is_object b then Inl ''body must be a JSON object''
          else (case str_of (jget ''backend'' b) of
              None \<Rightarrow> Inl (''backend must be one of '' @ join ''|'' backends)
            | Some backend \<Rightarrow>
                if backend \<notin> set backends then Inl (''backend must be one of '' @ join ''|'' backends)
                else (case Option.bind (jget ''statements'' b) jarr of
                    None \<Rightarrow> Inl ''statements must be a non-empty array''
                  | Some stmts \<Rightarrow>
                      if stmts = [] then Inl ''statements must be a non-empty array''
                      else if length stmts > MAX_STATEMENTS then Inl (''at most '' @ show_nat MAX_STATEMENTS @ '' statements'')
                      else (case Option.bind (str_of (coalesce (jget ''mode'' b) (Some (JStr ''each'')))) mode_of_text of
                          None \<Rightarrow> Inl ''mode must be each|batch|tx''
                        | Some mode \<Rightarrow>
                            (case first_error (backend = ''postgrest'') 0 stmts of
                               Some e \<Rightarrow> Inl e
                             | None \<Rightarrow>
                                 if (backend = ''postgrest'' \<or> backend = ''d1_rest'') \<and> mode \<noteq> Each
                                 then Inl (backend @ '' supports mode '' @ quoted ''each'' @ '' only'')
                                 else check_sizes b backend stmts mode)))))"

subsection \<open>Errors and outputs\<close>

text \<open>What a driver throws: an \<open>Error\<close> with its code, message and cause's message, or any value as text.\<close>

datatype driver_error = DError "json option" string "string option" | DOther string

fun errText :: "driver_error \<Rightarrow> string" where
  "errText (DError code msg cause) =
     take 500 ((case code of None \<Rightarrow> [] | Some c \<Rightarrow> if jtruthy c then ''['' @ js_string c @ ''] '' else []) @ msg @
               (case cause of None \<Rightarrow> [] | Some m \<Rightarrow> '' (cause: '' @ m @ '')''))"
| "errText (DOther s) = take 500 s"

definition trim_out :: "bool \<Rightarrow> bool \<Rightarrow> jsnum \<Rightarrow> stmt_out \<Rightarrow> stmt_out" where
  "trim_out rows meta limit out =
     \<lparr>ot_rowCount = ot_rowCount out,
      ot_rows = (if rows then map_option (\<lambda>rs. take (offset (length rs) limit) rs) (ot_rows out) else None),
      ot_meta = (if meta then ot_meta out else None)\<rparr>"

definition by_count :: "(string \<times> nat) list \<Rightarrow> (string \<times> nat) list" where
  "by_count es = sort_by (\<lambda>a b. int (snd b) - int (snd a)) es"

definition error_keys :: "op_result list \<Rightarrow> lane_info list \<Rightarrow> string list" where
  "error_keys ops lanes =
     concat (map (\<lambda>x. case op_error x of None \<Rightarrow> [] | Some e \<Rightarrow> if e = [] then [] else [e]) ops) @
     concat (map (\<lambda>l. case li_error l of None \<Rightarrow> [] | Some e \<Rightarrow> if e = [] then [] else [''connect: '' @ e]) lanes)"

definition countErrors :: "op_result list \<Rightarrow> lane_info list \<Rightarrow> (string \<times> nat) list" where
  "countErrors ops lanes = by_count (tally (error_keys ops lanes))"

subsection \<open>The lanes\<close>

record exec_opts =
  xo_colo :: string
  xo_driver :: "string \<times> string"
  xo_iOffset :: int

text \<open>
  A lane waits for its connection (opened at a time), for the answer to statement \<open>k\<close> of iteration \<open>i\<close>
  (called at a time; a batch or transaction is one call), for the connection to close, or is done.
\<close>

datatype lane_state = LOpening rat | LCalling nat nat rat | LClosing | LDone

record exec_state =
  ex_next :: nat
  ex_ops :: "op_result list"
  ex_infos :: "lane_info list"
  ex_lanes :: "lane_state list"

datatype exec_event =
    Opened nat rat rat
  | OpenFails nat rat driver_error
  | Replies nat "driver_error + stmt_out list" rat rat
  | Closes nat

definition calls :: "valid_run \<Rightarrow> nat" where
  "calls r = (if vr_mode r = Each then length (vr_statements r) else 1)"

definition stmt_index :: "valid_run \<Rightarrow> nat \<Rightarrow> int" where
  "stmt_index r k = (if vr_mode r = Each then int k else -1)"

definition set_lane :: "nat \<Rightarrow> lane_state \<Rightarrow> exec_state \<Rightarrow> exec_state" where
  "set_lane j l s = s\<lparr>ex_lanes := (ex_lanes s)[j := l]\<rparr>"

text \<open>The loop head: the next iteration, or the end of the lane. With no statements the loop runs through.\<close>

definition pull :: "valid_run \<Rightarrow> nat \<Rightarrow> rat \<Rightarrow> exec_state \<Rightarrow> exec_state" where
  "pull r j now s =
     (if ex_next s < vr_repeat r then
        (if calls r = 0 then set_lane j LClosing (s\<lparr>ex_next := vr_repeat r\<rparr>)
         else set_lane j (LCalling (ex_next s) 0 now) (s\<lparr>ex_next := ex_next s + 1\<rparr>))
      else set_lane j LClosing s)"

definition request_flag :: "valid_run \<Rightarrow> string \<Rightarrow> bool \<Rightarrow> bool" where
  "request_flag r k d = (case nn (jget k (vr_body r)) of None \<Rightarrow> d | Some v \<Rightarrow> jtruthy v)"

definition rows_limit :: "valid_run \<Rightarrow> jsnum" where
  "rows_limit r = (case nn (jget ''rowsLimit'' (vr_body r)) of None \<Rightarrow> Fin 100 | Some v \<Rightarrow> js_number v)"

definition make_op :: "valid_run \<Rightarrow> exec_opts \<Rightarrow> rat \<Rightarrow> nat \<Rightarrow> nat \<Rightarrow> nat \<Rightarrow> rat \<Rightarrow> rat \<Rightarrow> driver_error + stmt_out list \<Rightarrow> op_result" where
  "make_op r opts tStart j i k t0 t1 res =
     \<lparr>op_inv = 0, op_lane = j, op_i = int i + xo_iOffset opts, op_stmt = stmt_index r k, op_t0 = t0 - tStart, op_ms = t1 - t0,
      op_ok = (case res of Inl _ \<Rightarrow> False | Inr _ \<Rightarrow> True),
      op_error = (case res of Inl e \<Rightarrow> Some (errText e) | Inr _ \<Rightarrow> None),
      op_out = (case res of Inl _ \<Rightarrow> None
        | Inr outs \<Rightarrow> Some (map (trim_out (request_flag r ''returnRows'' False) (request_flag r ''returnMeta'' True) (rows_limit r)) outs))\<rparr>"

fun exec_step :: "valid_run \<Rightarrow> exec_opts \<Rightarrow> rat \<Rightarrow> exec_state \<Rightarrow> exec_event \<Rightarrow> exec_state" where
  "exec_step r opts tStart s (Opened j t1 t2) =
     (if j < length (ex_lanes s) then
        (case ex_lanes s ! j of
           LOpening c0 \<Rightarrow> pull r j t2 (s\<lparr>ex_infos := ex_infos s @ [\<lparr>li_lane = j, li_connectMs = t1 - c0, li_error = None\<rparr>]\<rparr>)
         | _ \<Rightarrow> s)
      else s)"
| "exec_step r opts tStart s (OpenFails j t1 e) =
     (if j < length (ex_lanes s) then
        (case ex_lanes s ! j of
           LOpening c0 \<Rightarrow> set_lane j LDone (s\<lparr>ex_infos := ex_infos s @ [\<lparr>li_lane = j, li_connectMs = t1 - c0, li_error = Some (errText e)\<rparr>]\<rparr>)
         | _ \<Rightarrow> s)
      else s)"
| "exec_step r opts tStart s (Replies j res t1 t2) =
     (if j < length (ex_lanes s) then
        (case ex_lanes s ! j of
           LCalling i k t0 \<Rightarrow>
             (let s' = s\<lparr>ex_ops := ex_ops s @ [make_op r opts tStart j i k t0 t1 res]\<rparr>
              in if k + 1 < calls r then set_lane j (LCalling i (k + 1) t2) s' else pull r j t2 s')
         | _ \<Rightarrow> s)
      else s)"
| "exec_step r opts tStart s (Closes j) =
     (if j < length (ex_lanes s) \<and> ex_lanes s ! j = LClosing then set_lane j LDone s else s)"

definition exec_start :: "valid_run \<Rightarrow> (nat \<Rightarrow> rat) \<Rightarrow> exec_state" where
  "exec_start r c0 = \<lparr>ex_next = 0, ex_ops = [], ex_infos = [], ex_lanes = map (\<lambda>j. LOpening (c0 j)) [0..<vr_concurrency r]\<rparr>"

definition exec_run :: "valid_run \<Rightarrow> exec_opts \<Rightarrow> rat \<Rightarrow> (nat \<Rightarrow> rat) \<Rightarrow> exec_event list \<Rightarrow> exec_state" where
  "exec_run r opts tStart c0 es = foldl (exec_step r opts tStart) (exec_start r c0) es"

definition all_done :: "exec_state \<Rightarrow> bool" where
  "all_done s = list_all (\<lambda>l. l = LDone) (ex_lanes s)"

definition op_cmp :: "op_result \<Rightarrow> op_result \<Rightarrow> int" where
  "op_cmp = then_cmp (\<lambda>a b. op_i a - op_i b) (\<lambda>a b. op_stmt a - op_stmt b)"

definition response_of :: "valid_run \<Rightarrow> exec_opts \<Rightarrow> rat \<Rightarrow> string \<Rightarrow> rat \<Rightarrow> exec_state \<Rightarrow> run_response" where
  "response_of r opts tStart startedAt tEnd s =
     (let ops = sort_by op_cmp (ex_ops s); lanes = sort_by (\<lambda>a b. int (li_lane a) - int (li_lane b)) (ex_infos s)
      in \<lparr>rsp_ok = True, rsp_error = None, rsp_backend = vr_backend r, rsp_mode = vr_mode r, rsp_repeat = vr_repeat r,
          rsp_concurrency = vr_concurrency r,
          rsp_label = (if flag_set ''label'' (vr_body r) then jget ''label'' (vr_body r) else None),
          rsp_colo = xo_colo opts, rsp_startedAt = startedAt, rsp_wallMs = tEnd - tStart, rsp_lanes = lanes, rsp_ops = ops,
          rsp_errors = countErrors ops lanes, rsp_driver = xo_driver opts\<rparr>)"

text \<open>The run after a sequence of events: \<open>None\<close> while a lane is still busy.\<close>

definition executeRun :: "valid_run \<Rightarrow> exec_opts \<Rightarrow> rat \<Rightarrow> (nat \<Rightarrow> rat) \<Rightarrow> string \<Rightarrow> rat \<Rightarrow> exec_event list \<Rightarrow> run_response option" where
  "executeRun r opts tStart c0 startedAt tEnd es =
     (let s = exec_run r opts tStart c0 es
      in if all_done s then Some (response_of r opts tStart startedAt tEnd s) else None)"

subsection \<open>Interactive transactions\<close>

text \<open>
  The connection is a function of its own state and the text sent; the result is what the caller
  gets and the connection's state after it. A failed \<open>ROLLBACK\<close> is swallowed.
\<close>

definition sql_stmt :: "string \<Rightarrow> json" where
  "sql_stmt s = JObj [(''sql'', JStr s)]"

fun tx_body :: "('s \<Rightarrow> json \<Rightarrow> 's \<times> (driver_error + stmt_out)) \<Rightarrow> 's \<Rightarrow> json list \<Rightarrow> stmt_out list \<Rightarrow> 's \<times> (driver_error + stmt_out list)" where
  "tx_body ex c [] outs =
     (case ex c (sql_stmt ''COMMIT'') of (c', Inl e) \<Rightarrow> (fst (ex c' (sql_stmt ''ROLLBACK'')), Inl e) | (c', Inr _) \<Rightarrow> (c', Inr outs))"
| "tx_body ex c (s # ss) outs =
     (case ex c s of (c', Inl e) \<Rightarrow> (fst (ex c' (sql_stmt ''ROLLBACK'')), Inl e) | (c', Inr x) \<Rightarrow> tx_body ex c' ss (outs @ [x]))"

definition sequentialTx :: "('s \<Rightarrow> json \<Rightarrow> 's \<times> (driver_error + stmt_out)) \<Rightarrow> 's \<Rightarrow> json list \<Rightarrow> string \<Rightarrow> 's \<times> (driver_error + stmt_out list)" where
  "sequentialTx ex c stmts beg =
     (case ex c (sql_stmt beg) of (c', Inl e) \<Rightarrow> (c', Inl e) | (c', Inr _) \<Rightarrow> tx_body ex c' stmts [])"

subsection \<open>Accepted requests are well typed\<close>

definition stmt_typed :: "bool \<Rightarrow> json \<Rightarrow> bool" where
  "stmt_typed http s =
     ((if http then \<exists>h p m. jget ''http'' s = Some h \<and> jget ''path'' h = Some (JStr p) \<and> jget ''method'' h = Some m \<and> jtruthy m
       else \<exists>q. jget ''sql'' s = Some (JStr q)) \<and>
      (case jget ''params'' s of None \<Rightarrow> True | Some p \<Rightarrow> \<exists>xs. p = JArr xs))"

definition mode_typed :: "json \<Rightarrow> run_mode \<Rightarrow> bool" where
  "mode_typed b m = (case nn (jget ''mode'' b) of None \<Rightarrow> m = Each | Some x \<Rightarrow> x = JStr (mode_text m))"

text \<open>The run a request stands for: every field of its type, within the limits of one invocation.\<close>

definition well_typed_run :: "string list \<Rightarrow> json \<Rightarrow> valid_run \<Rightarrow> bool" where
  "well_typed_run backends b v =
     (vr_body v = b \<and> jget ''backend'' b = Some (JStr (vr_backend v)) \<and> vr_backend v \<in> set backends \<and>
      jget ''statements'' b = Some (JArr (vr_statements v)) \<and>
      1 \<le> length (vr_statements v) \<and> length (vr_statements v) \<le> MAX_STATEMENTS \<and>
      list_all (stmt_typed (vr_backend v = ''postgrest'')) (vr_statements v) \<and>
      mode_typed b (vr_mode v) \<and> (vr_backend v = ''postgrest'' \<or> vr_backend v = ''d1_rest'' \<longrightarrow> vr_mode v = Each) \<and>
      int_field ''repeat'' b = Some (int (vr_repeat v)) \<and> 1 \<le> vr_repeat v \<and>
      int_field ''concurrency'' b = Some (int (vr_concurrency v)) \<and> 1 \<le> vr_concurrency v \<and> int (vr_concurrency v) \<le> MAX_CONCURRENCY \<and>
      (flag_set ''noSplit'' b \<or> vr_repeat v * length (vr_statements v) \<le> OPS_PER_INVOCATION))"

lemma str_of_Some: "str_of v = Some s \<longleftrightarrow> v = Some (JStr s)"
  by (auto simp: str_of_def split: option.splits json.splits)

lemma jarr_Some: "jarr p = Some xs \<longleftrightarrow> p = JArr xs"
  by (auto simp: jarr_def split: json.splits)

lemma jget_object: "jget k b = Some v \<Longrightarrow> is_object b"
  by (cases b) (auto simp: is_object_def)

lemma stmt_error_None: "stmt_error http k s = None \<longleftrightarrow> stmt_typed http s"
proof -
  have "jarr p = None \<longleftrightarrow> (\<nexists>xs. p = JArr xs)" for p by (cases p) (auto simp: jarr_def)
  moreover have "str_of v = None \<longleftrightarrow> (\<nexists>q. v = Some (JStr q))" for v using str_of_Some [of v] by (cases "str_of v") auto
  ultimately show ?thesis
    by (cases http) (auto simp: stmt_error_def stmt_typed_def Let_def bind_eq_Some_conv split: option.splits if_splits)
qed

lemma first_error_None: "first_error http k ss = None \<longleftrightarrow> list_all (stmt_typed http) ss"
proof (induction ss arbitrary: k)
  case (Cons a ss)
  from stmt_error_None [of http k a] Cons show ?case by (cases "stmt_error http k a") auto
qed simp

lemma mode_text_of: "mode_of_text s = Some m \<longleftrightarrow> s = mode_text m"
  by (cases m) (auto simp: mode_text_def)

lemma mode_read:
  "Option.bind (str_of (coalesce (jget ''mode'' b) (Some (JStr ''each'')))) mode_of_text = Some m \<longleftrightarrow> mode_typed b m"
proof (cases "nn (jget ''mode'' b)")
  case None
  have "mode_of_text ''each'' = Some m \<longleftrightarrow> m = Each" by auto
  with None show ?thesis by (simp add: mode_typed_def coalesce_def str_of_def del: mode_of_text.simps)
next
  case (Some x)
  then show ?thesis
    by (auto simp: mode_typed_def coalesce_def bind_eq_Some_conv str_of_Some mode_text_of simp del: mode_of_text.simps)
qed

lemma check_sizes_Inr:
  "check_sizes b backend stmts mode = Inr v \<longleftrightarrow>
   (\<exists>rep c. v = \<lparr>vr_body = b, vr_backend = backend, vr_statements = stmts, vr_repeat = rep, vr_concurrency = c, vr_mode = mode\<rparr> \<and>
      int_field ''repeat'' b = Some (int rep) \<and> 1 \<le> rep \<and> int_field ''concurrency'' b = Some (int c) \<and> 1 \<le> c \<and> int c \<le> MAX_CONCURRENCY \<and>
      (flag_set ''noSplit'' b \<or> rep * length stmts \<le> OPS_PER_INVOCATION))" (is "?l \<longleftrightarrow> ?r")
proof
  assume ?l
  then obtain rep c where f: "int_field ''repeat'' b = Some rep" "\<not> rep < 1" "int_field ''concurrency'' b = Some c"
    "\<not> (c < 1 \<or> c > MAX_CONCURRENCY)" "flag_set ''noSplit'' b \<or> rep * int (length stmts) \<le> int OPS_PER_INVOCATION"
    "v = \<lparr>vr_body = b, vr_backend = backend, vr_statements = stmts, vr_repeat = nat rep, vr_concurrency = nat c, vr_mode = mode\<rparr>"
    by (auto simp: check_sizes_def not_less split: option.splits if_splits)
  then have "flag_set ''noSplit'' b \<or> int (nat rep * length stmts) \<le> int OPS_PER_INVOCATION" by simp
  then have "flag_set ''noSplit'' b \<or> nat rep * length stmts \<le> OPS_PER_INVOCATION" by (simp only: of_nat_le_iff)
  with f show ?r by (intro exI [of _ "nat rep"] exI [of _ "nat c"]) auto
next
  assume ?r
  then obtain rep c where f: "v = \<lparr>vr_body = b, vr_backend = backend, vr_statements = stmts, vr_repeat = rep, vr_concurrency = c, vr_mode = mode\<rparr>"
    "int_field ''repeat'' b = Some (int rep)" "1 \<le> rep" "int_field ''concurrency'' b = Some (int c)" "1 \<le> c" "int c \<le> MAX_CONCURRENCY"
    "flag_set ''noSplit'' b \<or> rep * length stmts \<le> OPS_PER_INVOCATION" by blast
  from f(7) have "flag_set ''noSplit'' b \<or> int (rep * length stmts) \<le> int OPS_PER_INVOCATION" by (simp only: of_nat_le_iff)
  with f show ?l by (auto simp: check_sizes_def)
qed

lemma validate_Inr:
  "validateRunRequest (Some b) backends = Inr v \<longleftrightarrow>
   (\<exists>backend stmts mode. jget ''backend'' b = Some (JStr backend) \<and> backend \<in> set backends \<and> jget ''statements'' b = Some (JArr stmts) \<and>
      stmts \<noteq> [] \<and> length stmts \<le> MAX_STATEMENTS \<and> mode_typed b mode \<and> list_all (stmt_typed (backend = ''postgrest'')) stmts \<and>
      (backend = ''postgrest'' \<or> backend = ''d1_rest'' \<longrightarrow> mode = Each) \<and> check_sizes b backend stmts mode = Inr v)" (is "?l \<longleftrightarrow> ?r")
proof
  assume l: ?l
  then obtain backend where b: "is_object b" "str_of (jget ''backend'' b) = Some backend" "backend \<in> set backends"
    by (auto simp: validateRunRequest_def split: if_splits option.splits)
  with l obtain stmts where st: "Option.bind (jget ''statements'' b) jarr = Some stmts" "stmts \<noteq> []" "length stmts \<le> MAX_STATEMENTS"
    by (auto simp: validateRunRequest_def not_less split: if_splits option.splits)
  with l b obtain mode where mo: "Option.bind (str_of (coalesce (jget ''mode'' b) (Some (JStr ''each'')))) mode_of_text = Some mode"
    by (auto simp: validateRunRequest_def not_less split: if_splits option.splits)
  with l b st have fe: "first_error (backend = ''postgrest'') 0 stmts = None"
    by (auto simp: validateRunRequest_def not_less split: if_splits option.splits)
  from l b st mo fe have "backend = ''postgrest'' \<or> backend = ''d1_rest'' \<longrightarrow> mode = Each" "check_sizes b backend stmts mode = Inr v"
    by (auto simp: validateRunRequest_def split: if_splits)
  moreover have "jget ''backend'' b = Some (JStr backend)" using b(2) by (simp only: str_of_Some)
  moreover have "jget ''statements'' b = Some (JArr stmts)" using st(1) by (auto simp: bind_eq_Some_conv jarr_Some)
  moreover have "mode_typed b mode" using mo by (simp only: mode_read)
  moreover have "list_all (stmt_typed (backend = ''postgrest'')) stmts" using fe by (simp only: first_error_None)
  ultimately show ?r using b(3) st(2,3) by blast
next
  assume ?r
  then obtain backend stmts mode where r: "jget ''backend'' b = Some (JStr backend)" "backend \<in> set backends" "jget ''statements'' b = Some (JArr stmts)"
    "stmts \<noteq> []" "length stmts \<le> MAX_STATEMENTS" "mode_typed b mode" "list_all (stmt_typed (backend = ''postgrest'')) stmts"
    "backend = ''postgrest'' \<or> backend = ''d1_rest'' \<longrightarrow> mode = Each" "check_sizes b backend stmts mode = Inr v" by blast
  have b: "is_object b" "str_of (jget ''backend'' b) = Some backend" using r(1) jget_object by (auto simp: str_of_Some)
  have st: "Option.bind (jget ''statements'' b) jarr = Some stmts" using r(3) by (simp add: jarr_def)
  have mo: "Option.bind (str_of (coalesce (jget ''mode'' b) (Some (JStr ''each'')))) mode_of_text = Some mode" using r(6) by (simp only: mode_read)
  have fe: "first_error (backend = ''postgrest'') 0 stmts = None" using r(7) by (simp only: first_error_None)
  show ?l using r b st mo fe by (simp add: validateRunRequest_def) blast
qed

lemma validate_typed: "validateRunRequest (Some b) backends = Inr v \<longleftrightarrow> well_typed_run backends b v"
proof
  assume "validateRunRequest (Some b) backends = Inr v"
  then show "well_typed_run backends b v"
    by (auto simp: validate_Inr check_sizes_Inr well_typed_run_def Suc_le_eq)
next
  assume w: "well_typed_run backends b v"
  have "v = \<lparr>vr_body = vr_body v, vr_backend = vr_backend v, vr_statements = vr_statements v, vr_repeat = vr_repeat v,
      vr_concurrency = vr_concurrency v, vr_mode = vr_mode v\<rparr>" by simp
  with w have "check_sizes b (vr_backend v) (vr_statements v) (vr_mode v) = Inr v"
    unfolding check_sizes_Inr well_typed_run_def by blast
  with w show "validateRunRequest (Some b) backends = Inr v"
    unfolding validate_Inr well_typed_run_def by (intro exI [of _ "vr_backend v"] exI [of _ "vr_statements v"] exI [of _ "vr_mode v"]) auto
qed


subsection \<open>Every call is made once\<close>

text \<open>The calls of the first \<open>m\<close> iterations, and those a lane has still to make.\<close>

definition call_list :: "valid_run \<Rightarrow> nat \<Rightarrow> (nat \<times> nat) list" where
  "call_list r m = concat (map (\<lambda>i. map (Pair i) [0..<calls r]) [0..<m])"

fun todo :: "valid_run \<Rightarrow> lane_state \<Rightarrow> (nat \<times> nat) list" where
  "todo r (LCalling i k t) = map (Pair i) [k..<calls r]"
| "todo r l = []"

definition call_key :: "valid_run \<Rightarrow> exec_opts \<Rightarrow> nat \<times> nat \<Rightarrow> int \<times> int" where
  "call_key r opts c = (int (fst c) + xo_iOffset opts, stmt_index r (snd c))"

definition op_key :: "op_result \<Rightarrow> int \<times> int" where
  "op_key x = (op_i x, op_stmt x)"

definition is_opening :: "lane_state \<Rightarrow> bool" where
  "is_opening l = (case l of LOpening _ \<Rightarrow> True | _ \<Rightarrow> False)"

definition opening_lanes :: "lane_state list \<Rightarrow> nat list" where
  "opening_lanes ls = filter (\<lambda>j. is_opening (ls ! j)) [0..<length ls]"

definition lane_over :: "exec_state \<Rightarrow> valid_run \<Rightarrow> nat \<Rightarrow> bool" where
  "lane_over s r j = (ex_next s = vr_repeat r \<or> (\<exists>l \<in> set (ex_infos s). li_lane l = j \<and> li_error l \<noteq> None))"

text \<open>The invariant, with the lanes of \<open>X\<close> exempt from having a reason to be over.\<close>

definition exec_inv :: "nat set \<Rightarrow> valid_run \<Rightarrow> exec_opts \<Rightarrow> exec_state \<Rightarrow> bool" where
  "exec_inv X r opts s =
     (length (ex_lanes s) = vr_concurrency r \<and> ex_next s \<le> vr_repeat r \<and>
      mset (map op_key (ex_ops s)) + image_mset (call_key r opts) (mset (concat (map (todo r) (ex_lanes s)))) =
        image_mset (call_key r opts) (mset (call_list r (ex_next s))) \<and>
      mset (map li_lane (ex_infos s)) + mset (opening_lanes (ex_lanes s)) = mset [0..<vr_concurrency r] \<and>
      (\<forall>j < vr_concurrency r. j \<notin> X \<longrightarrow> ex_lanes s ! j \<in> {LClosing, LDone} \<longrightarrow> lane_over s r j) \<and>
      (\<forall>j < vr_concurrency r. \<forall>i k t. ex_lanes s ! j = LCalling i k t \<longrightarrow> k < calls r) \<and>
      (ex_next s > 0 \<longrightarrow> (\<exists>l \<in> set (ex_infos s). li_error l = None)))"

lemma mset_concat_update:
  assumes "j < length ls"
  shows "mset (concat (map f (ls[j := x]))) + mset (f (ls ! j)) = mset (concat (map f ls)) + mset (f x)"
proof -
  have "ls = take j ls @ ls ! j # drop (Suc j) ls" using assms by (rule id_take_nth_drop)
  then have "mset (concat (map f ls)) = mset (concat (map f (take j ls @ ls ! j # drop (Suc j) ls)))" by simp
  moreover have "ls[j := x] = take j ls @ x # drop (Suc j) ls" using assms by (rule upd_conv_take_nth_drop)
  ultimately show ?thesis by simp
qed

lemma call_list_Suc: "call_list r (Suc m) = call_list r m @ map (Pair m) [0..<calls r]"
  by (simp add: call_list_def)

lemma call_list_none: "calls r = 0 \<Longrightarrow> call_list r m = []"
  by (simp add: call_list_def)

lemma opening_update:
  assumes "j < length ls" "\<not> is_opening x"
  shows "opening_lanes (ls[j := x]) = filter (\<lambda>i. i \<noteq> j) (opening_lanes ls)"
  using assms by (auto simp: opening_lanes_def nth_list_update intro!: filter_cong)

lemma opening_same:
  assumes "j < length ls" "\<not> is_opening (ls ! j)" "\<not> is_opening x"
  shows "opening_lanes (ls[j := x]) = opening_lanes ls"
  using assms by (auto simp: opening_lanes_def nth_list_update intro!: filter_cong)

lemma mset_filter_neq: "distinct xs \<Longrightarrow> j \<in> set xs \<Longrightarrow> add_mset j (mset (filter (\<lambda>i. i \<noteq> j) xs)) = mset xs"
proof (induction xs)
  case (Cons x xs)
  have "j \<notin> set xs \<Longrightarrow> filter (\<lambda>i. i \<noteq> j) xs = xs" by (induction xs) auto
  with Cons show ?case by (cases "x = j") auto
qed simp

lemma mset_opening_update:
  assumes "j < length ls" "is_opening (ls ! j)" "\<not> is_opening x"
  shows "add_mset j (mset (opening_lanes (ls[j := x]))) = mset (opening_lanes ls)"
proof -
  have "distinct (opening_lanes ls)" "j \<in> set (opening_lanes ls)" using assms by (auto simp: opening_lanes_def)
  with opening_update [OF assms(1,3)] mset_filter_neq show ?thesis by metis
qed

lemma set_lane_simps [simp]:
  "ex_next (set_lane j l s) = ex_next s" "ex_ops (set_lane j l s) = ex_ops s" "ex_infos (set_lane j l s) = ex_infos s"
  "ex_lanes (set_lane j l s) = (ex_lanes s)[j := l]" "set_lane j l (set_lane j l' s) = set_lane j l s"
  by (simp_all add: set_lane_def)

lemma pull_forget: "pull r j now (set_lane j l s) = pull r j now s"
  by (simp add: pull_def set_lane_def)

lemma over_update: "lane_over s r j' \<Longrightarrow> ex_infos s' = ex_infos s @ xs \<Longrightarrow> ex_next s = ex_next s' \<or> ex_next s' = vr_repeat r \<Longrightarrow> ex_next s' \<le> vr_repeat r \<Longrightarrow> lane_over s' r j'"
  by (auto simp: lane_over_def)

text \<open>Giving lane \<open>j\<close> its next state from one in which it has nothing left to do.\<close>

lemma inv_give:
  assumes inv: "exec_inv {j} r opts s" and j: "j < vr_concurrency r" and idle: "ex_lanes s ! j = LDone"
    and nxt: "ex_next s \<le> n" "n \<le> vr_repeat r" and l: "\<not> is_opening l"
    and todo: "call_list r n = call_list r (ex_next s) @ todo r l"
    and over: "l \<in> {LClosing, LDone} \<Longrightarrow> lane_over (s\<lparr>ex_next := n\<rparr>) r j"
    and bound: "\<And>i k t. l = LCalling i k t \<Longrightarrow> k < calls r"
    and keep: "n = ex_next s \<or> n = vr_repeat r \<or> (\<forall>j' < vr_concurrency r. j' \<noteq> j \<longrightarrow> lane_over s r j' \<longrightarrow> lane_over (s\<lparr>ex_next := n\<rparr>) r j')"
    and some: "n > 0 \<Longrightarrow> \<exists>x \<in> set (ex_infos s). li_error x = None"
  shows "exec_inv {} r opts (set_lane j l (s\<lparr>ex_next := n\<rparr>))"
proof -
  have jl: "j < length (ex_lanes s)" using inv j by (simp add: exec_inv_def)
  from mset_concat_update [OF jl, of "todo r" l] idle
  have t: "mset (concat (map (todo r) ((ex_lanes s)[j := l]))) = mset (concat (map (todo r) (ex_lanes s))) + mset (todo r l)" by simp
  have o: "opening_lanes ((ex_lanes s)[j := l]) = opening_lanes (ex_lanes s)"
    by (rule opening_same [OF jl]) (simp_all add: idle is_opening_def l [unfolded is_opening_def])
  have ov: "lane_over (s\<lparr>ex_next := n\<rparr>) r j'" if "j' < vr_concurrency r" "j' \<noteq> j" "lane_over s r j'" for j'
    using keep that by (auto simp: lane_over_def)
  show ?thesis
    unfolding exec_inv_def
  proof (intro conjI allI impI)
    show "mset (map op_key (ex_ops (set_lane j l (s\<lparr>ex_next := n\<rparr>)))) +
        image_mset (call_key r opts) (mset (concat (map (todo r) (ex_lanes (set_lane j l (s\<lparr>ex_next := n\<rparr>)))))) =
        image_mset (call_key r opts) (mset (call_list r (ex_next (set_lane j l (s\<lparr>ex_next := n\<rparr>)))))"
      using inv by (simp add: exec_inv_def t todo add.assoc [symmetric])
    fix j' assume j': "j' < vr_concurrency r"
    { assume "j' \<notin> {}" and c: "ex_lanes (set_lane j l (s\<lparr>ex_next := n\<rparr>)) ! j' \<in> {LClosing, LDone}"
      show "lane_over (set_lane j l (s\<lparr>ex_next := n\<rparr>)) r j'"
      proof (cases "j' = j")
        case True
        with c jl over show ?thesis by (simp add: lane_over_def)
      next
        case False
        with c j' inv have "lane_over s r j'" by (auto simp: exec_inv_def)
        from ov [OF j' False this] show ?thesis by (simp add: lane_over_def)
      qed }
    fix i k t assume "ex_lanes (set_lane j l (s\<lparr>ex_next := n\<rparr>)) ! j' = LCalling i k t"
    with inv j' bound jl show "k < calls r" by (cases "j' = j") (auto simp: exec_inv_def)
  qed (use inv nxt some o in \<open>auto simp: exec_inv_def\<close>)
qed

lemma pull_inv:
  assumes inv: "exec_inv {j} r opts s" and j: "j < vr_concurrency r" and idle: "ex_lanes s ! j = LDone"
    and some: "\<exists>x \<in> set (ex_infos s). li_error x = None"
  shows "exec_inv {} r opts (pull r j now s)"
proof -
  have le: "ex_next s \<le> vr_repeat r" using inv by (simp add: exec_inv_def)
  consider (none) "calls r = 0" "ex_next s < vr_repeat r" | (call) "calls r \<noteq> 0" "ex_next s < vr_repeat r" | (over) "\<not> ex_next s < vr_repeat r" by blast
  then show ?thesis
  proof cases
    case none
    have "exec_inv {} r opts (set_lane j LClosing (s\<lparr>ex_next := vr_repeat r\<rparr>))"
      by (rule inv_give [OF inv j idle]) (use none some in \<open>simp_all add: is_opening_def call_list_none lane_over_def\<close>)
    with none show ?thesis by (simp add: pull_def)
  next
    case call
    have "exec_inv {} r opts (set_lane j (LCalling (ex_next s) 0 now) (s\<lparr>ex_next := ex_next s + 1\<rparr>))"
      by (rule inv_give [OF inv j idle]) (use call some in \<open>auto simp: is_opening_def call_list_Suc lane_over_def\<close>)
    with call show ?thesis by (simp add: pull_def)
  next
    case over
    with le have eq: "ex_next s = vr_repeat r" by simp
    have "exec_inv {} r opts (set_lane j LClosing (s\<lparr>ex_next := ex_next s\<rparr>))"
      by (rule inv_give [OF inv j idle]) (use eq some in \<open>simp_all add: is_opening_def lane_over_def\<close>)
    with over show ?thesis by (simp add: pull_def)
  qed
qed

text \<open>Lane \<open>j\<close> moves on, recording the operations it made and the information on its connection.\<close>

lemma inv_move:
  assumes inv: "exec_inv {} r opts s" and j: "j < length (ex_lanes s)" and l: "\<not> is_opening l"
    and s': "s' = set_lane j l (s\<lparr>ex_ops := ex_ops s @ ops, ex_infos := ex_infos s @ infos\<rparr>)"
    and made: "image_mset (call_key r opts) (mset (todo r (ex_lanes s ! j))) = mset (map op_key ops) + image_mset (call_key r opts) (mset (todo r l))"
    and told: "map li_lane infos = (if is_opening (ex_lanes s ! j) then [j] else [])"
    and bound: "\<And>i k t. l = LCalling i k t \<Longrightarrow> k < calls r"
    and over: "l \<in> {LClosing, LDone} \<Longrightarrow> j \<notin> X \<Longrightarrow> lane_over s' r j"
  shows "exec_inv X r opts s'"
proof -
  have jc: "length (ex_lanes s) = vr_concurrency r" using inv by (simp add: exec_inv_def)
  have fs: "ex_next s' = ex_next s" "ex_ops s' = ex_ops s @ ops" "ex_infos s' = ex_infos s @ infos" "ex_lanes s' = (ex_lanes s)[j := l]"
    by (simp_all add: s')
  have calls: "mset (map op_key (ex_ops s')) + image_mset (call_key r opts) (mset (concat (map (todo r) (ex_lanes s')))) =
      image_mset (call_key r opts) (mset (call_list r (ex_next s')))"
  proof -
    let ?m = "\<lambda>xs. image_mset (call_key r opts) (mset xs)"
    have "?m (concat (map (todo r) ((ex_lanes s)[j := l]))) + ?m (todo r (ex_lanes s ! j)) = ?m (concat (map (todo r) (ex_lanes s))) + ?m (todo r l)"
      using arg_cong [OF mset_concat_update [OF j, of "todo r" l], of "image_mset (call_key r opts)"] by simp
    then have "?m (concat (map (todo r) ((ex_lanes s)[j := l]))) + mset (map op_key ops) + ?m (todo r l) = ?m (concat (map (todo r) (ex_lanes s))) + ?m (todo r l)"
      by (simp add: made ac_simps)
    then have "mset (map op_key ops) + ?m (concat (map (todo r) ((ex_lanes s)[j := l]))) = ?m (concat (map (todo r) (ex_lanes s)))"
      by (simp add: ac_simps)
    then show ?thesis using inv by (simp add: fs exec_inv_def add.assoc)
  qed
  have lanes: "mset (map li_lane (ex_infos s')) + mset (opening_lanes (ex_lanes s')) = mset [0..<vr_concurrency r]"
  proof (cases "is_opening (ex_lanes s ! j)")
    case True
    have "mset (map li_lane (ex_infos s)) + mset (opening_lanes (ex_lanes s)) = mset [0..<vr_concurrency r]" using inv by (simp add: exec_inv_def)
    with True told show ?thesis unfolding mset_opening_update [OF j True l, symmetric] by (simp add: fs)
  next
    case False
    from opening_same [OF j False l] False told inv show ?thesis by (simp add: fs exec_inv_def)
  qed
  have ov: "lane_over s' r j'" if "j' < vr_concurrency r" "j' \<notin> X" "ex_lanes s' ! j' \<in> {LClosing, LDone}" for j'
  proof (cases "j' = j")
    case True
    with that j over show ?thesis by (simp add: fs)
  next
    case False
    with that inv have "lane_over s r j'" by (auto simp: fs exec_inv_def)
    then show ?thesis by (auto simp: lane_over_def fs)
  qed
  have bd: "k < calls r" if "j' < vr_concurrency r" "ex_lanes s' ! j' = LCalling i k t" for j' i k t
    using that inv bound j by (cases "j' = j") (auto simp: fs exec_inv_def)
  have some: "\<exists>x \<in> set (ex_infos s'). li_error x = None" if "ex_next s' > 0"
    using that inv by (auto simp: fs exec_inv_def)
  show ?thesis unfolding exec_inv_def using inv calls lanes ov bd some by (simp add: fs exec_inv_def)
qed

lemma op_key_make: "op_key (make_op r opts tStart j i k t0 t1 res) = call_key r opts (i, k)"
  by (simp add: op_key_def call_key_def make_op_def)

lemma todo_step: "k < calls r \<Longrightarrow> todo r (LCalling i k t) = (i, k) # map (Pair i) [Suc k..<calls r]"
  by (simp add: upt_conv_Cons)

lemma exec_step_inv:
  assumes inv: "exec_inv {} r opts s"
  shows "exec_inv {} r opts (exec_step r opts tStart s e)"
proof (cases e)
  case (Opened j t1 t2)
  show ?thesis
  proof (cases "j < length (ex_lanes s) \<and> is_opening (ex_lanes s ! j)")
    case True
    then obtain c0 where c: "ex_lanes s ! j = LOpening c0" and j: "j < length (ex_lanes s)" by (auto simp: is_opening_def split: lane_state.splits)
    let ?s = "s\<lparr>ex_infos := ex_infos s @ [\<lparr>li_lane = j, li_connectMs = t1 - c0, li_error = None\<rparr>]\<rparr>"
    have "exec_inv {j} r opts (set_lane j LDone ?s)"
      by (rule inv_move [OF inv j, where l = LDone and ops = "[]" and infos = "[\<lparr>li_lane = j, li_connectMs = t1 - c0, li_error = None\<rparr>]"]) (simp_all add: c is_opening_def)
    then have "exec_inv {} r opts (pull r j t2 (set_lane j LDone ?s))"
      by (rule pull_inv) (use inv j in \<open>simp_all add: exec_inv_def\<close>)
    with Opened c j show ?thesis by (simp add: pull_forget)
  qed (use inv Opened in \<open>auto simp: is_opening_def split: lane_state.splits\<close>)
next
  case (OpenFails j t1 err)
  show ?thesis
  proof (cases "j < length (ex_lanes s) \<and> is_opening (ex_lanes s ! j)")
    case True
    then obtain c0 where c: "ex_lanes s ! j = LOpening c0" and j: "j < length (ex_lanes s)" by (auto simp: is_opening_def split: lane_state.splits)
    have "exec_inv {} r opts (set_lane j LDone (s\<lparr>ex_infos := ex_infos s @ [\<lparr>li_lane = j, li_connectMs = t1 - c0, li_error = Some (errText err)\<rparr>]\<rparr>))"
      by (rule inv_move [OF inv j, where l = LDone and ops = "[]" and infos = "[\<lparr>li_lane = j, li_connectMs = t1 - c0, li_error = Some (errText err)\<rparr>]"]) (simp_all add: c is_opening_def lane_over_def)
    with OpenFails c j show ?thesis by simp
  qed (use inv OpenFails in \<open>auto simp: is_opening_def split: lane_state.splits\<close>)
next
  case (Replies j res t1 t2)
  show ?thesis
  proof (cases "j < length (ex_lanes s) \<and> (\<exists>i k t0. ex_lanes s ! j = LCalling i k t0)")
    case True
    then obtain i k t0 where c: "ex_lanes s ! j = LCalling i k t0" and j: "j < length (ex_lanes s)" by blast
    have k: "k < calls r" and jc: "j < vr_concurrency r" using inv j c by (auto simp: exec_inv_def)
    then have nxt: "0 < ex_next s"
    proof -
      have "(i, k) \<in> set (concat (map (todo r) (ex_lanes s)))" using j c k nth_mem [OF j] by force
      then have "call_key r opts (i, k) \<in># mset (map op_key (ex_ops s)) + image_mset (call_key r opts) (mset (concat (map (todo r) (ex_lanes s))))" by auto
      then have "call_list r (ex_next s) \<noteq> []" using inv by (auto simp: exec_inv_def)
      then show ?thesis by (cases "ex_next s") (simp_all add: call_list_def)
    qed
    let ?s = "s\<lparr>ex_ops := ex_ops s @ [make_op r opts tStart j i k t0 t1 res]\<rparr>"
    show ?thesis
    proof (cases "k + 1 < calls r")
      case more: True
      have "exec_inv {} r opts (set_lane j (LCalling i (k + 1) t2) ?s)"
        by (rule inv_move [OF inv j, where infos = "[]" and l = "LCalling i (k + 1) t2" and ops = "[make_op r opts tStart j i k t0 t1 res]"]) (use k more in \<open>simp_all add: c is_opening_def op_key_make upt_conv_Cons\<close>)
      with Replies c j more show ?thesis by simp
    next
      case False
      with k have "[k..<calls r] = [k]" by (simp add: upt_conv_Cons)
      then have "exec_inv {j} r opts (set_lane j LDone ?s)"
        by (intro inv_move [OF inv j, where infos = "[]" and l = LDone and ops = "[make_op r opts tStart j i k t0 t1 res]"]) (simp_all add: c is_opening_def op_key_make)
      then have "exec_inv {} r opts (pull r j t2 (set_lane j LDone ?s))"
        by (rule pull_inv) (use inv j nxt in \<open>auto simp: exec_inv_def\<close>)
      with Replies c j False show ?thesis by (simp add: pull_forget)
    qed
  qed (use inv Replies in \<open>auto split: lane_state.splits\<close>)
next
  case (Closes j)
  show ?thesis
  proof (cases "j < length (ex_lanes s) \<and> ex_lanes s ! j = LClosing")
    case True
    have "lane_over s r j" using True inv by (auto simp: exec_inv_def)
    then have "exec_inv {} r opts (set_lane j LDone (s\<lparr>ex_ops := ex_ops s @ [], ex_infos := ex_infos s @ []\<rparr>))"
      using True by (intro inv_move [OF inv, where l = LDone and ops = "[]" and infos = "[]"]) (simp_all add: is_opening_def lane_over_def)
    with Closes True show ?thesis by simp
  qed (use inv Closes in auto)
qed

lemma exec_start_inv: "exec_inv {} r opts (exec_start r c0)"
proof -
  have "concat (map (\<lambda>j. todo r (LOpening (c0 j))) js) = []" for js by (induction js) auto
  moreover have "opening_lanes (map (\<lambda>j. LOpening (c0 j)) [0..<n]) = [0..<n]" for n
    by (simp add: opening_lanes_def is_opening_def filter_id_conv)
  ultimately show ?thesis by (simp add: exec_inv_def exec_start_def comp_def call_list_def)
qed

lemma exec_run_inv: "exec_inv {} r opts (exec_run r opts tStart c0 es)"
proof -
  have "exec_inv {} r opts s \<Longrightarrow> exec_inv {} r opts (foldl (exec_step r opts tStart) s es)" for s
    by (induction es arbitrary: s) (simp_all add: exec_step_inv)
  then show ?thesis by (simp add: exec_run_def exec_start_inv)
qed

interpretation op_order: comparator op_cmp
  unfolding op_cmp_def by (intro comparator_then comparator_key [OF int_diff.comparator_axioms])

interpretation lane_order: comparator "\<lambda>a b. int (li_lane a) - int (li_lane b)"
  by (rule comparator_key [OF int_diff.comparator_axioms])

lemma op_cmp_key: "op_cmp a b \<le> 0 \<longleftrightarrow> op_key a \<le> op_key b"
  by (auto simp: op_cmp_def then_cmp_def op_key_def less_eq_prod_def)

lemma sorted_op_keys: "sorted (map op_key (sort_by op_cmp ops))"
  using op_order.sorted_sort_by [of ops] by (simp add: sorted_map op_cmp_key)

lemma sorted_lanes: "sorted (map li_lane (sort_by (\<lambda>a b. int (li_lane a) - int (li_lane b)) ls))"
  using lane_order.sorted_sort_by [of ls] by (simp add: sorted_map)

lemma sorted_call_keys: "sorted (map (call_key r opts) (call_list r m))"
proof (induction m)
  case (Suc m)
  have "calls r = 1" if "vr_mode r \<noteq> Each" using that by (simp add: calls_def)
  then have "sorted (map (call_key r opts) (map (Pair m) [0..<calls r]))"
    by (cases "vr_mode r = Each") (auto simp: comp_def call_key_def stmt_index_def sorted_iff_nth_mono less_eq_prod_def)
  moreover have "fst (call_key r opts c) < fst (call_key r opts d)" if "c \<in> set (call_list r m)" "d \<in> set (map (Pair m) [0..<calls r])" for c d
    using that by (auto simp: call_list_def call_key_def)
  then have "call_key r opts c \<le> call_key r opts d" if "c \<in> set (call_list r m)" "d \<in> set (map (Pair m) [0..<calls r])" for c d
    using that by (auto simp: less_eq_prod_def)
  ultimately show ?case using Suc unfolding call_list_Suc map_append sorted_append by auto
qed (simp add: call_list_def)

lemma sorted_mset_eq: "sorted xs \<Longrightarrow> sorted ys \<Longrightarrow> mset xs = mset ys \<Longrightarrow> xs = ys"
  by (metis properties_for_sort sorted_sort_id)

text \<open>What a finished run has recorded: one entry for each lane, and if any lane opened, every call once.\<close>

lemma run_over:
  assumes "all_done (exec_run r opts tStart c0 es)"
  defines "s \<equiv> exec_run r opts tStart c0 es"
  shows "mset (map li_lane (ex_infos s)) = mset [0..<vr_concurrency r]"
    and "mset (map op_key (ex_ops s)) = mset (map (call_key r opts) (call_list r (ex_next s)))"
    and "ex_next s = (if \<exists>l \<in> set (ex_infos s). li_error l = None then vr_repeat r else 0)"
proof -
  have inv: "exec_inv {} r opts s" unfolding s_def by (rule exec_run_inv)
  have "\<forall>l \<in> set (ex_lanes s). l = LDone" using assms by (simp add: all_done_def list_all_iff)
  then obtain n where ls: "ex_lanes s = replicate n LDone" by (metis replicate_length_same)
  have "concat (map (todo r) (replicate n LDone)) = []" by (induction n) auto
  moreover have "opening_lanes (replicate n LDone) = []" by (simp add: opening_lanes_def is_opening_def filter_empty_conv)
  ultimately show lanes: "mset (map li_lane (ex_infos s)) = mset [0..<vr_concurrency r]"
    and "mset (map op_key (ex_ops s)) = mset (map (call_key r opts) (call_list r (ex_next s)))"
    using inv by (simp_all add: exec_inv_def ls)
  show "ex_next s = (if \<exists>l \<in> set (ex_infos s). li_error l = None then vr_repeat r else 0)"
  proof (cases "\<exists>l \<in> set (ex_infos s). li_error l = None")
    case True
    then obtain l where l: "l \<in> set (ex_infos s)" "li_error l = None" by blast
    have "set (map li_lane (ex_infos s)) = {0..<vr_concurrency r}" using arg_cong [OF lanes, of set_mset] by simp
    with l(1) have j: "li_lane l < vr_concurrency r" by fastforce
    with inv ls have "lane_over s r (li_lane l)" by (auto simp: exec_inv_def)
    moreover have "distinct (map li_lane (ex_infos s))" using lanes by (metis distinct_upt mset_eq_imp_distinct_iff)
    ultimately have "ex_next s = vr_repeat r" using l by (auto simp: lane_over_def distinct_map inj_on_def)
    with True show ?thesis by simp
  next
    case False
    with inv show ?thesis by (auto simp: exec_inv_def)
  qed
qed

lemma response_facts:
  assumes "executeRun r opts tStart c0 startedAt tEnd es = Some resp"
  shows "map li_lane (rsp_lanes resp) = [0..<vr_concurrency r] \<and>
    map op_key (rsp_ops resp) =
      (if list_ex (\<lambda>l. li_error l = None) (rsp_lanes resp) then map (call_key r opts) (call_list r (vr_repeat r)) else [])"
proof -
  let ?s = "exec_run r opts tStart c0 es"
  have dn: "all_done ?s" and resp: "resp = response_of r opts tStart startedAt tEnd ?s"
    using assms by (auto simp: executeRun_def Let_def split: if_splits)
  have "map li_lane (rsp_lanes resp) = [0..<vr_concurrency r]"
    by (rule sorted_mset_eq) (use run_over(1) [OF dn] in \<open>simp_all add: resp response_of_def Let_def sorted_lanes\<close>)
  moreover have "map op_key (rsp_ops resp) = map (call_key r opts) (call_list r (ex_next ?s))"
    by (rule sorted_mset_eq) (use run_over(2) [OF dn] in \<open>simp_all add: resp response_of_def Let_def sorted_op_keys sorted_call_keys\<close>)
  moreover have "list_ex (\<lambda>l. li_error l = None) (rsp_lanes resp) \<longleftrightarrow> (\<exists>l \<in> set (ex_infos ?s). li_error l = None)"
    by (simp add: resp response_of_def Let_def list_ex_iff)
  moreover have "call_list r 0 = []" by (simp add: call_list_def)
  ultimately show ?thesis using run_over(3) [OF dn] by (cases "list_ex (\<lambda>l. li_error l = None) (rsp_lanes resp)") auto
qed

lemma run_ops:
  assumes "executeRun r opts tStart c0 startedAt tEnd es = Some resp" "list_ex (\<lambda>l. li_error l = None) (rsp_lanes resp)"
  shows "map op_key (rsp_ops resp) = map (call_key r opts) (call_list r (vr_repeat r))"
  using response_facts [OF assms(1)] assms(2) by simp

text \<open>C21. When the run is over its lanes are listed once each in order, and its operations are exactly the
  calls the request asks for: every iteration and statement once, in order, whatever the order in
  which the lanes moved, whichever calls failed and however many connections failed to open. Only
  when no connection opened at all is there no operation.\<close>

theorem exec_complete:
  assumes "executeRun r opts tStart c0 startedAt tEnd es = Some resp"
  shows "map li_lane (rsp_lanes resp) = [0..<vr_concurrency r] \<and>
    map op_key (rsp_ops resp) =
      (if list_ex (\<lambda>l. li_error l = None) (rsp_lanes resp) then map (call_key r opts) (call_list r (vr_repeat r)) else [])"
  using assms by (rule response_facts)

definition two_lanes :: valid_run where
  "two_lanes = \<lparr>vr_body = JObj [], vr_backend = ''d1'', vr_statements = [sql_stmt ''SELECT 1'', sql_stmt ''SELECT 2''], vr_repeat = 2,
     vr_concurrency = 2, vr_mode = Each\<rparr>"

definition two_lane_events :: "exec_event list" where
  "two_lane_events = [Opened 1 5 6, Opened 0 7 8, Replies 0 (Inl (DOther ''boom'')) 9 10, Replies 1 (Inr []) 11 12, Replies 1 (Inr []) 13 14,
     Closes 1, Replies 0 (Inr []) 15 16, Closes 0]"

theorem exec_complete_witness:
  "case executeRun two_lanes \<lparr>xo_colo = [], xo_driver = ([], []), xo_iOffset = 10\<rparr> 0 (\<lambda>_. 1) [] 20 two_lane_events of
     None \<Rightarrow> False
   | Some resp \<Rightarrow> map li_lane (rsp_lanes resp) = [0, 1] \<and> map op_key (rsp_ops resp) = [(10, 0), (10, 1), (11, 0), (11, 1)]"
proof -
  let ?o = "\<lparr>xo_colo = [], xo_driver = ([], []), xo_iOffset = 10\<rparr>"
  have "all_done (exec_run two_lanes ?o 0 (\<lambda>_. 1) two_lane_events)" by code_simp
  then obtain resp where e: "executeRun two_lanes ?o 0 (\<lambda>_. 1) [] 20 two_lane_events = Some resp" by (simp add: executeRun_def)
  have "list_ex (\<lambda>l. li_error l = None) (ex_infos (exec_run two_lanes ?o 0 (\<lambda>_. 1) two_lane_events))" by code_simp
  then have "list_ex (\<lambda>l. li_error l = None) (rsp_lanes resp)"
    using e by (auto simp: executeRun_def Let_def response_of_def list_ex_iff split: if_splits)
  moreover have "map (call_key two_lanes ?o) (call_list two_lanes (vr_repeat two_lanes)) = [(10, 0), (10, 1), (11, 0), (11, 1)]"
    "[0..<vr_concurrency two_lanes] = [0, 1]" by code_simp+
  ultimately show ?thesis using exec_complete [OF e] e by simp
qed

subsection \<open>Every run can finish\<close>

text \<open>The answers a lane, and the whole run, can still take.\<close>

fun lane_work :: "valid_run \<Rightarrow> lane_state \<Rightarrow> nat" where
  "lane_work r (LOpening _) = 2"
| "lane_work r (LCalling i k t) = calls r - k + 1"
| "lane_work r LClosing = 1"
| "lane_work r LDone = 0"

definition work :: "valid_run \<Rightarrow> exec_state \<Rightarrow> nat" where
  "work r s = (vr_repeat r - ex_next s) * calls r + sum_list (map (lane_work r) (ex_lanes s))"

lemma sum_list_update_nat:
  fixes f :: "'a \<Rightarrow> nat"
  shows "j < length ls \<Longrightarrow> sum_list (map f (ls[j := x])) + f (ls ! j) = sum_list (map f ls) + f x"
proof (induction ls arbitrary: j)
  case (Cons a ls)
  then show ?case by (cases j) (auto simp: algebra_simps)
qed simp

lemma work_set_lane: "j < length (ex_lanes s) \<Longrightarrow> work r (set_lane j l s) + lane_work r (ex_lanes s ! j) = work r s + lane_work r l"
  using sum_list_update_nat [of j "ex_lanes s" "lane_work r" l] by (simp add: work_def)

lemma work_pull:
  assumes "j < length (ex_lanes s)"
  shows "work r (pull r j now s) + lane_work r (ex_lanes s ! j) \<le> work r s + 1"
proof -
  consider (none) "ex_next s < vr_repeat r" "calls r = 0" | (call) "ex_next s < vr_repeat r" "calls r \<noteq> 0" | (over) "\<not> ex_next s < vr_repeat r" by blast
  then show ?thesis
  proof cases
    case none
    then show ?thesis
      using work_set_lane [of j "s\<lparr>ex_next := vr_repeat r\<rparr>" r LClosing] assms by (simp add: pull_def work_def)
  next
    case call
    then have "(vr_repeat r - ex_next s) * calls r = (vr_repeat r - (ex_next s + 1)) * calls r + calls r"
      by (metis Suc_diff_Suc Suc_eq_plus1 add.commute mult_Suc)
    with call show ?thesis
      using work_set_lane [of j "s\<lparr>ex_next := ex_next s + 1\<rparr>" r "LCalling (ex_next s) 0 now"] assms by (simp add: pull_def work_def)
  next
    case over
    then show ?thesis using work_set_lane [OF assms, of r LClosing] by (simp add: pull_def)
  qed
qed

text \<open>A lane that is not done is waiting for an answer, and any answer to it takes some of the work away.\<close>

fun next_answer :: "nat \<Rightarrow> lane_state \<Rightarrow> exec_event" where
  "next_answer j (LOpening t) = Opened j t t"
| "next_answer j (LCalling i k t) = Replies j (Inr []) t t"
| "next_answer j l = Closes j"

fun answers :: "nat \<Rightarrow> lane_state \<Rightarrow> exec_event \<Rightarrow> bool" where
  "answers j (LOpening _) (Opened j' _ _) = (j' = j)"
| "answers j (LOpening _) (OpenFails j' _ _) = (j' = j)"
| "answers j (LCalling _ _ _) (Replies j' _ _ _) = (j' = j)"
| "answers j LClosing (Closes j') = (j' = j)"
| "answers j _ _ = False"

lemma work_eq: "ex_next s' = ex_next s \<Longrightarrow> ex_lanes s' = ex_lanes s \<Longrightarrow> work r s' = work r s"
  by (simp add: work_def)

lemma step_work:
  assumes inv: "exec_inv {} r opts s" and j: "j < length (ex_lanes s)" and a: "answers j (ex_lanes s ! j) e"
  shows "work r (exec_step r opts tStart s e) < work r s"
proof (cases e)
  case (Opened j' t1 t2)
  with a obtain c0 where c: "ex_lanes s ! j = LOpening c0" "j' = j" by (cases "ex_lanes s ! j") auto
  let ?s = "s\<lparr>ex_infos := ex_infos s @ [\<lparr>li_lane = j, li_connectMs = t1 - c0, li_error = None\<rparr>]\<rparr>"
  from work_pull [of j ?s r t2] j c work_eq [of ?s s r] Opened show ?thesis by simp
next
  case (OpenFails j' t1 x)
  with a obtain c0 where c: "ex_lanes s ! j = LOpening c0" "j' = j" by (cases "ex_lanes s ! j") auto
  let ?s = "s\<lparr>ex_infos := ex_infos s @ [\<lparr>li_lane = j, li_connectMs = t1 - c0, li_error = Some (errText x)\<rparr>]\<rparr>"
  from work_set_lane [of j ?s r LDone] j c work_eq [of ?s s r] OpenFails show ?thesis by simp
next
  case (Replies j' res t1 t2)
  with a obtain i k t0 where c: "ex_lanes s ! j = LCalling i k t0" "j' = j" by (cases "ex_lanes s ! j") auto
  have k: "k < calls r" using inv j c by (auto simp: exec_inv_def)
  let ?s = "s\<lparr>ex_ops := ex_ops s @ [make_op r opts tStart j i k t0 t1 res]\<rparr>"
  from work_set_lane [of j ?s r "LCalling i (k + 1) t2"] work_pull [of j ?s r t2] j c k work_eq [of ?s s r] Replies show ?thesis by (auto simp: Let_def)
next
  case (Closes j')
  with a have c: "ex_lanes s ! j = LClosing" "j' = j" by (cases "ex_lanes s ! j"; simp)+
  from work_set_lane [OF j, of r LDone] j c Closes show ?thesis by simp
qed

lemma work_at_start: "work r (exec_start r c0) = vr_repeat r * calls r + 2 * vr_concurrency r"
proof -
  have "sum_list (map (\<lambda>j. lane_work r (LOpening (c0 j))) js) = 2 * length js" for js by (induction js) auto
  then show ?thesis by (simp add: work_def exec_start_def comp_def)
qed

text \<open>A run of answers: each event answers a lane that waits for it.\<close>

fun all_answer :: "valid_run \<Rightarrow> exec_opts \<Rightarrow> rat \<Rightarrow> exec_state \<Rightarrow> exec_event list \<Rightarrow> bool" where
  "all_answer r opts tStart s [] = True"
| "all_answer r opts tStart s (e # es) =
     (list_ex (\<lambda>j. answers j (ex_lanes s ! j) e) [0..<length (ex_lanes s)] \<and> all_answer r opts tStart (exec_step r opts tStart s e) es)"

lemma all_answer_length:
  "exec_inv {} r opts s \<Longrightarrow> all_answer r opts tStart s es \<Longrightarrow> length es \<le> work r s"
proof (induction es arbitrary: s)
  case (Cons e es)
  then obtain j where j: "j < length (ex_lanes s)" "answers j (ex_lanes s ! j) e" by (auto simp: list_ex_iff)
  have "length es \<le> work r (exec_step r opts tStart s e)" using Cons exec_step_inv by simp
  with step_work [OF Cons.prems(1) j, of tStart] show ?case by simp
qed simp

lemma answer_answers: "l \<noteq> LDone \<Longrightarrow> answers j l (next_answer j l)"
  by (cases l) auto

lemma can_finish:
  "exec_inv {} r opts s \<Longrightarrow>
   \<exists>es. all_answer r opts tStart s es \<and> all_done (foldl (exec_step r opts tStart) s es)"
proof (induction "work r s" arbitrary: s rule: less_induct)
  case less
  show ?case
  proof (cases "all_done s")
    case True
    then show ?thesis by (intro exI [of _ "[]"]) simp
  next
    case False
    then obtain j where j: "j < length (ex_lanes s)" "ex_lanes s ! j \<noteq> LDone" by (auto simp: all_done_def list_all_length)
    let ?e = "next_answer j (ex_lanes s ! j)"
    have a: "answers j (ex_lanes s ! j) ?e" by (rule answer_answers [OF j(2)])
    obtain es where "all_answer r opts tStart (exec_step r opts tStart s ?e) es"
      "all_done (foldl (exec_step r opts tStart) (exec_step r opts tStart s ?e) es)"
      using less.hyps [OF step_work [OF less.prems j(1) a] exec_step_inv [OF less.prems]] by blast
    with a j(1) show ?thesis by (intro exI [of _ "?e # es"]) (auto simp: list_ex_iff)
  qed
qed

text \<open>C23. Every run ends. A run takes at most two answers for each lane and one for each call, in whatever
  order the lanes are answered, and from wherever it has got to, answering the lanes that wait
  brings it to its response.\<close>

theorem exec_ends:
  assumes "all_answer r opts tStart (exec_start r c0) es"
  shows "length es \<le> vr_repeat r * calls r + 2 * vr_concurrency r \<and>
    (\<exists>es' resp. all_answer r opts tStart (exec_start r c0) (es @ es') \<and> executeRun r opts tStart c0 startedAt tEnd (es @ es') = Some resp)"
proof -
  have app: "all_answer r opts tStart s (xs @ ys) \<longleftrightarrow> all_answer r opts tStart s xs \<and> all_answer r opts tStart (foldl (exec_step r opts tStart) s xs) ys" for s xs ys
    by (induction xs arbitrary: s) auto
  have "length es \<le> vr_repeat r * calls r + 2 * vr_concurrency r"
    using all_answer_length [OF exec_start_inv assms] by (simp add: work_at_start)
  moreover obtain es' where "all_answer r opts tStart (exec_run r opts tStart c0 es) es'"
    "all_done (foldl (exec_step r opts tStart) (exec_run r opts tStart c0 es) es')" using can_finish [OF exec_run_inv] by blast
  ultimately show ?thesis using assms by (intro conjI exI [of _ es']) (auto simp: app exec_run_def executeRun_def Let_def)
qed

theorem exec_ends_witness:
  "length two_lane_events \<le> vr_repeat two_lanes * calls two_lanes + 2 * vr_concurrency two_lanes"
proof -
  have "all_answer two_lanes \<lparr>xo_colo = [], xo_driver = ([], []), xo_iOffset = 10\<rparr> 0 (exec_start two_lanes (\<lambda>_. 1)) two_lane_events" by code_simp
  from exec_ends [OF this] show ?thesis by blast
qed

subsection \<open>Transactions\<close>

text \<open>The same connection with a log of what was sent and what came back.\<close>

definition logged :: "('s \<Rightarrow> 'q \<Rightarrow> 's \<times> 'x) \<Rightarrow> 's \<times> ('q \<times> 'x) list \<Rightarrow> 'q \<Rightarrow> ('s \<times> ('q \<times> 'x) list) \<times> 'x" where
  "logged ex c s = (case ex (fst c) s of (c', x) \<Rightarrow> ((c', snd c @ [(s, x)]), x))"

text \<open>What a transaction may have sent when it ends with a result.\<close>

definition tx_log :: "string \<Rightarrow> json list \<Rightarrow> (json \<times> (driver_error + stmt_out)) list \<Rightarrow> driver_error + stmt_out list \<Rightarrow> bool" where
  "tx_log beg stmts l res =
     (case res of
        Inr outs \<Rightarrow> length outs = length stmts \<and>
          (\<exists>x y. l = (sql_stmt beg, Inr x) # zip stmts (map Inr outs) @ [(sql_stmt ''COMMIT'', Inr y)])
      | Inl e \<Rightarrow> l = [(sql_stmt beg, Inl e)] \<or>
          (\<exists>x outs y. length outs \<le> length stmts \<and>
             l = (sql_stmt beg, Inr x) # zip (take (length outs) stmts) (map Inr outs) @
                 [((stmts @ [sql_stmt ''COMMIT'']) ! length outs, Inl e), (sql_stmt ''ROLLBACK'', y)]))"

lemma tx_log_failed:
  "length outs = length pre \<Longrightarrow> stmts @ [sql_stmt ''COMMIT''] = pre @ s # post \<Longrightarrow> length pre \<le> length stmts \<Longrightarrow>
   tx_log beg stmts ((sql_stmt beg, Inr x) # zip pre (map Inr outs) @ [(s, Inl e), (sql_stmt ''ROLLBACK'', y)]) (Inl e)"
proof -
  assume l: "length outs = length pre" "length pre \<le> length stmts" and eq: "stmts @ [sql_stmt ''COMMIT''] = pre @ s # post"
  from arg_cong [OF eq, of "take (length pre)"] l have "take (length outs) stmts = pre" by simp
  moreover have "(stmts @ [sql_stmt ''COMMIT'']) ! length outs = s" using eq l by (simp add: nth_append)
  ultimately show ?thesis using l unfolding tx_log_def sum.case
    by (intro disjI2 exI [of _ x] exI [of _ outs] exI [of _ y]) auto
qed

lemma tx_body_log:
  assumes "snd c = (sql_stmt beg, Inr x) # zip pre (map Inr outs)" "length outs = length pre"
  shows "tx_log beg (pre @ stmts) (snd (fst (tx_body (logged ex) c stmts outs))) (snd (tx_body (logged ex) c stmts outs))"
  using assms
proof (induction stmts arbitrary: c pre outs)
  case Nil
  obtain c' y where e: "ex (fst c) (sql_stmt ''COMMIT'') = (c', y)" by fastforce
  show ?case
  proof (cases y)
    case (Inl err)
    with e Nil show ?thesis by (simp add: logged_def tx_log_failed split: prod.splits)
  next
    case (Inr out)
    with e Nil show ?thesis by (simp add: tx_log_def logged_def)
  qed
next
  case (Cons s ss)
  obtain c' y where e: "ex (fst c) s = (c', y)" by fastforce
  show ?case
  proof (cases y)
    case (Inl err)
    with e Cons.prems show ?thesis by (simp add: logged_def tx_log_failed [where post = "ss @ [sql_stmt ''COMMIT'']"] split: prod.splits)
  next
    case (Inr out)
    have "tx_log beg ((pre @ [s]) @ ss) (snd (fst (tx_body (logged ex) (c', snd c @ [(s, y)]) ss (outs @ [out]))))
        (snd (tx_body (logged ex) (c', snd c @ [(s, y)]) ss (outs @ [out])))"
      by (rule Cons.IH) (use Cons.prems Inr in simp_all)
    moreover have "logged ex c s = ((c', snd c @ [(s, y)]), y)" by (simp add: logged_def e)
    ultimately show ?thesis by (simp add: Inr)
  qed
qed

text \<open>C25. A transaction that succeeds has sent its opener, every statement once in order, and \<open>COMMIT\<close>, and each of
  them succeeded; its result is their outputs. One that fails has either failed to open, and sent
  nothing more, or sent statements up to the first failure, the commit's included, and then exactly
  one \<open>ROLLBACK\<close>, and its error is that first failure, even when the rollback fails too.\<close>

theorem tx_all_or_rolled_back:
  "case sequentialTx (logged ex) (c, []) stmts beg of (c', res) \<Rightarrow> tx_log beg stmts (snd c') res"
proof -
  obtain c' y where e: "ex c (sql_stmt beg) = (c', y)" by fastforce
  show ?thesis
  proof (cases y)
    case (Inl err)
    with e show ?thesis by (simp add: sequentialTx_def logged_def tx_log_def)
  next
    case (Inr out)
    have "tx_log beg ([] @ stmts) (snd (fst (tx_body (logged ex) (c', [(sql_stmt beg, Inr out)]) stmts [])))
        (snd (tx_body (logged ex) (c', [(sql_stmt beg, Inr out)]) stmts []))"
      by (rule tx_body_log) simp_all
    moreover have "logged ex (c, []) (sql_stmt beg) = ((c', [(sql_stmt beg, y)]), y)" by (simp add: logged_def e)
    ultimately show ?thesis by (simp add: sequentialTx_def Inr case_prod_unfold)
  qed
qed

end
