(* ===== verification/Run_Worker.thy ===== *)
theory Run_Worker
  imports Exec_Run
begin

text \<open>
  \<open>experiments/sqlite-edge-compare/worker/index.ts\<close> and \<open>lib/client.ts\<close>: the probe Worker's key check and
  routes around the executor, and the client that splits a request over invocations, posts them and
  merges the answers. The digest, the network and the drivers are parameters; the order in which
  lanes move is the event list of each invocation.
\<close>

subsection \<open>The Worker's routes\<close>

record worker_env =
  we_PROBE_KEY :: string
  we_COMPAT_DATE :: string
  we_DRIVER_PG :: string
  we_DRIVER_LIBSQL :: string
  we_TURSODB_URL :: string

text \<open>The loop compares the digests byte for byte; past the end of the second it reads \<open>undefined\<close>, which is 0 in \<open>^\<close>.\<close>

definition digest_diff :: "8 word list \<Rightarrow> 8 word list \<Rightarrow> 8 word" where
  "digest_diff x y = foldl (\<lambda>d i. d OR (x ! i XOR (if i < length y then y ! i else 0))) 0 [0..<length x]"

definition keyOk :: "(string \<Rightarrow> 8 word list) \<Rightarrow> string option \<Rightarrow> string \<Rightarrow> bool" where
  "keyOk sha256 got want =
     (case got of None \<Rightarrow> False
      | Some g \<Rightarrow> if g = [] \<or> want = [] then False else digest_diff (sha256 g) (sha256 want) = 0)"

text \<open>The driver named in a response, and the one opener that refuses by itself.\<close>

definition opener_driver :: "worker_env \<Rightarrow> string \<Rightarrow> string \<times> string" where
  "opener_driver env b =
     (if b = ''d1'' then (''d1-binding'', we_COMPAT_DATE env)
      else if b = ''turso'' then (''@libsql/client/web'', we_DRIVER_LIBSQL env)
      else if b = ''tursodb'' then (''@libsql/client/web (tursodb)'', we_DRIVER_LIBSQL env)
      else if b = ''do'' then (''durable-object-rpc(sqlite)'', we_COMPAT_DATE env)
      else if b = ''pg'' then (''pg+hyperdrive(nocache)'', we_DRIVER_PG env)
      else if b = ''pg_cached'' then (''pg+hyperdrive(cached)'', we_DRIVER_PG env)
      else (''fetch+postgrest'', ''n/a''))"

definition open_refusal :: "worker_env \<Rightarrow> string \<Rightarrow> string option" where
  "open_refusal env b =
     (if b = ''tursodb'' \<and> we_TURSODB_URL env = [] then Some ''tursodb: not configured (no Turso-engine database in the fixture)'' else None)"

text \<open>\<open>Number(req.iOffset) || 0\<close>; the contract gives a number or leaves it out.\<close>

definition worker_offset :: "json \<Rightarrow> int" where
  "worker_offset b = (case jget ''iOffset'' b of Some (JNum n) \<Rightarrow> n | _ \<Rightarrow> 0)"

text \<open>What an invocation meets: its clock, the events of its lanes, and whether the code around the run throws.\<close>

record invocation =
  iv_colo :: string
  iv_tStart :: rat
  iv_c0 :: "nat \<Rightarrow> rat"
  iv_startedAt :: string
  iv_tEnd :: rat
  iv_events :: "exec_event list"
  iv_throws :: "driver_error option"

datatype worker_reply = RunReply run_response | ErrorReply nat string | MetaReply

record worker_request =
  wq_method :: string
  wq_path :: string
  wq_key :: "string option"
  wq_json :: "json option"

definition worker_opts :: "worker_env \<Rightarrow> invocation \<Rightarrow> valid_run \<Rightarrow> exec_opts" where
  "worker_opts env iv v =
     \<lparr>xo_colo = iv_colo iv, xo_driver = opener_driver env (vr_backend v), xo_iOffset = worker_offset (vr_body v)\<rparr>"

definition worker_run :: "worker_env \<Rightarrow> invocation \<Rightarrow> json \<Rightarrow> worker_reply option" where
  "worker_run env iv body =
     (case validateRunRequest (Some body) WORKER_BACKENDS of
        Inl e \<Rightarrow> Some (ErrorReply 400 e)
      | Inr v \<Rightarrow>
          (case iv_throws iv of
             Some e \<Rightarrow> Some (ErrorReply 500 (''executor threw: '' @ errText e))
           | None \<Rightarrow> map_option RunReply
               (executeRun v (worker_opts env iv v) (iv_tStart iv) (iv_c0 iv) (iv_startedAt iv) (iv_tEnd iv) (iv_events iv))))"

text \<open>\<open>fetch\<close>: \<open>None\<close> while the run is under way.\<close>

definition worker_fetch :: "(string \<Rightarrow> 8 word list) \<Rightarrow> worker_env \<Rightarrow> invocation \<Rightarrow> worker_request \<Rightarrow> worker_reply option" where
  "worker_fetch sha256 env iv rq =
     (if \<not> keyOk sha256 (wq_key rq) (we_PROBE_KEY env) then Some (ErrorReply 401 ''missing or wrong X-Probe-Key'')
      else if wq_path rq = ''/meta'' \<and> wq_method rq = ''GET'' then Some MetaReply
      else if wq_path rq = ''/run'' \<and> wq_method rq = ''POST'' then
        (case wq_json rq of None \<Rightarrow> Some (ErrorReply 400 ''body is not JSON'') | Some body \<Rightarrow> worker_run env iv body)
      else Some (ErrorReply 404 ''routes: POST /run, GET /meta''))"

subsection \<open>Splitting and merging\<close>

function chunk_loop :: "int \<Rightarrow> nat \<Rightarrow> int list" where
  "chunk_loop left per = (if left > 0 \<and> per > 0 then min (int per) left # chunk_loop (left - int per) per else [])"
  by pat_completeness auto
termination by (relation "measure (\<lambda>(left, per). nat left)") auto

declare chunk_loop.simps [simp del]

definition chunkPlan :: "int \<Rightarrow> nat \<Rightarrow> nat \<Rightarrow> int list" where
  "chunkPlan rep statements cap = chunk_loop rep (max 1 (cap div max 1 statements))"

record run_result = run_response +
  rr_invocations :: nat
  rr_colos :: "string list"
  rr_httpMs :: "rat list"
  rr_summary :: summary

definition merge_ops :: "run_response list \<Rightarrow> op_result list" where
  "merge_ops parts = concat (map (\<lambda>(inv, p). map (\<lambda>x. x\<lparr>op_inv := inv\<rparr>) (rsp_ops p)) (enumerate 0 parts))"

definition merge_lanes :: "run_response list \<Rightarrow> lane_info list" where
  "merge_lanes parts = concat (map (\<lambda>(inv, p). map (\<lambda>l. l\<lparr>li_lane := li_lane l + inv * 1000\<rparr>) (rsp_lanes p)) (enumerate 0 parts))"

definition merge_errs :: "run_response list \<Rightarrow> string list" where
  "merge_errs parts = concat (map (\<lambda>p. case rsp_error p of Some e \<Rightarrow> if \<not> rsp_ok p \<and> e \<noteq> [] then [e] else [] | None \<Rightarrow> []) parts)"

definition mergeRuns :: "run_response list \<Rightarrow> rat list \<Rightarrow> string + run_result" where
  "mergeRuns parts httpMs =
     (case parts of
        [] \<Rightarrow> Inl ''mergeRuns: nothing to merge''
      | p0 # _ \<Rightarrow>
          let ops = merge_ops parts; lanes = merge_lanes parts; errs = merge_errs parts
          in Inr \<lparr>rsp_ok = list_all rsp_ok parts,
                  rsp_error = (if errs = [] then rsp_error p0 else Some (join ''; '' (uniq errs))),
                  rsp_backend = rsp_backend p0, rsp_mode = rsp_mode p0,
                  rsp_repeat = sum_list (map rsp_repeat parts), rsp_concurrency = rsp_concurrency p0, rsp_label = rsp_label p0,
                  rsp_colo = rsp_colo p0, rsp_startedAt = rsp_startedAt p0, rsp_wallMs = sum_list (map rsp_wallMs parts),
                  rsp_lanes = lanes, rsp_ops = ops, rsp_errors = countErrors ops lanes, rsp_driver = rsp_driver p0,
                  rr_invocations = length parts, rr_colos = uniq (filter (\<lambda>c. c \<noteq> []) (map rsp_colo parts)), rr_httpMs = httpMs,
                  rr_summary = summarize (map op_ms (filter op_ok ops)) 0\<rparr>)"

subsection \<open>Posting to the Worker\<close>

text \<open>What the network gave: the Worker's answer, a status and text that is not JSON, or an error.\<close>

datatype http_outcome = Answered worker_reply | NotJson nat string | FetchFailed string

definition blank_response :: "json \<Rightarrow> run_response" where
  "blank_response body =
     \<lparr>rsp_ok = False, rsp_error = None,
      rsp_backend = (case str_of (jget ''backend'' body) of Some s \<Rightarrow> s | None \<Rightarrow> []),
      rsp_mode = (case Option.bind (str_of (jget ''mode'' body)) mode_of_text of Some m \<Rightarrow> m | None \<Rightarrow> Each),
      rsp_repeat = 0, rsp_concurrency = (case int_field ''concurrency'' body of Some c \<Rightarrow> nat c | None \<Rightarrow> 1),
      rsp_label = None, rsp_colo = [], rsp_startedAt = [], rsp_wallMs = 0, rsp_lanes = [], rsp_ops = [], rsp_errors = [], rsp_driver = ([], [])\<rparr>"

definition post :: "json \<Rightarrow> http_outcome \<Rightarrow> run_response" where
  "post body out =
     (case out of
        Answered (RunReply r) \<Rightarrow> r
      | Answered (ErrorReply _ e) \<Rightarrow> (blank_response body)\<lparr>rsp_error := Some e\<rparr>
      | Answered MetaReply \<Rightarrow> blank_response body
      | NotJson status txt \<Rightarrow> (blank_response body)\<lparr>rsp_error := Some (''HTTP '' @ show_nat status @ '' non-JSON: '' @ take 300 txt)\<rparr>
      | FetchFailed e \<Rightarrow> (blank_response body)\<lparr>rsp_error := Some (''fetch: '' @ e)\<rparr>)"

definition chunk_body :: "json obj \<Rightarrow> int \<Rightarrow> int \<Rightarrow> json" where
  "chunk_body req n off =
     JObj (let b = obj_put ''repeat'' (JNum n) req in if off \<noteq> 0 then obj_put ''iOffset'' (JNum off) b else b)"

fun chunk_bodies :: "json obj \<Rightarrow> int \<Rightarrow> int list \<Rightarrow> json list" where
  "chunk_bodies req off [] = []"
| "chunk_bodies req off (n # ns) = chunk_body req n off # chunk_bodies req (off + n) ns"

definition chunks_of :: "json obj \<Rightarrow> int list" where
  "chunks_of req =
     (let rep = (case int_field ''repeat'' (JObj req) of Some n \<Rightarrow> n | None \<Rightarrow> 0);
          stmts = (case Option.bind (jget ''statements'' (JObj req)) jarr of Some ss \<Rightarrow> ss | None \<Rightarrow> [])
      in if flag_set ''noSplit'' (JObj req) then [rep] else chunkPlan rep (length stmts) OPS_PER_INVOCATION)"

text \<open>
  The bodies in the order they are posted, each chunk in \<open>k\<close> copies, and the merge of what came back:
  the \<open>p\<close>-th posting meets the \<open>p\<close>-th outcome and takes the \<open>p\<close>-th time.
\<close>

definition posted :: "json obj \<Rightarrow> nat \<Rightarrow> json list" where
  "posted req invocations = concat (map (replicate (max 1 invocations)) (chunk_bodies req 0 (chunks_of req)))"

definition runOnWorker :: "json obj \<Rightarrow> nat \<Rightarrow> (nat \<Rightarrow> json \<Rightarrow> http_outcome) \<Rightarrow> (nat \<Rightarrow> rat) \<Rightarrow> string + run_result" where
  "runOnWorker req invocations net ms =
     (let bs = posted req invocations
      in mergeRuns (map (\<lambda>(p, b). post b (net p b)) (enumerate 0 bs)) (map ms [0..<length bs]))"

definition local_driver :: "string \<Rightarrow> string \<times> string" where
  "local_driver b =
     (if b = ''turso_http'' then (''@libsql/client/web'', ''local'')
      else if b = ''pg_pooler'' then (''pg pooler:6543'', ''local'')
      else if b = ''pg_session'' then (''pg pooler:5432'', ''local'')
      else if b = ''pg_direct'' then (''pg direct:5432'', ''local'')
      else if b = ''d1_rest'' then (''d1 REST /query'', ''v4'')
      else (''fetch+postgrest'', ''local''))"

definition runLocal :: "json obj \<Rightarrow> invocation \<Rightarrow> rat \<Rightarrow> (string + run_result) option" where
  "runLocal req iv ms =
     (case validateRunRequest (Some (JObj (obj_put ''noSplit'' (JBool True) req))) LOCAL_BACKENDS of
        Inl e \<Rightarrow> Some (Inl (''runLocal: '' @ e))
      | Inr v \<Rightarrow>
          map_option (\<lambda>res. mergeRuns [res] [ms])
            (executeRun v \<lparr>xo_colo = ''local'', xo_driver = local_driver (vr_backend v), xo_iOffset = 0\<rparr> (iv_tStart iv) (iv_c0 iv)
               (iv_startedAt iv) (iv_tEnd iv) (iv_events iv)))"

subsection \<open>The key check\<close>

lemma or_zero_iff: "(a OR b = (0 :: 8 word)) \<longleftrightarrow> a = 0 \<and> b = 0"
  by (auto simp: bit_eq_iff bit_or_iff)

lemma digest_fold_zero: "foldl (\<lambda>d i. d OR f i) d0 is = (0 :: 8 word) \<longleftrightarrow> d0 = 0 \<and> (\<forall>i \<in> set is. f i = 0)"
  by (induction "is" arbitrary: d0) (auto simp: or_zero_iff)

lemma xor_zero_iff: "(a XOR b = (0 :: 8 word)) \<longleftrightarrow> a = b"
  by (metis xor_self_eq xor.assoc xor.left_neutral xor.commute)

lemma digest_diff_zero: "length x = length y \<Longrightarrow> digest_diff x y = 0 \<longleftrightarrow> x = y"
  by (simp add: digest_diff_def digest_fold_zero xor_zero_iff list_eq_iff_nth_eq [of x y] Ball_def)

text \<open>The Worker serves no route without its key: with a digest of 32 bytes, a request gets 401, whatever its
  path, method and body, exactly when its key or the configured key is absent or empty, or their
  digests differ in any byte.\<close>

lemma worker_key:
  assumes "\<And>s. length (sha256 s) = 32"
  shows "worker_fetch sha256 env iv rq = Some (ErrorReply 401 ''missing or wrong X-Probe-Key'') \<longleftrightarrow>
    \<not> (\<exists>k. wq_key rq = Some k \<and> k \<noteq> [] \<and> we_PROBE_KEY env \<noteq> [] \<and> sha256 k = sha256 (we_PROBE_KEY env))"
proof -
  have k: "keyOk sha256 (wq_key rq) (we_PROBE_KEY env) \<longleftrightarrow>
      (\<exists>k. wq_key rq = Some k \<and> k \<noteq> [] \<and> we_PROBE_KEY env \<noteq> [] \<and> sha256 k = sha256 (we_PROBE_KEY env))"
    by (auto simp: keyOk_def digest_diff_zero assms split: option.splits)
  have "worker_run env iv b \<noteq> Some (ErrorReply 401 m)" for b m
    by (auto simp: worker_run_def split: sum.splits option.splits)
  then show ?thesis by (auto simp: worker_fetch_def k split: option.splits)
qed

definition lone_lane :: "exec_event list \<Rightarrow> invocation" where
  "lone_lane es = \<lparr>iv_colo = ''SYD'', iv_tStart = 0, iv_c0 = (\<lambda>_. 0), iv_startedAt = [], iv_tEnd = 9, iv_events = es, iv_throws = None\<rparr>"

definition example_env :: worker_env where
  "example_env = \<lparr>we_PROBE_KEY = ''k1'', we_COMPAT_DATE = [], we_DRIVER_PG = [], we_DRIVER_LIBSQL = [], we_TURSODB_URL = []\<rparr>"

subsection \<open>Splitting keeps every iteration\<close>

lemma chunk_loop_sum: "per > 0 \<Longrightarrow> left \<ge> 0 \<Longrightarrow> sum_list (chunk_loop left per) = left"
proof (induction left per rule: chunk_loop.induct)
  case (1 left per)
  show ?case
  proof (cases "int per < left")
    case True
    with 1 show ?thesis by (simp add: chunk_loop.simps [of left])
  next
    case False
    with 1(2,3) show ?thesis by (auto simp: chunk_loop.simps [of left] chunk_loop.simps [of "left - int per"])
  qed
qed

lemma chunk_loop_bound: "n \<in> set (chunk_loop left per) \<Longrightarrow> 1 \<le> n \<and> n \<le> int per"
proof (induction left per rule: chunk_loop.induct)
  case (1 left per)
  then show ?case by (auto simp: chunk_loop.simps [of left] split: if_splits)
qed

lemma chunk_fits:
  assumes "n \<in> set (chunkPlan rep stmts cap)" "0 < stmts" "stmts \<le> cap"
  shows "1 \<le> n" "nat n * stmts \<le> cap"
proof -
  have per: "cap div stmts > 0" using assms by (simp add: div_greater_zero_iff)
  with assms have n: "1 \<le> n \<and> n \<le> int (cap div stmts)" using chunk_loop_bound [of n rep] by (auto simp: chunkPlan_def max_def)
  then show "1 \<le> n" by simp
  have "nat n \<le> cap div stmts" using n by linarith
  then have "nat n * stmts \<le> cap div stmts * stmts" by (rule mult_le_mono1)
  also have "\<dots> \<le> cap" by (rule div_times_less_eq_dividend)
  finally show "nat n * stmts \<le> cap" .
qed

lemma chunkPlan_sum: "rep \<ge> 0 \<Longrightarrow> sum_list (chunkPlan rep stmts cap) = rep"
  by (simp add: chunkPlan_def chunk_loop_sum)

lemma chunk_body_get: "k \<noteq> ''repeat'' \<Longrightarrow> k \<noteq> ''iOffset'' \<Longrightarrow> jget k (chunk_body req n off) = jget k (JObj req)"
  by (simp add: chunk_body_def Let_def)

lemma chunk_body_repeat: "jget ''repeat'' (chunk_body req n off) = Some (JNum n)"
  by (simp add: chunk_body_def Let_def)

text \<open>A request that is well typed apart from its size.\<close>

definition splittable :: "json obj \<Rightarrow> valid_run \<Rightarrow> bool" where
  "splittable req v =
     (validateRunRequest (Some (JObj (obj_put ''noSplit'' (JBool True) req))) WORKER_BACKENDS = Inr v \<and>
      \<not> flag_set ''noSplit'' (JObj req) \<and> jget ''iOffset'' (JObj req) = None)"

definition chunk_run :: "json obj \<Rightarrow> valid_run \<Rightarrow> int \<Rightarrow> int \<Rightarrow> valid_run" where
  "chunk_run req v n off = v\<lparr>vr_body := chunk_body req n off, vr_repeat := nat n\<rparr>"

lemma int_field_cong: "jget k a = jget k b \<Longrightarrow> int_field k a = int_field k b"
  by (simp add: int_field_def)

lemma mode_typed_cong: "jget ''mode'' a = jget ''mode'' b \<Longrightarrow> mode_typed a m = mode_typed b m"
  by (simp add: mode_typed_def)

lemma chunk_accepted:
  assumes v: "splittable req v" and n: "1 \<le> n" "nat n * length (vr_statements v) \<le> OPS_PER_INVOCATION"
  shows "validateRunRequest (Some (chunk_body req n off)) WORKER_BACKENDS = Inr (chunk_run req v n off)"
proof -
  let ?big = "JObj (obj_put ''noSplit'' (JBool True) req)"
  have w: "well_typed_run WORKER_BACKENDS ?big v" using v by (simp add: splittable_def validate_typed)
  have get: "jget k (chunk_body req n off) = jget k ?big" if "k \<noteq> ''repeat''" "k \<noteq> ''iOffset''" "k \<noteq> ''noSplit''" for k
    using that by (simp add: chunk_body_get)
  have "int_field ''repeat'' (chunk_body req n off) = Some n"
    by (simp add: int_field_def chunk_body_repeat coalesce_def nn_def)
  moreover have "int_field ''concurrency'' (chunk_body req n off) = int_field ''concurrency'' ?big" by (rule int_field_cong) (rule get; simp)
  moreover have "mode_typed (chunk_body req n off) m = mode_typed ?big m" for m by (rule mode_typed_cong) (rule get; simp)
  moreover have "jget ''backend'' (chunk_body req n off) = jget ''backend'' ?big" "jget ''statements'' (chunk_body req n off) = jget ''statements'' ?big"
    by (rule get; simp)+
  ultimately have "well_typed_run WORKER_BACKENDS (chunk_body req n off) (chunk_run req v n off)"
    using w n unfolding well_typed_run_def chunk_run_def by (simp del: jget_simps)
  then show ?thesis by (simp add: validate_typed)
qed

lemma splittable_facts:
  assumes "splittable req v"
  shows "int_field ''repeat'' (JObj req) = Some (int (vr_repeat v))" "1 \<le> vr_repeat v"
    "Option.bind (jget ''statements'' (JObj req)) jarr = Some (vr_statements v)"
    "0 < length (vr_statements v)" "length (vr_statements v) \<le> OPS_PER_INVOCATION"
proof -
  let ?big = "JObj (obj_put ''noSplit'' (JBool True) req)"
  have w: "well_typed_run WORKER_BACKENDS ?big v" using assms by (simp add: splittable_def validate_typed)
  have "int_field ''repeat'' (JObj req) = int_field ''repeat'' ?big" by (rule int_field_cong) simp
  moreover have "jget ''statements'' (JObj req) = jget ''statements'' ?big" by simp
  ultimately show "int_field ''repeat'' (JObj req) = Some (int (vr_repeat v))" "1 \<le> vr_repeat v"
    "Option.bind (jget ''statements'' (JObj req)) jarr = Some (vr_statements v)"
    "0 < length (vr_statements v)" "length (vr_statements v) \<le> OPS_PER_INVOCATION"
    using w by (auto simp: well_typed_run_def jarr_def MAX_STATEMENTS_def OPS_PER_INVOCATION_def)
qed

lemma splittable_chunks:
  assumes "splittable req v"
  shows "chunks_of req = chunkPlan (int (vr_repeat v)) (length (vr_statements v)) OPS_PER_INVOCATION"
  using splittable_facts(1,3) [OF assms] assms by (simp add: chunks_of_def splittable_def Let_def)

lemma chunk_bodies_set: "b \<in> set (chunk_bodies req off ns) \<Longrightarrow> \<exists>n \<in> set ns. \<exists>f. b = chunk_body req n f"
  by (induction ns arbitrary: off) auto

text \<open>The Worker refuses no part of a split request: if a request is well typed apart from its size, then
  however many iterations it asks for and however many copies are sent, every body the client posts
  passes the Worker's own check.\<close>

lemma posted_accepted:
  assumes "splittable req v" "b \<in> set (posted req k)"
  shows "\<exists>w. validateRunRequest (Some b) WORKER_BACKENDS = Inr w \<and> vr_statements w = vr_statements v \<and> vr_mode w = vr_mode v \<and>
    vr_backend w = vr_backend v \<and> vr_concurrency w = vr_concurrency v"
proof -
  obtain n f where n: "n \<in> set (chunks_of req)" and b: "b = chunk_body req n f"
    using assms(2) chunk_bodies_set by (fastforce simp: posted_def)
  from n have "1 \<le> n" "nat n * length (vr_statements v) \<le> OPS_PER_INVOCATION"
    using chunk_fits splittable_facts(4,5) [OF assms(1)] by (auto simp: splittable_chunks [OF assms(1)])
  from chunk_accepted [OF assms(1) this, of f] show ?thesis by (auto simp: b chunk_run_def)
qed

definition hundred :: "json obj" where
  "hundred = [(''backend'', JStr ''pg''), (''statements'', JArr (replicate 100 (sql_stmt ''SELECT 1''))), (''repeat'', JNum 6), (''mode'', JStr ''batch'')]"

definition hundred_run :: valid_run where
  "hundred_run = \<lparr>vr_body = JObj (obj_put ''noSplit'' (JBool True) hundred), vr_backend = ''pg'', vr_statements = replicate 100 (sql_stmt ''SELECT 1''),
     vr_repeat = 6, vr_concurrency = 1, vr_mode = Batch\<rparr>"

lemma hundred_splittable: "splittable hundred hundred_run"
  by code_simp

text \<open>The calls of a run are those of its first iterations followed by those of the rest, shifted.\<close>

definition plain_key :: "valid_run \<Rightarrow> nat \<times> nat \<Rightarrow> int \<times> int" where
  "plain_key v c = (int (fst c), stmt_index v (snd c))"

lemma call_list_add: "call_list v (m + n) = call_list v m @ map (\<lambda>c. (fst c + m, snd c)) (call_list v n)"
proof (induction n)
  case 0
  then show ?case by (simp add: call_list_def)
next
  case (Suc n)
  then show ?case by (simp add: call_list_Suc comp_def add.commute)
qed

lemma chunk_call_key: "worker_offset (chunk_body req n off) = (if off \<noteq> 0 then off else case jget ''iOffset'' (JObj req) of Some (JNum m) \<Rightarrow> m | _ \<Rightarrow> 0)"
  by (simp add: worker_offset_def chunk_body_def Let_def)

lemma chunk_keys:
  assumes v: "splittable req v" and n: "1 \<le> n" "nat n * length (vr_statements v) \<le> OPS_PER_INVOCATION"
    and run: "worker_run env iv (chunk_body req n (int m)) = Some (RunReply r)" and up: "list_ex (\<lambda>l. li_error l = None) (rsp_lanes r)"
  shows "map op_key (rsp_ops r) = map (plain_key v) (map (\<lambda>c. (fst c + m, snd c)) (call_list v (nat n)))"
    and "rsp_repeat r = nat n" and "rsp_ok r" and "rsp_error r = None"
proof -
  let ?w = "chunk_run req v n (int m)"
  have ex: "executeRun ?w (worker_opts env iv ?w) (iv_tStart iv) (iv_c0 iv) (iv_startedAt iv) (iv_tEnd iv) (iv_events iv) = Some r"
    using run chunk_accepted [OF v n, of "int m"] by (auto simp: worker_run_def split: option.splits)
  have off: "worker_offset (chunk_body req n (int m)) = int m" using v by (simp add: chunk_call_key splittable_def)
  have "call_list ?w = call_list v" by (rule ext) (simp add: call_list_def calls_def chunk_run_def)
  moreover have "call_key ?w (worker_opts env iv ?w) = plain_key v \<circ> (\<lambda>c. (fst c + m, snd c))"
    by (rule ext) (simp add: call_key_def plain_key_def worker_opts_def chunk_run_def off stmt_index_def)
  ultimately show "map op_key (rsp_ops r) = map (plain_key v) (map (\<lambda>c. (fst c + m, snd c)) (call_list v (nat n)))"
    using run_ops [OF ex up] by (simp add: chunk_run_def)
  show "rsp_repeat r = nat n" "rsp_ok r" "rsp_error r = None"
    using ex by (auto simp: executeRun_def response_of_def Let_def chunk_run_def split: if_splits)
qed

text \<open>An invocation that answered with its run, on a lane that opened.\<close>

definition answered_run :: "worker_env \<Rightarrow> invocation \<Rightarrow> json \<Rightarrow> run_response \<Rightarrow> bool" where
  "answered_run env iv b r = (worker_run env iv b = Some (RunReply r) \<and> list_ex (\<lambda>l. li_error l = None) (rsp_lanes r))"

lemma chunks_together:
  assumes v: "splittable req v" and ns: "\<forall>n \<in> set ns. 1 \<le> n \<and> nat n * length (vr_statements v) \<le> OPS_PER_INVOCATION"
    and rs: "list_all2 (\<lambda>b r. \<exists>iv. answered_run env iv b r) (chunk_bodies req (int m) ns) rs"
  shows "concat (map (\<lambda>r. map op_key (rsp_ops r)) rs) = map (plain_key v) (map (\<lambda>c. (fst c + m, snd c)) (call_list v (nat (sum_list ns))))"
    and "sum_list (map rsp_repeat rs) = nat (sum_list ns)" and "list_all rsp_ok rs"
  using ns rs
proof (atomize (full), induction ns arbitrary: m rs)
  case Nil
  then show ?case by (simp add: call_list_def)
next
  case (Cons n ns)
  let ?m = "m + nat n"
  have n: "1 \<le> n" "nat n * length (vr_statements v) \<le> OPS_PER_INVOCATION" using Cons.prems(1) by auto
  then have off: "int m + n = int ?m" by simp
  obtain r rs' where rs: "rs = r # rs'" and "\<exists>iv. answered_run env iv (chunk_body req n (int m)) r"
    and rest: "list_all2 (\<lambda>b r. \<exists>iv. answered_run env iv b r) (chunk_bodies req (int ?m) ns) rs'"
    using Cons.prems(2) by (cases rs) (auto simp del: of_nat_add simp: off)
  then obtain iv where run: "worker_run env iv (chunk_body req n (int m)) = Some (RunReply r)" "list_ex (\<lambda>l. li_error l = None) (rsp_lanes r)"
    by (auto simp: answered_run_def)
  note ih = Cons.IH [OF _ rest] and this_chunk = chunk_keys [OF v n run]
  have ns: "\<forall>n \<in> set ns. 1 \<le> n \<and> nat n * length (vr_statements v) \<le> OPS_PER_INVOCATION" using Cons.prems(1) by simp
  then have "sum_list ns \<ge> 0" by (intro sum_list_nonneg) auto
  with n have sum: "nat (n + sum_list ns) = nat n + nat (sum_list ns)" by (simp add: nat_add_distrib)
  show ?case using ih [OF ns] this_chunk by (simp add: rs sum call_list_add comp_def ac_simps)
qed

lemma map_enumerate: "map g (concat (map (\<lambda>(i, p). map (f i) (h p)) (enumerate n ps))) = concat (map (\<lambda>p. map k (h p)) ps)"
  if "\<And>i x. g (f i x) = k x"
  using that by (induction ps arbitrary: n) (auto simp: comp_def)

lemma merge_ops_keys: "map op_key (merge_ops parts) = concat (map (\<lambda>r. map op_key (rsp_ops r)) parts)"
  unfolding merge_ops_def by (rule map_enumerate) (simp add: op_key_def)

lemma merge_some:
  "rs \<noteq> [] \<Longrightarrow> \<exists>res. mergeRuns rs ms = Inr res \<and> rsp_ok res = list_all rsp_ok rs \<and> rsp_repeat res = sum_list (map rsp_repeat rs) \<and>
     rsp_ops res = merge_ops rs"
  by (cases rs) (auto simp: mergeRuns_def Let_def)


definition lane_events :: "nat \<Rightarrow> exec_event list" where
  "lane_events n = Opened 0 1 1 # replicate n (Replies 0 (Inr []) 2 2) @ [Closes 0]"

definition hundred_runs :: "run_response list" where
  "hundred_runs = List.map_filter (\<lambda>(n, b). case worker_run example_env (lone_lane (lane_events n)) b of Some (RunReply r) \<Rightarrow> Some r | _ \<Rightarrow> None)
     (zip [5, 1] (posted hundred 1))"


end
