(* ===== verification/Lane_Adapters.thy ===== *)
theory Lane_Adapters
  imports Run_Worker
begin

text \<open>
  \<open>experiments/sqlite-edge-compare/lib/adapters.ts\<close>: one adapter for each backend turns a driver into the
  calls the executor makes, and \<open>meta\<close> of \<open>worker/index.ts\<close> makes one such call on each backend. A driver is
  a parameter: a function of the connection's state. Adapters let a driver's error through.
\<close>

type_synonym ('s, 'a) io = "'s \<Rightarrow> 's \<times> (driver_error + 'a)"

record 's lane_conn =
  ln_each :: "'s \<Rightarrow> json \<Rightarrow> 's \<times> (driver_error + stmt_out)"
  ln_batch :: "'s \<Rightarrow> json list \<Rightarrow> 's \<times> (driver_error + stmt_out list)"
  ln_tx :: "'s \<Rightarrow> json list \<Rightarrow> 's \<times> (driver_error + stmt_out list)"

definition io_map :: "('a \<Rightarrow> 'b) \<Rightarrow> 's \<times> (driver_error + 'a) \<Rightarrow> 's \<times> (driver_error + 'b)" where
  "io_map f r = (fst r, case snd r of Inl e \<Rightarrow> Inl e | Inr x \<Rightarrow> Inr (f x))"

definition stmt_sql :: "json \<Rightarrow> string" where
  "stmt_sql s = (case str_of (jget ''sql'' s) of Some q \<Rightarrow> q | None \<Rightarrow> [])"

definition stmt_params :: "json \<Rightarrow> json list" where
  "stmt_params s = (case Option.bind (jget ''params'' s) jarr of Some ps \<Rightarrow> ps | None \<Rightarrow> [])"

subsection \<open>Values of a driver\<close>

text \<open>A date stays a date until it is serialised as its text.\<close>

datatype dval =
    VNull
  | VBool bool
  | VNum int
  | VStr string
  | VBig int
  | VBlob nat
  | VDate string
  | VArr "dval list"
  | VObj "(string \<times> dval) list"

fun jsonSafe :: "dval \<Rightarrow> json" where
  "jsonSafe (VBig n) = JStr (show_int n)"
| "jsonSafe (VBlob n) = JStr (''<blob '' @ show_nat n @ '' bytes>'')"
| "jsonSafe (VArr xs) = JArr (map jsonSafe xs)"
| "jsonSafe (VObj m) = JObj (map (\<lambda>(k, x). (k, jsonSafe x)) m)"
| "jsonSafe (VDate s) = JStr s"
| "jsonSafe VNull = JNull"
| "jsonSafe (VBool b) = JBool b"
| "jsonSafe (VNum n) = JNum n"
| "jsonSafe (VStr s) = JStr s"

subsection \<open>The adapters\<close>

record d1_result =
  d1_results :: "json list option"
  d1_meta :: "json obj option"

definition d1_out :: "d1_result \<Rightarrow> stmt_out" where
  "d1_out r =
     (let rows = (case d1_results r of Some xs \<Rightarrow> xs | None \<Rightarrow> [])
      in \<lparr>ot_rowCount = Some (int (length rows)), ot_rows = Some rows, ot_meta = Some (case d1_meta r of Some m \<Rightarrow> m | None \<Rightarrow> [])\<rparr>)"

text \<open>A prepared statement: its text, and its parameters when it has any.\<close>

definition d1_prep :: "json \<Rightarrow> string \<times> json list option" where
  "d1_prep s = (stmt_sql s, if stmt_params s = [] then None else Some (stmt_params s))"

definition d1Lane :: "('s \<Rightarrow> string \<times> json list option \<Rightarrow> 's \<times> (driver_error + d1_result)) \<Rightarrow>
    ('s \<Rightarrow> (string \<times> json list option) list \<Rightarrow> 's \<times> (driver_error + d1_result list)) \<Rightarrow> 's lane_conn" where
  "d1Lane all batch =
     (let each = (\<lambda>c s. io_map d1_out (all c (d1_prep s)))
      in \<lparr>ln_each = each, ln_batch = (\<lambda>c ss. io_map (map d1_out) (batch c (map d1_prep ss))),
          ln_tx = (\<lambda>c ss. sequentialTx each c ss ''BEGIN TRANSACTION'')\<rparr>)"

definition no_out :: stmt_out where
  "no_out = \<lparr>ot_rowCount = None, ot_rows = None, ot_meta = None\<rparr>"

definition doLane :: "('s \<Rightarrow> json list \<Rightarrow> run_mode \<Rightarrow> 's \<times> (driver_error + stmt_out list)) \<Rightarrow> 's lane_conn" where
  "doLane run =
     (let each = (\<lambda>c s. io_map (\<lambda>outs. case outs of x # _ \<Rightarrow> x | [] \<Rightarrow> no_out) (run c [s] Each))
      in \<lparr>ln_each = each, ln_batch = (\<lambda>c ss. run c ss Batch), ln_tx = (\<lambda>c ss. sequentialTx each c ss ''BEGIN TRANSACTION'')\<rparr>)"

record libsql_result =
  ls_columns :: "string list"
  ls_rows :: "dval list list"
  ls_rowsAffected :: int
  ls_lastInsertRowid :: "int option"

definition libsqlOut :: "libsql_result \<Rightarrow> stmt_out" where
  "libsqlOut r =
     \<lparr>ot_rowCount = Some (int (length (ls_rows r))),
      ot_rows = Some (map (\<lambda>row. jsonSafe (VObj (obj_of (zip (ls_columns r) row)))) (ls_rows r)),
      ot_meta = Some [(''rowsAffected'', JNum (ls_rowsAffected r)),
        (''lastInsertRowid'', case ls_lastInsertRowid r of None \<Rightarrow> JNull | Some n \<Rightarrow> JStr (show_int n))]\<rparr>"

definition libsqlStmt :: "json \<Rightarrow> string \<times> json list" where
  "libsqlStmt s = (stmt_sql s, stmt_params s)"

text \<open>What a transaction asks of the client.\<close>

datatype lib_op = LibBegin | LibExec "string \<times> json list" | LibCommit | LibRollback | LibClose

fun lib_tx_body :: "('s \<Rightarrow> lib_op \<Rightarrow> 's \<times> (driver_error + libsql_result)) \<Rightarrow> 's \<Rightarrow> json list \<Rightarrow> stmt_out list \<Rightarrow> 's \<times> (driver_error + stmt_out list)" where
  "lib_tx_body cl c [] outs =
     (case cl c LibCommit of (c', Inl e) \<Rightarrow> (fst (cl c' LibRollback), Inl e) | (c', Inr _) \<Rightarrow> (c', Inr outs))"
| "lib_tx_body cl c (s # ss) outs =
     (case cl c (LibExec (libsqlStmt s)) of
        (c', Inl e) \<Rightarrow> (fst (cl c' LibRollback), Inl e)
      | (c', Inr x) \<Rightarrow> lib_tx_body cl c' ss (outs @ [libsqlOut x]))"

definition libsql_tx :: "('s \<Rightarrow> lib_op \<Rightarrow> 's \<times> (driver_error + libsql_result)) \<Rightarrow> 's \<Rightarrow> json list \<Rightarrow> 's \<times> (driver_error + stmt_out list)" where
  "libsql_tx cl c ss =
     (case cl c LibBegin of
        (c', Inl e) \<Rightarrow> (c', Inl e)
      | (c', Inr _) \<Rightarrow> (let (c'', res) = lib_tx_body cl c' ss [] in (fst (cl c'' LibClose), res)))"

definition libsqlLane :: "('s \<Rightarrow> string \<times> json list \<Rightarrow> 's \<times> (driver_error + libsql_result)) \<Rightarrow>
    ('s \<Rightarrow> (string \<times> json list) list \<Rightarrow> 's \<times> (driver_error + libsql_result list)) \<Rightarrow>
    ('s \<Rightarrow> lib_op \<Rightarrow> 's \<times> (driver_error + libsql_result)) \<Rightarrow> 's lane_conn" where
  "libsqlLane execute batch cl =
     \<lparr>ln_each = (\<lambda>c s. io_map libsqlOut (execute c (libsqlStmt s))),
      ln_batch = (\<lambda>c ss. io_map (map libsqlOut) (batch c (map libsqlStmt ss))),
      ln_tx = libsql_tx cl\<rparr>"

record pg_result =
  pq_rowCount :: "int option"
  pq_rows :: "dval list"
  pq_command :: string

definition pg_out :: "pg_result \<Rightarrow> stmt_out" where
  "pg_out r =
     \<lparr>ot_rowCount = Some (case pq_rowCount r of Some n \<Rightarrow> n | None \<Rightarrow> int (length (pq_rows r))),
      ot_rows = Some (map jsonSafe (pq_rows r)), ot_meta = Some [(''command'', JStr (pq_command r))]\<rparr>"

definition pgLane :: "('s \<Rightarrow> string \<times> json list \<Rightarrow> 's \<times> (driver_error + pg_result)) \<Rightarrow> 's lane_conn" where
  "pgLane query =
     (let each = (\<lambda>c s. io_map pg_out (query c (stmt_sql s, stmt_params s)))
      in \<lparr>ln_each = each, ln_batch = (\<lambda>c ss. sequentialTx each c ss ''BEGIN''), ln_tx = (\<lambda>c ss. sequentialTx each c ss ''BEGIN'')\<rparr>)"

text \<open>Opening a lane: a connection that fails is ended before the error goes on, whatever ending it gives.\<close>

definition pg_open :: "('s \<Rightarrow> 's \<times> (driver_error + 'a)) \<Rightarrow> ('s \<Rightarrow> 's \<times> (driver_error + 'b)) \<Rightarrow> 's \<Rightarrow> 's \<times> (driver_error + 'a)" where
  "pg_open connect close c = (case connect c of (c', Inl e) \<Rightarrow> (fst (close c'), Inl e) | (c', Inr x) \<Rightarrow> (c', Inr x))"

datatype pg_path = PgPooler | PgSession | PgDirect

text \<open>Host, port and user of a local path.\<close>

definition pgConfig :: "string \<Rightarrow> string \<Rightarrow> string \<Rightarrow> pg_path \<Rightarrow> string \<times> nat \<times> string" where
  "pgConfig poolerHost poolerUser direct path =
     (if path = PgDirect then (direct, 5432, ''postgres'') else (poolerHost, if path = PgPooler then 6543 else 5432, poolerUser))"

text \<open>
  The Durable Object runs statements on its own storage: \<open>changes\<close> counts the rows each one changed. A
  batch that fails is undone as \<open>transactionSync\<close> promises; otherwise what ran before the failure stays.
\<close>

fun do_statements :: "('s \<Rightarrow> int) \<Rightarrow> ('s \<Rightarrow> string \<times> json list \<Rightarrow> 's \<times> (driver_error + json list \<times> int \<times> int)) \<Rightarrow> 's \<Rightarrow> json list \<Rightarrow>
    's \<times> (driver_error + stmt_out list)" where
  "do_statements changes ex c [] = (c, Inr [])"
| "do_statements changes ex c (s # ss) =
     (case ex c (stmt_sql s, stmt_params s) of
        (c', Inl e) \<Rightarrow> (c', Inl e)
      | (c', Inr (rows, rowsRead, rowsWritten)) \<Rightarrow>
          io_map (\<lambda>outs. \<lparr>ot_rowCount = Some (int (length rows)), ot_rows = Some rows,
              ot_meta = Some [(''rowsRead'', JNum rowsRead), (''rowsWritten'', JNum rowsWritten), (''changes'', JNum (changes c' - changes c))]\<rparr> # outs)
            (do_statements changes ex c' ss))"

definition ProbeDO_run :: "('s \<Rightarrow> int) \<Rightarrow> ('s \<Rightarrow> string \<times> json list \<Rightarrow> 's \<times> (driver_error + json list \<times> int \<times> int)) \<Rightarrow> ('s \<Rightarrow> 's \<Rightarrow> 's) \<Rightarrow>
    's \<Rightarrow> json list \<Rightarrow> run_mode \<Rightarrow> 's \<times> (driver_error + stmt_out list)" where
  "ProbeDO_run changes ex undo c ss mode =
     (case do_statements changes ex c ss of
        (c', Inl e) \<Rightarrow> (if mode = Batch then undo c c' else c', Inl e)
      | (c', Inr outs) \<Rightarrow> (c', Inr outs))"

text \<open>PostgREST: the request, and what its answer becomes.\<close>

record rest_request =
  rst_url :: string
  rst_method :: json
  rst_headers :: "json obj"
  rst_body :: "string option"

record rest_reply =
  rsr_status :: nat
  rsr_text :: string
  rsr_contentRange :: "string option"

definition spread :: "json obj \<Rightarrow> json obj \<Rightarrow> json obj" where
  "spread a b = foldl (\<lambda>m (k, v). obj_put k v m) a b"

definition rest_of_stmt :: "string \<Rightarrow> string \<Rightarrow> json \<Rightarrow> rest_request" where
  "rest_of_stmt baseUrl key h =
     \<lparr>rst_url = baseUrl @ ''/rest/v1/'' @ dropWhile (\<lambda>c. c = CHR ''/'') (case str_of (jget ''path'' h) of Some p \<Rightarrow> p | None \<Rightarrow> []),
      rst_method = (case jget ''method'' h of Some m \<Rightarrow> m | None \<Rightarrow> JStr ''GET''),
      rst_headers = spread ([(''apikey'', JStr key)] @ (if jget ''body'' h = None then [] else [(''Content-Type'', JStr ''application/json'')]))
        (case jget ''headers'' h of Some (JObj m) \<Rightarrow> m | _ \<Rightarrow> []),
      rst_body = map_option json_stringify (jget ''body'' h)\<rparr>"

definition rest_rows :: "(string \<Rightarrow> json option) \<Rightarrow> string \<Rightarrow> json list" where
  "rest_rows parse txt =
     (let body = (if txt = [] then JNull else case parse txt of Some b \<Rightarrow> b | None \<Rightarrow> JStr (take 300 txt))
      in case body of JArr xs \<Rightarrow> xs | JNull \<Rightarrow> [] | _ \<Rightarrow> [body])"

definition postgrestCall :: "(string \<Rightarrow> json option) \<Rightarrow> ('s \<Rightarrow> rest_request \<Rightarrow> 's \<times> (driver_error + rest_reply)) \<Rightarrow> string \<Rightarrow> string \<Rightarrow>
    's \<Rightarrow> json \<Rightarrow> 's \<times> (driver_error + stmt_out)" where
  "postgrestCall parse fetch baseUrl key c s =
     (case jget ''http'' s of
        None \<Rightarrow> (c, Inl (DError None ''postgrest statement needs http'' None))
      | Some h \<Rightarrow>
          if \<not> jtruthy h then (c, Inl (DError None ''postgrest statement needs http'' None))
          else (case fetch c (rest_of_stmt baseUrl key h) of
             (c', Inl e) \<Rightarrow> (c', Inl e)
           | (c', Inr r) \<Rightarrow>
               if \<not> (200 \<le> rsr_status r \<and> rsr_status r < 300)
               then (c', Inl (DError None (''HTTP '' @ show_nat (rsr_status r) @ '' '' @ take 300 (rsr_text r)) None))
               else let rows = rest_rows parse (rsr_text r)
                    in (c', Inr \<lparr>ot_rowCount = Some (int (length rows)), ot_rows = Some rows,
                          ot_meta = Some [(''status'', JNum (int (rsr_status r))),
                            (''contentRange'', case rsr_contentRange r of None \<Rightarrow> JNull | Some x \<Rightarrow> JStr x)]\<rparr>)))"

definition unsupported :: "string \<Rightarrow> 's \<Rightarrow> json list \<Rightarrow> 's \<times> (driver_error + stmt_out list)" where
  "unsupported what c ss = (c, Inl (DError None (what @ '' unsupported'') None))"

definition postgrestLane :: "(string \<Rightarrow> json option) \<Rightarrow> ('s \<Rightarrow> rest_request \<Rightarrow> 's \<times> (driver_error + rest_reply)) \<Rightarrow> string \<Rightarrow> string \<Rightarrow> 's lane_conn" where
  "postgrestLane parse fetch baseUrl key =
     \<lparr>ln_each = postgrestCall parse fetch baseUrl key, ln_batch = unsupported ''postgrest: batch'', ln_tx = unsupported ''postgrest: tx''\<rparr>"

definition d1RestLane :: "('s \<Rightarrow> string \<times> json list \<Rightarrow> 's \<times> (driver_error + d1_result)) \<Rightarrow> 's lane_conn" where
  "d1RestLane q =
     \<lparr>ln_each = (\<lambda>c s. io_map d1_out (q c (stmt_sql s, stmt_params s))), ln_batch = unsupported ''d1_rest: batch'', ln_tx = unsupported ''d1_rest: tx''\<rparr>"

text \<open>The call the executor makes for statement \<open>k\<close>, by mode.\<close>

definition lane_call :: "'s lane_conn \<Rightarrow> valid_run \<Rightarrow> nat \<Rightarrow> 's \<Rightarrow> 's \<times> (driver_error + stmt_out list)" where
  "lane_call conn r k c =
     (case vr_mode r of
        Each \<Rightarrow> io_map (\<lambda>x. [x]) (ln_each conn c (vr_statements r ! k))
      | Batch \<Rightarrow> ln_batch conn c (vr_statements r)
      | Tx \<Rightarrow> ln_tx conn c (vr_statements r))"

subsection \<open>Probing every backend\<close>

record meta_backend =
  mb_ok :: bool
  mb_ms :: rat
  mb_detail :: "json obj option"
  mb_error :: "string option"

definition meta_stmt :: "string \<Rightarrow> json" where
  "meta_stmt b =
     (if b = ''postgrest'' then JObj [(''http'', JObj [(''method'', JStr ''GET''), (''path'', JStr [])])]
      else if b = ''d1'' \<or> b = ''do'' then sql_stmt ''select 1 as one''
      else if b = ''turso'' \<or> b = ''tursodb'' then sql_stmt ''select 1 as one, sqlite_version() as sqlite_version''
      else sql_stmt (''select 1 as one, current_setting('' @ [CHR 0x27] @ ''server_version'' @ [CHR 0x27] @ '') as server_version, family(inet_server_addr()) as addr_family''))"

definition put_defined :: "json obj \<Rightarrow> json obj \<Rightarrow> string \<Rightarrow> json obj" where
  "put_defined meta d k = (case obj_get meta k of None \<Rightarrow> d | Some v \<Rightarrow> obj_put k v d)"

definition meta_detail :: "string \<Rightarrow> stmt_out \<Rightarrow> string \<Rightarrow> json obj" where
  "meta_detail b out do_colo =
     (let row = (case ot_rows out of Some (JObj m # _) \<Rightarrow> m | _ \<Rightarrow> []);
          meta = (case ot_meta out of Some m \<Rightarrow> m | None \<Rightarrow> [])
      in if b = ''postgrest'' then (case obj_get meta ''status'' of Some v \<Rightarrow> [(''status'', v)] | None \<Rightarrow> [])
         else if b = ''d1'' then foldl (put_defined meta) row [''served_by_region'', ''served_by_primary'', ''served_by_colo'', ''duration'']
         else if b = ''do'' then obj_put ''do_colo'' (JStr do_colo) row
         else row)"

text \<open>One probe: the lane opens or not, answers or not, and for the Durable Object its colo is asked too.\<close>

definition meta_probe :: "string \<Rightarrow> (driver_error + stmt_out) \<Rightarrow> (driver_error + string) \<Rightarrow> rat \<Rightarrow> meta_backend" where
  "meta_probe b outcome colo ms =
     (case outcome of
        Inl e \<Rightarrow> \<lparr>mb_ok = False, mb_ms = ms, mb_detail = None, mb_error = Some (errText e)\<rparr>
      | Inr out \<Rightarrow>
          (case (if b = ''do'' then colo else Inr []) of
             Inl e \<Rightarrow> \<lparr>mb_ok = False, mb_ms = ms, mb_detail = None, mb_error = Some (errText e)\<rparr>
           | Inr c \<Rightarrow> \<lparr>mb_ok = True, mb_ms = ms, mb_detail = Some (meta_detail b out c), mb_error = None\<rparr>))"

record meta_response =
  mr_ok :: bool
  mr_colo :: string
  mr_compatibilityDate :: string
  mr_drivers :: "string obj"
  mr_backends :: "meta_backend obj"

definition worker_meta :: "worker_env \<Rightarrow> string \<Rightarrow> (string \<Rightarrow> meta_backend) \<Rightarrow> meta_response" where
  "worker_meta env colo probe =
     (let results = map (\<lambda>b. (b, probe b)) WORKER_BACKENDS
      in \<lparr>mr_ok = list_all (\<lambda>(b, r). mb_ok r \<or> (b = ''tursodb'' \<and> we_TURSODB_URL env = [])) results,
          mr_colo = colo, mr_compatibilityDate = we_COMPAT_DATE env,
          mr_drivers = [(''pg'', we_DRIVER_PG env), (''@libsql/client'', we_DRIVER_LIBSQL env)], mr_backends = obj_of results\<rparr>)"

subsection \<open>A libSQL transaction is closed\<close>

definition lib_ops :: "json list \<Rightarrow> lib_op list" where
  "lib_ops ss = map (\<lambda>s. LibExec (libsqlStmt s)) ss @ [LibCommit]"

text \<open>What the statements and the commit of a transaction sent, up to the first failure and its rollback.\<close>

definition lib_body_log :: "json list \<Rightarrow> (lib_op \<times> (driver_error + libsql_result)) list \<Rightarrow> driver_error + stmt_out list \<Rightarrow> bool" where
  "lib_body_log ss l res =
     (case res of
        Inr outs \<Rightarrow> map fst l = lib_ops ss \<and> list_all (\<lambda>x. \<not> isl (snd x)) l \<and> length outs = length ss
      | Inl e \<Rightarrow> \<exists>k x. k \<le> length ss \<and> map fst l = take (Suc k) (lib_ops ss) @ [LibRollback] \<and>
          list_all (\<lambda>x. \<not> isl (snd x)) (take k l) \<and> l ! k = (x, Inl e))"

lemma lib_body_logged:
  "\<exists>l. snd (fst (lib_tx_body (logged cl) c ss outs)) = snd c @ l \<and>
     lib_body_log ss l (case snd (lib_tx_body (logged cl) c ss outs) of Inl e \<Rightarrow> Inl e | Inr os \<Rightarrow> Inr (drop (length outs) os)) \<and>
     (\<forall>os. snd (lib_tx_body (logged cl) c ss outs) = Inr os \<longrightarrow> length os = length outs + length ss)"
proof (induction ss arbitrary: c outs)
  case Nil
  obtain c' y where e: "cl (fst c) LibCommit = (c', y)" by fastforce
  then have lg: "logged cl c LibCommit = ((c', snd c @ [(LibCommit, y)]), y)" by (simp add: logged_def)
  show ?case
  proof (cases y)
    case (Inl err)
    obtain c'' z where "cl c' LibRollback = (c'', z)" by fastforce
    then have "fst (logged cl (c', snd c @ [(LibCommit, y)]) LibRollback) = (c'', snd c @ [(LibCommit, y), (LibRollback, z)])" by (simp add: logged_def)
    with lg Inl show ?thesis by (intro exI [of _ "[(LibCommit, y), (LibRollback, z)]"]) (simp add: lib_body_log_def lib_ops_def)
  next
    case (Inr r)
    with lg show ?thesis by (intro exI [of _ "[(LibCommit, y)]"]) (simp add: lib_body_log_def lib_ops_def)
  qed
next
  case (Cons s ss)
  let ?x = "LibExec (libsqlStmt s)"
  obtain c' y where e: "cl (fst c) ?x = (c', y)" by fastforce
  then have lg: "logged cl c ?x = ((c', snd c @ [(?x, y)]), y)" by (simp add: logged_def)
  show ?case
  proof (cases y)
    case (Inl err)
    obtain c'' z where "cl c' LibRollback = (c'', z)" by fastforce
    then have "fst (logged cl (c', snd c @ [(?x, y)]) LibRollback) = (c'', snd c @ [(?x, y), (LibRollback, z)])" by (simp add: logged_def)
    with lg Inl show ?thesis
      by (intro exI [of _ "[(?x, y), (LibRollback, z)]"]) (auto simp add: lib_body_log_def lib_ops_def intro!: exI [of _ 0])
  next
    case (Inr r)
    let ?c = "(c', snd c @ [(?x, y)])" and ?outs = "outs @ [libsqlOut r]"
    obtain l where l: "snd (fst (lib_tx_body (logged cl) ?c ss ?outs)) = snd ?c @ l"
      "lib_body_log ss l (case snd (lib_tx_body (logged cl) ?c ss ?outs) of Inl e \<Rightarrow> Inl e | Inr os \<Rightarrow> Inr (drop (length ?outs) os))"
      "\<forall>os. snd (lib_tx_body (logged cl) ?c ss ?outs) = Inr os \<longrightarrow> length os = length ?outs + length ss" using Cons by blast
    have step: "lib_tx_body (logged cl) c (s # ss) outs = lib_tx_body (logged cl) ?c ss ?outs" using lg Inr by simp
    show ?thesis
    proof (intro exI [of _ "(?x, y) # l"] conjI)
      show "lib_body_log (s # ss) ((?x, y) # l)
          (case snd (lib_tx_body (logged cl) c (s # ss) outs) of Inl e \<Rightarrow> Inl e | Inr os \<Rightarrow> Inr (drop (length outs) os))"
      proof (cases "snd (lib_tx_body (logged cl) ?c ss ?outs)")
        case (Inl err)
        with l(2) obtain k x where "k \<le> length ss" "map fst l = take (Suc k) (lib_ops ss) @ [LibRollback]"
          "list_all (\<lambda>x. \<not> isl (snd x)) (take k l)" "l ! k = (x, Inl err)" by (auto simp: lib_body_log_def)
        with step Inl \<open>y = Inr r\<close> show ?thesis by (auto simp: lib_body_log_def lib_ops_def intro!: exI [of _ "Suc k"])
      next
        case (Inr os)
        with l step \<open>y = Inr r\<close> show ?thesis by (simp add: lib_body_log_def lib_ops_def)
      qed
    qed (use l step in auto)
  qed
qed

text \<open>A libSQL transaction that was opened is closed, exactly once and last, whatever happens: if it
  succeeds, every statement and the commit were executed in order and succeeded; if anything fails
  its first error is what the caller sees, nothing runs after it but one rollback and the close,
  and nothing at all when it could not be opened.\<close>

lemma libsql_tx_closed:
  "case libsql_tx (logged cl) (c, []) ss of ((c', l), res) \<Rightarrow>
     (\<exists>e. res = Inl e \<and> l = [(LibBegin, Inl e)]) \<or>
     (\<exists>x body z. l = (LibBegin, Inr x) # body @ [(LibClose, z)] \<and> lib_body_log ss body res)"
proof -
  obtain c' y where e: "cl c LibBegin = (c', y)" by fastforce
  then have lg: "logged cl (c, []) LibBegin = ((c', [(LibBegin, y)]), y)" by (simp add: logged_def)
  show ?thesis
  proof (cases y)
    case (Inl err)
    with lg show ?thesis by (simp add: libsql_tx_def)
  next
    case (Inr r)
    let ?b = "lib_tx_body (logged cl) (c', [(LibBegin, y)]) ss []"
    obtain l where l: "snd (fst ?b) = [(LibBegin, y)] @ l" "lib_body_log ss l (snd ?b)"
      using lib_body_logged [of cl "(c', [(LibBegin, y)])" ss "[]"] by (auto split: sum.splits)
    obtain c2 res where b: "?b = ((c2, (LibBegin, y) # l), res)" using l(1) by (metis append_Cons append_Nil prod.collapse)
    obtain c3 z where "cl c2 LibClose = (c3, z)" by fastforce
    with lg Inr b l(2) show ?thesis by (simp add: libsql_tx_def) (simp add: logged_def)
  qed
qed

text \<open>The two adapters without a batch refuse one, and the request check keeps it from being asked.\<close>

lemma rest_each_only:
  assumes "validateRunRequest (Some b) backends = Inr r" "vr_backend r = ''postgrest'' \<or> vr_backend r = ''d1_rest''"
  shows "lane_call conn r k c = io_map (\<lambda>x. [x]) (ln_each conn c (vr_statements r ! k))"
  using assms by (auto simp: validate_typed well_typed_run_def lane_call_def)

end
