(* ===== verification/Bench_Plan.thy ===== *)
theory Bench_Plan
  imports Exec_Run
begin

text \<open>
  \<open>experiments/sqlite-edge-compare/lib/td02-03-plan.ts\<close>: the pure part of the point-read and job-state
  benchmarks. Targets and run sizes from the environment, seeded data, the statements of each
  dialect, and the checks that turn the operations of a run into the numbers a row reports. A
  missing operation has no duration (\<open>NaN\<close>); every operation that succeeded has one.
\<close>

subsection \<open>Targets and run sizes\<close>

datatype dialect = DSqlite | DPg | DHttp

record bench_target =
  bt_key :: string
  bt_backend :: string
  bt_worker :: bool
  bt_dialect :: dialect
  bt_store :: string

definition TARGETS :: "bench_target obj" where
  "TARGETS =
     (let t = (\<lambda>key backend worker dialect store.
            (key, \<lparr>bt_key = key, bt_backend = backend, bt_worker = worker, bt_dialect = dialect, bt_store = store\<rparr>))
      in [t ''d1'' ''d1'' True DSqlite ''d1'', t ''turso'' ''turso'' True DSqlite ''turso'', t ''tursodb'' ''tursodb'' True DSqlite ''tursodb'',
          t ''do'' ''do'' True DSqlite ''do'', t ''pg'' ''pg'' True DPg ''supabase'', t ''pg_cached'' ''pg_cached'' True DPg ''supabase'',
          t ''postgrest'' ''postgrest'' True DHttp ''supabase'', t ''local_turso_http'' ''turso_http'' False DSqlite ''turso'',
          t ''local_pg_pooler'' ''pg_pooler'' False DPg ''supabase'', t ''local_pg_direct'' ''pg_direct'' False DPg ''supabase'',
          t ''local_d1_rest'' ''d1_rest'' False DSqlite ''d1''])"

definition env_set :: "string obj \<Rightarrow> string \<Rightarrow> string option" where
  "env_set env name = (case obj_get env name of Some s \<Rightarrow> if s = [] then None else Some s | None \<Rightarrow> None)"

definition envInt :: "string obj \<Rightarrow> string \<Rightarrow> nat \<Rightarrow> nat \<Rightarrow> string + nat" where
  "envInt env name full smoke =
     (case env_set env name of
        Some raw \<Rightarrow>
          (case to_number raw of
             Fin q \<Rightarrow> if of_int \<lfloor>q\<rfloor> = q \<and> 0 \<le> q then Inr (nat \<lfloor>q\<rfloor>) else Inl (name @ '' must be a non-negative integer, got '' @ raw)
           | _ \<Rightarrow> Inl (name @ '' must be a non-negative integer, got '' @ raw))
      | None \<Rightarrow> Inr (if obj_get env ''TD_SMOKE'' = Some ''1'' then smoke else full))"

definition envList :: "string obj \<Rightarrow> string \<Rightarrow> string list \<Rightarrow> string list \<Rightarrow> string list" where
  "envList env name full smoke =
     (case env_set env name of
        Some raw \<Rightarrow> filter (\<lambda>s. s \<noteq> []) (map trim (split_char (CHR '','') raw))
      | None \<Rightarrow> if obj_get env ''TD_SMOKE'' = Some ''1'' then smoke else full)"

text \<open>The names allowed are keys of the table.\<close>

fun pickTargets :: "string list \<Rightarrow> string list \<Rightarrow> string + bench_target list" where
  "pickTargets [] allowed = Inr []"
| "pickTargets (k # ks) allowed =
     (if \<not> array_includes allowed k then Inl (''unknown target '' @ k @ ''; allowed: '' @ join '','' allowed)
      else case obj_get TARGETS k of
        None \<Rightarrow> Inl (''unknown target '' @ k @ ''; allowed: '' @ join '','' allowed)
      | Some t \<Rightarrow> (case pickTargets ks allowed of Inl e \<Rightarrow> Inl e | Inr ts \<Rightarrow> Inr (t # ts)))"

subsection \<open>Seeded data\<close>

text \<open>\<open>n.toString(b)\<close> and \<open>padStart\<close>.\<close>

definition base_digit :: "nat \<Rightarrow> char" where
  "base_digit n = ''0123456789abcdefghijklmnopqrstuvwxyz'' ! n"

fun show_base :: "nat \<Rightarrow> nat \<Rightarrow> string" where
  "show_base b n = (if n < b \<or> b < 2 then [base_digit (n mod 36)] else show_base b (n div b) @ [base_digit (n mod b mod 36)])"

declare show_base.simps [simp del]

definition pad_start :: "nat \<Rightarrow> char \<Rightarrow> string \<Rightarrow> string" where
  "pad_start n c s = replicate (n - length s) c @ s"

text \<open>\<open>Math.floor(r() * m)\<close>: the next state and the number.\<close>

definition draw :: "nat \<Rightarrow> 32 word \<Rightarrow> 32 word \<times> nat" where
  "draw m a = (case rng_next a of (a', w) \<Rightarrow> (a', nat \<lfloor>rng_value w * of_nat m\<rfloor>))"

fun draws :: "nat \<Rightarrow> nat \<Rightarrow> 32 word \<Rightarrow> 32 word \<times> nat list" where
  "draws 0 m a = (a, [])"
| "draws (Suc n) m a = (let (a', x) = draw m a; (a'', xs) = draws n m a' in (a'', x # xs))"

definition KV_TABLE :: string where
  "KV_TABLE = ''td02_kv''"

record kv_row =
  kv_id :: nat
  kv_k :: string
  kv_v :: string
  kv_n :: nat

definition hex8 :: "nat \<Rightarrow> string" where
  "hex8 n = pad_start 8 (CHR ''0'') (show_base 16 n)"

definition kv_next :: "nat \<Rightarrow> 32 word \<Rightarrow> 32 word \<times> kv_row" where
  "kv_next i a =
     (let (a', hs) = draws 6 4294967296 a; (a'', n) = draw 1000000 a'
      in (a'', \<lparr>kv_id = i, kv_k = ''key-'' @ pad_start 6 (CHR ''0'') (show_nat i), kv_v = concat (map hex8 hs), kv_n = n\<rparr>))"

fun kv_rows :: "nat \<Rightarrow> nat \<Rightarrow> 32 word \<Rightarrow> kv_row list" where
  "kv_rows i 0 a = []"
| "kv_rows i (Suc n) a = (let (a', row) = kv_next i a in row # kv_rows (i + 1) n a')"

definition genKv :: "nat \<Rightarrow> int \<Rightarrow> kv_row list" where
  "genKv n seed = kv_rows 1 n (rng_seed seed)"

definition kv_create :: "string \<Rightarrow> string" where
  "kv_create tbl = ''create table '' @ tbl @ '' (id integer primary key, k text not null, v text not null, n integer not null)''"

definition reload_schema :: string where
  "reload_schema = ''notify pgrst, '' @ [CHR 0x27] @ ''reload schema'' @ [CHR 0x27]"

definition kvDdl :: "bool \<Rightarrow> string list" where
  "kvDdl pg =
     (let pub = ''public.'' @ KV_TABLE
      in if \<not> pg then [''drop table if exists '' @ KV_TABLE, kv_create KV_TABLE]
         else [''drop table if exists '' @ pub, kv_create pub, ''alter table '' @ pub @ '' enable row level security'',
               ''grant select on '' @ pub @ '' to service_role'', reload_schema])"

text \<open>Consecutive blocks of at most \<open>size\<close>, at least 1.\<close>

function blocks :: "'a list \<Rightarrow> nat \<Rightarrow> 'a list list" where
  "blocks xs n = (if xs = [] then [] else take (max 1 n) xs # blocks (drop (max 1 n) xs) n)"
  by pat_completeness auto
termination by (relation "measure (\<lambda>(xs, n). length xs)") auto

declare blocks.simps [simp del]

definition sql_quote :: "string \<Rightarrow> string" where
  "sql_quote s = [CHR 0x27] @ s @ [CHR 0x27]"

definition kv_value :: "kv_row \<Rightarrow> string" where
  "kv_value x = ''('' @ show_nat (kv_id x) @ '','' @ sql_quote (kv_k x) @ '','' @ sql_quote (kv_v x) @ '','' @ show_nat (kv_n x) @ '')''"

text \<open>The loop steps by \<open>perStmt\<close>, which every caller gives as at least 1.\<close>

definition kvInserts :: "kv_row list \<Rightarrow> nat \<Rightarrow> string list" where
  "kvInserts rows perStmt =
     map (\<lambda>b. ''insert into '' @ KV_TABLE @ '' (id, k, v, n) values '' @ join '','' (map kv_value b)) (blocks rows perStmt)"

definition KV_CHECK_SQL :: string where
  "KV_CHECK_SQL = ''select count(*) as c, sum(n) as s, max(id) as m from '' @ KV_TABLE"

definition kvExpected :: "kv_row list \<Rightarrow> nat \<times> nat \<times> nat" where
  "kvExpected rows = (length rows, sum_list (map kv_n rows), length rows)"

definition http_get :: "string \<Rightarrow> json" where
  "http_get path = JObj [(''http'', JObj [(''method'', JStr ''GET''), (''path'', JStr path)])]"

definition sql_with :: "string \<Rightarrow> json list \<Rightarrow> json" where
  "sql_with q ps = JObj [(''sql'', JStr q), (''params'', JArr ps)]"

definition pointRead :: "dialect \<Rightarrow> nat \<Rightarrow> json" where
  "pointRead d i =
     (if d = DHttp then http_get (KV_TABLE @ ''?id=eq.'' @ show_nat i @ ''&select=id,k,v,n'')
      else sql_with (''select id, k, v, n from '' @ KV_TABLE @ '' where id = '' @ (if d = DPg then ''$1'' else ''?'')) [JNum (int i)])"

text \<open>Uniform ids, or ids from a hot pool. An empty pool draws \<open>undefined\<close>, here 0; it is empty only when no id exists.\<close>

definition keySequence :: "nat \<Rightarrow> nat \<Rightarrow> int \<Rightarrow> nat \<Rightarrow> nat list" where
  "keySequence cnt maxId seed hot =
     (if hot > 0 then
        (let (a, xs) = draws (min hot maxId) maxId (rng_seed seed); pool = map Suc xs
         in map (\<lambda>k. if k < length pool then pool ! k else 0) (snd (draws cnt (length pool) a)))
      else map Suc (snd (draws cnt maxId (rng_seed seed))))"

subsection \<open>Checking reads\<close>

record read_sample =
  smp_ms :: "rat option"
  smp_ok :: bool
  smp_first :: bool
  smp_match :: bool
  smp_error :: "string option"

definition first_row :: "stmt_out option \<Rightarrow> json option" where
  "first_row out = (case Option.bind out ot_rows of Some (r # _) \<Rightarrow> if jtruthy r then Some r else None | _ \<Rightarrow> None)"

definition number_is :: "json option \<Rightarrow> rat \<Rightarrow> bool" where
  "number_is v x = (case v of None \<Rightarrow> False | Some j \<Rightarrow> js_number j = Fin x)"

definition rowMatches :: "stmt_out option \<Rightarrow> kv_row option \<Rightarrow> bool" where
  "rowMatches out want =
     (case (first_row out, want) of
        (Some row, Some w) \<Rightarrow> jget ''v'' row = Some (JStr (kv_v w)) \<and> number_is (jget ''id'' row) (of_nat (kv_id w))
      | _ \<Rightarrow> False)"

text \<open>The first operation of each statement.\<close>

definition by_stmt :: "op_result list \<Rightarrow> int \<Rightarrow> op_result option" where
  "by_stmt ops k = List.find (\<lambda>x. op_stmt x = k) ops"

definition first_out :: "op_result \<Rightarrow> stmt_out option" where
  "first_out x = (case op_out x of Some (y # _) \<Rightarrow> Some y | _ \<Rightarrow> None)"

definition error_of :: "op_result \<Rightarrow> string option" where
  "error_of x = (case op_error x of Some e \<Rightarrow> if e = [] then None else Some e | None \<Rightarrow> None)"

definition row_at :: "kv_row list \<Rightarrow> nat \<Rightarrow> kv_row option" where
  "row_at rows i = (if 1 \<le> i \<and> i \<le> length rows then Some (rows ! (i - 1)) else None)"

definition no_op_text :: "string option \<Rightarrow> string" where
  "no_op_text reqError = (case reqError of Some e \<Rightarrow> e | None \<Rightarrow> ''no op returned'')"

definition block_sample :: "op_result list \<Rightarrow> kv_row list \<Rightarrow> string option \<Rightarrow> nat \<Rightarrow> nat \<Rightarrow> read_sample" where
  "block_sample ops rows reqError k i =
     (case by_stmt ops (int k) of
        None \<Rightarrow> \<lparr>smp_ms = None, smp_ok = False, smp_first = k = 0, smp_match = False, smp_error = Some (no_op_text reqError)\<rparr>
      | Some x \<Rightarrow> \<lparr>smp_ms = Some (op_ms x), smp_ok = op_ok x, smp_first = k = 0,
                   smp_match = op_ok x \<and> rowMatches (first_out x) (row_at rows i), smp_error = error_of x\<rparr>)"

definition blockSamples :: "op_result list \<Rightarrow> nat list \<Rightarrow> kv_row list \<Rightarrow> string option \<Rightarrow> read_sample list" where
  "blockSamples ops ids rows reqError = map (\<lambda>(k, i). block_sample ops rows reqError k i) (enumerate 0 ids)"

record read_stats =
  rds_attempted :: nat
  rds_all :: summary
  rds_first :: summary
  rds_rest :: summary
  rds_errors :: nat
  rds_mismatches :: nat
  rds_errorTexts :: "(string \<times> nat) list"

definition durations :: "rat option list \<Rightarrow> rat list" where
  "durations xs = List.map_filter (\<lambda>x. x) xs"

definition text_of :: "string option \<Rightarrow> string" where
  "text_of e = (case e of Some t \<Rightarrow> t | None \<Rightarrow> ''unknown'')"

definition readStats :: "read_sample list \<Rightarrow> nat \<Rightarrow> read_stats" where
  "readStats samples warmup =
     (let kept = drop (min warmup (length samples)) samples; ok = filter smp_ok kept
      in \<lparr>rds_attempted = length samples,
          rds_all = (summarize (durations (map smp_ms ok)) 0)\<lparr>su_dropped := length samples - length kept\<rparr>,
          rds_first = summarize (durations (map smp_ms (filter smp_first ok))) 0,
          rds_rest = summarize (durations (map smp_ms (filter (\<lambda>s. \<not> smp_first s) ok))) 0,
          rds_errors = length (filter (\<lambda>s. \<not> smp_ok s) samples),
          rds_mismatches = length (filter (\<lambda>s. smp_ok s \<and> \<not> smp_match s) samples),
          rds_errorTexts = by_count (tally (map (\<lambda>s. text_of (smp_error s)) (filter (\<lambda>s. \<not> smp_ok s) samples)))\<rparr>)"

subsection \<open>Ranking by spread\<close>

definition opt_diff :: "rat option \<Rightarrow> rat option \<Rightarrow> int" where
  "opt_diff a b = (case (a, b) of (Some x, Some y) \<Rightarrow> rat_diff x y | _ \<Rightarrow> 0)"

definition rank_order :: "(string \<times> summary) list \<Rightarrow> (string \<times> summary) list" where
  "rank_order entries = sort_by (\<lambda>a b. opt_diff (su_p50 (snd a)) (su_p50 (snd b))) (filter (\<lambda>e. su_n (snd e) > 0 \<and> su_p50 (snd e) \<noteq> None) entries)"

definition sep :: "(string \<times> summary) list \<Rightarrow> nat \<Rightarrow> nat \<Rightarrow> bool" where
  "sep xs i j = (separated (snd (xs ! i)) (snd (xs ! j)) = Some SideA)"

definition chained :: "(string \<times> summary) list \<Rightarrow> nat \<Rightarrow> nat \<Rightarrow> bool" where
  "chained xs i j = list_ex (\<lambda>k. sep xs k (k + 1)) [i..<j]"

definition also_pairs :: "(string \<times> summary) list \<Rightarrow> (nat \<times> nat) list" where
  "also_pairs xs =
     concat (map (\<lambda>i. map (Pair i) (filter (\<lambda>j. \<not> chained xs i j \<and> sep xs i j) [i + 2..<length xs])) [0..<length xs])"

definition rankBySpread :: "(string \<times> summary) list \<Rightarrow> string" where
  "rankBySpread entries =
     (let xs = rank_order entries; also = map (\<lambda>(i, j). fst (xs ! i) @ '' < '' @ fst (xs ! j)) (also_pairs xs)
      in if xs = [] then ''no samples''
         else let chain = fst (xs ! 0) @ concat (map (\<lambda>i. '' '' @ (if sep xs (i - 1) i then ''<'' else ''~'') @ '' '' @ fst (xs ! i)) [1..<length xs])
              in if also = [] then chain else chain @ '' (also '' @ join '', '' also @ '')'')"

subsection \<open>The ceiling row\<close>

record ceiling_step =
  cst_repeat :: nat
  cst_okOps :: nat
  cst_failedOps :: nat
  cst_missing :: nat
  cst_firstFailI :: "int option"
  cst_firstError :: "string option"

definition ceilingStep :: "nat \<Rightarrow> op_result list \<Rightarrow> string option \<Rightarrow> ceiling_step" where
  "ceilingStep rep ops reqError =
     (let failed = sort_by (\<lambda>a b. rat_diff (op_t0 a) (op_t0 b)) (filter (\<lambda>x. \<not> op_ok x) ops)
      in \<lparr>cst_repeat = rep, cst_okOps = length ops - length failed, cst_failedOps = length failed, cst_missing = rep - length ops,
          cst_firstFailI = (case failed of [] \<Rightarrow> None | x # _ \<Rightarrow> Some (op_i x)),
          cst_firstError =
            (case Option.bind (case failed of [] \<Rightarrow> None | x # _ \<Rightarrow> Some x) op_error of
               Some e \<Rightarrow> Some e
             | None \<Rightarrow> if length ops < rep
                        then Some (case reqError of Some e \<Rightarrow> e | None \<Rightarrow> ''response carried fewer ops than requested'')
                        else None)\<rparr>)"

definition ceilingHit :: "ceiling_step \<Rightarrow> bool" where
  "ceilingHit s = (cst_failedOps s > 0 \<or> cst_missing s > 0)"

subsection \<open>Jobs\<close>

definition JOBS_TABLE :: string where
  "JOBS_TABLE = ''td03_jobs''"

definition jobs_create :: "string \<Rightarrow> string" where
  "jobs_create tbl = ''create table '' @ tbl @
     '' (id text primary key, status text not null, attempts integer not null, payload text not null, updated_at bigint not null)''"

definition jobsDdl :: "bool \<Rightarrow> string list" where
  "jobsDdl pg =
     (let pub = ''public.'' @ JOBS_TABLE
      in if \<not> pg then [''drop table if exists '' @ JOBS_TABLE, jobs_create JOBS_TABLE]
         else [''drop table if exists '' @ pub, jobs_create pub, ''alter table '' @ pub @ '' enable row level security'',
               ''grant select, insert, update, delete on '' @ pub @ '' to service_role'', reload_schema])"

datatype step_kind = Insert_Step | Update_Step | Read_Step

record step_plan =
  stp_job :: nat
  stp_step :: nat
  stp_kind :: step_kind
  stp_status :: string
  stp_attempts :: nat

definition TRANSITIONS :: "(string option \<times> string) list" where
  "TRANSITIONS = [(None, ''queued''), (Some ''queued'', ''claimed''), (Some ''claimed'', ''running''), (Some ''running'', ''done'')]"

definition STEPS_PER_JOB :: nat where
  "STEPS_PER_JOB = length TRANSITIONS * 2"

definition jobPayload :: "int \<Rightarrow> nat \<Rightarrow> string" where
  "jobPayload seed job =
     (let a = rng_seed (seed + int job * 7919); (a1, src) = draw 1000000000 a; (a2, w) = draw 1600 a1; (a3, q) = draw 40 a2
      in json_stringify (JObj [(''kind'', JStr ''transform''), (''src'', JStr (''obj-'' @ show_base 36 src)),
           (''width'', JNum (int (320 + w))), (''quality'', JNum (int (60 + q)))]))"

definition http_write :: "string \<Rightarrow> string \<Rightarrow> json obj \<Rightarrow> string \<Rightarrow> json" where
  "http_write meth path body prefer =
     JObj [(''http'', JObj [(''method'', JStr meth), (''path'', JStr path), (''body'', JObj body), (''headers'', JObj [(''Prefer'', JStr prefer)])])]"

definition ph :: "dialect \<Rightarrow> nat \<Rightarrow> string" where
  "ph d n = (if d = DPg then ''$'' @ show_nat n else ''?'')"

definition job_write :: "dialect \<Rightarrow> string \<Rightarrow> string \<Rightarrow> int \<Rightarrow> nat \<Rightarrow> string option \<times> string \<Rightarrow> json" where
  "job_write d jobId payload ts attempts tr =
     (case tr of
        (None, to) \<Rightarrow>
          if d = DHttp then http_write ''POST'' JOBS_TABLE
            [(''id'', JStr jobId), (''status'', JStr to), (''attempts'', JNum (int attempts)), (''payload'', JStr payload), (''updated_at'', JNum ts)]
            ''return=minimal''
          else sql_with (''insert into '' @ JOBS_TABLE @ '' (id, status, attempts, payload, updated_at) values ('' @ ph d 1 @ '', '' @ ph d 2 @ '', '' @
                 ph d 3 @ '', '' @ ph d 4 @ '', '' @ ph d 5 @ '')'')
            [JStr jobId, JStr to, JNum (int attempts), JStr payload, JNum ts]
      | (Some from_st, to) \<Rightarrow>
          if d = DHttp then http_write ''PATCH''
            (JOBS_TABLE @ ''?id=eq.'' @ encodeURIComponent jobId @ ''&status=eq.'' @ from_st @ ''&select=id'')
            [(''status'', JStr to), (''attempts'', JNum (int attempts)), (''updated_at'', JNum ts)] ''return=representation''
          else sql_with (''update '' @ JOBS_TABLE @ '' set status = '' @ ph d 1 @ '', attempts = '' @ ph d 2 @ '', updated_at = '' @ ph d 3 @
                 '' where id = '' @ ph d 4 @ '' and status = '' @ ph d 5)
            [JStr to, JNum (int attempts), JNum ts, JStr jobId, JStr from_st])"

definition job_read :: "dialect \<Rightarrow> string \<Rightarrow> json" where
  "job_read d jobId =
     (if d = DHttp then http_get (JOBS_TABLE @ ''?id=eq.'' @ encodeURIComponent jobId @ ''&select=id,status,attempts'')
      else sql_with (''select id, status, attempts from '' @ JOBS_TABLE @ '' where id = '' @ ph d 1) [JStr jobId])"

definition step_kind_of :: "string option \<times> string \<Rightarrow> step_kind" where
  "step_kind_of tr = (if fst tr = None then Insert_Step else Update_Step)"

definition jobStatements :: "dialect \<Rightarrow> string \<Rightarrow> nat \<Rightarrow> string \<Rightarrow> int \<Rightarrow> json list \<times> step_plan list" where
  "jobStatements d jobId job payload tsBase =
     (concat (map (\<lambda>(attempts, tr). [job_write d jobId payload (tsBase + int attempts) attempts tr, job_read d jobId]) (enumerate 0 TRANSITIONS)),
      concat (map (\<lambda>(attempts, tr).
        [\<lparr>stp_job = job, stp_step = 2 * attempts, stp_kind = step_kind_of tr, stp_status = snd tr, stp_attempts = attempts\<rparr>,
         \<lparr>stp_job = job, stp_step = 2 * attempts + 1, stp_kind = Read_Step, stp_status = snd tr, stp_attempts = attempts\<rparr>]) (enumerate 0 TRANSITIONS)))"

text \<open>Rows a write changed, \<open>None\<close> when the driver said nothing usable.\<close>

definition usable_number :: "json option \<Rightarrow> jsnum option" where
  "usable_number v = (case nn v of None \<Rightarrow> None | Some j \<Rightarrow> if js_number j = NaN then None else Some (js_number j))"

definition affected :: "bench_target \<Rightarrow> step_kind \<Rightarrow> stmt_out option \<Rightarrow> jsnum option" where
  "affected t kind out =
     (case out of
        None \<Rightarrow> None
      | Some x \<Rightarrow>
          let m = (case ot_meta x of Some m \<Rightarrow> m | None \<Rightarrow> []); rows = map_option (\<lambda>n. Fin (of_int n)) (ot_rowCount x)
          in if bt_dialect t = DHttp then (if kind = Insert_Step then Some (Fin (if obj_get m ''status'' = Some (JNum 201) then 1 else 0)) else rows)
             else if bt_store t = ''d1'' \<or> bt_store t = ''do'' then usable_number (obj_get m ''changes'')
             else if bt_store t = ''turso'' \<or> bt_store t = ''tursodb'' then usable_number (obj_get m ''rowsAffected'')
             else rows)"

record job_sample =
  jsm_job :: nat
  jsm_kind :: step_kind
  jsm_ms :: "rat option"
  jsm_ok :: bool
  jsm_checked :: bool
  jsm_error :: "string option"

definition step_checked :: "bench_target \<Rightarrow> step_plan \<Rightarrow> op_result \<Rightarrow> bool" where
  "step_checked t p x =
     (op_ok x \<and>
      (if stp_kind p = Read_Step
       then (case first_row (first_out x) of
               None \<Rightarrow> False
             | Some row \<Rightarrow> jget ''status'' row = Some (JStr (stp_status p)) \<and> number_is (jget ''attempts'' row) (of_nat (stp_attempts p)))
       else affected t (stp_kind p) (first_out x) = Some (Fin 1)))"

definition job_sample_of :: "bench_target \<Rightarrow> op_result list \<Rightarrow> string option \<Rightarrow> nat \<Rightarrow> step_plan \<Rightarrow> job_sample" where
  "job_sample_of t ops reqError k p =
     (case by_stmt ops (int k) of
        None \<Rightarrow> \<lparr>jsm_job = stp_job p, jsm_kind = stp_kind p, jsm_ms = None, jsm_ok = False, jsm_checked = False,
                 jsm_error = Some (no_op_text reqError)\<rparr>
      | Some x \<Rightarrow> \<lparr>jsm_job = stp_job p, jsm_kind = stp_kind p, jsm_ms = Some (op_ms x), jsm_ok = op_ok x, jsm_checked = step_checked t p x,
                   jsm_error = error_of x\<rparr>)"

definition jobSamples :: "bench_target \<Rightarrow> op_result list \<Rightarrow> step_plan list \<Rightarrow> string option \<Rightarrow> job_sample list" where
  "jobSamples t ops plan reqError = map (\<lambda>(k, p). job_sample_of t ops reqError k p) (enumerate 0 plan)"

record job_stats =
  jst_jobsAttempted :: nat
  jst_jobsMeasured :: nat
  jst_jobsDropped :: nat
  jst_insert :: summary
  jst_update :: summary
  jst_read :: summary
  jst_job :: summary
  jst_errors :: nat
  jst_rywMisses :: nat
  jst_writeMisses :: nat
  jst_jobsClean :: nat
  jst_errorTexts :: "(string \<times> nat) list"

definition samples_of :: "job_sample list \<Rightarrow> nat \<Rightarrow> job_sample list" where
  "samples_of samples j = filter (\<lambda>s. jsm_job s = j) samples"

definition jobStats :: "job_sample list \<Rightarrow> nat \<Rightarrow> job_stats" where
  "jobStats samples warmupJobs =
     (let order = uniq (map jsm_job samples);
          measured = drop (min warmupJobs (length order)) order;
          kept = filter (\<lambda>s. jsm_job s \<in> set measured \<and> jsm_ok s) samples;
          of_kind = (\<lambda>k. summarize (durations (map jsm_ms (filter (\<lambda>s. jsm_kind s = k) kept))) 0);
          whole = filter (\<lambda>j. length (samples_of samples j) = STEPS_PER_JOB \<and> list_all jsm_ok (samples_of samples j)) measured
      in \<lparr>jst_jobsAttempted = length order, jst_jobsMeasured = length measured, jst_jobsDropped = length order - length measured,
          jst_insert = of_kind Insert_Step, jst_update = of_kind Update_Step, jst_read = of_kind Read_Step,
          jst_job = summarize (map (\<lambda>j. sum_list (durations (map jsm_ms (samples_of samples j)))) whole) 0,
          jst_errors = length (filter (\<lambda>s. \<not> jsm_ok s) samples),
          jst_rywMisses = length (filter (\<lambda>s. jsm_kind s = Read_Step \<and> jsm_ok s \<and> \<not> jsm_checked s) samples),
          jst_writeMisses = length (filter (\<lambda>s. jsm_kind s \<noteq> Read_Step \<and> jsm_ok s \<and> \<not> jsm_checked s) samples),
          jst_jobsClean = length (filter (\<lambda>j. list_all (\<lambda>s. jsm_ok s \<and> jsm_checked s) (samples_of samples j)) order),
          jst_errorTexts = by_count (tally (map (\<lambda>s. text_of (jsm_error s)) (filter (\<lambda>s. \<not> jsm_ok s) samples)))\<rparr>)"

definition latencyColumns :: "string \<Rightarrow> summary \<Rightarrow> rat option obj" where
  "latencyColumns prefix s =
     map (\<lambda>(k, v). (prefix @ ''_'' @ k, v))
       [(''n'', Some (of_nat (su_n s))), (''p25'', su_p25 s), (''p50'', su_p50 s), (''p75'', su_p75 s), (''p95'', su_p95 s), (''p99'', su_p99 s)]"

definition metaValues :: "op_result list \<Rightarrow> string \<Rightarrow> string" where
  "metaValues ops fld =
     join '','' (uniq (concat (map (\<lambda>x. concat (map (\<lambda>y.
        case nn (Option.bind (ot_meta y) (\<lambda>m. obj_get m fld)) of None \<Rightarrow> [] | Some v \<Rightarrow> [js_string v])
        (case op_out x of Some os \<Rightarrow> os | None \<Rightarrow> []))) ops)))"

definition shortErrors :: "(string \<times> nat) list \<Rightarrow> nat \<Rightarrow> string" where
  "shortErrors texts n = join '' | '' (map (\<lambda>(t, c). show_nat c @ ''x '' @ take 200 t) (take n texts))"

subsection \<open>Bounds of the seeded data\<close>

lemma draw_less: "0 < m \<Longrightarrow> snd (draw m a) < m"
proof -
  assume m: "0 < m"
  obtain a' w where w: "rng_next a = (a', w)" by fastforce
  have "rng_value w * of_nat m < of_nat m" using rng_bounds [of w] m by simp
  then have "\<lfloor>rng_value w * of_nat m\<rfloor> < int m" by (simp add: floor_less_iff)
  with m show ?thesis by (simp add: draw_def w nat_less_iff)
qed

lemma draws_props: "length (snd (draws n m a)) = n" "0 < m \<Longrightarrow> x \<in> set (snd (draws n m a)) \<Longrightarrow> x < m"
  using draw_less [of m] by (induction n arbitrary: a) (auto simp: case_prod_unfold Let_def)

text \<open>Every id a read sequence draws is the id of a seeded row, with or without a hot pool: there are as
  many as asked for, each between 1 and the number of rows, so each has a row to be compared with.\<close>

lemma keySequence_bounds:
  assumes "0 < maxId"
  shows "length (keySequence n maxId seed hot) = n \<and> list_all (\<lambda>i. row_at (genKv maxId rowSeed) i \<noteq> None) (keySequence n maxId seed hot)"
proof -
  have len: "length (kv_rows i n a) = n" for i n a
    by (induction n arbitrary: i a) (auto simp: case_prod_unfold Let_def)
  obtain a xs where d: "draws (min hot maxId) maxId (rng_seed seed) = (a, xs)" by fastforce
  have xs: "length xs = min hot maxId" "\<forall>x \<in> set xs. x < maxId"
    using draws_props(1) [of "min hot maxId" maxId "rng_seed seed"] draws_props(2) [OF assms, of _ "min hot maxId" "rng_seed seed"] by (auto simp: d)
  have "i \<in> set (keySequence n maxId seed hot) \<Longrightarrow> 1 \<le> i \<and> i \<le> maxId" for i
  proof (cases "hot > 0")
    case True
    assume i: "i \<in> set (keySequence n maxId seed hot)"
    have p: "0 < length xs" using True assms xs by simp
    from i True d obtain k where k: "k \<in> set (snd (draws n (length xs) a))" "i = (if k < length xs then map Suc xs ! k else 0)"
      by (auto simp: keySequence_def)
    then have "k < length xs" using draws_props(2) [OF p] by blast
    with k xs show ?thesis by (auto simp: Suc_le_eq)
  next
    case False
    assume "i \<in> set (keySequence n maxId seed hot)"
    with False show ?thesis using draws_props(2) [OF assms] by (auto simp: keySequence_def Suc_le_eq)
  qed
  moreover have "length (keySequence n maxId seed hot) = n" by (simp add: keySequence_def d draws_props(1))
  ultimately show ?thesis by (auto simp: list_all_iff row_at_def genKv_def len)
qed

text \<open>Blocks cut a list without losing, repeating or reordering anything.\<close>

lemma blocks_concat: "concat (blocks xs n) = xs"
  by (induction xs n rule: blocks.induct) (subst blocks.simps, simp)

lemma blocks_sizes: "b \<in> set (blocks xs n) \<Longrightarrow> b \<noteq> [] \<and> length b \<le> max 1 n"
  by (induction xs n rule: blocks.induct) (subst (asm) (2) blocks.simps, auto split: if_splits)

subsection \<open>No sample is lost\<close>

lemma by_stmt_nth:
  assumes "map op_stmt ops = map int [0..<n]" "k < n"
  shows "by_stmt ops (int k) = Some (ops ! k)"
proof -
  have len: "length ops = n" using arg_cong [OF assms(1), of length] by simp
  have st: "op_stmt (ops ! i) = int i" if "i < n" for i
    using arg_cong [OF assms(1), of "\<lambda>xs. xs ! i"] that len by simp
  show ?thesis unfolding by_stmt_def find_Some_iff using assms(2) len st by (intro exI [of _ k]) auto
qed

text \<open>A finished run of one iteration in statement-at-a-time mode has the operations of its statements in order.\<close>

lemma one_iteration:
  assumes "executeRun r opts tStart c0 startedAt tEnd es = Some resp" "list_ex (\<lambda>l. li_error l = None) (rsp_lanes resp)"
    and "vr_mode r = Each" "vr_repeat r = 1"
  shows "map op_stmt (rsp_ops resp) = map int [0..<length (vr_statements r)]"
proof -
  have "map snd (map op_key (rsp_ops resp)) = map snd (map (call_key r opts) (call_list r 1))"
    using run_ops [OF assms(1,2)] assms(4) by simp
  then show ?thesis using assms(3) by (simp add: comp_def op_key_def call_key_def call_list_def stmt_index_def calls_def)
qed

text \<open>No read is lost between the executor and the statistics: when a block of point reads has run to its
  end on a lane that opened, the samples are the run's operations, one for one and in order, each
  with its own duration and outcome, compared with the row of its own id; the text that stands for a
  missing operation never appears.\<close>

lemma block_lossless:
  assumes "executeRun r opts tStart c0 startedAt tEnd es = Some resp" "list_ex (\<lambda>l. li_error l = None) (rsp_lanes resp)"
    and "vr_mode r = Each" "vr_repeat r = 1" "vr_statements r = map (pointRead d) ids"
  shows "blockSamples (rsp_ops resp) ids rows reqError =
    map2 (\<lambda>(k, i) x. \<lparr>smp_ms = Some (op_ms x), smp_ok = op_ok x, smp_first = k = 0,
        smp_match = op_ok x \<and> rowMatches (first_out x) (row_at rows i), smp_error = error_of x\<rparr>) (enumerate 0 ids) (rsp_ops resp)"
proof -
  have st: "map op_stmt (rsp_ops resp) = map int [0..<length ids]" using one_iteration [OF assms(1-4)] assms(5) by simp
  have len: "length (rsp_ops resp) = length ids" using arg_cong [OF st, of length] by simp
  show ?thesis
    by (rule nth_equalityI) (simp_all add: blockSamples_def block_sample_def len nth_enumerate_eq by_stmt_nth [OF st])
qed

definition two_reads :: valid_run where
  "two_reads = \<lparr>vr_body = JObj [(''returnRows'', JBool True)], vr_backend = ''d1'', vr_statements = map (pointRead DSqlite) [2, 1], vr_repeat = 1,
     vr_concurrency = 1, vr_mode = Each\<rparr>"

definition two_rows :: "kv_row list" where
  "two_rows = [\<lparr>kv_id = 1, kv_k = ''key-000001'', kv_v = ''aa'', kv_n = 1\<rparr>, \<lparr>kv_id = 2, kv_k = ''key-000002'', kv_v = ''bb'', kv_n = 2\<rparr>]"

definition read_reply :: "string \<Rightarrow> int \<Rightarrow> driver_error + stmt_out list" where
  "read_reply v i = Inr [\<lparr>ot_rowCount = Some 1, ot_rows = Some [JObj [(''id'', JNum i), (''v'', JStr v)]], ot_meta = None\<rparr>]"

definition two_read_events :: "exec_event list" where
  "two_read_events = [Opened 0 1 1, Replies 0 (read_reply ''bb'' 2) 3 3, Replies 0 (read_reply ''zz'' 1) 4 4, Closes 0]"

subsection \<open>The counts of a row\<close>

lemma length_filter_split: "length (filter P xs) = length (filter (\<lambda>x. P x \<and> Q x) xs) + length (filter (\<lambda>x. P x \<and> \<not> Q x) xs)"
  by (induction xs) auto

text \<open>Every sample of the job benchmark is counted once: the failed ones, the reads that missed their own
  write, the writes that did not change one row, and the ones whose check passed add up to all
  samples, whatever the warm-up. All jobs are clean exactly when there is no error and no miss.\<close>

lemma job_accounting:
  "jst_errors (jobStats samples w) + jst_rywMisses (jobStats samples w) + jst_writeMisses (jobStats samples w) +
     length (filter (\<lambda>s. jsm_ok s \<and> jsm_checked s) samples) = length samples \<and>
   (jst_jobsClean (jobStats samples w) = jst_jobsAttempted (jobStats samples w) \<longleftrightarrow>
     jst_errors (jobStats samples w) + jst_rywMisses (jobStats samples w) + jst_writeMisses (jobStats samples w) = 0)"
proof -
  let ?n = "\<lambda>P. length (filter P samples)"
  let ?bad = "\<lambda>s. jsm_ok s \<and> \<not> jsm_checked s"
  have bad: "?n ?bad = ?n (\<lambda>s. jsm_kind s = Read_Step \<and> ?bad s) + ?n (\<lambda>s. jsm_kind s \<noteq> Read_Step \<and> ?bad s)"
    using length_filter_split [of ?bad samples "\<lambda>s. jsm_kind s = Read_Step"] by (simp add: conj_commute conj_left_commute)
  have all: "length samples = ?n (\<lambda>s. \<not> jsm_ok s) + (?n (\<lambda>s. jsm_ok s \<and> jsm_checked s) + ?n ?bad)"
    using sum_length_filter_compl [of jsm_ok samples] length_filter_split [of jsm_ok samples jsm_checked] by simp
  have counts: "jst_errors (jobStats samples w) + jst_rywMisses (jobStats samples w) + jst_writeMisses (jobStats samples w) +
      ?n (\<lambda>s. jsm_ok s \<and> jsm_checked s) = length samples"
    using bad all by (simp add: jobStats_def Let_def)
  have "length (filter P xs) = length xs \<longleftrightarrow> (\<forall>x \<in> set xs. P x)" for P and xs :: "nat list"
    by (metis filter_id_conv filter_True length_filter_less nat_less_le)
  then have clean: "jst_jobsClean (jobStats samples w) = jst_jobsAttempted (jobStats samples w) \<longleftrightarrow> (\<forall>s \<in> set samples. jsm_ok s \<and> jsm_checked s)"
    by (auto simp: jobStats_def Let_def samples_of_def list_all_iff)
  have "(\<forall>s \<in> set samples. jsm_ok s \<and> jsm_checked s) \<longleftrightarrow> ?n (\<lambda>s. jsm_ok s \<and> jsm_checked s) = length samples"
    by (metis (mono_tags, lifting) filter_True filter_id_conv length_filter_less nat_less_le)
  with clean counts show ?thesis by linarith
qed

subsection \<open>The ranking\<close>

text \<open>Every pair that separates is shown: a mark between them in the chain, or an entry after it, and no entry is wrong.\<close>

lemma also_complete:
  assumes "i < j" "j < length xs" "sep xs i j"
  shows "chained xs i j \<or> (i, j) \<in> set (also_pairs xs)"
proof (cases "j = i + 1")
  case True
  with assms show ?thesis by (simp add: chained_def)
next
  case False
  with assms have "i \<in> set [0..<length xs]" "j \<in> set [i + 2..<length xs]" by auto
  with assms(3) show ?thesis by (auto simp: also_pairs_def image_iff)
qed

lemma also_sound: "(i, j) \<in> set (also_pairs xs) \<Longrightarrow> sep xs i j"
  by (auto simp: also_pairs_def)

text \<open>
  A mark in the chain does not carry over the pairs around it: the wide first entry overlaps the third,
  which the chain puts after a mark.
\<close>

definition spread_of :: "rat \<Rightarrow> rat \<Rightarrow> rat \<Rightarrow> summary" where
  "spread_of lo mid hi = (summarize [] 0)\<lparr>su_n := 3, su_p25 := Some lo, su_p50 := Some mid, su_p75 := Some hi\<rparr>"

lemma chain_not_transitive:
  "rankBySpread [(''a'', spread_of 0 1 9), (''b'', spread_of 1 2 3), (''c'', spread_of 4 5 6)] = ''a ~ b < c''"
  "separated (spread_of 0 1 9) (spread_of 4 5 6) = None"
  by code_simp+

end
