(* ===== verification/Bench_Load.thy ===== *)
theory Bench_Load
  imports Bench_Plan RegExp
begin

text \<open>
  \<open>experiments/sqlite-edge-compare/lib/td04-07-plan.ts\<close> and \<open>td01-tenants.ts\<close>: how a concurrency level is
  spread over Worker invocations, throughput and error shape, the SQL of the contention and
  transaction rows, and the helpers of the database-per-tenant rows: names, the retry loop up to
  a first query, redaction and the burst columns.
\<close>

subsection \<open>Sizes\<close>

definition dialectOf :: "string \<Rightarrow> dialect" where
  "dialectOf b = (if b \<in> set [''d1'', ''do'', ''turso'', ''tursodb'', ''turso_http'', ''d1_rest''] then DSqlite else DPg)"

text \<open>The entries are names, or records that carry one; \<open>rename\<close> is the copy under the new name.\<close>

definition withTursodb :: "('a \<Rightarrow> string) \<Rightarrow> ('a \<Rightarrow> 'a) \<Rightarrow> string option \<Rightarrow> 'a list \<Rightarrow> 'a list" where
  "withTursodb key rename url base =
     (let pre = takeWhile (\<lambda>x. key x \<noteq> ''turso'') base
      in case drop (length pre) base of
           [] \<Rightarrow> base
         | t # rest \<Rightarrow> if truthy url then pre @ [t, rename t] @ rest else base)"

definition positive_int :: "string \<Rightarrow> nat option" where
  "positive_int s = (case to_number s of Fin q \<Rightarrow> if of_int \<lfloor>q\<rfloor> = q \<and> 0 < q then Some (nat \<lfloor>q\<rfloor>) else None | _ \<Rightarrow> None)"

definition intList :: "string option \<Rightarrow> nat list option" where
  "intList s =
     (case s of None \<Rightarrow> None
      | Some t \<Rightarrow> if t = [] then None
          else let xs = List.map_filter (\<lambda>x. positive_int (trim x)) (split_char (CHR '','') t) in if xs = [] then None else Some xs)"

definition posInt :: "string option \<Rightarrow> nat option" where
  "posInt s = (case s of None \<Rightarrow> None | Some t \<Rightarrow> if t = [] then None else positive_int t)"

definition or_else :: "'a option \<Rightarrow> 'a \<Rightarrow> 'a" where
  "or_else x d = (case x of Some v \<Rightarrow> v | None \<Rightarrow> d)"

record td04_sizes =
  z4_smoke :: bool
  z4_levels :: "nat list"
  z4_opsPerCell :: nat
  z4_mvccLevels :: "nat list"
  z4_mvccOps :: nat
  z4_mvccMaxAttempts :: nat

definition td04Sizes :: "string obj \<Rightarrow> td04_sizes" where
  "td04Sizes env =
     (let smoke = (obj_get env ''TD_SMOKE'' = Some ''1'')
      in \<lparr>z4_smoke = smoke,
          z4_levels = or_else (intList (obj_get env ''TD04_LEVELS'')) (if smoke then [1, 4] else [1, 4, 16, 64]),
          z4_opsPerCell = or_else (posInt (obj_get env ''TD04_OPS'')) (if smoke then 16 else 256),
          z4_mvccLevels = or_else (intList (obj_get env ''TD04_MVCC_LEVELS'')) (if smoke then [1, 4] else [1, 4, 16]),
          z4_mvccOps = or_else (posInt (obj_get env ''TD04_MVCC_OPS'')) (if smoke then 8 else 64),
          z4_mvccMaxAttempts = 25\<rparr>)"

record td07_sizes =
  z7_smoke :: bool
  z7_ryw :: nat
  z7_fillers :: nat
  z7_writerOps :: nat

definition td07Sizes :: "string obj \<Rightarrow> td07_sizes" where
  "td07Sizes env =
     (let smoke = (obj_get env ''TD_SMOKE'' = Some ''1'')
      in \<lparr>z7_smoke = smoke, z7_ryw = or_else (posInt (obj_get env ''TD07_RYW'')) (if smoke then 5 else 30),
          z7_fillers = or_else (posInt (obj_get env ''TD07_FILLERS'')) (if smoke then 4 else 8),
          z7_writerOps = or_else (posInt (obj_get env ''TD07_WRITER_OPS'')) (if smoke then 3 else 6)\<rparr>)"

definition laneSplit :: "rat \<Rightarrow> nat \<Rightarrow> nat \<times> nat" where
  "laneSplit concurrency maxLanes =
     (let c = nat (max 1 \<lfloor>concurrency\<rfloor>); lanes = min c (max 1 maxLanes) in (ceil_div c lanes, lanes))"

definition perInvocation :: "nat \<Rightarrow> nat \<Rightarrow> nat" where
  "perInvocation n invocations = max 1 (ceil_div n (max 1 invocations))"

subsection \<open>Throughput and error shape\<close>

record throughput =
  tp_attempted :: nat
  tp_ok :: nat
  tp_failed :: nat
  tp_laneErrors :: nat
  tp_errorRate :: rat
  tp_spanMs :: rat
  tp_opsPerSec :: rat

definition cents :: "rat \<Rightarrow> rat" where
  "cents x = of_int (js_round (x * 100)) / 100"

text \<open>The span of each invocation, then the longest.\<close>

definition span_of :: "op_result list \<Rightarrow> nat \<Rightarrow> rat" where
  "span_of ops i = foldl (\<lambda>m x. max m (op_t0 x + op_ms x)) 0 (filter (\<lambda>x. op_inv x = i) ops)"

definition span_ms :: "op_result list \<Rightarrow> rat" where
  "span_ms ops = foldl max 0 (map (span_of ops) (uniq (map op_inv ops)))"

definition throughput_of :: "op_result list \<Rightarrow> lane_info list \<Rightarrow> throughput" where
  "throughput_of ops lanes =
     (let spanMs = span_ms ops; ok = length (filter op_ok ops); failed = length ops - ok
      in \<lparr>tp_attempted = length ops, tp_ok = ok, tp_failed = failed, tp_laneErrors = length (filter (\<lambda>l. truthy (li_error l)) lanes),
          tp_errorRate = (if ops = [] then 0 else cents (of_nat failed / of_nat (length ops))),
          tp_spanMs = cents spanMs,
          tp_opsPerSec = (if spanMs > 0 then cents ((of_nat ok * 1000) / spanMs) else 0)\<rparr>)"

definition topErrors :: "(string \<times> nat) list \<Rightarrow> nat \<Rightarrow> nat \<Rightarrow> string" where
  "topErrors errors k width =
     join '' | '' (map (\<lambda>(t, n). show_nat n @ ''x '' @ (if length t > width then take width t @ ''...'' else t)) (take k errors))"

definition firstMeta :: "op_result list \<Rightarrow> string \<Rightarrow> string" where
  "firstMeta ops key =
     (case concat (map (\<lambda>x. concat (map (\<lambda>y. case nn (Option.bind (ot_meta y) (\<lambda>m. obj_get m key)) of None \<Rightarrow> [] | Some v \<Rightarrow> [js_string v])
         (case op_out x of Some ys \<Rightarrow> ys | None \<Rightarrow> []))) ops) of
        [] \<Rightarrow> [] | t # _ \<Rightarrow> t)"

definition scalar :: "op_result list \<Rightarrow> nat \<Rightarrow> json" where
  "scalar ops stmt =
     (case List.find (\<lambda>x. op_ok x \<and> (op_stmt x = int stmt \<or> op_stmt x = -1)) ops of
        None \<Rightarrow> JNull
      | Some x \<Rightarrow>
          let ys = (case op_out x of Some ys \<Rightarrow> ys | None \<Rightarrow> []); k = (if op_stmt x = -1 then stmt else 0)
          in case first_row (if k < length ys then Some (ys ! k) else None) of
               Some (JObj ((_, v) # _)) \<Rightarrow> v
             | _ \<Rightarrow> JNull)"

subsection \<open>SQL of the rows\<close>

record td04_sql =
  q4_create :: "string list"
  q4_reset :: "string list"
  q4_insert :: string
  q4_incr :: string
  q4_countIns :: string
  q4_readCtr :: string
  q4_drop :: "string list"

definition TD04_SQL :: "bool \<Rightarrow> td04_sql" where
  "TD04_SQL pg =
     \<lparr>q4_create =
        (if pg then [''CREATE TABLE IF NOT EXISTS td04_ins (id bigint GENERATED ALWAYS AS IDENTITY PRIMARY KEY, v text NOT NULL)'',
                     ''CREATE TABLE IF NOT EXISTS td04_ctr (id int PRIMARY KEY, n bigint NOT NULL)'']
         else [''CREATE TABLE IF NOT EXISTS td04_ins (id INTEGER PRIMARY KEY, v TEXT NOT NULL)'',
               ''CREATE TABLE IF NOT EXISTS td04_ctr (id INTEGER PRIMARY KEY, n INTEGER NOT NULL)'']),
      q4_reset = [if pg then ''TRUNCATE td04_ins'' else ''DELETE FROM td04_ins'', ''DELETE FROM td04_ctr'', ''INSERT INTO td04_ctr (id, n) VALUES (1, 0)''],
      q4_insert = (if pg then ''INSERT INTO td04_ins (v) VALUES ($1)'' else ''INSERT INTO td04_ins (v) VALUES (?)''),
      q4_incr = ''UPDATE td04_ctr SET n = n + 1 WHERE id = 1'',
      q4_countIns = (if pg then ''SELECT count(*)::int AS c FROM td04_ins'' else ''SELECT count(*) AS c FROM td04_ins''),
      q4_readCtr = (if pg then ''SELECT n::int AS n FROM td04_ctr WHERE id = 1'' else ''SELECT n FROM td04_ctr WHERE id = 1''),
      q4_drop = [''DROP TABLE IF EXISTS td04_ins'', ''DROP TABLE IF EXISTS td04_ctr'']\<rparr>"

definition TD04_PAYLOAD :: string where
  "TD04_PAYLOAD = (let s = ''td04-'' in s @ replicate (64 - length s) (CHR ''x''))"

record td07_sql =
  q7_create :: "string list"
  q7_drop :: "string list"
  q7_ins :: string
  q7_get :: string
  q7_set :: string
  q7_incr :: string
  q7_count :: string
  q7_del :: string

definition TD07_SQL :: "bool \<Rightarrow> td07_sql" where
  "TD07_SQL pg =
     \<lparr>q7_create = [if pg then ''CREATE TABLE IF NOT EXISTS td07_kv (k text PRIMARY KEY, v int NOT NULL)''
                   else ''CREATE TABLE IF NOT EXISTS td07_kv (k TEXT PRIMARY KEY, v INTEGER NOT NULL)''],
      q7_drop = [''DROP TABLE IF EXISTS td07_kv''],
      q7_ins = (if pg then ''INSERT INTO td07_kv (k, v) VALUES ($1, $2)'' else ''INSERT INTO td07_kv (k, v) VALUES (?, ?)''),
      q7_get = ''SELECT v FROM td07_kv WHERE k = '' @ (if pg then ''$1'' else ''?''),
      q7_set = (if pg then ''UPDATE td07_kv SET v = $1 WHERE k = $2'' else ''UPDATE td07_kv SET v = ? WHERE k = ?''),
      q7_incr = ''UPDATE td07_kv SET v = v + 1 WHERE k = '' @ (if pg then ''$1'' else ''?''),
      q7_count = (if pg then ''SELECT count(*)::int AS c FROM td07_kv WHERE k LIKE $1'' else ''SELECT count(*) AS c FROM td07_kv WHERE k LIKE ?''),
      q7_del = ''DELETE FROM td07_kv''\<rparr>"

subsection \<open>The Turso engine and its conflicts\<close>

datatype turso_engine = Tursodb | Libsql

definition hex_any :: "char \<Rightarrow> bool" where
  "hex_any c = (hex_val c \<noteq> None)"

definition tursoEngineOf :: "string option \<Rightarrow> turso_engine option" where
  "tursoEngineOf dbId =
     (let hex = filter (\<lambda>c. c \<noteq> CHR ''-'') (case dbId of Some s \<Rightarrow> s | None \<Rightarrow> [])
      in if \<not> (length hex = 32 \<and> list_all hex_any hex) then None
         else if read_base 16 (take 2 (drop 10 hex)) = Some 16 then Some Tursodb else Some Libsql)"

definition isConflict :: "string \<Rightarrow> bool" where
  "isConflict t = re_test (Alts (map LitI [''conflict'', ''busy'', ''locked'', ''SQLITE_BUSY'', ''write-write'', ''snapshot''])) t"

text \<open>\<open>s.split(l).join(x)\<close> for a text \<open>l\<close> that is not empty.\<close>

definition replace_text :: "string \<Rightarrow> string \<Rightarrow> string \<Rightarrow> string" where
  "replace_text l x s = replace_all (Lit l) (\<lambda>_. x) s"

definition b64_char :: "char \<Rightarrow> bool" where
  "b64_char c = (word_char c \<or> c = CHR ''-'')"

definition jwt_head :: re where
  "jwt_head = Seqs [Lit ''ey'', Rep 10 (Cls b64_char), Star (Cls b64_char), Lit ''.'', Plus (Cls b64_char), Lit ''.'']"

definition host_label :: "char \<Rightarrow> bool" where
  "host_label c = (is_lower c \<or> is_upper c \<or> is_digit c \<or> c = CHR ''-'')"

definition scrub :: "string \<Rightarrow> string list \<Rightarrow> string" where
  "scrub txt literals =
     (let s1 = replace_all (Seq jwt_head (Star (Cls b64_char))) (\<lambda>_. ''<jwt>'') txt;
          s2 = replace_all (Seqs [Plus (Cls host_label), Lit ''.'', Plus (Cls host_label), LitI ''.turso.io'']) (\<lambda>_. ''<turso-host>'') s1
      in foldl (\<lambda>s l. if l = [] then s else replace_text l ''<redacted>'' s) s2 literals)"

subsection \<open>Tenants\<close>

definition TD01_PREFIX :: string where
  "TD01_PREFIX = PREFIX @ ''td01-''"

definition burstSize :: "string obj \<Rightarrow> nat" where
  "burstSize env =
     (case Option.bind (obj_get env ''TD01_BURST'') positive_int of
        Some n \<Rightarrow> min n 50
      | None \<Rightarrow> if obj_get env ''TD_SMOKE'' = Some ''1'' then 2 else 20)"

definition stamp_ok :: "string \<Rightarrow> bool" where
  "stamp_ok s = (1 \<le> length s \<and> length s \<le> 12 \<and> list_all (\<lambda>c. is_lower c \<or> is_digit c) s)"

definition run_prefix :: "string \<Rightarrow> string" where
  "run_prefix stamp = TD01_PREFIX @ stamp @ ''-''"

definition tenantNames :: "string \<Rightarrow> nat \<Rightarrow> string + string \<times> string \<times> string list" where
  "tenantNames stamp burst =
     (if \<not> stamp_ok stamp then Inl (''tenantNames: stamp must be 1-12 lowercase alphanumerics (got '' @ quoted stamp @ '')'')
      else Inr (run_prefix stamp, run_prefix stamp @ ''s'', map (\<lambda>k. run_prefix stamp @ ''b'' @ show_nat k) [0..<burst]))"

definition ident_char :: "char \<Rightarrow> bool" where
  "ident_char c = (is_lower c \<or> is_digit c \<or> c = CHR ''-'')"

definition pgIdent :: "string \<Rightarrow> string + string" where
  "pgIdent name =
     (if 1 \<le> length name \<and> length name \<le> 63 \<and> list_all ident_char name then Inr ([CHR 0x22] @ name @ [CHR 0x22])
      else Inl (''pgIdent: unexpected identifier '' @ quoted name))"

definition firstQuerySql :: "bool \<Rightarrow> string option \<Rightarrow> string + string \<times> string \<times> string" where
  "firstQuerySql pg schema =
     (let tenant = sql_quote ''tenant''
      in if \<not> pg then
           Inr (''CREATE TABLE IF NOT EXISTS t (id INTEGER PRIMARY KEY, v TEXT NOT NULL)'',
                ''INSERT OR REPLACE INTO t (id, v) VALUES (1, '' @ tenant @ '')'', ''SELECT v FROM t WHERE id = 1'')
         else (case pgIdent (case schema of Some s \<Rightarrow> s | None \<Rightarrow> []) of
            Inl e \<Rightarrow> Inl e
          | Inr s \<Rightarrow>
              Inr (''CREATE TABLE IF NOT EXISTS '' @ s @ ''.t (id int PRIMARY KEY, v text NOT NULL)'',
                   ''INSERT INTO '' @ s @ ''.t (id, v) VALUES (1, '' @ tenant @ '') ON CONFLICT (id) DO UPDATE SET v = excluded.v'',
                   ''SELECT v FROM '' @ s @ ''.t WHERE id = 1'')))"

text \<open>The retry loop. Attempt \<open>k\<close> gives a value or an error, and takes some time; \<open>clock k\<close> is read when it has failed.\<close>

record 'a attempted =
  at_ok :: bool
  at_value :: "'a option"
  at_attempts :: nat
  at_firstError :: "string option"
  at_lastError :: "string option"
  at_lastMs :: rat

definition default_delays :: "int list" where
  "default_delays = [250, 500, 1000, 2000]"

definition delay_after :: "int list \<Rightarrow> nat \<Rightarrow> int" where
  "delay_after delays attempts = (let ds = (if delays = [] then default_delays else delays) in ds ! min (attempts - 1) (length ds - 1))"

text \<open>An empty first error is falsy and is not reported with a success, but \<open>??=\<close> keeps it as the first.\<close>

fun until_loop :: "nat \<Rightarrow> (nat \<Rightarrow> string + 'a) \<Rightarrow> (nat \<Rightarrow> rat) \<Rightarrow> (nat \<Rightarrow> int) \<Rightarrow> int \<Rightarrow> int list \<Rightarrow> nat \<Rightarrow> string option \<Rightarrow> string option \<Rightarrow> int list \<Rightarrow>
    ('a attempted \<times> int list) option" where
  "until_loop 0 fn took clock fin delays n firstE lastE waits = None"
| "until_loop (Suc fuel) fn took clock fin delays n firstE lastE waits =
     (case fn n of
        Inr v \<Rightarrow> Some (\<lparr>at_ok = True, at_value = Some v, at_attempts = n + 1, at_firstError = (if truthy firstE then firstE else None),
                        at_lastError = (if truthy firstE then lastE else None), at_lastMs = took n\<rparr>, waits)
      | Inl e \<Rightarrow>
          let firstE' = (case firstE of None \<Rightarrow> Some e | Some _ \<Rightarrow> firstE)
          in if clock n \<ge> fin
             then Some (\<lparr>at_ok = False, at_value = None, at_attempts = n + 1, at_firstError = firstE', at_lastError = Some e, at_lastMs = 0\<rparr>, waits)
             else until_loop fuel fn took clock fin delays (n + 1) firstE' (Some e) (waits @ [delay_after delays (n + 1)]))"

definition untilOk :: "nat \<Rightarrow> (nat \<Rightarrow> string + 'a) \<Rightarrow> (nat \<Rightarrow> rat) \<Rightarrow> (nat \<Rightarrow> int) \<Rightarrow> int \<Rightarrow> int \<Rightarrow> int list \<Rightarrow> ('a attempted \<times> int list) option" where
  "untilOk fuel fn took clock start deadlineMs delays = until_loop fuel fn took clock (start + deadlineMs) delays 0 None None []"

subsection \<open>Redaction and columns\<close>

definition host_char :: "char \<Rightarrow> bool" where
  "host_char c = (host_label c \<or> c = CHR ''.'')"

definition hex_ci :: "char \<Rightarrow> bool" where
  "hex_ci c = hex_any c"

definition uuid_re :: re where
  "uuid_re = Seqs [WordB, Rep 8 (Cls hex_ci), Lit ''-'', Rep 4 (Cls hex_ci), Lit ''-'', Rep 4 (Cls hex_ci), Lit ''-'', Rep 4 (Cls hex_ci), Lit ''-'',
     Rep 12 (Cls hex_ci), WordB]"

definition hex32_re :: re where
  "hex32_re = Seqs [WordB, Rep 32 (Cls (\<lambda>c. hex_any c \<and> \<not> is_upper c)), WordB]"

definition letter :: "char \<Rightarrow> bool" where
  "letter c = (is_lower c \<or> is_upper c)"

definition email_re :: re where
  "email_re = Seqs [Plus (Cls (\<lambda>c. letter c \<or> is_digit c \<or> c \<in> set ''._%+-'')), Lit ''@'', Plus (Cls host_char), Lit ''.'',
     Rep 2 (Cls letter), Star (Cls letter)]"

definition home_re :: re where
  "home_re = Seqs [Lit ''/'', Alt (Lit ''Users'') (Lit ''home''), Lit ''/'',
     Plus (Cls (\<lambda>c. c \<noteq> CHR ''/'' \<and> \<not> is_ws c \<and> c \<noteq> CHR 0x22 \<and> c \<noteq> CHR 0x27))]"

definition supabase_re :: re where
  "supabase_re = Seqs [Plus (Cls host_char), LitI ''.supabase.'', Alt (LitI ''co'') (LitI ''com'')]"

definition redact_patterns :: "(re \<times> string) list" where
  "redact_patterns =
     [(Seq (Plus (Cls host_char)) (LitI ''.turso.io''), ''<turso-host>''),
      (supabase_re, ''<supabase-host>''),
      (uuid_re, ''<uuid>''), (hex32_re, ''<hex32>''), (Seq jwt_head (Plus (Cls b64_char)), ''<jwt>''), (email_re, ''<email>''), (home_re, ''~'')]"

definition td01_redact :: "string \<Rightarrow> string list \<Rightarrow> string" where
  "td01_redact txt literals =
     (let s1 = foldl (\<lambda>s (r, x). replace_all r (\<lambda>_. x) s) txt redact_patterns
      in take 300 (foldl (\<lambda>s l. if length l \<ge> 6 then replace_text l ''<id>'' s else s) s1 literals))"

record tenant_outcome =
  to_name :: string
  to_created :: bool
  to_createMs :: "rat option"
  to_tokenMs :: "rat option"
  to_ready :: bool
  to_createToFirstQueryMs :: "rat option"
  to_firstQueryMs :: "rat option"
  to_attempts :: "nat option"
  to_error :: "string option"

definition errorSummary :: "string option list \<Rightarrow> string" where
  "errorSummary errors =
     join '' | '' (map (\<lambda>(t, c). show_nat c @ ''x '' @ t) (by_count (tally (filter (\<lambda>e. e \<noteq> []) (List.map_filter (\<lambda>x. x) errors)))))"

text \<open>A cell is a number or text; a missing number reads as the empty text.\<close>

definition num_cell :: "rat option \<Rightarrow> string + rat" where
  "num_cell x = (case x of None \<Rightarrow> Inl [] | Some q \<Rightarrow> Inr q)"

definition count_cell :: "nat \<Rightarrow> string + rat" where
  "count_cell n = Inr (of_nat n)"

definition burstColumns :: "tenant_outcome list \<Rightarrow> (string + rat) obj" where
  "burstColumns outcomes =
     (let create = summarize (durations (map to_createMs (filter to_created outcomes))) 0;
          c2q = summarize (durations (map to_createToFirstQueryMs (filter to_ready outcomes))) 0;
          tokens = summarize (durations (map to_tokenMs outcomes)) 0;
          attempts = map (\<lambda>x. case to_attempts x of Some n \<Rightarrow> n | None \<Rightarrow> 0) outcomes;
          errs = errorSummary (map to_error outcomes)
      in [(''n_requested'', count_cell (length outcomes)), (''n_created'', count_cell (length (filter to_created outcomes))),
          (''n_ready'', count_cell (length (filter to_ready outcomes))), (''n_refused'', count_cell (length (filter (\<lambda>x. \<not> to_created x) outcomes))),
          (''create_ms_p50'', num_cell (su_p50 create)), (''create_ms_p95'', num_cell (su_p95 create)), (''create_ms_max'', num_cell (su_max create)),
          (''create_to_first_query_ms_p50'', num_cell (su_p50 c2q)), (''create_to_first_query_ms_p95'', num_cell (su_p95 c2q)),
          (''create_to_first_query_ms_max'', num_cell (su_max c2q)), (''first_query_attempts_max'', count_cell (foldl max 0 attempts))] @
         (if su_n tokens = 0 then [] else [(''token_ms_p50'', num_cell (su_p50 tokens)), (''token_ms_max'', num_cell (su_max tokens))]) @
         (if errs = [] then [] else [(''errors'', Inl (take 500 errs))]))"

definition deleteColumns :: "rat option \<Rightarrow> rat list \<Rightarrow> nat \<Rightarrow> (string + rat) obj" where
  "deleteColumns singleMs burstMs failed =
     (let s = summarize burstMs 0
      in [(''delete_single_ms'', num_cell singleMs), (''n_burst_deleted'', count_cell (su_n s)), (''delete_burst_ms_p50'', num_cell (su_p50 s)),
          (''delete_burst_ms_p95'', num_cell (su_p95 s)), (''delete_burst_ms_max'', num_cell (su_max s)), (''n_delete_failed'', count_cell failed)])"

subsection \<open>A level is spread over invocations without losing lanes\<close>

text \<open>A concurrency level spread over invocations keeps its lanes: none has more than the limit, together they
  are at least the level and by less than one invocation more, and when each runs its share the cell
  attempts at least the operations asked for and fewer than one more for each invocation.\<close>

lemma lane_split_bounds:
  assumes "1 \<le> \<lfloor>c\<rfloor>" "1 \<le> maxLanes" "1 \<le> n" "laneSplit c maxLanes = (k, lanes)"
  shows "1 \<le> lanes \<and> lanes \<le> maxLanes \<and> 1 \<le> k \<and> \<lfloor>c\<rfloor> \<le> int (k * lanes) \<and> int (k * lanes) < \<lfloor>c\<rfloor> + int lanes \<and>
    n \<le> k * perInvocation n k \<and> k * perInvocation n k < n + k"
proof -
  define m where "m = nat \<lfloor>c\<rfloor>"
  have m: "\<lfloor>c\<rfloor> = int m" "1 \<le> m" using assms(1) unfolding m_def by linarith+
  then have l: "lanes = min m maxLanes" and k: "k = ceil_div m lanes" using assms(2,4) by (auto simp: laneSplit_def Let_def max_def)
  have lanes: "0 < lanes" "lanes \<le> maxLanes" using l m assms(2) by auto
  note kb = ceil_div_bounds [OF lanes(1), of m, folded k]
  have "0 < k" using kb(1) m(2) by (cases k) auto
  note pb = ceil_div_bounds [OF this, of n]
  have "0 < ceil_div n k" using pb(1) assms(3) by (cases "ceil_div n k") auto
  then have "perInvocation n k = ceil_div n k" using \<open>0 < k\<close> by (simp add: perInvocation_def max_def)
  with kb pb lanes \<open>0 < k\<close> m show ?thesis by (simp add: mult.commute del: of_nat_mult flip: of_nat_add)
qed

lemma foldl_max_ge: "x \<in> set xs \<Longrightarrow> (x :: rat) \<le> foldl max m xs" "m \<le> foldl max m xs"
  by (induction xs arbitrary: m) (auto simp: max_def, meson le_cases order_trans, meson le_cases order_trans)

lemma span_covers: "x \<in> set ops \<Longrightarrow> op_t0 x + op_ms x \<le> span_ms ops"
proof -
  assume x: "x \<in> set ops"
  have f: "foldl (\<lambda>m x. max m (op_t0 x + op_ms x)) m xs = foldl max m (map (\<lambda>x. op_t0 x + op_ms x) xs)" for m xs
    by (induction xs arbitrary: m) auto
  have "op_t0 x + op_ms x \<le> span_of ops (op_inv x)" unfolding span_of_def f using x by (intro foldl_max_ge(1)) auto
  also have "\<dots> \<le> span_ms ops" unfolding span_ms_def using x by (intro foldl_max_ge(1)) auto
  finally show ?thesis .
qed

subsection \<open>Tenant names\<close>

lemma ident_lit: "list_all ident_char ''sec-td01-''"
  by code_simp

lemma show_nat_short: "k < 100 \<Longrightarrow> length (show_nat k) \<le> 2"
  by (subst show_nat.simps) (auto simp: show_nat.simps [of "k div 10"])

lemma show_nat_ident: "list_all ident_char (show_nat k)"
  using show_nat_digits by (auto simp: list_all_iff ident_char_def)

text \<open>The tenants of a run can all be created: for a valid stamp and the largest burst allowed, the single
  tenant's name and every burst name start with the lab's own prefix, differ from each other, and are
  accepted by the identifier check.\<close>

lemma tenant_names_valid:
  assumes "stamp_ok stamp" "burst \<le> 50"
  shows "case tenantNames stamp burst of
      Inl _ \<Rightarrow> False
    | Inr (prefix, single, bs) \<Rightarrow> length bs = burst \<and> distinct (single # bs) \<and>
        list_all (\<lambda>n. starts_with n PREFIX \<and> starts_with n prefix \<and> pgIdent n = Inr ([CHR 0x22] @ n @ [CHR 0x22])) (single # bs)"
proof -
  have st: "list_all ident_char stamp" "length stamp \<le> 12" using assms(1) by (auto simp: stamp_ok_def list_all_iff ident_char_def)
  have px: "run_prefix stamp = ''sec-td01-'' @ stamp @ ''-''" by (simp add: run_prefix_def TD01_PREFIX_def PREFIX_def)
  have ok: "pgIdent (run_prefix stamp @ w) = Inr ([CHR 0x22] @ (run_prefix stamp @ w) @ [CHR 0x22])" if "list_all ident_char w" "length w \<le> 3" for w
    using st that ident_lit by (simp add: pgIdent_def px ident_char_def)
  have sw: "starts_with (p @ w) p" for p w by (induction p) auto
  have pre: "starts_with (run_prefix stamp @ w) PREFIX" "starts_with (run_prefix stamp @ w) (run_prefix stamp)" for w
    by (simp_all add: sw, simp add: px PREFIX_def)
  have b: "list_all ident_char (''b'' @ show_nat k)" "length (''b'' @ show_nat k) \<le> 3" if "k < burst" for k
    using that assms(2) show_nat_ident [of k] show_nat_short [of k] by (auto simp: ident_char_def is_lower_def)
  have s: "list_all ident_char ''s''" by (simp add: ident_char_def is_lower_def)
  have dist: "distinct (map (\<lambda>k. run_prefix stamp @ ''b'' @ show_nat k) [0..<burst])"
    by (auto simp: distinct_map inj_on_def show_nat_inj)
  have sb: "''s'' \<noteq> ''b'' @ w" for w by simp
  show ?thesis using assms(1) ok [OF b] ok [OF s] pre dist sb
    by (auto simp: tenantNames_def list_all_iff simp del: append.assoc append_Cons append_Nil)
qed

subsection \<open>The retry loop\<close>

text \<open>The loop ends at the first attempt that succeeds or fails past the deadline.\<close>

definition loop_ends :: "(nat \<Rightarrow> string + 'a) \<Rightarrow> (nat \<Rightarrow> int) \<Rightarrow> int \<Rightarrow> nat \<Rightarrow> bool" where
  "loop_ends fn clock fin n = (\<not> isl (fn n) \<or> clock n \<ge> fin)"

definition errors_before :: "(nat \<Rightarrow> string + 'a) \<Rightarrow> nat \<Rightarrow> string list" where
  "errors_before fn n = map (\<lambda>k. projl (fn k)) [0..<n]"

lemma until_loop_runs:
  assumes "\<forall>k. i \<le> k \<and> k < i + d \<longrightarrow> \<not> loop_ends fn clock fin k" "loop_ends fn clock fin (i + d)" "d < fuel"
    and "firstE = (if i = 0 then None else Some (projl (fn 0)))" "lastE = (if i = 0 then None else Some (projl (fn (i - 1))))"
    and "waits = map (\<lambda>k. delay_after delays (k + 1)) [0..<i]"
  shows "\<exists>r. until_loop fuel fn took clock fin delays i firstE lastE waits = Some (r, map (\<lambda>k. delay_after delays (k + 1)) [0..<i + d]) \<and>
    at_ok r = (\<not> isl (fn (i + d))) \<and> at_attempts r = i + d + 1 \<and> (\<not> isl (fn (i + d)) \<longrightarrow> at_value r = Some (projr (fn (i + d)))) \<and>
    (isl (fn (i + d)) \<longrightarrow> at_firstError r = Some (projl (fn 0)) \<and> at_lastError r = Some (projl (fn (i + d))))"
  using assms
proof (induction d arbitrary: i fuel firstE lastE waits)
  case 0
  then obtain f where "fuel = Suc f" by (cases fuel) auto
  with 0 show ?case by (cases "fn i") (auto simp: loop_ends_def)
next
  case (Suc d)
  then obtain f where f: "fuel = Suc f" by (cases fuel) auto
  have "\<not> loop_ends fn clock fin i" using Suc.prems(1) by simp
  then obtain e where e: "fn i = Inl e" "\<not> clock i \<ge> fin" by (cases "fn i") (auto simp: loop_ends_def)
  have first: "(case firstE of None \<Rightarrow> Some e | Some _ \<Rightarrow> firstE) = Some (projl (fn 0))" using Suc.prems(4) e by (cases "i = 0") auto
  have step: "until_loop fuel fn took clock fin delays i firstE lastE waits =
      until_loop f fn took clock fin delays (Suc i) (Some (projl (fn 0))) (Some e) (waits @ [delay_after delays (i + 1)])"
    using e by (simp add: f first [simplified] Let_def)
  have "\<exists>r. until_loop f fn took clock fin delays (Suc i) (Some (projl (fn 0))) (Some e) (waits @ [delay_after delays (i + 1)]) =
      Some (r, map (\<lambda>k. delay_after delays (k + 1)) [0..<Suc i + d]) \<and>
    at_ok r = (\<not> isl (fn (Suc i + d))) \<and> at_attempts r = Suc i + d + 1 \<and> (\<not> isl (fn (Suc i + d)) \<longrightarrow> at_value r = Some (projr (fn (Suc i + d)))) \<and>
    (isl (fn (Suc i + d)) \<longrightarrow> at_firstError r = Some (projl (fn 0)) \<and> at_lastError r = Some (projl (fn (Suc i + d))))"
    by (rule Suc.IH) (use Suc.prems e f in auto)
  then show ?case unfolding step by simp
qed

text \<open>The retry loop returns once an attempt succeeds or the clock has passed the deadline when one fails, and
  at the first such attempt: it reports success exactly when that attempt succeeded, with its value,
  the number of attempts made, on failure the first and the last error, and it waited after every
  attempt but the last, for the delay of its turn.\<close>

lemma untilOk_returns:
  assumes "loop_ends fn clock (start + deadlineMs) n" "\<forall>k < n. \<not> loop_ends fn clock (start + deadlineMs) k" "n < fuel"
  shows "\<exists>r. untilOk fuel fn took clock start deadlineMs delays = Some (r, map (\<lambda>k. delay_after delays (k + 1)) [0..<n]) \<and>
    at_ok r = (\<not> isl (fn n)) \<and> at_attempts r = n + 1 \<and> (\<not> isl (fn n) \<longrightarrow> at_value r = Some (projr (fn n))) \<and>
    (isl (fn n) \<longrightarrow> at_firstError r = Some (projl (fn 0)) \<and> at_lastError r = Some (projl (fn n)))"
  using until_loop_runs [of 0 n fn clock "start + deadlineMs" fuel None None "[]" delays took] assms by (simp add: untilOk_def)

definition third_time :: "nat \<Rightarrow> string + nat" where
  "third_time k = (if k = 0 then Inl ''refused'' else if k = 1 then Inl ''no such table'' else Inr 7)"

text \<open>
  The alternatives of the Supabase host pattern are tried in order and nothing follows them, so the
  longer ending is never matched: the last letter of a \<open>.com\<close> host is left behind.
\<close>

lemma supabase_com_left_over:
  "replace_all supabase_re (\<lambda>_. ''<supabase-host>'') ''x.supabase.com'' = ''<supabase-host>m''"
  by code_simp

end
