(* ===== verification/Acl.thy ===== *)
theory Acl
  imports Prelude
begin

text \<open>
  \<open>experiments/partitioned-tenancy/lib/acl.ts\<close>: the default privileges of a role in a schema are read as
  text, recorded, changed by a test and put back. The statements that put them back are data here,
  and their text beside it. Object types are the one-letter codes of the catalogue.
\<close>

subsection \<open>Reading an ACL\<close>

record acl_row =
  ar_objtype :: string
  ar_acl :: string

record acl_item =
  ai_grantee :: string
  ai_privs :: string
  ai_grantable :: string
  ai_grantor :: string

definition sql_lit :: "string \<Rightarrow> string" where
  "sql_lit s = [CHR 0x27] @ concat (map (\<lambda>c. if c = CHR 0x27 then [c, c] else [c]) s) @ [CHR 0x27]"

definition sql_ident :: "string \<Rightarrow> string" where
  "sql_ident s = (if s = [] then ''public'' else [CHR 0x22] @ concat (map (\<lambda>c. if c = CHR 0x22 then [c, c] else [c]) s) @ [CHR 0x22])"

definition defaultAclSql :: "string \<Rightarrow> string \<Rightarrow> string" where
  "defaultAclSql role schema =
     ''select defaclobjtype::text as objtype, defaclacl::text as acl from pg_default_acl'' @ nl @
     ''   where defaclrole = '' @ sql_lit role @ ''::regrole and defaclnamespace = '' @ sql_lit schema @ ''::regnamespace order by 1''"

definition OBJ :: "(string \<times> (char \<times> string) list) obj" where
  "OBJ =
     [(''r'', ''tables'', [(CHR ''a'', ''insert''), (CHR ''r'', ''select''), (CHR ''w'', ''update''), (CHR ''d'', ''delete''), (CHR ''D'', ''truncate''),
                           (CHR ''x'', ''references''), (CHR ''t'', ''trigger''), (CHR ''m'', ''maintain'')]),
      (''S'', ''sequences'', [(CHR ''r'', ''select''), (CHR ''w'', ''update''), (CHR ''U'', ''usage'')]),
      (''f'', ''functions'', [(CHR ''X'', ''execute'')]),
      (''T'', ''types'', [(CHR ''U'', ''usage'')]),
      (''n'', ''schemas'', [(CHR ''U'', ''usage''), (CHR ''C'', ''create'')])]"

text \<open>
  Collecting results in order: the first error ends the loop, as a \<open>throw\<close> does.
\<close>

fun collect :: "(string + 'a list) list \<Rightarrow> string + 'a list" where
  "collect [] = Inr []"
| "collect (Inl e # xs) = Inl e"
| "collect (Inr a # xs) = (case collect xs of Inl e \<Rightarrow> Inl e | Inr b \<Rightarrow> Inr (a @ b))"

definition letter_or_star :: "char \<Rightarrow> bool" where
  "letter_or_star c = (is_lower c \<or> is_upper c \<or> c = CHR ''*'')"

text \<open>The privilege letters without marks, and those followed by a mark.\<close>

definition priv_letters :: "string \<Rightarrow> string" where
  "priv_letters ls = filter (\<lambda>c. c \<noteq> CHR ''*'') ls"

fun marked_letters :: "string \<Rightarrow> string" where
  "marked_letters [] = []"
| "marked_letters (c # cs) =
     (if c \<noteq> CHR ''*'' \<and> (case cs of d # _ \<Rightarrow> d = CHR ''*'' | [] \<Rightarrow> False) then c # marked_letters cs else marked_letters cs)"

text \<open>
  The pattern \<open>^([^=]*)=([A-Za-z*]*)/(.+)$\<close> splits an item in one way only: at the first equals sign, then
  after the letters.
\<close>

definition parse_item :: "string \<Rightarrow> string + acl_item list" where
  "parse_item raw =
     (let grantee = takeWhile (\<lambda>c. c \<noteq> CHR ''='') raw; r = dropWhile (\<lambda>c. c \<noteq> CHR ''='') raw;
          letters = takeWhile letter_or_star (tl r); q = dropWhile letter_or_star (tl r)
      in if r \<noteq> [] \<and> q \<noteq> [] \<and> hd q = CHR ''/'' \<and> tl q \<noteq> [] \<and> list_all (\<lambda>c. of_char c \<notin> {10, 13 :: nat}) (tl q)
         then Inr [\<lparr>ai_grantee = grantee, ai_privs = priv_letters letters, ai_grantable = marked_letters letters, ai_grantor = tl q\<rparr>]
         else Inl (''not an aclitem: '' @ raw))"

definition parseAcl :: "string \<Rightarrow> string + acl_item list" where
  "parseAcl txt =
     (let t = trim txt
      in if t = [] \<or> t = ''absent'' \<or> t = ''{}'' then Inr []
         else if \<not> starts_with t ''{'' \<or> \<not> ends_with t ''}'' then Inl (''not an aclitem[]: '' @ t)
         else if CHR 0x22 \<in> set t then Inl (''quoted role names are not supported: '' @ t)
         else collect (map parse_item (split_char (CHR '','') (butlast (tl t)))))"

definition char_cmp :: "char \<Rightarrow> char \<Rightarrow> int" where
  "char_cmp a b = of_char a - of_char b"

definition norm_item :: "acl_item \<Rightarrow> string" where
  "norm_item i = ai_grantee i @ ''='' @ sort_by char_cmp (ai_privs i) @ ''*'' @ sort_by char_cmp (ai_grantable i) @ ''/'' @ ai_grantor i"

definition normaliseAcl :: "string \<Rightarrow> string + string" where
  "normaliseAcl txt =
     (case parseAcl txt of Inl e \<Rightarrow> Inl e | Inr items \<Rightarrow> Inr (join '','' (sort_by code_unit_cmp (map norm_item items))))"

subsection \<open>Putting it back\<close>

text \<open>One statement on the defaults of an object type: everything revoked from a grantee, or letters granted, with grant option or not.\<close>

datatype acl_stmt = Revoke_All string | Grant_Privs string string bool

definition check_letters :: "string \<Rightarrow> string \<Rightarrow> acl_stmt \<Rightarrow> string + acl_stmt list" where
  "check_letters ty letters st =
     (case List.find (\<lambda>c. Option.bind (obj_get OBJ ty) (\<lambda>o1. map_of (snd o1) c) = None) letters of
        Some c \<Rightarrow> Inl (''privilege '' @ [CHR 0x27, c, CHR 0x27] @ '' is not valid for object type '' @ [CHR 0x27] @ ty @ [CHR 0x27])
      | None \<Rightarrow> Inr [st])"

definition plain_letters :: "acl_item \<Rightarrow> string" where
  "plain_letters i = filter (\<lambda>c. c \<notin> set (ai_grantable i)) (ai_privs i)"

definition grant_item :: "string \<Rightarrow> acl_item \<Rightarrow> string + acl_stmt list" where
  "grant_item ty i =
     collect ((if ai_grantable i = [] then [] else [check_letters ty (ai_grantable i) (Grant_Privs (ai_grantee i) (ai_grantable i) True)]) @
              (if plain_letters i = [] then [] else [check_letters ty (plain_letters i) (Grant_Privs (ai_grantee i) (plain_letters i) False)]))"

definition acl_of :: "acl_row list \<Rightarrow> string \<Rightarrow> string" where
  "acl_of rows ty = (case List.find (\<lambda>r. ar_objtype r = ty) rows of Some r \<Rightarrow> ar_acl r | None \<Rightarrow> ''absent'')"

definition grantor_error :: "string \<Rightarrow> string \<Rightarrow> acl_item list \<Rightarrow> string option" where
  "grantor_error role want items =
     (case List.find (\<lambda>i. ai_grantor i \<noteq> role) items of
        None \<Rightarrow> None
      | Some i \<Rightarrow> Some (''grantor '' @ ai_grantor i @ '' in '' @ want @ '': ALTER DEFAULT PRIVILEGES FOR ROLE '' @ role @ '' can only grant as '' @ role))"

definition restore_items :: "string \<Rightarrow> acl_item list \<Rightarrow> acl_item list \<Rightarrow> string + acl_stmt list" where
  "restore_items ty target have_items =
     (case collect (map (grant_item ty) target) of
        Inl e \<Rightarrow> Inl e
      | Inr gs \<Rightarrow> Inr (map Revoke_All (uniq (map ai_grantee (have_items @ target))) @ gs))"

text \<open>
  One object type. Both texts are read when they differ, and a text that cannot be read is an error
  whenever the loop gets as far as reading it: the current one is read after the grantors are checked
  unless the recorded one has no items.
\<close>

definition restore_type :: "string \<Rightarrow> string \<Rightarrow> string \<Rightarrow> string \<Rightarrow> string + acl_stmt list" where
  "restore_type role ty want hav =
     (if obj_get OBJ ty = None then Inl (''unsupported default-ACL object type '' @ [CHR 0x27] @ ty @ [CHR 0x27])
      else if want = hav then Inr []
      else (case parseAcl want of
          Inl e \<Rightarrow> Inl e
        | Inr target \<Rightarrow>
            (case grantor_error role want target of
               Some e \<Rightarrow> Inl e
             | None \<Rightarrow>
                 (case parseAcl hav of
                    Inl e \<Rightarrow> Inl e
                  | Inr have_items \<Rightarrow> if target = [] \<and> have_items = [] then Inr [] else restore_items ty target have_items))))"

definition acl_types :: "acl_row list \<Rightarrow> acl_row list \<Rightarrow> string list" where
  "acl_types recorded current = sort_by code_unit_cmp (uniq (map ar_objtype (recorded @ current)))"

definition restore_stmts :: "acl_row list \<Rightarrow> acl_row list \<Rightarrow> string \<Rightarrow> string + (string \<times> acl_stmt) list" where
  "restore_stmts recorded current role =
     collect (map (\<lambda>ty. case restore_type role ty (acl_of recorded ty) (acl_of current ty) of Inl e \<Rightarrow> Inl e | Inr ss \<Rightarrow> Inr (map (Pair ty) ss))
       (acl_types recorded current))"

definition privList :: "string \<Rightarrow> string \<Rightarrow> string" where
  "privList ty letters =
     join '', '' (map (\<lambda>c. case Option.bind (obj_get OBJ ty) (\<lambda>o1. map_of (snd o1) c) of Some kw \<Rightarrow> kw | None \<Rightarrow> []) letters)"

definition render_stmt :: "string \<Rightarrow> string \<Rightarrow> string \<times> acl_stmt \<Rightarrow> string" where
  "render_stmt role schema st =
     (let pre = ''alter default privileges for role '' @ sql_ident role @ '' in schema '' @ sql_ident schema;
          kw = (case obj_get OBJ (fst st) of Some (k, _) \<Rightarrow> k | None \<Rightarrow> [])
      in case snd st of
           Revoke_All g \<Rightarrow> pre @ '' revoke all on '' @ kw @ '' from '' @ sql_ident g @ '';''
         | Grant_Privs g ls opt \<Rightarrow>
             pre @ '' grant '' @ privList (fst st) ls @ '' on '' @ kw @ '' to '' @ sql_ident g @ (if opt then '' with grant option;'' else '';''))"

definition restoreDefaultAclSql :: "acl_row list \<Rightarrow> acl_row list \<Rightarrow> string \<Rightarrow> string \<Rightarrow> string + string" where
  "restoreDefaultAclSql recorded current role schema =
     (case restore_stmts recorded current role of Inl e \<Rightarrow> Inl e | Inr ss \<Rightarrow> Inr (join nl (map (render_stmt role schema) ss)))"

record acl_compare =
  ac_exact :: bool
  ac_same :: bool
  ac_diff :: "string list"

definition compare_type :: "acl_row list \<Rightarrow> acl_row list \<Rightarrow> string \<Rightarrow> string + string list" where
  "compare_type recorded cur ty =
     (let a = acl_of recorded ty; b = acl_of cur ty
      in case normaliseAcl a of
           Inl e \<Rightarrow> Inl e
         | Inr na \<Rightarrow>
             (case normaliseAcl b of
                Inl e \<Rightarrow> Inl e
              | Inr nb \<Rightarrow> Inr (if na \<noteq> nb then [ty @ '': recorded '' @ a @ '' now '' @ b] else [])))"

definition compareDefaultAcl :: "acl_row list \<Rightarrow> acl_row list \<Rightarrow> string + acl_compare" where
  "compareDefaultAcl recorded cur =
     (let types = acl_types recorded cur
      in case collect (map (compare_type recorded cur) types) of
           Inl e \<Rightarrow> Inl e
         | Inr d \<Rightarrow> Inr \<lparr>ac_exact = list_all (\<lambda>ty. acl_of recorded ty = acl_of cur ty) types, ac_same = (d = []), ac_diff = d\<rparr>)"

definition renderRows :: "acl_row list \<Rightarrow> string" where
  "renderRows rows = (let s = join ''; '' (map (\<lambda>r. ar_objtype r @ ''='' @ ar_acl r) rows) in if s = [] then ''none'' else s)"

subsection \<open>The statements restore the recorded privileges\<close>

text \<open>
  What an ACL means: for each object type, grantee and letter whether the privilege is held, and whether
  with grant option. A text that cannot be read means nothing.
\<close>

type_synonym acl_state = "string \<Rightarrow> char \<Rightarrow> bool option"

definition held :: "acl_item list \<Rightarrow> acl_state" where
  "held items g c =
     (if \<exists>i \<in> set items. ai_grantee i = g \<and> c \<in> set (ai_grantable i) then Some True
      else if \<exists>i \<in> set items. ai_grantee i = g \<and> c \<in> set (ai_privs i) then Some False else None)"

definition meaning :: "acl_row list \<Rightarrow> string \<Rightarrow> acl_state" where
  "meaning rows ty = held (case parseAcl (acl_of rows ty) of Inl _ \<Rightarrow> [] | Inr items \<Rightarrow> items)"

text \<open>
  What the server does with a statement, as documented: revoking everything leaves a grantee nothing;
  granting adds the letters, and a grant without the option takes no option away.
\<close>

definition server_law :: "(acl_stmt \<Rightarrow> acl_state \<Rightarrow> acl_state) \<Rightarrow> bool" where
  "server_law run =
     ((\<forall>g a. run (Revoke_All g) a = a(g := (\<lambda>_. None))) \<and>
      (\<forall>g ls opt a. run (Grant_Privs g ls opt) a =
         a(g := (\<lambda>c. if c \<in> set ls then Some (opt \<or> a g c = Some True) else a g c))))"

definition run_all :: "(acl_stmt \<Rightarrow> acl_state \<Rightarrow> acl_state) \<Rightarrow> (string \<times> acl_stmt) list \<Rightarrow> (string \<Rightarrow> acl_state) \<Rightarrow> string \<Rightarrow> acl_state" where
  "run_all run ss db = foldl (\<lambda>db (ty, s). db(ty := run s (db ty))) db ss"

lemma collect_Inr:
  "collect xs = Inr r \<Longrightarrow> \<exists>rs. xs = map Inr rs \<and> r = concat rs"
proof (induction xs arbitrary: r)
  case (Cons x xs)
  then obtain a b where "x = Inr a" "collect xs = Inr b" "r = a @ b" by (cases x) (auto split: sum.splits)
  with Cons.IH obtain rs where "xs = map Inr rs" "b = concat rs" by blast
  with \<open>x = Inr a\<close> \<open>r = a @ b\<close> show ?case by (intro exI [of _ "a # rs"]) simp
qed simp

lemma held_Nil: "held [] = (\<lambda>_ _. None)"
  by (intro ext) (simp add: held_def)

lemma marked_subset: "set (marked_letters ls) \<subseteq> set (priv_letters ls)"
  unfolding priv_letters_def by (induction ls) auto

lemma parsed_marked:
  assumes "parseAcl t = Inr items" "i \<in> set items"
  shows "set (ai_grantable i) \<subseteq> set (ai_privs i)"
proof (cases "trim t = [] \<or> trim t = ''absent'' \<or> trim t = ''{}''")
  case False
  with assms(1) have "collect (map parse_item (split_char (CHR '','') (butlast (tl (trim t))))) = Inr items"
    by (auto simp: parseAcl_def Let_def split: if_splits)
  from collect_Inr [OF this] obtain rs where rs: "map parse_item (split_char (CHR '','') (butlast (tl (trim t)))) = map Inr rs" "items = concat rs" by blast
  with assms(2) obtain r where "r \<in> set rs" "i \<in> set r" by auto
  with rs(1) obtain raw where "parse_item raw = Inr r" by (metis (no_types, lifting) image_eqI image_iff list.set_map)
  with \<open>i \<in> set r\<close> show ?thesis by (auto simp: parse_item_def Let_def split: if_splits intro: marked_subset [THEN subsetD])
qed (use assms in \<open>auto simp: parseAcl_def Let_def\<close>)

lemma check_letters_Inr: "check_letters ty ls st = Inr r \<Longrightarrow> r = [st]"
  by (auto simp: check_letters_def split: option.splits)

lemma run_revokes:
  assumes "server_law run"
  shows "foldl (\<lambda>a s. run s a) a (map Revoke_All gs) g = (if g \<in> set gs then (\<lambda>_. None) else a g)"
  using assms by (induction gs arbitrary: a) (auto simp: server_law_def)

text \<open>Granting one item adds what it holds to what its grantee has.\<close>

lemma run_grant_item:
  assumes law: "server_law run" and gi: "grant_item ty i = Inr ss" and sub: "set (ai_grantable i) \<subseteq> set (ai_privs i)"
  shows "foldl (\<lambda>a s. run s a) a ss g c =
    (if g = ai_grantee i \<and> c \<in> set (ai_grantable i) then Some True
     else if g = ai_grantee i \<and> c \<in> set (ai_privs i) then Some (a g c = Some True) else a g c)"
proof -
  from collect_Inr [OF gi [unfolded grant_item_def]]
  have "ss = (if ai_grantable i = [] then [] else [Grant_Privs (ai_grantee i) (ai_grantable i) True]) @
      (if plain_letters i = [] then [] else [Grant_Privs (ai_grantee i) (plain_letters i) False])"
    by (auto split: if_splits dest!: check_letters_Inr simp: Cons_eq_map_conv)
  moreover have "set (plain_letters i) = set (ai_privs i) - set (ai_grantable i)" by (auto simp: plain_letters_def)
  ultimately show ?thesis using law sub by (cases "plain_letters i = []"; cases "ai_grantable i = []") (auto simp: server_law_def)
qed

definition add_held :: "acl_item list \<Rightarrow> acl_state \<Rightarrow> acl_state" where
  "add_held items a g c = (case held items g c of None \<Rightarrow> a g c | Some b \<Rightarrow> Some (b \<or> a g c = Some True))"

lemma run_grants:
  assumes law: "server_law run" and gs: "map (grant_item ty) items = map Inr rs" and sub: "\<And>i. i \<in> set items \<Longrightarrow> set (ai_grantable i) \<subseteq> set (ai_privs i)"
  shows "foldl (\<lambda>a s. run s a) a (concat rs) = add_held items a"
  using gs sub
proof (induction items arbitrary: rs a)
  case Nil
  then show ?case by (auto simp: add_held_def held_Nil fun_eq_iff)
next
  case (Cons i items)
  then obtain r rs' where rs: "rs = r # rs'" "grant_item ty i = Inr r" "map (grant_item ty) items = map Inr rs'" by (cases rs) auto
  have sub: "set (ai_grantable i) \<subseteq> set (ai_privs i)" using Cons.prems(2) by simp
  have "foldl (\<lambda>a s. run s a) a (concat rs) = add_held items (foldl (\<lambda>a s. run s a) a r)" using Cons.IH [OF rs(3)] Cons.prems(2) by (simp add: rs(1))
  also have "\<dots> = add_held (i # items) a"
    by (intro ext) (use sub in \<open>auto simp: add_held_def held_def run_grant_item [OF law rs(2) sub]\<close>)
  finally show ?case .
qed

definition items_of :: "string \<Rightarrow> acl_item list" where
  "items_of txt = (case parseAcl txt of Inl _ \<Rightarrow> [] | Inr items \<Rightarrow> items)"

lemma restore_type_exact:
  assumes law: "server_law run" and r: "restore_type role ty want hav = Inr ss"
  shows "foldl (\<lambda>a s. run s a) (held (items_of hav)) ss = held (items_of want)"
proof (cases "want = hav \<or> (items_of want = [] \<and> items_of hav = [])")
  case True
  have "ss = []" using r True
    by (auto simp: restore_type_def items_of_def restore_items_def grantor_error_def split: if_splits sum.splits option.splits)
  with True show ?thesis by auto
next
  case False
  then obtain target have_items where t: "parseAcl want = Inr target" and h: "parseAcl hav = Inr have_items" and ri: "restore_items ty target have_items = Inr ss"
    using r by (auto simp: restore_type_def items_of_def split: if_splits sum.splits option.splits)
  from ri obtain gs where g: "collect (map (grant_item ty) target) = Inr gs"
    and ss: "ss = map Revoke_All (uniq (map ai_grantee (have_items @ target))) @ gs" by (auto simp: restore_items_def split: sum.splits)
  from collect_Inr [OF g] obtain rs where rs: "map (grant_item ty) target = map Inr rs" "gs = concat rs" by blast
  let ?a = "foldl (\<lambda>a s. run s a) (held have_items) (map Revoke_All (uniq (map ai_grantee (have_items @ target))))"
  have "?a = (\<lambda>_ _. None)" by (intro ext) (auto simp: run_revokes [OF law] held_def)
  then have "foldl (\<lambda>a s. run s a) (held have_items) ss = add_held target (\<lambda>_ _. None)"
    using run_grants [OF law rs(1) parsed_marked [OF t]] by (simp add: ss rs(2))
  also have "\<dots> = held target" by (intro ext) (auto simp: add_held_def split: option.splits)
  finally show ?thesis by (simp add: items_of_def t h)
qed

lemma run_all_type: "run_all run (map (Pair ty) ss) db = db(ty := foldl (\<lambda>a s. run s a) (db ty) ss)"
  by (induction ss arbitrary: db) (simp_all add: run_all_def)

lemma run_all_append: "run_all run (xs @ ys) db = run_all run ys (run_all run xs db)"
  by (simp add: run_all_def)

lemma run_all_types:
  "distinct tys \<Longrightarrow> run_all run (concat (map (\<lambda>ty. map (Pair ty) (f ty)) tys)) db =
     (\<lambda>ty. if ty \<in> set tys then foldl (\<lambda>a s. run s a) (db ty) (f ty) else db ty)"
proof (induction tys arbitrary: db)
  case Nil
  then show ?case by (simp add: run_all_def)
next
  case (Cons ty tys)
  then show ?case by (auto simp: run_all_append run_all_type fun_eq_iff)
qed

text \<open>C26. Restoring default privileges restores them: on a server that does with each statement what its manual
  says, running the statements turns the current privileges into the recorded ones, for every object
  type, grantee and letter, grant options included, and leaves nothing the record does not have.\<close>

theorem restore_exact:
  assumes "server_law run" "restore_stmts recorded current role = Inr ss"
  shows "run_all run ss (meaning current) = meaning recorded"
proof -
  let ?tys = "acl_types recorded current" and ?r = "\<lambda>ty. restore_type role ty (acl_of recorded ty) (acl_of current ty)"
  have tys: "set ?tys = set (map ar_objtype recorded) \<union> set (map ar_objtype current)" "distinct ?tys"
    using mset_eq_imp_distinct_iff [OF code_unit.mset_sort_by] by (simp_all add: acl_types_def)
  from collect_Inr [OF assms(2) [unfolded restore_stmts_def]] obtain rs
    where rs: "map (\<lambda>ty. case ?r ty of Inl e \<Rightarrow> Inl e | Inr ss \<Rightarrow> Inr (map (Pair ty) ss)) ?tys = map Inr rs" "ss = concat rs" by blast
  have each: "(case ?r ty of Inl e \<Rightarrow> Inl e | Inr ss \<Rightarrow> Inr (map (Pair ty) ss)) \<in> range Inr" if "ty \<in> set ?tys" for ty
    using arg_cong [OF rs(1), of set] that by auto
  have ok: "\<exists>ss. ?r ty = Inr ss" if "ty \<in> set ?tys" for ty
    using each [OF that] by (cases "?r ty") auto
  have "map (\<lambda>ty. case ?r ty of Inl e \<Rightarrow> Inl e | Inr ss \<Rightarrow> Inr (map (Pair ty) ss)) ?tys = map (\<lambda>ty. Inr (map (Pair ty) (projr (?r ty)))) ?tys"
    using ok by (intro map_cong [OF refl]) fastforce
  from arg_cong [OF this [unfolded rs(1)], of "map projr"] have "rs = map (\<lambda>ty. map (Pair ty) (projr (?r ty))) ?tys" by (simp add: comp_def)
  then have all: "run_all run ss (meaning current) = (\<lambda>ty. if ty \<in> set ?tys then foldl (\<lambda>a s. run s a) (meaning current ty) (projr (?r ty)) else meaning current ty)"
    by (simp add: rs(2) run_all_types [OF tys(2)])
  have absent: "acl_of rows ty = ''absent''" if "ty \<notin> set (map ar_objtype rows)" for rows ty
    using that by (auto simp: acl_of_def split: option.splits dest!: find_Some_iff [THEN iffD1])
  have m: "meaning rows ty = held (items_of (acl_of rows ty))" for rows ty by (simp add: meaning_def items_of_def)
  show ?thesis
  proof
    fix ty
    show "run_all run ss (meaning current) ty = meaning recorded ty"
    proof (cases "ty \<in> set ?tys")
      case True
      then obtain sty where "?r ty = Inr sty" using ok by blast
      from restore_type_exact [OF assms(1) this] this True show ?thesis by (simp add: all m)
    next
      case False
      with tys(1) have "acl_of recorded ty = acl_of current ty" using absent [of ty recorded] absent [of ty current] by auto
      with False show ?thesis by (simp add: all m)
    qed
  qed
qed

definition documented_server :: "acl_stmt \<Rightarrow> acl_state \<Rightarrow> acl_state" where
  "documented_server s a =
     (case s of Revoke_All g \<Rightarrow> a(g := (\<lambda>_. None))
      | Grant_Privs g ls opt \<Rightarrow> a(g := (\<lambda>c. if c \<in> set ls then Some (opt \<or> a g c = Some True) else a g c)))"

definition acl_before :: "acl_row list" where
  "acl_before = [\<lparr>ar_objtype = ''r'', ar_acl = ''{postgres=ar*w/postgres,anon=r/postgres}''\<rparr>]"

definition acl_after :: "acl_row list" where
  "acl_after = [\<lparr>ar_objtype = ''r'', ar_acl = ''{postgres=arwd/postgres,anon=Dxtm/postgres}''\<rparr>, \<lparr>ar_objtype = ''f'', ar_acl = ''{=X/postgres}''\<rparr>]"

theorem restore_exact_witness:
  "run_all documented_server
     (case restore_stmts acl_before acl_after ''postgres'' of Inr ss \<Rightarrow> ss | Inl _ \<Rightarrow> []) (meaning acl_after) ''r'' ''postgres'' (CHR ''r'') = Some True"
proof -
  have "server_law documented_server" by (simp add: server_law_def documented_server_def)
  moreover have "\<not> isl (restore_stmts acl_before acl_after ''postgres'')" by code_simp
  then obtain ss where ss: "restore_stmts acl_before acl_after ''postgres'' = Inr ss" by (cases "restore_stmts acl_before acl_after ''postgres''") auto
  ultimately have "run_all documented_server ss (meaning acl_after) = meaning acl_before" by (rule restore_exact)
  moreover have "meaning acl_before ''r'' ''postgres'' (CHR ''r'') = Some True" by code_simp
  ultimately show ?thesis by (simp add: ss)
qed

end
