(* ===== verification/Triage.thy ===== *)
theory Triage
  imports RegExp Json_Text
begin

text \<open>
  \<open>experiments/edge-function-limits/lib/triage.ts\<close> and \<open>docs.ts\<close>: the order of questions for a failing
  deploy, over the documented figures.
\<close>

subsection \<open>The documented figures\<close>

datatype plan_name = Free_Plan | Pro_Plan | Team_Plan | Enterprise_Plan

definition plan_text :: "plan_name \<Rightarrow> string" where
  "plan_text p = (case p of Free_Plan \<Rightarrow> ''free'' | Pro_Plan \<Rightarrow> ''pro'' | Team_Plan \<Rightarrow> ''team'' | Enterprise_Plan \<Rightarrow> ''enterprise'')"

text \<open>\<open>None\<close> is \<open>"unlimited"\<close>.\<close>

definition FUNCTIONS_PER_PROJECT :: "(plan_name \<times> int option) list" where
  "FUNCTIONS_PER_PROJECT = [(Free_Plan, Some 100), (Pro_Plan, Some 1000), (Team_Plan, Some 2000), (Enterprise_Plan, None)]"

definition SIZE_MB_CLI :: nat where
  "SIZE_MB_CLI = 20"

definition SIZE_MB_API :: nat where
  "SIZE_MB_API = 5"

definition SECRETS_MAX :: nat where
  "SECRETS_MAX = 100"

definition RESERVED_PREFIX :: string where
  "RESERVED_PREFIX = ''SUPABASE_''"

definition planForFunctionCap :: "int \<Rightarrow> plan_name option" where
  "planForFunctionCap cap = map_option fst (List.find (\<lambda>(p, v). v = Some cap) FUNCTIONS_PER_PROJECT)"

definition normalisePlan :: "json option \<Rightarrow> plan_name option" where
  "normalisePlan raw =
     (let s = to_lower (case nn raw of None \<Rightarrow> [] | Some v \<Rightarrow> js_string v)
      in List.find (\<lambda>p. plan_text p = s) [Free_Plan, Pro_Plan, Team_Plan, Enterprise_Plan])"

subsection \<open>Triage\<close>

datatype bucket =
    Size_Limit
  | Count_Limit
  | Secret_Limit
  | Throttled
  | Conflict
  | Misleading_413
  | Silent_Loss
  | Runtime_Ceiling
  | Not_A_Limit
  | Unknown_Bucket

datatype secret_limit = Secret_Count | Value_Size | Name_Length | Reserved_Prefix

definition secret_text :: "secret_limit \<Rightarrow> string" where
  "secret_text s = (case s of Secret_Count \<Rightarrow> ''count'' | Value_Size \<Rightarrow> ''value-size'' | Name_Length \<Rightarrow> ''name-length'' | Reserved_Prefix \<Rightarrow> ''reserved-prefix'')"

record deploy_observation =
  do_errorText :: "string option"
  do_status :: "int option"
  do_exitCode :: "int option"
  do_parallel :: "int option"
  do_landed :: "bool option"
  do_capReported :: "int option"

record triage_result =
  tr_bucket :: bucket
  tr_deterministic :: bool
  tr_next :: string
  tr_secretLimit :: "secret_limit option"

definition any_line :: re where
  "any_line = Star (Cls (\<lambda>c. of_char c \<notin> {10, 13 :: nat}))"

definition SIZE_RE :: re where
  "SIZE_RE = Alts (map LitI [''exceeds the maximum deployment size'', ''too large'', ''payload too large''])"

definition THROTTLE_RE :: re where
  "THROTTLE_RE = Alts (map LitI [''ThrottlerException'', ''Too Many Requests'', ''rate limit''])"

definition COUNT_RE :: re where
  "COUNT_RE = Alts [LitI ''maximum number of functions'', Seqs [LitI ''function'', Opt (LitI ''s''), LitI '' limit''], LitI ''too many functions'', LitI ''max_count'']"

definition RUNTIME_RE :: re where
  "RUNTIME_RE = Alts [Seqs [LitI ''WORKER_'', Opt (LitI ''RESOURCE_''), LitI ''LIMIT''], LitI ''IDLE_TIMEOUT'', LitI ''not having enough compute resources'',
     LitI ''CPU time'', LitI ''memory limit'', LitI ''out of memory'', Seqs [LitI ''wall'', Opt (Cls (\<lambda>c. of_char c \<notin> {10, 13 :: nat})), LitI ''clock'']]"

definition one_char :: re where
  "one_char = Opt (Cls (\<lambda>c. of_char c \<notin> {10, 13 :: nat}))"

definition secretLimitOf :: "string \<Rightarrow> secret_limit option" where
  "secretLimitOf t =
     (if t = [] then None
      else if re_test (Alt (LitI RESERVED_PREFIX) (LitI ''reserved prefix'')) t then Some Reserved_Prefix
      else if re_test (Seqs [LitI ''name'', any_line, Alts [LitI ''too long'', LitI ''length'', LitI ''256'']]) t then Some Name_Length
      else if re_test (Alt (Seqs [LitI ''value'', any_line, Alts [LitI ''too long'', LitI ''length'', Seqs [LitI ''24'', one_char, LitI ''576''],
             Seqs [LitI ''48'', Opt (Lit '' ''), LitI ''KiB'']]]) (LitI ''24576'')) t then Some Value_Size
      else if re_test (Alts [Seqs [Alts [LitI ''maximum'', LitI ''max'', LitI ''too many''], any_line, LitI ''secrets''],
             Seqs [LitI ''secrets'', any_line, Alt (LitI ''limit'') (LitI ''maximum'')], LitI ''maxItems'', LitI ''100 secrets'']) t then Some Secret_Count
      else None)"

definition result :: "bucket \<Rightarrow> bool \<Rightarrow> string \<Rightarrow> triage_result" where
  "result b d n = \<lparr>tr_bucket = b, tr_deterministic = d, tr_next = n, tr_secretLimit = None\<rparr>"

definition several :: "deploy_observation \<Rightarrow> bool" where
  "several x = ((case do_parallel x of Some n \<Rightarrow> n | None \<Rightarrow> 1) > 1)"

definition count_next :: "int option \<Rightarrow> string" where
  "count_next cap =
     (case Option.bind cap planForFunctionCap of
        Some p \<Rightarrow> ''a cap of exactly '' @ show_int (the cap) @ '' identifies the '' @ plan_text p @
          '' plan - confirm the ORG before treating it as a platform limit; function.max_count is an entitlement, raisable without a plan change''
      | None \<Rightarrow> ''read function.max_count from the org'' @ [CHR 0x27] @ ''s entitlements; it is an override, not a fixed ceiling'')"

definition secret_next :: "secret_limit \<Rightarrow> string" where
  "secret_next s =
     (if s = Secret_Count then show_nat SECRETS_MAX @ '' per project - one secret per tenant in a shared project is an architecture conversation, not a quota one''
      else ''four separate secrets limits exist; this one is '' @ secret_text s)"

definition throttled_next :: string where
  "throttled_next = ''control-plane rate limit - how many deploys ran in parallel? then check every function landed; the throttle explains only the failures that surfaced''"

definition conflict_next :: string where
  "conflict_next = ''409 is not 429 - do not merge them; check for concurrent deploys of the SAME function''"

definition misleading_next :: string where
  "misleading_next = ''413 under parallel deploys can be the parallelism, not the size - retry the same bundle serially before quoting a size limit''"

definition lost_next :: string where
  "lost_next = ''the exit code lied - query GET /functions/{slug} after every deploy round and retry the difference''"

definition landed_next :: string where
  "landed_next = ''the deploy succeeded and landed; there is nothing to triage''"

definition nothing_next :: string where
  "nothing_next = ''no error text, status, or exit code - collect the error string first''"

definition unnamed_next :: string where
  "unnamed_next = ''no named limit in the error - ask how many deploys ran in parallel, then whether anyone verified the functions landed''"

definition runtime_next :: string where
  "runtime_next = ''invocation-time ceiling (memory, CPU, wall clock) - unrelated to deploy limits; long-running work does not fit an Edge Function on any plan''"

definition serial_next :: string where
  "serial_next = ''serial 413 is a real size rejection - which bundling path? ('' @ show_nat SIZE_MB_API @ '' MB server-side vs '' @ show_nat SIZE_MB_CLI @ '' MB local)''"

definition size_next :: string where
  "size_next = ''which bundling path? API/Dashboard/--use-api is '' @ show_nat SIZE_MB_API @ '' MB by construction; local CLI bundling is '' @ show_nat SIZE_MB_CLI @ '' MB''"

text \<open>The questions after the named errors: status codes that are not quotas, then a success that was not.\<close>

definition triage_rest :: "deploy_observation \<Rightarrow> string \<Rightarrow> triage_result" where
  "triage_rest x t =
     (if do_status x = Some 429 \<or> re_test THROTTLE_RE t
      then result Throttled False throttled_next
      else if do_status x = Some 409
      then result Conflict False conflict_next
      else if do_status x = Some 413
      then (if several x
            then result Misleading_413 False misleading_next
            else result Size_Limit True serial_next)
      else if (do_exitCode x = Some 0 \<or> (case do_status x of Some s \<Rightarrow> s < 300 | None \<Rightarrow> False)) \<and> do_landed x = Some False
      then result Silent_Loss False lost_next
      else if do_landed x = Some True \<and> t = []
      then result Unknown_Bucket True landed_next
      else if t = [] \<and> do_status x = None \<and> do_exitCode x = None
      then result Unknown_Bucket False nothing_next
      else result Not_A_Limit False unnamed_next)"

definition triage :: "deploy_observation \<Rightarrow> triage_result" where
  "triage x =
     (let t = (case do_errorText x of Some s \<Rightarrow> s | None \<Rightarrow> [])
      in if re_test SIZE_RE t \<and> \<not> (do_status x = Some 413 \<and> several x)
         then result Size_Limit True size_next
         else if re_test COUNT_RE t \<or> do_capReported x \<noteq> None then result Count_Limit True (count_next (do_capReported x))
         else (case secretLimitOf t of
             Some s \<Rightarrow> (result Secret_Limit True (secret_next s))\<lparr>tr_secretLimit := Some s\<rparr>
           | None \<Rightarrow>
               if re_test RUNTIME_RE t
               then result Runtime_Ceiling True runtime_next
               else triage_rest x t))"

subsection \<open>What the verdicts promise\<close>

lemma result_simps [simp]: "tr_bucket (result b d n) = b" "tr_deterministic (result b d n) = d"
  by (simp_all add: result_def)

text \<open>A verdict is called deterministic exactly for the limits, and for a deploy that landed without an error.\<close>

lemma triage_deterministic:
  "tr_deterministic (triage x) \<longleftrightarrow> tr_bucket (triage x) \<in> {Size_Limit, Count_Limit, Secret_Limit, Runtime_Ceiling} \<or>
     (tr_bucket (triage x) = Unknown_Bucket \<and> do_landed x = Some True)"
proof -
  have "tr_deterministic (triage_rest x t) \<longleftrightarrow> tr_bucket (triage_rest x t) = Size_Limit \<or> (tr_bucket (triage_rest x t) = Unknown_Bucket \<and> do_landed x = Some True)"
    and "tr_bucket (triage_rest x t) \<notin> {Count_Limit, Secret_Limit, Runtime_Ceiling}" for t
    unfolding triage_rest_def by simp_all
  then show ?thesis by (simp add: triage_def Let_def split: option.split)
qed

text \<open>Under parallel deploys a 413 is never taken for a size limit, whatever the error says.\<close>

lemma parallel_413:
  assumes "do_status x = Some 413" "several x"
  shows "tr_bucket (triage x) \<noteq> Size_Limit"
proof -
  have "tr_bucket (triage_rest x t) \<noteq> Size_Limit" for t using assms by (simp add: triage_rest_def)
  then show ?thesis using assms by (simp add: triage_def Let_def split: option.split)
qed

text \<open>A success without error text whose function is missing is reported as lost.\<close>

lemma re_test_Nil: "re_test r [] \<longleftrightarrow> re_m r \<lparr>before = [], after = [], caps = []\<rparr> \<noteq> []"
  by (simp add: re_test_def re_exec_def exec_from.simps split: list.split)

lemma no_named_error:
  "\<not> re_test SIZE_RE []" "\<not> re_test COUNT_RE []" "\<not> re_test RUNTIME_RE []" "\<not> re_test THROTTLE_RE []"
  by (simp_all add: re_test_Nil SIZE_RE_def COUNT_RE_def RUNTIME_RE_def THROTTLE_RE_def next_is_def)

lemma silent_loss:
  assumes "do_errorText x = None" "do_capReported x = None" "do_landed x = Some False" "do_exitCode x = Some 0 \<or> (\<exists>s < 300. do_status x = Some s)"
    and "do_status x \<notin> {Some 429, Some 409, Some 413}"
  shows "tr_bucket (triage x) = Silent_Loss"
proof -
  have "tr_bucket (triage_rest x []) = Silent_Loss" using assms(3-5) by (auto simp: triage_rest_def no_named_error)
  then show ?thesis using assms(1,2) by (simp add: triage_def secretLimitOf_def no_named_error)
qed

end
