(* ===== verification/Platform_Readings.thy ===== *)
theory Platform_Readings
  imports Dates Iso_Date Json_Text
begin

text \<open>
  Readings of a platform turned into rows: \<open>experiments/platform-downtime/lib/signal.ts\<close> (what a restart
  leaves behind), \<open>experiments/platform-facts/lib/eligibility.ts\<close> (upgrade eligibility of every project) and
  \<open>experiments/edge-function-limits/lib/spec.ts\<close> (limits declared in an OpenAPI document). \<open>localeCompare\<close> is
  a parameter.
\<close>

subsection \<open>What a restart leaves behind\<close>

record restart_signal =
  sig_startTime :: "string option"
  sig_statsReset :: "string option"
  sig_source :: "string option"
  sig_error :: string

datatype changed = Yes_Changed | No_Change | Not_Known

definition changed_text :: "changed \<Rightarrow> string" where
  "changed_text c = (case c of Yes_Changed \<Rightarrow> ''yes'' | No_Change \<Rightarrow> ''no'' | Not_Known \<Rightarrow> ''n/a'')"

definition changed_of :: "string option \<Rightarrow> string option \<Rightarrow> changed" where
  "changed_of bef aft = (if \<not> truthy bef \<or> \<not> truthy aft then Not_Known else if bef = aft then No_Change else Yes_Changed)"

definition or_na :: "string option \<Rightarrow> string" where
  "or_na x = (case x of Some s \<Rightarrow> s | None \<Rightarrow> ''n/a'')"

definition signalMeasurements :: "restart_signal \<Rightarrow> restart_signal \<Rightarrow> string obj" where
  "signalMeasurements bef aft =
     [(''postmaster_start_before'', or_na (sig_startTime bef)), (''postmaster_start_after'', or_na (sig_startTime aft)),
      (''restart_confirmed'', changed_text (changed_of (sig_startTime bef) (sig_startTime aft))),
      (''checkpointer_source'', or_na (case sig_source aft of Some s \<Rightarrow> Some s | None \<Rightarrow> sig_source bef)),
      (''checkpointer_stats_reset_before'', or_na (sig_statsReset bef)), (''checkpointer_stats_reset_after'', or_na (sig_statsReset aft)),
      (''checkpointer_stats_reset_changed'', changed_text (changed_of (sig_statsReset bef) (sig_statsReset aft)))]"

definition from_number :: "int \<Rightarrow> int" where
  "from_number n = (if n > 100000000000000 then n div 1000 else n)"

definition zone_re :: re where
  "zone_re = Seq (Alt (Cls (\<lambda>c. c = CHR ''z'' \<or> c = CHR ''Z''))
     (Seqs [Cls (\<lambda>c. c = CHR ''+'' \<or> c = CHR ''-''), Rep 2 (Cls is_digit), Opt (Lit '':''), Rep 2 (Cls is_digit)])) Eol"

text \<open>Epoch milliseconds of a log timestamp; a text without a zone is read as UTC.\<close>

definition logTimeMs :: "json option \<Rightarrow> int option" where
  "logTimeMs ts =
     (case ts of
        Some (JNum n) \<Rightarrow> Some (from_number n)
      | Some (JStr raw) \<Rightarrow>
          (let s = trim raw
           in if s = [] then None
              else if list_all is_digit s then Some (from_number (int (read_nat s)))
              else date_parse (if re_test zone_re s then s else replace_first (Lit '' '') (\<lambda>_. ''T'') s @ ''Z''))
      | _ \<Rightarrow> None)"

datatype stop_mode = Stop_Fast | Stop_Smart | Stop_Immediate | Stop_Not_Logged

datatype boot_kind = Boot_Clean | Boot_Crash | Boot_Not_Logged

record shutdown_reading =
  sd_stopMode :: stop_mode
  sd_checkpoint :: bool
  sd_shutDown :: bool
  sd_nextBoot :: boot_kind
  sd_lines :: "string list"

definition REQUEST :: re where
  "REQUEST = Seqs [Lit ''received '', Grp 1 (Alts [Lit ''fast'', Lit ''smart'', Lit ''immediate'']), Lit '' shutdown request'']"

definition CRASH_BOOT :: re where
  "CRASH_BOOT = Seq (Lit ''database system was '') (Alt (Lit ''not properly shut down'') (Lit ''interrupted''))"

definition CLEAN_BOOT :: re where
  "CLEAN_BOOT = Lit ''database system was shut down at''"

definition stop_of :: "string \<Rightarrow> stop_mode option" where
  "stop_of m =
     (case re_group 1 REQUEST m of
        None \<Rightarrow> None
      | Some w \<Rightarrow> Some (if w = ''fast'' then Stop_Fast else if w = ''smart'' then Stop_Smart else Stop_Immediate))"

definition kept_lines :: "(json option \<times> json option) list \<Rightarrow> int \<Rightarrow> (int \<times> string) list" where
  "kept_lines rows sinceMs =
     sort_by (\<lambda>a b. fst a - fst b)
       (List.map_filter (\<lambda>(ts, msg).
          let m = (case msg of Some (JStr s) \<Rightarrow> trim s | _ \<Rightarrow> [])
          in case logTimeMs ts of Some t \<Rightarrow> if t \<ge> sinceMs \<and> m \<noteq> [] then Some (t, m) else None | None \<Rightarrow> None) rows)"

definition shutdown_step :: "shutdown_reading \<Rightarrow> string \<Rightarrow> shutdown_reading" where
  "shutdown_step r m =
     (let r1 = (case stop_of m of Some k \<Rightarrow> if sd_stopMode r = Stop_Not_Logged then r\<lparr>sd_stopMode := k\<rparr> else r | None \<Rightarrow> r);
          r2 = (if re_test (Lit ''checkpoint starting: shutdown'') m then r1\<lparr>sd_checkpoint := True\<rparr> else r1);
          r3 = (if re_test (Lit ''database system is shut down'') m then r2\<lparr>sd_shutDown := True\<rparr> else r2)
      in if re_test CRASH_BOOT m then r3\<lparr>sd_nextBoot := Boot_Crash\<rparr>
         else if re_test CLEAN_BOOT m \<and> sd_nextBoot r3 = Boot_Not_Logged then r3\<lparr>sd_nextBoot := Boot_Clean\<rparr> else r3)"

text \<open>The printed times are within the range of \<open>Date\<close>.\<close>

definition classifyShutdownLog :: "(json option \<times> json option) list \<Rightarrow> int \<Rightarrow> shutdown_reading" where
  "classifyShutdownLog rows sinceMs =
     (let kept = kept_lines rows sinceMs
      in foldl shutdown_step
           \<lparr>sd_stopMode = Stop_Not_Logged, sd_checkpoint = False, sd_shutDown = False, sd_nextBoot = Boot_Not_Logged,
            sd_lines = map (\<lambda>(t, m). take 200 (toISOString t @ '' '' @ m)) kept\<rparr>
           (map snd kept))"

definition bootLogged :: "shutdown_reading \<Rightarrow> bool" where
  "bootLogged r = (sd_nextBoot r \<noteq> Boot_Not_Logged)"

definition yes_no :: "bool \<Rightarrow> string" where
  "yes_no b = (if b then ''yes'' else ''no'')"

definition shutdownMeasurements :: "shutdown_reading \<Rightarrow> (string + nat) obj" where
  "shutdownMeasurements r =
     [(''log_stop_mode'', Inl (case sd_stopMode r of Stop_Fast \<Rightarrow> ''fast'' | Stop_Smart \<Rightarrow> ''smart'' | Stop_Immediate \<Rightarrow> ''immediate'' | Stop_Not_Logged \<Rightarrow> ''not-logged'')),
      (''log_shutdown_checkpoint'', Inl (yes_no (sd_checkpoint r))), (''log_shut_down'', Inl (yes_no (sd_shutDown r))),
      (''log_next_boot'', Inl (case sd_nextBoot r of Boot_Clean \<Rightarrow> ''clean'' | Boot_Crash \<Rightarrow> ''crash-recovery'' | Boot_Not_Logged \<Rightarrow> ''not-logged'')),
      (''log_lines'', Inr (length (sd_lines r)))]"

text \<open>
  The verdicts do not depend on where in the log their line stands: a crash anywhere in the window wins over
  a clean boot, the stop mode is the first one requested, and the flags are set exactly by their lines.
\<close>

lemma shutdown_step_simps:
  "sd_nextBoot (shutdown_step r m) =
     (if re_test CRASH_BOOT m then Boot_Crash else if re_test CLEAN_BOOT m \<and> sd_nextBoot r = Boot_Not_Logged then Boot_Clean else sd_nextBoot r)"
  "sd_stopMode (shutdown_step r m) = (case stop_of m of Some k \<Rightarrow> if sd_stopMode r = Stop_Not_Logged then k else sd_stopMode r | None \<Rightarrow> sd_stopMode r)"
  "sd_checkpoint (shutdown_step r m) = (sd_checkpoint r \<or> re_test (Lit ''checkpoint starting: shutdown'') m)"
  "sd_shutDown (shutdown_step r m) = (sd_shutDown r \<or> re_test (Lit ''database system is shut down'') m)"
  "sd_lines (shutdown_step r m) = sd_lines r"
  by (auto simp: shutdown_step_def Let_def simp del: Lit.simps split: option.split)

lemma stop_of_logged: "stop_of m = Some k \<Longrightarrow> k \<noteq> Stop_Not_Logged"
  by (auto simp: stop_of_def split: option.splits if_splits)

lemma shutdown_fold:
  "sd_nextBoot (foldl shutdown_step r ms) =
     (if list_ex (re_test CRASH_BOOT) ms then Boot_Crash
      else if sd_nextBoot r = Boot_Not_Logged \<and> list_ex (re_test CLEAN_BOOT) ms then Boot_Clean else sd_nextBoot r)"
  "sd_stopMode (foldl shutdown_step r ms) =
     (if sd_stopMode r = Stop_Not_Logged then (case List.map_filter stop_of ms of [] \<Rightarrow> Stop_Not_Logged | k # _ \<Rightarrow> k) else sd_stopMode r)"
  "sd_checkpoint (foldl shutdown_step r ms) = (sd_checkpoint r \<or> list_ex (re_test (Lit ''checkpoint starting: shutdown'')) ms)"
  "sd_shutDown (foldl shutdown_step r ms) = (sd_shutDown r \<or> list_ex (re_test (Lit ''database system is shut down'')) ms)"
proof (induction ms arbitrary: r)
  case (Cons m ms)
  { case 1 show ?case by (simp add: Cons shutdown_step_simps del: Lit.simps) }
  { case 2 show ?case using stop_of_logged [of m]
      by (cases "stop_of m") (auto simp: Cons shutdown_step_simps List.map_filter_simps simp del: Lit.simps) }
  { case 3 show ?case by (simp add: Cons shutdown_step_simps del: Lit.simps) }
  { case 4 show ?case by (simp add: Cons shutdown_step_simps del: Lit.simps) }
qed (simp_all add: List.map_filter_simps)

lemma shutdown_log_exact:
  fixes rows sinceMs
  defines "r \<equiv> classifyShutdownLog rows sinceMs" and "ms \<equiv> map snd (kept_lines rows sinceMs)"
  shows "sd_nextBoot r = (if list_ex (re_test CRASH_BOOT) ms then Boot_Crash else if list_ex (re_test CLEAN_BOOT) ms then Boot_Clean else Boot_Not_Logged)"
    and "sd_stopMode r = (case List.map_filter stop_of ms of [] \<Rightarrow> Stop_Not_Logged | k # _ \<Rightarrow> k)"
    and "bootLogged r \<longleftrightarrow> list_ex (\<lambda>m. re_test CRASH_BOOT m \<or> re_test CLEAN_BOOT m) ms"
  by (auto simp: r_def ms_def classifyShutdownLog_def Let_def shutdown_fold bootLogged_def list_ex_iff)

subsection \<open>Upgrade eligibility\<close>

datatype eligible_value = El_True | El_False | El_Null | El_Absent | El_Unread

definition eligible_text :: "eligible_value \<Rightarrow> string" where
  "eligible_text e = (case e of El_True \<Rightarrow> ''true'' | El_False \<Rightarrow> ''false'' | El_Null \<Rightarrow> ''null'' | El_Absent \<Rightarrow> ''absent'' | El_Unread \<Rightarrow> ''unread'')"

record listed_project =
  lp_org :: "json option"
  lp_created_at :: "json option"
  lp_status :: "json option"
  lp_region :: "json option"

record eligibility_row =
  er_index :: string
  er_org :: string
  er_ageDays :: "int option"
  er_status :: string
  er_region :: string
  er_httpStatus :: int
  er_eligible :: eligible_value
  er_keys :: string
  er_current :: string
  er_latest :: string
  er_targets :: nat
  er_validationErrors :: nat
  er_firstValidationError :: string

definition eligibleValue :: "int \<Rightarrow> json option \<Rightarrow> eligible_value" where
  "eligibleValue httpStatus body =
     (case body of
        Some (JObj m) \<Rightarrow>
          if httpStatus \<noteq> 200 then El_Unread
          else (case obj_get m ''eligible'' of
                  None \<Rightarrow> El_Absent
                | Some JNull \<Rightarrow> El_Null
                | Some (JBool b) \<Rightarrow> if b then El_True else El_False
                | _ \<Rightarrow> El_Unread)
      | _ \<Rightarrow> El_Unread)"

definition str_or :: "json option \<Rightarrow> string \<Rightarrow> string" where
  "str_or v d = (case v of Some (JStr s) \<Rightarrow> if s = [] then d else s | _ \<Rightarrow> d)"

definition ageDays :: "json option \<Rightarrow> int \<Rightarrow> int option" where
  "ageDays createdAt nowMs =
     (case createdAt of Some (JStr s) \<Rightarrow> map_option (\<lambda>t. (nowMs - t) div 86400000) (date_parse s) | _ \<Rightarrow> None)"

definition toRow :: "nat \<Rightarrow> listed_project \<Rightarrow> int \<Rightarrow> json option \<Rightarrow> int \<Rightarrow> eligibility_row" where
  "toRow position project httpStatus body nowMs =
     (let rec = (case body of Some (JObj m) \<Rightarrow> m | _ \<Rightarrow> []);
          errors = (case obj_get rec ''validation_errors'' of Some (JArr es) \<Rightarrow> es | _ \<Rightarrow> [])
      in \<lparr>er_index = ''p'' @ pad0 2 (int position), er_org = str_or (lp_org project) ''?'', er_ageDays = ageDays (lp_created_at project) nowMs,
          er_status = str_or (lp_status project) ''unknown'', er_region = str_or (lp_region project) ''unknown'', er_httpStatus = httpStatus,
          er_eligible = eligibleValue httpStatus body, er_keys = join '','' (sort_by code_unit_cmp (obj_keys rec)),
          er_current = str_or (obj_get rec ''current_app_version'') ''n/a'', er_latest = str_or (obj_get rec ''latest_app_version'') ''n/a'',
          er_targets = (case obj_get rec ''target_upgrade_versions'' of Some (JArr xs) \<Rightarrow> length xs | _ \<Rightarrow> 0),
          er_validationErrors = length errors,
          er_firstValidationError = take 120 (case errors of [] \<Rightarrow> [] | JStr s # _ \<Rightarrow> s | e # _ \<Rightarrow> json_stringify e)\<rparr>)"

text \<open>Oldest first; a project without a readable date goes last.\<close>

definition created_ms :: "listed_project \<Rightarrow> int option" where
  "created_ms p = (case lp_created_at p of Some (JStr s) \<Rightarrow> date_parse s | _ \<Rightarrow> None)"

definition creation_cmp :: "listed_project \<Rightarrow> listed_project \<Rightarrow> int" where
  "creation_cmp a b =
     (case (created_ms a, created_ms b) of (None, None) \<Rightarrow> 0 | (None, _) \<Rightarrow> 1 | (_, None) \<Rightarrow> -1 | (Some x, Some y) \<Rightarrow> x - y)"

definition byCreation :: "listed_project list \<Rightarrow> listed_project list" where
  "byCreation ps = sort_by creation_cmp ps"

definition histogram :: "(string \<Rightarrow> string \<Rightarrow> int) \<Rightarrow> string list \<Rightarrow> string" where
  "histogram lc vs =
     (let s = join ''|'' (map (\<lambda>(k, n). k @ '':'' @ show_nat n) (sort_by (\<lambda>a b. lc (fst a) (fst b)) (tally vs))) in if s = [] then ''none'' else s)"

definition how_many :: "eligible_value \<Rightarrow> eligibility_row list \<Rightarrow> nat" where
  "how_many e rows = length (filter (\<lambda>r. er_eligible r = e) rows)"

definition summarise :: "(string \<Rightarrow> string \<Rightarrow> int) \<Rightarrow> eligibility_row list \<Rightarrow> (string + nat) obj" where
  "summarise lc rows =
     (let nulls = filter (\<lambda>r. er_eligible r = El_Null) rows
      in [(''projects_read'', Inr (length rows)), (''eligible_true'', Inr (how_many El_True rows)), (''eligible_false'', Inr (how_many El_False rows)),
          (''eligible_null'', Inr (length nulls)), (''eligible_absent'', Inr (how_many El_Absent rows)), (''eligible_unread'', Inr (how_many El_Unread rows)),
          (''status_by_eligible'', Inl (histogram lc (map (\<lambda>r. er_status r @ ''/'' @ eligible_text (er_eligible r)) rows))),
          (''null_statuses'', Inl (histogram lc (map er_status nulls))),
          (''null_with_version_fields'', Inr (length (filter (\<lambda>r. ''current_app_version'' \<in> set (split_char (CHR '','') (er_keys r))) nulls))),
          (''null_payload_keys'', Inl (histogram lc (map (\<lambda>r. if er_keys r = [] then ''(empty)'' else er_keys r) nulls)))])"

definition rowLine :: "eligibility_row \<Rightarrow> string" where
  "rowLine r =
     join '' '' ([er_index r, ''org='' @ er_org r, ''age_d='' @ (case er_ageDays r of Some d \<Rightarrow> show_int d | None \<Rightarrow> ''?''), ''status='' @ er_status r,
       ''region='' @ er_region r, ''http='' @ show_int (er_httpStatus r), ''eligible='' @ eligible_text (er_eligible r), ''current='' @ er_current r,
       ''latest='' @ er_latest r, ''targets='' @ show_nat (er_targets r), ''validation_errors='' @ show_nat (er_validationErrors r),
       ''keys='' @ (if er_keys r = [] then ''(empty)'' else er_keys r)] @
       (if er_firstValidationError r = [] then [] else [''first_error='' @ er_firstValidationError r]))"

text \<open>Every project read is counted under exactly one value of \<open>eligible\<close>.\<close>

lemma eligible_counts:
  "how_many El_True rows + how_many El_False rows + how_many El_Null rows + how_many El_Absent rows + how_many El_Unread rows = length rows"
proof (induction rows)
  case (Cons r rows)
  then show ?case by (cases "er_eligible r") (simp_all add: how_many_def)
qed (simp add: how_many_def)

interpretation creation: comparator creation_cmp
proof
  fix x y z
  show "creation_cmp x y < 0 \<longleftrightarrow> 0 < creation_cmp y x" by (simp add: creation_cmp_def split: option.split)
  assume "creation_cmp x y \<le> 0" "creation_cmp y z \<le> 0"
  then show "creation_cmp x z \<le> 0" by (auto simp: creation_cmp_def split: option.splits)
qed

text \<open>Numbering by creation keeps every project, and one with a date comes before every later one and before all without.\<close>

lemma byCreation_ordered:
  "mset (byCreation ps) = mset ps" "sorted_wrt (\<lambda>a b. creation_cmp a b \<le> 0) (byCreation ps)"
  by (simp_all add: byCreation_def creation.sorted_sort_by)

subsection \<open>Limits declared in an OpenAPI document\<close>

fun follow :: "json option \<Rightarrow> string list \<Rightarrow> json option" where
  "follow cur [] = cur"
| "follow cur (k # ks) = (case cur of Some (JObj m) \<Rightarrow> follow (obj_get m k) ks | Some (JArr _) \<Rightarrow> follow None ks | _ \<Rightarrow> None)"

text \<open>A node that is no object has no fields; an array is an object without the fields read here.\<close>

definition is_node :: "json option \<Rightarrow> bool" where
  "is_node v = (case v of Some (JObj _) \<Rightarrow> True | Some (JArr _) \<Rightarrow> True | _ \<Rightarrow> False)"

definition deref :: "json \<Rightarrow> json option \<Rightarrow> json option" where
  "deref spec node =
     (if \<not> is_node node then None
      else (case Option.bind node (jget ''$ref'') of
              Some (JStr ref) \<Rightarrow> if starts_with ref ''#/'' then follow (Some spec) (split_char (CHR ''/'') (drop 2 ref)) else node
            | _ \<Rightarrow> node))"

definition field :: "string \<Rightarrow> json option \<Rightarrow> json option" where
  "field k v = nn (Option.bind v (jget k))"

record secrets_contract =
  sk_maxItems :: "int option"
  sk_nameMaxLength :: "int option"
  sk_namePattern :: "string option"
  sk_valueMaxLength :: "int option"

definition num_of :: "json option \<Rightarrow> int option" where
  "num_of v = (case v of Some (JNum n) \<Rightarrow> Some n | _ \<Rightarrow> None)"

definition text_of_json :: "json option \<Rightarrow> string option" where
  "text_of_json v = (case v of Some (JStr s) \<Rightarrow> Some s | _ \<Rightarrow> None)"

definition secretsContract :: "json \<Rightarrow> secrets_contract" where
  "secretsContract spec =
     (let post_op = field ''post'' (field ''/v1/projects/{ref}/secrets'' (field ''paths'' (Some spec)));
          schema = deref spec (field ''schema'' (field ''application/json'' (field ''content'' (field ''requestBody'' post_op))));
          props = field ''properties'' (deref spec (field ''items'' schema))
      in \<lparr>sk_maxItems = num_of (field ''maxItems'' schema), sk_nameMaxLength = num_of (field ''maxLength'' (field ''name'' props)),
          sk_namePattern = text_of_json (field ''pattern'' (field ''name'' props)),
          sk_valueMaxLength = num_of (field ''maxLength'' (field ''value'' props))\<rparr>)"

record deploy_contract =
  dk_legacyCreatePublished :: bool
  dk_legacyCreateDeprecated :: bool
  dk_deployDeclaredResponses :: "string list"
  dk_deployMetadataFields :: "string list"
  dk_staticPatternsDeclared :: bool
  dk_sizeLimitMentioned :: bool

definition keys_of :: "json option \<Rightarrow> string list" where
  "keys_of v = (case v of Some (JObj m) \<Rightarrow> obj_keys m | _ \<Rightarrow> [])"

definition size_re :: re where
  "size_re = Alts [LitI ''size'', Seqs [WordB, LitI ''MB'', WordB], LitI ''megabyte'']"

definition deployContract :: "json \<Rightarrow> deploy_contract" where
  "deployContract spec =
     (let paths = field ''paths'' (Some spec);
          legacy = field ''post'' (field ''/v1/projects/{ref}/functions'' paths);
          deploy = field ''post'' (field ''/v1/projects/{ref}/functions/deploy'' paths);
          body = deref spec (field ''schema'' (field ''multipart/form-data'' (field ''content'' (field ''requestBody'' deploy))));
          metadata = deref spec (field ''metadata'' (field ''properties'' body));
          fields = keys_of (field ''properties'' metadata);
          functionish = join '' '' (map (\<lambda>(p, v). json_stringify v)
            (filter (\<lambda>(p, v). re_test (Alt (Lit ''functions'') (Lit ''secrets'')) p) (case paths of Some (JObj m) \<Rightarrow> m | _ \<Rightarrow> [])))
      in \<lparr>dk_legacyCreatePublished = (case legacy of Some v \<Rightarrow> jtruthy v | None \<Rightarrow> False),
          dk_legacyCreateDeprecated = (field ''deprecated'' legacy = Some (JBool True)),
          dk_deployDeclaredResponses = sort_by code_unit_cmp (keys_of (field ''responses'' deploy)),
          dk_deployMetadataFields = sort_by code_unit_cmp fields,
          dk_staticPatternsDeclared = array_includes fields ''static_patterns'',
          dk_sizeLimitMentioned = re_test size_re functionish\<rparr>)"

end
