(* ===== verification/Envelope.thy ===== *)
theory Envelope
  imports Json_Text "HOL-Library.Word"
begin

unbundle bit_operations_syntax

text \<open>
  The chunked envelope of the client-keyed-objects client (\<open>client/src/envelope.ts\<close>, \<open>errors.ts\<close>): chunk
  arithmetic, nonces and additional data, chunk encryption, the text forms of byte strings. Bytes are
  \<open>8 word\<close>, a \<open>Uint8Array\<close> is a list of them. AES-GCM is the platform's: two functions \<open>gcm\<close> and \<open>ungcm\<close> of key,
  nonce, additional data and text, with the law \<open>gcm_law\<close>. A number of bytes is a \<open>nat\<close>; the two ends of a
  requested range are \<open>int\<close>, since the code rejects negative ones itself.
\<close>

type_synonym byte = "8 word"

type_synonym cipher_fun = "byte list \<Rightarrow> byte list \<Rightarrow> byte list \<Rightarrow> byte list \<Rightarrow> byte list"

type_synonym plain_fun = "byte list \<Rightarrow> byte list \<Rightarrow> byte list \<Rightarrow> byte list \<Rightarrow> byte list option"

subsection \<open>Typed failures\<close>

datatype ck_code =
  UnknownTenant | AuthError | KeyServiceUnavailable | KeyServiceDenied | KeyServiceError | CatalogueError
  | StorageError | ChunkHashMismatch | ChunkAuthFailed | TruncatedObject | RangeNotHonoured | IntegrityError

text \<open>A thrown value: a \<open>CkError\<close> with its code, message and detail, or any other exception with its message.\<close>

datatype ck_error = CkError ck_code string "(string + int) obj" | Thrown string

definition isCk :: "ck_error \<Rightarrow> bool" where
  "isCk e = (case e of CkError _ _ _ \<Rightarrow> True | Thrown _ \<Rightarrow> False)"

subsection \<open>Chunk arithmetic\<close>

definition CHUNK :: nat where
  "CHUNK = 8 * 1024 * 1024"

definition TAG :: nat where
  "TAG = 16"

definition chunkCount :: "nat \<Rightarrow> nat \<Rightarrow> nat" where
  "chunkCount plainSize chunk = max 1 (ceil_div plainSize chunk)"

definition cipherSize :: "nat \<Rightarrow> nat \<Rightarrow> nat" where
  "cipherSize plainSize chunk = plainSize + chunkCount plainSize chunk * TAG"

definition cipherOffset :: "nat \<Rightarrow> nat \<Rightarrow> nat" where
  "cipherOffset i chunk = i * (chunk + TAG)"

text \<open>Subtraction on \<open>nat\<close> stops at zero, as the source's \<open>Math.max(0, ...)\<close> makes it.\<close>

definition plainLen :: "nat \<Rightarrow> nat \<Rightarrow> nat \<Rightarrow> nat" where
  "plainLen i plainSize chunk = min chunk (plainSize - i * chunk)"

record chunk_span =
  cs_first :: nat
  cs_last :: nat
  cs_cStart :: nat
  cs_cEnd :: nat

definition span :: "int \<Rightarrow> int \<Rightarrow> nat \<Rightarrow> nat \<Rightarrow> ck_error + chunk_span" where
  "span start endExcl plainSize chunk =
     (if start < 0 \<or> endExcl > int plainSize \<or> endExcl \<le> start
      then Inl (Thrown (''bad range '' @ show_int start @ ''-'' @ show_int endExcl @ '' of '' @ show_nat plainSize))
      else let first = nat start div chunk; la = (nat endExcl - 1) div chunk
           in Inr \<lparr>cs_first = first, cs_last = la, cs_cStart = cipherOffset first chunk,
                cs_cEnd = cipherOffset la chunk + plainLen la plainSize chunk + TAG - 1\<rparr>)"

subsection \<open>Nonces and additional data\<close>

text \<open>\<open>DataView.setUint32\<close>, big endian: the number modulo \<open>2 ^ 32\<close>.\<close>

definition be32 :: "nat \<Rightarrow> byte list" where
  "be32 n = (let w = word_of_nat n :: 32 word in map (\<lambda>k. ucast (drop_bit k w)) [24, 16, 8, 0])"

definition nonce :: "byte list \<Rightarrow> nat \<Rightarrow> ck_error + byte list" where
  "nonce prefix idx =
     (if length prefix \<noteq> 8 then Inl (Thrown ''nonce prefix must be 8 bytes'') else Inr (prefix @ be32 idx))"

text \<open>\<open>TextEncoder\<close> on the code points below 256, which are the characters of the model.\<close>

definition utf8_char :: "char \<Rightarrow> byte list" where
  "utf8_char c =
     (let n = of_char c :: nat
      in if n < 128 then [word_of_nat n] else [word_of_nat (192 + n div 64), word_of_nat (128 + n mod 64)])"

definition utf8 :: "string \<Rightarrow> byte list" where
  "utf8 s = concat (map utf8_char s)"

definition aad :: "string \<Rightarrow> nat \<Rightarrow> nat \<Rightarrow> byte list" where
  "aad assetId idx cnt = utf8 assetId @ be32 idx @ be32 cnt"

subsection \<open>Encryption of a chunk\<close>

text \<open>\<open>importKey("raw", ..., "AES-GCM")\<close> takes 16, 24 or 32 bytes.\<close>

definition importDek :: "byte list \<Rightarrow> ck_error + byte list" where
  "importDek raw = (if length raw \<in> {16, 24, 32} then Inr raw else Inl (Thrown ''Invalid key length''))"

definition encryptChunk :: "cipher_fun \<Rightarrow> byte list \<Rightarrow> byte list \<Rightarrow> string \<Rightarrow> nat \<Rightarrow> nat \<Rightarrow> byte list \<Rightarrow> ck_error + byte list" where
  "encryptChunk gcm key prefix assetId idx cnt plain =
     (case nonce prefix idx of Inl e \<Rightarrow> Inl e | Inr iv \<Rightarrow> Inr (gcm key iv (aad assetId idx cnt) plain))"

definition auth_failed :: "nat \<Rightarrow> nat \<Rightarrow> ck_error" where
  "auth_failed idx cnt =
     CkError ChunkAuthFailed (''chunk '' @ show_nat idx @ '' of '' @ show_nat cnt @ '' did not authenticate'') [(''idx'', Inr (int idx))]"

text \<open>The \<open>try\<close> covers the nonce too.\<close>

definition decryptChunk :: "plain_fun \<Rightarrow> byte list \<Rightarrow> byte list \<Rightarrow> string \<Rightarrow> nat \<Rightarrow> nat \<Rightarrow> byte list \<Rightarrow> ck_error + byte list" where
  "decryptChunk ungcm key prefix assetId idx cnt ct =
     (case nonce prefix idx of Inl _ \<Rightarrow> Inl (auth_failed idx cnt)
      | Inr iv \<Rightarrow> (case ungcm key iv (aad assetId idx cnt) ct of None \<Rightarrow> Inl (auth_failed idx cnt) | Some pt \<Rightarrow> Inr pt))"

subsection \<open>Text forms\<close>

definition hex :: "byte list \<Rightarrow> string" where
  "hex u = concat (map (\<lambda>b. [hex_low (unat b div 16), hex_low (unat b mod 16)]) u)"

text \<open>The matches of \<open>/../g\<close>: two characters neither of which ends a line.\<close>

definition not_eol :: "char \<Rightarrow> bool" where
  "not_eol c = (c \<noteq> CHR 0x0A \<and> c \<noteq> CHR 0x0D)"

fun pairs_of :: "string \<Rightarrow> (char \<times> char) list" where
  "pairs_of (a # b # s) = (if not_eol a \<and> not_eol b then (a, b) # pairs_of s else pairs_of (b # s))"
| "pairs_of _ = []"

text \<open>
  \<open>parseInt\<close> of two characters to the base 16, stored into a byte: leading white space and a sign are accepted, what
  follows the digits is ignored, and what is not a number is stored as 0.
\<close>

definition parse_pair :: "char \<times> char \<Rightarrow> byte" where
  "parse_pair p =
     (let (a, b) = p; low = (case hex_val b of None \<Rightarrow> 0 | Some n \<Rightarrow> word_of_nat n)
      in case hex_val a of
           Some n \<Rightarrow> (case hex_val b of Some k \<Rightarrow> word_of_nat (16 * n + k)
                      | None \<Rightarrow> word_of_nat n)
         | None \<Rightarrow> if is_ws a \<or> a = CHR ''+'' then low else if a = CHR ''-'' then - low else 0)"

definition unhex :: "string \<Rightarrow> byte list" where
  "unhex s = map parse_pair (pairs_of s)"

text \<open>\<open>btoa\<close> and \<open>atob\<close>; the source feeds \<open>btoa\<close> a string it assembles in portions of \<open>0x8000\<close> bytes.\<close>

definition b64_digit :: "nat \<Rightarrow> char" where
  "b64_digit n =
     (if n < 26 then char_of (65 + n) else if n < 52 then char_of (71 + n) else if n < 62 then char_of (n - 4)
      else if n = 62 then CHR ''+'' else CHR ''/'')"

definition b64_val :: "char \<Rightarrow> nat option" where
  "b64_val c =
     (let n = of_char c :: nat
      in if is_upper c then Some (n - 65) else if is_lower c then Some (n - 71) else if is_digit c then Some (n + 4)
         else if c = CHR ''+'' then Some 62 else if c = CHR ''/'' then Some 63 else None)"

fun sextets :: "byte list \<Rightarrow> nat list" where
  "sextets (x # y # z # u) =
     [unat x div 4, unat x mod 4 * 16 + unat y div 16, unat y mod 16 * 4 + unat z div 64, unat z mod 64] @ sextets u"
| "sextets [x, y] = [unat x div 4, unat x mod 4 * 16 + unat y div 16, unat y mod 16 * 4]"
| "sextets [x] = [unat x div 4, unat x mod 4 * 16]"
| "sextets [] = []"

definition b64 :: "byte list \<Rightarrow> string" where
  "b64 u = map b64_digit (sextets u) @ replicate ((3 - length u mod 3) mod 3) (CHR ''='')"

fun octets :: "nat list \<Rightarrow> byte list" where
  "octets (p # q # r # s # t) =
     [word_of_nat (p * 4 + q div 16), word_of_nat (q mod 16 * 16 + r div 4), word_of_nat (r mod 4 * 64 + s)] @ octets t"
| "octets [p, q, r] = [word_of_nat (p * 4 + q div 16), word_of_nat (q mod 16 * 16 + r div 4)]"
| "octets [p, q] = [word_of_nat (p * 4 + q div 16)]"
| "octets _ = []"

definition b64_space :: "char \<Rightarrow> bool" where
  "b64_space c = (c \<in> {CHR 0x09, CHR 0x0A, CHR 0x0C, CHR 0x0D, CHR '' ''})"

definition strip_pad :: "string \<Rightarrow> string" where
  "strip_pad s =
     (if length s mod 4 \<noteq> 0 then s
      else if ends_with s ''=='' then take (length s - 2) s else if ends_with s ''='' then take (length s - 1) s else s)"

definition unb64 :: "string \<Rightarrow> ck_error + byte list" where
  "unb64 s =
     (let t = strip_pad (filter (\<lambda>c. \<not> b64_space c) s)
      in if length t mod 4 = 1 \<or> list_ex (\<lambda>c. b64_val c = None) t then Inl (Thrown ''The string contains invalid characters.'')
         else Inr (octets (map (\<lambda>c. the (b64_val c)) t)))"

subsection \<open>Positions and assets have their own nonces and additional data\<close>

lemma length_be32 [simp]: "length (be32 n) = 4"
  by (simp add: be32_def Let_def)

lemma be32_inj:
  assumes "m < 2 ^ 32" "n < 2 ^ 32" "be32 m = be32 n"
  shows "m = n"
proof -
  let ?v = "word_of_nat m :: 32 word" and ?w = "word_of_nat n :: 32 word"
  have eq: "(ucast (drop_bit k ?v) :: 8 word) = ucast (drop_bit k ?w)" if "k \<in> {24, 16, 8, 0}" for k
    using assms(3) that by (auto simp: be32_def Let_def)
  have "?v = ?w"
  proof (rule bit_word_eqI)
    fix i assume "i < LENGTH(32)"
    then have i: "i < 32" by simp
    define k where "k = i div 8 * 8"
    have "i div 8 < 4" using i by simp
    then have "i div 8 \<in> {0, 1, 2, 3}" by auto
    then have k: "k \<in> {24, 16, 8, 0}" by (auto simp: k_def)
    have d: "i - k < 8" "k \<le> i" by (simp_all add: k_def minus_div_mult_eq_mod)
    have "bit (ucast (drop_bit k ?v) :: 8 word) (i - k) = bit ?v i" for v using d i by (simp add: bit_ucast_iff bit_drop_bit_eq)
    moreover have "bit (ucast (drop_bit k ?w) :: 8 word) (i - k) = bit ?w i" using d i by (simp add: bit_ucast_iff bit_drop_bit_eq)
    ultimately show "bit ?v i = bit ?w i" using eq [OF k] by simp
  qed
  then have "unat ?v = unat ?w" by simp
  then show ?thesis using assms(1,2) by (simp add: unat_of_nat)
qed

lemma byte_bound: "unat (x :: byte) < 256"
  using unsigned_less [of x] by simp

lemma unat_byte: "n < 256 \<Longrightarrow> unat (word_of_nat n :: byte) = n"
  by (simp add: unat_of_nat)

lemma unat_utf8_char:
  "map unat (utf8_char c) = (let n = of_char c :: nat in if n < 128 then [n] else [192 + n div 64, 128 + n mod 64])"
proof -
  have "n div 64 < 4" "n mod 64 < 64" if "n < 256" for n :: nat using that by (simp_all add: div_less_iff_less_mult)
  from this [of "of_char c"] have b: "192 + (of_char c :: nat) div 64 < 256" "128 + (of_char c :: nat) mod 64 < 256"
    by simp_all
  show ?thesis by (simp only: utf8_char_def Let_def list.map if_distrib [of "map unat"] unat_byte [OF b(1)] unat_byte [OF b(2)])
      (simp add: unat_byte)
qed

lemma utf8_char_first:
  assumes "utf8_char c @ s = utf8_char d @ t"
  shows "c = d \<and> s = t"
proof -
  have "map unat (utf8_char c) @ map unat s = map unat (utf8_char d) @ map unat t"
    using arg_cong [OF assms, of "map unat"] by simp
  then have eq: "(let n = of_char c :: nat in if n < 128 then [n] else [192 + n div 64, 128 + n mod 64]) @ map unat s =
      (let n = of_char d :: nat in if n < 128 then [n] else [192 + n div 64, 128 + n mod 64]) @ map unat t"
    by (simp only: unat_utf8_char)
  have dm: "m div 64 = n div 64 \<Longrightarrow> m mod 64 = n mod 64 \<Longrightarrow> m = n" for m n :: nat by (metis div_mult_mod_eq)
  have "(of_char c :: nat) = of_char d"
  proof (cases "(of_char c :: nat) < 128 \<or> (of_char d :: nat) < 128")
    case True
    then show ?thesis using eq by (auto simp: Let_def split: if_splits)
  next
    case False
    then have "(of_char c :: nat) div 64 = of_char d div 64" "(of_char c :: nat) mod 64 = of_char d mod 64"
      using eq by (simp_all add: Let_def)
    then show ?thesis by (rule dm)
  qed
  then have "c = d" by simp
  then show ?thesis using assms by simp
qed

lemma utf8_inj: "utf8 s = utf8 t \<longleftrightarrow> s = t"
proof
  assume "utf8 s = utf8 t"
  then show "s = t"
  proof (induction s arbitrary: t)
    case Nil
    then show ?case by (cases t) (auto simp: utf8_def utf8_char_def Let_def split: if_splits)
  next
    case (Cons c s)
    then show ?case
    proof (cases t)
      case Nil
      then show ?thesis using Cons.prems by (auto simp: utf8_def utf8_char_def Let_def split: if_splits)
    next
      case t: (Cons d t')
      have "utf8_char c @ utf8 s = utf8_char d @ utf8 t'" using Cons.prems t by (simp add: utf8_def)
      then show ?thesis using Cons.IH t utf8_char_first by blast
    qed
  qed
qed simp

lemma aad_inj:
  assumes "i < 2 ^ 32" "j < 2 ^ 32" "m < 2 ^ 32" "n < 2 ^ 32" "aad s i m = aad t j n"
  shows "s = t \<and> i = j \<and> m = n"
  using assms be32_inj by (auto simp: aad_def utf8_inj)

subsection \<open>Text forms round-trip\<close>

lemma hex_val_low: "n < 16 \<Longrightarrow> hex_val (hex_low n) = Some n"
proof -
  assume "n < 16"
  then have "n \<in> set [0..<16]" by simp
  then show ?thesis by (auto simp: upt_rec hex_val_def hex_low_def)
qed

lemma hex_low_not_eol: "n < 16 \<Longrightarrow> not_eol (hex_low n)"
  using hex_val_low [of n] by (auto simp: not_eol_def hex_val_def)

lemma unhex_hex: "unhex (hex u) = u"
proof (induction u)
  case Nil
  then show ?case by (simp add: hex_def unhex_def)
next
  case (Cons b u)
  have d: "unat b div 16 < 16" "unat b mod 16 < 16" using byte_bound [of b] by simp_all
  have "parse_pair (hex_low (unat b div 16), hex_low (unat b mod 16)) = b"
    using d by (simp add: parse_pair_def hex_val_low Let_def)
  then show ?case using Cons d by (simp add: hex_def unhex_def hex_low_not_eol)
qed

lemma b64_val_digit: "n < 64 \<Longrightarrow> b64_val (b64_digit n) = Some n"
  by (auto simp: b64_val_def b64_digit_def Let_def is_upper_def is_lower_def is_digit_def of_char_of)

lemma sextets_bound: "n \<in> set (sextets u) \<Longrightarrow> n < 64"
proof (induction u rule: sextets.induct)
  case (1 x y z u)
  then show ?case using byte_bound [of x] byte_bound [of y] byte_bound [of z] by auto
next
  case (2 x y)
  then show ?case using byte_bound [of x] byte_bound [of y] by auto
next
  case (3 x)
  then show ?case using byte_bound [of x] by auto
qed simp

lemma unat_split: "(x :: byte) = word_of_nat (unat x)"
  by simp

lemma octets_sextets: "octets (sextets u) = u"
proof (induction u rule: sextets.induct)
  case (1 x y z u)
  have "unat x div 4 * 4 + (unat x mod 4 * 16 + unat y div 16) div 16 = unat x"
    "(unat x mod 4 * 16 + unat y div 16) mod 16 * 16 + (unat y mod 16 * 4 + unat z div 64) div 4 = unat y"
    "(unat y mod 16 * 4 + unat z div 64) mod 4 * 64 + unat z mod 64 = unat z"
    using byte_bound [of x] byte_bound [of y] byte_bound [of z] by simp_all
  then show ?case using 1 by (simp only: sextets.simps octets.simps append_Cons append_Nil) simp
next
  case (2 x y)
  have "unat x div 4 * 4 + (unat x mod 4 * 16 + unat y div 16) div 16 = unat x"
    "(unat x mod 4 * 16 + unat y div 16) mod 16 * 16 + (unat y mod 16 * 4) div 4 = unat y"
    using byte_bound [of x] byte_bound [of y] by simp_all
  then show ?case by (simp only: sextets.simps octets.simps) simp
next
  case (3 x)
  have "unat x div 4 * 4 + (unat x mod 4 * 16) div 16 = unat x" by presburger
  then show ?case by (simp only: sextets.simps octets.simps) simp
qed simp

lemma length_sextets: "length (sextets u) = length u div 3 * 4 + (if length u mod 3 = 0 then 0 else length u mod 3 + 1)"
  by (induction u rule: sextets.induct) auto

lemma b64_digit_plain: "n < 64 \<Longrightarrow> \<not> b64_space (b64_digit n) \<and> b64_digit n \<noteq> CHR ''=''"
  using b64_val_digit [of n] by (auto simp: b64_space_def b64_val_def is_upper_def is_lower_def is_digit_def)

lemma strip_pad_b64: "strip_pad (b64 u) = map b64_digit (sextets u)"
proof -
  let ?t = "map b64_digit (sextets u)"
  have ne: "CHR ''='' \<notin> set ?t" using b64_digit_plain sextets_bound by fastforce
  have ends: "\<not> ends_with ?t (x @ ''='')" for x 
  proof
    assume "ends_with ?t (x @ ''='')"
    then obtain t where "?t = t @ x @ ''=''" by (auto simp: ends_with_iff)
    then have "CHR ''='' \<in> set ?t" by (simp only: set_append) simp
    then show False using ne by simp
  qed
  have len: "length u = 3 * (length u div 3) + length u mod 3" by simp
  consider "length u mod 3 = 0" | "length u mod 3 = 1" | "length u mod 3 = 2" by linarith
  then show ?thesis
  proof cases
    case 1
    then have "b64 u = ?t" by (simp add: b64_def)
    then show ?thesis using ends [of "[]"] ends [of "''=''"] by (simp add: strip_pad_def)
  next
    case 2
    then have "b64 u = ?t @ ''==''" by (simp add: b64_def numeral_2_eq_2)
    then show ?thesis using 2 by (simp add: strip_pad_def ends_with_def length_sextets)
  next
    case 3
    have "\<not> ends_with (?t @ ''='') ''==''"
    proof
      assume "ends_with (?t @ ''='') ''==''"
      then obtain t where "?t @ ''='' = (t @ ''='') @ ''=''" by (auto simp: ends_with_iff)
      then have "?t = t @ ''=''" by (simp only: append_same_eq)
      then show False using ends [of "[]"] by (auto simp: ends_with_iff)
    qed
    moreover have "b64 u = ?t @ ''=''" using 3 by (simp add: b64_def)
    ultimately show ?thesis using 3 by (simp add: strip_pad_def ends_with_def length_sextets)
  qed
qed

lemma unb64_b64: "unb64 (b64 u) = Inr u"
proof -
  let ?t = "map b64_digit (sextets u)"
  have "filter (\<lambda>c. \<not> b64_space c) (b64 u) = b64 u"
    using b64_digit_plain sextets_bound by (auto simp: b64_def filter_id_conv b64_space_def)
  moreover have "length ?t mod 4 \<noteq> 1" by (auto simp: length_sextets) presburger?
  moreover have "map (\<lambda>c. the (b64_val c)) ?t = sextets u"
    unfolding map_map by (rule map_idI) (simp add: b64_val_digit sextets_bound)
  moreover have "\<not> list_ex (\<lambda>c. b64_val c = None) ?t" using sextets_bound b64_val_digit by (auto simp: list_ex_iff)
  ultimately show ?thesis by (simp add: unb64_def strip_pad_b64 octets_sextets)
qed

subsection \<open>Where the chunks lie\<close>

lemma chunkCount_iff:
  assumes "0 < c"
  shows "i < chunkCount n c \<longleftrightarrow> i = 0 \<or> i * c < n"
proof (cases "i = 0")
  case False
  let ?q = "ceil_div n c"
  note b = ceil_div_bounds [OF assms, of n]
  have "i < ?q \<longleftrightarrow> i * c < n"
  proof
    assume "i < ?q"
    then have "(i + 1) * c \<le> ?q * c" by (intro mult_le_mono1) simp
    then show "i * c < n" using b(2) by (simp add: algebra_simps)
  next
    assume "i * c < n"
    then have "i * c < ?q * c" using b(1) by linarith
    then show "i < ?q" by simp
  qed
  then show ?thesis using False by (auto simp: chunkCount_def)
qed (simp add: chunkCount_def)

lemma chunkCount_pos [simp]: "0 < chunkCount n c"
  by (simp add: chunkCount_def)

lemma chunkCount_covers: "0 < c \<Longrightarrow> n \<le> chunkCount n c * c"
  using chunkCount_iff [of c "chunkCount n c" n] by (cases "chunkCount n c * c < n") auto

lemma plainLen_full: "0 < c \<Longrightarrow> j < i \<Longrightarrow> i < chunkCount n c \<Longrightarrow> plainLen j n c = c"
proof -
  assume "0 < c" "j < i" "i < chunkCount n c"
  then have "i * c < n" "(j + 1) * c \<le> i * c" using chunkCount_iff [of c i n] mult_le_mono1 [of "j + 1" i c] by auto
  then show ?thesis by (simp add: plainLen_def)
qed

lemma plainLen_sum: "(\<Sum>i<m. plainLen i n c) = min n (m * c)"
  by (induction m) (auto simp: plainLen_def min_def)

lemma span_Inr:
  assumes "0 < c" "span start endExcl n c = Inr sp"
  shows "0 \<le> start" "start < endExcl" "endExcl \<le> int n"
    and "cs_first sp = nat start div c" "cs_last sp = (nat endExcl - 1) div c"
    and "cs_first sp \<le> cs_last sp" "cs_last sp < chunkCount n c"
    and "cs_cStart sp = cipherOffset (cs_first sp) c"
    and "cs_cEnd sp + 1 = cipherOffset (cs_last sp) c + plainLen (cs_last sp) n c + TAG"
proof -
  show r: "0 \<le> start" "start < endExcl" "endExcl \<le> int n" and f: "cs_first sp = nat start div c" "cs_last sp = (nat endExcl - 1) div c"
    and "cs_cStart sp = cipherOffset (cs_first sp) c"
    and "cs_cEnd sp + 1 = cipherOffset (cs_last sp) c + plainLen (cs_last sp) n c + TAG"
    using assms(2) by (auto simp: span_def Let_def TAG_def split: if_splits)
  show "cs_first sp \<le> cs_last sp" using r unfolding f by (intro div_le_mono) linarith
  have "(nat endExcl - 1) div c * c \<le> nat endExcl - 1" by simp
  then have "(nat endExcl - 1) div c * c < n" using r by linarith
  then show "cs_last sp < chunkCount n c" unfolding f using chunkCount_iff [OF assms(1)] by blast
qed

lemma span_ok:
  "0 \<le> start \<Longrightarrow> start < endExcl \<Longrightarrow> endExcl \<le> int n \<Longrightarrow> \<exists>sp. span start endExcl n c = Inr sp"
  by (simp add: span_def Let_def)

subsection \<open>The stored object\<close>

text \<open>
  What the platform documents of AES-GCM: a tag of 16 bytes is added, and decryption gives a text exactly for
  what encryption makes of that text under the same key, nonce and additional data.
\<close>

definition gcm_law :: "cipher_fun \<Rightarrow> plain_fun \<Rightarrow> bool" where
  "gcm_law gcm ungcm \<longleftrightarrow>
     (\<forall>k iv a p. length (gcm k iv a p) = length p + TAG) \<and> (\<forall>k iv a c p. ungcm k iv a c = Some p \<longleftrightarrow> c = gcm k iv a p)"

text \<open>The reference: plaintext chunk \<open>i\<close>, its sealed form, and the object as the sealed chunks one after the other.\<close>

definition chunk_of :: "byte list \<Rightarrow> nat \<Rightarrow> nat \<Rightarrow> byte list" where
  "chunk_of P c i = take c (drop (i * c) P)"

definition sealed :: "cipher_fun \<Rightarrow> byte list \<Rightarrow> byte list \<Rightarrow> string \<Rightarrow> byte list \<Rightarrow> nat \<Rightarrow> nat \<Rightarrow> byte list" where
  "sealed gcm key prefix aid P c i = gcm key (prefix @ be32 i) (aad aid i (chunkCount (length P) c)) (chunk_of P c i)"

definition stored_object :: "cipher_fun \<Rightarrow> byte list \<Rightarrow> byte list \<Rightarrow> string \<Rightarrow> byte list \<Rightarrow> nat \<Rightarrow> byte list" where
  "stored_object gcm key prefix aid P c = concat (map (sealed gcm key prefix aid P c) [0..<chunkCount (length P) c])"

lemma length_chunk_of [simp]: "length (chunk_of P c i) = plainLen i (length P) c"
  by (simp add: chunk_of_def plainLen_def)

lemma length_sealed: "gcm_law gcm ungcm \<Longrightarrow> length (sealed gcm key prefix aid P c i) = plainLen i (length P) c + TAG"
  by (simp add: gcm_law_def sealed_def)

lemma drop_concat_equal:
  "i \<le> length xss \<Longrightarrow> (\<And>j. j < i \<Longrightarrow> length (xss ! j) = L) \<Longrightarrow> drop (i * L) (concat xss) = concat (drop i xss)"
proof (induction i arbitrary: xss)
  case (Suc i)
  then obtain x ys where xs: "xss = x # ys" by (cases xss) auto
  have "length x = L" using Suc.prems(2) [of 0] xs by simp
  moreover have "length (ys ! j) = L" if "j < i" for j using Suc.prems(2) [of "Suc j"] that xs by simp
  then have "drop (i * L) (concat ys) = concat (drop i ys)" using Suc.prems(1) xs by (intro Suc.IH) auto
  ultimately show ?case by (simp add: xs)
qed simp

lemma drop_stored:
  assumes "gcm_law gcm ungcm" "0 < c" "i < chunkCount (length P) c"
  shows "drop (cipherOffset i c) (stored_object gcm key prefix aid P c) =
    concat (map (sealed gcm key prefix aid P c) [i..<chunkCount (length P) c])"
proof -
  let ?n = "chunkCount (length P) c"
  have "drop (i * (c + TAG)) (concat (map (sealed gcm key prefix aid P c) [0..<?n])) =
      concat (drop i (map (sealed gcm key prefix aid P c) [0..<?n]))"
    using assms plainLen_full [OF assms(2)] by (intro drop_concat_equal) (auto simp: length_sealed [OF assms(1)])
  then show ?thesis by (simp add: stored_object_def cipherOffset_def drop_map)
qed

lemma length_stored:
  assumes "gcm_law gcm ungcm" "0 < c"
  shows "length (stored_object gcm key prefix aid P c) = cipherSize (length P) c"
proof -
  have "length (stored_object gcm key prefix aid P c) = (\<Sum>i<chunkCount (length P) c. plainLen i (length P) c + TAG)"
    by (simp add: stored_object_def length_concat length_sealed [OF assms(1)] comp_def interv_sum_list_conv_sum_set_nat atLeast0LessThan)
  also have "\<dots> = length P + chunkCount (length P) c * TAG"
    using chunkCount_covers [OF assms(2), of "length P"] by (simp add: sum.distrib plainLen_sum)
  finally show ?thesis by (simp add: cipherSize_def)
qed

lemma cut_stored:
  assumes "gcm_law gcm ungcm" "0 < c" "i < chunkCount (length P) c"
  shows "take (plainLen i (length P) c + TAG) (drop (cipherOffset i c) (stored_object gcm key prefix aid P c)) =
    sealed gcm key prefix aid P c i"
  using assms by (simp add: drop_stored [OF assms] upt_conv_Cons length_sealed [OF assms(1)])

end
