(* ===== verification/Ranged_Read.thy ===== *)
theory Ranged_Read
  imports Envelope
begin

text \<open>
  Ranged decrypting reads of the client-keyed-objects client: \<open>client/src/read.ts\<close> with the parts of \<open>keys.ts\<close>,
  \<open>catalogue.ts\<close>, \<open>s3.ts\<close> and \<open>ctx.ts\<close> a read goes through. What the services answer during one read is a
  \<open>read_world\<close>; the client's own state is the row cache and the key cache. Durations are not modelled.
\<close>

subsection \<open>Tenants and their regions\<close>

record target_config =
  tg_name :: string
  tg_region :: string
  tg_url :: string
  tg_storageUrl :: string
  tg_anonKey :: string
  tg_keyServiceUrl :: string
  tg_bucket :: string

record directory =
  dr_tenants :: "string obj"
  dr_regions :: "target_config obj"

definition resolveTarget :: "directory \<Rightarrow> string \<Rightarrow> ck_error + target_config" where
  "resolveTarget dir tenantId =
     (let t = (case obj_get (dr_tenants dir) tenantId of Some r \<Rightarrow> if r = [] then None else obj_get (dr_regions dir) r | None \<Rightarrow> None)
      in case t of None \<Rightarrow> Inl (CkError UnknownTenant (''tenant '' @ tenantId @ '' has no home region in the directory'') [])
         | Some c \<Rightarrow> Inr c)"

subsection \<open>Keys\<close>

text \<open>An answer of the key service: unreachable, or a status with its body (\<open>{}\<close> when it is not JSON).\<close>

datatype key_answer = Key_Unreachable string | Key_Answer int "string obj"

definition key_detail :: "int \<Rightarrow> string obj \<Rightarrow> (string + int) obj" where
  "key_detail st j = (''status'', Inr st) # (case obj_get j ''error'' of None \<Rightarrow> [] | Some e \<Rightarrow> [(''error'', Inl e)])"

definition error_text :: "string obj \<Rightarrow> string" where
  "error_text j = (case obj_get j ''error'' of None \<Rightarrow> ''undefined'' | Some e \<Rightarrow> e)"

definition key_call :: "key_answer \<Rightarrow> ck_error + string obj" where
  "key_call a =
     (case a of Key_Unreachable msg \<Rightarrow> Inl (CkError KeyServiceUnavailable (''key service unreachable: '' @ msg) [])
      | Key_Answer st j \<Rightarrow>
          if st = 200 then Inr j
          else if st \<ge> 500 \<and> st \<noteq> 502 then Inl (CkError KeyServiceUnavailable (''key service answered '' @ show_int st) (key_detail st j))
          else if st = 401 \<or> st = 403 then Inl (CkError KeyServiceDenied (''key service refused: '' @ error_text j) (key_detail st j))
          else Inl (CkError KeyServiceError (''key service answered '' @ show_int st @ '' '' @ error_text j) (key_detail st j)))"

definition wrapDek :: "key_answer \<Rightarrow> ck_error + (string option \<times> string option)" where
  "wrapDek a = (case key_call a of Inl e \<Rightarrow> Inl e | Inr j \<Rightarrow> Inr (obj_get j ''wrapped'', obj_get j ''key_id''))"

text \<open>Without a \<open>dek\<close> in the answer \<open>atob\<close> is given the text of \<open>undefined\<close>.\<close>

definition unwrapDek :: "(string \<rightharpoonup> byte list) \<Rightarrow> string \<Rightarrow> key_answer \<Rightarrow> (string \<rightharpoonup> byte list) \<times> (ck_error + byte list)" where
  "unwrapDek deks assetId a =
     (case deks assetId of Some dek \<Rightarrow> (deks, Inr dek)
      | None \<Rightarrow> (case key_call a of Inl e \<Rightarrow> (deks, Inl e)
                | Inr j \<Rightarrow> (case unb64 (case obj_get j ''dek'' of None \<Rightarrow> ''undefined'' | Some d \<Rightarrow> d) of
                            Inl e \<Rightarrow> (deks, Inl e) | Inr dek \<Rightarrow> (deks(assetId \<mapsto> dek), Inr dek))))"

subsection \<open>The catalogue\<close>

record asset_row =
  as_id :: string
  as_record_id :: string
  as_tenant_id :: string
  as_object_key :: string
  as_plaintext_size :: nat
  as_chunk_size :: nat
  as_chunk_count :: nat
  as_ciphertext_size :: nat
  as_cipher :: string
  as_key_id :: "string option"
  as_wrapped_dek :: "string option"
  as_nonce_prefix :: string
  as_plaintext_sha256 :: "string option"
  as_upload_state :: string
  as_upload_method :: "string option"
  as_s3_upload_id :: "string option"
  as_tus_url :: "string option"

text \<open>The rows \<open>GET assets?id=eq...\<close> answers.\<close>

definition getAsset :: "string \<Rightarrow> ck_error + asset_row list \<Rightarrow> ck_error + asset_row" where
  "getAsset aid a =
     (case a of Inl e \<Rightarrow> Inl e
      | Inr rows \<Rightarrow> (case rows of [] \<Rightarrow> Inl (CkError CatalogueError (''asset '' @ aid @ '' not visible'') [(''status'', Inr 404)]) | r # _ \<Rightarrow> Inr r))"

text \<open>\<open>new Map(rows)\<close>: of two rows for one chunk the later one counts.\<close>

definition chunkHashes :: "ck_error + (nat \<times> string) list \<Rightarrow> ck_error + (nat \<rightharpoonup> string)" where
  "chunkHashes a = (case a of Inl e \<Rightarrow> Inl e | Inr rows \<Rightarrow> Inr (map_of (rev rows)))"

subsection \<open>Fetching ciphertext\<close>

datatype read_path = S3 | S3_Presigned | Signed_Url | Authenticated

definition path_text :: "read_path \<Rightarrow> string" where
  "path_text p = (case p of S3 \<Rightarrow> ''s3'' | S3_Presigned \<Rightarrow> ''s3-presigned'' | Signed_Url \<Rightarrow> ''signed-url'' | Authenticated \<Rightarrow> ''authenticated'')"

definition READ_PATHS :: "read_path list" where
  "READ_PATHS = [S3, S3_Presigned, Signed_Url, Authenticated]"

record fetched =
  ft_bytes :: "byte list"
  ft_status :: int
  ft_contentRange :: string
  ft_cacheStatus :: string
  ft_hdr :: "string obj"

definition KEEP :: "string list" where
  "KEEP = [''age'', ''cache-control'', ''cf-cache-status'', ''content-length'', ''server-timing'', ''via'', ''x-cache'',
     ''x-served-by'', ''last-modified'', ''etag'']"

definition keepHeaders :: "string obj \<Rightarrow> string obj" where
  "keepHeaders h =
     List.map_filter (\<lambda>k. map_option (Pair k) (obj_get h k)) KEEP
     @ (case obj_get h ''cf-ray'' of None \<Rightarrow> [] | Some ray \<Rightarrow> if ray = [] then [] else [(''colo'', last (split_char (CHR ''-'') ray))])
     @ [(''names'', join '','' (sort_by code_unit_cmp (filter (\<lambda>k. k \<noteq> ''set-cookie'') (obj_keys h))))]"

text \<open>
  What \<open>fetch\<close> gives: no answer, an answer whose body cannot be read (the error's text), or an answer with its
  body: the bytes, the text they decode to and the value that text parses to as JSON.
\<close>

datatype http_reply = Get_Failed string | Body_Failed int "string obj" string | Got int "string obj" "byte list" string "json option"

text \<open>The captured group of \<open>/<Code>([^<]*)<\/Code>/\<close>.\<close>

fun xml_code :: "string \<Rightarrow> string option" where
  "xml_code [] = None"
| "xml_code (c # s) =
     (if starts_with (c # s) ''<Code>'' \<and> starts_with (dropWhile (\<lambda>x. x \<noteq> CHR ''<'') (drop 6 (c # s))) ''</Code>''
      then Some (takeWhile (\<lambda>x. x \<noteq> CHR ''<'') (drop 6 (c # s))) else xml_code s)"

definition header :: "string obj \<Rightarrow> string \<Rightarrow> string" where
  "header h k = (case obj_get h k of None \<Rightarrow> [] | Some v \<Rightarrow> v)"

text \<open>
  The error code of a refused read. A body that is no JSON, or \<open>null\<close> (reading a member of it throws), is
  searched for an XML code.
\<close>

definition error_code :: "string \<Rightarrow> json option \<Rightarrow> string" where
  "error_code txt j =
     (case nn j of Some v \<Rightarrow> js_string_opt (coalesce (coalesce (jget ''error'' v) (jget ''code'' v)) (Some (JStr [])))
      | None \<Rightarrow> (case xml_code (take 2048 txt) of None \<Rightarrow> [] | Some c \<Rightarrow> c))"

definition body_failed :: "int \<Rightarrow> string obj \<Rightarrow> string \<Rightarrow> ck_error" where
  "body_failed st h msg =
     CkError StorageError (''body read failed (status '' @ show_int st @ '', cf-cache-status ''
       @ (case obj_get h ''cf-cache-status'' of None \<Rightarrow> ''-'' | Some x \<Rightarrow> x) @ '', age ''
       @ (case obj_get h ''age'' of None \<Rightarrow> ''-'' | Some x \<Rightarrow> x) @ ''): '' @ msg) [(''status'', Inr st), (''code'', Inl ''BodyRead'')]"

definition httpRange :: "http_reply \<Rightarrow> ck_error + fetched" where
  "httpRange r =
     (case r of Get_Failed msg \<Rightarrow> Inl (CkError StorageError (''GET failed: '' @ msg) [])
      | Body_Failed st h msg \<Rightarrow> Inl (body_failed st (keepHeaders h) msg)
      | Got st h bytes txt j \<Rightarrow>
          if st \<noteq> 206 \<and> st \<noteq> 200
          then let code = error_code txt j
               in Inl (CkError StorageError (''ranged GET answered '' @ show_int st @ '' '' @ code) [(''status'', Inr st), (''code'', Inl code)])
          else Inr \<lparr>ft_bytes = bytes, ft_status = st, ft_contentRange = header h ''content-range'', ft_cacheStatus = header h ''cf-cache-status'',
                 ft_hdr = keepHeaders h\<rparr>)"

text \<open>The S3 client: an exception (its \<open>Code\<close>, \<open>name\<close>, message and HTTP status, each possibly absent) or an object.\<close>

datatype s3_reply =
  S3_Throws "string option" "string option" "string option" "int option"
  | S3_Object "byte list option" "int option" "string option"

definition s3_error :: "string \<Rightarrow> string option \<Rightarrow> string option \<Rightarrow> string option \<Rightarrow> int option \<Rightarrow> ck_error" where
  "s3_error what code name msg st =
     (let c = (case code of Some x \<Rightarrow> Some x | None \<Rightarrow> name)
      in CkError StorageError (what @ '': '' @ (case c of None \<Rightarrow> ''Error'' | Some x \<Rightarrow> x) @ '' '' @ take 120 (case msg of None \<Rightarrow> [] | Some m \<Rightarrow> m))
           [(''status'', Inr (case st of None \<Rightarrow> 0 | Some n \<Rightarrow> n)), (''code'', Inl (case c of None \<Rightarrow> [] | Some x \<Rightarrow> x))])"

definition s3_fetch :: "s3_reply \<Rightarrow> ck_error + fetched" where
  "s3_fetch r =
     (case r of S3_Throws code name msg st \<Rightarrow> Inl (s3_error ''GetObject'' code name msg st)
      | S3_Object body st rg \<Rightarrow>
          Inr \<lparr>ft_bytes = (case body of None \<Rightarrow> [] | Some b \<Rightarrow> b), ft_status = (case st of None \<Rightarrow> 0 | Some n \<Rightarrow> n),
            ft_contentRange = (case rg of None \<Rightarrow> [] | Some x \<Rightarrow> x), ft_cacheStatus = [], ft_hdr = []\<rparr>)"

text \<open>
  The services during one read. \<open>rw_s3\<close> and \<open>rw_http\<close> answer a range, the latter for a URL and its headers;
  \<open>rw_presign\<close> is the URL the SDK signs, \<open>rw_sign\<close> the answer to \<open>POST /object/sign\<close>; \<open>rw_fetchFirst\<close> says which of
  the two requests sent together fails first when both fail.
\<close>

record read_world =
  rw_dir :: directory
  rw_session :: "target_config \<Rightarrow> ck_error option"
  rw_token :: "ck_error + string"
  rw_assets :: "ck_error + asset_row list"
  rw_key :: key_answer
  rw_s3 :: "string \<Rightarrow> string \<Rightarrow> s3_reply"
  rw_presign :: "string \<Rightarrow> string"
  rw_sign :: "(string + int \<times> string obj)"
  rw_http :: "string \<Rightarrow> string obj \<Rightarrow> http_reply"
  rw_hashes :: "nat \<Rightarrow> nat \<Rightarrow> ck_error + (nat \<times> string) list"
  rw_fetchFirst :: bool
  rw_log :: "ck_error option"

definition range_text :: "nat \<Rightarrow> nat \<Rightarrow> string" where
  "range_text a b = ''bytes='' @ show_nat a @ ''-'' @ show_nat b"

definition enc_key :: "string \<Rightarrow> string" where
  "enc_key key = join ''/'' (map encodeURIComponent (split_char (CHR ''/'') key))"

definition sign_error :: "int \<Rightarrow> string obj \<Rightarrow> ck_error" where
  "sign_error st j =
     CkError StorageError (''sign answered '' @ show_int st @ '' '' @ header j ''error'') [(''status'', Inr st), (''code'', Inl (header j ''error''))]"

definition auth_headers :: "target_config \<Rightarrow> string \<Rightarrow> string obj" where
  "auth_headers t tok = [(''apikey'', tg_anonKey t), (''authorization'', ''Bearer '' @ tok)]"

definition fetchCipher :: "read_world \<Rightarrow> target_config \<Rightarrow> asset_row \<Rightarrow> nat \<Rightarrow> nat \<Rightarrow> read_path \<Rightarrow> ck_error + fetched" where
  "fetchCipher w t a cStart cEnd path =
     (let rg = range_text cStart cEnd; with_range = (\<lambda>h. h @ [(''range'', rg)])
      in case path of
           S3 \<Rightarrow> s3_fetch (rw_s3 w (as_object_key a) rg)
         | S3_Presigned \<Rightarrow> httpRange (rw_http w (rw_presign w (as_object_key a)) (with_range []))
         | Signed_Url \<Rightarrow>
             (case rw_token w of Inl e \<Rightarrow> Inl e
              | Inr tok \<Rightarrow>
                  (case rw_sign w of Inl msg \<Rightarrow> Inl (Thrown msg)
                   | Inr (st, j) \<Rightarrow>
                       if st \<noteq> 200 \<or> header j ''signedURL'' = [] then Inl (sign_error st j)
                       else httpRange (rw_http w (tg_url t @ ''/storage/v1'' @ header j ''signedURL'') (with_range []))))
         | Authenticated \<Rightarrow>
             (case rw_token w of Inl e \<Rightarrow> Inl e
              | Inr tok \<Rightarrow>
                  httpRange (rw_http w (tg_url t @ ''/storage/v1/object/authenticated/'' @ tg_bucket t @ ''/'' @ enc_key (as_object_key a))
                    (with_range (auth_headers t tok)))))"

subsection \<open>A ranged read\<close>

record read_opts =
  ro_path :: "read_path option"
  ro_verifyHashes :: "bool option"
  ro_logAccess :: "bool option"

record read_result =
  rx_plain :: "byte list"
  rx_transferred :: nat
  rx_cipherNeeded :: nat
  rx_chunks :: nat
  rx_status :: int
  rx_cacheStatus :: string
  rx_hdr :: "string obj"

text \<open>The client's state: the row cache, the key cache and the bodies handed to \<open>onCipher\<close> so far.\<close>

record reader =
  rd_assets :: "string \<rightharpoonup> asset_row"
  rd_deks :: "string \<rightharpoonup> byte list"
  rd_cipher :: "byte list list"

definition assetOf :: "read_world \<Rightarrow> reader \<Rightarrow> string \<Rightarrow> reader \<times> (ck_error + asset_row)" where
  "assetOf w s aid =
     (case rd_assets s aid of Some a \<Rightarrow> (s, Inr a)
      | None \<Rightarrow> (case getAsset aid (rw_assets w) of Inl e \<Rightarrow> (s, Inl e)
                | Inr a \<Rightarrow> (if as_upload_state a = ''complete'' then s\<lparr>rd_assets := (rd_assets s)(aid \<mapsto> a)\<rparr> else s, Inr a)))"

text \<open>A failed fetch whose status is 416 or whose code is \<open>InvalidRange\<close> means a shorter object than the catalogue's.\<close>

definition unsatisfiable :: "(string + int) obj \<Rightarrow> bool" where
  "unsatisfiable d = (obj_get d ''status'' = Some (Inr 416) \<or> obj_get d ''code'' = Some (Inl ''InvalidRange''))"

definition fetch_failed :: "chunk_span \<Rightarrow> ck_error \<Rightarrow> ck_error" where
  "fetch_failed sp e =
     (case e of CkError _ _ d \<Rightarrow>
        if unsatisfiable d
        then CkError TruncatedObject (''range '' @ show_nat (cs_cStart sp) @ ''-'' @ show_nat (cs_cEnd sp) @ '' not satisfiable'') d else e
      | Thrown _ \<Rightarrow> e)"

text \<open>\<open>Promise.all\<close> of the fetch and the hashes: the first rejection wins.\<close>

definition both :: "bool \<Rightarrow> ck_error + 'a \<Rightarrow> ck_error + 'b \<Rightarrow> ck_error + 'a \<times> 'b" where
  "both first_left x y =
     (case (x, y) of (Inr a, Inr b) \<Rightarrow> Inr (a, b) | (Inl e, Inr _) \<Rightarrow> Inl e | (Inr _, Inl e) \<Rightarrow> Inl e
      | (Inl e, Inl e') \<Rightarrow> Inl (if first_left then e else e'))"

text \<open>\<open>/\/(\d+)$/\<close> on the \<open>Content-Range\<close>.\<close>

definition stored_total :: "string \<Rightarrow> nat option" where
  "stored_total s =
     (let r = rev s; ds = takeWhile is_digit r; rest = dropWhile is_digit r
      in if ds \<noteq> [] \<and> rest \<noteq> [] \<and> hd rest = CHR ''/'' then Some (read_nat (rev ds)) else None)"

definition truncated :: "string \<Rightarrow> nat obj \<Rightarrow> ck_error" where
  "truncated msg d = CkError TruncatedObject msg (map (\<lambda>(k, n). (k, Inr (int n))) d)"

text \<open>The bytes the covering chunks are read from, or why the answer is refused.\<close>

definition cipher_body :: "asset_row \<Rightarrow> chunk_span \<Rightarrow> fetched \<Rightarrow> ck_error + byte list" where
  "cipher_body a sp got =
     (let need = cs_cEnd sp + 1 - cs_cStart sp; body = ft_bytes got; whole = (ft_status got = 200 \<and> length body \<noteq> need)
      in if whole \<and> length body < as_ciphertext_size a
         then Inl (truncated (''200 with '' @ show_nat (length body) @ '' of '' @ show_nat (as_ciphertext_size a) @ '' bytes'') [(''got'', length body)])
         else let body' = (if whole then take (cs_cEnd sp + 1 - cs_cStart sp) (drop (cs_cStart sp) body) else body)
              in if (case stored_total (ft_contentRange got) of None \<Rightarrow> False | Some n \<Rightarrow> n \<noteq> as_ciphertext_size a)
                 then let n = the (stored_total (ft_contentRange got))
                      in Inl (truncated (''stored object is '' @ show_nat n @ '' bytes, catalogue says '' @ show_nat (as_ciphertext_size a))
                           [(''stored'', n), (''expected'', as_ciphertext_size a)])
                 else if length body' < need
                 then Inl (truncated (''got '' @ show_nat (length body') @ '' of '' @ show_nat need @ '' ciphertext bytes'')
                        [(''got'', length body'), (''need'', need)])
                 else Inr body')"

definition sha256Hex :: "(byte list \<Rightarrow> byte list) \<Rightarrow> byte list \<Rightarrow> string" where
  "sha256Hex sha u = hex (sha u)"

text \<open>\<open>plain.set(xs, off)\<close> throws when the values do not fit.\<close>

definition set_at :: "byte list \<Rightarrow> nat \<Rightarrow> byte list \<Rightarrow> ck_error + byte list" where
  "set_at buf off xs =
     (if off + length xs > length buf then Inl (Thrown ''offset is out of bounds'')
      else Inr (take off buf @ xs @ drop (off + length xs) buf))"

definition hash_failed :: "nat \<Rightarrow> string \<Rightarrow> ck_error" where
  "hash_failed i msg = CkError ChunkHashMismatch msg [(''idx'', Inr (int i))]"

definition check_hash :: "(byte list \<Rightarrow> byte list) \<Rightarrow> bool \<Rightarrow> (nat \<rightharpoonup> string) \<Rightarrow> nat \<Rightarrow> byte list \<Rightarrow> ck_error option" where
  "check_hash sha verify hashes i ct =
     (if \<not> verify then None
      else case hashes i of
          None \<Rightarrow> Some (hash_failed i (''no catalogue hash for chunk '' @ show_nat i))
        | Some want \<Rightarrow> if want = [] then Some (hash_failed i (''no catalogue hash for chunk '' @ show_nat i))
                       else if sha256Hex sha ct \<noteq> want then Some (hash_failed i (''chunk '' @ show_nat i @ '' hash differs from the catalogue''))
                       else None)"

text \<open>One chunk of the loop. A covering chunk begins before \<open>endExcl\<close>, so no end of the \<open>subarray\<close> is negative.\<close>

definition read_chunk ::
  "(byte list \<Rightarrow> byte list) \<Rightarrow> plain_fun \<Rightarrow> bool \<Rightarrow> (nat \<rightharpoonup> string) \<Rightarrow> asset_row \<Rightarrow> byte list \<Rightarrow> nat \<Rightarrow> byte list \<Rightarrow> nat \<Rightarrow> nat \<Rightarrow> nat
    \<Rightarrow> byte list \<Rightarrow> ck_error + byte list" where
  "read_chunk sha ungcm verify hashes a key cStart body start endExcl i plain =
     (let off = cipherOffset i (as_chunk_size a) - cStart;
          ct = take (plainLen i (as_plaintext_size a) (as_chunk_size a) + TAG) (drop off body)
      in case check_hash sha verify hashes i ct of
           Some e \<Rightarrow> Inl e
         | None \<Rightarrow>
             (case decryptChunk ungcm key (unhex (as_nonce_prefix a)) (as_id a) i (as_chunk_count a) ct of
                Inl e \<Rightarrow> Inl e
              | Inr pt \<Rightarrow>
                  (let pStart = i * as_chunk_size a; lo = max start pStart; hi = min endExcl (pStart + length pt)
                   in set_at plain (lo - start) (take (hi - lo) (drop (lo - pStart) pt)))))"

fun read_chunks ::
  "(byte list \<Rightarrow> byte list) \<Rightarrow> plain_fun \<Rightarrow> bool \<Rightarrow> (nat \<rightharpoonup> string) \<Rightarrow> asset_row \<Rightarrow> byte list \<Rightarrow> nat \<Rightarrow> byte list \<Rightarrow> nat \<Rightarrow> nat \<Rightarrow> nat list
    \<Rightarrow> byte list \<Rightarrow> ck_error + byte list" where
  "read_chunks sha ungcm verify hashes a key cStart body start endExcl [] plain = Inr plain"
| "read_chunks sha ungcm verify hashes a key cStart body start endExcl (i # is) plain =
     (case read_chunk sha ungcm verify hashes a key cStart body start endExcl i plain of
        Inl e \<Rightarrow> Inl e | Inr plain' \<Rightarrow> read_chunks sha ungcm verify hashes a key cStart body start endExcl is plain')"

text \<open>From the answers to the plaintext: \<open>readRange\<close> after the two requests.\<close>

definition open_range ::
  "(byte list \<Rightarrow> byte list) \<Rightarrow> plain_fun \<Rightarrow> bool \<Rightarrow> asset_row \<Rightarrow> byte list \<Rightarrow> chunk_span \<Rightarrow> nat \<Rightarrow> nat \<Rightarrow> fetched \<Rightarrow> (nat \<rightharpoonup> string)
    \<Rightarrow> ck_error + read_result" where
  "open_range sha ungcm verify a dek sp start endExcl got hashes =
     (case cipher_body a sp got of Inl e \<Rightarrow> Inl e
      | Inr body \<Rightarrow>
          (case importDek dek of Inl e \<Rightarrow> Inl e
           | Inr key \<Rightarrow>
               (case read_chunks sha ungcm verify hashes a key (cs_cStart sp) body start endExcl [cs_first sp..<cs_last sp + 1]
                       (replicate (endExcl - start) 0) of
                  Inl e \<Rightarrow> Inl e
                | Inr plain \<Rightarrow>
                    Inr \<lparr>rx_plain = plain, rx_transferred = length (ft_bytes got), rx_cipherNeeded = cs_cEnd sp + 1 - cs_cStart sp,
                      rx_chunks = cs_last sp + 1 - cs_first sp, rx_status = ft_status got, rx_cacheStatus = ft_cacheStatus got,
                      rx_hdr = ft_hdr got\<rparr>)))"

definition verify_of :: "read_opts \<Rightarrow> bool" where
  "verify_of opts = (ro_verifyHashes opts \<noteq> Some False)"

definition path_of :: "read_opts \<Rightarrow> read_path" where
  "path_of opts = (case ro_path opts of None \<Rightarrow> S3 | Some p \<Rightarrow> p)"

definition fetch_range ::
  "read_world \<Rightarrow> target_config \<Rightarrow> asset_row \<Rightarrow> chunk_span \<Rightarrow> read_opts \<Rightarrow> ck_error + fetched \<times> (nat \<rightharpoonup> string)" where
  "fetch_range w t a sp opts =
     both (rw_fetchFirst w)
       (case fetchCipher w t a (cs_cStart sp) (cs_cEnd sp) (path_of opts) of Inl e \<Rightarrow> Inl (fetch_failed sp e) | Inr f \<Rightarrow> Inr f)
       (if verify_of opts then chunkHashes (rw_hashes w (cs_first sp) (cs_last sp)) else Inr Map.empty)"

definition finish_read :: "read_world \<Rightarrow> read_opts \<Rightarrow> read_result \<Rightarrow> ck_error + read_result" where
  "finish_read w opts r = (case rw_log w of Some e \<Rightarrow> if ro_logAccess opts \<noteq> Some False then Inl e else Inr r | None \<Rightarrow> Inr r)"

definition readRange ::
  "(byte list \<Rightarrow> byte list) \<Rightarrow> plain_fun \<Rightarrow> read_world \<Rightarrow> reader \<Rightarrow> string \<Rightarrow> string \<Rightarrow> int \<Rightarrow> int \<Rightarrow> read_opts
    \<Rightarrow> reader \<times> (ck_error + read_result)" where
  "readRange sha ungcm w s tenantId assetId start endExcl opts =
     (case resolveTarget (rw_dir w) tenantId of Inl e \<Rightarrow> (s, Inl e)
      | Inr t \<Rightarrow>
     (case rw_session w t of Some e \<Rightarrow> (s, Inl e)
      | None \<Rightarrow>
     (case assetOf w s assetId of (s1, Inl e) \<Rightarrow> (s1, Inl e)
      | (s1, Inr a) \<Rightarrow>
          if as_upload_state a \<noteq> ''complete'' then (s1, Inl (CkError IntegrityError (''asset is '' @ as_upload_state a) []))
          else case unwrapDek (rd_deks s1) assetId (rw_key w) of
                 (deks, Inl e) \<Rightarrow> (s1\<lparr>rd_deks := deks\<rparr>, Inl e)
               | (deks, Inr dek) \<Rightarrow>
                   (let s2 = s1\<lparr>rd_deks := deks\<rparr>
                    in case span start endExcl (as_plaintext_size a) (as_chunk_size a) of Inl e \<Rightarrow> (s2, Inl e)
                       | Inr sp \<Rightarrow>
                           (case fetch_range w t a sp opts of Inl e \<Rightarrow> (s2, Inl e)
                            | Inr (got, hashes) \<Rightarrow>
                                (s2\<lparr>rd_cipher := rd_cipher s2 @ [ft_bytes got]\<rparr>,
                                 case open_range sha ungcm (verify_of opts) a dek sp (nat start) (nat endExcl) got hashes of Inl e \<Rightarrow> Inl e
                                 | Inr r \<Rightarrow> finish_read w opts r))))))"

subsection \<open>The loop fills the window\<close>

text \<open>The window after the bytes before position \<open>m\<close> are in place.\<close>

definition filled :: "byte list \<Rightarrow> nat \<Rightarrow> nat \<Rightarrow> nat \<Rightarrow> byte list" where
  "filled P start endExcl m = take (m - start) (drop start P) @ replicate (endExcl - m) 0"

definition window :: "'a list \<Rightarrow> nat \<Rightarrow> nat \<Rightarrow> 'a list" where
  "window xs a b = take (b - a) (drop a xs)"

lemma filled_ends [simp]: "filled P start endExcl start = replicate (endExcl - start) 0" "filled P start endExcl endExcl = window P start endExcl"
  by (simp_all add: filled_def window_def)

lemma set_at_filled:
  assumes "start \<le> lo" "lo \<le> hi" "hi \<le> endExcl" "endExcl \<le> length P"
  shows "set_at (filled P start endExcl lo) (lo - start) (take (hi - lo) (drop lo P)) = Inr (filled P start endExcl hi)"
proof -
  have "take (hi - start) (drop start P) = take (lo - start) (drop start P) @ take (hi - lo) (drop lo P)"
    using assms take_add [of "lo - start" "hi - lo" "drop start P"] by simp
  then show ?thesis using assms by (simp add: set_at_def filled_def)
qed

lemma chunk_window:
  assumes "i * c \<le> lo" "hi \<le> i * c + c"
  shows "take (hi - lo) (drop (lo - i * c) (chunk_of P c i)) = take (hi - lo) (drop lo P)"
  using assms by (simp add: chunk_of_def drop_take min_def)

text \<open>The row of an asset with plaintext \<open>P\<close>, as \<open>createAsset\<close> writes it.\<close>

definition row_for :: "asset_row \<Rightarrow> byte list \<Rightarrow> byte list \<Rightarrow> bool" where
  "row_for a prefix P \<longleftrightarrow>
     0 < as_chunk_size a \<and> as_plaintext_size a = length P \<and> as_chunk_count a = chunkCount (length P) (as_chunk_size a)
     \<and> as_ciphertext_size a = cipherSize (length P) (as_chunk_size a) \<and> as_nonce_prefix a = hex prefix \<and> length prefix = 8"

abbreviation sealed_of :: "cipher_fun \<Rightarrow> byte list \<Rightarrow> byte list \<Rightarrow> asset_row \<Rightarrow> byte list \<Rightarrow> nat \<Rightarrow> byte list" where
  "sealed_of gcm key prefix a P \<equiv> sealed gcm key prefix (as_id a) P (as_chunk_size a)"

lemma decrypt_sealed:
  assumes "gcm_law gcm ungcm" "row_for a prefix P"
  shows "decryptChunk ungcm key (unhex (as_nonce_prefix a)) (as_id a) i (as_chunk_count a) (sealed_of gcm key prefix a P i) =
    Inr (chunk_of P (as_chunk_size a) i)"
proof -
  have "ungcm k iv d (gcm k iv d p) = Some p" for k iv d p using assms(1) by (simp add: gcm_law_def)
  then show ?thesis using assms(2) by (simp add: decryptChunk_def nonce_def row_for_def unhex_hex sealed_def)
qed

definition piece :: "asset_row \<Rightarrow> nat \<Rightarrow> byte list \<Rightarrow> nat \<Rightarrow> byte list" where
  "piece a cStart body i =
     take (plainLen i (as_plaintext_size a) (as_chunk_size a) + TAG) (drop (cipherOffset i (as_chunk_size a) - cStart) body)"

lemma read_chunk_step:
  assumes "gcm_law gcm ungcm" "row_for a prefix P" "start < endExcl" "endExcl \<le> length P"
    and "start div as_chunk_size a \<le> i" "i \<le> (endExcl - 1) div as_chunk_size a"
    and "piece a cStart body i = sealed_of gcm key prefix a P i"
    and "check_hash sha verify hashes i (sealed_of gcm key prefix a P i) = None"
  shows "read_chunk sha ungcm verify hashes a key cStart body start endExcl i (filled P start endExcl (max start (i * as_chunk_size a))) =
    Inr (filled P start endExcl (min endExcl (i * as_chunk_size a + as_chunk_size a)))"
proof -
  let ?c = "as_chunk_size a" and ?n = "length P"
  let ?lo = "max start (i * ?c)" and ?hi = "min endExcl (i * ?c + ?c)"
  have c: "0 < ?c" using assms(2) by (simp add: row_for_def)
  have "i * ?c \<le> (endExcl - 1) div ?c * ?c" using assms(6) by simp
  also have "\<dots> \<le> endExcl - 1" by simp
  finally have e: "i * ?c < endExcl" using assms(3) by linarith
  have "start < (start div ?c + 1) * ?c" using c by (metis add.commute dividend_less_times_div mult.commute mult_Suc_right plus_1_eq_Suc)
  also have "\<dots> \<le> (i + 1) * ?c" using assms(5) by (intro mult_le_mono1) simp
  finally have b: "start < i * ?c + ?c" by (simp add: algebra_simps)
  have pl: "min endExcl (i * ?c + plainLen i ?n ?c) = ?hi" using e assms(4) by (auto simp: plainLen_def min_def)
  have w: "take (?hi - ?lo) (drop (?lo - i * ?c) (chunk_of P ?c i)) = take (?hi - ?lo) (drop ?lo P)"
    by (rule chunk_window) auto
  have "set_at (filled P start endExcl ?lo) (?lo - start) (take (?hi - ?lo) (drop ?lo P)) = Inr (filled P start endExcl ?hi)"
    using b e assms(3,4) by (intro set_at_filled) auto
  then show ?thesis using assms(7,8) pl w decrypt_sealed [OF assms(1,2)]
    by (simp add: read_chunk_def piece_def Let_def)
qed

lemma window_meets:
  fixes c :: nat
  assumes "0 < c" "start < endExcl" "start div c \<le> i" "i < (endExcl - 1) div c"
  shows "min endExcl (i * c + c) = max start ((i + 1) * c)"
proof -
  have "(i + 1) * c \<le> (endExcl - 1) div c * c" using assms(4) by (intro mult_le_mono1) simp
  also have "\<dots> \<le> endExcl - 1" by simp
  finally have e: "(i + 1) * c \<le> endExcl" using assms(2) by linarith
  have "start < (start div c + 1) * c" using assms(1) by (metis add.commute dividend_less_times_div mult.commute mult_Suc_right plus_1_eq_Suc)
  also have "\<dots> \<le> (i + 1) * c" using assms(3) by (intro mult_le_mono1) simp
  finally show ?thesis using e by (simp add: algebra_simps)
qed

lemma window_ends:
  fixes c :: nat
  assumes "0 < c" "start < endExcl"
  shows "max start (start div c * c) = start" "min endExcl ((endExcl - 1) div c * c + c) = endExcl"
proof -
  show "max start (start div c * c) = start" by simp
  have "endExcl - 1 < ((endExcl - 1) div c + 1) * c" using assms(1) by (metis add.commute dividend_less_times_div mult.commute mult_Suc_right plus_1_eq_Suc)
  then show "min endExcl ((endExcl - 1) div c * c + c) = endExcl" using assms(2) by (simp add: algebra_simps)
qed

text \<open>If every chunk that is accepted fills its part of the window, the loop's result is the window.\<close>

lemma read_chunks_sound:
  fixes a start endExcl
  defines "c \<equiv> as_chunk_size a"
  defines "la \<equiv> (endExcl - 1) div c"
  assumes "0 < c" "start < endExcl"
    and step: "\<And>i x. start div c \<le> i \<Longrightarrow> i \<le> la \<Longrightarrow>
      read_chunk sha ungcm verify hashes a key cStart body start endExcl i (filled P start endExcl (max start (i * c))) = Inr x
      \<Longrightarrow> x = filled P start endExcl (min endExcl (i * c + c))"
    and "read_chunks sha ungcm verify hashes a key cStart body start endExcl [start div c..<la + 1] (replicate (endExcl - start) 0) = Inr r"
  shows "r = window P start endExcl"
proof -
  have all: "read_chunks sha ungcm verify hashes a key cStart body start endExcl [j..<la + 1] (filled P start endExcl (max start (j * c))) = Inr r
      \<Longrightarrow> r = filled P start endExcl endExcl" if "start div c \<le> j" "j \<le> la" for j
    using that
  proof (induction "la - j" arbitrary: j)
    case 0
    then have j: "j = la" by simp
    then show ?case using 0(2,3) step [of j] window_ends(2) [OF assms(3,4)] by (auto simp: la_def split: sum.splits)
  next
    case (Suc d)
    then have j: "j < la" by simp
    then obtain x where x: "read_chunk sha ungcm verify hashes a key cStart body start endExcl j (filled P start endExcl (max start (j * c))) = Inr x"
      and rest: "read_chunks sha ungcm verify hashes a key cStart body start endExcl [j + 1..<la + 1] x = Inr r"
      using Suc(3) by (auto simp: upt_conv_Cons split: sum.splits)
    have "x = filled P start endExcl (max start ((j + 1) * c))"
      using step [OF Suc(4,5) x] window_meets [OF assms(3,4) Suc(4)] j by (simp add: la_def)
    then show ?case using Suc(1) [of "j + 1"] Suc(2) rest Suc(4) j by simp
  qed
  have "start div c \<le> la" unfolding la_def using assms(4) by (intro div_le_mono) simp
  then show ?thesis using all [of "start div c"] assms(6) unfolding window_ends(1) [OF assms(3,4)] filled_ends by simp
qed

lemma read_chunks_complete:
  fixes a start endExcl
  defines "c \<equiv> as_chunk_size a"
  defines "la \<equiv> (endExcl - 1) div c"
  assumes "0 < c" "start < endExcl"
    and step: "\<And>i. start div c \<le> i \<Longrightarrow> i \<le> la \<Longrightarrow>
      read_chunk sha ungcm verify hashes a key cStart body start endExcl i (filled P start endExcl (max start (i * c))) =
        Inr (filled P start endExcl (min endExcl (i * c + c)))"
  shows "read_chunks sha ungcm verify hashes a key cStart body start endExcl [start div c..<la + 1] (replicate (endExcl - start) 0) =
    Inr (window P start endExcl)"
proof -
  have all: "read_chunks sha ungcm verify hashes a key cStart body start endExcl [j..<la + 1] (filled P start endExcl (max start (j * c))) =
      Inr (filled P start endExcl endExcl)" if "start div c \<le> j" "j \<le> la" for j
    using that
  proof (induction "la - j" arbitrary: j)
    case 0
    then have "j = la" by simp
    then show ?case using 0(2) step [of j] window_ends(2) [OF assms(3,4)] by (simp add: la_def)
  next
    case (Suc d)
    then have j: "j < la" by simp
    have "read_chunks sha ungcm verify hashes a key cStart body start endExcl [j + 1..<la + 1] (filled P start endExcl (max start ((j + 1) * c))) =
        Inr (filled P start endExcl endExcl)" using Suc(1) [of "j + 1"] Suc(2,3) j by simp
    then show ?case using step [OF Suc(3,4)] window_meets [OF assms(3,4) Suc(3)] j by (simp add: la_def upt_conv_Cons)
  qed
  have "start div c \<le> la" unfolding la_def using assms(4) by (intro div_le_mono) simp
  then show ?thesis using all [of "start div c"] unfolding window_ends(1) [OF assms(3,4)] filled_ends by simp
qed

subsection \<open>What is returned is the plaintext\<close>

text \<open>No stretch of the received bytes has the digest of a stored chunk without being that chunk.\<close>

definition collision_free :: "(byte list \<Rightarrow> byte list) \<Rightarrow> (nat \<Rightarrow> byte list) \<Rightarrow> byte list \<Rightarrow> bool" where
  "collision_free sha chunk bytes \<longleftrightarrow>
     (\<forall>i off len. sha (take len (drop off bytes)) = sha (chunk i) \<longrightarrow> take len (drop off bytes) = chunk i)"

lemma check_hash_None:
  "check_hash sha True hashes i ct = None \<longleftrightarrow> (\<exists>want. hashes i = Some want \<and> want \<noteq> [] \<and> sha256Hex sha ct = want)"
  by (auto simp: check_hash_def split: option.splits if_splits)

lemma sha256Hex_inj: "sha256Hex sha x = sha256Hex sha y \<longleftrightarrow> sha x = sha y"
  using unhex_hex by (metis sha256Hex_def)

lemma body_of_stretch: "cipher_body a sp got = Inr body \<Longrightarrow> \<exists>off len. body = take len (drop off (ft_bytes got))"
  by (auto simp: cipher_body_def Let_def split: if_splits) (metis drop_0 take_all order_refl)+

lemma piece_stretch:
  assumes "cipher_body a sp got = Inr body"
  shows "\<exists>off len. piece a cStart body i = take len (drop off (ft_bytes got))"
proof -
  obtain off len where "body = take len (drop off (ft_bytes got))" using body_of_stretch [OF assms] by blast
  then show ?thesis by (auto simp: piece_def drop_take)
qed

lemma read_chunk_Inr:
  "read_chunk sha ungcm verify hashes a key cStart body start endExcl i plain = Inr x \<Longrightarrow>
     check_hash sha verify hashes i (piece a cStart body i) = None"
  by (auto simp: read_chunk_def piece_def Let_def split: option.splits)

lemma open_range_sound:
  assumes "gcm_law gcm ungcm" "row_for a prefix P" "span start endExcl (length P) (as_chunk_size a) = Inr sp"
    and hs: "\<And>i h. hashes i = Some h \<Longrightarrow> h = sha256Hex sha (sealed_of gcm dek prefix a P i)"
    and cf: "collision_free sha (sealed_of gcm dek prefix a P) (ft_bytes got)"
    and "open_range sha ungcm True a dek sp (nat start) (nat endExcl) got hashes = Inr r"
  shows "rx_plain r = window P (nat start) (nat endExcl)"
proof -
  let ?c = "as_chunk_size a"
  have c: "0 < ?c" using assms(2) by (simp add: row_for_def)
  note sp = span_Inr [OF c assms(3)]
  have r: "nat start < nat endExcl" "nat endExcl \<le> length P" using sp(1,2,3) by linarith+
  obtain body where body: "cipher_body a sp got = Inr body"
    and run: "read_chunks sha ungcm True hashes a dek (cs_cStart sp) body (nat start) (nat endExcl) [cs_first sp..<cs_last sp + 1]
        (replicate (nat endExcl - nat start) 0) = Inr (rx_plain r)"
    using assms(6) by (auto simp: open_range_def importDek_def split: sum.splits if_splits)
  show ?thesis
  proof (rule read_chunks_sound [OF c r(1), where P = P])
    fix i x assume i: "nat start div ?c \<le> i" "i \<le> (nat endExcl - 1) div ?c"
      and x: "read_chunk sha ungcm True hashes a dek (cs_cStart sp) body (nat start) (nat endExcl) i
        (filled P (nat start) (nat endExcl) (max (nat start) (i * ?c))) = Inr x"
    note ck = read_chunk_Inr [OF x]
    then have "sha (piece a (cs_cStart sp) body i) = sha (sealed_of gcm dek prefix a P i)"
      using hs [of i] by (auto simp: check_hash_None sha256Hex_inj)
    then have "piece a (cs_cStart sp) body i = sealed_of gcm dek prefix a P i"
      using piece_stretch [OF body, of "cs_cStart sp" i] cf by (auto simp: collision_free_def)
    then show "x = filled P (nat start) (nat endExcl) (min (nat endExcl) (i * ?c + ?c))"
      using read_chunk_step [OF assms(1,2) r i] ck x by auto
  qed (use run sp(4,5) in simp)
qed

lemma assetOf_deks [simp]: "rd_deks (fst (assetOf w s aid)) = rd_deks s"
  by (auto simp: assetOf_def split: option.splits sum.splits)

lemma readRange_Inr:
  assumes "readRange sha ungcm w s tid aid start endExcl opts = (s', Inr r)"
    and "assetOf w s aid = (s1, Inr a)" "snd (unwrapDek (rd_deks s) aid (rw_key w)) = Inr dek"
  obtains t sp got hashes where "resolveTarget (rw_dir w) tid = Inr t" "as_upload_state a = ''complete''"
    and "span start endExcl (as_plaintext_size a) (as_chunk_size a) = Inr sp" "fetch_range w t a sp opts = Inr (got, hashes)"
    and "open_range sha ungcm (verify_of opts) a dek sp (nat start) (nat endExcl) got hashes = Inr r"
proof -
  have "rd_deks s1 = rd_deks s" using assms(2) assetOf_deks [of w s aid] by simp
  then show thesis using assms that
    by (auto simp: readRange_def finish_read_def Let_def split: sum.splits option.splits if_splits prod.splits)
qed

lemma fetch_range_Inr:
  assumes "fetch_range w t a sp opts = Inr (got, hashes)" "verify_of opts"
  shows "fetchCipher w t a (cs_cStart sp) (cs_cEnd sp) (path_of opts) = Inr got"
    and "\<exists>rows. rw_hashes w (cs_first sp) (cs_last sp) = Inr rows \<and> hashes = map_of (rev rows)"
  using assms by (auto simp: fetch_range_def both_def chunkHashes_def split: sum.splits)

text \<open>C28. A ranged read fails closed: whatever Storage answers on whichever path (a range, the whole object, a shorter
  or altered one, an error), if \<open>readRange\<close> returns, then the range was valid and the bytes returned are exactly
  that range of the plaintext. The catalogue's hashes have to be those of the stored chunks, the key the one the
  chunks were sealed with, and no received stretch may collide with a stored chunk under SHA-256; hash verification
  must not be switched off.
\<close>

theorem read_fails_closed:
  assumes "gcm_law gcm ungcm" "assetOf w s aid = (s1, Inr a)" "row_for a prefix P"
    and "snd (unwrapDek (rd_deks s) aid (rw_key w)) = Inr dek"
    and "\<And>f l rows i h. rw_hashes w f l = Inr rows \<Longrightarrow> (i, h) \<in> set rows \<Longrightarrow> h = sha256Hex sha (sealed_of gcm dek prefix a P i)"
    and "\<And>t f l p got. fetchCipher w t a f l p = Inr got \<Longrightarrow> collision_free sha (sealed_of gcm dek prefix a P) (ft_bytes got)"
    and "verify_of opts" "readRange sha ungcm w s tid aid start endExcl opts = (s', Inr r)"
  shows "0 \<le> start \<and> start < endExcl \<and> endExcl \<le> int (length P) \<and> rx_plain r = window P (nat start) (nat endExcl)"
proof -
  obtain t sp got hashes where sp: "span start endExcl (length P) (as_chunk_size a) = Inr sp"
    and got: "fetch_range w t a sp opts = Inr (got, hashes)"
    and run: "open_range sha ungcm True a dek sp (nat start) (nat endExcl) got hashes = Inr r"
    by (rule readRange_Inr [OF assms(8,2,4)]) (use assms(3,7) in \<open>simp add: row_for_def\<close>)
  note f = fetch_range_Inr [OF got assms(7)]
  then obtain rows where rows: "rw_hashes w (cs_first sp) (cs_last sp) = Inr rows" "hashes = map_of (rev rows)" by blast
  have "rx_plain r = window P (nat start) (nat endExcl)"
  proof (rule open_range_sound [OF assms(1,3) sp _ _ run])
    show "h = sha256Hex sha (sealed_of gcm dek prefix a P i)" if "hashes i = Some h" for i h
      using that assms(5) [OF rows(1)] map_of_SomeD [of "rev rows" i h] by (simp add: rows(2))
    show "collision_free sha (sealed_of gcm dek prefix a P) (ft_bytes got)" using assms(6) f(1) by blast
  qed
  then show ?thesis using span_Inr(1,2,3) [OF _ sp] assms(3) by (simp add: row_for_def)
qed

definition toy_gcm :: cipher_fun where
  "toy_gcm k iv a p = p @ replicate 16 0"

definition toy_ungcm :: plain_fun where
  "toy_ungcm k iv a c =
     (if 16 \<le> length c \<and> drop (length c - 16) c = replicate 16 0 then Some (take (length c - 16) c) else None)"

lemma toy_gcm_law: "gcm_law toy_gcm toy_ungcm"
  by (auto simp: gcm_law_def toy_gcm_def toy_ungcm_def TAG_def) (metis append_take_drop_id)

definition demo_plain :: "byte list" where
  "demo_plain = [1, 2, 3, 4, 5]"

definition demo_prefix :: "byte list" where
  "demo_prefix = replicate 8 7"

definition demo_row :: asset_row where
  "demo_row = \<lparr>as_id = ''a'', as_record_id = ''r'', as_tenant_id = ''t'', as_object_key = ''t/a/data'', as_plaintext_size = 5, as_chunk_size = 2,
     as_chunk_count = 3, as_ciphertext_size = 53, as_cipher = ''aes-256-gcm'', as_key_id = None, as_wrapped_dek = None,
     as_nonce_prefix = ''0707070707070707'', as_plaintext_sha256 = None, as_upload_state = ''complete'', as_upload_method = None,
     as_s3_upload_id = None, as_tus_url = None\<rparr>"

definition demo_dek :: "byte list" where
  "demo_dek = replicate 32 9"

definition demo_world :: read_world where
  "demo_world = \<lparr>rw_dir = \<lparr>dr_tenants = [(''t'', ''eu'')], dr_regions = [(''eu'', \<lparr>tg_name = ''eu'', tg_region = ''eu'', tg_url = ''u'', tg_storageUrl = ''s'',
        tg_anonKey = ''k'', tg_keyServiceUrl = ''y'', tg_bucket = ''b''\<rparr>)]\<rparr>,
     rw_session = (\<lambda>_. None), rw_token = Inr ''tok'', rw_assets = Inr [demo_row], rw_key = Key_Unreachable ''down'',
     rw_s3 = (\<lambda>_ _. S3_Object (Some ([1, 2] @ replicate 16 0 @ [3, 4] @ replicate 16 0)) (Some 206) (Some ''bytes 0-35/53'')),
     rw_presign = (\<lambda>_. []), rw_sign = Inl [], rw_http = (\<lambda>_ _. Get_Failed []),
     rw_hashes = (\<lambda>_ _. Inr [(0, hex ([1, 2] @ replicate 16 0)), (1, hex ([3, 4] @ replicate 16 0))]),
     rw_fetchFirst = True, rw_log = None\<rparr>"

definition demo_reader :: reader where
  "demo_reader = \<lparr>rd_assets = Map.empty, rd_deks = [''a'' \<mapsto> demo_dek], rd_cipher = []\<rparr>"

definition demo_opts :: read_opts where
  "demo_opts = \<lparr>ro_path = None, ro_verifyHashes = None, ro_logAccess = None\<rparr>"

lemma demo_row_for: "row_for demo_row demo_prefix demo_plain"
proof -
  have "chunkCount (length demo_plain) 2 = 3" "hex demo_prefix = ''0707070707070707''" by code_simp+
  then show ?thesis by (simp add: row_for_def demo_row_def cipherSize_def TAG_def) (simp add: demo_plain_def demo_prefix_def)
qed

lemma demo_assetOf: "\<exists>s1. assetOf demo_world demo_reader ''a'' = (s1, Inr demo_row)"
  by (simp add: assetOf_def getAsset_def demo_world_def demo_reader_def demo_row_def)

lemma demo_unwrap: "snd (unwrapDek (rd_deks demo_reader) ''a'' k) = Inr demo_dek"
  by (simp add: unwrapDek_def demo_reader_def)

lemma demo_sealed:
  "sealed_of toy_gcm demo_dek demo_prefix demo_row demo_plain 0 = [1, 2] @ replicate 16 0"
  "sealed_of toy_gcm demo_dek demo_prefix demo_row demo_plain 1 = [3, 4] @ replicate 16 0"
  by (simp_all add: sealed_def toy_gcm_def chunk_of_def demo_row_def demo_plain_def)

theorem read_fails_closed_witness:
  "rx_plain (projr (snd (readRange (\<lambda>x. x) toy_ungcm demo_world demo_reader ''t'' ''a'' 1 4 demo_opts))) = [2, 3, 4]"
proof -
  have "case snd (readRange (\<lambda>x. x) toy_ungcm demo_world demo_reader ''t'' ''a'' 1 4 demo_opts) of Inl _ \<Rightarrow> False | Inr _ \<Rightarrow> True"
    by code_simp
  then obtain s' r where run: "readRange (\<lambda>x. x) toy_ungcm demo_world demo_reader ''t'' ''a'' 1 4 demo_opts = (s', Inr r)"
    by (cases "readRange (\<lambda>x. x) toy_ungcm demo_world demo_reader ''t'' ''a'' 1 4 demo_opts") (auto split: sum.splits)
  obtain s1 where a: "assetOf demo_world demo_reader ''a'' = (s1, Inr demo_row)" using demo_assetOf by blast
  have "rx_plain r = window demo_plain (nat 1) (nat 4)"
  proof (rule conjunct2 [OF conjunct2 [OF conjunct2 [OF read_fails_closed [OF toy_gcm_law a demo_row_for demo_unwrap _ _ _ run]]]])
    show "h = sha256Hex (\<lambda>x. x) (sealed_of toy_gcm demo_dek demo_prefix demo_row demo_plain i)"
      if "rw_hashes demo_world f l = Inr rows" "(i, h) \<in> set rows" for f l rows i h
      using that demo_sealed by (auto simp: demo_world_def sha256Hex_def)
  qed (simp_all add: collision_free_def verify_of_def demo_opts_def)
  then show ?thesis by (simp add: run window_def demo_plain_def)
qed

subsection \<open>An honest store is read\<close>

lemma cut_window:
  assumes "gcm_law gcm ungcm" "row_for a prefix P" "span start endExcl (length P) (as_chunk_size a) = Inr sp"
    and "cs_first sp \<le> i" "i \<le> cs_last sp"
  shows "piece a (cs_cStart sp) (window (stored_object gcm dek prefix (as_id a) P (as_chunk_size a)) (cs_cStart sp) (cs_cEnd sp + 1)) i =
    sealed_of gcm dek prefix a P i"
proof -
  let ?c = "as_chunk_size a" and ?obj = "stored_object gcm dek prefix (as_id a) P (as_chunk_size a)"
  have c: "0 < ?c" "as_plaintext_size a = length P" using assms(2) by (simp_all add: row_for_def)
  note sp = span_Inr [OF c(1) assms(3)]
  have le: "cs_cStart sp \<le> cipherOffset i ?c" using assms(4) by (simp add: sp(8) cipherOffset_def)
  have "cipherOffset i ?c + plainLen i (length P) ?c + TAG \<le> cs_cEnd sp + 1"
  proof (cases "i = cs_last sp")
    case False
    then have "(i + 1) * (?c + TAG) \<le> cs_last sp * (?c + TAG)" using assms(5) by (intro mult_le_mono1) simp
    then show ?thesis unfolding sp(9) by (simp add: cipherOffset_def plainLen_def algebra_simps)
  qed (use sp(9) in simp)
  then have "piece a (cs_cStart sp) (window ?obj (cs_cStart sp) (cs_cEnd sp + 1)) i =
      take (plainLen i (length P) ?c + TAG) (drop (cipherOffset i ?c) ?obj)"
    using le by (simp add: piece_def window_def c(2) drop_take min_def)
  then show ?thesis using cut_stored [OF assms(1) c(1), of i P] assms(5) sp(7) by simp
qed

lemma window_length_stored:
  assumes "gcm_law gcm ungcm" "row_for a prefix P" "span start endExcl (length P) (as_chunk_size a) = Inr sp"
  shows "cs_cEnd sp + 1 \<le> as_ciphertext_size a" "cs_cStart sp \<le> cs_cEnd sp"
proof -
  let ?c = "as_chunk_size a" and ?obj = "stored_object gcm dek prefix (as_id a) P (as_chunk_size a)"
  have c: "0 < ?c" "as_ciphertext_size a = length ?obj" using assms(1,2) length_stored [OF assms(1)] by (simp_all add: row_for_def)
  note sp = span_Inr [OF c(1) assms(3)]
  have "length (sealed_of gcm dek prefix a P (cs_last sp)) = min (plainLen (cs_last sp) (length P) ?c + TAG) (length ?obj - cipherOffset (cs_last sp) ?c)"
    using arg_cong [OF cut_stored [OF assms(1) c(1) sp(7), of dek prefix "as_id a"], of length] by simp
  then show "cs_cEnd sp + 1 \<le> as_ciphertext_size a" unfolding length_sealed [OF assms(1)] c(2) sp(9) by (auto simp: TAG_def min_def split: if_splits)
  have "cipherOffset (cs_first sp) ?c \<le> cipherOffset (cs_last sp) ?c" using sp(6) by (simp add: cipherOffset_def)
  then show "cs_cStart sp \<le> cs_cEnd sp" using sp(9) by (simp add: sp(8) TAG_def)
qed

text \<open>An answer of a store that keeps \<open>obj\<close>: the range asked for, or the whole object, with a size that agrees.\<close>

definition honest_answer :: "byte list \<Rightarrow> chunk_span \<Rightarrow> fetched \<Rightarrow> bool" where
  "honest_answer obj sp got \<longleftrightarrow>
     (ft_status got = 206 \<and> ft_bytes got = window obj (cs_cStart sp) (cs_cEnd sp + 1) \<or> ft_status got = 200 \<and> ft_bytes got = obj)
     \<and> (case stored_total (ft_contentRange got) of None \<Rightarrow> True | Some n \<Rightarrow> n = length obj)"

lemma body_of_honest:
  assumes "gcm_law gcm ungcm" "row_for a prefix P" "span start endExcl (length P) (as_chunk_size a) = Inr sp"
    and "honest_answer (stored_object gcm dek prefix (as_id a) P (as_chunk_size a)) sp got"
  shows "cipher_body a sp got = Inr (window (stored_object gcm dek prefix (as_id a) P (as_chunk_size a)) (cs_cStart sp) (cs_cEnd sp + 1))"
proof -
  let ?obj = "stored_object gcm dek prefix (as_id a) P (as_chunk_size a)"
  have c: "as_ciphertext_size a = length ?obj" using assms(1,2) length_stored [OF assms(1)] by (simp add: row_for_def)
  note w = window_length_stored [OF assms(1,2,3)]
  have len: "length (window ?obj (cs_cStart sp) (cs_cEnd sp + 1)) = cs_cEnd sp + 1 - cs_cStart sp"
    using w(1) by (simp add: window_def c)
  have whole: "window ?obj (cs_cStart sp) (cs_cEnd sp + 1) = ?obj" if "length ?obj = cs_cEnd sp + 1 - cs_cStart sp"
  proof -
    have "cs_cStart sp = 0" using that w unfolding c by linarith
    then show ?thesis using that by (simp add: window_def)
  qed
  show ?thesis using assms(4) len whole
    by (auto simp: honest_answer_def cipher_body_def Let_def c window_def split: option.splits)
qed

lemma open_range_complete:
  assumes "gcm_law gcm ungcm" "row_for a prefix P" "span start endExcl (length P) (as_chunk_size a) = Inr sp"
    and "honest_answer (stored_object gcm dek prefix (as_id a) P (as_chunk_size a)) sp got" "length dek \<in> {16, 24, 32}"
    and hs: "\<And>i. cs_first sp \<le> i \<Longrightarrow> i \<le> cs_last sp \<Longrightarrow> check_hash sha verify hashes i (sealed_of gcm dek prefix a P i) = None"
  obtains r where "open_range sha ungcm verify a dek sp (nat start) (nat endExcl) got hashes = Inr r"
    and "rx_plain r = window P (nat start) (nat endExcl)" "rx_transferred r = length (ft_bytes got)"
proof -
  let ?c = "as_chunk_size a" and ?b = "window (stored_object gcm dek prefix (as_id a) P (as_chunk_size a)) (cs_cStart sp) (cs_cEnd sp + 1)"
  have c: "0 < ?c" using assms(2) by (simp add: row_for_def)
  note sp = span_Inr [OF c assms(3)]
  have r: "nat start < nat endExcl" "nat endExcl \<le> length P" using sp(1,2,3) by linarith+
  have "read_chunks sha ungcm verify hashes a dek (cs_cStart sp) ?b (nat start) (nat endExcl) [cs_first sp..<cs_last sp + 1]
      (replicate (nat endExcl - nat start) 0) = Inr (window P (nat start) (nat endExcl))"
    unfolding sp(4,5)
  proof (rule read_chunks_complete [OF c r(1)])
    fix i assume "nat start div ?c \<le> i" "i \<le> (nat endExcl - 1) div ?c"
    then show "read_chunk sha ungcm verify hashes a dek (cs_cStart sp) ?b (nat start) (nat endExcl) i
        (filled P (nat start) (nat endExcl) (max (nat start) (i * ?c))) = Inr (filled P (nat start) (nat endExcl) (min (nat endExcl) (i * ?c + ?c)))"
      using cut_window [OF assms(1,2,3)] hs sp(4,5) by (intro read_chunk_step [OF assms(1,2) r]) auto
  qed
  then show thesis using that assms(5) body_of_honest [OF assms(1-4)] by (auto simp: open_range_def importDek_def)
qed

text \<open>What a read of \<open>P\<close> meets when every service works: the row, the key, the object and the hashes of its chunks.\<close>

definition honest_world ::
  "(byte list \<Rightarrow> byte list) \<Rightarrow> cipher_fun \<Rightarrow> byte list \<Rightarrow> byte list \<Rightarrow> asset_row \<Rightarrow> byte list \<Rightarrow> string \<Rightarrow> string \<Rightarrow> read_opts \<Rightarrow> read_world \<Rightarrow> bool" where
  "honest_world sha gcm dek prefix a P tid aid opts w \<longleftrightarrow>
     (\<exists>t. resolveTarget (rw_dir w) tid = Inr t \<and> rw_session w t = None
       \<and> (\<forall>sp. \<exists>got. fetchCipher w t a (cs_cStart sp) (cs_cEnd sp) (path_of opts) = Inr got
              \<and> honest_answer (stored_object gcm dek prefix (as_id a) P (as_chunk_size a)) sp got))
     \<and> getAsset aid (rw_assets w) = Inr a \<and> (\<exists>j. key_call (rw_key w) = Inr j \<and> obj_get j ''dek'' = Some (b64 dek))
     \<and> (\<forall>f l. \<exists>rows. rw_hashes w f l = Inr rows \<and>
           (\<forall>i. f \<le> i \<longrightarrow> i \<le> l \<longrightarrow> i < as_chunk_count a \<longrightarrow>
              map_of (rev rows) i = Some (sha256Hex sha (sealed_of gcm dek prefix a P i))))
     \<and> rw_log w = None"

text \<open>Caches that hold nothing else for the asset.\<close>

definition caches_ok :: "reader \<Rightarrow> string \<Rightarrow> asset_row \<Rightarrow> byte list \<Rightarrow> bool" where
  "caches_ok s aid a dek \<longleftrightarrow> rd_assets s aid \<in> {None, Some a} \<and> rd_deks s aid \<in> {None, Some dek}"

lemma honest_row:
  assumes "honest_world sha gcm dek prefix a P tid aid opts w" "caches_ok s aid a dek"
  obtains s1 where "assetOf w s aid = (s1, Inr a)" "caches_ok s1 aid a dek" "rd_cipher s1 = rd_cipher s"
  using assms by (auto simp: honest_world_def caches_ok_def assetOf_def split: option.splits)

lemma honest_dek:
  assumes "honest_world sha gcm dek prefix a P tid aid opts w" "caches_ok s aid a dek"
  obtains deks where "unwrapDek (rd_deks s) aid (rw_key w) = (deks, Inr dek)" "deks aid = Some dek"
  using assms by (auto simp: honest_world_def caches_ok_def unwrapDek_def unb64_b64)

text \<open>A range of an object kept by working services is read, from the caches or without them.\<close>

lemma read_returns:
  assumes "gcm_law gcm ungcm" "row_for a prefix P" "honest_world sha gcm dek prefix a P tid aid opts w" "caches_ok s aid a dek"
    and "as_upload_state a = ''complete''" "length dek \<in> {16, 24, 32}" "\<And>x. sha x \<noteq> []"
    and "0 \<le> start" "start < endExcl" "endExcl \<le> int (length P)"
  obtains s' r where "readRange sha ungcm w s tid aid start endExcl opts = (s', Inr r)"
    and "rx_plain r = window P (nat start) (nat endExcl)" "caches_ok s' aid a dek"
proof -
  obtain s1 where s1: "assetOf w s aid = (s1, Inr a)" "caches_ok s1 aid a dek" using honest_row [OF assms(3,4)] by blast
  obtain deks where deks: "unwrapDek (rd_deks s1) aid (rw_key w) = (deks, Inr dek)" "deks aid = Some dek"
    using honest_dek [OF assms(3) s1(2)] by blast
  obtain sp where sp: "span start endExcl (length P) (as_chunk_size a) = Inr sp" using span_ok [OF assms(8-10)] by blast
  have inside: "cs_last sp < as_chunk_count a" using span_Inr(7) [OF _ sp] assms(2) by (simp add: row_for_def)
  obtain t got where t: "resolveTarget (rw_dir w) tid = Inr t" "rw_session w t = None"
    and got: "fetchCipher w t a (cs_cStart sp) (cs_cEnd sp) (path_of opts) = Inr got"
      "honest_answer (stored_object gcm dek prefix (as_id a) P (as_chunk_size a)) sp got"
    using assms(3) unfolding honest_world_def by blast
  obtain rows where rows: "rw_hashes w (cs_first sp) (cs_last sp) = Inr rows"
    "\<And>i. cs_first sp \<le> i \<Longrightarrow> i \<le> cs_last sp \<Longrightarrow> map_of (rev rows) i = Some (sha256Hex sha (sealed_of gcm dek prefix a P i))"
    using assms(3) inside unfolding honest_world_def by (meson le_less_trans)
  define hashes where "hashes = (if verify_of opts then map_of (rev rows) else Map.empty)"
  have f: "fetch_range w t a sp opts = Inr (got, hashes)"
    by (simp add: fetch_range_def both_def got(1) chunkHashes_def rows(1) hashes_def)
  have ne: "hex (sha x) \<noteq> []" for x using assms(7) [of x] unhex_hex [of "sha x"] by (auto simp: unhex_def)
  have "check_hash sha (verify_of opts) hashes i (sealed_of gcm dek prefix a P i) = None" if "cs_first sp \<le> i" "i \<le> cs_last sp" for i
    using rows(2) [OF that] ne by (cases "verify_of opts") (simp_all add: check_hash_def hashes_def sha256Hex_def)
  then obtain r where r: "open_range sha ungcm (verify_of opts) a dek sp (nat start) (nat endExcl) got hashes = Inr r"
    "rx_plain r = window P (nat start) (nat endExcl)"
    using open_range_complete [OF assms(1,2) sp got(2) assms(6), where sha = sha and verify = "verify_of opts" and hashes = hashes] by blast
  have "rw_log w = None" "as_plaintext_size a = length P" using assms(2,3) by (simp_all add: honest_world_def row_for_def)
  then have "readRange sha ungcm w s tid aid start endExcl opts =
      (s1\<lparr>rd_deks := deks, rd_cipher := rd_cipher s1 @ [ft_bytes got]\<rparr>, Inr r)"
    by (simp add: readRange_def t s1(1) assms(5) deks(1) sp f r(1) finish_read_def Let_def)
  then show thesis using that r(2) s1(2) deks(2) by (auto simp: caches_ok_def)
qed

subsection \<open>Reading the whole asset\<close>

record read_all_result =
  ra_sha256 :: string
  ra_transferred :: nat
  ra_match :: bool
  ra_needleHits :: "nat option"

text \<open>
  The windows from position \<open>p\<close> on; \<open>ws p\<close> are the services while the window at \<open>p\<close> is read. The value \<open>None\<close> is a
  loop that does not end, which a step of zero gives.
\<close>

partial_function (option) read_windows ::
  "(byte list \<Rightarrow> byte list) \<Rightarrow> plain_fun \<Rightarrow> (nat \<Rightarrow> read_world) \<Rightarrow> string \<Rightarrow> string \<Rightarrow> read_opts \<Rightarrow> nat \<Rightarrow> nat \<Rightarrow> nat \<Rightarrow> reader \<Rightarrow> byte list \<Rightarrow> nat
    \<Rightarrow> (reader \<times> (ck_error + byte list \<times> nat)) option" where
  "read_windows sha ungcm ws tid aid opts n step p s plain transferred =
     (if p < n
      then (case readRange sha ungcm (ws p) s tid aid (int p) (int (min n (p + step))) opts of
              (s', Inl e) \<Rightarrow> Some (s', Inl e)
            | (s', Inr r) \<Rightarrow> read_windows sha ungcm ws tid aid opts n step (p + step) s' (plain @ rx_plain r) (transferred + rx_transferred r))
      else Some (s, Inr (plain, transferred)))"

subsubsection \<open>Counting a marker in the ciphertext\<close>

record needle_state =
  nd_tail :: "byte list"
  nd_hits :: nat

definition needle_at :: "byte list \<Rightarrow> byte list \<Rightarrow> nat \<Rightarrow> bool" where
  "needle_at n buf i = (n \<noteq> [] \<and> buf ! i = hd n \<and> i + length n \<le> length buf \<and> take (length n - 1) (drop (i + 1) buf) = tl n)"

definition feed :: "byte list \<Rightarrow> needle_state \<Rightarrow> byte list \<Rightarrow> needle_state" where
  "feed n st u =
     (let buf = nd_tail st @ u
      in \<lparr>nd_tail = drop (length buf + 1 - length n) buf, nd_hits = nd_hits st + length (filter (needle_at n buf) [0..<length buf])\<rparr>)"

definition needle_hits :: "string \<Rightarrow> byte list list \<Rightarrow> nat" where
  "needle_hits needle bodies = nd_hits (foldl (feed (utf8 needle)) \<lparr>nd_tail = [], nd_hits = 0\<rparr> bodies)"

definition unlogged :: "read_opts \<Rightarrow> read_opts" where
  "unlogged opts = opts\<lparr>ro_logAccess := Some False\<rparr>"

definition readAll ::
  "(byte list \<Rightarrow> byte list) \<Rightarrow> plain_fun \<Rightarrow> (nat \<Rightarrow> read_world) \<Rightarrow> reader \<Rightarrow> string \<Rightarrow> string \<Rightarrow> read_opts \<Rightarrow> nat option \<Rightarrow> string option
    \<Rightarrow> (reader \<times> (ck_error + read_all_result)) option" where
  "readAll sha ungcm ws s tid aid opts windowChunks needle =
     (let w = ws 0
      in case resolveTarget (rw_dir w) tid of Inl e \<Rightarrow> Some (s, Inl e)
         | Inr t \<Rightarrow>
        (case rw_session w t of Some e \<Rightarrow> Some (s, Inl e)
         | None \<Rightarrow>
        (case assetOf w s aid of (s1, Inl e) \<Rightarrow> Some (s1, Inl e)
         | (s1, Inr a) \<Rightarrow>
             (let step = (case windowChunks of None \<Rightarrow> 8 | Some k \<Rightarrow> k) * as_chunk_size a
              in case read_windows sha ungcm ws tid aid (unlogged opts) (as_plaintext_size a) step 0 s1 [] 0 of
                   None \<Rightarrow> None
                 | Some (s2, Inl e) \<Rightarrow> Some (s2, Inl e)
                 | Some (s2, Inr (plain, transferred)) \<Rightarrow>
                     Some (s2,
                       case rw_log (ws (as_plaintext_size a)) of Some e \<Rightarrow> Inl e
                       | None \<Rightarrow>
                           if Some (sha256Hex sha plain) \<noteq> as_plaintext_sha256 a
                           then Inl (CkError IntegrityError ''plaintext SHA-256 differs from the catalogue''
                             (Cons (''sha'', Inl (sha256Hex sha plain)) (case as_plaintext_sha256 a of None \<Rightarrow> [] | Some h \<Rightarrow> [(''expected'', Inl h)])))
                           else Inr \<lparr>ra_sha256 = sha256Hex sha plain, ra_transferred = transferred, ra_match = True,
                             ra_needleHits = (if truthy needle then Some (needle_hits (the needle) (drop (length (rd_cipher s1)) (rd_cipher s2))) else None)\<rparr>)))))"

lemma read_windows_returns:
  assumes "gcm_law gcm ungcm" "row_for a prefix P" "\<And>p. honest_world sha gcm dek prefix a P tid aid opts (ws p)"
    and "as_upload_state a = ''complete''" "length dek \<in> {16, 24, 32}" "\<And>x. sha x \<noteq> []" "0 < step"
    and "caches_ok s aid a dek"
  shows "\<exists>s' tr. read_windows sha ungcm ws tid aid opts (length P) step p s (take p P) moved = Some (s', Inr (P, tr))"
  using assms(8)
proof (induction "length P - p" arbitrary: p s moved rule: less_induct)
  case less
  show ?case
  proof (cases "p < length P")
    case True
    let ?e = "min (length P) (p + step)"
    obtain s' r where r: "readRange sha ungcm (ws p) s tid aid (int p) (int ?e) opts = (s', Inr r)"
      "rx_plain r = window P (nat (int p)) (nat (int ?e))" "caches_ok s' aid a dek"
      using read_returns [OF assms(1,2) assms(3) less.prems assms(4-6), of "int p" "int ?e"] True assms(7) by auto
    have "take p P @ rx_plain r = take (p + step) P" using True by (auto simp: r(2) window_def take_add min_def)
    then show ?thesis using less.hyps [of "p + step" s' "moved + rx_transferred r"] r(1,3) True assms(7)
      by (subst read_windows.simps) simp
  next
    case False
    then show ?thesis by (subst read_windows.simps) simp
  qed
qed

text \<open>A full read in windows of any positive number of chunks returns when the services work: the windows make up
  the whole plaintext, so its digest is the one the catalogue recorded, and an asset of no bytes is read too.
\<close>

lemma readAll_exact:
  assumes "gcm_law gcm ungcm" "row_for a prefix P" "\<And>p. honest_world sha gcm dek prefix a P tid aid (unlogged opts) (ws p)"
    and "as_upload_state a = ''complete''" "length dek \<in> {16, 24, 32}" "\<And>x. sha x \<noteq> []" "windowChunks \<noteq> Some 0"
    and "caches_ok s aid a dek" "as_plaintext_sha256 a = Some (sha256Hex sha P)"
  shows "\<exists>s' res. readAll sha ungcm ws s tid aid opts windowChunks needle = Some (s', Inr res)
    \<and> ra_sha256 res = sha256Hex sha P \<and> ra_match res"
proof -
  obtain s1 where s1: "assetOf (ws 0) s aid = (s1, Inr a)" "caches_ok s1 aid a dek" using honest_row [OF assms(3,8)] by blast
  obtain t where t: "resolveTarget (rw_dir (ws 0)) tid = Inr t" "rw_session (ws 0) t = None"
    using assms(3) [of 0] unfolding honest_world_def by blast
  let ?step = "(case windowChunks of None \<Rightarrow> 8 | Some k \<Rightarrow> k) * as_chunk_size a"
  have "0 < ?step" using assms(2,7) by (auto simp: row_for_def split: option.splits)
  from read_windows_returns [where ws = ws and p = 0 and moved = 0, OF assms(1,2,3,4-6) this s1(2)]
  obtain s2 tr where "read_windows sha ungcm ws tid aid (unlogged opts) (length P) ?step 0 s1 [] 0 = Some (s2, Inr (P, tr))" by auto
  moreover have "as_plaintext_size a = length P" "rw_log (ws (length P)) = None"
    using assms(2) assms(3) [of "length P"] by (simp_all add: row_for_def honest_world_def)
  ultimately show ?thesis by (simp add: readAll_def Let_def t s1(1) assms(9))
qed

definition demo_hash :: "byte list \<Rightarrow> byte list" where
  "demo_hash u = 1 # u"

definition demo_all_row :: asset_row where
  "demo_all_row = demo_row\<lparr>as_plaintext_sha256 := Some (sha256Hex demo_hash demo_plain)\<rparr>"

definition demo_store :: read_world where
  "demo_store = demo_world\<lparr>rw_assets := Inr [demo_all_row], rw_key := Key_Answer 200 [(''dek'', b64 demo_dek)],
     rw_s3 := (\<lambda>_ _. S3_Object (Some (stored_object toy_gcm demo_dek demo_prefix ''a'' demo_plain 2)) (Some 200) None),
     rw_hashes := (\<lambda>f l. Inr (map (\<lambda>i. (i, sha256Hex demo_hash (sealed_of toy_gcm demo_dek demo_prefix demo_all_row demo_plain i))) [f..<l + 1]))\<rparr>"

lemma demo_store_honest: "honest_world demo_hash toy_gcm demo_dek demo_prefix demo_all_row demo_plain ''t'' ''a'' (unlogged demo_opts) demo_store"
  by (auto simp: honest_world_def demo_store_def demo_world_def resolveTarget_def getAsset_def key_call_def fetchCipher_def path_of_def
      unlogged_def demo_opts_def s3_fetch_def honest_answer_def stored_total_def demo_all_row_def demo_row_def Let_def
      rev_map map_of_map_restrict restrict_map_def)

subsection \<open>A marker is counted across windows\<close>

text \<open>The places at which \<open>n\<close> occurs in the whole stream.\<close>

definition occurrences :: "byte list \<Rightarrow> byte list \<Rightarrow> nat" where
  "occurrences n s = card {i. i + length n \<le> length s \<and> take (length n) (drop i s) = n}"

lemma needle_at_iff:
  assumes "n \<noteq> []"
  shows "needle_at n buf i \<longleftrightarrow> i + length n \<le> length buf \<and> take (length n) (drop i buf) = n"
proof (cases "i + length n \<le> length buf")
  case True
  then have "i < length buf" using assms by (cases n) auto
  then have "drop i buf = buf ! i # drop (i + 1) buf" by (simp add: Cons_nth_drop_Suc)
  then show ?thesis using True assms by (cases n) (auto simp: needle_at_def)
qed (simp add: needle_at_def)

lemma hits_occurrences:
  assumes "n \<noteq> []"
  shows "length (filter (needle_at n buf) [0..<length buf]) = occurrences n buf"
proof -
  have "0 < length n" using assms by simp
  then have inside: "i < length buf" if "i + length n \<le> length buf" for i using that by linarith
  have "{i. i < length buf \<and> needle_at n buf i} = {i. i + length n \<le> length buf \<and> take (length n) (drop i buf) = n}"
    using inside by (auto simp: needle_at_iff [OF assms])
  moreover have "length (filter (needle_at n buf) [0..<length buf]) = card {i. i < length buf \<and> needle_at n buf i}"
    by (simp add: length_filter_conv_card cong: conj_cong)
  ultimately show ?thesis by (simp add: occurrences_def)
qed

lemma drop_tail: "0 < m \<Longrightarrow> drop (length s + 1 - m) (s @ u) = drop (length s + 1 - m) s @ u"
proof -
  assume "0 < m"
  then have "length s + 1 - m - length s = 0" by simp
  then show ?thesis by (simp only: drop_append drop_0)
qed

lemma tail_step:
  fixes s :: "'a list"
  assumes "0 < m"
  defines "t \<equiv> drop (length s + 1 - m) s"
  shows "drop (length (t @ u) + 1 - m) (t @ u) = drop (length (s @ u) + 1 - m) (s @ u)"
proof -
  have "t @ u = drop (length s + 1 - m) (s @ u)" unfolding t_def by (rule drop_tail [OF assms(1), symmetric])
  moreover have "length (t @ u) + 1 - m + (length s + 1 - m) = length (s @ u) + 1 - m" using assms(1) by (auto simp: t_def)
  ultimately show ?thesis by (metis drop_drop)
qed

lemma occurrences_append:
  assumes "n \<noteq> []"
  shows "occurrences n (s @ u) = occurrences n s + occurrences n (drop (length s + 1 - length n) s @ u)"
proof -
  let ?k = "length s + 1 - length n" and ?occ = "\<lambda>s. {i. i + length n \<le> length s \<and> take (length n) (drop i s) = n}"
  have pos: "0 < length n" using assms by simp
  have fin: "finite (?occ t)" for t :: "byte list" by (rule finite_subset [of _ "{..length t}"]) auto
  have drop: "drop ?k (s @ u) = drop ?k s @ u" by (rule drop_tail [OF pos])
  have un: "?occ (s @ u) = ?occ s \<union> (\<lambda>j. ?k + j) ` ?occ (drop ?k s @ u)"
  proof (rule set_eqI)
    fix i
    show "i \<in> ?occ (s @ u) \<longleftrightarrow> i \<in> ?occ s \<union> (\<lambda>j. ?k + j) ` ?occ (drop ?k s @ u)"
    proof (cases "i + length n \<le> length s")
      case True
      then have "i < ?k" by linarith
      then show ?thesis using True by auto
    next
      case False
      then have i: "?k \<le> i" by linarith
      then have "drop i (s @ u) = drop (i - ?k) (drop ?k (s @ u))" by (simp del: drop_append)
      then have d: "drop i (s @ u) = drop (i - ?k) (drop ?k s @ u)" by (simp only: drop)
      have img: "i \<in> (\<lambda>j. ?k + j) ` A \<longleftrightarrow> i - ?k \<in> A" for A using i by (auto simp: image_iff intro: bexI [of _ "i - ?k"])
      have "length (drop ?k s @ u) = length s - ?k + length u" by simp
      then have len: "i + length n \<le> length (s @ u) \<longleftrightarrow> i - ?k + length n \<le> length (drop ?k s @ u)"
        using i pos by (simp only: length_append) linarith
      show ?thesis by (simp only: Un_iff img mem_Collect_eq len d False simp_thms)
    qed
  qed
  have dj: "?occ s \<inter> (\<lambda>j. ?k + j) ` ?occ (drop ?k s @ u) = {}" using pos by auto
  have "card (?occ (s @ u)) = card (?occ s) + card ((\<lambda>j. ?k + j) ` ?occ (drop ?k s @ u))"
    unfolding un by (rule card_Un_disjoint [OF fin finite_imageI [OF fin] dj])
  moreover have "card ((\<lambda>j. ?k + j) ` A) = card A" for A by (rule card_image) (simp add: inj_on_def)
  ultimately show ?thesis by (simp only: occurrences_def)
qed

lemma feed_parts:
  "n \<noteq> [] \<Longrightarrow> feed n \<lparr>nd_tail = t, nd_hits = h\<rparr> u =
     \<lparr>nd_tail = drop (length (t @ u) + 1 - length n) (t @ u), nd_hits = h + occurrences n (t @ u)\<rparr>"
  using hits_occurrences [of n "t @ u"] by (simp add: feed_def Let_def)

text \<open>
  The counter over the bodies of a full read counts every occurrence of the marker in the ciphertext exactly
  once, those that straddle two bodies included.
\<close>

lemma needle_exact:
  assumes "needle \<noteq> []"
  shows "needle_hits needle bodies = occurrences (utf8 needle) (concat bodies)"
proof -
  let ?n = "utf8 needle"
  have n: "?n \<noteq> []" using assms utf8_inj [of needle "[]"] by (auto simp: utf8_def)
  have "foldl (feed ?n) \<lparr>nd_tail = [], nd_hits = 0\<rparr> bodies =
      \<lparr>nd_tail = drop (length (concat bodies) + 1 - length ?n) (concat bodies), nd_hits = occurrences ?n (concat bodies)\<rparr>"
  proof (induction bodies rule: rev_induct)
    case Nil
    then show ?case using n by (simp add: occurrences_def)
  next
    case (snoc u bodies)
    have "0 < length ?n" using n by simp
    note step = tail_step [OF this, of "concat bodies" u]
    have "occurrences ?n (concat (bodies @ [u])) = occurrences ?n (concat bodies)
        + occurrences ?n (drop (length (concat bodies) + 1 - length ?n) (concat bodies) @ u)"
      using occurrences_append [OF n, of "concat bodies" u] by simp
    then show ?case using step
      by (simp only: foldl_append foldl.simps snoc feed_parts [OF n] concat_append concat.simps append_Nil2)
  qed
  then show ?thesis by (simp add: needle_hits_def)
qed

end
