(* ===== verification/Keyed_Upload.thy ===== *)
theory Keyed_Upload
  imports Ranged_Read "HOL-Library.AList"
begin

text \<open>
  Uploads of the client-keyed-objects client (\<open>client/src/upload.ts\<close>): creation of the asset, encryption of a range of
  chunks, the S3 multipart transport with its resumption, and the ciphertext source of the TUS transport. What
  reaches a service is recorded as a list of effects, in order; what the services answer is an \<open>upload_world\<close>.
  The random key, prefix and id of a new asset are arguments, the source file is the list of its bytes.
\<close>

datatype upload_effect =
  Insert_Row asset_row
  | Create_Upload
  | Patch_Upload_Id string
  | Upsert_Chunks "(nat \<times> string) list"
  | Upload_Part nat "byte list"
  | Complete_Upload "(nat \<times> string) list"
  | Patch_Complete string

type_synonym effects = "upload_effect list"

text \<open>The outcome of a step: the effects so far and its result or the error thrown.\<close>

type_synonym 'a effectful = "effects \<times> (ck_error + 'a)"

record parts_page =
  pp_parts :: "(nat option \<times> string option) list"
  pp_truncated :: bool
  pp_next :: "string option"

record upload_world =
  uw_wrap :: key_answer
  uw_insert :: "ck_error option"
  uw_create :: "ck_error + string option"
  uw_patchId :: "ck_error option"
  uw_upsert :: "nat \<Rightarrow> ck_error option"
  uw_put :: "nat \<Rightarrow> ck_error + string option"
  uw_pages :: "string option \<Rightarrow> ck_error + parts_page"
  uw_complete :: "ck_error option"
  uw_patchComplete :: "ck_error option"
  uw_rowCount :: "ck_error + nat"

definition objectKey :: "string \<Rightarrow> string \<Rightarrow> string" where
  "objectKey tenant asset = tenant @ ''/'' @ asset @ ''/data''"

text \<open>\<open>plaintextSha\<close> feeds the digest 64 MiB at a time.\<close>

definition SHA_STEP :: nat where
  "SHA_STEP = 64 * 1024 * 1024"

definition plaintextSha :: "(byte list \<Rightarrow> byte list) \<Rightarrow> byte list \<Rightarrow> string" where
  "plaintextSha sha src =
     sha256Hex sha (concat (map (\<lambda>k. window src (k * SHA_STEP) (min (length src) (k * SHA_STEP + SHA_STEP))) [0..<ceil_div (length src) SHA_STEP]))"

subsection \<open>A new asset\<close>

definition upload_row :: "string \<Rightarrow> string \<Rightarrow> string \<Rightarrow> byte list \<Rightarrow> byte list \<Rightarrow> string \<Rightarrow> string option \<times> string option \<Rightarrow> asset_row" where
  "upload_row assetId recordId tenantId src prefix method wrapped =
     \<lparr>as_id = assetId, as_record_id = recordId, as_tenant_id = tenantId, as_object_key = objectKey tenantId assetId,
      as_plaintext_size = length src, as_chunk_size = CHUNK, as_chunk_count = chunkCount (length src) CHUNK,
      as_ciphertext_size = cipherSize (length src) CHUNK, as_cipher = ''aes-256-gcm'', as_key_id = snd wrapped, as_wrapped_dek = fst wrapped,
      as_nonce_prefix = hex prefix, as_plaintext_sha256 = None, as_upload_state = ''uploading'', as_upload_method = Some method,
      as_s3_upload_id = None, as_tus_url = None\<rparr>"

definition createAsset ::
  "upload_world \<Rightarrow> string \<Rightarrow> string \<Rightarrow> string \<Rightarrow> byte list \<Rightarrow> byte list \<Rightarrow> string \<Rightarrow> asset_row effectful" where
  "createAsset w assetId recordId tenantId src prefix method =
     (case wrapDek (uw_wrap w) of Inl e \<Rightarrow> ([], Inl e)
      | Inr wrapped \<Rightarrow>
          (let row = upload_row assetId recordId tenantId src prefix method wrapped
           in ([Insert_Row row], case uw_insert w of Some e \<Rightarrow> Inl e | None \<Rightarrow> Inr row)))"

subsection \<open>Ciphertext of a range of chunks\<close>

fun all_right :: "('e + 'a) list \<Rightarrow> 'e + 'a list" where
  "all_right [] = Inr []"
| "all_right (x # xs) = (case x of Inl e \<Rightarrow> Inl e | Inr v \<Rightarrow> (case all_right xs of Inl e \<Rightarrow> Inl e | Inr vs \<Rightarrow> Inr (v # vs)))"

definition encryptRange ::
  "cipher_fun \<Rightarrow> (byte list \<Rightarrow> byte list) \<Rightarrow> byte list \<Rightarrow> asset_row \<Rightarrow> byte list \<Rightarrow> nat \<Rightarrow> nat \<Rightarrow> ck_error + byte list \<times> (nat \<times> string) list" where
  "encryptRange gcm sha key a src first la =
     (let prefix = unhex (as_nonce_prefix a); c = as_chunk_size a;
          plain = window src (first * c) (min (as_plaintext_size a) ((la + 1) * c))
      in case all_right (map (\<lambda>i. encryptChunk gcm key prefix (as_id a) i (as_chunk_count a)
                (take (plainLen i (as_plaintext_size a) c) (drop ((i - first) * c) plain))) [first..<la + 1]) of
           Inl e \<Rightarrow> Inl e
         | Inr cts \<Rightarrow> Inr (concat cts, zip [first..<la + 1] (map (sha256Hex sha) cts)))"

subsection \<open>The S3 transport\<close>

partial_function (option) list_pages ::
  "(string option \<Rightarrow> ck_error + parts_page) \<Rightarrow> string option \<Rightarrow> (nat \<times> string) list \<Rightarrow> (ck_error + (nat \<times> string) list) option" where
  "list_pages pages marker acc =
     (case pages marker of Inl e \<Rightarrow> Some (Inl e)
      | Inr pg \<Rightarrow>
          (let acc' = foldl (\<lambda>m (pn, e). if pn \<notin> {None, Some 0} \<and> truthy e then AList.update (the pn) (the e) m else m) acc (pp_parts pg)
           in if \<not> pp_truncated pg \<or> \<not> truthy (pp_next pg) then Some (Inr acc') else list_pages pages (pp_next pg) acc'))"

definition listParts :: "upload_world \<Rightarrow> (ck_error + (nat \<times> string) list) option" where
  "listParts w = list_pages (uw_pages w) None []"

record parts_state =
  pt_etags :: "(nat \<times> string option) list"
  pt_skipped :: nat
  pt_match :: nat
  pt_mismatch :: nat

definition strip_quotes :: "string \<Rightarrow> string" where
  "strip_quotes s = filter (\<lambda>c. c \<noteq> CHR 0x22) s"

text \<open>One part: derive it, record its hashes, then skip it or send it.\<close>

definition part_step ::
  "cipher_fun \<Rightarrow> (byte list \<Rightarrow> byte list) \<Rightarrow> (byte list \<Rightarrow> string) option \<Rightarrow> upload_world \<Rightarrow> byte list \<Rightarrow> asset_row \<Rightarrow> byte list \<Rightarrow> nat
    \<Rightarrow> (nat \<rightharpoonup> string) \<Rightarrow> nat \<Rightarrow> parts_state \<Rightarrow> parts_state effectful" where
  "part_step gcm sha md5 w key a src partChunks uploaded p st =
     (let first = p * partChunks; la = min (as_chunk_count a - 1) (first + partChunks - 1); pn = p + 1
      in case encryptRange gcm sha key a src first la of Inl e \<Rightarrow> ([], Inl e)
         | Inr (bytes, hashes) \<Rightarrow>
             (case uw_upsert w pn of Some e \<Rightarrow> ([Upsert_Chunks hashes], Inl e)
              | None \<Rightarrow>
                  (case uploaded pn of
                     Some prior \<Rightarrow>
                       ([Upsert_Chunks hashes],
                        Inr (st\<lparr>pt_skipped := pt_skipped st + 1,
                          pt_match := pt_match st + (case md5 of None \<Rightarrow> 0 | Some f \<Rightarrow> if strip_quotes prior = f bytes then 1 else 0),
                          pt_mismatch := pt_mismatch st + (case md5 of None \<Rightarrow> 0 | Some f \<Rightarrow> if strip_quotes prior = f bytes then 0 else 1),
                          pt_etags := AList.update pn (Some prior) (pt_etags st)\<rparr>))
                   | None \<Rightarrow>
                       ([Upsert_Chunks hashes, Upload_Part pn bytes],
                        case uw_put w pn of Inl e \<Rightarrow> Inl e | Inr tag \<Rightarrow> Inr (st\<lparr>pt_etags := AList.update pn tag (pt_etags st)\<rparr>)))))"

fun part_loop :: "(nat \<Rightarrow> 's \<Rightarrow> 's effectful) \<Rightarrow> nat list \<Rightarrow> 's \<Rightarrow> 's effectful" where
  "part_loop f [] st = ([], Inr st)"
| "part_loop f (p # ps) st =
     (case f p st of (es, Inl e) \<Rightarrow> (es, Inl e) | (es, Inr st') \<Rightarrow> (let (es', r) = part_loop f ps st' in (es @ es', r)))"

record parts_result =
  pr_parts :: nat
  pr_skipped :: nat
  pr_match :: nat
  pr_mismatch :: nat
  pr_etagSource :: string

definition no_tag :: "string option \<Rightarrow> bool" where
  "no_tag e = (\<not> truthy e)"

text \<open>The tags of the parts, completed from \<open>ListParts\<close> when the client could not read some.\<close>

definition all_tags :: "upload_world \<Rightarrow> (nat \<times> string option) list \<Rightarrow> (ck_error + (nat \<times> string option) list \<times> string) option" where
  "all_tags w etags =
     (if list_ex (\<lambda>(_, e). no_tag e) etags
      then case listParts w of None \<Rightarrow> None | Some (Inl e) \<Rightarrow> Some (Inl e)
           | Some (Inr listed) \<Rightarrow>
               Some (Inr (foldl (\<lambda>m (pn, e). if no_tag (Option.bind (map_of m pn) (\<lambda>x. x)) then AList.update pn (Some e) m else m) etags listed, ''list-parts''))
      else Some (Inr (etags, ''upload-part-header'')))"

definition runParts ::
  "cipher_fun \<Rightarrow> (byte list \<Rightarrow> byte list) \<Rightarrow> (byte list \<Rightarrow> string) option \<Rightarrow> upload_world \<Rightarrow> asset_row \<Rightarrow> byte list \<Rightarrow> byte list \<Rightarrow> nat
    \<Rightarrow> (nat \<rightharpoonup> string) \<Rightarrow> parts_result effectful option" where
  "runParts gcm sha md5 w a dek src partChunks uploaded =
     (case importDek dek of Inl e \<Rightarrow> Some ([], Inl e)
      | Inr key \<Rightarrow>
          (let partCount = ceil_div (as_chunk_count a) partChunks;
               (es, r) = part_loop (part_step gcm sha md5 w key a src partChunks uploaded) [0..<partCount]
                 \<lparr>pt_etags = [], pt_skipped = 0, pt_match = 0, pt_mismatch = 0\<rparr>
           in case r of Inl e \<Rightarrow> Some (es, Inl e)
              | Inr st \<Rightarrow>
                  (case all_tags w (pt_etags st) of None \<Rightarrow> None | Some (Inl e) \<Rightarrow> Some (es, Inl e)
                   | Some (Inr (etags, source)) \<Rightarrow>
                       (let parts = sort_key fst etags
                        in if list_ex (\<lambda>(_, e). no_tag e) parts
                           then Some (es, Inl (CkError StorageError ''no ETag for some parts, even from ListParts'' []))
                           else Some (es @ [Complete_Upload (map (\<lambda>(pn, e). (pn, the e)) parts)],
                                  case uw_complete w of Some e \<Rightarrow> Inl e
                                  | None \<Rightarrow> Inr \<lparr>pr_parts = partCount, pr_skipped = pt_skipped st, pr_match = pt_match st,
                                      pr_mismatch = pt_mismatch st, pr_etagSource = source\<rparr>)))))"

record upload_result =
  ur_assetId :: string
  ur_objectKey :: string
  ur_sha256 :: string
  ur_ciphertextSize :: nat
  ur_parts :: parts_result
  ur_chunkRows :: nat

definition finish_upload :: "(byte list \<Rightarrow> byte list) \<Rightarrow> upload_world \<Rightarrow> asset_row \<Rightarrow> byte list \<Rightarrow> parts_result \<Rightarrow> upload_result effectful" where
  "finish_upload sha w a src extra =
     (let h = plaintextSha sha src
      in ([Patch_Complete h],
          case uw_patchComplete w of Some e \<Rightarrow> Inl e
          | None \<Rightarrow> (case uw_rowCount w of Inl e \<Rightarrow> Inl e
                    | Inr n \<Rightarrow> Inr \<lparr>ur_assetId = as_id a, ur_objectKey = as_object_key a, ur_sha256 = h, ur_ciphertextSize = as_ciphertext_size a,
                        ur_parts = extra, ur_chunkRows = n\<rparr>)))"

text \<open>One step after another; the effects add up.\<close>

definition and_then :: "'a effectful option \<Rightarrow> ('a \<Rightarrow> 'b effectful option) \<Rightarrow> 'b effectful option" where
  "and_then x f =
     (case x of None \<Rightarrow> None | Some (es, Inl e) \<Rightarrow> Some (es, Inl e)
      | Some (es, Inr v) \<Rightarrow> (case f v of None \<Rightarrow> None | Some (es', r) \<Rightarrow> Some (es @ es', r)))"

definition start_multipart :: "upload_world \<Rightarrow> asset_row \<Rightarrow> asset_row effectful" where
  "start_multipart w row =
     (case uw_create w of Inl e \<Rightarrow> ([Create_Upload], Inl e)
      | Inr uid \<Rightarrow>
          if \<not> truthy uid then ([Create_Upload], Inl (CkError StorageError ''CreateMultipartUpload returned no UploadId'' []))
          else ([Create_Upload, Patch_Upload_Id (the uid)],
                case uw_patchId w of Some e \<Rightarrow> Inl e | None \<Rightarrow> Inr (row\<lparr>as_s3_upload_id := uid\<rparr>)))"

text \<open>\<open>upload\<close> with the method \<open>s3-multipart\<close>.\<close>

definition upload_s3 ::
  "cipher_fun \<Rightarrow> (byte list \<Rightarrow> byte list) \<Rightarrow> (byte list \<Rightarrow> string) option \<Rightarrow> upload_world \<Rightarrow> string \<Rightarrow> string \<Rightarrow> string \<Rightarrow> byte list \<Rightarrow> byte list
    \<Rightarrow> byte list \<Rightarrow> nat option \<Rightarrow> upload_result effectful option" where
  "upload_s3 gcm sha md5 w assetId recordId tenantId src dek prefix partChunks =
     and_then (Some (createAsset w assetId recordId tenantId src prefix ''s3-multipart''))
       (\<lambda>row0. and_then (Some (start_multipart w row0))
         (\<lambda>row. and_then (runParts gcm sha md5 w row dek src (case partChunks of None \<Rightarrow> 8 | Some k \<Rightarrow> k) Map.empty)
           (\<lambda>r. Some (finish_upload sha w row src r))))"

text \<open>\<open>resume\<close> of an S3 upload: the row as the catalogue has it, the key unwrapped.\<close>

definition resume_s3 ::
  "cipher_fun \<Rightarrow> (byte list \<Rightarrow> byte list) \<Rightarrow> (byte list \<Rightarrow> string) option \<Rightarrow> upload_world \<Rightarrow> ck_error + asset_row \<Rightarrow> (string \<rightharpoonup> byte list) \<Rightarrow> key_answer
    \<Rightarrow> string \<Rightarrow> byte list \<Rightarrow> nat option \<Rightarrow> upload_result effectful option" where
  "resume_s3 gcm sha md5 w row deks key_answer assetId src partChunks =
     (case row of Inl e \<Rightarrow> Some ([], Inl e)
      | Inr a \<Rightarrow>
          if as_plaintext_size a \<noteq> length src then Some ([], Inl (CkError IntegrityError ''source size differs from the catalogue'' []))
          else case snd (unwrapDek deks assetId key_answer) of Inl e \<Rightarrow> Some ([], Inl e)
               | Inr dek \<Rightarrow>
                   (case listParts w of None \<Rightarrow> None | Some (Inl e) \<Rightarrow> Some ([], Inl e)
                    | Some (Inr uploaded) \<Rightarrow>
                        and_then (runParts gcm sha md5 w a dek src (case partChunks of None \<Rightarrow> 8 | Some k \<Rightarrow> k) (map_of uploaded))
                          (\<lambda>r. Some (finish_upload sha w a src r))))"

subsection \<open>The TUS transport's source\<close>

record cipher_source =
  cz_cache :: "nat \<rightharpoonup> byte list"
  cz_effects :: effects

definition source_chunk ::
  "cipher_fun \<Rightarrow> (byte list \<Rightarrow> byte list) \<Rightarrow> (nat \<Rightarrow> ck_error option) \<Rightarrow> byte list \<Rightarrow> asset_row \<Rightarrow> byte list \<Rightarrow> nat \<Rightarrow> cipher_source
    \<Rightarrow> cipher_source \<times> (ck_error + byte list)" where
  "source_chunk gcm sha upsert key a src i s =
     (case cz_cache s i of Some b \<Rightarrow> (s, Inr b)
      | None \<Rightarrow>
          (case encryptRange gcm sha key a src i i of Inl e \<Rightarrow> (s, Inl e)
           | Inr (bytes, hashes) \<Rightarrow>
               (let s' = s\<lparr>cz_effects := cz_effects s @ [Upsert_Chunks hashes]\<rparr>
                in case upsert i of Some e \<Rightarrow> (s', Inl e)
                   | None \<Rightarrow> (s'\<lparr>cz_cache := (\<lambda>k. if k + 1 < i then None else ((cz_cache s)(i \<mapsto> bytes)) k)\<rparr>, Inr bytes))))"

partial_function (option) slice_loop ::
  "cipher_fun \<Rightarrow> (byte list \<Rightarrow> byte list) \<Rightarrow> (nat \<Rightarrow> ck_error option) \<Rightarrow> byte list \<Rightarrow> asset_row \<Rightarrow> byte list \<Rightarrow> nat \<Rightarrow> nat \<Rightarrow> nat \<Rightarrow> byte list
    \<Rightarrow> cipher_source \<Rightarrow> (cipher_source \<times> (ck_error + byte list)) option" where
  "slice_loop gcm sha upsert key a src start fin pos buf s =
     (if pos < fin
      then (let i = pos div (as_chunk_size a + 16)
            in case source_chunk gcm sha upsert key a src i s of (s', Inl e) \<Rightarrow> Some (s', Inl e)
               | (s', Inr c) \<Rightarrow>
                   (let off = pos - cipherOffset i (as_chunk_size a); n = min (length c - off) (fin - pos)
                    in case set_at buf (pos - start) (take n (drop off c)) of Inl e \<Rightarrow> Some (s', Inl e)
                       | Inr buf' \<Rightarrow> slice_loop gcm sha upsert key a src start fin (pos + n) buf' s'))
      else Some (s, Inr buf))"

text \<open>The bytes and whether they reach the end.\<close>

definition source_slice ::
  "cipher_fun \<Rightarrow> (byte list \<Rightarrow> byte list) \<Rightarrow> (nat \<Rightarrow> ck_error option) \<Rightarrow> byte list \<Rightarrow> asset_row \<Rightarrow> byte list \<Rightarrow> nat \<Rightarrow> nat \<Rightarrow> cipher_source
    \<Rightarrow> (cipher_source \<times> (ck_error + byte list \<times> bool)) option" where
  "source_slice gcm sha upsert key a src start fin s =
     (let e = min fin (as_ciphertext_size a)
      in map_option (\<lambda>(s', r). (s', map_sum id (\<lambda>b. (b, as_ciphertext_size a \<le> e)) r))
           (slice_loop gcm sha upsert key a src start e start (replicate (e - start) 0) s))"

subsection \<open>Both transports send the same object\<close>

lemma all_right_Inr: "all_right (map (\<lambda>x. Inr (f x)) xs) = Inr (map f xs)"
  by (induction xs) auto

lemma chunk_of_range:
  assumes "0 < c" "first \<le> i" "i \<le> la"
  shows "take (plainLen i (length P) c) (drop ((i - first) * c) (window P (first * c) (min (length P) ((la + 1) * c)))) = chunk_of P c i"
proof -
  have f: "(i - first) * c + first * c = i * c" using assms(2) by (simp add: diff_mult_distrib)
  have "i * c + c \<le> (la + 1) * c" using assms(3) by (metis Suc_eq_plus1 add.commute mult_Suc mult_le_mono1 Suc_le_mono)
  then have "min (plainLen i (length P) c) (min (length P) ((la + 1) * c) - i * c) = plainLen i (length P) c"
    unfolding plainLen_def by linarith
  moreover have "min (length P) ((la + 1) * c) - first * c - (i - first) * c = min (length P) ((la + 1) * c) - i * c"
    unfolding diff_diff_left using f by (metis add.commute)
  ultimately have m: "min (plainLen i (length P) c) (min (length P) ((la + 1) * c) - first * c - (i - first) * c) = plainLen i (length P) c"
    by (simp only:)
  have "take (plainLen i (length P) c) (drop ((i - first) * c) (window P (first * c) (min (length P) ((la + 1) * c)))) =
      take (plainLen i (length P) c) (drop (i * c) P)"
    unfolding window_def drop_take drop_drop f take_take m ..
  then show ?thesis by (simp add: chunk_of_def plainLen_def min_def)
qed

lemma encryptRange_sealed:
  assumes "row_for a prefix src"
  shows "encryptRange gcm sha key a src first la =
    Inr (concat (map (sealed_of gcm key prefix a src) [first..<la + 1]),
         map (\<lambda>i. (i, sha256Hex sha (sealed_of gcm key prefix a src i))) [first..<la + 1])"
proof -
  let ?c = "as_chunk_size a"
  have r: "0 < ?c" "as_plaintext_size a = length src" "as_chunk_count a = chunkCount (length src) ?c" "as_nonce_prefix a = hex prefix" "length prefix = 8"
    using assms by (simp_all add: row_for_def)
  have eq: "map (\<lambda>i. encryptChunk gcm key prefix (as_id a) i (chunkCount (length src) ?c)
        (take (plainLen i (length src) ?c) (drop ((i - first) * ?c) (window src (first * ?c) (min (length src) ((la + 1) * ?c)))))) [first..<la + 1] =
      map (\<lambda>i. Inr (sealed_of gcm key prefix a src i)) [first..<la + 1]"
    using chunk_of_range [OF r(1), of first _ la src] r(5) by (intro map_cong) (auto simp: encryptChunk_def nonce_def sealed_def)
  have z: "zip xs (map f (map g xs)) = map (\<lambda>i. (i, f (g i))) xs" for f :: "byte list \<Rightarrow> string" and g and xs :: "nat list"
    by (induction xs) auto
  show ?thesis unfolding encryptRange_def Let_def r(2-4) unhex_hex eq all_right_Inr by (simp only: sum.case z)
qed

text \<open>A source whose cache holds only sealed chunks, each with its hash in the catalogue.\<close>

definition hashed :: "(nat \<Rightarrow> string) \<Rightarrow> effects \<Rightarrow> nat \<Rightarrow> bool" where
  "hashed h es i \<longleftrightarrow> (\<exists>hs. Upsert_Chunks hs \<in> set es \<and> (i, h i) \<in> set hs)"

definition source_ok :: "(nat \<Rightarrow> byte list) \<Rightarrow> (nat \<Rightarrow> string) \<Rightarrow> cipher_source \<Rightarrow> bool" where
  "source_ok chunk h s \<longleftrightarrow> (\<forall>i b. cz_cache s i = Some b \<longrightarrow> b = chunk i \<and> hashed h (cz_effects s) i)"

abbreviation hash_of :: "cipher_fun \<Rightarrow> (byte list \<Rightarrow> byte list) \<Rightarrow> byte list \<Rightarrow> byte list \<Rightarrow> asset_row \<Rightarrow> byte list \<Rightarrow> nat \<Rightarrow> string" where
  "hash_of gcm sha key prefix a src i \<equiv> sha256Hex sha (sealed_of gcm key prefix a src i)"

lemma source_chunk_ok:
  assumes "row_for a prefix src" "\<And>i. upsert i = None"
    and "source_ok (sealed_of gcm key prefix a src) (hash_of gcm sha key prefix a src) s"
  obtains s' where "source_chunk gcm sha upsert key a src i s = (s', Inr (sealed_of gcm key prefix a src i))"
    and "source_ok (sealed_of gcm key prefix a src) (hash_of gcm sha key prefix a src) s'"
    and "hashed (hash_of gcm sha key prefix a src) (cz_effects s') i" "set (cz_effects s) \<subseteq> set (cz_effects s')"
proof (cases "cz_cache s i")
  case None
  let ?b = "sealed_of gcm key prefix a src i" and ?h = "hash_of gcm sha key prefix a src"
  let ?s = "s\<lparr>cz_effects := cz_effects s @ [Upsert_Chunks [(i, ?h i)]], cz_cache := (\<lambda>k. if k + 1 < i then None else ((cz_cache s)(i \<mapsto> ?b)) k)\<rparr>"
  have "source_chunk gcm sha upsert key a src i s = (?s, Inr ?b)"
    by (simp add: source_chunk_def None encryptRange_sealed [OF assms(1)] assms(2))
  moreover have "source_ok (sealed_of gcm key prefix a src) ?h ?s" using assms(3) unfolding source_ok_def hashed_def by auto
  moreover have "hashed ?h (cz_effects ?s) i" unfolding hashed_def by auto
  ultimately show thesis by (rule that) auto
next
  case (Some b)
  then show thesis using that assms(3) by (auto simp: source_chunk_def source_ok_def)
qed

lemma stored_position:
  assumes "gcm_law gcm ungcm" "row_for a prefix src" "pos < as_ciphertext_size a"
  defines "i \<equiv> pos div (as_chunk_size a + 16)"
  shows "i < as_chunk_count a" "cipherOffset i (as_chunk_size a) \<le> pos"
    and "pos - cipherOffset i (as_chunk_size a) < length (sealed_of gcm key prefix a src i)"
    and "take n (drop (pos - cipherOffset i (as_chunk_size a)) (sealed_of gcm key prefix a src i)) =
      take (min n (length (sealed_of gcm key prefix a src i) - (pos - cipherOffset i (as_chunk_size a))))
        (drop pos (stored_object gcm key prefix (as_id a) src (as_chunk_size a)))"
proof -
  let ?c = "as_chunk_size a" and ?n = "length src" and ?obj = "stored_object gcm key prefix (as_id a) src (as_chunk_size a)"
  have r: "0 < ?c" "as_chunk_count a = chunkCount ?n ?c" "as_ciphertext_size a = cipherSize ?n ?c" using assms(2) by (simp_all add: row_for_def)
  have size: "cipherSize ?n ?c \<le> chunkCount ?n ?c * (?c + 16)"
    using chunkCount_covers [OF r(1), of ?n] by (simp add: cipherSize_def TAG_def algebra_simps)
  show lt: "i < as_chunk_count a" using assms(3) size r unfolding i_def by (simp add: div_less_iff_less_mult)
  show le: "cipherOffset i ?c \<le> pos" unfolding i_def cipherOffset_def TAG_def by simp
  have len: "length (sealed_of gcm key prefix a src i) = plainLen i ?n ?c + TAG" by (rule length_sealed [OF assms(1)])
  note cut = cut_stored [OF assms(1) r(1), of i src key prefix "as_id a"]
  show "pos - cipherOffset i ?c < length (sealed_of gcm key prefix a src i)"
  proof (cases "i + 1 < as_chunk_count a")
    case True
    have "pos < (i + 1) * (?c + 16)" unfolding i_def using r(1) by (simp add: dividend_less_div_times)
    then show ?thesis using plainLen_full [OF r(1), of i "i + 1" ?n] True r(2) le by (simp add: len cipherOffset_def TAG_def)
  next
    case False
    then have "[i..<chunkCount ?n ?c] = [i]" using lt r(2) by (simp add: upt_conv_Cons)
    then have "drop (cipherOffset i ?c) ?obj = sealed_of gcm key prefix a src i"
      using drop_stored [OF assms(1) r(1)] lt r(2) by simp
    then have "length (sealed_of gcm key prefix a src i) = cipherSize ?n ?c - cipherOffset i ?c"
      using length_stored [OF assms(1) r(1)] by (metis length_drop)
    then show ?thesis using assms(3) r(3) le by simp
  qed
  have "sealed_of gcm key prefix a src i = take (plainLen i ?n ?c + TAG) (drop (cipherOffset i ?c) ?obj)" using cut lt r(2) by simp
  then have "drop (pos - cipherOffset i ?c) (sealed_of gcm key prefix a src i) =
      take (plainLen i ?n ?c + TAG - (pos - cipherOffset i ?c)) (drop pos ?obj)"
    by (simp only: drop_take drop_drop le_add_diff_inverse2 [OF le])
  then show "take n (drop (pos - cipherOffset i ?c) (sealed_of gcm key prefix a src i)) =
      take (min n (length (sealed_of gcm key prefix a src i) - (pos - cipherOffset i ?c))) (drop pos ?obj)"
    unfolding len by (simp only: take_take)
qed

lemma slice_loop_ok:
  fixes key and sha and gcm :: cipher_fun
  assumes "gcm_law gcm ungcm" "row_for a prefix src" "\<And>i. upsert i = None" "fin \<le> as_ciphertext_size a"
  defines "obj \<equiv> stored_object gcm key prefix (as_id a) src (as_chunk_size a)"
    and "h \<equiv> hash_of gcm sha key prefix a src" and "W \<equiv> as_chunk_size a + 16"
  assumes "source_ok (sealed_of gcm key prefix a src) h s" "start \<le> pos" "pos \<le> fin"
  shows "\<exists>s'. slice_loop gcm sha upsert key a src start fin pos (filled obj start fin pos) s = Some (s', Inr (window obj start fin))
    \<and> source_ok (sealed_of gcm key prefix a src) h s' \<and> set (cz_effects s) \<subseteq> set (cz_effects s')
    \<and> (\<forall>q. pos \<le> q \<and> q < fin \<longrightarrow> hashed h (cz_effects s') (q div W))"
  using assms(8-10)
proof (induction "fin - pos" arbitrary: pos s rule: less_induct)
  case less
  show ?case
  proof (cases "pos < fin")
    case True
    let ?i = "pos div W" and ?O = "cipherOffset (pos div W) (as_chunk_size a)" and ?b = "sealed_of gcm key prefix a src (pos div W)"
    let ?n = "min (length ?b - (pos - ?O)) (fin - pos)"
    note sp = stored_position [OF assms(1,2), of pos, folded W_def obj_def]
    have pos: "pos < as_ciphertext_size a" using True assms(4) by simp
    obtain s1 where s1: "source_chunk gcm sha upsert key a src ?i s = (s1, Inr ?b)" "source_ok (sealed_of gcm key prefix a src) h s1"
      "hashed h (cz_effects s1) ?i" "set (cz_effects s) \<subseteq> set (cz_effects s1)"
      by (rule source_chunk_ok [where upsert = upsert and i = ?i, OF assms(2,3) less.prems(1) [unfolded h_def], folded h_def]) (rule that)
    have n: "0 < ?n" using sp(3) [OF pos, of key] True by simp
    have len: "length obj = as_ciphertext_size a" using length_stored [OF assms(1)] assms(2) by (simp add: obj_def row_for_def)
    have "take ?n (drop (pos - ?O) ?b) = take ?n (drop pos obj)"
      unfolding sp(4) [OF pos, of ?n key] by (simp add: min_def obj_def)
    moreover have "set_at (filled obj start fin pos) (pos - start) (take (pos + ?n - pos) (drop pos obj)) = Inr (filled obj start fin (pos + ?n))"
      using less.prems(2,3) assms(4) len by (intro set_at_filled) auto
    ultimately have set: "set_at (filled obj start fin pos) (pos - start) (take ?n (drop (pos - ?O) ?b)) = Inr (filled obj start fin (pos + ?n))"
      by simp
    have "fin - (pos + ?n) < fin - pos" "start \<le> pos + ?n" "pos + ?n \<le> fin" using n True less.prems(2) by linarith+
    then obtain s2 where s2: "slice_loop gcm sha upsert key a src start fin (pos + ?n) (filled obj start fin (pos + ?n)) s1 = Some (s2, Inr (window obj start fin))"
      "source_ok (sealed_of gcm key prefix a src) h s2" "set (cz_effects s1) \<subseteq> set (cz_effects s2)"
      "\<forall>q. pos + ?n \<le> q \<and> q < fin \<longrightarrow> hashed h (cz_effects s2) (q div W)"
      using less.hyps [OF _ s1(2)] by blast
    have mono: "hashed h (cz_effects s2) j" if "hashed h (cz_effects s1) j" for j using that s2(3) unfolding hashed_def by blast
    have near: "q div W = ?i" if "pos \<le> q" "q < pos + ?n" for q
    proof -
      have "length ?b \<le> W" using length_sealed [OF assms(1)] by (simp add: W_def plainLen_def TAG_def)
      then have "q < ?O + W" using that sp(2) [OF pos] by linarith
      moreover have "?O = ?i * W" by (simp add: cipherOffset_def W_def TAG_def)
      ultimately have "q div W \<le> ?i" by (metis add.commute less_Suc_eq_le less_mult_imp_div_less mult_Suc)
      then show ?thesis using div_le_mono [OF that(1), of W] by simp
    qed
    have "hashed h (cz_effects s2) (q div W)" if "pos \<le> q" "q < fin" for q
      using near [of q] mono [OF s1(3)] s2(4) that by (cases "q < pos + ?n") auto
    moreover have "slice_loop gcm sha upsert key a src start fin pos (filled obj start fin pos) s = Some (s2, Inr (window obj start fin))"
      using True s1(1) set s2(1) by (subst slice_loop.simps) (simp add: W_def Let_def)
    ultimately show ?thesis using s2(2,3) s1(4) by blast
  next
    case False
    then have "pos = fin" using less.prems(3) by simp
    then show ?thesis using less.prems(1) by (subst slice_loop.simps) auto
  qed
qed


definition demo_source :: cipher_source where
  "demo_source = \<lparr>cz_cache = Map.empty, cz_effects = []\<rparr>"


subsection \<open>Hashes reach the catalogue before the bytes\<close>

definition covers :: "(nat \<Rightarrow> byte list) \<Rightarrow> (nat \<Rightarrow> string) \<Rightarrow> (nat \<times> string) list \<Rightarrow> byte list \<Rightarrow> bool" where
  "covers chunk h hs bytes \<longleftrightarrow> (\<exists>ks. hs = map (\<lambda>i. (i, h i)) ks \<and> bytes = concat (map chunk ks))"

text \<open>Every part sent was preceded by an upsert of the hashes of exactly its chunks.\<close>

definition hashed_first :: "(nat \<Rightarrow> byte list) \<Rightarrow> (nat \<Rightarrow> string) \<Rightarrow> effects \<Rightarrow> bool" where
  "hashed_first chunk h es \<longleftrightarrow>
     (\<forall>k pn bytes. k < length es \<longrightarrow> es ! k = Upload_Part pn bytes \<longrightarrow> (\<exists>j < k. \<exists>hs. es ! j = Upsert_Chunks hs \<and> covers chunk h hs bytes))"

lemma hashed_first_Nil [simp]: "hashed_first chunk h []"
  by (simp add: hashed_first_def)

lemma hashed_first_append:
  assumes "hashed_first chunk h es" "hashed_first chunk h es'"
  shows "hashed_first chunk h (es @ es')"
  unfolding hashed_first_def
proof (intro allI impI)
  fix k pn bytes
  assume k: "k < length (es @ es')" "(es @ es') ! k = Upload_Part pn bytes"
  show "\<exists>j < k. \<exists>hs. (es @ es') ! j = Upsert_Chunks hs \<and> covers chunk h hs bytes"
  proof (cases "k < length es")
    case True
    then show ?thesis using assms(1) k unfolding hashed_first_def by (metis nth_append order.strict_trans)
  next
    case False
    then have "k - length es < length es'" "es' ! (k - length es) = Upload_Part pn bytes" using k by (auto simp: nth_append)
    then obtain j hs where "j < k - length es" "es' ! j = Upsert_Chunks hs" "covers chunk h hs bytes"
      using assms(2) unfolding hashed_first_def by blast
    then show ?thesis using False by (intro exI [of _ "length es + j"]) (auto simp: nth_append)
  qed
qed

lemma hashed_first_other: "(\<And>pn b. e \<noteq> Upload_Part pn b) \<Longrightarrow> hashed_first chunk h [e]"
  by (auto simp: hashed_first_def)

lemma hashed_first_and_then:
  assumes "and_then x f = Some (es, r)" "\<And>es v. x = Some (es, v) \<Longrightarrow> hashed_first chunk h es"
    and "\<And>es0 v es' r'. x = Some (es0, Inr v) \<Longrightarrow> f v = Some (es', r') \<Longrightarrow> hashed_first chunk h es'"
  shows "hashed_first chunk h es"
  using assms by (auto simp: and_then_def hashed_first_append split: option.splits sum.splits prod.splits)

lemma part_step_hashed:
  assumes "row_for a prefix src" "part_step gcm sha md5 w key a src k uploaded p st = (es, r)"
  shows "hashed_first (sealed_of gcm key prefix a src) (hash_of gcm sha key prefix a src) es"
proof -
  let ?F = "hashed_first (sealed_of gcm key prefix a src) (hash_of gcm sha key prefix a src)"
  obtain hs bytes where c: "covers (sealed_of gcm key prefix a src) (hash_of gcm sha key prefix a src) hs bytes"
    and es: "es = [Upsert_Chunks hs] \<or> es = [Upsert_Chunks hs, Upload_Part (p + 1) bytes]"
    using assms(2) unfolding part_step_def Let_def encryptRange_sealed [OF assms(1)] covers_def
    by (auto split: option.splits sum.splits)
  have "?F [Upsert_Chunks hs, Upload_Part (p + 1) bytes]"
    using c by (auto simp: hashed_first_def less_Suc_eq nth_Cons split: nat.splits)
  then show ?thesis using es hashed_first_other by auto
qed

lemma part_loop_hashed:
  assumes "\<And>p st es r. f p st = (es, r) \<Longrightarrow> hashed_first chunk h es" "part_loop f ps st = (es, r)"
  shows "hashed_first chunk h es"
  using assms(2)
proof (induction ps arbitrary: st es r)
  case (Cons p ps)
  obtain es1 r1 where s: "f p st = (es1, r1)" by (cases "f p st")
  note h = assms(1) [OF s]
  show ?case
  proof (cases r1)
    case (Inl e)
    then show ?thesis using Cons.prems s h by simp
  next
    case (Inr st')
    obtain es2 r2 where s2: "part_loop f ps st' = (es2, r2)" by (cases "part_loop f ps st'")
    show ?thesis using Cons.prems s Inr s2 hashed_first_append [OF h Cons.IH [OF s2]] by simp
  qed
qed simp

lemma runParts_hashed:
  assumes "row_for a prefix src" "runParts gcm sha md5 w a key src k uploaded = Some (es, r)"
  shows "hashed_first (sealed_of gcm key prefix a src) (hash_of gcm sha key prefix a src) es"
proof (cases "importDek key")
  case (Inl e)
  then show ?thesis using assms(2) by (simp add: runParts_def)
next
  case (Inr key')
  then have key: "key' = key" by (auto simp: importDek_def split: if_splits)
  obtain es1 r1 where s: "part_loop (part_step gcm sha md5 w key a src k uploaded) [0..<ceil_div (as_chunk_count a) k]
      \<lparr>pt_etags = [], pt_skipped = 0, pt_match = 0, pt_mismatch = 0\<rparr> = (es1, r1)" by fastforce
  have h: "hashed_first (sealed_of gcm key prefix a src) (hash_of gcm sha key prefix a src) es1"
    by (rule part_loop_hashed [OF part_step_hashed [OF assms(1)] s])
  then have "hashed_first (sealed_of gcm key prefix a src) (hash_of gcm sha key prefix a src) (es1 @ [Complete_Upload ps])" for ps
    by (intro hashed_first_append hashed_first_other) auto
  then show ?thesis using assms(2) h by (auto simp: runParts_def Let_def Inr key s split: sum.splits option.splits if_splits)
qed

lemma part_loop_effects:
  assumes "\<And>p st es r. f p st = (es, r) \<Longrightarrow> Q (set es)" "\<And>A B. Q A \<Longrightarrow> Q B \<Longrightarrow> Q (A \<union> B)" "Q {}" "part_loop f ps st = (es, r)"
  shows "Q (set es)"
  using assms(4)
proof (induction ps arbitrary: st es r)
  case (Cons p ps)
  obtain es1 r1 where s: "f p st = (es1, r1)" by (cases "f p st")
  show ?case
  proof (cases r1)
    case (Inl e)
    then show ?thesis using Cons.prems s assms(1) [OF s] by simp
  next
    case (Inr st')
    obtain es2 r2 where s2: "part_loop f ps st' = (es2, r2)" by (cases "part_loop f ps st'")
    show ?thesis using Cons.prems s Inr s2 assms(2) [OF assms(1) [OF s] Cons.IH [OF s2]] by auto
  qed
qed (use assms(3) in simp)

lemma runParts_no_insert:
  assumes "runParts gcm sha md5 w a key src k uploaded = Some (es, r)"
  shows "Insert_Row y \<notin> set es"
proof (cases "importDek key")
  case (Inl e)
  then show ?thesis using assms by (simp add: runParts_def)
next
  case (Inr key')
  obtain es1 r1 where s: "part_loop (part_step gcm sha md5 w key' a src k uploaded) [0..<ceil_div (as_chunk_count a) k]
      \<lparr>pt_etags = [], pt_skipped = 0, pt_match = 0, pt_mismatch = 0\<rparr> = (es1, r1)" by fastforce
  have "Insert_Row y \<notin> set es1"
  proof (rule part_loop_effects [where Q = "\<lambda>A. Insert_Row y \<notin> A", OF _ _ _ s])
    show "Insert_Row y \<notin> set es" if "part_step gcm sha md5 w key' a src k uploaded p st = (es, r)" for p st es r
      using that by (auto simp: part_step_def Let_def split: option.splits sum.splits)
  qed auto
  then show ?thesis using assms by (auto simp: runParts_def Let_def Inr s split: sum.splits option.splits if_splits)
qed

lemma row_for_new:
  "length prefix = 8 \<Longrightarrow> row_for (upload_row assetId recordId tenantId src prefix method wrapped) prefix src"
  by (simp add: row_for_def upload_row_def CHUNK_def)

lemma row_for_upload_id [simp]: "row_for (a\<lparr>as_s3_upload_id := u\<rparr>) prefix src = row_for a prefix src"
  by (simp add: row_for_def)

text \<open>The steps of a successful or failed upload, taken apart.\<close>

lemma upload_s3_cases:
  assumes "upload_s3 gcm sha md5 w assetId recordId tenantId src dek prefix partChunks = Some (es, r)"
  obtains (unwrapped) e where "es = []" "r = Inl e" "wrapDek (uw_wrap w) = Inl e"
  | (rejected) row es1 e where "es = Insert_Row row # es1" "r = Inl e" "set es1 \<subseteq> {Create_Upload} \<union> range Patch_Upload_Id"
      "\<exists>wrapped. wrapDek (uw_wrap w) = Inr wrapped \<and> row = upload_row assetId recordId tenantId src prefix ''s3-multipart'' wrapped"
  | (parts) row uid es1 r1 es2 where
      "\<exists>wrapped. wrapDek (uw_wrap w) = Inr wrapped \<and> row = upload_row assetId recordId tenantId src prefix ''s3-multipart'' wrapped"
      "runParts gcm sha md5 w (row\<lparr>as_s3_upload_id := uid\<rparr>) dek src (case partChunks of None \<Rightarrow> 8 | Some k \<Rightarrow> k) Map.empty = Some (es1, r1)"
      "es = [Insert_Row row, Create_Upload, Patch_Upload_Id (the uid)] @ es1 @ es2"
      "case r1 of Inl e \<Rightarrow> es2 = [] \<and> r = Inl e | Inr x \<Rightarrow> (es2, r) = finish_upload sha w (row\<lparr>as_s3_upload_id := uid\<rparr>) src x"
proof (cases "wrapDek (uw_wrap w)")
  case (Inl e)
  then show thesis using assms unwrapped by (auto simp: upload_s3_def createAsset_def and_then_def)
next
  case (Inr wrapped)
  let ?row = "upload_row assetId recordId tenantId src prefix ''s3-multipart'' wrapped"
  show thesis
  proof (cases "uw_insert w")
    case (Some e)
    then show thesis using assms Inr rejected [of ?row "[]" e] by (auto simp: upload_s3_def createAsset_def and_then_def Let_def)
  next
    case None
    then have create: "createAsset w assetId recordId tenantId src prefix ''s3-multipart'' = ([Insert_Row ?row], Inr ?row)"
      using Inr by (simp add: createAsset_def Let_def)
    obtain es0 r0 where s: "start_multipart w ?row = (es0, r0)" by fastforce
    show thesis
    proof (cases r0)
      case (Inl e)
      have "set es0 \<subseteq> {Create_Upload} \<union> range Patch_Upload_Id" using s by (auto simp: start_multipart_def split: sum.splits if_splits option.splits)
      moreover have "es = Insert_Row ?row # es0" "r = Inl e"
        using assms create s Inl by (auto simp: upload_s3_def and_then_def)
      ultimately show thesis using rejected Inr by blast
    next
      case r0: (Inr row)
      then obtain uid where row: "row = ?row\<lparr>as_s3_upload_id := uid\<rparr>" "es0 = [Create_Upload, Patch_Upload_Id (the uid)]"
        using s by (auto simp: start_multipart_def split: sum.splits if_splits option.splits)
      obtain es1 r1 where run: "runParts gcm sha md5 w row dek src (case partChunks of None \<Rightarrow> 8 | Some k \<Rightarrow> k) Map.empty = Some (es1, r1)"
        using assms create s r0 by (auto simp: upload_s3_def and_then_def split: option.splits)
      obtain es2 where es: "es = [Insert_Row ?row, Create_Upload, Patch_Upload_Id (the uid)] @ es1 @ es2"
        and r: "case r1 of Inl e \<Rightarrow> es2 = [] \<and> r = Inl e | Inr x \<Rightarrow> (es2, r) = finish_upload sha w row src x"
        using assms create s r0 row(2) run by (auto simp: upload_s3_def and_then_def split: sum.splits prod.splits)
      show thesis using parts [of ?row uid es1 r1 es2] Inr run es r row(1) by auto
    qed
  qed
qed


subsection \<open>What was uploaded is read back\<close>

text \<open>
  What the services keep, as they document it: the catalogue merges rows with the same key, Storage keeps the parts
  of an upload by number and joins the listed ones, in the order listed, when the upload is completed.
\<close>

record ck_store =
  kt_row :: "asset_row option"
  kt_hashes :: "nat \<rightharpoonup> string"
  kt_parts :: "nat \<rightharpoonup> byte list"
  kt_object :: "byte list option"

definition empty_store :: ck_store where
  "empty_store = \<lparr>kt_row = None, kt_hashes = Map.empty, kt_parts = Map.empty, kt_object = None\<rparr>"

fun keep_effect :: "ck_store \<Rightarrow> upload_effect \<Rightarrow> ck_store" where
  "keep_effect st (Insert_Row r) = st\<lparr>kt_row := Some r\<rparr>"
| "keep_effect st Create_Upload = st\<lparr>kt_parts := Map.empty\<rparr>"
| "keep_effect st (Patch_Upload_Id u) = st\<lparr>kt_row := map_option (\<lambda>r. r\<lparr>as_s3_upload_id := Some u\<rparr>) (kt_row st)\<rparr>"
| "keep_effect st (Upsert_Chunks hs) = st\<lparr>kt_hashes := kt_hashes st ++ map_of (rev hs)\<rparr>"
| "keep_effect st (Upload_Part pn b) = st\<lparr>kt_parts := (kt_parts st)(pn \<mapsto> b)\<rparr>"
| "keep_effect st (Complete_Upload ps) = st\<lparr>kt_object := Some (concat (map (\<lambda>(pn, _). the (kt_parts st pn)) ps))\<rparr>"
| "keep_effect st (Patch_Complete h) =
     st\<lparr>kt_row := map_option (\<lambda>r. r\<lparr>as_upload_state := ''complete'', as_plaintext_sha256 := Some h\<rparr>) (kt_row st)\<rparr>"

definition kept :: "effects \<Rightarrow> ck_store" where
  "kept es = foldl keep_effect empty_store es"

definition part_range :: "nat \<Rightarrow> nat \<Rightarrow> nat \<Rightarrow> nat list" where
  "part_range cnt k p = [p * k..<min cnt (p * k + k)]"

definition part_effects :: "(nat \<Rightarrow> byte list) \<Rightarrow> (nat \<Rightarrow> string) \<Rightarrow> nat \<Rightarrow> nat \<Rightarrow> nat \<Rightarrow> effects" where
  "part_effects chunk h cnt k p =
     [Upsert_Chunks (map (\<lambda>i. (i, h i)) (part_range cnt k p)), Upload_Part (Suc p) (concat (map chunk (part_range cnt k p)))]"

lemma part_step_fresh:
  assumes "row_for a prefix src" "0 < k" "part_step gcm sha md5 w key a src k Map.empty p st = (es, Inr st')"
  shows "es = part_effects (sealed_of gcm key prefix a src) (hash_of gcm sha key prefix a src) (as_chunk_count a) k p"
    and "\<exists>tag. pt_etags st' = AList.update (Suc p) tag (pt_etags st)"
proof -
  have "0 < as_chunk_count a" using assms(1) by (simp add: row_for_def)
  then have "min (as_chunk_count a - 1) (p * k + k - 1) + 1 = min (as_chunk_count a) (p * k + k)" using assms(2) by linarith
  then have "[p * k..<min (as_chunk_count a - 1) (p * k + k - 1) + 1] = part_range (as_chunk_count a) k p"
    by (simp only: part_range_def)
  then show "es = part_effects (sealed_of gcm key prefix a src) (hash_of gcm sha key prefix a src) (as_chunk_count a) k p"
    and "\<exists>tag. pt_etags st' = AList.update (Suc p) tag (pt_etags st)"
    using assms(3) unfolding part_step_def Let_def encryptRange_sealed [OF assms(1)] part_effects_def
    by (auto split: option.splits sum.splits)
qed

lemma run_parts_fresh:
  assumes "row_for a prefix src" "0 < k"
    and "part_loop (part_step gcm sha md5 w key a src k Map.empty) ps st = (es, Inr st')"
    and "distinct ps" "Suc ` set ps \<inter> fst ` set (pt_etags st) = {}"
  shows "es = concat (map (part_effects (sealed_of gcm key prefix a src) (hash_of gcm sha key prefix a src) (as_chunk_count a) k) ps)
    \<and> map fst (pt_etags st') = map fst (pt_etags st) @ map Suc ps"
  using assms(3-5)
proof (induction ps arbitrary: st es)
  case (Cons p ps)
  obtain es1 r1 where s: "part_step gcm sha md5 w key a src k Map.empty p st = (es1, r1)" by fastforce
  then obtain st1 where r1: "r1 = Inr st1" using Cons.prems(1) by (cases r1) auto
  obtain es2 where s2: "part_loop (part_step gcm sha md5 w key a src k Map.empty) ps st1 = (es2, Inr st')" "es = es1 @ es2"
    using Cons.prems(1) s r1 by (auto split: prod.splits)
  note step = part_step_fresh [OF assms(1,2) s [unfolded r1]]
  obtain tag where "pt_etags st1 = AList.update (Suc p) tag (pt_etags st)" using step(2) by blast
  then have keys: "map fst (pt_etags st1) = map fst (pt_etags st) @ [Suc p]" using Cons.prems(3) by (simp add: update_keys)
  then have "fst ` set (pt_etags st1) = insert (Suc p) (fst ` set (pt_etags st))" by (metis image_set set_append list.simps(15) empty_set Un_insert_right sup_bot_right)
  then have "Suc ` set ps \<inter> fst ` set (pt_etags st1) = {}" using Cons.prems(2,3) by auto
  then show ?case using Cons.IH [OF s2(1)] Cons.prems(2) keys step(1) s2(2) by auto
qed simp

lemma kept_parts:
  fixes chunk h cnt k
  defines "e \<equiv> \<lambda>m. concat (map (part_effects chunk h cnt k) [0..<m])"
  shows "kt_row (foldl keep_effect st (e m)) = kt_row st" "kt_object (foldl keep_effect st (e m)) = kt_object st"
    and "\<And>p. p < m \<Longrightarrow> kt_parts (foldl keep_effect st (e m)) (Suc p) = Some (concat (map chunk (part_range cnt k p)))"
    and "\<And>i. i < min cnt (m * k) \<Longrightarrow> kt_hashes (foldl keep_effect st (e m)) i = Some (h i)"
proof (induction m)
  case (Suc m)
  {
    case (3 p)
    then show ?case using Suc(3) by (auto simp: e_def part_effects_def less_Suc_eq)
  next
    case (4 i)
    have "map_of (rev (map (\<lambda>i. (i, h i)) xs)) i = (if i \<in> set xs then Some (h i) else None)" for xs
      by (simp add: rev_map map_of_map_restrict restrict_map_def)
    moreover have "i \<in> set (part_range cnt k m) \<or> i < min cnt (m * k)" using 4 by (auto simp: part_range_def)
    ultimately show ?case using Suc(4) by (auto simp: e_def part_effects_def map_add_def split: if_splits)
  }
qed (auto simp: e_def part_effects_def)

lemma upt_join: "x \<le> y \<Longrightarrow> [0..<min c x] @ [x..<min c y] = [0..<min c y]"
proof (cases "x \<le> c")
  case True
  assume "x \<le> y"
  then have "[0..<x + (min c y - x)] = [0..<x] @ [x..<x + (min c y - x)]" using True by (intro upt_add_eq_append) simp
  then show ?thesis using True \<open>x \<le> y\<close> by simp
qed simp

lemma parts_join:
  assumes "0 < k"
  shows "concat (map (\<lambda>p. concat (map chunk (part_range cnt k p))) [0..<ceil_div cnt k]) = concat (map chunk [0..<cnt])"
proof -
  have "concat (map (\<lambda>p. concat (map chunk (part_range cnt k p))) [0..<m]) = concat (map chunk [0..<min cnt (m * k)])" for m
  proof (induction m)
    case (Suc m)
    have "[0..<min cnt (m * k)] @ part_range cnt k m = [0..<min cnt (Suc m * k)]"
      using upt_join [of "m * k" "m * k + k" cnt] by (simp add: part_range_def add.commute)
    then have "map chunk [0..<min cnt (Suc m * k)] = map chunk [0..<min cnt (m * k)] @ map chunk (part_range cnt k m)" by (metis map_append)
    then show ?case using Suc by (simp del: mult_Suc)
  qed simp
  moreover have "min cnt (ceil_div cnt k * k) = cnt" using ceil_div_bounds(1) [OF assms, of cnt] by simp
  ultimately show ?thesis by simp
qed

text \<open>\<open>ListParts\<close> adds no part the client did not send.\<close>

lemma fold_keys:
  "(\<And>m x. x \<in> set xs \<Longrightarrow> fst ` set (g m x) \<subseteq> fst ` set m \<union> K) \<Longrightarrow> fst ` set (foldl g acc xs) \<subseteq> fst ` set acc \<union> K"
proof (induction xs arbitrary: acc)
  case (Cons x xs)
  then have "fst ` set (foldl g (g acc x) xs) \<subseteq> fst ` set (g acc x) \<union> K" "fst ` set (g acc x) \<subseteq> fst ` set acc \<union> K" by auto
  then show ?case by auto
qed simp

lemma keys_update: "fst ` set (AList.update k v m) = insert k (fst ` set m)"
proof -
  have "set (map fst (AList.update k v m)) = insert k (set (map fst m))" by (auto simp: update_keys)
  then show ?thesis by simp
qed

lemma list_pages_keys:
  assumes "list_pages pages marker acc = Some res"
  shows "(\<forall>mk pg. pages mk = Inr pg \<longrightarrow> fst ` set (pp_parts pg) \<subseteq> insert None (Some ` K)) \<longrightarrow> fst ` set acc \<subseteq> K
    \<longrightarrow> (\<forall>l. res = Inr l \<longrightarrow> fst ` set l \<subseteq> K)"
proof (induction rule: list_pages.raw_induct [OF _ assms])
  case (1 lp pages marker acc res)
  show ?case
  proof (intro impI)
    assume a: "\<forall>mk pg. pages mk = Inr pg \<longrightarrow> fst ` set (pp_parts pg) \<subseteq> insert None (Some ` K)" "fst ` set acc \<subseteq> K"
    show "\<forall>l. res = Inr l \<longrightarrow> fst ` set l \<subseteq> K"
    proof (cases "pages marker")
      case (Inl e)
      then show ?thesis using 1(2) by auto
    next
      case (Inr pg)
      let ?g = "\<lambda>m (pn, e). if pn \<notin> {None, Some 0} \<and> truthy e then AList.update (the pn) (the e) m else m"
      let ?acc = "foldl ?g acc (pp_parts pg)"
      have "fst ` set (?g m x) \<subseteq> fst ` set m \<union> K" if "x \<in> set (pp_parts pg)" for m x
      proof -
        obtain pn e where x: "x = (pn, e)" by (cases x)
        have "fst ` set (pp_parts pg) \<subseteq> insert None (Some ` K)" by (rule a(1) [rule_format, OF Inr])
        moreover have "pn \<in> fst ` set (pp_parts pg)" by (rule rev_image_eqI [OF that]) (simp add: x)
        ultimately have "pn \<in> insert None (Some ` K)" by (rule subsetD)
        then show ?thesis by (auto simp: x keys_update)
      qed
      then have k: "fst ` set ?acc \<subseteq> K" using fold_keys [of "pp_parts pg" ?g K acc] a(2) by blast
      show ?thesis
      proof (cases "\<not> pp_truncated pg \<or> \<not> truthy (pp_next pg)")
        case True
        then show ?thesis using 1(2) k Inr by auto
      next
        case False
        then have "lp pages (pp_next pg) ?acc = Some res" using 1(2) Inr by (simp add: Let_def)
        then show ?thesis by (rule mp [OF mp [OF 1(1) a(1)] k])
      qed
    qed
  qed
qed

lemma fold_same_keys:
  "(\<And>m x. map fst m = ks \<Longrightarrow> x \<in> set xs \<Longrightarrow> map fst (g m x) = ks) \<Longrightarrow> map fst acc = ks \<Longrightarrow> map fst (foldl g acc xs) = ks"
  by (induction xs arbitrary: acc) auto

lemma all_tags_keys:
  assumes "all_tags w etags = Some (Inr (etags', src))"
    and "\<And>mk pg. uw_pages w mk = Inr pg \<Longrightarrow> fst ` set (pp_parts pg) \<subseteq> insert None (Some ` fst ` set etags)"
  shows "map fst etags' = map fst etags"
proof (cases "list_ex (\<lambda>(_, e). no_tag e) etags")
  case True
  let ?g = "\<lambda>m (pn, e). if no_tag (Option.bind (map_of m pn) (\<lambda>x. x)) then AList.update pn (Some e) m else m"
  obtain listed where l: "listParts w = Some (Inr listed)" "etags' = foldl ?g etags listed"
    using assms(1) True by (auto simp: all_tags_def split: option.splits sum.splits)
  have "fst ` set listed \<subseteq> fst ` set etags"
    using list_pages_keys [OF l(1) [unfolded listParts_def], of "fst ` set etags"] assms(2) by simp
  then have "pn \<in> set (map fst etags)" if "(pn, e) \<in> set listed" for pn e using that by force
  then show ?thesis unfolding l(2) by (intro fold_same_keys) (auto simp: update_keys split: prod.splits)
next
  case False
  then show ?thesis using assms(1) by (simp add: all_tags_def)
qed

text \<open>A completed S3 upload: the parts, joined, are the stored object, and every chunk has its hash.\<close>

lemma runParts_stores:
  assumes "row_for a prefix src" "0 < k" "runParts gcm sha md5 w a dek src k Map.empty = Some (es, Inr x)"
    and "\<And>mk pg. uw_pages w mk = Inr pg \<Longrightarrow> fst ` set (pp_parts pg) \<subseteq> insert None (Some ` Suc ` {..<ceil_div (as_chunk_count a) k})"
  shows "length dek \<in> {16, 24, 32}" "kt_row (foldl keep_effect st es) = kt_row st"
    and "kt_object (foldl keep_effect st es) = Some (stored_object gcm dek prefix (as_id a) src (as_chunk_size a))"
    and "\<And>i. i < as_chunk_count a \<Longrightarrow> kt_hashes (foldl keep_effect st es) i = Some (hash_of gcm sha dek prefix a src i)"
proof -
  let ?m = "ceil_div (as_chunk_count a) k" and ?chunk = "sealed_of gcm dek prefix a src" and ?h = "hash_of gcm sha dek prefix a src"
  show dek: "length dek \<in> {16, 24, 32}" using assms(3) by (auto simp: runParts_def importDek_def split: if_splits)
  then have key: "importDek dek = Inr dek" by (simp add: importDek_def)
  obtain es1 r1 where s: "part_loop (part_step gcm sha md5 w dek a src k Map.empty) [0..<?m]
      \<lparr>pt_etags = [], pt_skipped = 0, pt_match = 0, pt_mismatch = 0\<rparr> = (es1, r1)" by fastforce
  then obtain st' where r1: "r1 = Inr st'" using assms(3) key by (cases r1) (auto simp: runParts_def Let_def)
  have es1: "es1 = concat (map (part_effects ?chunk ?h (as_chunk_count a) k) [0..<?m])" "map fst (pt_etags st') = map Suc [0..<?m]"
    using run_parts_fresh [OF assms(1,2) s [unfolded r1]] by auto
  have "set (map fst (pt_etags st')) = Suc ` {..<?m}" unfolding es1(2) by (simp only: set_map set_upt atLeast0LessThan)
  then have set: "fst ` set (pt_etags st') = Suc ` {..<?m}" by simp
  obtain etags source where tags: "all_tags w (pt_etags st') = Some (Inr (etags, source))"
    and es: "es = es1 @ [Complete_Upload (map (\<lambda>(pn, e). (pn, the e)) (sort_key fst etags))]"
    using assms(3) key s r1 by (auto simp: runParts_def Let_def split: option.splits sum.splits if_splits)
  have keys: "map fst etags = map Suc [0..<?m]"
    using all_tags_keys [OF tags] assms(4) set es1(2) by auto
  have "sorted (map Suc [0..<?m])" by (simp add: sorted_map)
  then have sorted: "sort_key fst etags = etags" using keys by (simp add: sort_key_id_if_sorted)
  let ?S = "foldl keep_effect st es1"
  note kept = kept_parts [where st = st and chunk = ?chunk and h = ?h and cnt = "as_chunk_count a" and k = k and m = ?m, folded es1(1)]
  show "kt_row (foldl keep_effect st es) = kt_row st" using kept(1) by (simp add: es)
  have "map (\<lambda>(pn, _). the (kt_parts ?S pn)) (map (\<lambda>(pn, e). (pn, the e)) etags) = map (\<lambda>pn. the (kt_parts ?S pn)) (map fst etags)"
    by (simp add: case_prod_beta comp_def)
  also have "\<dots> = map (\<lambda>p. concat (map ?chunk (part_range (as_chunk_count a) k p))) [0..<?m]"
    unfolding keys using kept(3) by (simp add: comp_def)
  finally show "kt_object (foldl keep_effect st es) = Some (stored_object gcm dek prefix (as_id a) src (as_chunk_size a))"
    using parts_join [OF assms(2), of ?chunk "as_chunk_count a"] assms(1) by (simp add: es sorted stored_object_def row_for_def)
  show "kt_hashes (foldl keep_effect st es) i = Some (?h i)" if "i < as_chunk_count a" for i
    using kept(4) [of i] that ceil_div_bounds(1) [OF assms(2), of "as_chunk_count a"] by (simp add: es)
qed

text \<open>A read against services that serve what was kept.\<close>

definition serves :: "ck_store \<Rightarrow> byte list \<Rightarrow> string \<Rightarrow> string \<Rightarrow> read_opts \<Rightarrow> read_world \<Rightarrow> bool" where
  "serves st dek tid aid opts w \<longleftrightarrow>
     (\<exists>a obj t. kt_row st = Some a \<and> kt_object st = Some obj \<and> getAsset aid (rw_assets w) = Inr a
       \<and> resolveTarget (rw_dir w) tid = Inr t \<and> rw_session w t = None
       \<and> (\<forall>sp. \<exists>got. fetchCipher w t a (cs_cStart sp) (cs_cEnd sp) (path_of opts) = Inr got \<and> honest_answer obj sp got))
     \<and> (\<exists>j. key_call (rw_key w) = Inr j \<and> obj_get j ''dek'' = Some (b64 dek))
     \<and> (\<forall>f l. \<exists>rows. rw_hashes w f l = Inr rows \<and> (\<forall>i. f \<le> i \<longrightarrow> i \<le> l \<longrightarrow> map_of (rev rows) i = kt_hashes st i))
     \<and> rw_log w = None"

text \<open>C27. What is uploaded can be read back: if \<open>upload\<close> over S3 reports success, whatever parts it made and however
  the part tags were learned, then a range read through \<open>readRange\<close> from services that serve what the upload
  left with them gives exactly that range of the source file.
\<close>

theorem upload_read_roundtrip:
  assumes "gcm_law gcm ungcm" "length prefix = 8" "\<And>x. sha x \<noteq> []" "partChunks \<noteq> Some 0"
    and "upload_s3 gcm sha md5 w aid recordId tenantId src dek prefix partChunks = Some (es, Inr res)"
    and "\<And>mk pg. uw_pages w mk = Inr pg \<Longrightarrow> fst ` set (pp_parts pg) \<subseteq>
      insert None (Some ` Suc ` {..<ceil_div (chunkCount (length src) CHUNK) (case partChunks of None \<Rightarrow> 8 | Some k \<Rightarrow> k)})"
    and "serves (kept es) dek tid aid opts rw" "rd_assets s aid = None" "rd_deks s aid \<in> {None, Some dek}"
    and "0 \<le> start" "start < endExcl" "endExcl \<le> int (length src)"
  shows "\<exists>s' r. readRange sha ungcm rw s tid aid start endExcl opts = (s', Inr r) \<and> rx_plain r = window src (nat start) (nat endExcl)"
  using assms(5)
proof (cases rule: upload_s3_cases)
  case (parts row uid es1 r1 es2)
  let ?k = "case partChunks of None \<Rightarrow> 8 | Some k \<Rightarrow> k" and ?row = "row\<lparr>as_s3_upload_id := uid\<rparr>"
  obtain x where r1: "r1 = Inr x" using parts(4) by (cases r1) auto
  have row: "row_for ?row prefix src" "as_chunk_count ?row = chunkCount (length src) CHUNK"
    using parts(1) row_for_new [OF assms(2)] by (auto simp: upload_row_def)
  have k: "0 < ?k" using assms(4) by (auto split: option.splits)
  let ?S0 = "foldl keep_effect empty_store [Insert_Row row, Create_Upload, Patch_Upload_Id (the uid)]"
  note run = row(1) k parts(2) [unfolded r1] assms(6) [folded row(2)]
  have dek: "length dek \<in> {16, 24, 32}" by (rule runParts_stores(1) [OF row(1) k parts(2) [unfolded r1] assms(6) [folded row(2)]])
  note st = runParts_stores(2-4) [OF run, where st = ?S0]
  obtain h where es2: "es2 = [Patch_Complete h]" using parts(4) r1 by (auto simp: finish_upload_def Let_def)
  let ?a = "row\<lparr>as_s3_upload_id := Some (the uid), as_upload_state := ''complete'', as_plaintext_sha256 := Some h\<rparr>"
  have kept: "kt_row (kept es) = Some ?a" "kt_object (kept es) = Some (stored_object gcm dek prefix (as_id row) src (as_chunk_size row))"
    and hashes: "\<And>i. i < as_chunk_count row \<Longrightarrow> kt_hashes (kept es) i = Some (hash_of gcm sha dek prefix row src i)"
    using st unfolding kept_def parts(3) es2 by (simp_all add: empty_store_def)
  have honest: "honest_world sha gcm dek prefix ?a src tid aid opts rw"
    unfolding honest_world_def
  proof (intro conjI allI)
    obtain t where t: "getAsset aid (rw_assets rw) = Inr ?a" "resolveTarget (rw_dir rw) tid = Inr t" "rw_session rw t = None"
      "\<forall>sp. \<exists>got. fetchCipher rw t ?a (cs_cStart sp) (cs_cEnd sp) (path_of opts) = Inr got
         \<and> honest_answer (stored_object gcm dek prefix (as_id row) src (as_chunk_size row)) sp got"
      using assms(7) unfolding serves_def kept by (elim conjE exE) simp
    show "getAsset aid (rw_assets rw) = Inr ?a" by (rule t(1))
    show "\<exists>t. resolveTarget (rw_dir rw) tid = Inr t \<and> rw_session rw t = None
        \<and> (\<forall>sp. \<exists>got. fetchCipher rw t ?a (cs_cStart sp) (cs_cEnd sp) (path_of opts) = Inr got
             \<and> honest_answer (stored_object gcm dek prefix (as_id ?a) src (as_chunk_size ?a)) sp got)"
      using t(2-4) by auto
    fix f l
    obtain rows where "rw_hashes rw f l = Inr rows" "\<forall>i. f \<le> i \<longrightarrow> i \<le> l \<longrightarrow> map_of (rev rows) i = kt_hashes (kept es) i"
      using assms(7) unfolding serves_def by blast
    then show "\<exists>rows. rw_hashes rw f l = Inr rows \<and> (\<forall>i. f \<le> i \<longrightarrow> i \<le> l \<longrightarrow> i < as_chunk_count ?a \<longrightarrow>
        map_of (rev rows) i = Some (sha256Hex sha (sealed_of gcm dek prefix ?a src i)))"
      using hashes by auto
  qed (use assms(7) in \<open>simp_all add: serves_def\<close>)
  have "row_for ?a prefix src" "caches_ok s aid ?a dek" "as_upload_state ?a = ''complete''"
    using row(1) assms(8,9) by (simp_all add: row_for_def caches_ok_def)
  then show ?thesis
    by (rule read_returns [where sha = sha, OF assms(1) _ honest _ _ dek assms(3,10-12)]) blast
qed auto

subsection \<open>Concrete uploads\<close>

definition demo_upload_world :: upload_world where
  "demo_upload_world = \<lparr>uw_wrap = Key_Answer 200 [], uw_insert = None, uw_create = Inr (Some ''u''), uw_patchId = None, uw_upsert = (\<lambda>_. None),
     uw_put = (\<lambda>_. Inr (Some ''e'')), uw_pages = (\<lambda>_. Inl (Thrown ''no listing'')), uw_complete = None, uw_patchComplete = None,
     uw_rowCount = Inr 1\<rparr>"

lemma ceil_div_one: "0 < m \<Longrightarrow> m \<le> n \<Longrightarrow> ceil_div m n = 1"
proof -
  assume m: "0 < m" "m \<le> n"
  then have "m \<le> ceil_div m n * n" "ceil_div m n * n < m + n" by (intro ceil_div_bounds; simp)+
  then have "m \<le> ceil_div m n * n" "ceil_div m n * n < 2 * n" using m by linarith+
  then have "ceil_div m n \<noteq> 0" "ceil_div m n < 2" using m by (cases "ceil_div m n = 0"; auto simp: mult_less_cancel2)+
  then show ?thesis by simp
qed

lemma demo_counts: "chunkCount (length demo_plain) CHUNK = 1" "ceil_div (Suc 0) 8 = 1" "ceil_div 1 8 = 1"
  by (simp_all add: chunkCount_def ceil_div_one CHUNK_def demo_plain_def)

lemma demo_upload:
  "\<exists>es res. upload_s3 toy_gcm demo_hash None demo_upload_world ''a'' ''r'' ''t'' demo_plain demo_dek demo_prefix None = Some (es, Inr res)
     \<and> (\<exists>a. kt_row (kept es) = Some a) \<and> (\<exists>obj. kt_object (kept es) = Some obj)"
proof -
  let ?row = "upload_row ''a'' ''r'' ''t'' demo_plain demo_prefix ''s3-multipart'' (None, None)\<lparr>as_s3_upload_id := Some ''u''\<rparr>"
  have row: "row_for ?row demo_prefix demo_plain" by (simp add: row_for_new demo_prefix_def)
  have cnt: "as_chunk_count ?row = 1" by (simp add: upload_row_def demo_counts)
  have "importDek demo_dek = Inr demo_dek" by (simp add: importDek_def demo_dek_def)
  then obtain es r where "runParts toy_gcm demo_hash None demo_upload_world ?row demo_dek demo_plain 8 Map.empty = Some (es @ [Complete_Upload [(1, ''e'')]], Inr r)"
    "foldl keep_effect st es = foldl keep_effect st [Upsert_Chunks (map (\<lambda>i. (i, hash_of toy_gcm demo_hash demo_dek demo_prefix ?row demo_plain i)) [0..<1]),
       Upload_Part 1 (concat (map (sealed_of toy_gcm demo_dek demo_prefix ?row demo_plain) [0..<1]))]" for st
    by (auto simp: runParts_def cnt demo_counts part_step_def encryptRange_sealed [OF row] demo_upload_world_def all_tags_def no_tag_def truthy_def)
  then show ?thesis
    by (auto simp: upload_s3_def and_then_def createAsset_def start_multipart_def finish_upload_def wrapDek_def key_call_def demo_upload_world_def
        truthy_def kept_def empty_store_def Let_def)
qed


text \<open>Services that serve a store: the whole object to every range, the hashes of the chunks asked for.\<close>

definition serving :: "ck_store \<Rightarrow> byte list \<Rightarrow> read_world" where
  "serving st dek = demo_world\<lparr>rw_assets := Inr [the (kt_row st)], rw_key := Key_Answer 200 [(''dek'', b64 dek)],
     rw_s3 := (\<lambda>_ _. S3_Object (Some (the (kt_object st))) (Some 200) None),
     rw_hashes := (\<lambda>f l. Inr (List.map_filter (\<lambda>i. map_option (Pair i) (kt_hashes st i)) [f..<l + 1]))\<rparr>"

lemma map_of_filtered: "map_of (rev (List.map_filter (\<lambda>i. map_option (Pair i) (m i)) xs)) i = (if i \<in> set xs then m i else None)"
proof (induction xs)
  case (Cons x xs)
  then show ?case by (cases "m x") (auto simp: map_add_def split: option.splits)
qed simp

lemma serving_serves:
  "kt_row st = Some a \<Longrightarrow> kt_object st = Some obj \<Longrightarrow> serves st dek ''t'' aid demo_opts (serving st dek)"
  by (auto simp: serves_def serving_def demo_world_def resolveTarget_def getAsset_def key_call_def fetchCipher_def path_of_def demo_opts_def
      s3_fetch_def honest_answer_def stored_total_def Let_def map_of_filtered)

theorem upload_read_roundtrip_witness:
  "\<exists>es res s' r. upload_s3 toy_gcm demo_hash None demo_upload_world ''a'' ''r'' ''t'' demo_plain demo_dek demo_prefix None = Some (es, Inr res)
     \<and> readRange demo_hash toy_ungcm (serving (kept es) demo_dek) \<lparr>rd_assets = Map.empty, rd_deks = Map.empty, rd_cipher = []\<rparr> ''t'' ''a'' 1 4 demo_opts = (s', Inr r)
     \<and> rx_plain r = [2, 3, 4]"
proof -
  obtain es res a obj where run: "upload_s3 toy_gcm demo_hash None demo_upload_world ''a'' ''r'' ''t'' demo_plain demo_dek demo_prefix None = Some (es, Inr res)"
    and "kt_row (kept es) = Some a" "kt_object (kept es) = Some obj" using demo_upload by blast
  then have serves: "serves (kept es) demo_dek ''t'' ''a'' demo_opts (serving (kept es) demo_dek)" by (intro serving_serves)
  have "\<exists>s' r. readRange demo_hash toy_ungcm (serving (kept es) demo_dek) \<lparr>rd_assets = Map.empty, rd_deks = Map.empty, rd_cipher = []\<rparr> ''t'' ''a'' 1 4 demo_opts = (s', Inr r)
      \<and> rx_plain r = window demo_plain (nat 1) (nat 4)"
    by (rule upload_read_roundtrip [OF toy_gcm_law _ _ _ run _ serves]) (simp_all add: demo_prefix_def demo_hash_def demo_upload_world_def demo_plain_def)
  then show ?thesis using run by (fastforce simp: window_def demo_plain_def)
qed

text \<open>
  \<open>resume\<close> compares only the size of the source. With another file of the same size, a part that is already there is
  counted as a mismatch, its hash in the catalogue is replaced, and the upload completes.
\<close>

lemma mismatch_completes:
  fixes a
  defines "other \<equiv> [9, 9, 9, 9, 9]"
  shows "\<exists>es r. runParts toy_gcm demo_hash (Some (\<lambda>b. ''md5 of the new part'')) demo_upload_world demo_row demo_dek other 8 [1 \<mapsto> ''md5 of the old part''] =
      Some (es, Inr r) \<and> pr_mismatch r = 1 \<and> Upsert_Chunks (map (\<lambda>i. (i, hash_of toy_gcm demo_hash demo_dek demo_prefix demo_row other i)) [0..<3]) \<in> set es
      \<and> (\<forall>pn b. Upload_Part pn b \<notin> set es)"
proof -
  have row: "row_for demo_row demo_prefix other" using demo_row_for by (simp add: row_for_def demo_plain_def other_def)
  have cnt: "as_chunk_count demo_row = 3" "ceil_div 3 8 = 1" by (simp_all add: demo_row_def ceil_div_one)
  have dek: "importDek demo_dek = Inr demo_dek" by (simp add: importDek_def demo_dek_def)
  have md5: "strip_quotes ''md5 of the old part'' \<noteq> ''md5 of the new part''" by code_simp
  show ?thesis using md5 unfolding runParts_def dek sum.case cnt
    by (auto simp: cnt part_step_def Let_def encryptRange_sealed [OF row] demo_upload_world_def all_tags_def no_tag_def truthy_def
        numeral_3_eq_3 numeral_2_eq_2)
qed

end
