(* ===== verification/Key_Service.thy ===== *)
theory Key_Service
  imports Ranged_Read
begin

text \<open>
  The operator's key service of client-keyed-objects (\<open>keysvc/server.ts\<close>): it checks a caller's token and
  membership and wraps or unwraps a data key under the tenant's key. What it asks of others during a request (the
  token library, the Auth server, the Data API, its configuration files, the random nonce) is a \<open>svc_world\<close>;
  \<open>None\<close> as an answer to the request is an exception the handler does not catch. The client's calls of \<open>keys.ts\<close>
  are composed with it at the end.
\<close>

record svc_target =
  st_issuer :: string
  st_auth_url :: string
  st_jwks_url :: string
  st_rest_url :: string
  st_apikey :: string

record svc_cfg =
  sc_targets :: "svc_target obj"
  sc_tenants :: "string obj"

record kek =
  kk_key_id :: string
  kk_kek_b64 :: string

record svc_counters =
  ct_wrap :: nat
  ct_unwrap :: nat
  ct_denied :: nat

text \<open>
  \<open>w_alg\<close>: the \<open>alg\<close> of a token's header, \<open>None\<close> when it is malformed; \<open>w_user\<close>: what \<open>/user\<close> answers, status
  and id; \<open>w_jwt\<close>: the subject \<open>jwtVerify\<close> finds for a key set and an issuer, or why it refuses;
  \<open>w_memberships\<close>: status and roles for a tenant and a user, asked with a token. \<open>Inl\<close> is an exception.
\<close>

record svc_world =
  w_config :: "string + svc_cfg"
  w_keks :: "string + kek obj"
  w_base64 :: "string \<Rightarrow> byte list"
  w_alg :: "string \<Rightarrow> string option"
  w_user :: "svc_target \<Rightarrow> string \<Rightarrow> string + int \<times> string option"
  w_jwt :: "string \<Rightarrow> string \<Rightarrow> string \<Rightarrow> string + string option"
  w_memberships :: "svc_target \<Rightarrow> string \<Rightarrow> string \<Rightarrow> string \<Rightarrow> string + int \<times> string list"
  w_iv :: "byte list"

datatype svc_error = Http_Error int string string | Internal string

definition kekFor :: "svc_world \<Rightarrow> string \<Rightarrow> svc_error + byte list \<times> string" where
  "kekFor w tenant =
     (case w_keks w of Inl m \<Rightarrow> Inl (Internal m)
      | Inr keks \<Rightarrow>
          (case obj_get keks tenant of None \<Rightarrow> Inl (Http_Error 404 ''unknown_tenant'' ''no KEK for tenant'')
           | Some k \<Rightarrow> (case importDek (w_base64 w (kk_kek_b64 k)) of Inl _ \<Rightarrow> Inl (Internal ''Invalid key length'') | Inr key \<Rightarrow> Inr (key, kk_key_id k))))"

definition tenant_target :: "svc_cfg \<Rightarrow> string \<Rightarrow> svc_error + svc_target" where
  "tenant_target cfg tenant =
     (if \<not> truthy (obj_get (sc_tenants cfg) tenant) then Inl (Http_Error 404 ''unknown_tenant'' ''tenant not in directory'')
      else case obj_get (sc_targets cfg) (the (obj_get (sc_tenants cfg) tenant)) of
             None \<Rightarrow> Inl (Http_Error 404 ''unknown_tenant'' (''tenant'' @ [CHR 0x27] @ ''s target not configured''))
           | Some t \<Rightarrow> Inr t)"

definition bearer_token :: "string option \<Rightarrow> string" where
  "bearer_token h = (case h of None \<Rightarrow> [] | Some v \<Rightarrow> if starts_with v ''Bearer '' then drop 7 v else [])"

text \<open>The subject of a token, verified for the target: asked of the Auth server when the token is symmetric.\<close>

definition verified_subject :: "svc_world \<Rightarrow> svc_target \<Rightarrow> string \<Rightarrow> svc_error + string" where
  "verified_subject w t token =
     (case w_alg w token of None \<Rightarrow> Inl (Http_Error 401 ''invalid_token'' ''malformed token'')
      | Some alg \<Rightarrow>
          if alg = ''HS256''
          then (case w_user w t token of Inl m \<Rightarrow> Inl (Internal m)
                | Inr (st, uid) \<Rightarrow>
                    if st \<noteq> 200 then Inl (Http_Error 401 ''invalid_token'' (''auth server answered '' @ show_int st))
                    else Inr (case uid of None \<Rightarrow> [] | Some u \<Rightarrow> u))
          else (case w_jwt w (st_jwks_url t) (st_issuer t) token of
                  Inl m \<Rightarrow> Inl (Http_Error 401 ''invalid_token'' (take 120 m))
                | Inr sub \<Rightarrow> Inr (case sub of None \<Rightarrow> [] | Some u \<Rightarrow> u)))"

definition check_role :: "string list option \<Rightarrow> string list \<Rightarrow> svc_error option" where
  "check_role roles rows =
     (case rows of [] \<Rightarrow> Some (Http_Error 403 ''not_member'' ''caller is not a member of the tenant'')
      | r # _ \<Rightarrow> (case roles of None \<Rightarrow> None
                 | Some rs \<Rightarrow> if r \<in> set rs then None else Some (Http_Error 403 ''forbidden_role'' (''role '' @ r @ '' may not wrap''))))"

definition authorize :: "svc_world \<Rightarrow> string option \<Rightarrow> string \<Rightarrow> string list option \<Rightarrow> svc_error + string" where
  "authorize w auth tenant roles =
     (case w_config w of Inl m \<Rightarrow> Inl (Internal m)
      | Inr cfg \<Rightarrow>
     (case tenant_target cfg tenant of Inl e \<Rightarrow> Inl e
      | Inr t \<Rightarrow>
     (let token = bearer_token auth
      in if token = [] then Inl (Http_Error 401 ''invalid_token'' ''missing bearer token'')
         else case verified_subject w t token of Inl e \<Rightarrow> Inl e
              | Inr sub \<Rightarrow>
                  if sub = [] then Inl (Http_Error 401 ''invalid_token'' ''token has no subject'')
                  else (case w_memberships w t tenant sub token of Inl m \<Rightarrow> Inl (Internal m)
                        | Inr (st, rows) \<Rightarrow>
                            if st \<noteq> 200 then Inl (Http_Error 502 ''membership_check_failed'' (''data api answered '' @ show_int st))
                            else (case check_role roles rows of Some e \<Rightarrow> Inl e | None \<Rightarrow> Inr sub)))))"

definition dek_aad :: "string \<Rightarrow> byte list" where
  "dek_aad tenant = utf8 (''ck-dek-v1|'' @ tenant)"

definition low_hex :: "char \<Rightarrow> bool" where
  "low_hex c = (is_digit c \<or> c \<in> {CHR ''a'', CHR ''b'', CHR ''c'', CHR ''d'', CHR ''e'', CHR ''f''})"

text \<open>The pattern \<open>UUID\<close>: groups of 8, 4, 4, 4 and 12 lower-case hexadecimal digits.\<close>

definition is_uuid :: "string \<Rightarrow> bool" where
  "is_uuid s = (map length (split_char (CHR ''-'') s) = [8, 4, 4, 4, 12] \<and> list_all (list_all low_hex) (split_char (CHR ''-'') s))"

record svc_request =
  sr_method :: string
  sr_path :: string
  sr_authorization :: "string option"
  sr_body :: "json option"

datatype svc_response = Svc_Json int "json obj" | Svc_Empty int

definition deny :: "svc_counters \<Rightarrow> int \<Rightarrow> string \<Rightarrow> string \<Rightarrow> svc_counters \<times> svc_response" where
  "deny c st code msg =
     (if st = 401 \<or> st = 403 then c\<lparr>ct_denied := ct_denied c + 1\<rparr> else c,
      Svc_Json st [(''error'', JStr code), (''message'', JStr msg)])"

definition deny_error :: "svc_counters \<Rightarrow> svc_error \<Rightarrow> svc_counters \<times> svc_response" where
  "deny_error c e = (case e of Http_Error st code msg \<Rightarrow> deny c st code msg | Internal m \<Rightarrow> deny c 500 ''internal'' (take 120 m))"

definition body_text :: "json \<Rightarrow> string \<Rightarrow> string" where
  "body_text b k = js_string_opt (coalesce (jget k b) (Some (JStr [])))"

definition wrap_key :: "cipher_fun \<Rightarrow> svc_world \<Rightarrow> string option \<Rightarrow> string \<Rightarrow> json \<Rightarrow> svc_counters \<Rightarrow> svc_counters \<times> svc_response" where
  "wrap_key gcm w auth tenant body c =
     (let dek = w_base64 w (body_text body ''dek'')
      in if length dek \<noteq> 32 then deny c 400 ''bad_request'' ''dek must be 32 bytes, base64''
         else case authorize w auth tenant (Some [''owner'', ''editor'']) of Inl e \<Rightarrow> deny_error c e
              | Inr _ \<Rightarrow>
                  (case kekFor w tenant of Inl e \<Rightarrow> deny_error c e
                   | Inr (key, key_id) \<Rightarrow>
                       (c\<lparr>ct_wrap := ct_wrap c + 1\<rparr>,
                        Svc_Json 200 [(''wrapped'', JStr (b64 (w_iv w @ gcm key (w_iv w) (dek_aad tenant) dek))), (''key_id'', JStr key_id)])))"

definition unwrap_key :: "plain_fun \<Rightarrow> svc_world \<Rightarrow> string option \<Rightarrow> string \<Rightarrow> json \<Rightarrow> svc_counters \<Rightarrow> svc_counters \<times> svc_response" where
  "unwrap_key ungcm w auth tenant body c =
     (let wrapped = w_base64 w (body_text body ''wrapped'')
      in if length wrapped \<noteq> 12 + 32 + 16 then deny c 400 ''bad_request'' ''wrapped has the wrong length''
         else case authorize w auth tenant None of Inl e \<Rightarrow> deny_error c e
              | Inr _ \<Rightarrow>
                  (case kekFor w tenant of Inl e \<Rightarrow> deny_error c e
                   | Inr (key, _) \<Rightarrow>
                       (case ungcm key (take 12 wrapped) (dek_aad tenant) (drop 12 wrapped) of
                          None \<Rightarrow> deny c 409 ''unwrap_failed'' (''wrapped key does not authenticate under this tenant'' @ [CHR 0x27] @ ''s KEK'')
                        | Some dek \<Rightarrow> (c\<lparr>ct_unwrap := ct_unwrap c + 1\<rparr>, Svc_Json 200 [(''dek'', JStr (b64 dek))]))))"

definition health :: "svc_counters \<Rightarrow> svc_response" where
  "health c = Svc_Json 200 [(''ok'', JBool True), (''wrap'', JNum (int (ct_wrap c))), (''unwrap'', JNum (int (ct_unwrap c))), (''denied'', JNum (int (ct_denied c)))]"

text \<open>The handler. Reading a member of a \<open>null\<close> body throws before the \<open>try\<close>.\<close>

definition handle_key :: "cipher_fun \<Rightarrow> plain_fun \<Rightarrow> svc_world \<Rightarrow> svc_counters \<Rightarrow> svc_request \<Rightarrow> svc_counters \<times> svc_response option" where
  "handle_key gcm ungcm w c r =
     (if sr_method r = ''OPTIONS'' then (c, Some (Svc_Empty 204))
      else if sr_method r = ''GET'' \<and> sr_path r = ''/health'' then (c, Some (health c))
      else if sr_method r \<noteq> ''POST'' \<or> sr_path r \<notin> {''/wrap'', ''/unwrap''} then apsnd Some (deny c 404 ''not_found'' ''no such route'')
      else case sr_body r of None \<Rightarrow> apsnd Some (deny c 400 ''bad_request'' ''body is not JSON'')
           | Some body \<Rightarrow>
               if body = JNull then (c, None)
               else (let tenant = body_text body ''tenant_id''
                     in apsnd Some
                          (if \<not> is_uuid tenant then deny c 400 ''bad_request'' ''tenant_id must be a uuid''
                           else if sr_path r = ''/wrap'' then wrap_key gcm w (sr_authorization r) tenant body c
                           else unwrap_key ungcm w (sr_authorization r) tenant body c)))"

subsection \<open>Who gets a key\<close>

text \<open>What a caller must have shown: a token verified for the tenant's own target and a membership read with that token.\<close>

definition admitted :: "svc_world \<Rightarrow> string option \<Rightarrow> string \<Rightarrow> (string \<Rightarrow> bool) \<Rightarrow> bool" where
  "admitted w auth tenant may \<longleftrightarrow>
     (\<exists>cfg tn t token sub role rows.
        w_config w = Inr cfg \<and> obj_get (sc_tenants cfg) tenant = Some tn \<and> obj_get (sc_targets cfg) tn = Some t
        \<and> auth = Some (''Bearer '' @ token) \<and> token \<noteq> [] \<and> sub \<noteq> []
        \<and> (w_alg w token = Some ''HS256'' \<and> w_user w t token = Inr (200, Some sub)
           \<or> (\<exists>alg. w_alg w token = Some alg \<and> alg \<noteq> ''HS256'') \<and> w_jwt w (st_jwks_url t) (st_issuer t) token = Inr (Some sub))
        \<and> w_memberships w t tenant sub token = Inr (200, role # rows) \<and> may role)"

lemma authorize_admitted:
  assumes "authorize w auth tenant roles = Inr sub"
  shows "admitted w auth tenant (\<lambda>r. case roles of None \<Rightarrow> True | Some rs \<Rightarrow> r \<in> set rs)"
proof -
  obtain cfg t where t: "w_config w = Inr cfg" "tenant_target cfg tenant = Inr t" "bearer_token auth \<noteq> []"
    and v: "verified_subject w t (bearer_token auth) = Inr sub" "sub \<noteq> []"
    and m: "\<exists>rows. w_memberships w t tenant sub (bearer_token auth) = Inr (200, rows) \<and> check_role roles rows = None"
    using assms by (auto simp: authorize_def Let_def split: sum.splits if_splits option.splits prod.splits)
  obtain role rows where rows: "w_memberships w t tenant sub (bearer_token auth) = Inr (200, role # rows)" "check_role roles (role # rows) = None"
  proof -
    from m obtain rs where rs: "w_memberships w t tenant sub (bearer_token auth) = Inr (200, rs)" "check_role roles rs = None" by blast
    then show thesis using that by (cases rs) (auto simp: check_role_def)
  qed
  have auth: "auth = Some (''Bearer '' @ bearer_token auth)"
    using t(3) by (auto simp: bearer_token_def starts_with_iff split: option.splits if_splits)
  have "w_alg w (bearer_token auth) = Some ''HS256'' \<and> w_user w t (bearer_token auth) = Inr (200, Some sub)
      \<or> (\<exists>alg. w_alg w (bearer_token auth) = Some alg \<and> alg \<noteq> ''HS256'') \<and> w_jwt w (st_jwks_url t) (st_issuer t) (bearer_token auth) = Inr (Some sub)"
    using v by (auto simp: verified_subject_def split: option.splits sum.splits if_splits prod.splits)
  moreover obtain tn where "obj_get (sc_tenants cfg) tenant = Some tn" "obj_get (sc_targets cfg) tn = Some t"
    using t(2) by (auto simp: tenant_target_def truthy_def split: option.splits if_splits)
  moreover have "case roles of None \<Rightarrow> True | Some rs \<Rightarrow> role \<in> set rs" using rows(2) by (auto simp: check_role_def split: option.splits if_splits)
  ultimately show ?thesis unfolding admitted_def using t(1,3) v(2) rows(1) auth by blast
qed

lemma deny_json: "snd (deny c st code msg) = Svc_Json st [(''error'', JStr code), (''message'', JStr msg)]"
  by (simp add: deny_def)

definition refusals :: "svc_error \<Rightarrow> bool" where
  "refusals e = (case e of Http_Error st _ _ \<Rightarrow> st \<noteq> 200 | Internal _ \<Rightarrow> True)"

lemma authorize_refusals: "authorize w auth tenant roles = Inl e \<Longrightarrow> refusals e"
  by (auto simp: authorize_def tenant_target_def verified_subject_def check_role_def refusals_def Let_def
      split: sum.splits if_splits option.splits prod.splits list.splits)

lemma kekFor_refusals: "kekFor w tenant = Inl e \<Longrightarrow> refusals e"
  by (auto simp: kekFor_def refusals_def split: sum.splits option.splits)

lemma deny_error_not_200: "refusals e \<Longrightarrow> deny_error c e \<noteq> (c', Svc_Json 200 j)"
  by (cases e) (auto simp: deny_error_def refusals_def deny_def)

lemma wrap_key_200:
  assumes "wrap_key gcm w auth tenant body c = (c', Svc_Json 200 j)"
  obtains dek sub key key_id where "w_base64 w (body_text body ''dek'') = dek" "length dek = 32"
    and "authorize w auth tenant (Some [''owner'', ''editor'']) = Inr sub" "kekFor w tenant = Inr (key, key_id)"
    and "j = [(''wrapped'', JStr (b64 (w_iv w @ gcm key (w_iv w) (dek_aad tenant) dek))), (''key_id'', JStr key_id)]"
proof -
  have "length (w_base64 w (body_text body ''dek'')) = 32" using assms by (auto simp: wrap_key_def deny_def Let_def split: if_splits)
  moreover obtain sub where sub: "authorize w auth tenant (Some [''owner'', ''editor'']) = Inr sub"
    using assms calculation deny_error_not_200 [OF authorize_refusals, of w auth tenant "Some [''owner'', ''editor'']" _ c c' j]
    by (cases "authorize w auth tenant (Some [''owner'', ''editor''])") (auto simp: wrap_key_def Let_def)
  moreover obtain kp where kp: "kekFor w tenant = Inr kp"
    using assms calculation deny_error_not_200 [OF kekFor_refusals, of w tenant _ c c' j]
    by (cases "kekFor w tenant") (auto simp: wrap_key_def Let_def)
  ultimately show thesis using that assms by (cases kp) (auto simp: wrap_key_def Let_def)
qed

lemma unwrap_key_200:
  assumes "unwrap_key ungcm w auth tenant body c = (c', Svc_Json 200 j)"
  obtains sub key key_id dek where "length (w_base64 w (body_text body ''wrapped'')) = 60" "authorize w auth tenant None = Inr sub"
    and "kekFor w tenant = Inr (key, key_id)" "j = [(''dek'', JStr (b64 dek))]"
    and "ungcm key (take 12 (w_base64 w (body_text body ''wrapped''))) (dek_aad tenant) (drop 12 (w_base64 w (body_text body ''wrapped''))) = Some dek"
proof -
  have "length (w_base64 w (body_text body ''wrapped'')) = 60" using assms by (auto simp: unwrap_key_def deny_def Let_def split: if_splits)
  moreover obtain sub where sub: "authorize w auth tenant None = Inr sub"
    using assms calculation deny_error_not_200 [OF authorize_refusals, of w auth tenant None _ c c' j]
    by (cases "authorize w auth tenant None") (auto simp: unwrap_key_def Let_def)
  moreover obtain kp where kp: "kekFor w tenant = Inr kp"
    using assms calculation deny_error_not_200 [OF kekFor_refusals, of w tenant _ c c' j]
    by (cases "kekFor w tenant") (auto simp: unwrap_key_def Let_def)
  ultimately show thesis using that assms by (cases kp) (auto simp: unwrap_key_def Let_def deny_def split: option.splits)
qed

text \<open>C31. The key service answers a request to wrap or unwrap with 200 only for an admitted caller: the tenant id is a uuid of
  the directory, the token was verified for that tenant's own target, a membership of the tenant was read with it,
  and for wrapping the first membership's role is owner or editor.\<close>

theorem key_service_admits:
  assumes "handle_key gcm ungcm w c r = (c', Some (Svc_Json 200 j))" "sr_method r = ''POST''"
  shows "\<exists>body tenant. sr_body r = Some body \<and> tenant = body_text body ''tenant_id'' \<and> is_uuid tenant
    \<and> admitted w (sr_authorization r) tenant (\<lambda>role. sr_path r = ''/wrap'' \<longrightarrow> role \<in> {''owner'', ''editor''})"
proof -
  obtain body where body: "sr_body r = Some body" "is_uuid (body_text body ''tenant_id'')" "sr_path r \<in> {''/wrap'', ''/unwrap''}"
    and run: "(if sr_path r = ''/wrap'' then wrap_key gcm w (sr_authorization r) (body_text body ''tenant_id'') body c
        else unwrap_key ungcm w (sr_authorization r) (body_text body ''tenant_id'') body c) = (c', Svc_Json 200 j)"
    using assms by (auto simp: handle_key_def deny_def apsnd_def map_prod_def Let_def split: if_splits option.splits prod.splits)
  have "admitted w (sr_authorization r) (body_text body ''tenant_id'') (\<lambda>role. sr_path r = ''/wrap'' \<longrightarrow> role \<in> {''owner'', ''editor''})"
  proof (cases "sr_path r = ''/wrap''")
    case True
    then obtain sub where "authorize w (sr_authorization r) (body_text body ''tenant_id'') (Some [''owner'', ''editor'']) = Inr sub"
      using run by (auto elim: wrap_key_200)
    from authorize_admitted [OF this] True show ?thesis by simp
  next
    case False
    then obtain sub where "authorize w (sr_authorization r) (body_text body ''tenant_id'') None = Inr sub"
      using run by (auto elim: unwrap_key_200)
    from authorize_admitted [OF this] False show ?thesis by simp
  qed
  then show ?thesis using body by blast
qed

text \<open>What the client reads of an answer: its status and the text members of its body.\<close>

definition answer_of :: "svc_response option \<Rightarrow> key_answer" where
  "answer_of a =
     (case a of None \<Rightarrow> Key_Answer 500 [] | Some (Svc_Empty st) \<Rightarrow> Key_Answer st []
      | Some (Svc_Json st j) \<Rightarrow> Key_Answer st (List.map_filter (\<lambda>(k, v). map_option (Pair k) (jstr v)) j))"

definition key_request :: "string \<Rightarrow> string option \<Rightarrow> json obj \<Rightarrow> svc_request" where
  "key_request path auth body = \<lparr>sr_method = ''POST'', sr_path = path, sr_authorization = auth, sr_body = Some (JObj body)\<rparr>"

lemma kekFor_keks: "w_keks w' = w_keks w \<Longrightarrow> w_base64 w' = w_base64 w \<Longrightarrow> kekFor w' tenant = kekFor w tenant"
  by (simp only: kekFor_def)

text \<open>C32. A key the client has had wrapped comes back: whatever member asks later, the service unwraps what \<open>wrapDek\<close>
  was given for the tenant to the same 32 bytes, and the client's \<open>unwrapDek\<close> returns and caches them.\<close>

theorem wrapped_key_returns:
  assumes "gcm_law gcm ungcm" "\<And>u. w_base64 w (b64 u) = u" "length (w_iv w) = 12"
    and "handle_key gcm ungcm w c (key_request ''/wrap'' auth [(''tenant_id'', JStr tenant), (''dek'', JStr (b64 dek))]) = (c1, a1)"
    and "wrapDek (answer_of a1) = Inr (Some wrapped, key_id)"
    and "w_keks w' = w_keks w" "w_base64 w' = w_base64 w" "authorize w' auth' tenant None = Inr sub"
    and "handle_key gcm ungcm w' c' (key_request ''/unwrap'' auth' [(''tenant_id'', JStr tenant), (''wrapped'', JStr wrapped)]) = (c2, a2)"
    and "deks aid = None"
  shows "length dek = 32 \<and> unwrapDek deks aid (answer_of a2) = (deks(aid \<mapsto> dek), Inr dek)"
proof -
  have bt: "body_text (JObj b) k = (case obj_get b k of Some (JStr s) \<Rightarrow> s | _ \<Rightarrow> body_text (JObj b) k)" for b k
    by (auto simp: body_text_def jget_def coalesce_def nn_def js_string_opt_def split: option.splits json.splits)
  obtain j where a1: "a1 = Some (Svc_Json 200 j)" "wrapDek (answer_of a1) = Inr (Some wrapped, key_id)"
    using assms(5) by (auto simp: wrapDek_def key_call_def answer_of_def split: option.splits svc_response.splits sum.splits if_splits key_answer.splits)
  have uuid: "is_uuid tenant" and run: "wrap_key gcm w auth tenant (JObj [(''tenant_id'', JStr tenant), (''dek'', JStr (b64 dek))]) c = (c1, Svc_Json 200 j)"
    using assms(4) a1(1) by (auto simp: handle_key_def key_request_def bt deny_def apsnd_def map_prod_def Let_def split: if_splits prod.splits)
  obtain key kid where key: "kekFor w tenant = Inr (key, kid)" "length dek = 32"
    and j: "j = [(''wrapped'', JStr (b64 (w_iv w @ gcm key (w_iv w) (dek_aad tenant) dek))), (''key_id'', JStr kid)]"
    using run assms(2) by (auto elim!: wrap_key_200 simp: bt)
  have w: "wrapped = b64 (w_iv w @ gcm key (w_iv w) (dek_aad tenant) dek)"
    using a1(2) by (simp add: a1(1) j answer_of_def wrapDek_def key_call_def jstr_def map_filter_simps)
  have dec: "ungcm key (w_iv w) (dek_aad tenant) (gcm key (w_iv w) (dek_aad tenant) dek) = Some dek"
    and len: "length (gcm key (w_iv w) (dek_aad tenant) dek) = 48" using assms(1) key(2) by (simp_all add: gcm_law_def TAG_def)
  have "a2 = Some (Svc_Json 200 [(''dek'', JStr (b64 dek))])"
    using assms(9) uuid assms(2,3,7,8) key(1) dec len kekFor_keks [OF assms(6,7)]
    by (auto simp: handle_key_def key_request_def bt w unwrap_key_def Let_def)
  then show ?thesis using key(2) assms(10) by (simp add: unwrapDek_def key_call_def answer_of_def jstr_def map_filter_simps unb64_b64)
qed

subsection \<open>A concrete exchange\<close>

definition demo_tenant :: string where
  "demo_tenant = ''00000000-0000-0000-0000-000000000001''"

definition demo_svc :: svc_world where
  "demo_svc = \<lparr>w_config = Inr \<lparr>sc_targets = [(''eu'', \<lparr>st_issuer = ''iss'', st_auth_url = ''a'', st_jwks_url = ''j'', st_rest_url = ''r'', st_apikey = ''k''\<rparr>)],
       sc_tenants = [(demo_tenant, ''eu'')]\<rparr>,
     w_keks = Inr [(demo_tenant, \<lparr>kk_key_id = ''kek1'', kk_kek_b64 = b64 (replicate 32 3)\<rparr>)],
     w_base64 = (\<lambda>s. case unb64 s of Inr u \<Rightarrow> u | Inl _ \<Rightarrow> []), w_alg = (\<lambda>_. Some ''RS256''), w_user = (\<lambda>_ _. Inl ''unused''),
     w_jwt = (\<lambda>_ _ _. Inr (Some ''user1'')), w_memberships = (\<lambda>_ _ _ _. Inr (200, [''editor''])), w_iv = replicate 12 5\<rparr>"

lemma demo_authorize: "roles \<in> {None, Some [''owner'', ''editor'']} \<Longrightarrow> authorize demo_svc (Some ''Bearer tok'') demo_tenant roles = Inr ''user1''"
  by (auto simp: authorize_def demo_svc_def tenant_target_def truthy_def bearer_token_def verified_subject_def check_role_def Let_def demo_tenant_def)

lemma demo_base64: "w_base64 demo_svc (b64 u) = u"
  by (simp add: demo_svc_def unb64_b64)

lemma demo_uuid: "is_uuid demo_tenant"
  by code_simp

definition demo_wrapped :: string where
  "demo_wrapped = b64 (replicate 12 5 @ toy_gcm (replicate 32 3) (replicate 12 5) (dek_aad demo_tenant) demo_dek)"

lemma demo_wrap:
  "handle_key toy_gcm toy_ungcm demo_svc c (key_request ''/wrap'' (Some ''Bearer tok'') [(''tenant_id'', JStr demo_tenant), (''dek'', JStr (b64 demo_dek))]) =
     (c\<lparr>ct_wrap := ct_wrap c + 1\<rparr>, Some (Svc_Json 200 [(''wrapped'', JStr demo_wrapped), (''key_id'', JStr ''kek1'')]))"
proof -
  have "kekFor demo_svc demo_tenant = Inr (replicate 32 3, ''kek1'')"
    using demo_base64 by (simp add: kekFor_def importDek_def demo_svc_def)
  then show ?thesis
    by (simp add: handle_key_def key_request_def wrap_key_def body_text_def jget_def coalesce_def nn_def js_string_opt_def demo_uuid demo_base64
        demo_authorize demo_wrapped_def Let_def) (simp add: demo_svc_def demo_dek_def)
qed

theorem key_service_admits_witness:
  "admitted demo_svc (Some ''Bearer tok'') demo_tenant (\<lambda>role. role \<in> {''owner'', ''editor''})"
  using key_service_admits [OF demo_wrap [of "\<lparr>ct_wrap = 0, ct_unwrap = 0, ct_denied = 0\<rparr>"]]
  by (simp add: key_request_def body_text_def jget_def coalesce_def nn_def js_string_opt_def)

theorem wrapped_key_returns_witness:
  "\<exists>c2 a2. handle_key toy_gcm toy_ungcm demo_svc \<lparr>ct_wrap = 1, ct_unwrap = 0, ct_denied = 0\<rparr>
       (key_request ''/unwrap'' (Some ''Bearer tok'') [(''tenant_id'', JStr demo_tenant), (''wrapped'', JStr demo_wrapped)]) = (c2, a2)
     \<and> unwrapDek Map.empty ''a'' (answer_of a2) = ([''a'' \<mapsto> demo_dek], Inr demo_dek)"
proof -
  obtain c2 a2 where un: "handle_key toy_gcm toy_ungcm demo_svc \<lparr>ct_wrap = 1, ct_unwrap = 0, ct_denied = 0\<rparr>
       (key_request ''/unwrap'' (Some ''Bearer tok'') [(''tenant_id'', JStr demo_tenant), (''wrapped'', JStr demo_wrapped)]) = (c2, a2)" by fastforce
  have "wrapDek (answer_of (Some (Svc_Json 200 [(''wrapped'', JStr demo_wrapped), (''key_id'', JStr ''kek1'')]))) = Inr (Some demo_wrapped, Some ''kek1'')"
    by (simp add: wrapDek_def key_call_def answer_of_def jstr_def map_filter_simps)
  from wrapped_key_returns [OF toy_gcm_law demo_base64 _ demo_wrap this refl refl demo_authorize un, of Map.empty "''a''"]
  show ?thesis using un by (simp add: demo_svc_def)
qed

end
