(* ===== verification/Keyed_Session.thy ===== *)
theory Keyed_Session
  imports Ranged_Read
begin

text \<open>
  Sessions of the client-keyed-objects client (\<open>client/src/ctx.ts\<close>) and its calls of the Data API
  (\<open>catalogue.ts\<close>): the token grant with its retries, the token getter that shares one refresh among all callers,
  and the one retry of a token the API finds issued in the future. A session is a machine: an event is a caller
  asking for a token at some time, or the answer to the refresh under way.
\<close>

subsection \<open>A token grant\<close>

definition auth_unreachable :: "string \<Rightarrow> ck_error" where
  "auth_unreachable msg = CkError AuthError (''auth unreachable: '' @ msg) []"

text \<open>
  The loop: network errors are retried with growing waits, an answer is final. \<open>answers k\<close> is what attempt \<open>k\<close>
  meets; the waits taken are returned with the result.
\<close>

function grant_loop :: "(nat \<Rightarrow> string + 'a) \<Rightarrow> nat \<Rightarrow> nat list \<times> (ck_error + 'a)" where
  "grant_loop answers attempt =
     (case answers attempt of Inr r \<Rightarrow> ([], Inr r)
      | Inl msg \<Rightarrow> if attempt \<ge> 3 then ([], Inl (auth_unreachable msg))
                   else (let (ws, r) = grant_loop answers (attempt + 1) in (1000 * (attempt + 1) # ws, r)))"
  by pat_completeness auto
termination by (relation "measure (\<lambda>(_, k). 4 - k)") auto

declare grant_loop.simps [simp del]

definition grant_error :: "string \<Rightarrow> int \<Rightarrow> json \<Rightarrow> ck_error" where
  "grant_error kind st j =
     CkError AuthError (''token grant '' @ kind @ '' answered '' @ show_int st)
       [(''status'', Inr st), (''code'', Inl (js_string_opt (coalesce (coalesce (jget ''error_code'' j) (jget ''error'' j)) (Some (JStr [])))))]"

text \<open>An answer is a status and a body; a body that is no JSON counts as \<open>{}\<close>.\<close>

definition grant :: "(nat \<Rightarrow> string + int \<times> json option) \<Rightarrow> string \<Rightarrow> nat list \<times> (ck_error + json)" where
  "grant answers kind =
     (let (ws, r) = grant_loop answers 0
      in (ws, case r of Inl e \<Rightarrow> Inl e
              | Inr (st, body) \<Rightarrow>
                  (let j = (case body of None \<Rightarrow> JObj [] | Some b \<Rightarrow> b)
                   in if j = JNull \<and> st = 200 then Inl (Thrown ''null is not an object'')
                      else if st \<noteq> 200 \<or> \<not> (case jget ''access_token'' j of None \<Rightarrow> False | Some v \<Rightarrow> jtruthy v) then Inl (grant_error kind st j)
                      else Inr j)))"

subsection \<open>The session\<close>

text \<open>
  \<open>ss_trace\<close> records the refresh grants sent, with the refresh token each carried, and how they ended;
  \<open>ss_answered\<close> the callers answered. Time is in milliseconds; the expiry is a JavaScript number, as
  \<open>Number(j.expires_at)\<close> may not be one.
\<close>

datatype grant_event = Sent string | Ended "string option"

record session =
  ss_access :: string
  ss_refreshToken :: string
  ss_expMs :: jsnum
  ss_refreshing :: bool
  ss_refreshes :: nat
  ss_waiting :: "nat list"
  ss_trace :: "grant_event list"
  ss_answered :: "(nat \<times> (ck_error + string)) list"

definition member_text :: "string \<Rightarrow> json \<Rightarrow> string" where
  "member_text k j = js_string_opt (jget k j)"

definition expiry :: "json \<Rightarrow> jsnum" where
  "expiry j = (case (case jget ''expires_at'' j of None \<Rightarrow> NaN | Some v \<Rightarrow> js_number v) of Fin r \<Rightarrow> Fin (r * 1000) | x \<Rightarrow> x)"

text \<open>\<open>signIn\<close> after its grant.\<close>

definition new_session :: "json \<Rightarrow> session" where
  "new_session j =
     \<lparr>ss_access = member_text ''access_token'' j, ss_refreshToken = member_text ''refresh_token'' j, ss_expMs = expiry j, ss_refreshing = False,
      ss_refreshes = 0, ss_waiting = [], ss_trace = [], ss_answered = []\<rparr>"

definition stale :: "jsnum \<Rightarrow> int \<Rightarrow> bool" where
  "stale e now = (case e of Fin r \<Rightarrow> r - of_int now < 60000 | NegInf \<Rightarrow> True | _ \<Rightarrow> False)"

text \<open>\<open>token()\<close> called by caller \<open>c\<close>.\<close>

definition ask_token :: "nat \<Rightarrow> int \<Rightarrow> session \<Rightarrow> session" where
  "ask_token c now s =
     (if stale (ss_expMs s) now
      then (if ss_refreshing s then s\<lparr>ss_waiting := ss_waiting s @ [c]\<rparr>
            else s\<lparr>ss_refreshing := True, ss_trace := ss_trace s @ [Sent (ss_refreshToken s)], ss_waiting := ss_waiting s @ [c]\<rparr>)
      else s\<lparr>ss_answered := ss_answered s @ [(c, Inr (ss_access s))]\<rparr>)"

text \<open>The refresh ends: the new tokens are stored, the shared promise is cleared and every waiting caller goes on.\<close>

definition refresh_done :: "ck_error + json \<Rightarrow> session \<Rightarrow> session" where
  "refresh_done r s =
     (case r of
        Inl e \<Rightarrow> s\<lparr>ss_refreshing := False, ss_trace := ss_trace s @ [Ended None], ss_waiting := [],
                  ss_answered := ss_answered s @ map (\<lambda>c. (c, Inl e)) (ss_waiting s)\<rparr>
      | Inr j \<Rightarrow>
          (let access = member_text ''access_token'' j; rt = member_text ''refresh_token'' j
           in s\<lparr>ss_access := access, ss_refreshToken := rt, ss_expMs := expiry j, ss_refreshes := ss_refreshes s + 1,
                ss_refreshing := False, ss_trace := ss_trace s @ [Ended (Some rt)], ss_waiting := [],
                ss_answered := ss_answered s @ map (\<lambda>c. (c, Inr access)) (ss_waiting s)\<rparr>))"

datatype session_event = Ask nat int | Refreshed "ck_error + json"

definition session_step :: "session \<Rightarrow> session_event \<Rightarrow> session" where
  "session_step s e = (case e of Ask c now \<Rightarrow> ask_token c now s | Refreshed r \<Rightarrow> if ss_refreshing s then refresh_done r s else s)"

subsection \<open>Calls of the Data API\<close>

datatype rest_answer = Rest_Unreachable string | Rest_Answer int string "json option"

definition rest_error :: "string \<Rightarrow> int \<Rightarrow> string \<Rightarrow> json option \<Rightarrow> ck_error" where
  "rest_error call st txt j =
     (let (code, msg) = (case nn j of None \<Rightarrow> ([], take 120 txt)
                         | Some v \<Rightarrow> (js_string_opt (coalesce (jget ''code'' v) (Some (JStr []))),
                                      take 120 (js_string_opt (coalesce (jget ''message'' v) (Some (JStr []))))))
      in CkError CatalogueError (call @ '' answered '' @ show_int st @ '' '' @ code @ '' '' @ msg)
           [(''status'', Inr st), (''code'', Inl code), (''message'', Inl msg)])"

text \<open>One call; \<open>call\<close> is the method and the path without its query. The value is the parsed body, or \<open>null\<close> for none.\<close>

definition rest1 :: "string \<Rightarrow> rest_answer \<Rightarrow> ck_error + json" where
  "rest1 call a =
     (case a of Rest_Unreachable msg \<Rightarrow> Inl (CkError CatalogueError (''data api unreachable: '' @ msg) [])
      | Rest_Answer st txt j \<Rightarrow>
          if st \<ge> 300 then Inl (rest_error call st txt j)
          else if txt = [] then Inr JNull
          else (case j of None \<Rightarrow> Inl (Thrown ''not JSON'') | Some v \<Rightarrow> Inr v))"

definition issued_in_future :: "ck_error \<Rightarrow> bool" where
  "issued_in_future e =
     (case e of CkError _ _ d \<Rightarrow> obj_get d ''code'' = Some (Inl ''PGRST303'')
        \<and> (case obj_get d ''message'' of Some (Inl m) \<Rightarrow> str_includes (to_lower m) ''issued at future'' | _ \<Rightarrow> False)
      | Thrown _ \<Rightarrow> False)"

text \<open>The call and the counter of retries; the second answer is used only when the first is that error.\<close>

definition rest :: "string \<Rightarrow> rest_answer \<Rightarrow> rest_answer \<Rightarrow> nat \<Rightarrow> nat \<times> (ck_error + json)" where
  "rest call a1 a2 retries =
     (case rest1 call a1 of Inr v \<Rightarrow> (retries, Inr v)
      | Inl e \<Rightarrow> if issued_in_future e then (retries + 1, rest1 call a2) else (retries, Inl e))"

subsection \<open>At most one refresh, each token used once\<close>

lemma grant_loop_bound:
  "attempt \<le> 3 \<Longrightarrow> length (fst (grant_loop answers attempt)) \<le> 3 - attempt \<and>
     (case snd (grant_loop answers attempt) of
        Inr r \<Rightarrow> answers (attempt + length (fst (grant_loop answers attempt))) = Inr r
      | Inl _ \<Rightarrow> \<forall>k. attempt \<le> k \<longrightarrow> k \<le> 3 \<longrightarrow> isl (answers k))"
proof (induction answers attempt rule: grant_loop.induct)
  case (1 answers attempt)
  show ?case
  proof (cases "answers attempt")
    case (Inr r)
    then show ?thesis by (simp add: grant_loop.simps [of answers attempt])
  next
    case (Inl msg)
    show ?thesis
    proof (cases "attempt \<ge> 3")
      case True
      then have "attempt = 3" using 1(2) by simp
      then have "\<forall>k. attempt \<le> k \<longrightarrow> k \<le> 3 \<longrightarrow> isl (answers k)" using Inl by (metis isl_def le_antisym)
      then show ?thesis using Inl True by (simp add: grant_loop.simps [of answers attempt])
    next
      case False
      then have ih: "length (fst (grant_loop answers (attempt + 1))) \<le> 3 - (attempt + 1)"
        "case snd (grant_loop answers (attempt + 1)) of
           Inr r \<Rightarrow> answers (attempt + 1 + length (fst (grant_loop answers (attempt + 1)))) = Inr r
         | Inl _ \<Rightarrow> \<forall>k. attempt + 1 \<le> k \<longrightarrow> k \<le> 3 \<longrightarrow> isl (answers k)"
        using 1(1) [OF Inl False] by simp_all
      obtain ws r where g: "grant_loop answers (attempt + 1) = (ws, r)" by fastforce
      have e: "grant_loop answers attempt = (1000 * (attempt + 1) # ws, r)" using Inl False g by (simp add: grant_loop.simps [of answers attempt])
      show ?thesis
      proof (cases r)
        case r: (Inl e0)
        have "isl (answers k)" if "attempt \<le> k" "k \<le> 3" for k using that ih(2) g r Inl by (cases "k = attempt") auto
        then show ?thesis using e r ih(1) g False by auto
      next
        case r: (Inr v)
        then show ?thesis using e ih g False by auto
      qed
    qed
  qed
qed

text \<open>
  A trace of grants in which at most one is under way at a time and each carries the refresh token that the last
  successful one returned.
\<close>

fun one_at_a_time :: "string \<Rightarrow> grant_event list \<Rightarrow> bool" where
  "one_at_a_time rt [] = True"
| "one_at_a_time rt [Sent x] = (x = rt)"
| "one_at_a_time rt (Sent x # Ended y # tr) = (x = rt \<and> one_at_a_time (case y of None \<Rightarrow> rt | Some z \<Rightarrow> z) tr)"
| "one_at_a_time rt _ = False"

text \<open>The refresh token in force after a trace, and whether a grant is under way.\<close>

definition current :: "string \<Rightarrow> grant_event list \<Rightarrow> string" where
  "current rt tr = foldl (\<lambda>t e. case e of Ended (Some z) \<Rightarrow> z | _ \<Rightarrow> t) rt tr"

definition under_way :: "grant_event list \<Rightarrow> bool" where
  "under_way tr = (tr \<noteq> [] \<and> (case last tr of Sent _ \<Rightarrow> True | _ \<Rightarrow> False))"

lemma one_at_a_time_sent: "one_at_a_time rt tr \<Longrightarrow> \<not> under_way tr \<Longrightarrow> one_at_a_time rt (tr @ [Sent (current rt tr)])"
  by (induction rt tr rule: one_at_a_time.induct) (auto simp: current_def under_way_def split: option.splits if_splits)

lemma one_at_a_time_ended: "one_at_a_time rt tr \<Longrightarrow> under_way tr \<Longrightarrow> one_at_a_time rt (tr @ [Ended y])"
  by (induction rt tr rule: one_at_a_time.induct) (auto simp: current_def under_way_def split: option.splits if_splits)

definition session_ok :: "string \<Rightarrow> session \<Rightarrow> bool" where
  "session_ok rt s \<longleftrightarrow> one_at_a_time rt (ss_trace s) \<and> ss_refreshToken s = current rt (ss_trace s)
     \<and> ss_refreshing s = under_way (ss_trace s) \<and> (ss_waiting s \<noteq> [] \<longleftrightarrow> ss_refreshing s)"

lemma session_step_ok: "session_ok rt s \<Longrightarrow> session_ok rt (session_step s e)"
  using one_at_a_time_sent [of rt "ss_trace s"] one_at_a_time_ended [of rt "ss_trace s"]
  by (cases e) (auto simp: session_ok_def session_step_def ask_token_def refresh_done_def current_def under_way_def Let_def split: sum.splits)

definition asked :: "session_event list \<Rightarrow> nat list" where
  "asked es = List.map_filter (\<lambda>e. case e of Ask c _ \<Rightarrow> Some c | _ \<Rightarrow> None) es"

lemma session_callers:
  "mset (map fst (ss_answered (foldl session_step s es))) + mset (ss_waiting (foldl session_step s es)) =
     mset (map fst (ss_answered s)) + mset (ss_waiting s) + mset (asked es)"
proof (induction es arbitrary: s)
  case (Cons e es)
  have "mset (map fst (ss_answered (session_step s e))) + mset (ss_waiting (session_step s e)) =
      mset (map fst (ss_answered s)) + mset (ss_waiting s) + mset (asked [e])"
    by (cases e) (auto simp: session_step_def ask_token_def refresh_done_def asked_def map_filter_simps image_mset.compositionality comp_def Let_def split: sum.splits)
  moreover have "mset (asked (e # es)) = mset (asked [e]) + mset (asked es)" by (simp add: asked_def map_filter_simps split: option.splits)
  ultimately show ?case using Cons [of "session_step s e"] by simp
qed (simp add: asked_def)

text \<open>C33. However callers ask and refreshes end, at most one refresh grant of a session is under way at a time, each
  carries the refresh token the last successful one returned, so none that was exchanged is sent again; callers wait
  only while a refresh is under way, and every call is answered once or still waiting.\<close>

theorem token_single_flight:
  fixes j es
  defines "s \<equiv> foldl session_step (new_session j) es"
  shows "one_at_a_time (member_text ''refresh_token'' j) (ss_trace s)
    \<and> (ss_waiting s \<noteq> [] \<longleftrightarrow> under_way (ss_trace s))
    \<and> mset (map fst (ss_answered s)) + mset (ss_waiting s) = mset (asked es)"
proof -
  let ?rt = "member_text ''refresh_token'' j"
  have "session_ok ?rt (foldl session_step s0 es)" if "session_ok ?rt s0" for s0
    using that by (induction es arbitrary: s0) (simp_all add: session_step_ok)
  moreover have "session_ok ?rt (new_session j)" by (simp add: session_ok_def new_session_def current_def under_way_def)
  ultimately have "session_ok ?rt s" by (simp add: s_def)
  moreover have "mset (map fst (ss_answered s)) + mset (ss_waiting s) = mset (asked es)"
    using session_callers [of "new_session j" es] by (simp add: s_def) (simp add: new_session_def)
  ultimately show ?thesis by (auto simp: session_ok_def)
qed

lemma rest_at_most_twice:
  "rest call a1 a2 n = (n', r) \<Longrightarrow> (n' = n \<and> r = rest1 call a1) \<or> (n' = n + 1 \<and> r = rest1 call a2 \<and> (\<exists>e. rest1 call a1 = Inl e \<and> issued_in_future e))"
  by (auto simp: rest_def split: sum.splits if_splits)

end
