(* ===== verification/Fanout_Api.thy ===== *)
theory Fanout_Api
  imports Json_Text
begin

text \<open>
  The fan-out of the governed-starter-kit (\<open>supabase/functions/fanout-api/fanout.ts\<close>): one call per upstream
  endpoint, a shared deadline per call, a per-user response cache that follows the upstream's own \<open>Cache-Control\<close>,
  and an aggregate that says what is missing. What an upstream or the cache answers, and the times taken, are
  arguments. The fan-out returns its aggregate and the entries it asked the cache to store.
\<close>

datatype endpoint = Ep_Profile | Ep_Feed | Ep_Inbox | Ep_Stats

definition endpoint_name :: "endpoint \<Rightarrow> string" where
  "endpoint_name e = (case e of Ep_Profile \<Rightarrow> ''profile'' | Ep_Feed \<Rightarrow> ''feed'' | Ep_Inbox \<Rightarrow> ''inbox'' | Ep_Stats \<Rightarrow> ''stats'')"

definition ENDPOINTS :: "endpoint list" where
  "ENDPOINTS = [Ep_Profile, Ep_Feed, Ep_Inbox, Ep_Stats]"

definition MAX_TTL_S :: nat where
  "MAX_TTL_S = 3600"

record cache_entry =
  ce_endpoint :: endpoint
  ce_body :: json
  ce_age_s :: int

record cache_write =
  cw_endpoint :: endpoint
  cw_body :: json
  cw_ttl_s :: nat

record controls =
  co_fail :: "endpoint list"
  co_slow :: "endpoint list"
  co_refresh :: bool

datatype up_status = Up_Ok | Up_Error | Up_Timeout

datatype up_source = From_Cache | From_Upstream

record up_report =
  up_status :: up_status
  up_source :: up_source
  up_ms :: int
  up_http :: "int option"
  up_ttl_s :: "nat option"
  up_age_s :: "int option"
  up_error :: "string option"

datatype cache_read = Read_Hit | Read_Miss | Read_Skipped | Read_Error | Read_Off

datatype cache_put = Put_Ok | Put_None | Put_Error | Put_Off

record cache_info =
  cf_read :: cache_read
  cf_read_ms :: int
  cf_write :: cache_put
  cf_write_ms :: int
  cf_error :: "string option"

record aggregate =
  ag_partial :: bool
  ag_total_ms :: int
  ag_timeout_ms :: int
  ag_cache :: cache_info
  ag_data :: "(endpoint \<times> json option) list"
  ag_upstreams :: "(endpoint \<times> up_report option) list"

subsection \<open>How long a response may be kept\<close>

text \<open>\<open>/^max-age=(\d+)$/\<close>\<close>

definition max_age :: "string \<Rightarrow> nat option" where
  "max_age p = (if starts_with p ''max-age='' \<and> drop 8 p \<noteq> [] \<and> list_all is_digit (drop 8 p) then Some (read_nat (drop 8 p)) else None)"

definition cacheTtl :: "string option \<Rightarrow> nat" where
  "cacheTtl header =
     (if \<not> truthy header then 0
      else let parts = map trim (split_char (CHR '','') (to_lower (the header)))
           in if ''no-store'' \<in> set parts \<or> ''no-cache'' \<in> set parts then 0
              else case List.find (\<lambda>p. max_age p \<noteq> None) parts of None \<Rightarrow> 0 | Some p \<Rightarrow> min (the (max_age p)) MAX_TTL_S)"

subsection \<open>The demo knobs\<close>

definition named_endpoints :: "(string \<Rightarrow> string option) \<Rightarrow> string \<Rightarrow> endpoint list" where
  "named_endpoints params name =
     List.map_filter (\<lambda>s. List.find (\<lambda>e. endpoint_name e = s) ENDPOINTS)
       (map trim (split_char (CHR '','') (case params name of None \<Rightarrow> [] | Some v \<Rightarrow> v)))"

definition parseControls :: "(string \<Rightarrow> string option) \<Rightarrow> controls" where
  "parseControls params =
     \<lparr>co_fail = named_endpoints params ''fail'', co_slow = named_endpoints params ''slow'', co_refresh = (params ''refresh'' = Some ''1'')\<rparr>"

subsection \<open>One call\<close>

text \<open>An answer whose body was read (its status, \<open>Cache-Control\<close> and parsed body), or an exception, aborted or not.\<close>

datatype up_reply = Up_Answer int "string option" "json option" int | Up_Threw bool string int

definition strip_slashes :: "string \<Rightarrow> string" where
  "strip_slashes s = rev (dropWhile (\<lambda>c. c = CHR ''/'') (rev s))"

definition upstream_url :: "string \<Rightarrow> controls \<Rightarrow> endpoint \<Rightarrow> string" where
  "upstream_url baseUrl co e =
     strip_slashes baseUrl @ ''/'' @ endpoint_name e
       @ (if e \<in> set (co_fail co) then ''?mode=fail'' else if e \<in> set (co_slow co) then ''?mode=slow'' else [])"

definition failed_report :: "up_status \<Rightarrow> int \<Rightarrow> int option \<Rightarrow> string \<Rightarrow> up_report" where
  "failed_report st ms http msg =
     \<lparr>up_status = st, up_source = From_Upstream, up_ms = ms, up_http = http, up_ttl_s = None, up_age_s = None, up_error = Some msg\<rparr>"

definition callOne :: "int \<Rightarrow> up_reply \<Rightarrow> json \<times> up_report" where
  "callOne timeoutMs r =
     (case r of
        Up_Answer st cc body ms \<Rightarrow>
          if \<not> (200 \<le> st \<and> st \<le> 299) then (JNull, failed_report Up_Error ms (Some st) (''upstream http '' @ show_int st))
          else (case body of None \<Rightarrow> (JNull, failed_report Up_Error ms (Some st) ''upstream body is not JSON'')
                | Some b \<Rightarrow> (b, \<lparr>up_status = Up_Ok, up_source = From_Upstream, up_ms = ms, up_http = Some st, up_ttl_s = Some (cacheTtl cc),
                              up_age_s = None, up_error = None\<rparr>))
      | Up_Threw aborted msg ms \<Rightarrow>
          if aborted then (JNull, failed_report Up_Timeout ms None (''no answer within '' @ show_int timeoutMs @ '' ms''))
          else (JNull, failed_report Up_Error ms None (take 200 msg)))"

subsection \<open>The fan-out\<close>

text \<open>The cache during one request: what it answers to the read and to the write, and the times they take.\<close>

record cache_world =
  cc_get :: "endpoint list \<Rightarrow> string + cache_entry list"
  cc_put :: "cache_write list \<Rightarrow> string option"
  cc_read_ms :: int
  cc_write_ms :: int

definition readable :: "controls \<Rightarrow> endpoint list" where
  "readable co = filter (\<lambda>e. e \<notin> set (co_fail co) \<and> e \<notin> set (co_slow co)) ENDPOINTS"

definition hit_map :: "controls \<Rightarrow> cache_entry list \<Rightarrow> endpoint \<rightharpoonup> cache_entry" where
  "hit_map co entries =
     foldl (\<lambda>m en. if ce_endpoint en \<in> set (readable co) then m(ce_endpoint en \<mapsto> en) else m) Map.empty entries"

definition read_cache :: "controls \<Rightarrow> cache_world option \<Rightarrow> (endpoint \<rightharpoonup> cache_entry) \<times> cache_info" where
  "read_cache co cache =
     (case cache of None \<Rightarrow> (Map.empty, \<lparr>cf_read = Read_Off, cf_read_ms = 0, cf_write = Put_Off, cf_write_ms = 0, cf_error = None\<rparr>)
      | Some c \<Rightarrow>
          (let info = \<lparr>cf_read = Read_Miss, cf_read_ms = 0, cf_write = Put_None, cf_write_ms = 0, cf_error = None\<rparr>
           in if co_refresh co then (Map.empty, info\<lparr>cf_read := Read_Skipped\<rparr>)
              else if readable co = [] then (Map.empty, info)
              else case cc_get c (readable co) of
                     Inl msg \<Rightarrow> (Map.empty, info\<lparr>cf_read := Read_Error, cf_error := Some (take 200 msg), cf_read_ms := cc_read_ms c\<rparr>)
                   | Inr entries \<Rightarrow>
                       (let hits = hit_map co entries
                        in (hits, info\<lparr>cf_read := (if list_ex (\<lambda>e. hits e \<noteq> None) ENDPOINTS then Read_Hit else Read_Miss), cf_read_ms := cc_read_ms c\<rparr>))))"

definition cached_report :: "cache_entry \<Rightarrow> up_report" where
  "cached_report en =
     \<lparr>up_status = Up_Ok, up_source = From_Cache, up_ms = 0, up_http = None, up_ttl_s = None, up_age_s = Some (ce_age_s en), up_error = None\<rparr>"

definition writes_of :: "(endpoint \<times> json \<times> up_report) list \<Rightarrow> cache_write list" where
  "writes_of outs =
     List.map_filter (\<lambda>(e, body, r). if up_status r = Up_Ok \<and> (case up_ttl_s r of None \<Rightarrow> 0 | Some n \<Rightarrow> n) > 0
        then Some \<lparr>cw_endpoint = e, cw_body = body, cw_ttl_s = the (up_ttl_s r)\<rparr> else None) outs"

definition fanOut ::
  "string \<Rightarrow> int \<Rightarrow> controls \<Rightarrow> cache_world option \<Rightarrow> (string \<Rightarrow> up_reply) \<Rightarrow> int \<Rightarrow> aggregate \<times> cache_write list option" where
  "fanOut baseUrl timeoutMs co cache upstream elapsed =
     (let (hits, info) = read_cache co cache;
          data0 = (\<lambda>e. map_option ce_body (hits e)); ups0 = (\<lambda>e. map_option cached_report (hits e));
          outs = map (\<lambda>e. (e, callOne timeoutMs (upstream (upstream_url baseUrl co e)))) (filter (\<lambda>e. hits e = None) ENDPOINTS);
          data = foldl (\<lambda>m (e, body, r). m(e \<mapsto> body)) data0 outs;
          ups = foldl (\<lambda>m (e, body, r). m(e \<mapsto> r)) ups0 outs;
          writes = writes_of outs;
          (info', put) = (case cache of None \<Rightarrow> (info, None)
             | Some c \<Rightarrow> if writes = [] then (info, None)
                          else ((case cc_put c writes of None \<Rightarrow> info\<lparr>cf_write := Put_Ok, cf_write_ms := cc_write_ms c\<rparr>
                                | Some msg \<Rightarrow> info\<lparr>cf_write := Put_Error, cf_error := Some (take 200 msg), cf_write_ms := cc_write_ms c\<rparr>),
                                Some writes))
      in (\<lparr>ag_partial = list_ex (\<lambda>e. case ups e of None \<Rightarrow> False | Some r \<Rightarrow> up_status r \<noteq> Up_Ok) ENDPOINTS, ag_total_ms = elapsed, ag_timeout_ms = timeoutMs,
            ag_cache = info', ag_data = map (\<lambda>e. (e, data e)) ENDPOINTS, ag_upstreams = map (\<lambda>e. (e, ups e)) ENDPOINTS\<rparr>, put))"

subsection \<open>An aggregate hides nothing\<close>

lemma cacheTtl_bound: "cacheTtl h \<le> 3600"
  by (auto simp: cacheTtl_def MAX_TTL_S_def Let_def split: option.splits)

lemma cacheTtl_forbidden:
  "p \<in> {''no-store'', ''no-cache''} \<Longrightarrow> p \<in> set (map trim (split_char (CHR '','') (to_lower h))) \<Longrightarrow> cacheTtl (Some h) = 0"
  by (auto simp: cacheTtl_def Let_def simp del: set_map)

lemma ENDPOINTS_all: "e \<in> set ENDPOINTS" "distinct ENDPOINTS"
  by (cases e) (auto simp: ENDPOINTS_def)

lemma fold_outcomes:
  "foldl (\<lambda>m (e, body, r). m(e \<mapsto> g body r)) m0 (map (\<lambda>e. (e, f e)) es) x = (if x \<in> set es then Some (g (fst (f x)) (snd (f x))) else m0 x)"
  by (induction es arbitrary: m0) (auto split: prod.splits)

lemma callOne_failed: "up_status (snd (callOne t r)) \<noteq> Up_Ok \<Longrightarrow> fst (callOne t r) = JNull \<and> up_error (snd (callOne t r)) \<noteq> None"
  by (auto simp: callOne_def failed_report_def split: up_reply.splits option.splits)

lemma callOne_source: "up_source (snd (callOne t r)) = From_Upstream" "up_age_s (snd (callOne t r)) = None"
  by (auto simp: callOne_def failed_report_def split: up_reply.splits option.splits)

lemma hit_map_readable: "hit_map co entries e = Some en \<Longrightarrow> en \<in> set entries \<and> ce_endpoint en = e \<and> e \<in> set (readable co)"
proof -
  have "foldl (\<lambda>m en. if ce_endpoint en \<in> set (readable co) then m(ce_endpoint en \<mapsto> en) else m) m0 entries e = Some en \<Longrightarrow>
      m0 e = Some en \<or> en \<in> set entries \<and> ce_endpoint en = e \<and> e \<in> set (readable co)" for m0
  proof (induction entries arbitrary: m0)
    case (Cons x xs)
    from Cons.IH [OF Cons.prems [unfolded foldl_Cons]] show ?case by (auto split: if_splits)
  qed simp
  from this [of Map.empty] show "hit_map co entries e = Some en \<Longrightarrow> en \<in> set entries \<and> ce_endpoint en = e \<and> e \<in> set (readable co)"
    by (simp add: hit_map_def)
qed

lemma read_cache_hit:
  "fst (read_cache co cache) e = Some en \<Longrightarrow>
     \<exists>c entries. cache = Some c \<and> \<not> co_refresh co \<and> cc_get c (readable co) = Inr entries \<and> en \<in> set entries \<and> ce_endpoint en = e
       \<and> e \<notin> set (co_fail co) \<and> e \<notin> set (co_slow co)"
  by (auto simp: read_cache_def Let_def readable_def dest!: hit_map_readable split: option.splits if_splits sum.splits)

text \<open>What an endpoint's place in the aggregate is: the cached entry if there is a hit, else its call's outcome.\<close>

definition place :: "string \<Rightarrow> int \<Rightarrow> controls \<Rightarrow> cache_world option \<Rightarrow> (string \<Rightarrow> up_reply) \<Rightarrow> endpoint \<Rightarrow> json \<times> up_report" where
  "place baseUrl timeoutMs co cache upstream e =
     (case fst (read_cache co cache) e of Some en \<Rightarrow> (ce_body en, cached_report en)
      | None \<Rightarrow> callOne timeoutMs (upstream (upstream_url baseUrl co e)))"

lemma fanOut_places:
  assumes "fanOut baseUrl timeoutMs co cache upstream elapsed = (ag, put)"
  shows "ag_data ag = map (\<lambda>e. (e, Some (fst (place baseUrl timeoutMs co cache upstream e)))) ENDPOINTS"
    and "ag_upstreams ag = map (\<lambda>e. (e, Some (snd (place baseUrl timeoutMs co cache upstream e)))) ENDPOINTS"
    and "ag_partial ag \<longleftrightarrow> (\<exists>e. up_status (snd (place baseUrl timeoutMs co cache upstream e)) \<noteq> Up_Ok)"
    and "put = (let ws = writes_of (map (\<lambda>e. (e, callOne timeoutMs (upstream (upstream_url baseUrl co e))))
            (filter (\<lambda>e. fst (read_cache co cache) e = None) ENDPOINTS)) in if cache = None \<or> ws = [] then None else Some ws)"
proof -
  obtain hits info where rc: "read_cache co cache = (hits, info)" by fastforce
  let ?p = "place baseUrl timeoutMs co cache upstream" and ?call = "\<lambda>e. callOne timeoutMs (upstream (upstream_url baseUrl co e))"
  have data: "foldl (\<lambda>m (e, body, r). m(e \<mapsto> body)) (\<lambda>e. map_option ce_body (hits e)) (map (\<lambda>e. (e, ?call e)) (filter (\<lambda>e. hits e = None) ENDPOINTS)) x = Some (fst (?p x))"
    and ups: "foldl (\<lambda>m (e, body, r). m(e \<mapsto> r)) (\<lambda>e. map_option cached_report (hits e)) (map (\<lambda>e. (e, ?call e)) (filter (\<lambda>e. hits e = None) ENDPOINTS)) x = Some (snd (?p x))" for x
    using ENDPOINTS_all(1) [of x] by (auto simp: fold_outcomes [of "\<lambda>b r. b"] fold_outcomes [of "\<lambda>b r. r"] place_def rc split: option.splits)
  show "ag_data ag = map (\<lambda>e. (e, Some (fst (?p e)))) ENDPOINTS" "ag_upstreams ag = map (\<lambda>e. (e, Some (snd (?p e)))) ENDPOINTS"
    and "put = (let ws = writes_of (map (\<lambda>e. (e, ?call e)) (filter (\<lambda>e. fst (read_cache co cache) e = None) ENDPOINTS)) in if cache = None \<or> ws = [] then None else Some ws)"
    using assms data ups by (auto simp: fanOut_def rc Let_def split: option.splits if_splits)
  have "ag_partial ag = list_ex (\<lambda>e. up_status (snd (?p e)) \<noteq> Up_Ok) ENDPOINTS"
    using assms ups by (auto simp: fanOut_def rc Let_def split: option.splits if_splits)
  then show "ag_partial ag \<longleftrightarrow> (\<exists>e. up_status (snd (?p e)) \<noteq> Up_Ok)" using ENDPOINTS_all by (auto simp: list_ex_iff)
qed

text \<open>A request with a cached feed, a cacheable profile, a failing inbox and statistics that do not answer.\<close>

definition demo_cache :: cache_world where
  "demo_cache = \<lparr>cc_get = (\<lambda>es. Inr [\<lparr>ce_endpoint = Ep_Feed, ce_body = JStr ''kept'', ce_age_s = 5\<rparr>]), cc_put = (\<lambda>ws. None),
     cc_read_ms = 1, cc_write_ms = 1\<rparr>"

definition demo_upstream :: "string \<Rightarrow> up_reply" where
  "demo_upstream url = (if url = ''http://u/profile'' then Up_Answer 200 (Some ''private, max-age=60'') (Some (JStr ''new'')) 3
     else if url = ''http://u/inbox?mode=fail'' then Up_Answer 500 None None 2 else Up_Threw True ''aborted'' 800)"

definition demo_controls :: controls where
  "demo_controls = parseControls (\<lambda>k. if k = ''fail'' then Some ''inbox, nope'' else None)"



end
