(* ===== verification/Open_Loop.thy ===== *)
theory Open_Loop
  imports Sampler RegExp Stats
begin

text \<open>
  The open-loop load generator of the edge-burst experiment (\<open>lib/load.ts\<close>) and the ramp that drives it
  (\<open>lib/arm.ts\<close>). Requests leave on a fixed schedule, one that finds the cap of requests in flight full is counted as
  skipped, and a run's figures say whether the client kept its schedule. A wake-up of the tick loop carries what the
  clock read, and the clock at each send; the end of a request carries its number, the clock and the answer: a call
  always ends with an answer, of status 0 when there was none. \<open>localeCompare\<close> and the printing of numbers
  are the parameters \<open>lc\<close> and \<open>pr\<close>.
\<close>

subsection \<open>Answers and their classes\<close>

record eb_answer =
  ea_status :: int
  ea_contentType :: string
  ea_text :: string
  ea_region :: string
  ea_colo :: string
  ea_err :: "string option"

record shot =
  sh_schedMs :: int
  sh_sendMs :: rat
  sh_ms :: int
  sh_status :: int
  sh_cls :: string
  sh_region :: string
  sh_colo :: string
  sh_body :: string
  sh_rpc :: string

record load_run =
  lr_shots :: "shot list"
  lr_scheduled :: int
  lr_skipped :: nat
  lr_maxInFlightSeen :: nat
  lr_wallMs :: int
  lr_monoMs :: int

definition code_char :: "char \<Rightarrow> bool" where
  "code_char c = (is_upper c \<or> is_digit c \<or> c = CHR ''_'')"

text \<open>\<open>/"code"\s*:\s*"([A-Z][A-Z0-9_]+)"/\<close> and \<open>/^\s*<(?:!doctype|html)/i\<close>\<close>

definition code_re :: re where
  "code_re = Seqs [Lit (CHR 0x22 # ''code'' @ [CHR 0x22]), Star (Cls is_ws), Lit '':'', Star (Cls is_ws), Lit [CHR 0x22],
     Grp 1 (Seq (Cls is_upper) (Plus (Cls code_char))), Lit [CHR 0x22]]"

definition page_re :: re where
  "page_re = Seqs [Bol, Star (Cls is_ws), Lit ''<'', Alt (LitI ''!doctype'') (LitI ''html'')]"

definition client_class :: "string \<Rightarrow> string" where
  "client_class e =
     (if str_includes e ''os error 51'' \<or> str_includes e ''network is unreachable'' then ''client_unreachable''
      else if str_includes e ''timeout'' \<or> str_includes e ''timed out'' \<or> str_includes e ''aborted'' then ''client_timeout''
      else if str_includes e ''connection'' \<or> str_includes e ''socket'' \<or> str_includes e ''econn'' then ''client_socket''
      else ''client_other'')"

definition classify :: "eb_answer \<Rightarrow> string" where
  "classify a =
     (if ea_status a = 0 then client_class (to_lower (case ea_err a of None \<Rightarrow> [] | Some e \<Rightarrow> e))
      else if ea_status a = 200 then ''ok''
      else if str_includes (to_lower (ea_contentType a)) ''text/html'' \<or> re_test page_re (ea_text a) then ''html_'' @ show_int (ea_status a)
      else case re_group 1 code_re (ea_text a) of
             Some c \<Rightarrow> show_int (ea_status a) @ ''_'' @ c
           | None \<Rightarrow> show_int (ea_status a) @ (if trim (ea_text a) \<noteq> [] then ''_other'' else ''_empty''))"

definition rpc_re :: re where
  "rpc_re = Seqs [Lit (CHR 0x22 # ''rpc'' @ [CHR 0x22]), Star (Cls is_ws), Lit '':'', Star (Cls is_ws), Grp 1 (Alt (Plus (Cls is_digit)) (Lit ''null''))]"

definition rpcStatus :: "string \<Rightarrow> string" where
  "rpcStatus s = (case re_group 1 rpc_re s of None \<Rightarrow> [] | Some t \<Rightarrow> t)"

definition coloOf :: "string option \<Rightarrow> string" where
  "coloOf cfRay =
     (case re_group 1 (Seqs [Lit ''-'', Grp 1 (Rep 3 (Cls is_upper)), Eol]) (case cfRay of None \<Rightarrow> [] | Some s \<Rightarrow> s) of None \<Rightarrow> [] | Some t \<Rightarrow> t)"

text \<open>What \<open>shoot\<close> records when the answer is there: \<open>sendAt\<close> and \<open>doneAt\<close> are the clock since the run's start.\<close>

definition shot_of :: "int \<Rightarrow> rat \<Rightarrow> rat \<Rightarrow> eb_answer \<Rightarrow> shot" where
  "shot_of sched sendAt doneAt a =
     \<lparr>sh_schedMs = sched, sh_sendMs = of_int (js_round (sendAt * 10)) / 10, sh_ms = js_round (doneAt - sendAt), sh_status = ea_status a,
      sh_cls = classify a, sh_region = ea_region a, sh_colo = ea_colo a,
      sh_body = take 200 (if ea_status a = 200 then [] else if ea_text a \<noteq> [] then ea_text a else case ea_err a of None \<Rightarrow> [] | Some e \<Rightarrow> e),
      sh_rpc = rpcStatus (ea_text a)\<rparr>"

subsection \<open>The open loop\<close>

record flight =
  fl_n :: nat
  fl_sched :: int
  fl_sendAt :: rat

record open_state =
  os_i :: nat
  os_pending :: "flight list"
  os_shots :: "shot list"
  os_skipped :: nat
  os_maxSeen :: nat

definition total_of :: "rat \<Rightarrow> rat \<Rightarrow> int" where
  "total_of rate durationMs = js_round (rate * durationMs / 1000)"

definition sched_of :: "rat \<Rightarrow> nat \<Rightarrow> int" where
  "sched_of rate i = js_round (of_nat i * 1000 / rate)"

definition take_due :: "rat \<Rightarrow> nat \<Rightarrow> (nat \<Rightarrow> rat) \<Rightarrow> open_state \<Rightarrow> open_state" where
  "take_due rate cap sends s =
     (let k = os_i s; s' = s\<lparr>os_i := k + 1\<rparr>
      in if length (os_pending s) \<ge> cap then s'\<lparr>os_skipped := os_skipped s + 1\<rparr>
         else (let ps = os_pending s @ [\<lparr>fl_n = k, fl_sched = sched_of rate k, fl_sendAt = sends k\<rparr>]
               in s'\<lparr>os_pending := ps, os_maxSeen := (if length ps > os_maxSeen s then length ps else os_maxSeen s)\<rparr>))"

definition wake :: "rat \<Rightarrow> rat \<Rightarrow> nat \<Rightarrow> rat \<Rightarrow> (nat \<Rightarrow> rat) \<Rightarrow> open_state \<Rightarrow> open_state" where
  "wake rate durationMs cap since sends s =
     (if int (os_i s) < total_of rate durationMs
      then (let due = min (total_of rate durationMs) (\<lfloor>since * rate / 1000\<rfloor> + 1)
            in (take_due rate cap sends ^^ nat (due - int (os_i s))) s)
      else s)"

definition land :: "nat \<Rightarrow> rat \<Rightarrow> eb_answer \<Rightarrow> open_state \<Rightarrow> open_state" where
  "land k doneAt a s =
     (case List.find (\<lambda>f. fl_n f = k) (os_pending s) of None \<Rightarrow> s
      | Some f \<Rightarrow> s\<lparr>os_pending := filter (\<lambda>g. fl_n g \<noteq> k) (os_pending s), os_shots := os_shots s @ [shot_of (fl_sched f) (fl_sendAt f) doneAt a]\<rparr>)"

datatype open_event = Wakes rat "nat \<Rightarrow> rat" | Lands nat rat eb_answer

definition open_step :: "rat \<Rightarrow> rat \<Rightarrow> nat \<Rightarrow> open_state \<Rightarrow> open_event \<Rightarrow> open_state" where
  "open_step rate durationMs cap s e =
     (case e of Wakes since sends \<Rightarrow> wake rate durationMs cap since sends s | Lands k doneAt a \<Rightarrow> land k doneAt a s)"

lemma open_step_simps:
  "open_step rate dur cap s (Wakes since sends) = wake rate dur cap since sends s"
  "open_step rate dur cap s (Lands k t a) = land k t a s"
  by (simp_all add: open_step_def)

definition open_start :: open_state where
  "open_start = \<lparr>os_i = 0, os_pending = [], os_shots = [], os_skipped = 0, os_maxSeen = 0\<rparr>"

definition open_result :: "rat \<Rightarrow> rat \<Rightarrow> int \<Rightarrow> int \<Rightarrow> open_state \<Rightarrow> load_run option" where
  "open_result rate durationMs wall mono_ms s =
     (if int (os_i s) < total_of rate durationMs \<or> os_pending s \<noteq> [] then None
      else Some \<lparr>lr_shots = os_shots s, lr_scheduled = total_of rate durationMs, lr_skipped = os_skipped s, lr_maxInFlightSeen = os_maxSeen s,
                 lr_wallMs = wall, lr_monoMs = mono_ms\<rparr>)"

definition openLoop :: "rat \<Rightarrow> rat \<Rightarrow> nat \<Rightarrow> open_event list \<Rightarrow> int \<Rightarrow> int \<Rightarrow> load_run option" where
  "openLoop rate durationMs cap es wall mono_ms = open_result rate durationMs wall mono_ms (foldl (open_step rate durationMs cap) open_start es)"

subsection \<open>The burst\<close>

record burst_state =
  bu_next :: nat
  bu_flying :: "(nat \<times> rat) list"
  bu_shots :: "shot list"
  bu_maxSeen :: nat

definition burst_launch :: "nat \<Rightarrow> (nat \<Rightarrow> rat) \<Rightarrow> burst_state \<Rightarrow> burst_state" where
  "burst_launch n sends s =
     (if bu_next s < n
      then (let fs = bu_flying s @ [(bu_next s, sends (bu_next s))]
            in s\<lparr>bu_next := bu_next s + 1, bu_flying := fs, bu_maxSeen := (if length fs > bu_maxSeen s then length fs else bu_maxSeen s)\<rparr>)
      else s)"

text \<open>All lanes start at once; a lane whose request has ended goes on with the next.\<close>

definition burst_start :: "nat \<Rightarrow> nat \<Rightarrow> (nat \<Rightarrow> rat) \<Rightarrow> burst_state" where
  "burst_start n cap sends = (burst_launch n sends ^^ min n cap) \<lparr>bu_next = 0, bu_flying = [], bu_shots = [], bu_maxSeen = 0\<rparr>"

definition burst_land :: "nat \<Rightarrow> (nat \<Rightarrow> rat) \<Rightarrow> burst_state \<Rightarrow> nat \<times> rat \<times> eb_answer \<Rightarrow> burst_state" where
  "burst_land n sends s e =
     (case e of (k, doneAt, a) \<Rightarrow>
        (case List.find (\<lambda>f. fst f = k) (bu_flying s) of None \<Rightarrow> s
         | Some f \<Rightarrow> burst_launch n sends (s\<lparr>bu_flying := filter (\<lambda>g. fst g \<noteq> k) (bu_flying s), bu_shots := bu_shots s @ [shot_of (-1) (snd f) doneAt a]\<rparr>)))"

definition burst :: "nat \<Rightarrow> nat \<Rightarrow> (nat \<Rightarrow> rat) \<Rightarrow> (nat \<times> rat \<times> eb_answer) list \<Rightarrow> int \<Rightarrow> int \<Rightarrow> load_run option" where
  "burst n cap sends es wall mono_ms =
     (let s = foldl (burst_land n sends) (burst_start n cap sends) es
      in if bu_flying s \<noteq> [] then None
         else Some \<lparr>lr_shots = bu_shots s, lr_scheduled = int n, lr_skipped = 0, lr_maxInFlightSeen = bu_maxSeen s, lr_wallMs = wall, lr_monoMs = mono_ms\<rparr>)"

subsection \<open>Figures of a run\<close>

definition fold_num :: "(rat \<Rightarrow> rat \<Rightarrow> bool) \<Rightarrow> rat list \<Rightarrow> rat option" where
  "fold_num better xs = foldl (\<lambda>m x. case m of None \<Rightarrow> Some x | Some y \<Rightarrow> if better x y then Some x else m) None xs"

text \<open>\<open>minOf\<close> and \<open>maxOf\<close>; \<open>None\<close> is the infinity they start from.\<close>

definition minOf :: "rat list \<Rightarrow> rat option" where
  "minOf xs = fold_num (<) xs"

definition maxOf :: "rat list \<Rightarrow> rat option" where
  "maxOf xs = fold_num (>) xs"

definition pct_of :: "rat list \<Rightarrow> rat \<Rightarrow> rat" where
  "pct_of xs q = (if xs = [] then -1 else sort_by rat_diff xs ! min (length xs - 1) (nat \<lfloor>q * of_nat (length xs)\<rfloor>))"

definition more_first :: "(string \<Rightarrow> string \<Rightarrow> int) \<Rightarrow> string \<times> nat \<Rightarrow> string \<times> nat \<Rightarrow> int" where
  "more_first lc x y = (if snd x \<noteq> snd y then int (snd y) - int (snd x) else lc (fst x) (fst y))"

definition or_none :: "string \<Rightarrow> string" where
  "or_none s = (if s = [] then ''none'' else s)"

definition class_counts :: "string list \<Rightarrow> nat obj" where
  "class_counts vs = tally (map (\<lambda>v. if v = [] then ''-'' else v) vs)"

definition count_histogram :: "(string \<Rightarrow> string \<Rightarrow> int) \<Rightarrow> string list \<Rightarrow> string" where
  "count_histogram lc vs = or_none (join ''|'' (map (\<lambda>(k, n). k @ '':'' @ show_nat n) (sort_by (more_first lc) (class_counts vs))))"

fun put_num :: "int \<Rightarrow> (int \<times> nat) list \<Rightarrow> (int \<times> nat) list" where
  "put_num b [] = [(b, 1)]"
| "put_num b ((k, n) # m) = (if b = k then (k, n + 1) # m else (k, n) # put_num b m)"

definition bucket_of :: "int \<Rightarrow> shot \<Rightarrow> int" where
  "bucket_of bucketS s = \<lfloor>sh_sendMs s / 1000 / of_int bucketS\<rfloor> * bucketS"

definition errorTimeline :: "shot list \<Rightarrow> int \<Rightarrow> string" where
  "errorTimeline shots bucketS =
     (let m = foldl (\<lambda>m s. put_num (bucket_of bucketS s) m) [] (filter (\<lambda>s. sh_cls s \<noteq> ''ok'') shots)
      in or_none (join ''|'' (map (\<lambda>(b, n). show_int b @ '':'' @ show_nat n) (sort_by (\<lambda>x y. fst x - fst y) m))))"

text \<open>\<open>maxOf(xs) - minOf(xs)\<close> in seconds, for a list that is not empty.\<close>

definition spread_s :: "rat list \<Rightarrow> rat list \<Rightarrow> rat" where
  "spread_s his los = (case (maxOf his, minOf los) of (Some h, Some l) \<Rightarrow> (h - l) / 1000 | _ \<Rightarrow> 0)"

definition send_lags :: "shot list \<Rightarrow> rat list" where
  "send_lags shots = map (\<lambda>s. sh_sendMs s - of_int (sh_schedMs s)) shots"

definition achieved_rate :: "rat list \<Rightarrow> rat" where
  "achieved_rate sends = (let w = spread_s sends sends in if w > 0 then (of_nat (length sends) - 1) / w else 0)"

definition limit_reasons :: "(rat \<Rightarrow> string) \<Rightarrow> load_run \<Rightarrow> rat \<Rightarrow> string list" where
  "limit_reasons pr run rate =
     (let noAnswer = length (filter (\<lambda>s. sh_status s = 0) (lr_shots run)); sends = map sh_sendMs (lr_shots run);
          achieved = achieved_rate sends; lag = pct_of (send_lags (lr_shots run)) (99/100)
      in (if lr_skipped run > 0 then [show_nat (lr_skipped run) @ '' skipped at the in-flight cap''] else [])
         @ (if noAnswer > 0 then [show_nat noAnswer @ '' without an HTTP answer''] else [])
         @ (if rate > 0 \<and> length sends > 1
            then (if achieved < rate * 95/100 then [''achieved '' @ to_fixed1 achieved @ ''/s of '' @ pr rate @ ''/s''] else [])
                 @ (if lag > 250 then [''p99 send lag '' @ show_int (js_round lag) @ '' ms''] else [])
            else [])
         @ (if lr_wallMs run - lr_monoMs run > 2000
            then [''host paused '' @ show_int (js_round (of_int (lr_wallMs run - lr_monoMs run) / 1000)) @ '' s''] else []))"

definition clientLimited :: "(rat \<Rightarrow> string) \<Rightarrow> load_run \<Rightarrow> rat \<Rightarrow> bool \<times> string" where
  "clientLimited pr run rate = (let rs = limit_reasons pr run rate in (rs \<noteq> [], or_none (join ''; '' rs)))"

definition ws_gap_re :: re where
  "ws_gap_re = Plus (Cls is_ws)"

definition firstBodies :: "shot list \<Rightarrow> (string \<Rightarrow> string) \<Rightarrow> string" where
  "firstBodies shots scrubber =
     (let seen = foldl (\<lambda>m s. if sh_cls s \<noteq> ''ok'' \<and> obj_get m (sh_cls s) = None
                          then obj_put (sh_cls s) (scrubber (trim (replace_all ws_gap_re (\<lambda>_. '' '') (sh_body s)))) m else m) [] shots
      in join nl (map (\<lambda>(c, b). c @ '' => '' @ (if b \<noteq> [] then b else ''(empty)'')) seen))"

subsection \<open>The summary of a step\<close>

type_synonym figures = "(string + rat) obj"

record step_summary =
  su_measurements :: figures
  su_errorShare :: rat
  su_rle :: nat

definition num_of_nat :: "nat \<Rightarrow> string + rat" where
  "num_of_nat n = Inr (of_nat n)"

definition round_scaled :: "rat \<Rightarrow> rat \<Rightarrow> string + rat" where
  "round_scaled scale x = Inr (of_int (js_round (x * scale)) / scale)"

definition is_rle :: "shot \<Rightarrow> bool" where
  "is_rle s = (sh_cls s = ''429_RATE_LIMIT_EXCEEDED'')"

definition step_measurements :: "(string \<Rightarrow> string \<Rightarrow> int) \<Rightarrow> (rat \<Rightarrow> string) \<Rightarrow> load_run \<Rightarrow> rat \<Rightarrow> nat \<Rightarrow> figures" where
  "step_measurements lc pr run rate cap =
     (let sh = lr_shots run; sent = length sh; answered = filter (\<lambda>s. sh_status s \<noteq> 0) sh; ok = filter (\<lambda>s. sh_cls s = ''ok'') sh;
          notOk = sent - length ok; sends = map sh_sendMs sh;
          send_span = (if sent > 1 then spread_s sends sends else 0);
          wholeS = spread_s (map (\<lambda>s. sh_sendMs s + of_int (sh_ms s)) sh) sends;
          ms = (\<lambda>ss. map (\<lambda>s. of_int (sh_ms s)) ss); lim = clientLimited pr run rate;
          rl = map sh_sendMs (filter is_rle sh)
      in [(''requested_rps'', Inr rate), (''scheduled'', Inr (of_int (lr_scheduled run))), (''sent'', num_of_nat sent),
          (''skipped_at_cap'', num_of_nat (lr_skipped run)), (''in_flight_cap'', num_of_nat cap), (''max_in_flight'', num_of_nat (lr_maxInFlightSeen run)),
          (''send_span_s'', round_scaled 10 send_span),
          (''achieved_send_rps'', if send_span > 0 then round_scaled 10 ((of_nat sent - 1) / send_span) else num_of_nat sent),
          (''answered_rps'', if wholeS > 0 then round_scaled 10 (of_nat (length answered) / wholeS) else num_of_nat (length answered)),
          (''send_lag_p99_ms'', if rate > 0 then round_scaled 1 (pct_of (send_lags sh) (99/100)) else Inr (-1)),
          (''client_limited'', Inl (if fst lim then ''yes'' else ''no'')), (''client_limit_reason'', Inl (snd lim)),
          (''status_histogram'', Inl (count_histogram lc (map (\<lambda>s. show_int (sh_status s)) sh))),
          (''class_histogram'', Inl (count_histogram lc (map sh_cls sh))),
          (''not_ok'', num_of_nat notOk), (''error_share_pct'', if sent \<noteq> 0 then round_scaled 100 (of_nat notOk / of_nat sent * 100) else Inr 0),
          (''rate_limit_exceeded'', num_of_nat (length (filter is_rle sh))),
          (''rle_first_send_s'', case minOf rl of None \<Rightarrow> Inr (-1) | Some t \<Rightarrow> Inr (of_int (js_round (t / 100)) / 10)),
          (''not_ok_per_10s'', Inl (errorTimeline sh 10)),
          (''p50_ms'', Inr (pct_of (ms answered) (1/2))), (''p95_ms'', Inr (pct_of (ms answered) (95/100))), (''p99_ms'', Inr (pct_of (ms answered) (99/100))),
          (''ok_p50_ms'', Inr (pct_of (ms ok) (1/2))), (''ok_p99_ms'', Inr (pct_of (ms ok) (99/100))),
          (''edge_region'', Inl (count_histogram lc (map sh_region answered))), (''cf_colo'', Inl (count_histogram lc (map sh_colo answered)))])"

definition summarise_step :: "(string \<Rightarrow> string \<Rightarrow> int) \<Rightarrow> (rat \<Rightarrow> string) \<Rightarrow> load_run \<Rightarrow> rat \<Rightarrow> nat \<Rightarrow> step_summary" where
  "summarise_step lc pr run rate cap =
     (let sh = lr_shots run; sent = length sh; notOk = sent - length (filter (\<lambda>s. sh_cls s = ''ok'') sh);
          rpc = filter (\<lambda>r. r \<noteq> []) (map sh_rpc sh); late = lr_wallMs run - lr_monoMs run
      in \<lparr>su_measurements = step_measurements lc pr run rate cap
            @ (if rpc \<noteq> [] then [(''rpc_histogram'', Inl (count_histogram lc rpc))] else [])
            @ (if late > 2000 then [(''host_suspended_s'', Inr (of_int (js_round (of_int late / 1000))))] else []),
          su_errorShare = (if sent \<noteq> 0 then of_nat notOk / of_nat sent else 0), su_rle = length (filter is_rle sh)\<rparr>)"

subsection \<open>The ramp\<close>

record arm_row =
  ar_id :: string
  ar_title :: string
  ar_detail :: string
  ar_measurements :: figures
  ar_evidence :: "string option"

record arm_env =
  ae_rates :: "rat list"
  ae_step_s :: rat
  ae_burst_n :: nat
  ae_cap :: nat
  ae_burst_lanes :: nat
  ae_stop_pct :: rat
  ae_region :: string

definition figure :: "(rat \<Rightarrow> string) \<Rightarrow> figures \<Rightarrow> string \<Rightarrow> string" where
  "figure pr m k = (case obj_get m k of None \<Rightarrow> ''undefined'' | Some (Inl s) \<Rightarrow> s | Some (Inr x) \<Rightarrow> pr x)"

definition row_detail :: "(rat \<Rightarrow> string) \<Rightarrow> figures \<Rightarrow> rat \<Rightarrow> string" where
  "row_detail pr m rate =
     (let f = figure pr m; lim = (if obj_get m ''client_limited'' = Some (Inl ''yes'') then '' CLIENT-LIMITED ('' @ f ''client_limit_reason'' @ '')'' else [])
      in f ''sent'' @ '' sent at '' @ f ''achieved_send_rps'' @ ''/s (asked '' @ (if rate \<noteq> 0 then pr rate else ''burst'') @ ''), '' @ f ''rate_limit_exceeded''
         @ '' x 429 RATE_LIMIT_EXCEEDED, non-200 '' @ f ''not_ok'' @ '' ('' @ f ''error_share_pct'' @ '' %); classes '' @ f ''class_histogram''
         @ ''; p50/p95/p99 '' @ f ''p50_ms'' @ ''/'' @ f ''p95_ms'' @ ''/'' @ f ''p99_ms'' @ '' ms; x-sb-edge-region '' @ f ''edge_region''
         @ ''; colo '' @ f ''cf_colo'' @ lim)"

definition arm_row_of ::
  "(string \<Rightarrow> string \<Rightarrow> int) \<Rightarrow> (rat \<Rightarrow> string) \<Rightarrow> (string \<Rightarrow> string) \<Rightarrow> string \<Rightarrow> string \<Rightarrow> load_run \<Rightarrow> rat \<Rightarrow> nat \<Rightarrow> arm_row \<times> rat" where
  "arm_row_of lc pr scrubber name title run rate cap =
     (let s = summarise_step lc pr run rate cap; ev = firstBodies (lr_shots run) scrubber
      in (\<lparr>ar_id = name, ar_title = title, ar_detail = row_detail pr (su_measurements s) rate, ar_measurements = su_measurements s,
           ar_evidence = (if ev = [] then None else Some ev)\<rparr>, su_errorShare s))"

definition pad3 :: "string \<Rightarrow> string" where
  "pad3 s = replicate (3 - length s) (CHR ''0'') @ s"

text \<open>The steps of the ramp; the run of the i-th rate is \<open>runs i\<close>. The rate that stopped it is the second result.\<close>

fun ramp ::
  "(string \<Rightarrow> string \<Rightarrow> int) \<Rightarrow> (rat \<Rightarrow> string) \<Rightarrow> (string \<Rightarrow> string) \<Rightarrow> arm_env \<Rightarrow> string \<Rightarrow> string \<Rightarrow> (nat \<Rightarrow> load_run) \<Rightarrow> nat \<Rightarrow> rat list \<Rightarrow> arm_row list \<times> rat option" where
  "ramp lc pr scrubber env name label runs i [] = ([], None)"
| "ramp lc pr scrubber env name label runs i (rate # rates) =
     (let (r, share) = arm_row_of lc pr scrubber (name @ ''-r'' @ pad3 (pr rate))
            (label @ '': open loop '' @ pr rate @ '' req/s for '' @ pr (ae_step_s env) @ '' s against one function, x-region '' @ ae_region env)
            (runs i) rate (ae_cap env)
      in if share * 100 > ae_stop_pct env then ([r], Some rate)
         else (let (rs, stop) = ramp lc pr scrubber env name label runs (Suc i) rates in (r # rs, stop)))"

definition stop_row :: "(rat \<Rightarrow> string) \<Rightarrow> arm_env \<Rightarrow> string \<Rightarrow> string \<Rightarrow> rat \<Rightarrow> arm_row" where
  "stop_row pr env name label rate =
     \<lparr>ar_id = name @ ''-stop'', ar_title = label @ '': ramp stopped by the '' @ pr (ae_stop_pct env) @ '' % non-200 rule'',
      ar_detail = ''non-200 share above '' @ pr (ae_stop_pct env) @ '' % at '' @ pr rate @ '' req/s; higher rates not run'',
      ar_measurements = [(''stopped_at_rps'', Inr rate), (''stop_pct'', Inr (ae_stop_pct env))], ar_evidence = None\<rparr>"

definition runArm ::
  "(string \<Rightarrow> string \<Rightarrow> int) \<Rightarrow> (rat \<Rightarrow> string) \<Rightarrow> (string \<Rightarrow> string) \<Rightarrow> arm_env \<Rightarrow> string \<Rightarrow> string \<Rightarrow> (nat \<Rightarrow> load_run) \<Rightarrow> load_run \<Rightarrow> arm_row list" where
  "runArm lc pr scrubber env name label runs bursted =
     (let (rows, stop) = ramp lc pr scrubber env name label runs 0 (ae_rates env)
      in rows @ (case stop of None \<Rightarrow> [] | Some rate \<Rightarrow> if rate \<noteq> 0 then [stop_row pr env name label rate] else [])
         @ [fst (arm_row_of lc pr scrubber (name @ ''-burst'')
              (label @ '': '' @ pr (of_nat (ae_burst_n env)) @ '' requests at once through at most '' @ pr (of_nat (ae_burst_lanes env)) @ '' in flight, x-region '' @ ae_region env)
              bursted 0 (ae_burst_lanes env))])"

subsection \<open>The schedule of the open loop\<close>

lemma take_due_fields:
  "os_i (take_due rate cap sends s) = os_i s + 1"
  "os_shots (take_due rate cap sends s) = os_shots s"
  by (simp_all add: take_due_def Let_def)

lemma take_due_steps: "os_i ((take_due rate cap sends ^^ n) s) = os_i s + n"
  by (induction n) (simp_all add: take_due_fields)

lemma land_i: "os_i (land k t a s) = os_i s"
  by (simp add: land_def split: option.splits)

lemma wake_i: "int (os_i (wake rate dur cap since sends s)) =
    (if int (os_i s) < total_of rate dur then max (int (os_i s)) (min (total_of rate dur) (\<lfloor>since * rate / 1000\<rfloor> + 1)) else int (os_i s))"
  by (simp add: wake_def Let_def take_due_steps)

text \<open>What holds of the state and is kept by each request taken holds after a wake-up; a request is taken only when it is due.\<close>

lemma wake_keeps:
  assumes "P s" "0 < rate"
    and kept: "\<And>s. P s \<Longrightarrow> int (os_i s) < total_of rate dur \<Longrightarrow> of_nat (os_i s) * 1000 / rate \<le> since \<Longrightarrow> P (take_due rate cap sends s)"
  shows "P (wake rate dur cap since sends s)"
proof -
  have "P ((take_due rate cap sends ^^ n) s)"
    if "int (os_i s) + int n \<le> min (total_of rate dur) (\<lfloor>since * rate / 1000\<rfloor> + 1)" for n
    using that
  proof (induction n)
    case 0
    then show ?case using assms(1) by simp
  next
    case (Suc n)
    let ?s = "(take_due rate cap sends ^^ n) s"
    have i: "os_i ?s = os_i s + n" by (rule take_due_steps)
    have "int (os_i ?s) \<le> \<lfloor>since * rate / 1000\<rfloor>" using Suc.prems by (simp add: i)
    then have "of_nat (os_i ?s) \<le> since * rate / 1000" by (simp add: le_floor_iff)
    then have "of_nat (os_i ?s) * 1000 / rate \<le> since" using \<open>0 < rate\<close> by (simp add: divide_simps mult.commute)
    moreover have "int (os_i ?s) < total_of rate dur" using Suc.prems by (simp add: i)
    ultimately show ?case using kept [of ?s] Suc by simp
  qed
  from this [of "nat (min (total_of rate dur) (\<lfloor>since * rate / 1000\<rfloor> + 1) - int (os_i s))"] show ?thesis
    using assms(1) by (cases "int (os_i s) \<le> min (total_of rate dur) (\<lfloor>since * rate / 1000\<rfloor> + 1)") (auto simp: wake_def Let_def)
qed

text \<open>How far the schedule is after some events: it depends on the wake-ups alone.\<close>

definition considered :: "rat \<Rightarrow> rat \<Rightarrow> open_event list \<Rightarrow> int" where
  "considered rate dur es =
     foldl (\<lambda>i e. case e of Wakes since _ \<Rightarrow> if i < total_of rate dur then max i (min (total_of rate dur) (\<lfloor>since * rate / 1000\<rfloor> + 1)) else i
                   | Lands _ _ _ \<Rightarrow> i) 0 es"

lemma loop_considered: "int (os_i (foldl (open_step rate dur cap) open_start es)) = considered rate dur es"
  by (induction es rule: rev_induct)
    (auto simp: considered_def open_start_def open_step_def wake_i land_i split: open_event.splits)

definition is_wake :: "open_event \<Rightarrow> bool" where
  "is_wake e = (case e of Wakes _ _ \<Rightarrow> True | Lands _ _ _ \<Rightarrow> False)"

lemma considered_wakes: "considered rate dur es = considered rate dur (filter is_wake es)"
  by (induction es rule: rev_induct) (auto simp: considered_def is_wake_def split: open_event.splits)

subsection \<open>Every request is accounted for\<close>

definition clocked :: "open_event \<Rightarrow> bool" where
  "clocked e = (case e of Wakes since sends \<Rightarrow> \<forall>k. since \<le> sends k | Lands _ _ _ \<Rightarrow> True)"

definition sent_of :: "rat \<Rightarrow> open_state \<Rightarrow> nat set \<Rightarrow> bool" where
  "sent_of rate s S \<longleftrightarrow> S \<subseteq> {..<os_i s} \<and> card S + os_skipped s = os_i s \<and>
     mset (map fl_sched (os_pending s)) + mset (map sh_schedMs (os_shots s)) = image_mset (sched_of rate) (mset_set S)"

definition open_inv :: "rat \<Rightarrow> rat \<Rightarrow> nat \<Rightarrow> open_state \<Rightarrow> bool" where
  "open_inv rate dur cap s \<longleftrightarrow> int (os_i s) \<le> max 0 (total_of rate dur) \<and> (\<exists>S. sent_of rate s S)
     \<and> length (os_pending s) \<le> os_maxSeen s \<and> os_maxSeen s \<le> cap \<and> distinct (map fl_n (os_pending s))
     \<and> (\<forall>f \<in> set (os_pending s). fl_n f < os_i s \<and> fl_sched f = sched_of rate (fl_n f) \<and> of_nat (fl_n f) * 1000 / rate \<le> fl_sendAt f)
     \<and> (\<forall>x \<in> set (os_shots s). of_int (sh_schedMs x) \<le> sh_sendMs x + 11/20)"

lemma open_inv_start: "open_inv rate dur cap open_start"
  by (auto simp: open_inv_def open_start_def sent_of_def intro!: exI [of _ "{}"])

lemma sent_of_take:
  assumes "sent_of rate s S"
  shows "\<exists>S. sent_of rate (take_due rate cap sends s) S"
proof (cases "length (os_pending s) \<ge> cap")
  case True
  then have "sent_of rate (take_due rate cap sends s) S" using assms by (auto simp: sent_of_def take_due_def Let_def)
  then show ?thesis ..
next
  case False
  have "finite S" "os_i s \<notin> S" using assms finite_subset by (auto simp: sent_of_def)
  then have "sent_of rate (take_due rate cap sends s) (insert (os_i s) S)"
    using assms False by (auto simp: sent_of_def take_due_def Let_def)
  then show ?thesis ..
qed

lemma open_inv_take:
  assumes "open_inv rate dur cap s" "int (os_i s) < total_of rate dur" "of_nat (os_i s) * 1000 / rate \<le> sends (os_i s)"
  shows "open_inv rate dur cap (take_due rate cap sends s)"
proof -
  obtain S where "sent_of rate s S" using assms(1) by (auto simp: open_inv_def)
  from sent_of_take [OF this] have "\<exists>S. sent_of rate (take_due rate cap sends s) S" .
  then show ?thesis using assms unfolding open_inv_def take_due_def Let_def by auto
qed

lemma find_split:
  assumes "distinct (map g xs)" "List.find (\<lambda>x. g x = k) xs = Some y"
  shows "y \<in> set xs \<and> g y = k \<and> mset xs = add_mset y (mset (filter (\<lambda>x. g x \<noteq> k) xs))"
  using assms
proof (induction xs)
  case (Cons x xs)
  show ?case
  proof (cases "g x = k")
    case True
    then have "\<forall>z \<in> set xs. g z \<noteq> k" using Cons.prems(1) by (simp add: image_iff) metis
    then have "filter (\<lambda>x. g x \<noteq> k) xs = xs" by (simp add: filter_id_conv)
    then show ?thesis using True Cons.prems by auto
  qed (use Cons in auto)
qed simp

lemma shot_on_time:
  assumes "of_nat k * 1000 / rate \<le> t"
  shows "of_int (sh_schedMs (shot_of (sched_of rate k) t d a)) \<le> sh_sendMs (shot_of (sched_of rate k) t d a) + 11/20"
proof -
  have "of_int (sched_of rate k) \<le> of_nat k * 1000 / rate + 1/2" by (simp add: sched_of_def js_round_def)
  moreover have "t * 10 + 1/2 < of_int (js_round (t * 10)) + 1" using floor_correct [of "t * 10 + 1/2"] by (simp add: js_round_def)
  ultimately show ?thesis using assms by (simp add: shot_of_def)
qed

lemma open_inv_land:
  assumes "open_inv rate dur cap s"
  shows "open_inv rate dur cap (land k t a s)"
proof (cases "List.find (\<lambda>f. fl_n f = k) (os_pending s)")
  case None
  then show ?thesis using assms by (simp add: land_def)
next
  case (Some f)
  have f: "f \<in> set (os_pending s)" "mset (os_pending s) = add_mset f (mset (filter (\<lambda>g. fl_n g \<noteq> k) (os_pending s)))"
    using find_split [OF _ Some] assms by (auto simp: open_inv_def)
  from assms f(1) have fs: "fl_sched f = sched_of rate (fl_n f)" "of_nat (fl_n f) * 1000 / rate \<le> fl_sendAt f" by (auto simp: open_inv_def)
  obtain S where "sent_of rate s S" using assms by (auto simp: open_inv_def)
  moreover have "mset (map fl_sched (os_pending s)) = add_mset (fl_sched f) (mset (map fl_sched (filter (\<lambda>g. fl_n g \<noteq> k) (os_pending s))))"
    using f(2) by (metis image_mset_add_mset mset_map)
  ultimately have "sent_of rate (land k t a s) S" using Some by (simp add: sent_of_def land_def shot_of_def)
  then have "\<exists>S. sent_of rate (land k t a s) S" ..
  moreover have "length (filter (\<lambda>g. fl_n g \<noteq> k) (os_pending s)) \<le> length (os_pending s)" by simp
  moreover have "distinct (map fl_n (filter (\<lambda>g. fl_n g \<noteq> k) (os_pending s)))" using assms by (auto simp: open_inv_def distinct_map_filter)
  ultimately show ?thesis using assms Some shot_on_time [OF fs(2)] fs(1) unfolding open_inv_def land_def by (auto simp del: length_filter_le)
qed

lemma open_inv_run:
  assumes "0 < rate" "list_all clocked es"
  shows "open_inv rate dur cap (foldl (open_step rate dur cap) open_start es)"
  using assms(2)
proof (induction es rule: rev_induct)
  case Nil
  then show ?case by (simp add: open_inv_start)
next
  case (snoc e es)
  let ?s = "foldl (open_step rate dur cap) open_start es"
  have inv: "open_inv rate dur cap ?s" and e: "clocked e" using snoc by auto
  show ?case
  proof (cases e)
    case (Wakes since sends)
    have "open_inv rate dur cap (wake rate dur cap since sends ?s)"
      by (rule wake_keeps [where P = "open_inv rate dur cap", OF inv assms(1)], rule open_inv_take) (use e Wakes in \<open>auto simp: clocked_def intro: order_trans\<close>)
    then show ?thesis using Wakes by (simp add: open_step_simps)
  next
    case (Lands k t a)
    then show ?thesis using open_inv_land [OF inv] by (simp add: open_step_simps)
  qed
qed

lemma openLoop_final:
  assumes "0 < rate" "list_all clocked es" "openLoop rate dur cap es wall mono_ms = Some run"
  obtains s S where "open_inv rate dur cap s" "sent_of rate s S" "os_pending s = []" "int (os_i s) = max 0 (total_of rate dur)"
    "lr_shots run = os_shots s" "lr_skipped run = os_skipped s" "lr_maxInFlightSeen run = os_maxSeen s" "lr_scheduled run = total_of rate dur"
    "card S = length (lr_shots run)"
proof -
  let ?s = "foldl (open_step rate dur cap) open_start es"
  have inv: "open_inv rate dur cap ?s" by (rule open_inv_run [OF assms(1,2)])
  have run: "\<not> int (os_i ?s) < total_of rate dur" "os_pending ?s = []"
    "run = \<lparr>lr_shots = os_shots ?s, lr_scheduled = total_of rate dur, lr_skipped = os_skipped ?s, lr_maxInFlightSeen = os_maxSeen ?s, lr_wallMs = wall, lr_monoMs = mono_ms\<rparr>"
    using assms(3) by (auto simp: openLoop_def open_result_def split: if_splits)
  obtain S where S: "sent_of rate ?s S" using inv by (auto simp: open_inv_def)
  have "mset (map sh_schedMs (os_shots ?s)) = image_mset (sched_of rate) (mset_set S)" using S run(2) by (simp add: sent_of_def)
  then have "card S = length (os_shots ?s)" by (metis length_map size_image_mset size_mset size_mset_set)
  moreover have "int (os_i ?s) = max 0 (total_of rate dur)" using inv run(1) by (auto simp: open_inv_def)
  ultimately show thesis using that [OF inv S run(2)] run(3) by simp
qed

lemma openLoop_account:
  assumes "0 < rate" "list_all clocked es" "openLoop rate dur cap es wall mono_ms = Some run"
  shows "int (length (lr_shots run)) + int (lr_skipped run) = max 0 (total_of rate dur)"
  by (rule openLoop_final [OF assms]) (auto simp: sent_of_def)


text \<open>A step of three requests with one in flight at most: the third is skipped.\<close>

definition demo_load :: "rat \<Rightarrow> open_event list" where
  "demo_load t =
     (let a = \<lparr>ea_status = 200, ea_contentType = ''application/json'', ea_text = ''{}'', ea_region = ''r'', ea_colo = ''SIN'', ea_err = None\<rparr>
      in [Wakes 0 (\<lambda>_. 0), Lands 0 1 a, Wakes t (\<lambda>_. t), Lands 1 3 a])"


subsection \<open>A step that is not client-limited\<close>

text \<open>C36. A step that is not marked client-limited measured the platform: every request of the schedule was sent and
  none skipped, each got an HTTP answer, the achieved rate is at least 95 per cent of the plan, the 99th percentile of
  the send lag at most 250 ms and the host did not pause for more than two seconds; and the classes counted add up to
  the whole schedule.\<close>

theorem unlimited_step_whole:
  assumes "0 < rate" "list_all clocked es" "openLoop rate dur cap es wall mono_ms = Some run" "\<not> fst (clientLimited pr run rate)"
  shows "int (length (lr_shots run)) = max 0 (total_of rate dur) \<and> lr_skipped run = 0 \<and> (\<forall>s \<in> set (lr_shots run). sh_status s \<noteq> 0)
    \<and> (length (lr_shots run) > 1 \<longrightarrow> rate * 95/100 \<le> achieved_rate (map sh_sendMs (lr_shots run)) \<and> pct_of (send_lags (lr_shots run)) (99/100) \<le> 250)
    \<and> lr_wallMs run - lr_monoMs run \<le> 2000
    \<and> int (sum_list (map snd (class_counts (map sh_cls (lr_shots run))))) = max 0 (total_of rate dur)
    \<and> obj_get (su_measurements (summarise_step lc pr run rate cap)) ''client_limited'' = Some (Inl ''no'')
    \<and> obj_get (su_measurements (summarise_step lc pr run rate cap)) ''sent'' = Some (Inr (of_int (max 0 (total_of rate dur))))"
proof -
  have none: "limit_reasons pr run rate = []" using assms(4) by (simp add: clientLimited_def Let_def)
  have sk: "lr_skipped run = 0" using none by (simp add: limit_reasons_def Let_def split: if_splits)
  have sent: "int (length (lr_shots run)) = max 0 (total_of rate dur)"
    using openLoop_account [OF assms(1-3)] sk by simp
  have "filter (\<lambda>s. sh_status s = 0) (lr_shots run) = []" using none by (simp add: limit_reasons_def Let_def split: if_splits)
  moreover have "length (lr_shots run) > 1 \<longrightarrow> rate * 95/100 \<le> achieved_rate (map sh_sendMs (lr_shots run)) \<and> pct_of (send_lags (lr_shots run)) (99/100) \<le> 250"
    using none assms(1) by (auto simp: limit_reasons_def Let_def split: if_splits)
  moreover have "lr_wallMs run - lr_monoMs run \<le> 2000" using none by (simp add: limit_reasons_def Let_def split: if_splits)
  moreover have "int (sum_list (map snd (class_counts (map sh_cls (lr_shots run))))) = max 0 (total_of rate dur)"
    using sent by (simp add: class_counts_def tally_total)
  moreover have "obj_get (su_measurements (summarise_step lc pr run rate cap)) ''client_limited'' = Some (Inl ''no'')"
    "obj_get (su_measurements (summarise_step lc pr run rate cap)) ''sent'' = Some (Inr (of_int (int (length (lr_shots run)))))"
    using assms(4) by (simp_all add: summarise_step_def step_measurements_def num_of_nat_def Let_def)
  ultimately show ?thesis using sk sent by (auto simp: filter_empty_conv)
qed

theorem unlimited_step_whole_witness:
  "\<exists>run. openLoop 1000 2 1 (demo_load 1) 4 4 = Some run \<and> int (length (lr_shots run)) = 2 \<and> lr_skipped run = 0"
proof -
  let ?pr = "\<lambda>_. ''1000''"
  have "map_option (\<lambda>r. (length (lr_shots r), limit_reasons ?pr r 1000)) (openLoop 1000 2 1 (demo_load 1) 4 4) = Some (2, [])" by code_simp
  then obtain run where run: "openLoop 1000 2 1 (demo_load 1) 4 4 = Some run" "limit_reasons ?pr run 1000 = []" "length (lr_shots run) = 2" by auto
  have "\<not> fst (clientLimited ?pr run 1000)" using run(2) by (simp add: clientLimited_def)
  moreover have "list_all clocked (demo_load 1)" by (simp add: demo_load_def clocked_def Let_def)
  ultimately show ?thesis using unlimited_step_whole [OF _ _ run(1)] run by auto
qed

subsection \<open>A burst\<close>

definition burst_inv :: "nat \<Rightarrow> nat \<Rightarrow> burst_state \<Rightarrow> bool" where
  "burst_inv n cap s \<longleftrightarrow> length (bu_shots s) + length (bu_flying s) = bu_next s \<and> bu_next s \<le> n \<and> length (bu_flying s) \<le> bu_maxSeen s
     \<and> bu_maxSeen s \<le> min n cap \<and> distinct (map fst (bu_flying s)) \<and> (\<forall>f \<in> set (bu_flying s). fst f < bu_next s)"

lemma burst_launch_inv:
  assumes "burst_inv n cap s" "length (bu_flying s) < min n cap"
  shows "burst_inv n cap (burst_launch n sends s)"
  using assms by (auto simp: burst_inv_def burst_launch_def Let_def)

lemma burst_launch_fields:
  "bu_next (burst_launch n sends s) = (if bu_next s < n then bu_next s + 1 else bu_next s)"
  "length (bu_flying (burst_launch n sends s)) = (if bu_next s < n then length (bu_flying s) + 1 else length (bu_flying s))"
  by (simp_all add: burst_launch_def Let_def)

lemma burst_launches:
  "k \<le> min n cap \<Longrightarrow> let s = (burst_launch n sends ^^ k) \<lparr>bu_next = 0, bu_flying = [], bu_shots = [], bu_maxSeen = 0\<rparr>
     in burst_inv n cap s \<and> length (bu_flying s) = k \<and> bu_next s = k"
proof (induction k)
  case (Suc k)
  let ?s = "(burst_launch n sends ^^ k) \<lparr>bu_next = 0, bu_flying = [], bu_shots = [], bu_maxSeen = 0\<rparr>"
  have s: "burst_inv n cap ?s" "length (bu_flying ?s) = k" "bu_next ?s = k" using Suc by (simp_all add: Let_def)
  have "burst_inv n cap (burst_launch n sends ?s)" by (rule burst_launch_inv [OF s(1)]) (use s Suc.prems in simp)
  then show ?case using s Suc.prems by (simp add: Let_def burst_launch_fields)
qed (simp add: burst_inv_def Let_def)

lemma burst_land_steps:
  "List.find (\<lambda>f. fst f = k) (bu_flying s) = None \<Longrightarrow> burst_land n sends s (k, t, a) = s"
  "List.find (\<lambda>f. fst f = k) (bu_flying s) = Some f \<Longrightarrow> burst_land n sends s (k, t, a) =
     burst_launch n sends (s\<lparr>bu_flying := filter (\<lambda>g. fst g \<noteq> k) (bu_flying s), bu_shots := bu_shots s @ [shot_of (-1) (snd f) t a]\<rparr>)"
  by (simp_all add: burst_land_def)

text \<open>All lanes are busy as long as there is something to send.\<close>

lemma burst_run:
  "let s = foldl (burst_land n sends) (burst_start n cap sends) es in burst_inv n cap s \<and> (bu_next s < n \<longrightarrow> length (bu_flying s) = min n cap)"
proof (induction es rule: rev_induct)
  case Nil
  then show ?case using burst_launches [of "min n cap" n cap sends] unfolding burst_start_def Let_def foldl_Nil by blast
next
  case (snoc e es)
  let ?s = "foldl (burst_land n sends) (burst_start n cap sends) es"
  obtain k t a where e: "e = (k, t, a)" by (cases e)
  show ?case
  proof (cases "List.find (\<lambda>f. fst f = k) (bu_flying ?s)")
    case None
    then show ?thesis using snoc by (simp add: e burst_land_steps Let_def)
  next
    case (Some f)
    let ?rest = "filter (\<lambda>g. fst g \<noteq> k) (bu_flying ?s)"
    let ?s' = "?s\<lparr>bu_flying := ?rest, bu_shots := bu_shots ?s @ [shot_of (-1) (snd f) t a]\<rparr>"
    have inv: "burst_inv n cap ?s" and busy: "bu_next ?s < n \<longrightarrow> length (bu_flying ?s) = min n cap" using snoc by (simp_all add: Let_def)
    have "mset (bu_flying ?s) = add_mset f (mset ?rest)" using find_split [OF _ Some] inv by (simp add: burst_inv_def)
    then have len: "length (bu_flying ?s) = length ?rest + 1" by (metis size_add_mset size_mset Suc_eq_plus1)
    have inv': "burst_inv n cap ?s'" using inv len by (auto simp: burst_inv_def distinct_map_filter)
    have "length (bu_flying ?s') < min n cap" using len inv by (simp add: burst_inv_def)
    from burst_launch_inv [OF inv' this] have "burst_inv n cap (burst_launch n sends ?s')" .
    then show ?thesis using busy len Some by (auto simp: e burst_land_steps(2) [OF Some] Let_def burst_launch_fields)
  qed
qed

lemma burst_sends_all:
  assumes "burst n cap sends es wall mono_ms = Some run" "0 < cap"
  shows "length (lr_shots run) = n \<and> lr_maxInFlightSeen run \<le> min n cap \<and> lr_skipped run = 0"
  using assms burst_run [of n sends cap es] by (auto simp: burst_def burst_inv_def Let_def split: if_splits)

subsection \<open>The ramp stops at the first bad step\<close>

lemma ramp_prefix:
  "ramp lc pr scrubber env name label runs i rates = (rows, stop) \<Longrightarrow>
     length rows \<le> length rates
     \<and> (\<forall>k < length rows. \<exists>title. rows ! k = fst (arm_row_of lc pr scrubber (name @ ''-r'' @ pad3 (pr (rates ! k))) title (runs (i + k)) (rates ! k) (ae_cap env)))
     \<and> (\<forall>k < length rows. (su_errorShare (summarise_step lc pr (runs (i + k)) (rates ! k) (ae_cap env)) * 100 > ae_stop_pct env)
            = (stop \<noteq> None \<and> Suc k = length rows))
     \<and> (case stop of None \<Rightarrow> length rows = length rates | Some r \<Rightarrow> rows \<noteq> [] \<and> r = rates ! (length rows - 1))"
proof (induction rates arbitrary: i rows stop)
  case (Cons rate rates)
  let ?row = "arm_row_of lc pr scrubber (name @ ''-r'' @ pad3 (pr rate))
            (label @ '': open loop '' @ pr rate @ '' req/s for '' @ pr (ae_step_s env) @ '' s against one function, x-region '' @ ae_region env) (runs i) rate (ae_cap env)"
  have share: "snd ?row = su_errorShare (summarise_step lc pr (runs i) rate (ae_cap env))" by (simp add: arm_row_of_def Let_def)
  show ?case
  proof (cases "snd ?row * 100 > ae_stop_pct env")
    case True
    then have "rows = [fst ?row]" "stop = Some rate" using Cons.prems by (auto simp: case_prod_beta Let_def)
    then show ?thesis using True share by auto
  next
    case False
    obtain rs st where r: "ramp lc pr scrubber env name label runs (Suc i) rates = (rs, st)" by fastforce
    have e: "rows = fst ?row # rs" "stop = st" using Cons.prems False r by (auto simp: case_prod_beta Let_def)
    note ih = Cons.IH [OF r]
    have "\<exists>title. rows ! k = fst (arm_row_of lc pr scrubber (name @ ''-r'' @ pad3 (pr ((rate # rates) ! k))) title (runs (i + k)) ((rate # rates) ! k) (ae_cap env))"
      if "k < length rows" for k using that ih e by (cases k) auto
    moreover have "(su_errorShare (summarise_step lc pr (runs (i + k)) ((rate # rates) ! k) (ae_cap env)) * 100 > ae_stop_pct env)
            = (stop \<noteq> None \<and> Suc k = length rows)" if "k < length rows" for k
      using that ih e False share by (cases k) (auto split: option.splits)
    ultimately show ?thesis using ih e by (auto split: option.splits simp: nth_Cons')
  qed
qed simp

end
