(* ===== verification/Totp.thy ===== *)
theory Totp
  imports Envelope "HOL-Library.Signed_Division"
begin

text \<open>
  Time-based one-time passwords of the session-carry experiment (\<open>lib/carry.ts\<close>): the base32 decoder and the
  RFC 6238 code, with the bit operations of JavaScript on 32-bit words. HMAC-SHA1 is the platform's, a function of key
  and message; all that is used of it is that a digest has 20 bytes.
\<close>

subsection \<open>base32\<close>

definition B32 :: string where
  "B32 = ''ABCDEFGHIJKLMNOPQRSTUVWXYZ234567''"

text \<open>\<open>toUpperCase\<close> on Latin-1; the sharp s becomes two letters. (The two characters whose upper case is outside Latin-1
  stay as they are: neither they nor their upper cases are in the alphabet.)\<close>

definition upper_text :: "char \<Rightarrow> string" where
  "upper_text c =
     (let n = (of_char c :: nat)
      in if is_lower c \<or> 224 \<le> n \<and> n \<le> 254 \<and> n \<noteq> 247 then [char_of (n - 32)] else if n = 223 then ''SS'' else [c])"

definition b32_input :: "string \<Rightarrow> string" where
  "b32_input s = filter (\<lambda>c. \<not> is_ws c) (rev (dropWhile (\<lambda>c. c = CHR ''='') (rev (concat (map upper_text s)))))"

record b32_state =
  bs_bits :: nat
  bs_buf :: "32 word"
  bs_idx :: nat
  bs_out :: "byte list"

definition b32_step :: "b32_state \<Rightarrow> char \<Rightarrow> b32_state" where
  "b32_step st ch =
     (case index_of ch B32 of
        None \<Rightarrow> st
      | Some v \<Rightarrow>
          (let buf = push_bit 5 (bs_buf st) OR word_of_nat v; bits = bs_bits st + 5
           in if bits \<ge> 8
              then st\<lparr>bs_buf := buf, bs_bits := bits - 8, bs_idx := bs_idx st + 1,
                      bs_out := (bs_out st)[bs_idx st := ucast (drop_bit (bits - 8) buf AND 0xff)]\<rparr>
              else st\<lparr>bs_buf := buf, bs_bits := bits\<rparr>))"

definition base32Decode :: "string \<Rightarrow> byte list" where
  "base32Decode s =
     (let input = b32_input s
      in bs_out (foldl b32_step \<lparr>bs_bits = 0, bs_buf = 0, bs_idx = 0, bs_out = replicate (length input * 5 div 8) 0\<rparr> input))"

subsection \<open>The code\<close>

definition counter_bytes :: "int \<Rightarrow> byte list" where
  "counter_bytes n = map (\<lambda>k. ucast (drop_bit k (word_of_int n :: 64 word))) [56, 48, 40, 32, 24, 16, 8, 0]"

definition pad6 :: "string \<Rightarrow> string" where
  "pad6 s = replicate (6 - length s) (CHR ''0'') @ s"

definition dynamic_bits :: "byte list \<Rightarrow> 32 word" where
  "dynamic_bits hmac =
     (let off = unat (last hmac AND 0x0f)
      in push_bit 24 (ucast (hmac ! off) AND 0x7f) OR push_bit 16 (ucast (hmac ! (off + 1)) AND 0xff)
         OR push_bit 8 (ucast (hmac ! (off + 2)) AND 0xff) OR (ucast (hmac ! (off + 3)) AND 0xff))"

definition totp :: "(byte list \<Rightarrow> byte list \<Rightarrow> byte list) \<Rightarrow> string \<Rightarrow> rat \<Rightarrow> string" where
  "totp hmac_sha1 secret ts =
     (let hmac = hmac_sha1 (base32Decode secret) (counter_bytes \<lfloor>ts / 1000 / 30\<rfloor>)
      in pad6 (show_int (sint (dynamic_bits hmac) smod 1000000)))"

subsection \<open>The decoder gives back what was encoded\<close>

definition bytes_val :: "byte list \<Rightarrow> nat" where
  "bytes_val bs = foldl (\<lambda>a b. a * 256 + unat b) 0 bs"

definition digits_val :: "nat list \<Rightarrow> nat" where
  "digits_val ds = foldl (\<lambda>a d. a * 32 + d) 0 ds"

definition b32_encode :: "byte list \<Rightarrow> string" where
  "b32_encode bs =
     (let m = ceil_div (8 * length bs) 5; v = bytes_val bs * 2 ^ (5 * m - 8 * length bs)
      in map (\<lambda>i. B32 ! (v div 32 ^ (m - 1 - i) mod 32)) [0..<m])"

lemma bytes_val_snoc: "bytes_val (bs @ [b]) = bytes_val bs * 256 + unat b"
  by (simp add: bytes_val_def)

lemma digits_val_snoc: "digits_val (ds @ [d]) = digits_val ds * 32 + d"
  by (simp add: digits_val_def)

lemma bytes_val_bound: "bytes_val bs < 256 ^ length bs"
proof (induction bs rule: rev_induct)
  case (snoc b bs)
  have "unat b < 256" using unsigned_less [of b] by simp
  then show ?case using snoc by (simp add: bytes_val_snoc)
qed (simp add: bytes_val_def)

lemma bytes_val_inj: "length as = length bs \<Longrightarrow> bytes_val as = bytes_val bs \<Longrightarrow> as = bs"
proof (induction bs arbitrary: as rule: rev_induct)
  case (snoc b bs)
  then obtain as' a where as: "as = as' @ [a]" by (metis length_0_conv append_is_Nil_conv not_Cons_self2 rev_exhaust)
  have lt: "unat a < 256" "unat b < 256" using unsigned_less [of a] unsigned_less [of b] by simp_all
  have eq: "bytes_val as' * 256 + unat a = bytes_val bs * 256 + unat b" using snoc.prems as by (simp add: bytes_val_snoc)
  then have "(bytes_val as' * 256 + unat a) mod 256 = (bytes_val bs * 256 + unat b) mod 256" by simp
  then have "unat a = unat b" using lt by simp
  moreover from this eq have "bytes_val as' = bytes_val bs" by simp
  ultimately show ?case using snoc as by (simp add: word_unat_eq_iff)
qed simp

text \<open>Shifting in five bits: only the bits not yet written matter, so the wrap-around at 32 bits does no harm.\<close>

lemma or_low_bits:
  fixes a v :: nat
  assumes "v < 2 ^ n"
  shows "push_bit n a OR v = a * 2 ^ n + v"
proof -
  have "\<not> bit v k" if "n \<le> k" for k
  proof -
    have "v < 2 ^ k" using assms that by (meson less_le_trans one_le_numeral power_increasing)
    then show ?thesis by (simp add: bit_iff_odd)
  qed
  then have "push_bit n a AND v = 0" by (auto simp: bit_eq_iff bit_simps not_le)
  from disjunctive_add_eq_or [OF this] show ?thesis by (simp add: push_bit_eq_mult)
qed

lemma shift_in:
  assumes "bits < 8" "v < 32"
  shows "unat (push_bit 5 buf OR word_of_nat v :: 32 word) mod 2 ^ (bits + 5) = (unat buf mod 2 ^ bits) * 32 + v"
proof -
  have "unat (word_of_nat v :: 32 word) = v" using assms by (simp add: unat_of_nat)
  then have "unat (push_bit 5 buf OR word_of_nat v :: 32 word) = take_bit 32 (push_bit 5 (unat buf)) OR v"
    by (simp add: unsigned_or_eq unsigned_push_bit_eq)
  moreover have "take_bit (bits + 5) (take_bit 32 (push_bit 5 (unat buf))) = push_bit 5 (take_bit bits (unat buf))"
    using assms by (simp add: take_bit_push_bit)
  moreover have "take_bit (bits + 5) v = v"
  proof -
    have "(32 :: nat) * 1 \<le> 2 ^ (bits + 5)" unfolding power_add by (intro order_trans [OF _ mult_right_mono [of 1 "2 ^ bits"]]) simp_all
    then show ?thesis using assms(2) by (simp add: take_bit_nat_eq_self)
  qed
  ultimately have "take_bit (bits + 5) (unat (push_bit 5 buf OR word_of_nat v :: 32 word)) = push_bit 5 (take_bit bits (unat buf)) OR v"
    by simp
  also have "\<dots> = take_bit bits (unat buf) * 2 ^ 5 + v" using or_low_bits [of v 5] assms(2) by simp
  finally show ?thesis by (simp add: take_bit_eq_mod)
qed

lemma byte_of:
  assumes "bits < 8"
  shows "unat (ucast (drop_bit bits buf AND 0xff) :: byte) = (unat (buf :: 32 word) mod 2 ^ (bits + 8)) div 2 ^ bits"
proof -
  have m: "x AND 255 = take_bit 8 x" for x :: nat by (simp add: take_bit_eq_mask mask_eq_exp_minus_1)
  have "unat buf < 2 ^ 32" using unsigned_less [of buf] by simp
  then have "unat (ucast (drop_bit bits buf AND 0xff) :: byte) = take_bit 8 (take_bit 8 (drop_bit bits (unat buf)))"
    by (simp add: unsigned_ucast_eq unsigned_and_eq unsigned_drop_bit_eq m take_bit_nat_eq_self)
  also have "\<dots> = drop_bit bits (take_bit (bits + 8) (unat buf))" by (simp add: take_bit_drop_bit add.commute)
  finally show ?thesis by (simp only: take_bit_eq_mod drop_bit_eq_div)
qed

definition b32_inv :: "nat list \<Rightarrow> nat \<Rightarrow> b32_state \<Rightarrow> bool" where
  "b32_inv ds n st \<longleftrightarrow> bs_bits st < 8 \<and> 8 * bs_idx st + bs_bits st = 5 * length ds \<and> length (bs_out st) = n
     \<and> bytes_val (take (bs_idx st) (bs_out st)) * 2 ^ bs_bits st + unat (bs_buf st) mod 2 ^ bs_bits st = digits_val ds"

lemma take_write: "i < length xs \<Longrightarrow> take (Suc i) (xs[i := x]) = take i xs @ [x]"
  by (simp add: take_Suc_conv_app_nth)

lemma b32_inv_step:
  assumes inv: "b32_inv ds n st" and ch: "index_of ch B32 = Some v" and v: "v < 32" and room: "5 * (length ds + 1) div 8 \<le> n"
  shows "b32_inv (ds @ [v]) n (b32_step st ch)"
proof -
  let ?buf = "push_bit 5 (bs_buf st) OR word_of_nat v :: 32 word" and ?b = "bs_bits st"
  let ?r = "unat ?buf mod 2 ^ (?b + 5)"
  have b: "?b < 8" using inv by (simp add: b32_inv_def)
  have r: "?r = (unat (bs_buf st) mod 2 ^ ?b) * 32 + v" by (rule shift_in [OF b v])
  have total: "bytes_val (take (bs_idx st) (bs_out st)) * 2 ^ (?b + 5) + ?r = digits_val (ds @ [v])"
  proof -
    have "bytes_val (take (bs_idx st) (bs_out st)) * 2 ^ ?b + unat (bs_buf st) mod 2 ^ ?b = digits_val ds" using inv by (simp add: b32_inv_def)
    moreover have "(2::nat) ^ (?b + 5) = 2 ^ ?b * 32" by (simp add: power_add)
    moreover have "x * (p * 32) + (y * 32 + v) = (x * p + y) * 32 + v" for x p y :: nat by (simp add: add_mult_distrib)
    ultimately show ?thesis unfolding r digits_val_snoc by (simp only:)
  qed
  show ?thesis
  proof (cases "?b + 5 \<ge> 8")
    case True
    let ?b' = "?b + 5 - 8"
    have sum: "?b' + 8 = ?b + 5" "?b' < 8" using True b by simp_all
    have "unat (ucast (drop_bit ?b' ?buf AND 0xff) :: byte) = ?r div 2 ^ ?b'" using byte_of [OF sum(2), of ?buf] by (simp only: sum(1))
    moreover have "bs_idx st < length (bs_out st)"
    proof -
      have "8 * (bs_idx st + 1) \<le> 5 * (length ds + 1)" using inv True by (simp add: b32_inv_def)
      then have "bs_idx st + 1 \<le> 5 * (length ds + 1) div 8" by (simp add: less_eq_div_iff_mult_less_eq)
      then show ?thesis using inv room by (simp add: b32_inv_def)
    qed
    moreover have "unat ?buf mod 2 ^ ?b' = ?r mod 2 ^ ?b'" by (simp add: mod_mod_cancel le_imp_power_dvd)
    moreover have "?r div 2 ^ ?b' * 2 ^ ?b' + ?r mod 2 ^ ?b' = ?r" by (rule div_mult_mod_eq)
    moreover have "(2::nat) ^ (c + 8) = 256 * 2 ^ c" for c by (simp add: power_add)
    then have "(2::nat) ^ (?b + 5) = 256 * 2 ^ ?b'" by (metis sum(1))
    ultimately have "bytes_val (take (Suc (bs_idx st)) ((bs_out st)[bs_idx st := ucast (drop_bit ?b' ?buf AND 0xff)])) * 2 ^ ?b' + unat ?buf mod 2 ^ ?b'
        = digits_val (ds @ [v])"
      using total by (simp add: take_write bytes_val_snoc algebra_simps)
    then show ?thesis using inv True sum ch by (auto simp: b32_inv_def b32_step_def Let_def)
  next
    case False
    then show ?thesis using inv total ch by (auto simp: b32_inv_def b32_step_def Let_def add.commute)
  qed
qed

lemma b32_fold:
  "list_all2 (\<lambda>ch v. index_of ch B32 = Some v \<and> v < 32) cs vs \<Longrightarrow> b32_inv ds n st \<Longrightarrow> 5 * (length ds + length cs) div 8 \<le> n \<Longrightarrow>
     b32_inv (ds @ vs) n (foldl b32_step st cs)"
proof (induction cs arbitrary: vs ds st)
  case (Cons c cs)
  then obtain v vs' where vs: "vs = v # vs'" "index_of c B32 = Some v" "v < 32" "list_all2 (\<lambda>ch v. index_of ch B32 = Some v \<and> v < 32) cs vs'"
    by (auto simp: list_all2_Cons1)
  have "5 * (length ds + 1) div 8 \<le> n" using Cons.prems(3) by simp
  from Cons.IH [OF vs(4) b32_inv_step [OF Cons.prems(2) vs(2,3) this]] Cons.prems(3) show ?case by (simp add: vs(1))
qed simp

lemma quotient_parts: "8 * i + b = (n :: nat) \<Longrightarrow> b < 8 \<Longrightarrow> b = n mod 8 \<and> i = n div 8"
  by presburger

text \<open>What the decoder makes of a text whose characters are all in the alphabet.\<close>

lemma base32Decode_value:
  assumes "list_all2 (\<lambda>ch v. index_of ch B32 = Some v \<and> v < 32) (b32_input s) vs"
  shows "length (base32Decode s) = 5 * length vs div 8 \<and> bytes_val (base32Decode s) = digits_val vs div 2 ^ (5 * length vs mod 8)"
proof -
  define n where "n = length (b32_input s) * 5 div 8"
  define st where "st = foldl b32_step \<lparr>bs_bits = 0, bs_buf = 0, bs_idx = 0, bs_out = replicate n 0\<rparr> (b32_input s)"
  have n: "n = 5 * length vs div 8" using list_all2_lengthD [OF assms] by (simp add: n_def mult.commute)
  have "b32_inv ([] @ vs) n st"
    unfolding st_def by (rule b32_fold [OF assms]) (simp_all add: b32_inv_def bytes_val_def digits_val_def n_def mult.commute)
  then have inv: "bs_bits st < 8" "8 * bs_idx st + bs_bits st = 5 * length vs" "length (bs_out st) = n"
    "bytes_val (take (bs_idx st) (bs_out st)) * 2 ^ bs_bits st + unat (bs_buf st) mod 2 ^ bs_bits st = digits_val vs"
    by (simp_all add: b32_inv_def)
  have bits: "bs_bits st = 5 * length vs mod 8" "bs_idx st = 5 * length vs div 8"
    using quotient_parts [OF inv(2,1)] by simp_all
  have full: "take (bs_idx st) (bs_out st) = bs_out st" using inv(3) bits(2) n by simp
  have cut: "(a * 2 ^ k + x mod 2 ^ k) div 2 ^ k = a" for a x k :: nat by (simp add: div_mult_self3)
  have "digits_val vs div 2 ^ bs_bits st = bytes_val (bs_out st)" unfolding inv(4) [symmetric] full by (rule cut)
  then have "bytes_val (bs_out st) = digits_val vs div 2 ^ (5 * length vs mod 8)" by (simp only: bits(1))
  moreover have "base32Decode s = bs_out st" by (simp add: base32Decode_def st_def n_def Let_def)
  ultimately show ?thesis using inv(3) n by simp
qed

lemma number_of_digits:
  fixes v :: nat
  shows "0 < B \<Longrightarrow> v < B ^ m \<Longrightarrow> foldl (\<lambda>a d. a * B + d) 0 (map (\<lambda>i. v div B ^ (m - 1 - i) mod B) [0..<m]) = v"
proof (induction m arbitrary: v)
  case (Suc m)
  have "map (\<lambda>i. v div B ^ (Suc m - 1 - i) mod B) [0..<m] = map (\<lambda>i. (v div B) div B ^ (m - 1 - i) mod B) [0..<m]"
  proof (rule map_cong [OF refl])
    fix i assume "i \<in> set [0..<m]"
    then have "Suc m - 1 - i = Suc (m - 1 - i)" by auto
    then show "v div B ^ (Suc m - 1 - i) mod B = v div B div B ^ (m - 1 - i) mod B" by (simp add: div_mult2_eq)
  qed
  moreover have "v div B < B ^ m" using Suc.prems by (simp add: less_mult_imp_div_less mult.commute)
  ultimately have "foldl (\<lambda>a d. a * B + d) 0 (map (\<lambda>i. v div B ^ (Suc m - 1 - i) mod B) [0..<m]) = v div B"
    using Suc.IH [of "v div B"] Suc.prems by (simp only:)
  moreover have "map (\<lambda>i. v div B ^ (Suc m - 1 - i) mod B) [0..<Suc m] = map (\<lambda>i. v div B ^ (Suc m - 1 - i) mod B) [0..<m] @ [v mod B]"
    by simp
  ultimately show ?case by (simp only: foldl_append foldl_Cons foldl_Nil div_mult_mod_eq)
qed simp

lemma digits_of_number: "v < 32 ^ m \<Longrightarrow> digits_val (map (\<lambda>i. v div 32 ^ (m - 1 - i) mod 32) [0..<m]) = v"
  unfolding digits_val_def by (rule number_of_digits) simp_all

lemma B32_digits: "v < 32 \<Longrightarrow> index_of (B32 ! v) B32 = Some v \<and> \<not> is_ws (B32 ! v) \<and> B32 ! v \<noteq> CHR ''='' \<and> upper_text (B32 ! v) = [B32 ! v]"
proof -
  assume "v < 32"
  then have "v \<in> set [0..<32]" by simp
  moreover have "list_all (\<lambda>v. index_of (B32 ! v) B32 = Some v \<and> \<not> is_ws (B32 ! v) \<and> B32 ! v \<noteq> CHR ''='' \<and> upper_text (B32 ! v) = [B32 ! v]) [0..<32]"
    by code_simp
  ultimately show ?thesis unfolding list_all_iff by blast
qed

lemma encoded_input:
  assumes "\<forall>c \<in> set cs. \<not> is_ws c \<and> c \<noteq> CHR ''='' \<and> upper_text c = [c]"
  shows "b32_input (cs @ replicate k (CHR ''='')) = cs"
proof -
  have up: "concat (map upper_text cs) = cs" using assms by (induction cs) auto
  have eq: "upper_text (CHR ''='') = ''=''" by code_simp
  have "concat (map upper_text (replicate k (CHR ''=''))) = replicate k (CHR ''='')" by (induction k) (simp_all add: eq)
  moreover have "dropWhile (\<lambda>c. c = CHR ''='') (rev cs) = rev cs" using assms by (cases cs rule: rev_cases) auto
  then have "dropWhile (\<lambda>c. c = CHR ''='') (replicate k (CHR ''='') @ rev cs) = rev cs" by (induction k) simp_all
  moreover have "filter (\<lambda>c. \<not> is_ws c) cs = cs" using assms by (auto simp: filter_id_conv)
  ultimately show ?thesis by (simp add: b32_input_def up)
qed

lemma base32_roundtrip: "base32Decode (b32_encode bs @ replicate k (CHR ''='')) = bs"
proof -
  define n where "n = length bs"
  define m where "m = ceil_div (8 * n) 5"
  define v where "v = bytes_val bs * 2 ^ (5 * m - 8 * n)"
  define vs where "vs = map (\<lambda>i. v div 32 ^ (m - 1 - i) mod 32) [0..<m]"
  have m: "8 * n \<le> 5 * m" "5 * m < 8 * n + 5" using ceil_div_bounds [of 5 "8 * n"] by (simp_all add: m_def mult.commute)
  have enc: "b32_encode bs = map (\<lambda>v. B32 ! v) vs" by (simp add: b32_encode_def Let_def vs_def v_def m_def n_def)
  have small: "\<forall>d \<in> set vs. d < 32" by (auto simp: vs_def)
  have "bytes_val bs * 2 ^ (5 * m - 8 * n) < 256 ^ n * 2 ^ (5 * m - 8 * n)" using bytes_val_bound [of bs] by (simp add: n_def)
  also have "(256 :: nat) ^ n * 2 ^ (5 * m - 8 * n) = 2 ^ (8 * n + (5 * m - 8 * n))" by (simp add: power_add power_mult)
  also have "\<dots> = 32 ^ m" using m(1) by (simp add: power_mult)
  finally have val: "digits_val vs = v" unfolding vs_def v_def by (intro digits_of_number)
  have input: "b32_input (b32_encode bs @ replicate k (CHR ''='')) = b32_encode bs"
    by (rule encoded_input) (use small B32_digits in \<open>auto simp: enc\<close>)
  have "list_all2 (\<lambda>ch v. index_of ch B32 = Some v \<and> v < 32) (b32_encode bs) vs"
    using small B32_digits by (auto simp: enc list_all2_conv_all_nth)
  then have dec: "length (base32Decode (b32_encode bs @ replicate k (CHR ''=''))) = 5 * length vs div 8"
    "bytes_val (base32Decode (b32_encode bs @ replicate k (CHR ''=''))) = v div 2 ^ (5 * length vs mod 8)"
    using base32Decode_value [of "b32_encode bs @ replicate k (CHR ''='')" vs] by (simp_all add: input val)
  have "length vs = m" by (simp add: vs_def)
  moreover have "8 * n + (5 * m - 8 * n) = 5 * m" "5 * m - 8 * n < 8" using m by simp_all
  ultimately have len: "5 * length vs div 8 = n" "5 * length vs mod 8 = 5 * m - 8 * n" using quotient_parts by metis+
  have "length (base32Decode (b32_encode bs @ replicate k (CHR ''=''))) = length bs" unfolding dec(1) len(1) by (rule n_def)
  moreover have "bytes_val (base32Decode (b32_encode bs @ replicate k (CHR ''=''))) = bytes_val bs" unfolding dec(2) len(2) by (simp add: v_def)
  ultimately show ?thesis by (rule bytes_val_inj)
qed

subsection \<open>The code is the one of RFC 6238\<close>

text \<open>The standard's dynamic truncation: four bytes at the offset the last four bits name, as a number, without the top bit.\<close>

definition rfc_truncation :: "byte list \<Rightarrow> nat" where
  "rfc_truncation h = bytes_val (take 4 (drop (unat (last h) mod 16) h)) mod 2 ^ 31"

lemma and_masks: "(x :: nat) AND 15 = x mod 16" "(x :: nat) AND 127 = x mod 128" "(x :: nat) AND 255 = x mod 256"
  using take_bit_eq_mask [of 4 x] take_bit_eq_mask [of 7 x] take_bit_eq_mask [of 8 x]
  by (simp_all add: mask_eq_exp_minus_1 take_bit_eq_mod)

lemma byte_lt: "unat (b :: byte) < 256"
  using unsigned_less [of b] by simp

lemma unat_byte32: "unat (ucast (b :: byte) :: 32 word) = unat b"
  using byte_lt [of b] by (simp add: unsigned_ucast_eq take_bit_nat_eq_self)

lemma unat_shifted: "unat w < 2 ^ (32 - k) \<Longrightarrow> k \<le> 32 \<Longrightarrow> unat (push_bit k (w :: 32 word)) = push_bit k (unat w)"
proof -
  assume "unat w < 2 ^ (32 - k)" "k \<le> 32"
  then have "unat w * 2 ^ k < 2 ^ (32 - k) * 2 ^ k" by simp
  also have "\<dots> = (2 :: nat) ^ 32" using \<open>k \<le> 32\<close> unfolding power_add [symmetric] by simp
  finally show ?thesis unfolding unsigned_push_bit_eq by (simp add: push_bit_eq_mult take_bit_nat_eq_self)
qed

lemma unat_masked: "unat (ucast (b :: byte) AND 0x7f :: 32 word) = unat b mod 128" "unat (ucast (b :: byte) AND 0xff :: 32 word) = unat b"
  using byte_lt [of b] by (simp_all add: unsigned_and_eq unat_byte32 and_masks)

lemma unat_shifted_byte:
  "unat (push_bit 24 (ucast (b :: byte) AND 0x7f) :: 32 word) = push_bit 24 (unat b mod 128)"
  "unat (push_bit 16 (ucast (b :: byte) AND 0xff) :: 32 word) = push_bit 16 (unat b)"
  "unat (push_bit 8 (ucast (b :: byte) AND 0xff) :: 32 word) = push_bit 8 (unat b)"
proof -
  have "unat b mod 128 < 2 ^ (32 - 24)" "unat b < 2 ^ (32 - 16)" "unat b < 2 ^ (32 - 8)" using byte_lt [of b] by simp_all
  then show "unat (push_bit 24 (ucast (b :: byte) AND 0x7f) :: 32 word) = push_bit 24 (unat b mod 128)"
    "unat (push_bit 16 (ucast (b :: byte) AND 0xff) :: 32 word) = push_bit 16 (unat b)"
    "unat (push_bit 8 (ucast (b :: byte) AND 0xff) :: 32 word) = push_bit 8 (unat b)"
    using unat_shifted [of "ucast b AND 0x7f" 24] unat_shifted [of "ucast b AND 0xff" 16] unat_shifted [of "ucast b AND 0xff" 8]
    unfolding unat_masked by linarith+
qed

lemma four_bytes:
  assumes "a < 128" "b < 256" "c < 256" "d < 256"
  shows "(push_bit 24 a OR push_bit 16 b OR push_bit 8 c OR d :: nat) = a * 2 ^ 24 + b * 2 ^ 16 + c * 2 ^ 8 + d"
proof -
  have "push_bit 8 c OR d = c * 2 ^ 8 + d" by (rule or_low_bits) (use assms in simp)
  moreover have "push_bit 16 b OR (c * 2 ^ 8 + d) = b * 2 ^ 16 + (c * 2 ^ 8 + d)" by (rule or_low_bits) (use assms in simp)
  moreover have "push_bit 24 a OR (b * 2 ^ 16 + (c * 2 ^ 8 + d)) = a * 2 ^ 24 + (b * 2 ^ 16 + (c * 2 ^ 8 + d))" by (rule or_low_bits) (use assms in simp)
  ultimately show ?thesis by simp
qed

lemma cut_top_bit: "y < 2 ^ 24 \<Longrightarrow> (x * 2 ^ 24 + y) mod 2 ^ 31 = (x mod 128) * 2 ^ 24 + (y :: nat)"
proof -
  assume y: "y < 2 ^ 24"
  have "x * 2 ^ 24 + y = (x div 128 * 128 + x mod 128) * 2 ^ 24 + y" by simp
  also have "\<dots> = ((x mod 128) * 2 ^ 24 + y) + 2 ^ 31 * (x div 128)" by (simp only: add_mult_distrib) simp
  finally have "(x * 2 ^ 24 + y) mod 2 ^ 31 = ((x mod 128) * 2 ^ 24 + y) mod 2 ^ 31" by (simp only: mod_mult_self2)
  moreover have "x mod 128 \<le> 127" using mod_less_divisor [of 128 x] by linarith
  then have "(x mod 128) * 2 ^ 24 + y < 2 ^ 31" using y by simp
  ultimately show ?thesis by simp
qed

lemma dynamic_bits_value:
  assumes "20 \<le> length h"
  shows "unat (dynamic_bits h) = rfc_truncation h"
proof -
  define off where "off = unat (last h) mod 16"
  have off: "unat (last h AND 0x0f) = off" by (simp add: off_def unsigned_and_eq and_masks)
  have "off < 16" by (simp add: off_def)
  then have in_range: "off + 3 < length h" using assms by simp
  define a b c d where "a = unat (h ! off)" and "b = unat (h ! (off + 1))" and "c = unat (h ! (off + 2))" and "d = unat (h ! (off + 3))"
  note bytes = a_def b_def c_def d_def
  have lt: "a < 256" "b < 256" "c < 256" "d < 256" by (simp_all add: bytes byte_lt)
  have parts: "unat (push_bit 24 (ucast (h ! off) AND 0x7f) :: 32 word) = push_bit 24 (a mod 128)"
    "unat (push_bit 16 (ucast (h ! (off + 1)) AND 0xff) :: 32 word) = push_bit 16 b"
    "unat (push_bit 8 (ucast (h ! (off + 2)) AND 0xff) :: 32 word) = push_bit 8 c"
    "unat (ucast (h ! (off + 3)) AND 0xff :: 32 word) = d"
    unfolding bytes by (rule unat_shifted_byte unat_masked)+
  have "unat (dynamic_bits h) = a mod 128 * 2 ^ 24 + b * 2 ^ 16 + c * 2 ^ 8 + d"
    unfolding dynamic_bits_def Let_def off unsigned_or_eq parts by (rule four_bytes) (use lt in simp_all)
  also have "\<dots> = (a * 2 ^ 24 + (b * 2 ^ 16 + c * 2 ^ 8 + d)) mod 2 ^ 31" using cut_top_bit [of "b * 2 ^ 16 + c * 2 ^ 8 + d" a] lt by simp
  also have "a * 2 ^ 24 + (b * 2 ^ 16 + c * 2 ^ 8 + d) = bytes_val [h ! off, h ! (off + 1), h ! (off + 2), h ! (off + 3)]"
    by (simp add: bytes_val_def bytes)
  also have "[h ! off, h ! (off + 1), h ! (off + 2), h ! (off + 3)] = take 4 (drop off h)"
    using in_range by (simp add: numeral_eq_Suc take_Suc_conv_app_nth)
  finally show ?thesis by (simp add: rfc_truncation_def off_def)
qed

lemma counter_value:
  assumes "0 \<le> n" "n < 2 ^ 64"
  shows "bytes_val (counter_bytes n) = nat n" "length (counter_bytes n) = 8"
proof -
  define x where "x = unat (word_of_int n :: 64 word)"
  have x: "x = nat n" using assms by (simp add: x_def unat_eq_nat_uint uint_word_of_int)
  have bytes: "unat (ucast (drop_bit k (word_of_int n :: 64 word)) :: byte) = x div 2 ^ k mod 256" for k
  proof -
    have "take_bit 64 (unat (word_of_int n :: 64 word)) = unat (word_of_int n :: 64 word)"
      using unsigned_less [of "word_of_int n :: 64 word"] by (intro take_bit_nat_eq_self) simp
    then have "unat (ucast (drop_bit k (word_of_int n :: 64 word)) :: byte) = take_bit 8 (drop_bit k x)"
      unfolding unsigned_ucast_eq unsigned_drop_bit_eq x_def by simp
    then show ?thesis by (simp only: take_bit_eq_mod drop_bit_eq_div) simp
  qed
  then have "map unat (counter_bytes n) = map (\<lambda>k. x div 2 ^ k mod 256) [56, 48, 40, 32, 24, 16, 8, 0]"
    by (simp only: counter_bytes_def list.map bytes)
  moreover have "bytes_val bs = foldl (\<lambda>a b. a * 256 + b) 0 (map unat bs)" for bs by (simp add: bytes_val_def foldl_map)
  ultimately have v: "bytes_val (counter_bytes n) = foldl (\<lambda>a b. a * 256 + b) 0 (map (\<lambda>k. x div 2 ^ k mod 256) [56, 48, 40, 32, 24, 16, 8, 0])" by simp
  have "map (\<lambda>k. x div 2 ^ k mod 256) [56, 48, 40, 32, 24, 16, 8, 0] = map (\<lambda>i. x div 256 ^ (8 - 1 - i) mod 256) [0, 1, 2, 3, 4, 5, 6, 7]" by simp
  moreover have "[0, 1, 2, 3, 4, 5, 6, 7] = [0..<8]" by code_simp
  moreover have "x < 256 ^ 8" using assms x by simp
  then have "foldl (\<lambda>a d. a * 256 + d) 0 (map (\<lambda>i. x div 256 ^ (8 - 1 - i) mod 256) [0..<8]) = x" by (intro number_of_digits) simp_all
  ultimately have "foldl (\<lambda>a b. a * 256 + b) 0 (map (\<lambda>k. x div 2 ^ k mod 256) [56, 48, 40, 32, 24, 16, 8, 0]) = x" by (simp only:)
  then show "bytes_val (counter_bytes n) = nat n" using v x by simp
  show "length (counter_bytes n) = 8" by (simp add: counter_bytes_def)
qed

lemma show_nat_length: "n < 10 ^ Suc k \<Longrightarrow> length (show_nat n) \<le> Suc k"
proof (induction k arbitrary: n)
  case (Suc k)
  then have "n div 10 < 10 ^ Suc k" by (simp add: less_mult_imp_div_less)
  with Suc.IH show ?case by (subst show_nat.simps) auto
next
  case 0
  then show ?case by (subst show_nat.simps) simp
qed

text \<open>C37. The code shown for a secret is the one of RFC 6238 and always has six digits: the secret as Auth prints it, in
  base32 with or without padding, is decoded to its bytes; the message is the number of 30-second steps in eight
  bytes; and the digits are the digest's four bytes at the dynamic offset without the top bit, modulo a million. The
  32-bit shifts of the decoder and of the truncation lose nothing.\<close>

theorem totp_rfc6238:
  assumes "0 \<le> ts" "\<lfloor>ts / 1000 / 30\<rfloor> < 2 ^ 64" "\<And>key msg. length (hmac key msg) = 20"
  shows "totp hmac (b32_encode secret @ replicate k (CHR ''='')) ts =
      pad6 (show_nat (rfc_truncation (hmac secret (counter_bytes \<lfloor>ts / 1000 / 30\<rfloor>)) mod 1000000))
    \<and> bytes_val (counter_bytes \<lfloor>ts / 1000 / 30\<rfloor>) = nat \<lfloor>ts / 1000 / 30\<rfloor> \<and> length (counter_bytes \<lfloor>ts / 1000 / 30\<rfloor>) = 8
    \<and> length (totp hmac (b32_encode secret @ replicate k (CHR ''='')) ts) = 6"
proof -
  define h where "h = hmac secret (counter_bytes \<lfloor>ts / 1000 / 30\<rfloor>)"
  have len: "length h = 20" by (simp add: h_def assms(3))
  have u: "unat (dynamic_bits h) = rfc_truncation h" by (rule dynamic_bits_value) (simp add: len)
  have "rfc_truncation h < 2 ^ 31" by (simp add: rfc_truncation_def)
  then have "uint (dynamic_bits h) = int (rfc_truncation h)" "int (rfc_truncation h) < 2 ^ 31" using u by (metis of_nat_unat, simp)
  then have "sint (dynamic_bits h) = int (rfc_truncation h)"
    by (simp add: sint_uint signed_take_bit_eq_if_positive bit_iff_odd take_bit_int_eq_self)
  then have "sint (dynamic_bits h) smod 1000000 = int (rfc_truncation h mod 1000000)" by (cases "rfc_truncation h = 0") (simp_all add: smod_int_alt_def zmod_int)
  then have code: "totp hmac (b32_encode secret @ replicate k (CHR ''='')) ts = pad6 (show_nat (rfc_truncation h mod 1000000))"
    unfolding totp_def Let_def base32_roundtrip h_def [symmetric] show_int_def by simp
  have "length (show_nat (rfc_truncation h mod 1000000)) \<le> 6" using show_nat_length [of _ 5] by simp
  then have "length (pad6 (show_nat (rfc_truncation h mod 1000000))) = 6" by (simp add: pad6_def)
  then show ?thesis using code counter_value [of "\<lfloor>ts / 1000 / 30\<rfloor>"] assms(1,2) by (simp add: h_def)
qed

text \<open>A digest in which every byte is 0x9f: the offset is 15 and the four bytes give 0x1f9f9f9f.\<close>

theorem totp_rfc6238_witness:
  "totp (\<lambda>_ _. replicate 20 0x9f) (b32_encode [0x48, 0x69] @ ''==='') 59000 = ''554783''
     \<and> length (totp (\<lambda>_ _. replicate 20 0x9f) (b32_encode [0x48, 0x69] @ ''==='') 59000) = 6"
proof -
  have "replicate 4 x = [x, x, x, x]" for x :: byte by (simp add: numeral_eq_Suc)
  then have "rfc_truncation (replicate 20 0x9f) mod 1000000 = 554783" by (simp add: rfc_truncation_def bytes_val_def)
  moreover have "show_nat 554783 = ''554783''" "replicate 3 (CHR ''='') = ''===''" "pad6 ''554783'' = ''554783''"
    by (simp add: show_nat.simps digit_char_def, simp add: numeral_eq_Suc, simp add: pad6_def)
  moreover have "totp (\<lambda>_ _. replicate 20 0x9f) (b32_encode [0x48, 0x69] @ replicate 3 (CHR ''='')) 59000 =
      pad6 (show_nat (rfc_truncation (replicate 20 0x9f) mod 1000000))"
    "length (totp (\<lambda>_ _. replicate 20 0x9f) (b32_encode [0x48, 0x69] @ replicate 3 (CHR ''='')) 59000) = 6"
    by (rule totp_rfc6238 [of 59000 "\<lambda>_ _. replicate 20 0x9f" "[0x48, 0x69]" 3, THEN conjunct1]
          totp_rfc6238 [of 59000 "\<lambda>_ _. replicate 20 0x9f" "[0x48, 0x69]" 3, THEN conjunct2, THEN conjunct2, THEN conjunct2]; simp)+
  ultimately show ?thesis by (simp only:)
qed

end
