(* ===== verification/Session_Carry.thy ===== *)
theory Session_Carry
  imports Mgmt RegExp
begin

text \<open>
  Moving one user's auth rows between projects: the copy of a table through the query endpoint
  (\<open>experiments/tenant-promotion/lib/promote.ts\<close>, and the older one of \<open>tenant-consolidation/lib/consolidate.ts\<close>), the copy
  of a user, the room made for an imported signing key and the sessions of \<open>experiments/session-carry/lib/carry.ts\<close>, the list
  of signing keys (\<open>key-rotation/lib/rotation.ts\<close>). A call of the Management API depends on all earlier ones: a world says
  what a statement is answered after a trace of statements, an answer or an exception, and a computation threads the trace.
  \<open>JSON.parse\<close>, \<open>localeCompare\<close> and the random quoting tag are arguments. Rows and bodies are objects where the code casts
  them to objects.
\<close>

subsection \<open>Statements and their trace\<close>

type_synonym sql_event = "string \<times> string \<times> (string + mgmt_response)"

type_synonym sql_world = "sql_event list \<Rightarrow> string \<Rightarrow> string \<Rightarrow> string + mgmt_response"

type_synonym 'a traced = "sql_event list \<Rightarrow> sql_event list \<times> (string + 'a)"

definition done_with :: "'a \<Rightarrow> 'a traced" where
  "done_with x tr = (tr, Inr x)"

definition throws :: "string \<Rightarrow> 'a traced" where
  "throws e tr = (tr, Inl e)"

definition then_with :: "'a traced \<Rightarrow> ('a \<Rightarrow> 'b traced) \<Rightarrow> 'b traced" where
  "then_with m f tr = (case m tr of (tr', Inl e) \<Rightarrow> (tr', Inl e) | (tr', Inr x) \<Rightarrow> f x tr')"

record sql_answer =
  sa_status :: int
  sa_rows :: "json list option"
  sa_error :: "string option"
  sa_code :: "string option"
  sa_text :: string

definition js_str :: "json option \<Rightarrow> string option" where
  "js_str j = (case j of Some (JStr s) \<Rightarrow> Some s | _ \<Rightarrow> None)"

definition sql_answer_of :: "mgmt_response \<Rightarrow> sql_answer" where
  "sql_answer_of r =
     (case mr_json r of
        Some (JArr rows) \<Rightarrow> \<lparr>sa_status = mr_status r, sa_rows = Some rows, sa_error = None, sa_code = None, sa_text = mr_text r\<rparr>
      | j \<Rightarrow>
          (let b = (case nn j of None \<Rightarrow> JObj [] | Some v \<Rightarrow> v)
           in \<lparr>sa_status = mr_status r, sa_rows = None,
               sa_error = Some (case js_str (jget ''message'' b) of Some msg \<Rightarrow> msg
                                | None \<Rightarrow> (case js_str (jget ''error'' b) of Some msg \<Rightarrow> msg | None \<Rightarrow> mr_text r)),
               sa_code = js_str (jget ''code'' b), sa_text = mr_text r\<rparr>))"

definition run_sql :: "sql_world \<Rightarrow> string \<Rightarrow> string \<Rightarrow> sql_answer traced" where
  "run_sql w ref q tr = (let a = w tr ref q in (tr @ [(ref, q, a)], map_sum (\<lambda>e. e) sql_answer_of a))"

definition sqlstate_re :: re where
  "sqlstate_re = Seqs [WordB, Grp 1 (Seq (Rep 2 (Cls is_digit)) (Rep 3 (Cls (\<lambda>c. is_digit c \<or> is_upper c)))), WordB]"

definition sqlstate :: "sql_answer \<Rightarrow> string" where
  "sqlstate r =
     (if truthy (sa_code r) then the (sa_code r)
      else case re_group 1 sqlstate_re (case sa_error r of None \<Rightarrow> [] | Some e \<Rightarrow> e) of None \<Rightarrow> ''none'' | Some s \<Rightarrow> s)"

subsection \<open>Copying a table\<close>

definition ap :: string where
  "ap = [CHR 0x27]"

definition quote_name :: "string \<Rightarrow> string" where
  "quote_name c = CHR 0x22 # c @ [CHR 0x22]"

definition columns_query :: "string \<Rightarrow> string \<Rightarrow> string" where
  "columns_query schema table =
     ''select column_name from information_schema.columns'' @ nl @ ''      where table_schema = '' @ ap @ schema @ ap @ '' and table_name = ''
       @ ap @ table @ ap @ '' and is_generated = '' @ ap @ ''NEVER'' @ ap @ nl @ ''      order by ordinal_position''"

definition nonGeneratedColumns :: "sql_world \<Rightarrow> string \<Rightarrow> string \<Rightarrow> string \<Rightarrow> string list traced" where
  "nonGeneratedColumns w ref schema table =
     then_with (run_sql w ref (columns_query schema table))
       (\<lambda>r. done_with (map (\<lambda>x. js_string_opt (jget ''column_name'' x)) (case sa_rows r of None \<Rightarrow> [] | Some rows \<Rightarrow> rows)))"

definition dump_query :: "string \<Rightarrow> string \<Rightarrow> string list \<Rightarrow> string \<Rightarrow> string" where
  "dump_query schema table cols cond =
     ''select coalesce(json_agg(t), '' @ ap @ ''[]'' @ ap @ ''::json)::text as payload'' @ nl @ ''       from (select '' @ join '','' (map quote_name cols)
       @ '' from '' @ schema @ ''.'' @ table @ '' where '' @ cond @ '') t''"

definition insert_query :: "string \<Rightarrow> string \<Rightarrow> string list \<Rightarrow> string obj \<Rightarrow> string \<Rightarrow> string \<Rightarrow> string" where
  "insert_query schema table cols rewrite payload t =
     ''insert into '' @ schema @ ''.'' @ table @ '' ('' @ join '','' (map quote_name cols) @ '')'' @ nl @ ''       select ''
       @ join '','' (map (\<lambda>c. case obj_get rewrite c of None \<Rightarrow> quote_name c | Some e \<Rightarrow> e) cols)
       @ '' from json_populate_recordset(null::'' @ schema @ ''.'' @ table @ '', '' @ t @ payload @ t @ ''::json)''"

record copy_outcome =
  co_read :: "nat option"
  co_cols :: nat
  co_result :: sql_answer
  co_dump :: sql_answer

definition payload_of :: "sql_answer \<Rightarrow> string" where
  "payload_of d =
     (case sa_rows d of
        Some (row # _) \<Rightarrow> js_string_opt (coalesce (jget ''payload'' row) (Some (JStr ''[]'')))
      | _ \<Rightarrow> ''[]'')"

text \<open>\<open>rows.length\<close> of what \<open>JSON.parse\<close> gave: \<open>undefined\<close> for a value without a length, an exception for \<open>null\<close>.\<close>

definition row_count :: "json \<Rightarrow> string + nat option" where
  "row_count j = (case j of JArr xs \<Rightarrow> Inr (Some (length xs)) | JStr s \<Rightarrow> Inr (Some (length s)) | JNull \<Rightarrow> Inl ''null has no length'' | _ \<Rightarrow> Inr None)"

definition insert_dump ::
  "(string \<Rightarrow> json option) \<Rightarrow> (sql_event list \<Rightarrow> string) \<Rightarrow> sql_world \<Rightarrow> string \<Rightarrow> string \<Rightarrow> string \<Rightarrow> string list \<Rightarrow> string obj \<Rightarrow> sql_answer \<Rightarrow> copy_outcome traced" where
  "insert_dump parse tags w to schema table cols rewrite dump tr =
     (case parse (payload_of dump) of
        None \<Rightarrow> throws ''not JSON'' tr
      | Some j \<Rightarrow>
          then_with (run_sql w to (insert_query schema table cols rewrite (payload_of dump) (tags tr)))
            (\<lambda>r. case row_count j of Inl e \<Rightarrow> throws e
                 | Inr n \<Rightarrow> done_with \<lparr>co_read = n, co_cols = length cols, co_result = r, co_dump = dump\<rparr>) tr)"

definition shared_columns :: "sql_world \<Rightarrow> string \<Rightarrow> string \<Rightarrow> string \<Rightarrow> string \<Rightarrow> string list traced" where
  "shared_columns w source to schema table =
     then_with (nonGeneratedColumns w source schema table)
       (\<lambda>src. then_with (nonGeneratedColumns w to schema table) (\<lambda>dst. done_with (filter (\<lambda>c. c \<in> set dst) src)))"

definition copyTable ::
  "(string \<Rightarrow> json option) \<Rightarrow> (sql_event list \<Rightarrow> string) \<Rightarrow> sql_world \<Rightarrow> string \<Rightarrow> string \<Rightarrow> string \<Rightarrow> string \<Rightarrow> string \<Rightarrow> string obj \<Rightarrow> copy_outcome traced" where
  "copyTable parse tags w source to schema table cond rewrite =
     then_with (shared_columns w source to schema table)
       (\<lambda>cols. then_with (run_sql w source (dump_query schema table cols cond))
         (\<lambda>dump. if truthy (sa_error dump)
                 then done_with \<lparr>co_read = Some 0, co_cols = length cols, co_result = dump, co_dump = dump\<rparr>
                 else insert_dump parse tags w to schema table cols rewrite dump))"

text \<open>The copy of tenant-consolidation goes on with whatever the dump answered.\<close>

definition copyTable_unchecked ::
  "(string \<Rightarrow> json option) \<Rightarrow> (sql_event list \<Rightarrow> string) \<Rightarrow> sql_world \<Rightarrow> string \<Rightarrow> string \<Rightarrow> string \<Rightarrow> string \<Rightarrow> string \<Rightarrow> string obj \<Rightarrow> copy_outcome traced" where
  "copyTable_unchecked parse tags w source to schema table cond rewrite =
     then_with (shared_columns w source to schema table)
       (\<lambda>cols. then_with (run_sql w source (dump_query schema table cols cond)) (insert_dump parse tags w to schema table cols rewrite))"

definition resync_query :: "string \<Rightarrow> string \<Rightarrow> string \<Rightarrow> string \<Rightarrow> string" where
  "resync_query sequ schema table column =
     ''select setval('' @ ap @ sequ @ ap @ '','' @ nl @ ''       coalesce((select max('' @ quote_name column @ '') from '' @ schema @ ''.'' @ table
       @ ''), 1), true) as v''"

definition resyncSequence :: "sql_world \<Rightarrow> string \<Rightarrow> string \<Rightarrow> string \<Rightarrow> string \<Rightarrow> string \<Rightarrow> (sql_answer \<times> string) traced" where
  "resyncSequence w ref sequ schema table column =
     then_with (run_sql w ref (resync_query sequ schema table column))
       (\<lambda>r. done_with (r, case sa_rows r of Some (row # _) \<Rightarrow> js_string_opt (coalesce (jget ''v'' row) (Some (JStr ''unknown''))) | _ \<Rightarrow> ''unknown''))"

subsection \<open>Copying a user\<close>

definition CORE_TABLES :: "string list" where
  "CORE_TABLES = [''users'', ''identities'', ''sessions'', ''refresh_tokens'', ''mfa_factors'']"

definition user_condition :: "string \<Rightarrow> string \<Rightarrow> string" where
  "user_condition uid t =
     (if t = ''users'' then ''id = '' @ ap @ uid @ ap
      else if t = ''refresh_tokens'' then ''user_id::text = '' @ ap @ uid @ ap
      else if t = ''mfa_amr_claims'' then ''session_id in (select id from auth.sessions where user_id = '' @ ap @ uid @ ap @ '')''
      else ''user_id = '' @ ap @ uid @ ap)"

definition token_rewrite :: "string \<Rightarrow> string obj" where
  "token_rewrite t = (if t = ''refresh_tokens'' then [(''id'', ''nextval('' @ ap @ ''auth.refresh_tokens_id_seq'' @ ap @ '')'')] else [])"

definition copied_well :: "string \<Rightarrow> copy_outcome \<Rightarrow> bool" where
  "copied_well t c = (sa_status (co_result c) < 300 \<and> \<not> truthy (sa_error (co_dump c))
     \<and> (t = ''mfa_factors'' \<or> (case co_read c of Some n \<Rightarrow> n > 0 | None \<Rightarrow> False)))"

record carry_row =
  cy_id :: string
  cy_title :: string
  cy_pass :: bool
  cy_detail :: string
  cy_read :: "nat option"
  cy_sqlstate :: "string option"
  cy_evidence :: "string option"

definition table_row :: "string \<Rightarrow> string \<Rightarrow> copy_outcome \<Rightarrow> carry_row" where
  "table_row idPrefix t c =
     \<lparr>cy_id = idPrefix @ ''-'' @ t, cy_title = ''auth.'' @ t @ '' copied'', cy_pass = copied_well t c,
      cy_detail = (if truthy (sa_error (co_dump c)) then ''dump failed: '' @ take 140 (the (sa_error (co_dump c)))
                   else (case co_read c of None \<Rightarrow> ''undefined'' | Some n \<Rightarrow> show_nat n) @ '' row(s) over '' @ show_nat (co_cols c) @ '' columns''),
      cy_read = co_read c, cy_sqlstate = Some (sqlstate (co_result c)), cy_evidence = map_option (take 200) (sa_error (co_result c))\<rparr>"

fun copy_tables ::
  "(string \<Rightarrow> json option) \<Rightarrow> (sql_event list \<Rightarrow> string) \<Rightarrow> sql_world \<Rightarrow> string \<Rightarrow> string \<Rightarrow> string \<Rightarrow> string \<Rightarrow> string list \<Rightarrow> (carry_row list \<times> bool) traced" where
  "copy_tables parse tags w source to uid idPrefix [] = done_with ([], True)"
| "copy_tables parse tags w source to uid idPrefix (t # ts) =
     then_with (copyTable parse tags w source to ''auth'' t (user_condition uid t) (token_rewrite t))
       (\<lambda>c. then_with (copy_tables parse tags w source to uid idPrefix ts)
         (\<lambda>(rows, ok). done_with (table_row idPrefix t c # rows, copied_well t c \<and> ok)))"

definition seq_row :: "string \<Rightarrow> sql_answer \<Rightarrow> string \<Rightarrow> carry_row" where
  "seq_row idPrefix r v =
     \<lparr>cy_id = idPrefix @ ''-seq'', cy_title = ''auth.refresh_tokens_id_seq resynced'', cy_pass = (sa_status r < 300),
      cy_detail = ''last_value='' @ v, cy_read = None, cy_sqlstate = None, cy_evidence = None\<rparr>"

definition finish_user :: "sql_world \<Rightarrow> string \<Rightarrow> string \<Rightarrow> carry_row list \<times> bool \<Rightarrow> (carry_row list \<times> bool) traced" where
  "finish_user w to idPrefix x =
     then_with (resyncSequence w to ''auth.refresh_tokens_id_seq'' ''auth'' ''refresh_tokens'' ''id'')
       (\<lambda>(r, v). done_with (fst x @ [seq_row idPrefix r v], snd x \<and> \<not> sa_status r \<ge> 300))"

definition copyUser ::
  "(string \<Rightarrow> json option) \<Rightarrow> (sql_event list \<Rightarrow> string) \<Rightarrow> sql_world \<Rightarrow> string \<Rightarrow> string \<Rightarrow> string \<Rightarrow> string \<Rightarrow> string list \<Rightarrow> (carry_row list \<times> bool) traced" where
  "copyUser parse tags w source to uid idPrefix extra =
     then_with (copy_tables parse tags w source to uid idPrefix (CORE_TABLES @ extra)) (finish_user w to idPrefix)"

subsection \<open>Signing keys\<close>

record signing_key =
  sk_id :: string
  sk_kid :: string
  sk_status :: string
  sk_algorithm :: "json option"
  sk_created_at :: "json option"

definition or_blank :: "json option \<Rightarrow> string" where
  "or_blank v = js_string_opt (coalesce v (Some (JStr [])))"

definition signing_key_of :: "json \<Rightarrow> signing_key" where
  "signing_key_of rec =
     \<lparr>sk_id = or_blank (jget ''id'' rec),
      sk_kid = or_blank (coalesce (Option.bind (jget ''public_jwk'' rec) (jget ''kid'')) (jget ''id'' rec)),
      sk_status = or_blank (jget ''status'' rec), sk_algorithm = jget ''algorithm'' rec, sk_created_at = jget ''created_at'' rec\<rparr>"

definition listSigningKeys :: "mgmt_response \<Rightarrow> signing_key list" where
  "listSigningKeys r = (case Option.bind (mr_json r) (jget ''keys'') of Some (JArr ks) \<Rightarrow> map signing_key_of ks | _ \<Rightarrow> [])"

definition keyStatus :: "signing_key list \<Rightarrow> string \<Rightarrow> string option" where
  "keyStatus ks kid = map_option sk_status (List.find (\<lambda>k. sk_kid k = kid) ks)"

text \<open>\<open>makeRoom\<close>: the key it revokes, if any, whose \<open>kid\<close> it returns.\<close>

definition by_age :: "(string \<Rightarrow> string \<Rightarrow> int) \<Rightarrow> signing_key \<Rightarrow> signing_key \<Rightarrow> int" where
  "by_age lc a b = lc (js_string_opt (sk_created_at a)) (js_string_opt (sk_created_at b))"

definition makeRoom :: "(string \<Rightarrow> string \<Rightarrow> int) \<Rightarrow> signing_key list \<Rightarrow> signing_key option" where
  "makeRoom lc ks =
     (let prev = filter (\<lambda>k. sk_status k = ''previously_used'') ks
      in if length prev < 3 then None
         else (case sort_by (by_age lc) (filter (\<lambda>k. sk_algorithm k \<noteq> Some (JStr ''HS256'')) prev) of [] \<Rightarrow> None | v # _ \<Rightarrow> Some v))"

definition in_use_kid :: "signing_key list \<Rightarrow> string option" where
  "in_use_kid ks = map_option sk_kid (List.find (\<lambda>k. sk_status k = ''in_use'') ks)"

definition sharedInUseKid :: "signing_key list \<Rightarrow> signing_key list \<Rightarrow> string option" where
  "sharedInUseKid ka kb = (if truthy (in_use_kid ka) \<and> in_use_kid ka = in_use_kid kb then in_use_kid ka else None)"

subsection \<open>A user with a session\<close>

record auth_answer =
  au_status :: int
  au_json :: json
  au_text :: string

definition first_text :: "json \<Rightarrow> string list \<Rightarrow> string" where
  "first_text j ks = (case List.find (\<lambda>k. js_str (jget k j) \<noteq> None) ks of None \<Rightarrow> [] | Some k \<Rightarrow> the (js_str (jget k j)))"

definition auth_err_text :: "auth_answer \<Rightarrow> string" where
  "auth_err_text r =
     (if au_status r < 300 then ''HTTP '' @ show_int (au_status r)
      else take 200 (trim (''HTTP '' @ show_int (au_status r) @ '' '' @ first_text (au_json r) [''error_code'', ''code'', ''error'']
             @ '' '' @ first_text (au_json r) [''msg'', ''message'', ''error_description''])))"

text \<open>\<open>adminCreate\<close>: a second call only after a server error.\<close>

definition adminCreate :: "(nat \<Rightarrow> auth_answer) \<Rightarrow> nat \<times> auth_answer" where
  "adminCreate answers = (if au_status (answers 0) \<ge> 500 then (2, answers 1) else (1, answers 0))"

record lab_session =
  ls_email :: string
  ls_uid :: string
  ls_access :: string
  ls_refresh :: string

definition both_tokens :: "auth_answer \<Rightarrow> (string \<times> string) option" where
  "both_tokens l =
     (let a = js_str (jget ''access_token'' (au_json l)); r = js_str (jget ''refresh_token'' (au_json l))
      in if truthy a \<and> truthy r then Some (the a, the r) else None)"

definition newSession :: "(string \<Rightarrow> json) \<Rightarrow> string \<Rightarrow> string \<Rightarrow> (nat \<Rightarrow> auth_answer) \<Rightarrow> auth_answer \<Rightarrow> string + lab_session" where
  "newSession claims runTag tagName creates l =
     (let c = snd (adminCreate creates)
      in if au_status c \<ge> 300 then Inl (''adminCreate '' @ auth_err_text c)
         else (case both_tokens l of None \<Rightarrow> Inl (''login '' @ auth_err_text l)
               | Some (a, r) \<Rightarrow> Inr \<lparr>ls_email = tagName @ ''-'' @ runTag @ ''@lab.invalid'', ls_uid = or_blank (jget ''sub'' (claims a)), ls_access = a, ls_refresh = r\<rparr>))"

text \<open>\<open>stepUpToAal2\<close>: each call is made only if the one before gave what it needs.\<close>

definition stepUpToAal2 :: "auth_answer \<Rightarrow> (string \<Rightarrow> auth_answer) \<Rightarrow> (string \<Rightarrow> string \<Rightarrow> string \<Rightarrow> auth_answer) \<Rightarrow> (string \<Rightarrow> string) \<Rightarrow> string + string \<times> string" where
  "stepUpToAal2 e challenge verify code =
     (let fid = js_str (jget ''id'' (au_json e)); secret = js_str (Option.bind (jget ''totp'' (au_json e)) (jget ''secret''))
      in if \<not> truthy fid \<or> \<not> truthy secret then Inl (''enrol '' @ auth_err_text e)
         else (let ch = challenge (the fid); cid = js_str (jget ''id'' (au_json ch))
               in if \<not> truthy cid then Inl (''challenge '' @ auth_err_text ch)
                  else (let v = verify (the fid) (the cid) (code (the secret))
                        in case both_tokens v of None \<Rightarrow> Inl (''verify '' @ auth_err_text v) | Some ts \<Rightarrow> Inr ts)))"

subsection \<open>Readiness and reads\<close>

definition services_ready :: "mgmt_response \<Rightarrow> bool" where
  "services_ready r =
     (case mr_json r of Some (JArr xs) \<Rightarrow> length xs \<ge> 3 \<and> list_all (\<lambda>x. jget ''status'' x = Some (JStr ''ACTIVE_HEALTHY'')) xs | _ \<Rightarrow> False)"

text \<open>\<open>waitReady\<close> over its rounds: what the clock reads before each and what the call answers.\<close>

fun waitReady :: "rat \<Rightarrow> (rat \<times> mgmt_response) list \<Rightarrow> bool option" where
  "waitReady budgetMs [] = None"
| "waitReady budgetMs ((since, r) # rounds) =
     (if \<not> since < budgetMs then Some False else if services_ready r then Some True else waitReady budgetMs rounds)"

record rest_read =
  rd_status :: int
  rd_rows :: "json list option"
  rd_code :: "string option"
  rd_text :: string

definition read_answer :: "(string \<Rightarrow> json option) \<Rightarrow> int \<Rightarrow> string \<Rightarrow> rest_read" where
  "read_answer parse status txt =
     \<lparr>rd_status = status, rd_rows = (case parse txt of Some (JArr xs) \<Rightarrow> Some xs | _ \<Rightarrow> None),
      rd_code = (case parse txt of Some (JArr xs) \<Rightarrow> None | Some j \<Rightarrow> js_str (jget ''code'' j) | None \<Rightarrow> None), rd_text = txt\<rparr>"

definition picked_key :: "mgmt_response \<Rightarrow> string \<Rightarrow> json option" where
  "picked_key r name =
     (case mr_json r of
        Some (JArr ks) \<Rightarrow> Option.bind (List.find (\<lambda>k. jget ''name'' k = Some (JStr name)) ks) (jget ''api_key'')
      | _ \<Rightarrow> None)"

definition project_keys_of :: "mgmt_response \<Rightarrow> json option \<times> json option" where
  "project_keys_of r = (picked_key r ''anon'', picked_key r ''service_role'')"

lemma ready_needs_three: "services_ready r \<Longrightarrow> \<exists>xs. mr_json r = Some (JArr xs) \<and> 3 \<le> length xs"
  by (auto simp: services_ready_def split: option.splits json.splits)

lemma wait_returns: "waitReady budget rounds = None \<longleftrightarrow> (\<forall>(since, r) \<in> set rounds. since < budget \<and> \<not> services_ready r)"
  by (induction rounds) (auto split: if_splits)

text \<open>A key that is revoked to make room is asymmetric, no longer in use, and none like it is older; there were three.\<close>

lemma makeRoom_safe:
  assumes "comparator lc" "makeRoom lc ks = Some v"
  shows "v \<in> set ks \<and> sk_status v = ''previously_used'' \<and> sk_algorithm v \<noteq> Some (JStr ''HS256'')
    \<and> 3 \<le> length (filter (\<lambda>k. sk_status k = ''previously_used'') ks)
    \<and> (\<forall>k \<in> set ks. sk_status k = ''previously_used'' \<and> sk_algorithm k \<noteq> Some (JStr ''HS256'') \<longrightarrow> by_age lc v k \<le> 0)"
proof -
  have "by_age lc = (\<lambda>a b. lc (js_string_opt (sk_created_at a)) (js_string_opt (sk_created_at b)))" by (simp add: by_age_def fun_eq_iff)
  then have cmp: "comparator (by_age lc)" using comparator_key [OF assms(1)] by simp
  define c where "c = filter (\<lambda>k. sk_algorithm k \<noteq> Some (JStr ''HS256'')) (filter (\<lambda>k. sk_status k = ''previously_used'') ks)"
  from assms(2) have three: "3 \<le> length (filter (\<lambda>k. sk_status k = ''previously_used'') ks)"
    by (simp add: makeRoom_def Let_def split: if_splits)
  with assms(2) obtain rest where v: "sort_by (by_age lc) c = v # rest"
    by (cases "sort_by (by_age lc) c") (simp_all add: makeRoom_def c_def Let_def)
  have "sorted_wrt (\<lambda>x y. by_age lc x y \<le> 0) (v # rest)" using comparator.sorted_sort_by [OF cmp, of c] by (simp add: v)
  moreover have "set (v # rest) = set c" using comparator.set_sort_by [OF cmp, of c] by (simp add: v)
  moreover have "by_age lc v v \<le> 0" using comparator.cmp_refl [OF cmp] by simp
  ultimately have "v \<in> set c" "\<forall>k \<in> set c. by_age lc v k \<le> 0" by auto
  then show ?thesis using three by (auto simp: c_def)
qed

subsection \<open>What a copy sends\<close>

text \<open>A computation whose statements all satisfy a predicate, whatever it returns or throws.\<close>

definition only :: "(sql_event \<Rightarrow> bool) \<Rightarrow> 'a traced \<Rightarrow> bool" where
  "only P m \<longleftrightarrow> (\<forall>tr. \<exists>es. fst (m tr) = tr @ es \<and> list_all P es)"

lemma only_done [intro]: "only P (done_with x)"
  by (auto simp: only_def done_with_def)

lemma only_throws [intro]: "only P (throws e)"
  by (auto simp: only_def throws_def)

lemma only_sql: "(\<And>a. P (ref, q, a)) \<Longrightarrow> only P (run_sql w ref q)"
  by (auto simp: only_def run_sql_def Let_def)

lemma only_then:
  assumes "only P m" "\<And>x. only P (f x)"
  shows "only P (then_with m f)"
  unfolding only_def
proof
  fix tr
  obtain tr' r where m: "m tr = (tr', r)" by fastforce
  then obtain es where es: "tr' = tr @ es" "list_all P es" using assms(1) unfolding only_def by (metis fst_conv)
  show "\<exists>es. fst (then_with m f tr) = tr @ es \<and> list_all P es"
  proof (cases r)
    case (Inl e)
    then show ?thesis using m es by (auto simp: then_with_def)
  next
    case (Inr x)
    obtain es' where "fst (f x tr') = tr' @ es'" "list_all P es'" using assms(2) unfolding only_def by blast
    then show ?thesis using m es Inr by (intro exI [of _ "es @ es'"]) (simp add: then_with_def)
  qed
qed

text \<open>At the source project nothing but \<open>select\<close> is run.\<close>

definition reads_source :: "string \<Rightarrow> sql_event \<Rightarrow> bool" where
  "reads_source source e = (case e of (ref, q, a) \<Rightarrow> ref = source \<longrightarrow> starts_with q ''select '')"

lemma reads_columns: "only (reads_source source) (nonGeneratedColumns w ref schema table)"
  unfolding nonGeneratedColumns_def by (intro only_then only_done only_sql) (simp add: reads_source_def columns_query_def)

lemma reads_insert: "to \<noteq> source \<Longrightarrow> only (reads_source source) (insert_dump parse tags w to schema table cols rewrite dump)"
  unfolding only_def
proof
  fix tr assume "to \<noteq> source"
  then have sql: "only (reads_source source) (run_sql w to q)" for q by (intro only_sql) (simp add: reads_source_def)
  show "\<exists>es. fst (insert_dump parse tags w to schema table cols rewrite dump tr) = tr @ es \<and> list_all (reads_source source) es"
  proof (cases "parse (payload_of dump)")
    case None
    then show ?thesis by (simp add: insert_dump_def throws_def)
  next
    case (Some j)
    have "only (reads_source source) (then_with (run_sql w to q) (\<lambda>r. case row_count j of Inl e \<Rightarrow> throws e
        | Inr n \<Rightarrow> done_with \<lparr>co_read = n, co_cols = length cols, co_result = r, co_dump = dump\<rparr>))" for q
      by (rule only_then [OF sql]) (auto split: sum.splits)
    then show ?thesis using Some by (simp add: insert_dump_def only_def)
  qed
qed

lemma reads_copy: "to \<noteq> source \<Longrightarrow> only (reads_source source) (copyTable parse tags w source to schema table cond rewrite)"
  unfolding copyTable_def shared_columns_def
  by (intro only_then reads_columns only_done only_sql) (auto simp: reads_source_def dump_query_def intro: reads_insert)

lemma reads_tables: "to \<noteq> source \<Longrightarrow> only (reads_source source) (copy_tables parse tags w source to uid idPrefix ts)"
  by (induction ts) (auto simp: case_prod_beta intro!: only_then reads_copy)

lemma reads_user: "to \<noteq> source \<Longrightarrow> only (reads_source source) (copyUser parse tags w source to uid idPrefix extra)"
  unfolding copyUser_def finish_user_def resyncSequence_def
  by (auto simp: case_prod_beta reads_source_def intro!: only_then reads_tables only_sql)

subsection \<open>What a successful copy has done\<close>

definition column_names :: "mgmt_response \<Rightarrow> string list" where
  "column_names r = map (\<lambda>x. js_string_opt (jget ''column_name'' x)) (case sa_rows (sql_answer_of r) of None \<Rightarrow> [] | Some rows \<Rightarrow> rows)"

definition table_block :: "(string \<Rightarrow> json option) \<Rightarrow> string \<Rightarrow> string \<Rightarrow> string \<Rightarrow> string \<Rightarrow> sql_event list \<Rightarrow> bool" where
  "table_block parse source to uid t block \<longleftrightarrow>
     (\<exists>a b d r cols j n tg. block =
          [(source, columns_query ''auth'' t, Inr a), (to, columns_query ''auth'' t, Inr b),
           (source, dump_query ''auth'' t cols (user_condition uid t), Inr d),
           (to, insert_query ''auth'' t cols (token_rewrite t) (payload_of (sql_answer_of d)) tg, Inr r)]
        \<and> cols = filter (\<lambda>c. c \<in> set (column_names b)) (column_names a)
        \<and> \<not> truthy (sa_error (sql_answer_of d)) \<and> parse (payload_of (sql_answer_of d)) = Some j \<and> row_count j = Inr n
        \<and> mr_status r < 300 \<and> (t = ''mfa_factors'' \<or> (\<exists>k > 0. n = Some k)))"

lemma sql_answer_status: "sa_status (sql_answer_of r) = mr_status r"
  by (simp add: sql_answer_of_def Let_def split: option.splits json.splits)

lemma run_sql_returns: "run_sql w ref q tr = (tr', Inr x) \<Longrightarrow> \<exists>a. tr' = tr @ [(ref, q, Inr a)] \<and> x = sql_answer_of a"
  by (cases "w tr ref q") (auto simp: run_sql_def)

lemma then_returns: "then_with m f tr = (tr', Inr y) \<Longrightarrow> \<exists>tr1 x. m tr = (tr1, Inr x) \<and> f x tr1 = (tr', Inr y)"
  by (auto simp: then_with_def split: prod.splits sum.splits)

lemma columns_returns:
  "nonGeneratedColumns w ref schema table tr = (tr', Inr x) \<Longrightarrow>
     \<exists>a. tr' = tr @ [(ref, columns_query schema table, Inr a)] \<and> x = column_names a"
  unfolding nonGeneratedColumns_def
  by (auto simp: done_with_def column_names_def dest!: then_returns run_sql_returns)

lemma shared_returns:
  assumes "shared_columns w source to schema table tr = (tr', Inr cols)"
  obtains a b where "tr' = tr @ [(source, columns_query schema table, Inr a), (to, columns_query schema table, Inr b)]"
    "cols = filter (\<lambda>c. c \<in> set (column_names b)) (column_names a)"
  using assms unfolding shared_columns_def by (auto simp: done_with_def dest!: then_returns columns_returns)

lemma insert_returns:
  assumes "insert_dump parse tags w to schema table cols rewrite dump tr = (tr', Inr c)"
  obtains r j n where "tr' = tr @ [(to, insert_query schema table cols rewrite (payload_of dump) (tags tr), Inr r)]"
    "parse (payload_of dump) = Some j" "row_count j = Inr n" "co_read c = n" "co_result c = sql_answer_of r" "co_dump c = dump"
proof (cases "parse (payload_of dump)")
  case None
  then show thesis using assms by (simp add: insert_dump_def throws_def)
next
  case (Some j)
  with assms obtain tr1 x where 1: "run_sql w to (insert_query schema table cols rewrite (payload_of dump) (tags tr)) tr = (tr1, Inr x)"
    and 2: "(case row_count j of Inl e \<Rightarrow> throws e | Inr n \<Rightarrow> done_with \<lparr>co_read = n, co_cols = length cols, co_result = x, co_dump = dump\<rparr>) tr1 = (tr', Inr c)"
    by (auto simp: insert_dump_def dest!: then_returns)
  from run_sql_returns [OF 1] 2 Some that show thesis by (auto simp: throws_def done_with_def split: sum.splits)
qed

lemma copyTable_block:
  assumes "copyTable parse tags w source to ''auth'' t (user_condition uid t) (token_rewrite t) tr = (tr', Inr c)" "copied_well t c"
  obtains block where "tr' = tr @ block" "table_block parse source to uid t block"
proof -
  obtain tr1 cols where 1: "shared_columns w source to ''auth'' t tr = (tr1, Inr cols)"
    and 2: "then_with (run_sql w source (dump_query ''auth'' t cols (user_condition uid t)))
         (\<lambda>dump. if truthy (sa_error dump) then done_with \<lparr>co_read = Some 0, co_cols = length cols, co_result = dump, co_dump = dump\<rparr>
                 else insert_dump parse tags w to ''auth'' t cols (token_rewrite t) dump) tr1 = (tr', Inr c)"
    using assms(1) unfolding copyTable_def by (blast dest: then_returns)
  obtain a b where ab: "tr1 = tr @ [(source, columns_query ''auth'' t, Inr a), (to, columns_query ''auth'' t, Inr b)]"
    "cols = filter (\<lambda>c. c \<in> set (column_names b)) (column_names a)"
    using shared_returns [OF 1] .
  obtain tr2 dump where 3: "run_sql w source (dump_query ''auth'' t cols (user_condition uid t)) tr1 = (tr2, Inr dump)"
    and 4: "(if truthy (sa_error dump) then done_with \<lparr>co_read = Some 0, co_cols = length cols, co_result = dump, co_dump = dump\<rparr>
                 else insert_dump parse tags w to ''auth'' t cols (token_rewrite t) dump) tr2 = (tr', Inr c)"
    using then_returns [OF 2] by blast
  obtain d where d: "tr2 = tr1 @ [(source, dump_query ''auth'' t cols (user_condition uid t), Inr d)]" "dump = sql_answer_of d"
    using run_sql_returns [OF 3] by blast
  have good: "\<not> truthy (sa_error dump)" using 4 assms(2) by (auto simp: done_with_def copied_well_def split: if_splits)
  then have "insert_dump parse tags w to ''auth'' t cols (token_rewrite t) dump tr2 = (tr', Inr c)" using 4 by simp
  then obtain r j n where r: "tr' = tr2 @ [(to, insert_query ''auth'' t cols (token_rewrite t) (payload_of dump) (tags tr2), Inr r)]"
    "parse (payload_of dump) = Some j" "row_count j = Inr n" "co_read c = n" "co_result c = sql_answer_of r"
    by (rule insert_returns)
  have "table_block parse source to uid t
      [(source, columns_query ''auth'' t, Inr a), (to, columns_query ''auth'' t, Inr b),
       (source, dump_query ''auth'' t cols (user_condition uid t), Inr d),
       (to, insert_query ''auth'' t cols (token_rewrite t) (payload_of dump) (tags tr2), Inr r)]"
    using ab(2) good r assms(2) unfolding table_block_def copied_well_def d(2)
    by (auto simp: sql_answer_status split: option.splits)
  then show thesis using that ab(1) d(1) r(1) by simp
qed

lemma copy_tables_blocks:
  "copy_tables parse tags w source to uid idPrefix ts tr = (tr', Inr (rows, True)) \<Longrightarrow>
     \<exists>blocks. tr' = tr @ concat blocks \<and> list_all2 (table_block parse source to uid) ts blocks
       \<and> map cy_id rows = map (\<lambda>t. idPrefix @ ''-'' @ t) ts \<and> list_all cy_pass rows"
proof (induction ts arbitrary: tr rows)
  case Nil
  then show ?case by (simp add: done_with_def)
next
  case (Cons t ts)
  obtain tr1 c where 1: "copyTable parse tags w source to ''auth'' t (user_condition uid t) (token_rewrite t) tr = (tr1, Inr c)"
    and 2: "then_with (copy_tables parse tags w source to uid idPrefix ts)
         (\<lambda>(rows, ok). done_with (table_row idPrefix t c # rows, copied_well t c \<and> ok)) tr1 = (tr', Inr (rows, True))"
    using Cons.prems by (auto dest: then_returns)
  obtain tr2 rs ok where 3: "copy_tables parse tags w source to uid idPrefix ts tr1 = (tr2, Inr (rs, ok))"
    and 4: "tr' = tr2" "rows = table_row idPrefix t c # rs" "copied_well t c \<and> ok"
    using then_returns [OF 2] by (auto simp: done_with_def)
  obtain block where b: "tr1 = tr @ block" "table_block parse source to uid t block" using copyTable_block [OF 1] 4(3) by blast
  from Cons.IH [of tr1 rs] 3 4 obtain blocks where "tr2 = tr1 @ concat blocks" "list_all2 (table_block parse source to uid) ts blocks"
    "map cy_id rs = map (\<lambda>t. idPrefix @ ''-'' @ t) ts" "list_all cy_pass rs" by auto
  with b 4 show ?case by (intro exI [of _ "block # blocks"]) (simp add: table_row_def)
qed

text \<open>C38. A copy of a user never writes to the project it copies from, whether it succeeds, fails or throws. When it reports
  success, the statements run are exactly these: for each table in foreign-key order the two catalogues, a dump of the
  user's rows in the shared columns that answered without an error message, and the insertion of that very dump, which was
  accepted; at least one row each, but for second factors, which a user need not have; and at last the sequence was set.\<close>

theorem copyUser_exact:
  assumes "copyUser parse tags w source to uid idPrefix extra tr = (tr', res)" "to \<noteq> source"
  shows "(\<exists>es. tr' = tr @ es \<and> list_all (reads_source source) es)
    \<and> (\<forall>rows. res = Inr (rows, True) \<longrightarrow>
         (\<exists>blocks r. tr' = tr @ concat blocks @ [(to, resync_query ''auth.refresh_tokens_id_seq'' ''auth'' ''refresh_tokens'' ''id'', Inr r)]
            \<and> mr_status r < 300 \<and> list_all2 (table_block parse source to uid) (CORE_TABLES @ extra) blocks \<and> list_all cy_pass rows))"
proof (intro conjI allI impI)
  show "\<exists>es. tr' = tr @ es \<and> list_all (reads_source source) es"
    using reads_user [OF assms(2)] assms(1) unfolding only_def by (metis fst_conv)
next
  fix rows assume res: "res = Inr (rows, True)"
  obtain tr1 x where x: "copy_tables parse tags w source to uid idPrefix (CORE_TABLES @ extra) tr = (tr1, Inr x)"
    and 2: "finish_user w to idPrefix x tr1 = (tr', Inr (rows, True))"
    using assms(1) unfolding res copyUser_def by (blast dest: then_returns)
  obtain rs ok where 1: "x = (rs, ok)" by fastforce
  from then_returns [OF 2 [unfolded finish_user_def]] obtain tr2 r v where
    3: "resyncSequence w to ''auth.refresh_tokens_id_seq'' ''auth'' ''refresh_tokens'' ''id'' tr1 = (tr2, Inr (r, v))"
    and 4: "tr' = tr2" "ok" "sa_status r < 300" "rows = rs @ [seq_row idPrefix r v]"
    by (auto simp: done_with_def 1)
  obtain m where m: "tr2 = tr1 @ [(to, resync_query ''auth.refresh_tokens_id_seq'' ''auth'' ''refresh_tokens'' ''id'', Inr m)]" "r = sql_answer_of m"
    using 3 unfolding resyncSequence_def by (auto simp: done_with_def dest!: then_returns run_sql_returns)
  obtain blocks where "tr1 = tr @ concat blocks" "list_all2 (table_block parse source to uid) (CORE_TABLES @ extra) blocks" "list_all cy_pass rs"
    using copy_tables_blocks [of parse tags w source to uid idPrefix "CORE_TABLES @ extra" tr tr1 rs] x 1 4(2) by auto
  with m 4 show "\<exists>blocks r. tr' = tr @ concat blocks @ [(to, resync_query ''auth.refresh_tokens_id_seq'' ''auth'' ''refresh_tokens'' ''id'', Inr r)]
      \<and> mr_status r < 300 \<and> list_all2 (table_block parse source to uid) (CORE_TABLES @ extra) blocks \<and> list_all cy_pass rows"
    by (intro exI [of _ blocks] exI [of _ m]) (simp add: sql_answer_status seq_row_def)
qed

text \<open>A world in which every statement is answered with one row that has all the members asked for.\<close>

definition demo_sql :: sql_world where
  "demo_sql tr ref q = Inr \<lparr>mr_status = 201, mr_text = [], mr_json =
     Some (JArr [JObj [(''column_name'', JStr ''id''), (''payload'', JStr ''[{}]''), (''v'', JNum 7)]]), mr_throttled = False\<rparr>"

theorem copyUser_exact_witness:
  "\<exists>tr' rows blocks r. copyUser (\<lambda>_. Some (JArr [JObj []])) (\<lambda>_. ''$m$'') demo_sql ''a'' ''b'' ''u'' ''S01'' [] [] = (tr', Inr (rows, True))
     \<and> tr' = concat blocks @ [(''b'', resync_query ''auth.refresh_tokens_id_seq'' ''auth'' ''refresh_tokens'' ''id'', Inr r)] \<and> length blocks = 5"
proof -
  have "map_sum id snd (snd (copyUser (\<lambda>_. Some (JArr [JObj []])) (\<lambda>_. ''$m$'') demo_sql ''a'' ''b'' ''u'' ''S01'' [] [])) = Inr True"
    by code_simp
  then obtain tr' rows where run: "copyUser (\<lambda>_. Some (JArr [JObj []])) (\<lambda>_. ''$m$'') demo_sql ''a'' ''b'' ''u'' ''S01'' [] [] = (tr', Inr (rows, True))"
    by (cases "copyUser (\<lambda>_. Some (JArr [JObj []])) (\<lambda>_. ''$m$'') demo_sql ''a'' ''b'' ''u'' ''S01'' [] []") (auto simp: map_sum_def split: sum.splits)
  have "''b'' \<noteq> ''a''" by simp
  from copyUser_exact [OF run this] obtain blocks r where "tr' = [] @ concat blocks @ [(''b'', resync_query ''auth.refresh_tokens_id_seq'' ''auth'' ''refresh_tokens'' ''id'', Inr r)]"
    "list_all2 (table_block (\<lambda>_. Some (JArr [JObj []])) ''a'' ''b'' ''u'') (CORE_TABLES @ []) blocks" by blast
  moreover from this(2) have "length blocks = 5" by (simp add: CORE_TABLES_def list_all2_lengthD [symmetric])
  ultimately show ?thesis using run by auto
qed

text \<open>The copy of tenant-consolidation reports an accepted insertion of nothing when the dump has failed.\<close>

lemma unchecked_copy_passes:
  assumes "run_sql w source (dump_query schema table cols cond) tr1 = (tr2, Inr dump)" "sa_rows dump = None" "parse ''[]'' = Some (JArr [])"
    "shared_columns w source to schema table tr = (tr1, Inr cols)"
    "run_sql w to (insert_query schema table cols rewrite ''[]'' (tags tr2)) tr2 = (tr3, Inr r)"
  shows "copyTable_unchecked parse tags w source to schema table cond rewrite tr =
    (tr3, Inr \<lparr>co_read = Some 0, co_cols = length cols, co_result = r, co_dump = dump\<rparr>)"
  using assms by (simp add: copyTable_unchecked_def then_with_def insert_dump_def payload_of_def row_count_def done_with_def)

end
