(* ===== verification/Event_Data.thy ===== *)
theory Event_Data
  imports Bench_Plan "HOL-Library.Product_Lexorder"
begin

text \<open>
  \<open>experiments/sqlite-edge-compare/lib/td05-06-08-data.ts\<close>, the part of the event log benchmark: run sizes, statements of
  several rows, the seeded events and what each of the five aggregates over them must return. Real-valued functions of
  \<open>Math\<close> are a parameter, measured values exact rationals. The aggregates are shown to be the groups and counts of an
  abstract \<open>GROUP BY\<close>.
\<close>

subsection \<open>Run sizes\<close>

definition size_env :: "string obj \<Rightarrow> string \<Rightarrow> nat \<Rightarrow> nat" where
  "size_env env key def_n =
     (case obj_get env key of
        None \<Rightarrow> def_n
      | Some v \<Rightarrow> if v = [] then def_n
          else (case to_number v of Fin q \<Rightarrow> if of_int \<lfloor>q\<rfloor> = q \<and> 0 < q then nat \<lfloor>q\<rfloor> else def_n | _ \<Rightarrow> def_n))"

definition isSmoke :: "string obj \<Rightarrow> bool" where
  "isSmoke env = (obj_get env ''TD_SMOKE'' = Some ''1'' \<or> obj_get env ''TD_SMOKE'' = Some ''true'')"

record td05_sizes =
  s5_events :: nat
  s5_batchRows :: nat
  s5_n :: nat
  s5_warmup :: nat

definition td05Sizes :: "string obj \<Rightarrow> td05_sizes" where
  "td05Sizes env =
     (let s = isSmoke env
      in \<lparr>s5_events = size_env env ''TD05_EVENTS'' (if s then 1000 else 100000),
          s5_batchRows = min 1400 (size_env env ''TD05_BATCH_ROWS'' (if s then 200 else 1000)),
          s5_n = size_env env ''TD05_N'' (if s then 5 else 20),
          s5_warmup = size_env env ''TD05_WARMUP'' (if s then 1 else 2)\<rparr>)"

record td06_sizes =
  s6_docs :: nat
  s6_vectors :: nat
  s6_dim :: nat
  s6_n :: nat
  s6_warmup :: nat

definition td06Sizes :: "string obj \<Rightarrow> td06_sizes" where
  "td06Sizes env =
     (let s = isSmoke env
      in \<lparr>s6_docs = size_env env ''TD06_DOCS'' (if s then 500 else 10000),
          s6_vectors = size_env env ''TD06_VECTORS'' (if s then 500 else 10000),
          s6_dim = size_env env ''TD06_DIM'' 384,
          s6_n = size_env env ''TD06_N'' (if s then 5 else 20),
          s6_warmup = size_env env ''TD06_WARMUP'' (if s then 1 else 2)\<rparr>)"

record td08_sizes =
  s8_seedRows :: nat
  s8_n :: nat
  s8_warmup :: nat

definition td08Sizes :: "string obj \<Rightarrow> td08_sizes" where
  "td08Sizes env =
     (let s = isSmoke env
      in \<lparr>s8_seedRows = size_env env ''TD08_SEED_ROWS'' (if s then 100 else 1000),
          s8_n = size_env env ''TD08_N'' (if s then 5 else 30),
          s8_warmup = size_env env ''TD08_WARMUP'' (if s then 1 else 3)\<rparr>)"

subsection \<open>Statements of several rows\<close>

datatype sql_dialect = Sqlite | Pg

definition chunk_rows :: "'a list \<Rightarrow> nat \<Rightarrow> string + 'a list list" where
  "chunk_rows xs n = (if n < 1 then Inl ''chunk: size must be >= 1'' else Inr (blocks xs n))"

text \<open>Of at least one column, as every caller has.\<close>

definition rowsPerStatement :: "nat \<Rightarrow> nat \<Rightarrow> nat" where
  "rowsPerStatement cols maxParams = max 1 (maxParams div cols)"

text \<open>\<open>w.replace(c, f)\<close> for a one-character pattern: the first occurrence only.\<close>

fun replace_once :: "char \<Rightarrow> string \<Rightarrow> string \<Rightarrow> string" where
  "replace_once c base [] = []"
| "replace_once c base (d # s) = (if d = c then base @ s else d # replace_once c base s)"

definition base_holder :: "sql_dialect \<Rightarrow> nat \<Rightarrow> string" where
  "base_holder d p = (case d of Pg \<Rightarrow> ''$'' @ show_nat p | Sqlite \<Rightarrow> ''?'')"

definition holder :: "sql_dialect \<Rightarrow> string option list \<Rightarrow> nat \<Rightarrow> nat \<Rightarrow> string" where
  "holder d wrap p k =
     (case (if k < length wrap then wrap ! k else None) of
        None \<Rightarrow> base_holder d p
      | Some w \<Rightarrow> if w = [] then base_holder d p
          else replace_once (case d of Pg \<Rightarrow> CHR ''$'' | Sqlite \<Rightarrow> CHR ''?'') (base_holder d p) w)"

text \<open>The placeholders of a row from column \<open>k\<close> on, with the counter after the last of them.\<close>

fun row_holders :: "sql_dialect \<Rightarrow> string option list \<Rightarrow> nat \<Rightarrow> nat \<Rightarrow> 'v list \<Rightarrow> nat \<times> string list" where
  "row_holders d wrap p k [] = (p, [])"
| "row_holders d wrap p k (v # vs) =
     (case row_holders d wrap (p + 1) (k + 1) vs of (p', hs) \<Rightarrow> (p', holder d wrap (p + 1) k # hs))"

fun row_tuples :: "sql_dialect \<Rightarrow> string option list \<Rightarrow> nat \<Rightarrow> nat \<Rightarrow> 'v list list \<Rightarrow> string + string list" where
  "row_tuples d wrap w p [] = Inr []"
| "row_tuples d wrap w p (r # rs) =
     (if length r \<noteq> w then Inl (''multiInsert: row has '' @ show_nat (length r) @ '' values, want '' @ show_nat w)
      else case row_holders d wrap p 0 r of (p', hs) \<Rightarrow>
        (case row_tuples d wrap w p' rs of Inl e \<Rightarrow> Inl e | Inr ts \<Rightarrow> Inr ((''('' @ join '','' hs @ '')'') # ts)))"

definition multiInsert :: "sql_dialect \<Rightarrow> string \<Rightarrow> string list \<Rightarrow> 'v list list \<Rightarrow> string option list \<Rightarrow> string + string \<times> 'v list" where
  "multiInsert d table cols rows wrap =
     (case row_tuples d wrap (length cols) 0 rows of
        Inl e \<Rightarrow> Inl e
      | Inr ts \<Rightarrow> Inr (''INSERT INTO '' @ table @ '' ('' @ join '','' cols @ '') VALUES '' @ join '','' ts, concat rows))"

subsection \<open>Seeded events\<close>

record js_math =
  ma_pow :: "rat \<Rightarrow> rat \<Rightarrow> rat"
  ma_exp :: "rat \<Rightarrow> rat"
  ma_log :: "rat \<Rightarrow> rat"
  ma_cos :: "rat \<Rightarrow> rat"
  ma_sqrt :: "rat \<Rightarrow> rat"
  ma_pi :: rat

definition TD05_SEED :: int where
  "TD05_SEED = 20261015"

definition TD05_ANCHOR_END :: int where
  "TD05_ANCHOR_END = 1790812800"

definition TD05_SPAN_S :: nat where
  "TD05_SPAN_S = 7 * 86400"

definition TD05_COLS :: "string list" where
  "TD05_COLS = [''ts'', ''path'', ''status'', ''country'', ''colo'', ''latency_ms'', ''ua_class'']"

record td05_event =
  ev_ts :: int
  ev_path :: string
  ev_status :: nat
  ev_country :: string
  ev_colo :: string
  ev_latency :: rat
  ev_ua :: string

definition PATHS :: "string list" where
  "PATHS =
    [''/'', ''/api/v1/items'', ''/api/v1/items/detail'', ''/api/v1/search'', ''/api/v1/auth/token'', ''/api/v1/auth/refresh'',
     ''/api/v1/users/me'', ''/api/v1/cart'', ''/api/v1/checkout'', ''/api/v1/events'', ''/static/app.js'', ''/static/app.css'',
     ''/static/logo.svg'', ''/img/hero.webp'', ''/img/thumb.webp'', ''/favicon.ico'', ''/robots.txt'', ''/sitemap.xml'', ''/healthz'',
     ''/login'', ''/logout'', ''/docs'', ''/docs/getting-started'', ''/docs/reference'', ''/blog'', ''/blog/post'', ''/pricing'',
     ''/about'', ''/contact'', ''/wp-login.php'']"

definition COUNTRIES :: "string list" where
  "COUNTRIES =
    [''AU'', ''SG'', ''JP'', ''IN'', ''ID'', ''US'', ''GB'', ''DE'', ''NZ'', ''MY'', ''PH'', ''KR'', ''TH'', ''VN'', ''HK'', ''TW'',
     ''FR'', ''BR'', ''CA'', ''NL'']"

definition COLOS :: "string list" where
  "COLOS =
    [''SYD'', ''MEL'', ''BNE'', ''PER'', ''AKL'', ''SIN'', ''NRT'', ''BOM'', ''CGK'', ''LAX'', ''LHR'', ''FRA'', ''ICN'', ''HKG'', ''KUL'']"

definition UA :: "string list" where
  "UA = [''browser'', ''mobile'', ''api'', ''bot'']"

definition STATUS_SHARES :: "(nat \<times> rat) list" where
  "STATUS_SHARES =
    [(200, 82 / 100), (304, 6 / 100), (404, 5 / 100), (301, 2 / 100), (429, 2 / 100), (500, 15 / 1000), (503, 15 / 1000)]"

text \<open>Running sums: \<open>w.map((x) => (acc += x))\<close>.\<close>

fun cumulate :: "rat \<Rightarrow> rat list \<Rightarrow> rat list" where
  "cumulate acc [] = []"
| "cumulate acc (x # xs) = (acc + x) # cumulate (acc + x) xs"

definition zipfCdf :: "js_math \<Rightarrow> nat \<Rightarrow> rat \<Rightarrow> rat list" where
  "zipfCdf m k s =
     (let w = map (\<lambda>r. 1 / ma_pow m (of_nat (r + 1)) s) [0..<k]; tot = foldl (+) 0 w
      in cumulate 0 (map (\<lambda>x. x / tot) w))"

function pick_loop :: "rat list \<Rightarrow> rat \<Rightarrow> nat \<Rightarrow> nat \<Rightarrow> nat" where
  "pick_loop cdf u lo hi =
     (if lo < hi
      then let mid = (lo + hi) div 2
           in if u \<le> cdf ! mid then pick_loop cdf u lo mid else pick_loop cdf u (mid + 1) hi
      else lo)"
  by pat_completeness auto
termination by (relation "measure (\<lambda>(cdf, u, lo, hi). hi - lo)") auto

declare pick_loop.simps [simp del]

definition pick :: "rat list \<Rightarrow> rat \<Rightarrow> nat" where
  "pick cdf u = pick_loop cdf u 0 (length cdf - 1)"

text \<open>One draw of the generator as a number of the unit interval.\<close>

definition u_next :: "32 word \<Rightarrow> 32 word \<times> rat" where
  "u_next a = (case rng_next a of (a', w) \<Rightarrow> (a', rng_value w))"

definition gauss :: "js_math \<Rightarrow> 32 word \<Rightarrow> 32 word \<times> rat" where
  "gauss m a =
     (let (a1, r1) = u_next a; u = max r1 (1 / 10 ^ 12); (a2, v) = u_next a1
      in (a2, ma_sqrt m (-2 * ma_log m u) * ma_cos m (2 * ma_pi m * v)))"

definition status_cdf :: "rat list" where
  "status_cdf = cumulate 0 (map snd STATUS_SHARES)"

definition gen_event :: "js_math \<Rightarrow> 32 word \<Rightarrow> 32 word \<times> td05_event" where
  "gen_event m a =
     (let (a1, off) = draw TD05_SPAN_S a;
          (a2, up) = u_next a1; (a3, us) = u_next a2; (a4, uc) = u_next a3; (a5, ul) = u_next a4;
          (a6, g) = gauss m a5; (a7, ua) = u_next a6
      in (a7, \<lparr>ev_ts = TD05_ANCHOR_END - int TD05_SPAN_S + int off,
               ev_path = PATHS ! pick (zipfCdf m (length PATHS) (107 / 100)) up,
               ev_status = fst (STATUS_SHARES ! min (length STATUS_SHARES - 1) (pick status_cdf (us * status_cdf ! (length status_cdf - 1)))),
               ev_country = COUNTRIES ! pick (zipfCdf m (length COUNTRIES) (9 / 10)) uc,
               ev_colo = COLOS ! pick (zipfCdf m (length COLOS) (9 / 10)) ul,
               ev_latency = of_int (js_round (ma_exp m (32 / 10 + 8 / 10 * g) * 10)) / 10,
               ev_ua = UA ! pick [55 / 100, 8 / 10, 93 / 100, 1] ua\<rparr>))"

fun gen_event_list :: "js_math \<Rightarrow> nat \<Rightarrow> 32 word \<Rightarrow> td05_event list" where
  "gen_event_list m 0 a = []"
| "gen_event_list m (Suc n) a = (case gen_event m a of (a', e) \<Rightarrow> e # gen_event_list m n a')"

definition genEvents :: "js_math \<Rightarrow> nat \<Rightarrow> int \<Rightarrow> td05_event list" where
  "genEvents m n seed = sort_by (\<lambda>a b. ev_ts a - ev_ts b) (gen_event_list m n (rng_seed seed))"

subsection \<open>Tables and aggregates\<close>

definition td05Ddl :: "sql_dialect \<Rightarrow> string list" where
  "td05Ddl d =
     [''DROP TABLE IF EXISTS td05_events'',
      (case d of
         Pg \<Rightarrow> ''CREATE TABLE td05_events (id bigint GENERATED ALWAYS AS IDENTITY PRIMARY KEY, ts bigint NOT NULL, path text NOT NULL, status int NOT NULL, country text NOT NULL, colo text NOT NULL, latency_ms double precision NOT NULL, ua_class text NOT NULL)''
       | Sqlite \<Rightarrow> ''CREATE TABLE td05_events (id INTEGER PRIMARY KEY, ts INTEGER NOT NULL, path TEXT NOT NULL, status INTEGER NOT NULL, country TEXT NOT NULL, colo TEXT NOT NULL, latency_ms REAL NOT NULL, ua_class TEXT NOT NULL)''),
      ''CREATE INDEX td05_events_ts ON td05_events (ts)'']"

datatype td05_query = ByHour | TopPaths | StatusByCountry | P95ByColo | Last24h

definition TD05_QUERIES :: "td05_query list" where
  "TD05_QUERIES = [ByHour, TopPaths, StatusByCountry, P95ByColo, Last24h]"

definition td05Aggregates :: "sql_dialect \<Rightarrow> td05_query \<Rightarrow> string \<times> int list" where
  "td05Aggregates d q =
     (let c = (case d of Pg \<Rightarrow> '' COLLATE '' @ [CHR 0x22] @ ''C'' @ [CHR 0x22] | Sqlite \<Rightarrow> ''''); h = (case d of Pg \<Rightarrow> ''$1'' | Sqlite \<Rightarrow> ''?'')
      in case q of
        ByHour \<Rightarrow> (''SELECT ts / 3600 AS h, count(*) AS n FROM td05_events GROUP BY ts / 3600 ORDER BY h'', [])
      | TopPaths \<Rightarrow> (''SELECT path, count(*) AS n FROM td05_events GROUP BY path ORDER BY n DESC, path'' @ c @ '' LIMIT 10'', [])
      | StatusByCountry \<Rightarrow> (''SELECT country, status, count(*) AS n FROM td05_events GROUP BY country, status ORDER BY country'' @ c @ '', status'', [])
      | P95ByColo \<Rightarrow> (''SELECT colo, latency_ms AS p95 FROM (SELECT colo, latency_ms, row_number() OVER (PARTITION BY colo ORDER BY latency_ms) AS rn, count(*) OVER (PARTITION BY colo) AS c FROM td05_events) t WHERE rn = ((c - 1) * 95) / 100 + 1 ORDER BY colo'' @ c, [])
      | Last24h \<Rightarrow> (''SELECT count(*) AS n FROM td05_events WHERE ts >= '' @ h, [TD05_ANCHOR_END - 86400]))"

text \<open>A \<open>Map\<close> of counts, keys in insertion order, and one of lists.\<close>

fun map_bump :: "'k \<Rightarrow> ('k \<times> nat) list \<Rightarrow> ('k \<times> nat) list" where
  "map_bump k [] = [(k, 1)]"
| "map_bump k ((k', n) # m) = (if k = k' then (k', n + 1) # m else (k', n) # map_bump k m)"

definition count_by :: "('e \<Rightarrow> 'k) \<Rightarrow> 'e list \<Rightarrow> ('k \<times> nat) list" where
  "count_by key ev = foldl (\<lambda>m e. map_bump (key e) m) [] ev"

fun map_push :: "'k \<Rightarrow> 'v \<Rightarrow> ('k \<times> 'v list) list \<Rightarrow> ('k \<times> 'v list) list" where
  "map_push k v [] = [(k, [v])]"
| "map_push k v ((k', vs) # m) = (if k = k' then (k', vs @ [v]) # m else (k', vs) # map_push k v m)"

definition group_by :: "('e \<Rightarrow> 'k) \<Rightarrow> ('e \<Rightarrow> 'v) \<Rightarrow> 'e list \<Rightarrow> ('k \<times> 'v list) list" where
  "group_by key val ev = foldl (\<lambda>m e. map_push (key e) (val e) m) [] ev"

text \<open>\<open>a - b\<close> of two numbers, as a comparator reads it: \<open>NaN\<close> orders nothing.\<close>

definition num_cmp :: "jsnum \<Rightarrow> jsnum \<Rightarrow> int" where
  "num_cmp a b =
     (case (a, b) of (Fin x, Fin y) \<Rightarrow> rat_diff x y | (Fin _, PosInf) \<Rightarrow> -1 | (Fin _, NegInf) \<Rightarrow> 1 | (PosInf, Fin _) \<Rightarrow> 1 | (NegInf, Fin _) \<Rightarrow> -1
      | (PosInf, NegInf) \<Rightarrow> 1 | (NegInf, PosInf) \<Rightarrow> -1 | _ \<Rightarrow> 0)"

record td05_truth =
  td_by_hour :: "(int \<times> nat) list"
  td_top_paths :: "(string \<times> nat) list"
  td_status :: "(string \<times> jsnum \<times> nat) list"
  td_p95 :: "(string \<times> rat) list"
  td_last :: nat

definition count_row :: "string \<times> nat \<Rightarrow> string \<times> jsnum \<times> nat" where
  "count_row kn = (let ps = split_char (CHR ''|'') (fst kn)
                    in (ps ! 0, (if 1 < length ps then to_number (ps ! 1) else NaN), snd kn))"

definition p95_row :: "string \<times> rat list \<Rightarrow> string \<times> rat" where
  "p95_row cx = (fst cx, sort_by rat_diff (snd cx) ! ((length (snd cx) - 1) * 95 div 100))"

definition td05Truth :: "td05_event list \<Rightarrow> td05_truth" where
  "td05Truth ev =
     \<lparr>td_by_hour = sort_by (\<lambda>a b. fst a - fst b) (count_by (\<lambda>e. ev_ts e div 3600) ev),
      td_top_paths = take 10 (sort_by (then_cmp (\<lambda>a b. int (snd b) - int (snd a)) (\<lambda>a b. code_unit_cmp (fst a) (fst b))) (count_by ev_path ev)),
      td_status = sort_by (then_cmp (\<lambda>a b. code_unit_cmp (fst a) (fst b)) (\<lambda>a b. num_cmp (fst (snd a)) (fst (snd b))))
        (map count_row (count_by (\<lambda>e. ev_country e @ ''|'' @ show_nat (ev_status e)) ev)),
      td_p95 = map p95_row (sort_by (\<lambda>a b. code_unit_cmp (fst a) (fst b)) (group_by ev_colo ev_latency ev)),
      td_last = length (filter (\<lambda>e. TD05_ANCHOR_END - 86400 \<le> ev_ts e) ev)\<rparr>"

subsection \<open>The aggregates of the SQL statements\<close>

text \<open>\<open>SELECT k, count(*) ... GROUP BY k ORDER BY k\<close>.\<close>

definition group_count :: "'k :: linorder list \<Rightarrow> ('k \<times> nat) list" where
  "group_count ks = map (\<lambda>k. (k, count_list ks k)) (sort (remdups ks))"

definition sql_answers :: "td05_event list \<Rightarrow> td05_truth" where
  "sql_answers ev =
     \<lparr>td_by_hour = group_count (map (\<lambda>e. ev_ts e div 3600) ev),
      td_top_paths = take 10 (sort_key (\<lambda>(p, n). (- int n, p)) (group_count (map ev_path ev))),
      td_status = map (\<lambda>kn. (fst (fst kn), Fin (of_nat (snd (fst kn))), snd kn)) (group_count (map (\<lambda>e. (ev_country e, ev_status e)) ev)),
      td_p95 = map (\<lambda>c. let xs = sort (map ev_latency (filter (\<lambda>e. ev_colo e = c) ev)) in (c, xs ! ((length xs - 1) * 95 div 100)))
        (sort (remdups (map ev_colo ev))),
      td_last = length (filter (\<lambda>e. TD05_ANCHOR_END - 86400 \<le> ev_ts e) ev)\<rparr>"

subsection \<open>Lemmas on sorting, maps and picks\<close>

interpretation rat_order: comparator rat_diff
  by unfold_locales (auto simp: rat_diff_def split: if_splits)

lemma rat_diff_le: "rat_diff a b \<le> 0 \<longleftrightarrow> a \<le> b"
  by (auto simp: rat_diff_def)

lemma code_unit_le: "code_unit_cmp a b \<le> 0 \<longleftrightarrow> a \<le> b"
  by (auto simp: code_unit_cmp_def)

lemma sort_by_unique:
  fixes f :: "'a \<Rightarrow> 'b :: linorder"
  assumes "comparator cmp" "inj_on f (set xs)" "mset ys = mset xs" "sorted (map f ys)"
    and le: "\<And>x y. x \<in> set xs \<Longrightarrow> y \<in> set xs \<Longrightarrow> cmp x y \<le> 0 \<longleftrightarrow> f x \<le> f y"
  shows "sort_by cmp xs = ys"
proof -
  have so: "sorted_wrt (\<lambda>x y. cmp x y \<le> 0) (sort_by cmp xs)" "set (sort_by cmp xs) = set xs" "mset (sort_by cmp xs) = mset xs"
    using comparator.sorted_sort_by [OF assms(1)] comparator.set_sort_by [OF assms(1)] comparator.mset_sort_by [OF assms(1)] by blast+
  have "sorted_wrt (\<lambda>x y. f x \<le> f y) (sort_by cmp xs)"
    by (rule sorted_wrt_mono_rel [OF _ so(1)]) (use le so(2) in auto)
  then have "sorted (map f (sort_by cmp xs))" by (simp add: sorted_map)
  from sort_key_inj_key_eq [OF so(3) [symmetric] assms(2) this] sort_key_inj_key_eq [OF assms(3) [symmetric] assms(2) assms(4)]
  show ?thesis by simp
qed

lemma sort_by_rat: "sort_by rat_diff xs = sort xs"
  using sort_by_unique [OF rat_order.comparator_axioms, of "\<lambda>x. x" xs "sort xs"] by (simp add: rat_diff_le)

lemma map_bump_eq:
  "distinct ks \<Longrightarrow> map_bump k (map (\<lambda>k'. (k', g k')) ks) =
     map (\<lambda>k'. (k', if k' = k then g k' + 1 else g k')) ks @ (if k \<in> set ks then [] else [(k, 1)])"
proof (induction ks)
  case (Cons a ks)
  have "map (\<lambda>k'. (k', g k')) ks = map (\<lambda>k'. (k', if k' = k then g k' + 1 else g k')) ks" if "k = a"
    using that Cons.prems by (intro map_cong) auto
  with Cons show ?case by auto
qed simp

lemma count_by_eq: "count_by key ev = map (\<lambda>k. (k, count_list (map key ev) k)) (uniq (map key ev))"
proof (induction ev rule: rev_induct)
  case Nil
  show ?case by (simp add: count_by_def)
next
  case (snoc e ev)
  let ?ks = "map key ev" and ?k = "key e"
  have "count_by key (ev @ [e]) = map_bump ?k (map (\<lambda>k. (k, count_list ?ks k)) (uniq ?ks))"
    using snoc by (simp add: count_by_def)
  also have "\<dots> = map (\<lambda>k. (k, count_list (?ks @ [?k]) k)) (uniq (?ks @ [?k]))"
    unfolding map_bump_eq [OF distinct_uniq] uniq_snoc by (cases "?k \<in> set ?ks") (simp_all add: count_notin)
  finally show ?case by simp
qed

lemma map_push_eq:
  "distinct ks \<Longrightarrow> map_push k v (map (\<lambda>k'. (k', g k')) ks) =
     map (\<lambda>k'. (k', if k' = k then g k' @ [v] else g k')) ks @ (if k \<in> set ks then [] else [(k, [v])])"
proof (induction ks)
  case (Cons a ks)
  have "map (\<lambda>k'. (k', g k')) ks = map (\<lambda>k'. (k', if k' = k then g k' @ [v] else g k')) ks" if "k = a"
    using that Cons.prems by (intro map_cong) auto
  with Cons show ?case by auto
qed simp

lemma group_by_eq: "group_by key val ev = map (\<lambda>k. (k, map val (filter (\<lambda>e. key e = k) ev))) (uniq (map key ev))"
proof (induction ev rule: rev_induct)
  case Nil
  show ?case by (simp add: group_by_def)
next
  case (snoc e ev)
  let ?g = "\<lambda>ev k. map val (filter (\<lambda>e. key e = k) ev)" and ?k = "key e"
  have "group_by key val (ev @ [e]) = map_push ?k (val e) (map (\<lambda>k. (k, ?g ev k)) (uniq (map key ev)))"
    using snoc by (simp add: group_by_def)
  also have "\<dots> = map (\<lambda>k. (k, if k = ?k then ?g ev k @ [val e] else ?g ev k)) (uniq (map key ev)) @
      (if ?k \<in> set (map key ev) then [] else [(?k, [val e])])"
    unfolding map_push_eq [OF distinct_uniq] by simp
  also have "\<dots> = map (\<lambda>k. (k, ?g (ev @ [e]) k)) (uniq (map key ev @ [?k]))"
  proof -
    have "?g ev ?k = []" if "?k \<notin> set (map key ev)" using that by (simp add: filter_empty_conv) (metis image_eqI)
    then show ?thesis by (cases "?k \<in> set (map key ev)") (simp_all add: uniq_snoc)
  qed
  finally show ?case by simp
qed

lemma pick_loop_bounds: "lo \<le> hi \<Longrightarrow> lo \<le> pick_loop cdf u lo hi \<and> pick_loop cdf u lo hi \<le> hi"
proof (induction cdf u lo hi rule: pick_loop.induct)
  case (1 cdf u lo hi)
  let ?mid = "(lo + hi) div 2"
  have e: "pick_loop cdf u lo hi = (if lo < hi then if u \<le> cdf ! ?mid then pick_loop cdf u lo ?mid else pick_loop cdf u (?mid + 1) hi else lo)"
    by (subst pick_loop.simps) (simp add: Let_def)
  show ?case
  proof (cases "lo < hi")
    case lt: True
    show ?thesis
    proof (cases "u \<le> cdf ! ?mid")
      case True
      have "lo \<le> pick_loop cdf u lo ?mid \<and> pick_loop cdf u lo ?mid \<le> ?mid" by (rule 1(1)) (use lt True in auto)
      then show ?thesis unfolding e using lt True by auto
    next
      case False
      have "?mid + 1 \<le> pick_loop cdf u (?mid + 1) hi \<and> pick_loop cdf u (?mid + 1) hi \<le> hi" by (rule 1(2)) (use lt False in auto)
      then show ?thesis unfolding e using lt False by auto
    qed
  next
    case False
    then have "pick_loop cdf u lo hi = lo" unfolding e by simp
    with 1(3) show ?thesis by simp
  qed
qed

lemma pick_less: "cdf \<noteq> [] \<Longrightarrow> pick cdf u < length cdf"
  using pick_loop_bounds [of 0 "length cdf - 1" cdf u] by (cases cdf) (auto simp: pick_def)

text \<open>The index picked is the first whose cumulated weight reaches the draw, or the last one.\<close>

lemma pick_loop_first:
  assumes "sorted cdf" "lo \<le> hi" "hi < length cdf"
  shows "(\<forall>j. lo \<le> j \<and> j < pick_loop cdf u lo hi \<longrightarrow> cdf ! j < u) \<and> (pick_loop cdf u lo hi < hi \<longrightarrow> u \<le> cdf ! pick_loop cdf u lo hi)"
  using assms
proof (induction cdf u lo hi rule: pick_loop.induct)
  case (1 cdf u lo hi)
  let ?mid = "(lo + hi) div 2"
  show ?case
  proof (cases "lo < hi")
    case False
    then show ?thesis by (simp add: pick_loop.simps)
  next
    case lt: True
    show ?thesis
    proof (cases "u \<le> cdf ! ?mid")
      case True
      with lt have e: "pick_loop cdf u lo hi = pick_loop cdf u lo ?mid" by (simp add: pick_loop.simps [of cdf u lo hi] Let_def)
      have m: "lo \<le> ?mid" "?mid < length cdf" using lt 1 by auto
      have ih: "(\<forall>j. lo \<le> j \<and> j < pick_loop cdf u lo ?mid \<longrightarrow> cdf ! j < u) \<and> (pick_loop cdf u lo ?mid < ?mid \<longrightarrow> u \<le> cdf ! pick_loop cdf u lo ?mid)"
        by (rule 1(1)) (use lt True m 1 in auto)
      moreover have "pick_loop cdf u lo ?mid \<le> ?mid" using pick_loop_bounds m by blast
      ultimately show ?thesis using True unfolding e by (metis le_neq_implies_less)
    next
      case False
      with lt have e: "pick_loop cdf u lo hi = pick_loop cdf u (?mid + 1) hi" by (simp add: pick_loop.simps [of cdf u lo hi] Let_def)
      have ih: "(\<forall>j. ?mid + 1 \<le> j \<and> j < pick_loop cdf u (?mid + 1) hi \<longrightarrow> cdf ! j < u) \<and> (pick_loop cdf u (?mid + 1) hi < hi \<longrightarrow> u \<le> cdf ! pick_loop cdf u (?mid + 1) hi)"
        by (rule 1(2)) (use lt False 1 in auto)
      have "cdf ! j < u" if "j \<le> ?mid" for j
      proof -
        have "cdf ! j \<le> cdf ! ?mid" using that 1 lt by (intro sorted_nth_mono) auto
        with False show ?thesis by simp
      qed
      with ih show ?thesis unfolding e by (metis Suc_eq_plus1 not_less_eq_eq)
    qed
  qed
qed

lemma pick_first:
  assumes "sorted cdf" "cdf \<noteq> []"
  shows "(\<forall>j < pick cdf u. cdf ! j < u) \<and> (pick cdf u < length cdf - 1 \<longrightarrow> u \<le> cdf ! pick cdf u)"
  using pick_loop_first [OF assms(1), of 0 "length cdf - 1" u] assms(2) by (simp add: pick_def)

subsection \<open>Statements bind the values of their rows\<close>

lemma row_holders_eq: "row_holders d wrap p k vs = (p + length vs, map (\<lambda>i. holder d wrap (p + i + 1) (k + i)) [0..<length vs])"
proof (induction vs arbitrary: p k)
  case (Cons v vs)
  have "map (\<lambda>i. holder d wrap (p + i + 1) (k + i)) [0..<length (v # vs)] =
      holder d wrap (p + 1) k # map (\<lambda>i. holder d wrap (p + 1 + i + 1) (k + 1 + i)) [0..<length vs]"
    by (simp add: upt_conv_Cons map_Suc_upt [symmetric] comp_def del: upt_Suc)
  then show ?case by (simp add: Cons.IH del: upt_Suc)
qed simp

definition tuple_text :: "sql_dialect \<Rightarrow> string option list \<Rightarrow> nat \<Rightarrow> nat \<Rightarrow> string" where
  "tuple_text d wrap w p = ''('' @ join '','' (map (\<lambda>k. holder d wrap (p + k + 1) k) [0..<w]) @ '')''"

lemma row_tuples_eq:
  "row_tuples d wrap w p rows =
     (case find (\<lambda>r. length r \<noteq> w) rows of
        Some r \<Rightarrow> Inl (''multiInsert: row has '' @ show_nat (length r) @ '' values, want '' @ show_nat w)
      | None \<Rightarrow> Inr (map (\<lambda>i. tuple_text d wrap w (p + i * w)) [0..<length rows]))"
proof (induction rows arbitrary: p)
  case (Cons r rs)
  have "map (\<lambda>i. tuple_text d wrap w (p + i * w)) [0..<length (r # rs)] =
      tuple_text d wrap w p # map (\<lambda>i. tuple_text d wrap w (p + w + i * w)) [0..<length rs]"
    by (simp add: upt_conv_Cons map_Suc_upt [symmetric] comp_def add.assoc del: upt_Suc)
  then show ?case
    by (cases "length r = w") (simp_all add: Cons.IH row_holders_eq tuple_text_def split: option.split del: upt_Suc)
qed simp

lemma nth_concat_equal:
  assumes "\<forall>r \<in> set rows. length r = w" "i < length rows" "k < w"
  shows "concat rows ! (i * w + k) = rows ! i ! k"
  using assms
proof (induction rows arbitrary: i)
  case (Cons r rows)
  then show ?case by (cases i) (simp_all add: nth_append add.assoc)
qed simp

text \<open>A statement either names the first row of the wrong width, or its \<open>p\<close>-th placeholder stands for the \<open>p\<close>-th
  parameter, which is the value of its own row and column.\<close>

lemma multiInsert_binds:
  "multiInsert d table cols rows wrap =
     (case find (\<lambda>r. length r \<noteq> length cols) rows of
        Some r \<Rightarrow> Inl (''multiInsert: row has '' @ show_nat (length r) @ '' values, want '' @ show_nat (length cols))
      | None \<Rightarrow> Inr (''INSERT INTO '' @ table @ '' ('' @ join '','' cols @ '') VALUES '' @
          join '','' (map (\<lambda>i. tuple_text d wrap (length cols) (i * length cols)) [0..<length rows]), concat rows)) \<and>
   (\<forall>i k. find (\<lambda>r. length r \<noteq> length cols) rows = None \<longrightarrow> i < length rows \<longrightarrow> k < length cols \<longrightarrow>
      concat rows ! (i * length cols + k) = rows ! i ! k)"
proof (cases "find (\<lambda>r. length r \<noteq> length cols) rows")
  case None
  then have "\<forall>r \<in> set rows. length r = length cols" by (simp add: find_None_iff)
  with None show ?thesis by (simp add: multiInsert_def row_tuples_eq nth_concat_equal)
qed (simp add: multiInsert_def row_tuples_eq)

subsection \<open>The truth is what the statements ask for\<close>

lemma mset_uniq: "mset (uniq xs) = mset (remdups xs)"
  by (simp add: set_eq_iff_mset_eq_distinct [symmetric])

lemma group_count_mset: "mset (group_count (map key ev)) = mset (count_by key ev)"
  by (simp add: group_count_def count_by_eq mset_uniq)

lemma count_by_inj: "inj_on fst (set (count_by key ev))"
  by (auto simp: count_by_eq inj_on_def)

lemma sorted_group_count: "sorted (map fst (group_count ks))"
  by (simp add: group_count_def comp_def)

lemma count_by_sorted:
  assumes "comparator cmp" "\<And>x y. cmp x y \<le> 0 \<longleftrightarrow> fst x \<le> fst y"
  shows "sort_by cmp (count_by key ev) = group_count (map key ev)"
  by (rule sort_by_unique [OF assms(1) count_by_inj group_count_mset sorted_group_count]) (simp add: assms(2))

lemma split_char_pair: "c \<notin> set a \<Longrightarrow> c \<notin> set b \<Longrightarrow> split_char c (a @ c # b) = [a, b]"
proof (induction a)
  case Nil
  then have "split_char c b = [b]" by (induction b) (auto split: list.splits)
  then show ?case by simp
next
  case (Cons x a)
  then show ?case by (auto split: list.splits)
qed

lemma bar_not_digit: "CHR ''|'' \<notin> set (show_nat n)"
  using show_nat_digits [of "CHR ''|''" n] by (auto simp: is_digit_def)

lemma uniq_map_inj: "inj_on f (set ks) \<Longrightarrow> uniq (map f ks) = map f (uniq ks)"
proof (induction ks rule: rev_induct)
  case (snoc k ks)
  then have "f k \<in> f ` set ks \<longleftrightarrow> k \<in> set ks" by (auto simp: inj_on_def)
  with snoc show ?case by (simp add: uniq_snoc inj_on_Un)
qed simp

lemma count_by_comp:
  assumes "inj_on f (set (map g ev))"
  shows "count_by (\<lambda>e. f (g e)) ev = map (\<lambda>kn. (f (fst kn), snd kn)) (count_by g ev)"
proof -
  have m: "map (\<lambda>e. f (g e)) ev = map f (map g ev)" by simp
  have "count_list (map f (map g ev)) (f k) = count_list (map g ev) k" if "k \<in> set (map g ev)" for k
    using that assms by (rule count_list_inj_map [rotated])
  then show ?thesis unfolding count_by_eq m uniq_map_inj [OF assms] by (simp add: comp_def)
qed

lemma num_cmp_fin: "num_cmp (Fin a) (Fin b) = rat_diff a b"
  by (simp add: num_cmp_def)

definition count_rank :: "string \<times> jsnum \<times> nat \<Rightarrow> string \<times> rat" where
  "count_rank r = (fst r, (case fst (snd r) of Fin q \<Rightarrow> q | _ \<Rightarrow> 0))"

text \<open>With \<open>NaN\<close> the comparison is no longer consistent; only numbers that are compared matter.\<close>

lemma insert_by_cong:
  assumes "\<And>y. y \<in> set ys \<Longrightarrow> cmp x y = cmp' x y"
  shows "insert_by cmp x ys = insert_by cmp' x ys"
  using assms by (induction ys) auto

lemma set_insert_by_any: "set (insert_by cmp x xs) = insert x (set xs)"
  by (induction xs) auto

lemma sort_by_cong:
  assumes "\<And>x y. x \<in> set xs \<Longrightarrow> y \<in> set xs \<Longrightarrow> cmp x y = cmp' x y"
  shows "sort_by cmp xs = sort_by cmp' xs"
proof -
  have s: "set (foldr (insert_by c) zs []) = set zs" for c zs by (induction zs) (simp_all add: set_insert_by_any)
  have "foldr (insert_by cmp) zs [] = foldr (insert_by cmp') zs []" if "set zs \<subseteq> set xs" for zs
    using that
  proof (induction zs)
    case (Cons z zs)
    then have "insert_by cmp z (foldr (insert_by cmp) zs []) = insert_by cmp' z (foldr (insert_by cmp) zs [])"
      by (intro insert_by_cong) (auto simp: s assms subset_iff)
    with Cons show ?case by simp
  qed simp
  from this [of xs] show ?thesis by (simp add: sort_by_def)
qed

definition rank_cmp :: "string \<times> jsnum \<times> nat \<Rightarrow> string \<times> jsnum \<times> nat \<Rightarrow> int" where
  "rank_cmp = then_cmp (\<lambda>a b. code_unit_cmp (fst a) (fst b)) (\<lambda>a b. rat_diff (snd (count_rank a)) (snd (count_rank b)))"

interpretation rank_order: comparator rank_cmp
  unfolding rank_cmp_def
  by (intro comparator_then comparator_key [OF code_unit.comparator_axioms] comparator_key [OF rat_order.comparator_axioms])

lemma rank_cmp_le: "rank_cmp a b \<le> 0 \<longleftrightarrow> count_rank a \<le> count_rank b"
  by (auto simp: rank_cmp_def then_cmp_def count_rank_def code_unit_cmp_def rat_diff_def less_eq_prod_def)

definition sql_count_row :: "(string \<times> nat) \<times> nat \<Rightarrow> string \<times> jsnum \<times> nat" where
  "sql_count_row kn = (fst (fst kn), Fin (of_nat (snd (fst kn))), snd kn)"

lemma status_truth:
  assumes "\<forall>e \<in> set ev. CHR ''|'' \<notin> set (ev_country e)"
  shows "sort_by (then_cmp (\<lambda>a b. code_unit_cmp (fst a) (fst b)) (\<lambda>a b. num_cmp (fst (snd a)) (fst (snd b))))
      (map count_row (count_by (\<lambda>e. ev_country e @ ''|'' @ show_nat (ev_status e)) ev)) =
    map sql_count_row (group_count (map (\<lambda>e. (ev_country e, ev_status e)) ev))"
proof -
  let ?g = "\<lambda>e. (ev_country e, ev_status e)" and ?f = "\<lambda>(c, s). c @ ''|'' @ show_nat s"
  let ?rows = "map sql_count_row (count_by ?g ev)"
  have sp: "split_char (CHR ''|'') (?f (?g e)) = [ev_country e, show_nat (ev_status e)]" if "e \<in> set ev" for e
    using split_char_pair [of "CHR ''|''" "ev_country e"] bar_not_digit assms that by simp
  have inj: "inj_on ?f (set (map ?g ev))"
  proof (rule inj_onI)
    fix x y assume "x \<in> set (map ?g ev)" "y \<in> set (map ?g ev)" and eq: "?f x = ?f y"
    then obtain d e where "d \<in> set ev" "x = ?g d" "e \<in> set ev" "y = ?g e" by auto
    with eq sp [of d] sp [of e] show "x = y" by (simp add: show_nat_inj)
  qed
  have k: "count_by (\<lambda>e. ev_country e @ ''|'' @ show_nat (ev_status e)) ev = map (\<lambda>kn. (?f (fst kn), snd kn)) (count_by ?g ev)"
    using count_by_comp [OF inj] by simp
  have row: "count_row (?f (fst kn), snd kn) = sql_count_row kn" if "kn \<in> set (count_by ?g ev)" for kn
    using that sp by (auto simp: count_by_eq count_row_def sql_count_row_def to_number_show_nat)
  have rows: "map count_row (count_by (\<lambda>e. ev_country e @ ''|'' @ show_nat (ev_status e)) ev) = ?rows"
    unfolding k using row by (auto simp: comp_def simp del: append.simps)
  have "sort_by rank_cmp ?rows = map sql_count_row (group_count (map ?g ev))"
  proof (rule sort_by_unique [OF rank_order.comparator_axioms])
    show "inj_on count_rank (set ?rows)"
      by (auto simp: inj_on_def count_by_eq count_rank_def sql_count_row_def)
    show "mset (map sql_count_row (group_count (map ?g ev))) = mset ?rows" by (simp add: group_count_mset)
    have "sorted (map (\<lambda>k. (fst k, of_nat (snd k) :: rat)) (sort (remdups (map ?g ev))))"
      unfolding sorted_map by (rule sorted_wrt_mono_rel [OF _ sorted_sort]) (auto simp: less_eq_prod_def)
    then show "sorted (map count_rank (map sql_count_row (group_count (map ?g ev))))"
      by (simp add: group_count_def sql_count_row_def count_rank_def comp_def)
  qed (simp add: rank_cmp_le)
  moreover have "sort_by (then_cmp (\<lambda>a b. code_unit_cmp (fst a) (fst b)) (\<lambda>a b. num_cmp (fst (snd a)) (fst (snd b)))) ?rows = sort_by rank_cmp ?rows"
    by (rule sort_by_cong) (auto simp: sql_count_row_def rank_cmp_def then_cmp_def count_rank_def num_cmp_fin)
  ultimately show ?thesis unfolding rows by simp
qed

definition path_rank :: "string \<times> nat \<Rightarrow> int \<times> string" where
  "path_rank pn = (- int (snd pn), fst pn)"

interpretation path_order: comparator "then_cmp (\<lambda>a b :: string \<times> nat. int (snd b) - int (snd a)) (\<lambda>a b. code_unit_cmp (fst a) (fst b))"
proof (rule comparator_then)
  show "comparator (\<lambda>a b :: string \<times> nat. int (snd b) - int (snd a))" by unfold_locales auto
  show "comparator (\<lambda>a b :: string \<times> nat. code_unit_cmp (fst a) (fst b))" by (rule comparator_key [OF code_unit.comparator_axioms])
qed

lemma path_truth:
  "sort_by (then_cmp (\<lambda>a b. int (snd b) - int (snd a)) (\<lambda>a b. code_unit_cmp (fst a) (fst b))) (count_by ev_path ev) =
   sort_key (\<lambda>(p, n). (- int n, p)) (group_count (map ev_path ev))"
proof (rule sort_by_unique [OF path_order.comparator_axioms, where f = path_rank])
  show "inj_on path_rank (set (count_by ev_path ev))" by (auto simp: inj_on_def path_rank_def)
  have r: "(\<lambda>(p, n). (- int n, p)) = path_rank" by (auto simp: path_rank_def)
  show "sorted (map path_rank (sort_key (\<lambda>(p, n). (- int n, p)) (group_count (map ev_path ev))))" unfolding r by simp
  show "then_cmp (\<lambda>a b. int (snd b) - int (snd a)) (\<lambda>a b. code_unit_cmp (fst a) (fst b)) x y \<le> 0 \<longleftrightarrow> path_rank x \<le> path_rank y" for x y
    by (auto simp: then_cmp_def path_rank_def less_eq_prod_def code_unit_cmp_def)
qed (simp add: group_count_mset)

definition colo_row :: "td05_event list \<Rightarrow> string \<Rightarrow> string \<times> rat list" where
  "colo_row ev c = (c, map ev_latency (filter (\<lambda>e. ev_colo e = c) ev))"

lemma p95_truth:
  "sort_by (\<lambda>a b. code_unit_cmp (fst a) (fst b)) (group_by ev_colo ev_latency ev) = map (colo_row ev) (sort (remdups (map ev_colo ev)))"
  by (rule sort_by_unique [OF comparator_key [OF code_unit.comparator_axioms], where f = fst])
    (auto simp: inj_on_def group_by_eq colo_row_def comp_def mset_uniq code_unit_le cong: map_cong)

lemma hour_truth: "sort_by (\<lambda>a b. fst a - fst b) (count_by (\<lambda>e. ev_ts e div 3600) ev) = group_count (map (\<lambda>e. ev_ts e div 3600) ev)"
  by (rule count_by_sorted [OF comparator_key [OF int_diff.comparator_axioms]]) simp

lemma truth_answers:
  assumes "\<forall>e \<in> set ev. CHR ''|'' \<notin> set (ev_country e)"
  shows "td05Truth ev = sql_answers ev"
proof -
  have r: "map p95_row (map (colo_row ev) cs) =
      map (\<lambda>c. let xs = sort (map ev_latency (filter (\<lambda>e. ev_colo e = c) ev)) in (c, xs ! ((length xs - 1) * 95 div 100))) cs" for cs
    by (simp add: p95_row_def colo_row_def sort_by_rat Let_def)
  have s: "sql_count_row = (\<lambda>kn. (fst (fst kn), Fin (of_nat (snd (fst kn))), snd kn))" by (simp add: fun_eq_iff sql_count_row_def)
  show ?thesis
    unfolding td05Truth_def sql_answers_def hour_truth path_truth status_truth [OF assms] p95_truth r s by (rule refl)
qed

subsection \<open>The seeded events\<close>

definition well_seeded :: "td05_event \<Rightarrow> bool" where
  "well_seeded e = (TD05_ANCHOR_END - int TD05_SPAN_S \<le> ev_ts e \<and> ev_ts e < TD05_ANCHOR_END \<and> ev_path e \<in> set PATHS \<and>
     ev_status e \<in> fst ` set STATUS_SHARES \<and> ev_country e \<in> set COUNTRIES \<and> ev_colo e \<in> set COLOS \<and> ev_ua e \<in> set UA)"

lemma length_cumulate [simp]: "length (cumulate a xs) = length xs"
  by (induction xs arbitrary: a) auto

lemma length_zipf [simp]: "length (zipfCdf m k s) = k"
  by (simp add: zipfCdf_def Let_def)

lemma pick_zipf: "0 < k \<Longrightarrow> pick (zipfCdf m k s) u < k"
  using pick_less [of "zipfCdf m k s" u] by (cases "zipfCdf m k s = []") (metis length_zipf list.size(3) nat_less_le, simp)

lemma nth_pick_zipf: "xs \<noteq> [] \<Longrightarrow> xs ! pick (zipfCdf m (length xs) s) u \<in> set xs"
  by (simp add: pick_zipf)

lemma gen_event_seeded: "well_seeded (snd (gen_event m a))"
proof -
  have d: "snd (draw TD05_SPAN_S a) < TD05_SPAN_S" by (rule draw_less) (simp add: TD05_SPAN_S_def)
  have ua: "UA ! pick [a, b, c, d] u \<in> set UA" for a b c d u
    using pick_less [of "[a, b, c, d]" u] by (intro nth_mem) (simp add: UA_def)
  have st: "fst (STATUS_SHARES ! min (length STATUS_SHARES - Suc 0) i) \<in> fst ` set STATUS_SHARES" for i
    by (intro imageI nth_mem) (simp add: STATUS_SHARES_def)
  have ne: "PATHS \<noteq> []" "COUNTRIES \<noteq> []" "COLOS \<noteq> []" by (simp_all add: PATHS_def COUNTRIES_def COLOS_def)
  show ?thesis
    using d by (simp add: gen_event_def Let_def split_beta well_seeded_def ua st nth_pick_zipf ne)
qed

lemma gen_event_list_seeded: "e \<in> set (gen_event_list m n a) \<Longrightarrow> well_seeded e"
proof (induction n arbitrary: a)
  case (Suc n)
  then show ?case using gen_event_seeded [of m a] by (auto simp: split_beta)
qed simp

lemma length_gen_event_list [simp]: "length (gen_event_list m n a) = n"
  by (induction n arbitrary: a) (auto simp: split_beta)

lemma country_no_bar: "well_seeded e \<Longrightarrow> CHR ''|'' \<notin> set (ev_country e)"
proof -
  have "list_all (\<lambda>c. CHR ''|'' \<notin> set c) COUNTRIES" by (simp add: COUNTRIES_def)
  then show "well_seeded e \<Longrightarrow> CHR ''|'' \<notin> set (ev_country e)" by (auto simp: well_seeded_def list_all_iff)
qed

interpretation ts_order: comparator "\<lambda>a b. ev_ts a - ev_ts b"
  by (rule comparator_key [OF int_diff.comparator_axioms])

lemma seeded_events: "e \<in> set (genEvents m n seed) \<Longrightarrow> well_seeded e"
  using gen_event_list_seeded by (auto simp: genEvents_def)

lemma seeded_truth: "td05Truth (genEvents m n seed) = sql_answers (genEvents m n seed)"
  using truth_answers [of "genEvents m n seed"] country_no_bar seeded_events by blast

text \<open>C39. As many events are generated as asked for, in time order, each within the window and drawn from the lists, whatever
  the seed; and the truth the databases are checked against is what the five statements ask for.\<close>

theorem truth_of_seeded:
  "length (genEvents m n seed) = n \<and> sorted (map ev_ts (genEvents m n seed)) \<and> list_all well_seeded (genEvents m n seed) \<and>
   td05Truth (genEvents m n seed) = sql_answers (genEvents m n seed)"
proof -
  have "sorted (map ev_ts (genEvents m n seed))"
    unfolding sorted_map genEvents_def by (rule sorted_wrt_mono_rel [OF _ ts_order.sorted_sort_by]) simp
  then show ?thesis
    using seeded_events seeded_truth by (auto simp: list_all_iff) (simp add: genEvents_def)
qed

end
