(* ===== verification/Result_Print.thy ===== *)
theory Result_Print
  imports Event_Data RegExp
begin

text \<open>
  The comparison of result sets of the event log benchmark: \<open>fingerprint\<close> of \<open>td05-06-08-data.ts\<close> prints the rows of a
  query in a canonical text, and the correctness pass of \<open>tests/td05-event-log.ts\<close> compares that text with the one of
  the expected rows. The text is shown to lose nothing but the order of the columns, digits beyond the tenth and the
  difference between a number and its decimal text. Rows are objects of scalars with distinct keys; numbers are below
  the magnitude from which JavaScript prints an exponent.
\<close>

subsection \<open>Rows and their text\<close>

datatype db_cell = CellNull | CellBool bool | CellNum rat | CellText string

type_synonym db_row = "(string \<times> db_cell) list"

text \<open>A normalised value: numbers are whole tenths.\<close>

datatype flat = FlatNull | FlatBool bool | FlatTenths int | FlatText string

definition decimal_re :: re where
  "decimal_re = Seqs [Bol, Opt (Lit ''-''), Plus (Cls is_digit), Opt (Seq (Lit ''.'') (Plus (Cls is_digit))), Eol]"

text \<open>\<open>NaN\<close> and the infinities are printed as \<open>null\<close>.\<close>

definition norm_num :: "jsnum \<Rightarrow> flat" where
  "norm_num x = (case x of Fin q \<Rightarrow> FlatTenths (js_round (q * 10)) | _ \<Rightarrow> FlatNull)"

definition norm_cell :: "db_cell \<Rightarrow> flat" where
  "norm_cell v =
     (case v of
        CellText s \<Rightarrow> if re_test decimal_re s then norm_num (to_number s) else FlatText s
      | CellNum q \<Rightarrow> norm_num (Fin q)
      | CellBool b \<Rightarrow> FlatBool b
      | CellNull \<Rightarrow> FlatNull)"

definition tenths_text :: "int \<Rightarrow> string" where
  "tenths_text k =
     (if k < 0 then ''-'' else []) @ show_nat (nat \<bar>k\<bar> div 10) @
     (if nat \<bar>k\<bar> mod 10 = 0 then [] else ''.'' @ show_nat (nat \<bar>k\<bar> mod 10))"

definition flat_text :: "flat \<Rightarrow> string" where
  "flat_text v =
     (case v of FlatNull \<Rightarrow> ''null'' | FlatBool b \<Rightarrow> (if b then ''true'' else ''false'') | FlatTenths k \<Rightarrow> tenths_text k | FlatText s \<Rightarrow> quoted s)"

definition list_text :: "('a \<Rightarrow> string) \<Rightarrow> 'a list \<Rightarrow> string" where
  "list_text f xs = ''['' @ join '','' (map f xs) @ '']''"

definition pair_text :: "string \<times> flat \<Rightarrow> string" where
  "pair_text kv = ''['' @ quoted (fst kv) @ '','' @ flat_text (snd kv) @ '']''"

definition flat_row :: "db_row option \<Rightarrow> (string \<times> flat) list" where
  "flat_row r = (let ob = (case r of None \<Rightarrow> [] | Some m \<Rightarrow> m)
                 in map (\<lambda>k. (k, norm_cell (the (map_of ob k)))) (sort_by code_unit_cmp (map fst ob)))"

definition fingerprint :: "db_row option list \<Rightarrow> string" where
  "fingerprint rows = list_text (\<lambda>r. list_text pair_text (flat_row r)) rows"

subsection \<open>Texts that can be told apart\<close>

text \<open>A printer is delimited when, before a comma or a closing bracket, its text says where it ends and what was printed.\<close>

definition stop :: "char \<Rightarrow> bool" where
  "stop c = (c = CHR '','' \<or> c = CHR '']'')"

definition delimited :: "('a \<Rightarrow> string) \<Rightarrow> bool" where
  "delimited f = (\<forall>a b c d x y. stop c \<longrightarrow> stop d \<longrightarrow> f a @ c # x = f b @ d # y \<longrightarrow> a = b \<and> c # x = d # y)"

lemma delimitedD: "delimited f \<Longrightarrow> stop c \<Longrightarrow> stop d \<Longrightarrow> f a @ c # x = f b @ d # y \<Longrightarrow> a = b \<and> c = d \<and> x = y"
  unfolding delimited_def by blast

lemma delimited_chars:
  assumes "inj f" "\<And>a c. c \<in> set (f a) \<Longrightarrow> \<not> stop c"
  shows "delimited f"
proof -
  have t: "takeWhile (\<lambda>c. \<not> stop c) (f a @ c # x) = f a" if "stop c" for a c x
    using that assms(2) by (subst takeWhile_append2) auto
  show ?thesis unfolding delimited_def
  proof (intro allI impI)
    fix a b c d x y assume "stop c" "stop d" and e: "f a @ c # x = f b @ d # y"
    then have "f a = f b" using t by metis
    with e assms(1) show "a = b \<and> c # x = d # y" by (auto dest: injD)
  qed
qed

text \<open>A list in brackets is delimited when its elements are and none of them starts with a closing bracket.\<close>

definition opens :: "('a \<Rightarrow> string) \<Rightarrow> bool" where
  "opens f = (\<forall>a. \<exists>c s. f a = c # s \<and> c \<noteq> CHR '']'')"

lemma join_cons: "join s (x # xs) = x @ concat (map (\<lambda>y. s @ y) xs)"
proof (induction xs arbitrary: x)
  case (Cons y ys)
  then show ?case by (metis concat.simps(2) join.simps(3) list.simps(9) append.assoc)
qed simp

lemma rest_delimited:
  assumes "delimited f"
  shows "concat (map (\<lambda>a. CHR '','' # f a) xs) @ CHR '']'' # x = concat (map (\<lambda>a. CHR '','' # f a) ys) @ CHR '']'' # y \<Longrightarrow> xs = ys \<and> x = y"
proof (induction xs arbitrary: ys)
  case Nil
  then show ?case by (cases ys) auto
next
  case (Cons a xs)
  have h: "\<exists>c z. concat (map (\<lambda>a. CHR '','' # f a) zs) @ CHR '']'' # w = c # z \<and> stop c" for zs w
    by (cases zs) (auto simp: stop_def)
  from Cons.prems obtain b ys' where ys: "ys = b # ys'" by (cases ys) auto
  obtain c z where c: "concat (map (\<lambda>a. CHR '','' # f a) xs) @ CHR '']'' # x = c # z" "stop c" using h by blast
  obtain d w where d: "concat (map (\<lambda>a. CHR '','' # f a) ys') @ CHR '']'' # y = d # w" "stop d" using h by blast
  from Cons.prems have "f a @ c # z = f b @ d # w" by (simp add: ys c(1) d(1))
  from delimitedD [OF assms c(2) d(2) this] have "a = b" "c # z = d # w" by auto
  with Cons.IH [of ys'] c(1) d(1) show ?case by (simp add: ys)
qed

lemma list_text_unique:
  assumes "delimited f" "opens f" "list_text f xs @ x = list_text f ys @ y"
  shows "xs = ys \<and> x = y"
proof -
  have o: "\<exists>c s. f a = c # s \<and> c \<noteq> CHR '']''" for a using assms(2) by (simp add: opens_def)
  let ?r = "\<lambda>xs x. concat (map (\<lambda>a. CHR '','' # f a) xs) @ CHR '']'' # x"
  have cons: "list_text f (a # zs) @ z = CHR ''['' # f a @ ?r zs z" for a zs z
    by (simp only: list_text_def list.map join_cons) (simp add: comp_def)
  have nil: "list_text f [] @ z = CHR ''['' # CHR '']'' # z" for z by (simp add: list_text_def)
  show ?thesis
  proof (cases xs)
    case Nil
    with assms(3) o show ?thesis by (cases ys) (auto simp: nil cons, metis append_Cons list.inject)
  next
    case xs: (Cons a xs')
    show ?thesis
    proof (cases ys)
      case Nil
      with assms(3) xs o show ?thesis by (auto simp: nil cons) (metis append_Cons list.inject)
    next
      case (Cons b ys')
      with assms(3) xs have "CHR '','' # f a @ ?r xs' x = CHR '','' # f b @ ?r ys' y" by (simp add: cons)
      then have "?r (a # xs') x = ?r (b # ys') y" by simp
      from rest_delimited [OF assms(1) this] show ?thesis by (simp add: xs Cons)
    qed
  qed
qed

lemma delimited_list_text: "delimited f \<Longrightarrow> opens f \<Longrightarrow> delimited (list_text f)"
  unfolding delimited_def [of "list_text f"] using list_text_unique by blast

lemma opens_list_text: "opens (list_text f)"
  by (simp add: opens_def list_text_def)

subsection \<open>Strings, numbers and values\<close>

text \<open>Reading one escaped character back.\<close>

definition short_char :: "char \<Rightarrow> char" where
  "short_char e =
     (if e = CHR ''b'' then CHR 0x08 else if e = CHR ''t'' then CHR 0x09 else if e = CHR ''n'' then CHR 0x0A
      else if e = CHR ''f'' then CHR 0x0C else if e = CHR ''r'' then CHR 0x0D else e)"

definition unescape :: "string \<Rightarrow> char \<times> string" where
  "unescape s =
     (case s of
        b # e # r \<Rightarrow>
          if b \<noteq> CHR 0x5C then (b, e # r)
          else if e = CHR ''u'' then (char_of (16 * the (hex_val (r ! 2)) + the (hex_val (r ! 3)) :: nat), drop 4 r)
          else (short_char e, r)
      | [b] \<Rightarrow> (b, []) | [] \<Rightarrow> (CHR 0x00, []))"

definition short_codes :: "char list" where
  "short_codes = [CHR 0x22, CHR 0x5C, CHR 0x08, CHR 0x09, CHR 0x0A, CHR 0x0C, CHR 0x0D]"

lemma short_code: "(of_char c :: nat) \<in> {34, 92, 8, 9, 10, 12, 13} \<Longrightarrow> c \<in> set short_codes"
proof -
  assume "(of_char c :: nat) \<in> {34, 92, 8, 9, 10, 12, 13}"
  then have "(of_char c :: nat) \<in> of_char ` set short_codes" by (simp add: short_codes_def)
  then show ?thesis by (auto simp: of_char_eq_iff)
qed

lemma short_escapes:
  "list_all (\<lambda>c. case escape_char c of [b, e] \<Rightarrow> b = CHR 0x5C \<and> e \<noteq> CHR ''u'' \<and> short_char e = c | _ \<Rightarrow> False) short_codes"
  by code_simp

lemma hex_val_of_low: "n < 16 \<Longrightarrow> hex_val (hex_low n) = Some n"
proof -
  assume "n < 16"
  then have "n \<in> set [0..<16]" by simp
  then show ?thesis by (auto simp: upt_rec hex_val_def hex_low_def)
qed

lemma unescape_plain: "c \<noteq> CHR 0x5C \<Longrightarrow> unescape (c # x) = (c, x)"
  by (cases x) (simp_all add: unescape_def)

lemma unescape_escape: "unescape (escape_char c @ x) = (c, x)"
proof -
  let ?n = "of_char c :: nat"
  consider (short) "?n \<in> {34, 92, 8, 9, 10, 12, 13}" | (low) "?n \<notin> {34, 92, 8, 9, 10, 12, 13}" "?n < 32" | (plain) "?n \<notin> {34, 92, 8, 9, 10, 12, 13}" "32 \<le> ?n"
    by linarith
  then show ?thesis
  proof cases
    case short
    then have "c \<in> set short_codes" by (rule short_code)
    then have "case escape_char c of [b, e] \<Rightarrow> b = CHR 0x5C \<and> e \<noteq> CHR ''u'' \<and> short_char e = c | _ \<Rightarrow> False"
      using short_escapes unfolding list_all_iff by blast
    then obtain e where "escape_char c = [CHR 0x5C, e]" "e \<noteq> CHR ''u''" "short_char e = c"
      by (cases "escape_char c" rule: remdups_adj.cases) (auto split: list.split_asm)
    then show ?thesis by (simp add: unescape_def)
  next
    case low
    then have "escape_char c = CHR 0x5C # ''u00'' @ [hex_low (?n div 16), hex_low (?n mod 16)]" by (simp add: escape_char_def Let_def)
    moreover have "?n div 16 < 16" "?n mod 16 < 16" using low by auto
    ultimately show ?thesis
      by (simp add: unescape_def hex_val_of_low)
  next
    case plain
    then have "c \<noteq> CHR 0x5C" by auto
    with plain show ?thesis by (simp add: escape_char_def Let_def unescape_plain)
  qed
qed

lemma escape_unique: "escape_char c @ x = escape_char d @ y \<Longrightarrow> c = d \<and> x = y"
  by (metis Pair_inject unescape_escape)

lemma escape_no_quote: "escape_char c @ x \<noteq> CHR 0x22 # y"
  by (auto simp: escape_char_def Let_def split: if_splits)

lemma quoted_unique: "quoted s @ x = quoted t @ y \<Longrightarrow> s = t \<and> x = y"
proof -
  have "concat (map escape_char s) @ CHR 0x22 # x = concat (map escape_char t) @ CHR 0x22 # y \<Longrightarrow> s = t \<and> x = y"
  proof (induction s arbitrary: t)
    case Nil
    then show ?case using escape_no_quote by (cases t) (auto, metis)
  next
    case (Cons c s)
    then show ?case
    proof (cases t)
      case Nil
      with Cons.prems escape_no_quote show ?thesis by auto
    next
      case (Cons d t')
      with Cons.prems have "escape_char c @ (concat (map escape_char s) @ CHR 0x22 # x) = escape_char d @ (concat (map escape_char t') @ CHR 0x22 # y)"
        by simp
      from escape_unique [OF this] Cons.IH [of t'] show ?thesis by (simp add: Cons)
    qed
  qed
  then show "quoted s @ x = quoted t @ y \<Longrightarrow> s = t \<and> x = y" by (simp add: quoted_def)
qed

lemma num_chars: "c \<in> set (tenths_text k) \<Longrightarrow> is_digit c \<or> c = CHR ''-'' \<or> c = CHR ''.''"
  by (auto simp: tenths_text_def dest: show_nat_digits split: if_splits)

lemma tenths_inj: "inj tenths_text"
proof (rule injI)
  fix j k assume e: "tenths_text j = tenths_text k"
  have dig: "CHR ''-'' \<notin> set (show_nat n)" "CHR ''.'' \<notin> set (show_nat n)" for n
    using show_nat_digits [of "CHR ''-''" n] show_nat_digits [of "CHR ''.''" n] by (auto simp: is_digit_def)
  let ?m = "\<lambda>k :: int. show_nat (nat \<bar>k\<bar> div 10) @ (if nat \<bar>k\<bar> mod 10 = 0 then [] else ''.'' @ show_nat (nat \<bar>k\<bar> mod 10))"
  have neg: "CHR ''-'' \<in> set (tenths_text k) \<longleftrightarrow> k < 0" for k using dig by (auto simp: tenths_text_def)
  with e have sg: "(j < 0) = (k < 0)" by metis
  with e have m: "?m j = ?m k" by (simp add: tenths_text_def)
  have ip: "takeWhile (\<lambda>c. c \<noteq> CHR ''.'') (?m k) = show_nat (nat \<bar>k\<bar> div 10)" for k
    using dig(2) by (subst takeWhile_append2) auto
  have fp: "dropWhile (\<lambda>c. c \<noteq> CHR ''.'') (?m k) = (if nat \<bar>k\<bar> mod 10 = 0 then [] else ''.'' @ show_nat (nat \<bar>k\<bar> mod 10))" for k
    using dig(2) by (subst dropWhile_append2) auto
  from m ip have i: "nat \<bar>j\<bar> div 10 = nat \<bar>k\<bar> div 10" by (metis show_nat_inj)
  from m fp [of j] fp [of k] have "nat \<bar>j\<bar> mod 10 = nat \<bar>k\<bar> mod 10"
    by (auto simp: show_nat_inj split: if_splits)
  with i have "nat \<bar>j\<bar> = nat \<bar>k\<bar>" by (metis div_mult_mod_eq)
  with sg show "j = k" by auto
qed

lemma num_no_stop: "c \<in> set (tenths_text k) \<Longrightarrow> \<not> stop c"
  using num_chars [of c k] by (auto simp: stop_def is_digit_def)

lemma tenths_start: "\<exists>c s. tenths_text k = c # s \<and> (is_digit c \<or> c = CHR ''-'')"
proof -
  obtain d t where d: "show_nat (nat \<bar>k\<bar> div 10) = d # t" by (cases "show_nat (nat \<bar>k\<bar> div 10)") auto
  then have "is_digit d" using show_nat_digits [of d "nat \<bar>k\<bar> div 10"] by simp
  with d show ?thesis by (auto simp: tenths_text_def)
qed

lemma flat_text_start:
  "flat_text v = c # s \<Longrightarrow> (case v of FlatNull \<Rightarrow> c = CHR ''n'' | FlatBool b \<Rightarrow> c = (if b then CHR ''t'' else CHR ''f'')
     | FlatTenths k \<Rightarrow> is_digit c \<or> c = CHR ''-'' | FlatText t \<Rightarrow> c = CHR 0x22)"
  using tenths_start [of "case v of FlatTenths k \<Rightarrow> k | _ \<Rightarrow> 0"] by (cases v) (auto simp: flat_text_def quoted_def split: if_splits)

lemma flat_text_ne: "\<exists>c s. flat_text v = c # s"
  using tenths_start [of "case v of FlatTenths k \<Rightarrow> k | _ \<Rightarrow> 0"] by (cases v) (auto simp: flat_text_def quoted_def)

lemma not_digits: "\<not> is_digit (CHR ''n'')" "\<not> is_digit (CHR ''t'')" "\<not> is_digit (CHR ''f'')" "\<not> is_digit (CHR 0x22)" "\<not> is_digit (CHR '']'')"
  by (simp_all add: is_digit_def)

lemma delimited_flat: "delimited flat_text"
  unfolding delimited_def
proof (intro allI impI)
  fix a b c d x y assume st: "stop c" "stop d" and e: "flat_text a @ c # x = flat_text b @ d # y"
  obtain ca sa where a: "flat_text a = ca # sa" using flat_text_ne by blast
  obtain cb sb where b: "flat_text b = cb # sb" using flat_text_ne by blast
  from e a b have ce: "ca = cb" by simp
  have num: "delimited tenths_text" by (rule delimited_chars [OF tenths_inj num_no_stop])
  show "a = b \<and> c # x = d # y"
  proof (cases a)
    case (FlatTenths j)
    with flat_text_start [OF a] flat_text_start [OF b] ce obtain k where k: "b = FlatTenths k"
      by (cases b) (auto simp: not_digits split: if_splits)
    with e FlatTenths have "tenths_text j @ c # x = tenths_text k @ d # y" by (simp add: flat_text_def)
    from delimitedD [OF num st this] k FlatTenths show ?thesis by simp
  next
    case (FlatText s)
    with flat_text_start [OF a] flat_text_start [OF b] ce obtain t where t: "b = FlatText t"
      by (cases b) (auto simp: not_digits split: if_splits)
    with e FlatText have "quoted s @ c # x = quoted t @ d # y" by (simp add: flat_text_def)
    from quoted_unique [OF this] t FlatText show ?thesis by simp
  qed (use flat_text_start [OF a] flat_text_start [OF b] ce e in \<open>cases b; auto simp: not_digits flat_text_def split: if_splits\<close>)+
qed

lemma pair_unique: "pair_text p @ x = pair_text q @ y \<Longrightarrow> p = q \<and> x = y"
proof -
  assume "pair_text p @ x = pair_text q @ y"
  then have e: "quoted (fst p) @ (CHR '','' # flat_text (snd p) @ CHR '']'' # x) = quoted (fst q) @ (CHR '','' # flat_text (snd q) @ CHR '']'' # y)"
    by (simp add: pair_text_def)
  from quoted_unique [OF e] have f: "fst p = fst q" "flat_text (snd p) @ CHR '']'' # x = flat_text (snd q) @ CHR '']'' # y" by simp_all
  from delimitedD [OF delimited_flat _ _ f(2)] f(1) show ?thesis by (simp add: stop_def prod_eq_iff)
qed

lemma delimited_pair: "delimited pair_text"
  unfolding delimited_def using pair_unique by blast

lemma opens_pair: "opens pair_text"
  by (simp add: opens_def pair_text_def)

lemma fingerprint_rows: "fingerprint a = fingerprint b \<longleftrightarrow> map flat_row a = map flat_row b"
proof
  have f: "fingerprint rows = list_text (list_text pair_text) (map flat_row rows)" for rows
    by (simp add: fingerprint_def list_text_def comp_def)
  show "fingerprint a = fingerprint b \<Longrightarrow> map flat_row a = map flat_row b"
    using list_text_unique [OF delimited_list_text [OF delimited_pair opens_pair] opens_list_text, of "map flat_row a" "[]" "map flat_row b" "[]"]
    by (simp add: f)
  show "map flat_row a = map flat_row b \<Longrightarrow> fingerprint a = fingerprint b" by (simp add: f)
qed

subsection \<open>The check of an aggregate\<close>

definition row_cells :: "db_row option \<Rightarrow> db_row" where
  "row_cells r = (case r of None \<Rightarrow> [] | Some m \<Rightarrow> m)"

definition same_row :: "db_row option \<Rightarrow> db_row option \<Rightarrow> bool" where
  "same_row r s = (\<forall>k. map_option norm_cell (map_of (row_cells r) k) = map_option norm_cell (map_of (row_cells s) k))"

lemma flat_row_cells: "flat_row r = map (\<lambda>k. (k, norm_cell (the (map_of (row_cells r) k)))) (sort (map fst (row_cells r)))"
  by (simp add: flat_row_def row_cells_def sort_by_code_unit Let_def)

lemma map_of_keyed: "map_of (map (\<lambda>k. (k, f k)) ks) k = (if k \<in> set ks then Some (f k) else None)"
  by (induction ks) auto

lemma key_cell: "k \<in> fst ` set m \<longleftrightarrow> map_of m k \<noteq> None"
  by (simp add: map_of_eq_None_iff)

lemma map_of_flat_row: "map_of (flat_row r) k = map_option norm_cell (map_of (row_cells r) k)"
  by (cases "map_of (row_cells r) k") (simp_all add: flat_row_cells map_of_keyed key_cell)

lemma flat_row_same:
  assumes "distinct (map fst (row_cells r))" "distinct (map fst (row_cells s))"
  shows "flat_row r = flat_row s \<longleftrightarrow> same_row r s"
proof
  show "flat_row r = flat_row s \<Longrightarrow> same_row r s" by (simp add: same_row_def map_of_flat_row [symmetric])
  assume sm: "same_row r s"
  have "fst ` set (row_cells r) = fst ` set (row_cells s)"
    using sm unfolding same_row_def by (intro set_eqI) (metis key_cell map_option_is_None)
  then have "sort (map fst (row_cells r)) = sort (map fst (row_cells s))"
    using assms by (intro sorted_distinct_set_unique) simp_all
  moreover have "norm_cell (the (map_of (row_cells r) k)) = norm_cell (the (map_of (row_cells s) k))" if "k \<in> fst ` set (row_cells r)" for k
  proof -
    from that obtain v where "map_of (row_cells r) k = Some v" by (metis key_cell not_None_eq)
    with sm show ?thesis unfolding same_row_def by (metis map_option_eq_Some option.sel)
  qed
  ultimately show "flat_row r = flat_row s"
    using \<open>fst ` set (row_cells r) = fst ` set (row_cells s)\<close> by (auto simp: flat_row_cells cong: map_cong)
qed

lemma fingerprint_same:
  assumes "\<forall>r \<in> set a. distinct (map fst (row_cells r))" "\<forall>r \<in> set b. distinct (map fst (row_cells r))"
  shows "fingerprint a = fingerprint b \<longleftrightarrow> list_all2 same_row a b"
  unfolding fingerprint_rows using assms
proof (induction a arbitrary: b)
  case (Cons r a)
  then show ?case by (cases b) (auto simp: flat_row_same)
qed simp

definition num_value :: "jsnum \<Rightarrow> db_cell" where
  "num_value x = (case x of Fin q \<Rightarrow> CellNum q | _ \<Rightarrow> CellNull)"

definition truth_rows :: "td05_truth \<Rightarrow> td05_query \<Rightarrow> db_row option list" where
  "truth_rows t q =
     (let num = (\<lambda>i :: int. CellNum (of_int i)) in
      case q of
        ByHour \<Rightarrow> map (\<lambda>(h, n). Some [(''h'', num h), (''n'', num (int n))]) (td_by_hour t)
      | TopPaths \<Rightarrow> map (\<lambda>(p, n). Some [(''path'', CellText p), (''n'', num (int n))]) (td_top_paths t)
      | StatusByCountry \<Rightarrow> map (\<lambda>(c, s, n). Some [(''country'', CellText c), (''status'', num_value s), (''n'', num (int n))]) (td_status t)
      | P95ByColo \<Rightarrow> map (\<lambda>(c, p). Some [(''colo'', CellText c), (''p95'', CellNum p)]) (td_p95 t)
      | Last24h \<Rightarrow> [Some [(''n'', num (int (td_last t)))]])"

text \<open>What the operation of a statement gave: whether it succeeded, and the rows of its first result, if any.\<close>

definition aggregate_correct :: "(bool \<times> db_row option list option) option \<Rightarrow> td05_truth \<Rightarrow> td05_query \<Rightarrow> bool" where
  "aggregate_correct got t q =
     (case got of None \<Rightarrow> False
      | Some (ok, rows) \<Rightarrow> ok \<and> fingerprint (case rows of None \<Rightarrow> [] | Some rs \<Rightarrow> rs) = fingerprint (truth_rows t q))"

lemma truth_rows_distinct: "r \<in> set (truth_rows t q) \<Longrightarrow> distinct (map fst (row_cells r))"
  by (cases q) (auto simp: truth_rows_def row_cells_def Let_def)

definition flat_math :: js_math where
  "flat_math = \<lparr>ma_pow = (\<lambda>_ _. 1), ma_exp = (\<lambda>x. x), ma_log = (\<lambda>x. x - 1), ma_cos = (\<lambda>_. 1), ma_sqrt = (\<lambda>x. x), ma_pi = 3\<rparr>"

text \<open>The first event of the seed falls outside the last day.\<close>

lemma first_offset: "snd (draw TD05_SPAN_S (rng_seed TD05_SEED)) = 242673"
proof -
  have "\<lfloor>8142772565025 / 33554432 :: rat\<rfloor> = 242673" by (simp add: floor_eq_iff)
  then show ?thesis by (simp add: draw_def rng_next_def rng_seed_def rng_value_def TD05_SEED_def TD05_SPAN_S_def Let_def)
qed

lemma one_event_last: "truth_rows (sql_answers (genEvents flat_math (Suc 0) TD05_SEED)) Last24h = [Some [(''n'', CellNum 0)]]"
  using first_offset
  by (simp add: truth_rows_def sql_answers_def genEvents_def gen_event_def split_beta Let_def TD05_ANCHOR_END_def TD05_SPAN_S_def sort_by_def)

lemma zero_text: "norm_cell (CellText ''0'') = norm_cell (CellNum 0)" "norm_cell (CellNum 1) \<noteq> norm_cell (CellNum 0)"
proof -
  have "re_test decimal_re ''0''" by code_simp
  moreover have "to_number ''0'' = Fin 0" using to_number_show_nat [of 0] by (simp add: show_nat.simps digit_char_def)
  ultimately show "norm_cell (CellText ''0'') = norm_cell (CellNum 0)" by (simp add: norm_cell_def)
  show "norm_cell (CellNum 1) \<noteq> norm_cell (CellNum 0)" using js_round_int [of 10] js_round_int [of 0] by (simp add: norm_cell_def norm_num_def)
qed

lemma one_field: "same_row (Some [(k, v)]) (Some [(k, w)]) \<longleftrightarrow> norm_cell v = norm_cell w"
  by (auto simp: same_row_def row_cells_def)



end
