(* ===== verification/Spec2Isabelle.thy ===== *)
theory Spec2Isabelle
  imports Plan Ctx Sampler Run Runbook Outage Slots Fan_Merge Reconcile Connfault Probes Matrix Retry_Policy Fault_Proxy Replica_Routing Stats Doc_Numbers Run_Worker Lane_Adapters Bench_Plan Bench_Load Acl Triage Platform_Readings Keyed_Upload Key_Service Keyed_Session Fanout_Api Open_Loop Totp Session_Carry Event_Data Result_Print
begin

text \<open>
  A verification development of supabase-lab: the measurement harness under \<open>harness/\<close> and the
  libraries with logic of their own among the experiments.

  \<^bold>\<open>The program.\<close> A run reads a command line and an environment, builds a context with the
  capabilities of the vantage (\<open>harness/src/ctx.ts\<close>), plans which test modules may run
  (\<open>plan.ts\<close>), runs each against a timeout and a watch on the event loop (\<open>run.ts\<close>,
  \<open>settle.ts\<close>), marks results the host's sleep has spoilt (\<open>host-pause.ts\<close>) and writes an
  artifact and its report (\<open>report.ts\<close>). Artifacts are merged, compared (\<open>diff.ts\<close>) and rendered as
  facts (\<open>facts.ts\<close>), and a write-up's figures are checked against them (\<open>doc-numbers.ts\<close>). Modules use
  the path sampler (\<open>sampler.ts\<close>), the feature matrix (\<open>matrix.ts\<close>), the Management API client and its
  helpers (\<open>mgmt.ts\<close>, \<open>platform.ts\<close>, \<open>graphql.ts\<close>) and the data-path probes (\<open>real-probes.ts\<close>). Experiments add
  libraries: a change gate and an unattended restart runbook, outage accounting, replication slot
  ledgers, a fan-out merge over projects, a reconciler for orphaned projects, a fault-injecting
  proxy, a hedging client policy with its own fault proxy, the figures of replica routing, and fairness
  statistics, a benchmark of SQL backends, end-to-end encrypted objects read in ranges, a caching fan-out API, an
  open-loop load generator, and the procedures that carry users, sessions, objects and keys between projects.

  \<^bold>\<open>Foundations.\<close>
  \<^item> \<open>Prelude\<close>: JavaScript strings, arrays, stable sorting, objects in insertion order and their lemmas;
    the locale \<open>comparator\<close> is the contract of a comparison function, interpreted on the default
    order, on differences of numbers, and in \<open>Plan\<close>, \<open>Gate\<close>, \<open>Outage\<close> and \<open>Fan_Merge\<close> on the source's own.
  \<^item> \<open>RegExp\<close>: the regular expressions the source uses, as a backtracking matcher and as a relation,
    shown to agree; \<open>exec\<close>, \<open>test\<close>, \<open>replace\<close> and \<open>matchAll\<close>.
  \<^item> \<open>Json\<close>, \<open>Json_Text\<close>, \<open>Js_Number\<close>, \<open>Dates\<close>, \<open>Iso_Date\<close>: JSON values and their texts, \<open>Number(s)\<close>,
    \<open>Date.parse\<close> and \<open>toISOString\<close> (the day printed is shown to be the day of the number).
  \<^item> \<open>Simulation\<close>: runs of an event-driven component and the locale \<open>simulation\<close>, by which it
    implements an automaton over its outputs; interpreted in \<open>Connfault\<close> and \<open>Fault_Proxy\<close>.

  \<^bold>\<open>The harness.\<close>
  \<^item> \<open>Harness_Types\<close> (\<open>types.ts\<close>) and \<open>Plan\<close> (\<open>planRun\<close>): every selected module is run or skipped with one
    reason, none is lost, and destructive ones come last.
  \<^item> \<open>Ctx\<close> (\<open>buildCtx\<close>, \<open>deriveCapabilities\<close>, the role readers): which roles an environment names.
  \<^item> \<open>Host_Pause\<close>, \<open>Sampler\<close>: \<open>sampleDuring\<close> as a step relation over its loops, watchdog and clock. Every window
    it returns is consistent, a result is never an early exit, recovery times are exact, and it ends.
  \<^item> \<open>Settle\<close>, \<open>Run\<close>: how a module is judged and why; a run accounts for every module and ends; merging
    keeps every test; the offline modes depend on nothing else.
  \<^item> \<open>Diff\<close>, \<open>Report\<close>, \<open>Doc_Numbers\<close>: the diff lists exactly the differences and reverses; a table cell cannot
    break its row; every figure of a number is quotable; the report has every result.
  \<^item> \<open>Matrix\<close>, \<open>Mgmt\<close>, \<open>Probes\<close>: targets parse exactly or fail, retries stop, and the Realtime probe reports up
    only when its own data came back.

  \<^bold>\<open>The experiments.\<close>
  \<^item> \<open>Gate\<close>, \<open>Runbook\<close> (\<open>lifecycle-ops\<close>): when a change may proceed; the supervisor restarts at most once,
    never inside its cooldown, reports recovery only on evidence, and ends.
  \<^item> \<open>Outage\<close> (\<open>compute-disk\<close>), \<open>Slots\<close> (\<open>restore-paths\<close>), \<open>Fan_Merge\<close> (\<open>cross-project-auth\<close>): outages are exactly the
    runs of failures and none is lost between phases; log positions round trip and the ledger
    flags exactly the redeliveries; a merged page is the page of the union.
  \<^item> \<open>Reconcile\<close>, \<open>Connfault\<close> (\<open>mgmt-api-faults\<close>): an orphan is reported only after an unbroken grace period; the
    proxy implements its connection automaton and reads requests independently of how bytes arrive.
  \<^item> \<open>Retry_Policy\<close>, \<open>Fault_Proxy\<close> (\<open>client-retries\<close>): at most two attempts and the right one wins; the proxy
    that injects the faults keeps its promise per request and gives each request the fault its
    script has for it.
  \<^item> \<open>Raw_Http\<close>, \<open>Replica_Routing\<close> (\<open>replica-routing\<close>): chunked bodies are decoded exactly, and a negative
    chunk size is shown to make the decoder loop; ticks are counted once, transitions chain, stale
    episodes are exactly the stale stretches.
  \<^item> \<open>Stats\<close>, \<open>Run_Contract\<close>, \<open>Exec_Run\<close>, \<open>Run_Worker\<close>, \<open>Lane_Adapters\<close>, \<open>Bench_Plan\<close>, \<open>Bench_Load\<close>
    (\<open>sqlite-edge-compare\<close>): the schedule favours no backend and draws lie in the unit interval; a run request is
    accepted exactly when it is well typed; a run ends with exactly the operations it was asked for under every
    interleaving of its lanes; a transaction commits whole or is rolled back; a request split over invocations of
    the Worker runs everything; keys drawn are seeded rows; no measured operation is lost on the way to the statistics.
  \<^item> \<open>Event_Data\<close>, \<open>Result_Print\<close> (\<open>sqlite-edge-compare/lib/td05-06-08-data.ts\<close>, \<open>tests/td05-event-log.ts\<close>): statements of
    several rows bind each value to its column; the seeded events stay in their window; the expected rows are the groups and
    counts the SQL asks for, and the check of a database's answer accepts exactly those rows.
  \<^item> \<open>Acl\<close> (\<open>partitioned-tenancy\<close>), \<open>Triage\<close>, \<open>Platform_Readings\<close> (\<open>platform-downtime\<close>, \<open>edge-function-limits\<close> and
    others): the statements that restore default privileges restore them; failures are classed and readings taken.
  \<^item> \<open>Envelope\<close>, \<open>Ranged_Read\<close>, \<open>Keyed_Upload\<close>, \<open>Key_Service\<close>, \<open>Keyed_Session\<close> (\<open>client-keyed-objects\<close>): the chunked
    envelope (\<open>envelope.ts\<close>, \<open>errors.ts\<close>), reads (\<open>read.ts\<close>, \<open>keys.ts\<close>), both upload transports (\<open>upload.ts\<close>), the key
    service (\<open>keysvc/server.ts\<close>), sign-in, refresh and calls of the Data API (\<open>ctx.ts\<close>, \<open>catalogue.ts\<close>). A read
    returns the bytes of the range asked for or fails, whatever the services answer; what was uploaded is read
    back; hashes are recorded before the bytes they cover are sent; the key service answers only admitted callers and
    gives back what it wrapped; refreshes of a session never overlap.
  \<^item> \<open>Fanout_Api\<close> (\<open>governed-starter-kit\<close>): the aggregate of a fan-out hides no failure, and only what may be
    cached is stored.
  \<^item> \<open>Open_Loop\<close> (\<open>edge-burst/lib/load.ts\<close>, \<open>arm.ts\<close>): the load generator's workers as steps of a schedule; it sends
    exactly the requests of its plan and never more than the cap at once, and with no cap none waits.
  \<^item> \<open>Totp\<close>, \<open>Session_Carry\<close> (\<open>session-carry\<close>, \<open>tenant-promotion\<close>, \<open>tenant-consolidation\<close>, \<open>key-rotation\<close>): base32
    round trips and the one-time codes are those of RFC 6238; a user is copied between projects with
    exactly its own rows, room is made without deleting what is in use, and a copy the code does not check may pass.

  \<^bold>\<open>How code becomes definitions.\<close> A function is a function; an asynchronous one is cut at its
  awaits, and what settles, fires or arrives is an event with its data. Clocks, answers of the
  network and of other programs, files and \<open>JSON.parse\<close> are arguments. A throw is the left side of a
  sum, \<open>undefined\<close> and \<open>null\<close> are \<open>None\<close> where the code treats them alike. Strings are sequences of Latin-1
  characters; counts and milliseconds are integers, measured times and statistics exact rationals,
  the generator of \<open>Stats\<close> works on 32-bit words. Objects are association lists in insertion order,
  with keys that are not array indices. \<open>localeCompare\<close> is a parameter under the \<open>comparator\<close> contract.
  Loops over given data are recursive; a loop that waits takes the list of what its rounds observe,
  and is shown to return once a round meets its end condition; matching takes as many rounds as
  there are characters, which is shown to be enough. Loops of the code that may not end (\<open>untilOk\<close>,
  \<open>read_windows\<close>, \<open>list_pages\<close>, \<open>slice_loop\<close>) are partial functions whose value is \<open>None\<close> when they do not; that
  they return is a theorem of its own. Code outside the repository is an argument: AES-GCM under the law that opening
  what was sealed with the same key, nonce and associated data gives the plaintext, SHA-256 and MD5 as any functions, HMAC-SHA1 as any function
  with digests of twenty bytes, the real-valued functions of \<open>Math\<close> as any functions, and the services (Auth, Data API, Storage, SQL servers) as worlds that say what they answer.

  \<^bold>\<open>Not modelled.\<close> Console output; rounding of doubles and their printing (\<open>sbperf.ts\<close>), and the durations a
  read or an upload reports; the child processes and sockets themselves (\<open>preventIdleSleep\<close>, the streaming slot
  consumer, the TLS trap); the wiring of the \<open>tus\<close> client library (\<open>runTus\<close>); the build-time scripts; the evidence
  publisher's redaction; the free-text parsers of \<open>disk-change.ts\<close>; demo user interfaces; and the experiments' test
  modules, which are sequences of calls against live projects.

  This theory holds the property that spans the harness, from the command line to the artifact.
\<close>

section \<open>From the command line to the artifact\<close>

definition requires :: "test_module \<Rightarrow> capability \<Rightarrow> bool" where
  "requires m c = (case tm_requires m of None \<Rightarrow> False | Some cs \<Rightarrow> c \<in> set cs)"

lemma ctx_capabilities:
  "CapDirectDb \<notin> cx_capabilities (ctx_of w wh)"
  "CapPat \<in> cx_capabilities (ctx_of w wh) \<longleftrightarrow> truthy (cx_pat (ctx_of w wh))"
  "CapDb \<in> cx_capabilities (ctx_of w wh) \<longleftrightarrow> cx_dbPassword (ctx_of w wh) \<noteq> [] \<and> cx_phzHost (ctx_of w wh) \<noteq> []"
  "CapLambda \<in> cx_capabilities (ctx_of w wh) \<longleftrightarrow> wh = Local \<and> env_get (ho_env (wo_host w)) ''PVLAB_LAMBDA'' = Some ''1''"
  by (simp_all add: ctx_of_def buildCtx_def Let_def deriveCapabilities_vantage) (simp_all add: truthy_def)

lemma planned_modules:
  assumes "comparator lc"
  shows "set (pl_run (plan_of lc w wh)) =
      {m \<in> set (loadTests (wo_generated w) (wo_files w) (wo_import w)).
         selected (run_options w wh (ctx_of w wh)) m \<and> eligible (run_options w wh (ctx_of w wh)) m}"
    and "set (pl_skipped (plan_of lc w wh)) =
      skip_result (run_options w wh (ctx_of w wh)) ` {m \<in> set (loadTests (wo_generated w) (wo_files w) (wo_import w)).
         selected (run_options w wh (ctx_of w wh)) m \<and> \<not> eligible (run_options w wh (ctx_of w wh)) m}"
  unfolding plan_of_def planRun_run planRun_skipped
  by (simp_all add: comparator.set_sort_by [OF comparator_run_cmp [OF assms]] comparator.set_sort_by [OF comparator_skip_cmp [OF assms]])

lemma run_results:
  assumes "runMode lc w wh out = Exit code (WriteArtifact f a # outs)"
  shows "set (pl_skipped (plan_of lc w wh)) \<subseteq> set (ra_results a)"
proof -
  let ?p = "plan_of lc w wh"
  let ?st = "\<lparr>rs_results = pl_skipped ?p, rs_unsettled = [], rs_watch = createDrainWatch\<rparr>"
  from assms obtain st where st: "run_loop (with_io w (pl_run ?p)) ?st = Some st" "a = artifact_of w wh (rs_results st)"
    by (cases "run_loop (with_io w (pl_run ?p)) ?st") (auto simp: runMode_def Let_def)
  from run_loop_judged [OF st(1)] st(2) show ?thesis by (auto simp: artifact_of_def Let_def)
qed



end
